(* ===== verification/Prelude.thy ===== *)
theory Prelude
  imports Main "HOL-Library.AList" "HOL-Library.List_Lexorder" "HOL-Library.Char_ord"
    "HOL-Library.Multiset" "HOL-Library.Code_Target_Nat"
begin

text \<open>
  The vocabulary the components of the NIR chain share: JavaScript values, results that may
  be a thrown error, insertion-ordered maps (\<open>Map\<close>), safe integers, the regular
  expressions for addresses and hashes, and the two interfaces (locales) the ledger
  components are clients of. Nothing here is about one particular component.
\<close>

section \<open>Rule collections\<close>

named_theorems inversion \<open>what a successful call tells about its guards\<close>
named_theorems map_laws \<open>laws of the insertion-ordered map\<close>

section \<open>Results\<close>

text \<open>
  A function that may throw returns \<open>Inl error\<close> or \<open>Inr value\<close>. \<open>bind_r\<close> sequences two
  calls, the first error winning, as an uncaught exception does.
\<close>

definition bind_r :: "'e + 'a \<Rightarrow> ('a \<Rightarrow> 'e + 'b) \<Rightarrow> 'e + 'b" where
  "bind_r m f = (case m of Inl e \<Rightarrow> Inl e | Inr x \<Rightarrow> f x)"

lemma bind_r_simps [simp]:
  "bind_r (Inl e) f = Inl e" "bind_r (Inr x) f = f x"
  by (simp_all add: bind_r_def)

lemma bind_r_Inr_iff [inversion]: "bind_r m f = Inr y \<longleftrightarrow> (\<exists>x. m = Inr x \<and> f x = Inr y)"
  by (cases m) auto

lemma if_Inl_Inr_iff [inversion]:
  "(if c then Inl e else r) = Inr y \<longleftrightarrow> \<not> c \<and> r = Inr y"
  by auto

lemma bind_r_cong [fundef_cong]:
  "m = m' \<Longrightarrow> (\<And>x. m' = Inr x \<Longrightarrow> f x = f' x) \<Longrightarrow> bind_r m f = bind_r m' f'"
  by (cases m') auto

text \<open>An error of a called component, wrapped as an error of the caller.\<close>

definition map_err :: "('e \<Rightarrow> 'f) \<Rightarrow> 'e + 'a \<Rightarrow> 'f + 'a" where
  "map_err h m = (case m of Inl e \<Rightarrow> Inl (h e) | Inr x \<Rightarrow> Inr x)"

lemma map_err_simps [simp]:
  "map_err h (Inl e) = Inl (h e)" "map_err h (Inr x) = Inr x"
  by (simp_all add: map_err_def)

lemma map_err_Inr_iff [inversion]: "map_err h m = Inr x \<longleftrightarrow> m = Inr x"
  by (cases m) auto

text \<open>A loop whose body may throw: the items are processed in order, the first error ends it.\<close>

fun foldM :: "('s \<Rightarrow> 'i \<Rightarrow> 'e + 's) \<Rightarrow> 's \<Rightarrow> 'i list \<Rightarrow> 'e + 's" where
  "foldM step s [] = Inr s"
| "foldM step s (i # is) = bind_r (step s i) (\<lambda>s'. foldM step s' is)"

fun mapM :: "('i \<Rightarrow> 'e + 'o) \<Rightarrow> 'i list \<Rightarrow> 'e + 'o list" where
  "mapM f [] = Inr []"
| "mapM f (i # is) = bind_r (f i) (\<lambda>x. bind_r (mapM f is) (\<lambda>xs. Inr (x # xs)))"

lemma mapM_length: "mapM f xs = Inr ys \<Longrightarrow> length ys = length xs"
  by (induction xs arbitrary: ys) (auto simp: inversion)

lemma mapM_nth: "mapM f xs = Inr ys \<Longrightarrow> i < length xs \<Longrightarrow> f (xs ! i) = Inr (ys ! i)"
proof (induction xs arbitrary: ys i)
  case (Cons x xs)
  then show ?case by (cases i) (auto simp: inversion)
qed simp

lemma foldM_append:
  "foldM step s (xs @ ys) = bind_r (foldM step s xs) (\<lambda>s'. foldM step s' ys)"
proof (induction xs arbitrary: s)
  case (Cons x xs)
  then show ?case by (cases "step s x") auto
qed simp

section \<open>Machines\<close>

text \<open>
  A component is driven by operations that either succeed or leave everything as it was. What
  each operation keeps, every run of operations keeps (\<open>guarded_machine\<close>), and a measure of
  value that no operation changes is the same at the end of every run (\<open>conserving_machine\<close>).
\<close>

locale guarded_machine =
  fixes step :: "'s \<Rightarrow> 'op \<Rightarrow> 'e + 's"
    and inv :: "'s \<Rightarrow> bool"
  assumes step_inv: "inv s \<Longrightarrow> step s op = Inr s' \<Longrightarrow> inv s'"
begin

lemma run_inv: "inv s \<Longrightarrow> foldM step s ops = Inr s' \<Longrightarrow> inv s'"
  by (induction ops arbitrary: s) (auto simp: bind_r_Inr_iff dest: step_inv)

end

locale conserving_machine = guarded_machine step inv
  for step :: "'s \<Rightarrow> 'op \<Rightarrow> 'e + 's" and inv :: "'s \<Rightarrow> bool" +
  fixes worth :: "'s \<Rightarrow> int"
  assumes step_worth: "inv s \<Longrightarrow> step s op = Inr s' \<Longrightarrow> worth s' = worth s"
begin

lemma run_worth: "inv s \<Longrightarrow> foldM step s ops = Inr s' \<Longrightarrow> worth s' = worth s"
proof (induction ops arbitrary: s)
  case (Cons op ops)
  then obtain t where "step s op = Inr t" "foldM step t ops = Inr s'" by (auto simp: bind_r_Inr_iff)
  with Cons step_inv step_worth show ?case by metis
qed simp

end

section \<open>Sets in insertion order\<close>

text \<open>\<open>[...new Set(xs)]\<close>: the distinct elements, each at its first position.\<close>

definition uniq :: "'a list \<Rightarrow> 'a list" where
  "uniq xs = foldl (\<lambda>acc x. if x \<in> set acc then acc else acc @ [x]) [] xs"

lemma foldl_uniq:
  "distinct acc \<Longrightarrow>
   distinct (foldl (\<lambda>acc x. if x \<in> set acc then acc else acc @ [x]) acc xs) \<and>
   set (foldl (\<lambda>acc x. if x \<in> set acc then acc else acc @ [x]) acc xs) = set acc \<union> set xs"
  by (induction xs arbitrary: acc) auto

lemma distinct_uniq [simp]: "distinct (uniq xs)"
  by (simp add: uniq_def foldl_uniq)

lemma set_uniq [simp]: "set (uniq xs) = set xs"
  by (simp add: uniq_def foldl_uniq)

text \<open>\<open>new Set(xs).size === xs.length\<close>\<close>

lemma length_uniq_iff: "length (uniq xs) = length xs \<longleftrightarrow> distinct xs"
  by (metis card_distinct distinct_card distinct_uniq set_uniq)

lemma sum_list_uniq: "(\<Sum>x \<leftarrow> uniq xs. f x) = (\<Sum>x \<in> set xs. f x)"
  by (metis distinct_uniq set_uniq sum_list_distinct_conv_sum_set)

section \<open>Sorting by a comparison of the host\<close>

text \<open>
  \<open>Array.prototype.sort\<close> with a comparison that is not the order of code units: \<open>order a b\<close> says that
  \<open>a\<close> comes after \<open>b\<close>. The sort is stable.
\<close>

fun insertBy :: "('k \<Rightarrow> 'k \<Rightarrow> bool) \<Rightarrow> 'k \<times> 'v \<Rightarrow> ('k \<times> 'v) list \<Rightarrow> ('k \<times> 'v) list" where
  "insertBy order x [] = [x]"
| "insertBy order x (y # ys) = (if order (fst x) (fst y) then y # insertBy order x ys else x # y # ys)"

definition in_order :: "('k \<Rightarrow> 'k \<Rightarrow> bool) \<Rightarrow> ('k \<times> 'v) list \<Rightarrow> bool" where
  "in_order order xs \<longleftrightarrow> successively (\<lambda>x y. \<not> order (fst x) (fst y)) xs"

lemma insert_in_order:
  assumes "\<And>a b. order a b \<Longrightarrow> \<not> order b a"
  shows "in_order order xs \<Longrightarrow> in_order order (insertBy order x xs)"
proof (induction xs)
  case (Cons y ys)
  then have ys: "in_order order (insertBy order x ys)" by (cases ys) (auto simp: in_order_def)
  show ?case
  proof (cases "order (fst x) (fst y)")
    case True
    with ys Cons.prems assms [of "fst x" "fst y"] show ?thesis
      by (cases ys) (auto simp: in_order_def split: if_splits)
  next
    case False
    with Cons.prems show ?thesis by (simp add: in_order_def)
  qed
qed (simp add: in_order_def)

lemma in_order_fold: "in_order order xs \<Longrightarrow> foldr (insertBy order) xs [] = xs"
proof (induction xs)
  case (Cons x xs)
  then have "foldr (insertBy order) xs [] = xs" by (cases xs) (auto simp: in_order_def)
  with Cons.prems show ?case by (cases xs) (auto simp: in_order_def)
qed simp

lemma insertBy_mset: "mset (insertBy order x xs) = add_mset x (mset xs)"
  by (induction xs) auto

lemma foldr_insertBy_mset: "mset (foldr (insertBy order) xs []) = mset xs"
  by (induction xs) (simp_all add: insertBy_mset)

lemma foldr_in_order: "(\<And>a b. order a b \<Longrightarrow> \<not> order b a) \<Longrightarrow> in_order order (foldr (insertBy order) xs [])"
  by (induction xs) (simp add: in_order_def, simp add: insert_in_order)

section \<open>JavaScript values\<close>

text \<open>
  The values a field of a transaction can hold. \<open>JNum\<close> is a number that is an integer,
  \<open>JNegZero\<close> the number \<open>-0\<close>, \<open>JFrac\<close> any other number (a fraction, \<open>NaN\<close>, an infinity),
  \<open>JBig\<close> a bigint. A missing field reads as \<open>JUndef\<close>. Strings are lists of code units below
  256: every string the modelled code compares, parses or uses as a key is ASCII.
\<close>

datatype jsval =
    JUndef
  | JNull
  | JBool bool
  | JNum int
  | JNegZero
  | JFrac
  | JBig int
  | JStr string
  | JArr "jsval list"
  | JObj "(string \<times> jsval) list"

type_synonym jsobj = "(string \<times> jsval) list"

text \<open>\<open>fld o k\<close> is the property access \<open>o.k\<close>.\<close>

definition fld :: "jsobj \<Rightarrow> string \<Rightarrow> jsval" where
  "fld obj k = (case map_of obj k of None \<Rightarrow> JUndef | Some v \<Rightarrow> v)"

text \<open>
  \<open>Object.getPrototypeOf(v) === Object.prototype\<close> with the own properties, and
  \<open>Object.keys(v).sort().join("\\0") === [...fields].sort().join("\\0")\<close>.
\<close>

fun plain_object :: "jsval \<Rightarrow> jsobj option" where
  "plain_object (JObj kvs) = Some kvs"
| "plain_object _ = None"

definition join0 :: "string list \<Rightarrow> string" where
  "join0 ks = concat (map (\<lambda>k. k @ [CHR 0x00]) (sort ks))"

definition keys_are :: "jsobj \<Rightarrow> string list \<Rightarrow> bool" where
  "keys_are obj fields \<longleftrightarrow> join0 (map fst obj) = join0 fields"

text \<open>An array whose entries are all strings.\<close>

fun str_array :: "jsval list \<Rightarrow> string list option" where
  "str_array [] = Some []"
| "str_array (JStr s # vs) = map_option ((#) s) (str_array vs)"
| "str_array (_ # vs) = None"

lemma str_array_Some_iff: "str_array vs = Some ss \<longleftrightarrow> vs = map JStr ss"
  by (induction vs arbitrary: ss rule: str_array.induct) (auto simp: map_eq_Cons_conv Cons_eq_map_conv)

definition MAX_SAFE_INTEGER :: int where
  "MAX_SAFE_INTEGER = 9007199254740991"

text \<open>\<open>Number.isSafeInteger(v)\<close>, with the integer it is.\<close>

fun safe_int :: "jsval \<Rightarrow> int option" where
  "safe_int (JNum n) = (if \<bar>n\<bar> \<le> MAX_SAFE_INTEGER then Some n else None)"
| "safe_int JNegZero = Some 0"
| "safe_int _ = None"

definition is_safe_int :: "int \<Rightarrow> bool" where
  "is_safe_int n \<longleftrightarrow> \<bar>n\<bar> \<le> MAX_SAFE_INTEGER"

fun str_val :: "jsval \<Rightarrow> string option" where
  "str_val (JStr s) = Some s"
| "str_val _ = None"

lemma str_val_Some_iff [simp]: "str_val v = Some s \<longleftrightarrow> v = JStr s"
  by (cases v) auto

lemma safe_int_bound: "safe_int v = Some n \<Longrightarrow> \<bar>n\<bar> \<le> MAX_SAFE_INTEGER"
  by (cases v) (auto simp: MAX_SAFE_INTEGER_def split: if_splits)

lemma safe_int_JNum: "is_safe_int n \<Longrightarrow> safe_int (JNum n) = Some n"
  by (simp add: is_safe_int_def)

text \<open>
  \<open>a === b\<close> on two values read from JSON: objects and arrays are never the same object, and of
  \<open>JFrac\<close>, which may be \<open>NaN\<close>, nothing is known.
\<close>

fun strict_eq :: "jsval \<Rightarrow> jsval \<Rightarrow> bool" where
  "strict_eq (JNum a) (JNum b) \<longleftrightarrow> a = b"
| "strict_eq JNegZero (JNum b) \<longleftrightarrow> b = 0"
| "strict_eq (JNum a) JNegZero \<longleftrightarrow> a = 0"
| "strict_eq JNegZero JNegZero \<longleftrightarrow> True"
| "strict_eq (JBig a) (JBig b) \<longleftrightarrow> a = b"
| "strict_eq (JStr a) (JStr b) \<longleftrightarrow> a = b"
| "strict_eq (JBool a) (JBool b) \<longleftrightarrow> a = b"
| "strict_eq JNull JNull \<longleftrightarrow> True"
| "strict_eq JUndef JUndef \<longleftrightarrow> True"
| "strict_eq _ _ \<longleftrightarrow> False"

text \<open>
  The string a regular expression sees in \<open>R.test(v ?? "")\<close>: \<open>String(v)\<close> for strings and for arrays
  of one entry, and the empty string for values that no pattern of the code matches.
\<close>

fun coerced :: "jsval \<Rightarrow> string" where
  "coerced (JStr s) = s"
| "coerced (JArr [v]) = coerced v"
| "coerced _ = ''''"

section \<open>Regular expressions of the code\<close>

text \<open>Code units of \<open>0-9\<close>, \<open>a-f\<close> and so on, by number.\<close>

definition unit_of :: "char \<Rightarrow> nat" where
  "unit_of c = of_char c"

definition is_digit :: "char \<Rightarrow> bool" where
  "is_digit c \<longleftrightarrow> 48 \<le> unit_of c \<and> unit_of c \<le> 57"

definition is_lower :: "char \<Rightarrow> bool" where
  "is_lower c \<longleftrightarrow> 97 \<le> unit_of c \<and> unit_of c \<le> 122"

definition is_hex_digit :: "char \<Rightarrow> bool" where
  "is_hex_digit c \<longleftrightarrow> is_digit c \<or> (97 \<le> unit_of c \<and> unit_of c \<le> 102)"

text \<open>\<open>/^[0-9a-f]{64}$/\<close>\<close>

definition is_hex64 :: "string \<Rightarrow> bool" where
  "is_hex64 s \<longleftrightarrow> length s = 64 \<and> list_all is_hex_digit s"

text \<open>\<open>/^nir1[0-9a-f]{64}$/\<close>\<close>

definition is_address :: "string \<Rightarrow> bool" where
  "is_address s \<longleftrightarrow> take 4 s = ''nir1'' \<and> is_hex64 (drop 4 s)"

text \<open>\<open>/^(0|[1-9][0-9]*)$/\<close>\<close>

definition is_decimal :: "string \<Rightarrow> bool" where
  "is_decimal s \<longleftrightarrow> s = ''0'' \<or>
     (s \<noteq> [] \<and> list_all is_digit s \<and> hd s \<noteq> CHR ''0'')"

text \<open>\<open>BigInt(s)\<close> for a decimal string, and \<open>String(n)\<close> back.\<close>

definition digit_value :: "char \<Rightarrow> int" where
  "digit_value c = int (unit_of c) - 48"

definition dec_value :: "string \<Rightarrow> int" where
  "dec_value s = foldl (\<lambda>acc c. 10 * acc + digit_value c) 0 s"

definition digit_char :: "nat \<Rightarrow> char" where
  "digit_char d = char_of (48 + d)"

fun dec_digits :: "nat \<Rightarrow> string" where
  "dec_digits n = (if n < 10 then [digit_char n] else dec_digits (n div 10) @ [digit_char (n mod 10)])"

declare dec_digits.simps [simp del]

definition dec_string :: "int \<Rightarrow> string" where
  "dec_string n = (if n < 0 then CHR ''-'' # dec_digits (nat (- n)) else dec_digits (nat n))"

lemma unit_of_digit_char: "d < 10 \<Longrightarrow> unit_of (digit_char d) = 48 + d"
  by (simp add: unit_of_def digit_char_def of_char_of)

lemma digit_value_digit_char [simp]: "d < 10 \<Longrightarrow> digit_value (digit_char d) = int d"
  by (simp add: digit_value_def unit_of_digit_char)

lemma is_digit_digit_char [simp]: "d < 10 \<Longrightarrow> is_digit (digit_char d)"
  by (simp add: is_digit_def unit_of_digit_char)

lemma dec_value_snoc: "dec_value (s @ [c]) = 10 * dec_value s + digit_value c"
  by (simp add: dec_value_def)

lemma dec_value_dec_digits: "dec_value (dec_digits n) = int n"
proof (induction n rule: dec_digits.induct)
  case (1 n)
  show ?case
  proof (cases "n < 10")
    case True
    then show ?thesis by (subst dec_digits.simps) (simp add: dec_value_def)
  next
    case False
    with 1 have "dec_value (dec_digits (n div 10)) = int (n div 10)" by simp
    with False have "dec_value (dec_digits n) = 10 * int (n div 10) + int (n mod 10)"
      by (subst dec_digits.simps) (simp add: dec_value_snoc)
    moreover have "int n = 10 * int (n div 10) + int (n mod 10)"
      by (metis mult_div_mod_eq of_nat_add of_nat_mult of_nat_numeral)
    ultimately show ?thesis by simp
  qed
qed

lemma dec_digits_digits: "list_all is_digit (dec_digits n)"
proof (induction n rule: dec_digits.induct)
  case (1 n)
  then show ?case by (subst dec_digits.simps) simp
qed

lemma dec_digits_not_Nil [simp]: "dec_digits n \<noteq> []"
  by (subst dec_digits.simps) simp

lemma digit_char_0: "digit_char 0 = CHR ''0''"
proof -
  have "char_of (of_char CHR ''0'' :: nat) = CHR ''0''" by (rule char_of_char)
  then show ?thesis by (simp add: digit_char_def)
qed

lemma digit_char_0_iff: "d < 10 \<Longrightarrow> digit_char d = CHR ''0'' \<longleftrightarrow> d = 0"
proof
  assume "d < 10" and "digit_char d = CHR ''0''"
  then have "unit_of (digit_char d) = unit_of CHR ''0''" by simp
  with \<open>d < 10\<close> show "d = 0" by (simp add: unit_of_digit_char) (simp add: unit_of_def)
qed (simp add: digit_char_0)

lemma hd_dec_digits: "0 < n \<Longrightarrow> hd (dec_digits n) \<noteq> CHR ''0''"
proof (induction n rule: dec_digits.induct)
  case (1 n)
  show ?case
  proof (cases "n < 10")
    case True
    with 1 show ?thesis by (subst dec_digits.simps) (simp add: digit_char_0_iff)
  next
    case False
    with 1 have "hd (dec_digits (n div 10)) \<noteq> CHR ''0''" by simp
    with False show ?thesis by (subst dec_digits.simps) (simp add: hd_append)
  qed
qed

lemma dec_string_decimal: "0 \<le> n \<Longrightarrow> is_decimal (dec_string n)"
proof (cases "n = 0")
  case True
  then show ?thesis
    by (simp add: is_decimal_def dec_string_def dec_digits.simps digit_char_0)
next
  case False
  moreover assume "0 \<le> n"
  ultimately show ?thesis
    by (simp add: is_decimal_def dec_string_def dec_digits_digits hd_dec_digits)
qed

lemma dec_value_dec_string: "0 \<le> n \<Longrightarrow> dec_value (dec_string n) = n"
  by (simp add: dec_string_def dec_value_dec_digits)

lemma dec_value_foldl_nonneg:
  "list_all is_digit s \<Longrightarrow> 0 \<le> acc \<Longrightarrow> 0 \<le> foldl (\<lambda>acc c. 10 * acc + digit_value c) acc s"
proof (induction s arbitrary: acc)
  case (Cons c s)
  then show ?case by (simp add: is_digit_def digit_value_def)
qed simp

lemma dec_value_nonneg: "is_decimal s \<Longrightarrow> 0 \<le> dec_value s"
  unfolding is_decimal_def dec_value_def
  by (auto intro: dec_value_foldl_nonneg simp: is_digit_def unit_of_def)

end
