(* ===== verification/Codec.thy ===== *)
theory Codec
  imports Prelude "HOL-Library.Word"
begin

text \<open>
  \<open>blockchain/consensus-codec.mjs\<close> and the hashing half of \<open>blockchain/crypto.mjs\<close>: the byte
  encoding every hash and signature of the chain is taken over. A value is a tree of JSON
  values; strings are lists of 16-bit UTF-16 code units here, so that surrogates and UTF-8
  lengths are what the code sees. A JavaScript object is the list of its own properties in insertion
  order. Bytes are natural numbers below 256. Node's SHA3-256 and Unicode NFC are parameters.

  The main results: the encoding is canonical (two accepted values with the same bytes are
  the same value up to the order of object keys) and envelopes of different domains differ.
\<close>

section \<open>Values and limits\<close>

type_synonym units = "16 word list"
type_synonym bytes = "nat list"

text \<open>
  \<open>COther\<close>: a value whose \<open>typeof\<close> is none of the supported ones (undefined, bigint, function,
  symbol). \<open>CExotic\<close>: an object \<open>sortedObjectEntries\<close> or \<open>arrayValues\<close> refuses because of
  its prototype, a proxy, an accessor, a symbol key or a hole. Cyclic objects are not trees
  and are left out.
\<close>

datatype cval =
    CNull
  | CBool bool
  | CInt int
  | CNegZero
  | CFrac
  | CStr units
  | CArr "cval list"
  | CObj "(units \<times> cval) list"
  | COther
  | CExotic

datatype codec_error =
    Nesting_too_deep
  | Not_safe_integer
  | Unpaired_surrogate
  | String_too_large
  | Unsupported_type
  | Exotic_value
  | Too_many_fields
  | Ambiguous_key
  | Array_too_large
  | Value_too_large
  | Invalid_domain
  | Unsupported_encoding
  | Invalid_array_length

definition CONSENSUS_ENCODING_VERSION :: nat where
  "CONSENSUS_ENCODING_VERSION = 1"

definition MAX_DEPTH :: nat where
  "MAX_DEPTH = 64"

definition MAX_CONTAINER_ENTRIES :: nat where
  "MAX_CONTAINER_ENTRIES = 100000"

definition MAX_STRING_BYTES :: nat where
  "MAX_STRING_BYTES = 16777216"

definition MAX_ENCODED_BYTES :: nat where
  "MAX_ENCODED_BYTES = 67108864"

definition consensusEncodingVersionForProtocol :: "int \<Rightarrow> nat option" where
  "consensusEncodingVersionForProtocol v = (if 24 \<le> v \<and> v \<le> 38 then Some 1 else None)"

section \<open>Strings\<close>

definition high_surrogate :: "nat \<Rightarrow> bool" where
  "high_surrogate u \<longleftrightarrow> 0xd800 \<le> u \<and> u \<le> 0xdbff"

definition low_surrogate :: "nat \<Rightarrow> bool" where
  "low_surrogate u \<longleftrightarrow> 0xdc00 \<le> u \<and> u \<le> 0xdfff"

text \<open>\<open>charCodeAt\<close> past the end is \<open>NaN\<close>, so a final high surrogate fails the range test.\<close>

fun validUnicodeScalarString :: "nat list \<Rightarrow> bool" where
  "validUnicodeScalarString [] = True"
| "validUnicodeScalarString [u] = (\<not> high_surrogate u \<and> \<not> low_surrogate u)"
| "validUnicodeScalarString (u # f # us) =
     (if high_surrogate u then
        (if low_surrogate f then validUnicodeScalarString us else False)
      else if low_surrogate u then False
      else validUnicodeScalarString (f # us))"

text \<open>\<open>Buffer.from(s, "utf8")\<close>: surrogate pairs are joined to one scalar of four bytes.\<close>

definition utf8_scalar :: "nat \<Rightarrow> bytes" where
  "utf8_scalar c =
     (if c < 0x80 then [c]
      else if c < 0x800 then [192 + c div 64, 128 + c mod 64]
      else if c < 0x10000 then [224 + c div 4096, 128 + c div 64 mod 64, 128 + c mod 64]
      else [240 + c div 262144, 128 + c div 4096 mod 64, 128 + c div 64 mod 64, 128 + c mod 64])"

definition join_pair :: "nat \<Rightarrow> nat \<Rightarrow> nat" where
  "join_pair h l = 0x10000 + (h - 0xd800) * 0x400 + (l - 0xdc00)"

fun utf8 :: "nat list \<Rightarrow> bytes" where
  "utf8 [] = []"
| "utf8 [u] = utf8_scalar u"
| "utf8 (u # f # us) =
     (if high_surrogate u \<and> low_surrogate f then utf8_scalar (join_pair u f) @ utf8 us
      else utf8_scalar u @ utf8 (f # us))"

definition stringBytes :: "units \<Rightarrow> codec_error + bytes" where
  "stringBytes s =
     (if \<not> validUnicodeScalarString (map unat s) then Inl Unpaired_surrogate
      else if length (utf8 (map unat s)) > MAX_STRING_BYTES then Inl String_too_large
      else Inr (utf8 (map unat s)))"

section \<open>Integers\<close>

text \<open>\<open>k\<close> bytes of \<open>n\<close>, most significant first.\<close>

fun be_bytes :: "nat \<Rightarrow> nat \<Rightarrow> bytes" where
  "be_bytes 0 n = []"
| "be_bytes (Suc k) n = be_bytes k (n div 256) @ [n mod 256]"

definition u32 :: "nat \<Rightarrow> bytes" where
  "u32 n = be_bytes 4 n"

text \<open>\<open>writeBigInt64BE\<close>: two's complement on eight bytes.\<close>

definition i64 :: "int \<Rightarrow> bytes" where
  "i64 v = be_bytes 8 (nat (v mod 2 ^ 64))"

section \<open>The encoder\<close>

text \<open>\<open>append(context, ...values)\<close>; the context is the bytes so far, \<open>total\<close> their number.\<close>

fun append_ctx :: "bytes \<Rightarrow> bytes list \<Rightarrow> codec_error + bytes" where
  "append_ctx ctx [] = Inr ctx"
| "append_ctx ctx (v # vs) =
     (if length ctx + length v > MAX_ENCODED_BYTES then Inl Value_too_large
      else append_ctx (ctx @ v) vs)"

text \<open>The \<open>keys.map\<close> of \<open>sortedObjectEntries\<close>: \<open>seen\<close> is \<open>normalized\<close>, \<open>kb\<close> is \<open>keyBytes\<close>.\<close>

fun keyEntries :: "(units \<Rightarrow> units) \<Rightarrow> units list \<Rightarrow> nat \<Rightarrow> (units \<times> cval) list \<Rightarrow>
    codec_error + (bytes \<times> cval) list" where
  "keyEntries nfc seen kb [] = Inr []"
| "keyEntries nfc seen kb ((k, v) # kvs) =
     bind_r (stringBytes k) (\<lambda>bs.
       if kb + length bs > MAX_ENCODED_BYTES then Inl Value_too_large
       else if nfc k \<noteq> k \<or> nfc k \<in> set seen then Inl Ambiguous_key
       else bind_r (keyEntries nfc (nfc k # seen) (kb + length bs) kvs)
              (\<lambda>es. Inr ((bs, v) # es)))"

definition sortedObjectEntries :: "(units \<Rightarrow> units) \<Rightarrow> (units \<times> cval) list \<Rightarrow>
    codec_error + (bytes \<times> cval) list" where
  "sortedObjectEntries nfc kvs =
     (if length kvs > MAX_CONTAINER_ENTRIES then Inl Too_many_fields
      else bind_r (keyEntries nfc [] 0 kvs) (\<lambda>es. Inr (sort_key fst es)))"

definition arrayValues :: "cval list \<Rightarrow> codec_error + cval list" where
  "arrayValues vs = (if length vs > MAX_CONTAINER_ENTRIES then Inl Array_too_large else Inr vs)"

primrec csz :: "cval \<Rightarrow> nat" where
  "csz CNull = 0"
| "csz (CBool b) = 0"
| "csz (CInt n) = 0"
| "csz CNegZero = 0"
| "csz CFrac = 0"
| "csz (CStr s) = 0"
| "csz (CArr vs) = Suc (sum_list (map Suc (map csz vs)))"
| "csz (CObj kvs) = Suc (sum_list (map (\<lambda>p. Suc (snd p)) (map (map_prod id csz) kvs)))"
| "csz COther = 0"
| "csz CExotic = 0"

lemma keyEntries_values: "keyEntries nfc seen kb kvs = Inr es \<Longrightarrow> map snd es = map snd kvs"
  by (induction kvs arbitrary: seen kb es) (auto simp: inversion)

lemma sum_list_insort_key:
  "sum_list (map g (insort_key f x xs)) = g x + sum_list (map g xs :: nat list)"
  by (induction xs) auto

lemma sum_list_sort_key: "sum_list (map g (sort_key f xs)) = sum_list (map g xs :: nat list)"
  by (induction xs) (simp_all add: sum_list_insort_key)

lemma sortedObjectEntries_size:
  assumes "sortedObjectEntries nfc kvs = Inr es"
  shows "sum_list (map (\<lambda>p. Suc (csz (snd p))) es) = sum_list (map (\<lambda>p. Suc (csz (snd p))) kvs)"
proof -
  from assms obtain es' where es': "keyEntries nfc [] 0 kvs = Inr es'" "es = sort_key fst es'"
    by (auto simp: sortedObjectEntries_def inversion)
  then have "sum_list (map (\<lambda>p. Suc (csz (snd p))) es) = sum_list (map (\<lambda>v. Suc (csz v)) (map snd es'))"
    by (simp add: sum_list_sort_key o_def)
  also have "\<dots> = sum_list (map (\<lambda>v. Suc (csz v)) (map snd kvs))"
    using keyEntries_values [OF es'(1)] by simp
  finally show ?thesis by (simp add: o_def)
qed

function (sequential)
  encodeValue :: "(units \<Rightarrow> units) \<Rightarrow> cval \<Rightarrow> bytes \<Rightarrow> nat \<Rightarrow> codec_error + bytes" and
  encodeArray :: "(units \<Rightarrow> units) \<Rightarrow> cval list \<Rightarrow> bytes \<Rightarrow> nat \<Rightarrow> codec_error + bytes" and
  encodeEntries :: "(units \<Rightarrow> units) \<Rightarrow> (bytes \<times> cval) list \<Rightarrow> bytes \<Rightarrow> nat \<Rightarrow> codec_error + bytes"
where
  "encodeValue nfc v ctx depth =
     (if depth > MAX_DEPTH then Inl Nesting_too_deep
      else (case v of
        CNull \<Rightarrow> append_ctx ctx [[0x00]]
      | CBool b \<Rightarrow> append_ctx ctx [[if b then 0x02 else 0x01]]
      | CInt n \<Rightarrow> if \<not> is_safe_int n then Inl Not_safe_integer
                  else append_ctx ctx [0x03 # i64 n]
      | CNegZero \<Rightarrow> Inl Not_safe_integer
      | CFrac \<Rightarrow> Inl Not_safe_integer
      | CStr s \<Rightarrow> bind_r (stringBytes s) (\<lambda>bs. append_ctx ctx [[0x04], u32 (length bs), bs])
      | COther \<Rightarrow> Inl Unsupported_type
      | CExotic \<Rightarrow> Inl Exotic_value
      | CArr vs \<Rightarrow> bind_r (arrayValues vs) (\<lambda>vs.
          bind_r (append_ctx ctx [[0x05], u32 (length vs)]) (\<lambda>ctx'.
            encodeArray nfc vs ctx' (depth + 1)))
      | CObj kvs \<Rightarrow> bind_r (sortedObjectEntries nfc kvs) (\<lambda>es.
          bind_r (append_ctx ctx [[0x06], u32 (length es)]) (\<lambda>ctx'.
            encodeEntries nfc es ctx' (depth + 1)))))"
| "encodeArray nfc [] ctx depth = Inr ctx"
| "encodeArray nfc (v # vs) ctx depth =
     bind_r (encodeValue nfc v ctx depth) (\<lambda>ctx'. encodeArray nfc vs ctx' depth)"
| "encodeEntries nfc [] ctx depth = Inr ctx"
| "encodeEntries nfc ((bs, v) # es) ctx depth =
     bind_r (append_ctx ctx [[0x04], u32 (length bs), bs]) (\<lambda>ctx'.
       bind_r (encodeValue nfc v ctx' depth) (\<lambda>ctx''. encodeEntries nfc es ctx'' depth))"
  by pat_completeness auto
termination
proof (relation "measure (case_sum (\<lambda>(nfc, v, ctx, d). csz v)
    (case_sum (\<lambda>(nfc, vs, ctx, d). sum_list (map (\<lambda>v. Suc (csz v)) vs))
      (\<lambda>(nfc, es, ctx, d). sum_list (map (\<lambda>p. Suc (csz (snd p))) es))))", goal_cases)
  case (2 nfc v ctx depth vs vs' ctx')
  then show ?case by (auto simp: arrayValues_def o_def split: if_splits)
next
  case (3 nfc v ctx depth kvs es ctx')
  then show ?case by (simp add: sortedObjectEntries_size o_def)
qed auto

declare encodeValue.simps [simp del]

definition consensusValueBytes :: "(units \<Rightarrow> units) \<Rightarrow> cval \<Rightarrow> codec_error + bytes" where
  "consensusValueBytes nfc v = encodeValue nfc v [] 0"

section \<open>Envelopes\<close>

text \<open>\<open>/^[A-Z0-9_-]{1,40}$/\<close>\<close>

definition is_domain :: "string \<Rightarrow> bool" where
  "is_domain d \<longleftrightarrow> 1 \<le> length d \<and> length d \<le> 40 \<and>
     list_all (\<lambda>c. is_digit c \<or> (65 \<le> unit_of c \<and> unit_of c \<le> 90) \<or>
                   unit_of c = 95 \<or> unit_of c = 45) d"

definition ascii :: "string \<Rightarrow> bytes" where
  "ascii s = map unit_of s"

definition envelopePrefix :: "string \<Rightarrow> nat \<Rightarrow> codec_error + bytes" where
  "envelopePrefix domain encodingVersion =
     (if \<not> is_domain domain then Inl Invalid_domain
      else if encodingVersion \<noteq> CONSENSUS_ENCODING_VERSION then Inl Unsupported_encoding
      else Inr (ascii ''NIR-CONSENSUS'' @ [0x00, 0x00, encodingVersion, length domain] @ ascii domain))"

definition consensusArrayEnvelopeHeader :: "string \<Rightarrow> int \<Rightarrow> nat \<Rightarrow> codec_error + bytes" where
  "consensusArrayEnvelopeHeader domain len encodingVersion =
     (if \<not> is_safe_int len \<or> len < 0 \<or> len > int MAX_CONTAINER_ENTRIES then Inl Invalid_array_length
      else bind_r (envelopePrefix domain encodingVersion) (\<lambda>p. Inr (p @ [0x05] @ u32 (nat len))))"

definition consensusEnvelopeBytes :: "(units \<Rightarrow> units) \<Rightarrow> string \<Rightarrow> cval \<Rightarrow> nat \<Rightarrow>
    codec_error + bytes" where
  "consensusEnvelopeBytes nfc domain v encodingVersion =
     bind_r (envelopePrefix domain encodingVersion) (\<lambda>p.
       bind_r (consensusValueBytes nfc v) (\<lambda>b. Inr (p @ b)))"

section \<open>UTF-8 and integers are injective\<close>

lemma length_be_bytes [simp]: "length (be_bytes k n) = k"
  by (induction k arbitrary: n) auto

lemma be_bytes_inj: "be_bytes k n = be_bytes k m \<Longrightarrow> n < 256 ^ k \<Longrightarrow> m < 256 ^ k \<Longrightarrow> n = m"
proof (induction k arbitrary: n m)
  case (Suc k)
  then have "be_bytes k (n div 256) = be_bytes k (m div 256)" and low: "n mod 256 = m mod 256"
    by auto
  moreover from Suc.prems have "n div 256 < 256 ^ k" "m div 256 < 256 ^ k"
    by (auto simp: less_mult_imp_div_less mult.commute)
  ultimately have "n div 256 = m div 256" by (intro Suc.IH)
  with low show ?case by (metis div_mult_mod_eq)
qed simp

lemma length_u32 [simp]: "length (u32 n) = 4"
  by (simp add: u32_def)

lemma length_i64 [simp]: "length (i64 v) = 8"
  by (simp add: i64_def)

lemma u32_inj: "u32 n = u32 m \<Longrightarrow> n < 2 ^ 32 \<Longrightarrow> m < 2 ^ 32 \<Longrightarrow> n = m"
  unfolding u32_def by (rule be_bytes_inj) auto

lemma i64_inj:
  assumes "i64 v = i64 w" and "is_safe_int v" and "is_safe_int w"
  shows "v = w"
proof -
  have "nat (v mod 2 ^ 64) = nat (w mod 2 ^ 64)"
    using assms(1) unfolding i64_def by (rule be_bytes_inj) auto
  then have "v mod 2 ^ 64 = w mod 2 ^ 64" by (simp add: nat_eq_iff)
  then have "2 ^ 64 dvd v - w" by (simp add: mod_eq_dvd_iff)
  moreover have "\<bar>v - w\<bar> < 2 ^ 64"
    using assms(2,3) by (auto simp: is_safe_int_def MAX_SAFE_INTEGER_def)
  ultimately show ?thesis using zdvd_imp_le [of "2 ^ 64" "\<bar>v - w\<bar>"] by fastforce
qed

text \<open>The scalar values of a string of code units.\<close>

fun scalars :: "nat list \<Rightarrow> nat list" where
  "scalars [] = []"
| "scalars [u] = [u]"
| "scalars (u # f # us) =
     (if high_surrogate u \<and> low_surrogate f then join_pair u f # scalars us
      else u # scalars (f # us))"

lemma utf8_scalars: "utf8 s = concat (map utf8_scalar (scalars s))"
  by (induction s rule: utf8.induct) auto

definition small_scalar :: "nat \<Rightarrow> bool" where
  "small_scalar c \<longleftrightarrow> c < 0x200000"

text \<open>Reading one scalar back from the front of a byte string.\<close>

fun read_scalar :: "bytes \<Rightarrow> nat \<times> bytes" where
  "read_scalar [] = (0, [])"
| "read_scalar (b # r) =
     (if b < 128 then (b, r)
      else if b < 224 then ((b - 192) * 64 + (r ! 0 - 128), drop 1 r)
      else if b < 240 then ((b - 224) * 4096 + (r ! 0 - 128) * 64 + (r ! 1 - 128), drop 2 r)
      else ((b - 240) * 262144 + (r ! 0 - 128) * 4096 + (r ! 1 - 128) * 64 + (r ! 2 - 128), drop 3 r))"

lemma div_4096: "c = c div 4096 * 4096 + c div 64 mod 64 * 64 + c mod 64" for c :: nat
  using div_mult_mod_eq [of c 64, symmetric] div_mult_mod_eq [of "c div 64" 64, symmetric]
    div_mult2_eq [of c 64 64, simplified]
  by linarith

lemma div_262144:
  "c = c div 262144 * 262144 + c div 4096 mod 64 * 4096 + c div 64 mod 64 * 64 + c mod 64" for c :: nat
  using div_4096 [of c] div_mult_mod_eq [of "c div 4096" 64, symmetric]
    div_mult2_eq [of c 4096 64, simplified]
  by linarith

lemma read_utf8_scalar: "small_scalar c \<Longrightarrow> read_scalar (utf8_scalar c @ r) = (c, r)"
proof -
  consider "c < 0x80" | "0x80 \<le> c" "c < 0x800" | "0x800 \<le> c" "c < 0x10000" | "0x10000 \<le> c"
    by linarith
  then show ?thesis
  proof cases
    case 2
    then have "c div 64 < 32" by simp
    with 2 show ?thesis by (simp add: utf8_scalar_def)
  next
    case 3
    then have "c div 4096 < 16" by simp
    with 3 div_4096 [of c] show ?thesis by (simp add: utf8_scalar_def)
  next
    case 4
    with div_262144 [of c] show ?thesis by (simp add: utf8_scalar_def)
  qed (simp add: utf8_scalar_def)
qed

lemma utf8_scalar_prefix:
  "\<lbrakk> utf8_scalar c @ r = utf8_scalar d @ r'; small_scalar c; small_scalar d \<rbrakk> \<Longrightarrow> c = d \<and> r = r'"
  by (metis read_utf8_scalar prod.inject)

lemma scalars_small: "\<forall>u \<in> set s. u < 0x10000 \<Longrightarrow> \<forall>c \<in> set (scalars s). small_scalar c"
  by (induction s rule: scalars.induct)
    (auto simp: small_scalar_def join_pair_def high_surrogate_def low_surrogate_def)

lemma concat_utf8_scalar_inj:
  "concat (map utf8_scalar cs) = concat (map utf8_scalar ds) \<Longrightarrow>
   \<forall>c \<in> set cs. small_scalar c \<Longrightarrow> \<forall>d \<in> set ds. small_scalar d \<Longrightarrow> cs = ds"
proof (induction cs arbitrary: ds)
  case Nil
  then show ?case by (cases ds) (auto simp: utf8_scalar_def split: if_splits)
next
  case (Cons c cs)
  then obtain d ds' where ds: "ds = d # ds'"
    by (cases ds) (auto simp: utf8_scalar_def split: if_splits)
  with Cons.prems have "c = d \<and> concat (map utf8_scalar cs) = concat (map utf8_scalar ds')"
    by (intro utf8_scalar_prefix) auto
  with Cons ds show ?case by auto
qed

text \<open>The code units of a scalar value, which \<open>scalars\<close> puts together again.\<close>

definition scalar_units :: "nat \<Rightarrow> nat list" where
  "scalar_units c =
     (if c < 0x10000 then [c]
      else [0xd800 + (c - 0x10000) div 0x400, 0xdc00 + (c - 0x10000) mod 0x400])"

lemma scalar_units_join_pair:
  assumes "high_surrogate u" and "low_surrogate f"
  shows "scalar_units (join_pair u f) = [u, f]"
proof -
  from assms obtain h l where "u = 0xd800 + h" "f = 0xdc00 + l" "l < 0x400"
    by (auto simp: high_surrogate_def low_surrogate_def le_iff_add)
  then show ?thesis by (simp add: scalar_units_def join_pair_def)
qed

lemma scalar_units_scalars:
  "\<forall>u \<in> set s. u < 0x10000 \<Longrightarrow> concat (map scalar_units (scalars s)) = s"
proof (induction s rule: scalars.induct)
  case (3 u f us)
  then show ?case by (auto simp: scalar_units_join_pair) (auto simp: scalar_units_def)
qed (auto simp: scalar_units_def)

lemma scalars_inj:
  "\<lbrakk> scalars s = scalars t; \<forall>u \<in> set s. u < 0x10000; \<forall>u \<in> set t. u < 0x10000 \<rbrakk> \<Longrightarrow> s = t"
  by (metis scalar_units_scalars)

lemma inj_unat: "inj (unat :: 'a::len word \<Rightarrow> nat)"
  by (rule injI) (simp add: word_unat_eq_iff)

lemma utf8_inj: "utf8 (map unat s) = utf8 (map unat t) \<Longrightarrow> s = t" for s t :: units
proof -
  assume eq: "utf8 (map unat s) = utf8 (map unat t)"
  have "unat u < 2 ^ 16" for u :: "16 word"
    using unsigned_less [of u] by simp
  then have small: "\<forall>u \<in> set (map unat x). u < 0x10000" for x :: units
    by simp
  have "scalars (map unat s) = scalars (map unat t)"
    by (rule concat_utf8_scalar_inj [OF eq [unfolded utf8_scalars]]; rule scalars_small; rule small)
  then have "map unat s = map unat t" by (rule scalars_inj) (use small in auto)
  then show "s = t" by (simp add: inj_map_eq_map inj_unat)
qed

section \<open>The encoding is canonical\<close>

text \<open>
  The canonical form of a value: every object's entries in the order of their UTF-8 keys.
  \<open>enc\<close> is the encoding without limits, \<open>encodable\<close> what the encoder's checks leave.
\<close>

definition key_bytes :: "units \<Rightarrow> bytes" where
  "key_bytes k = utf8 (map unat k)"

primrec canon :: "cval \<Rightarrow> cval" where
  "canon CNull = CNull"
| "canon (CBool b) = CBool b"
| "canon (CInt n) = CInt n"
| "canon CNegZero = CNegZero"
| "canon CFrac = CFrac"
| "canon (CStr s) = CStr s"
| "canon (CArr vs) = CArr (map canon vs)"
| "canon (CObj kvs) = CObj (sort_key (\<lambda>p. key_bytes (fst p)) (map (map_prod id canon) kvs))"
| "canon COther = COther"
| "canon CExotic = CExotic"

definition entry_bytes :: "bytes \<Rightarrow> bytes \<Rightarrow> bytes" where
  "entry_bytes k b = [0x04] @ u32 (length k) @ k @ b"

primrec enc :: "cval \<Rightarrow> bytes" where
  "enc CNull = [0]"
| "enc (CBool b) = [if b then 2 else 1]"
| "enc (CInt n) = 3 # i64 n"
| "enc CNegZero = []"
| "enc CFrac = []"
| "enc (CStr s) = 4 # u32 (length (key_bytes s)) @ key_bytes s"
| "enc (CArr vs) = 5 # u32 (length vs) @ concat (map enc vs)"
| "enc (CObj kvs) = 6 # u32 (length kvs) @
     concat (map (\<lambda>p. entry_bytes (key_bytes (fst p)) (snd p)) (map (map_prod id enc) kvs))"
| "enc COther = []"
| "enc CExotic = []"

definition short :: "'a list \<Rightarrow> bool" where
  "short xs \<longleftrightarrow> length xs < 2 ^ 32"

primrec encodable :: "cval \<Rightarrow> bool" where
  "encodable CNull \<longleftrightarrow> True"
| "encodable (CBool b) \<longleftrightarrow> True"
| "encodable (CInt n) \<longleftrightarrow> is_safe_int n"
| "encodable CNegZero \<longleftrightarrow> False"
| "encodable CFrac \<longleftrightarrow> False"
| "encodable (CStr s) \<longleftrightarrow> short (key_bytes s)"
| "encodable (CArr vs) \<longleftrightarrow> short vs \<and> list_all (\<lambda>b. b) (map encodable vs)"
| "encodable (CObj kvs) \<longleftrightarrow> short kvs \<and>
     list_all (\<lambda>p. short (key_bytes (fst p)) \<and> snd p) (map (map_prod id encodable) kvs)"
| "encodable COther \<longleftrightarrow> False"
| "encodable CExotic \<longleftrightarrow> False"

text \<open>A successful append only appends.\<close>

lemma append_ctx_Inr: "append_ctx ctx vs = Inr r \<Longrightarrow> r = ctx @ concat vs"
  by (induction vs arbitrary: ctx) (fastforce simp: inversion)+

lemma stringBytes_Inr: "stringBytes s = Inr bs \<Longrightarrow> bs = key_bytes s \<and> short bs"
  by (auto simp: stringBytes_def key_bytes_def short_def MAX_STRING_BYTES_def inversion)

lemma keyEntries_Inr:
  "keyEntries nfc seen kb kvs = Inr es \<Longrightarrow>
   es = map (\<lambda>p. (key_bytes (fst p), snd p)) kvs \<and> list_all (\<lambda>p. short (fst p)) es"
  by (induction kvs arbitrary: seen kb es) (auto simp: inversion dest!: stringBytes_Inr)

lemma insort_key_map:
  "(\<And>x. x \<in> insert a (set xs) \<Longrightarrow> f (g x) = h x) \<Longrightarrow>
   insort_key f (g a) (map g xs) = map g (insort_key h a xs)"
  by (induction xs) auto

lemma sort_key_map: "(\<And>x. f (g x) = h x) \<Longrightarrow> sort_key f (map g xs) = map g (sort_key h xs)"
  by (induction xs) (auto simp: insort_key_map)

lemma sortedObjectEntries_Inr:
  assumes "sortedObjectEntries nfc kvs = Inr es"
  shows "es = map (\<lambda>p. (key_bytes (fst p), snd p)) (sort_key (\<lambda>p. key_bytes (fst p)) kvs) \<and>
         list_all (\<lambda>p. short (fst p)) es \<and> short kvs"
proof -
  from assms obtain es' where es': "keyEntries nfc [] 0 kvs = Inr es'"
    and es: "es = sort_key fst es'" and len: "length kvs \<le> MAX_CONTAINER_ENTRIES"
    by (auto simp: sortedObjectEntries_def inversion)
  from len have "short kvs" by (simp add: short_def MAX_CONTAINER_ENTRIES_def)
  with keyEntries_Inr [OF es'] es show ?thesis
    by (auto simp: list_all_iff intro: sort_key_map)
qed

lemma arrayValues_Inr: "arrayValues vs = Inr vs' \<Longrightarrow> vs' = vs \<and> short vs"
  by (auto simp: arrayValues_def short_def MAX_CONTAINER_ENTRIES_def inversion)

lemma enc_canon_CObj:
  assumes "es = map (\<lambda>p. (key_bytes (fst p), snd p)) (sort_key (\<lambda>p. key_bytes (fst p)) kvs)"
  shows "enc (canon (CObj kvs)) =
    6 # u32 (length kvs) @ concat (map (\<lambda>p. entry_bytes (fst p) (enc (canon (snd p)))) es)"
proof -
  have "sort_key (\<lambda>p. key_bytes (fst p)) (map (map_prod id canon) kvs) =
        map (map_prod id canon) (sort_key (\<lambda>p. key_bytes (fst p)) kvs)"
    by (rule sort_key_map) simp
  with assms show ?thesis by (simp add: o_def)
qed

lemma encodable_canon_CObj:
  assumes "es = map (\<lambda>p. (key_bytes (fst p), snd p)) (sort_key (\<lambda>p. key_bytes (fst p)) kvs)"
    and "short kvs" and "\<forall>p \<in> set es. short (fst p) \<and> encodable (canon (snd p))"
  shows "encodable (canon (CObj kvs))"
  using assms by (simp add: short_def list_all_iff)

lemma encode_Inr:
  "encodeValue nfc v ctx d = Inr r \<Longrightarrow> r = ctx @ enc (canon v) \<and> encodable (canon v)"
  "encodeArray nfc vs ctx d = Inr r \<Longrightarrow>
     r = ctx @ concat (map (\<lambda>v. enc (canon v)) vs) \<and> (\<forall>v \<in> set vs. encodable (canon v))"
  "encodeEntries nfc es ctx d = Inr r \<Longrightarrow>
     r = ctx @ concat (map (\<lambda>p. entry_bytes (fst p) (enc (canon (snd p)))) es) \<and>
     (\<forall>p \<in> set es. encodable (canon (snd p)))"
proof (induction nfc v ctx d and nfc vs ctx d and nfc es ctx d arbitrary: r and r and r
    rule: encodeValue_encodeArray_encodeEntries.induct)
  case (1 nfc v ctx depth)
  from "1.prems" have deep: "\<not> depth > MAX_DEPTH"
    by (auto simp: encodeValue.simps split: if_splits)
  note step = "1.prems" [unfolded encodeValue.simps [of nfc v] if_not_P [OF deep]]
  show ?case
  proof (cases v)
    case (CStr s)
    with step show ?thesis
      by (auto simp: inversion dest!: stringBytes_Inr append_ctx_Inr)
  next
    case (CArr vs)
    with step obtain c where len: "length vs \<le> MAX_CONTAINER_ENTRIES"
      and c: "append_ctx ctx [[5], u32 (length vs)] = Inr c"
      and r: "encodeArray nfc vs c (depth + 1) = Inr r"
      by (auto simp: inversion arrayValues_def)
    from "1.IH"(1) [OF deep CArr _ c r] len append_ctx_Inr [OF c] CArr show ?thesis
      by (auto simp: arrayValues_def short_def MAX_CONTAINER_ENTRIES_def list_all_iff o_def)
  next
    case (CObj kvs)
    with step obtain es c where es: "sortedObjectEntries nfc kvs = Inr es"
      and c: "append_ctx ctx [[6], u32 (length es)] = Inr c"
      and r: "encodeEntries nfc es c (depth + 1) = Inr r"
      by (auto simp: inversion)
    note facts = sortedObjectEntries_Inr [OF es]
    have len: "length es = length kvs" using facts by simp
    note ih = "1.IH"(2) [OF deep CObj es c r]
    have "r = ctx @ enc (canon v)"
      using ih append_ctx_Inr [OF c] len enc_canon_CObj [of es kvs] facts CObj by simp
    moreover have "encodable (canon v)"
      using ih facts CObj by (simp only:) (rule encodable_canon_CObj; auto simp: list_all_iff)
    ultimately show ?thesis by simp
  qed (use step in \<open>auto simp: inversion dest!: append_ctx_Inr\<close>)
next
  case (2 nfc ctx depth)
  then show ?case by simp
next
  case (3 nfc v vs ctx depth)
  then show ?case by (fastforce simp: inversion)
next
  case (4 nfc ctx depth)
  then show ?case by simp
next
  case (5 nfc bs v es ctx depth)
  from "5.prems" obtain c c' where c: "append_ctx ctx [[4], u32 (length bs), bs] = Inr c"
    and c': "encodeValue nfc v c depth = Inr c'" and r: "encodeEntries nfc es c' depth = Inr r"
    by (auto simp: inversion)
  from "5.IH"(1) [OF c c'] "5.IH"(2) [OF c c' r] append_ctx_Inr [OF c] show ?case
    by (simp add: entry_bytes_def)
qed

text \<open>No encoding is a proper prefix of another one, and it determines its value.\<close>

lemma entry_bytes_prefix:
  "\<lbrakk> entry_bytes k b @ r = entry_bytes k' b' @ r'; short k; short k' \<rbrakk> \<Longrightarrow> k = k' \<and> b @ r = b' @ r'"
  by (auto simp: entry_bytes_def short_def dest!: u32_inj)

lemma enc_prefix:
  "\<lbrakk> enc v @ r = enc w @ r'; encodable v; encodable w \<rbrakk> \<Longrightarrow> v = w \<and> r = r'"
proof (induction v arbitrary: w r r')
  case (CInt n)
  then show ?case by (cases w) (auto dest!: i64_inj split: if_splits)
next
  case (CStr s)
  then show ?case
    by (cases w) (auto simp: short_def key_bytes_def split: if_splits dest!: u32_inj utf8_inj)
next
  case (CArr vs)
  from CArr.prems obtain ws where w: "w = CArr ws" by (cases w) (auto split: if_splits)
  with CArr.prems have len: "length vs = length ws"
    and eq: "concat (map enc vs) @ r = concat (map enc ws) @ r'"
    and ok: "\<forall>v \<in> set vs. encodable v" "\<forall>v \<in> set ws. encodable v"
    by (auto simp: short_def list_all_iff dest: u32_inj)
  from len eq ok CArr.IH have "vs = ws \<and> r = r'"
  proof (induction vs ws rule: list_induct2)
    case (Cons v vs w ws)
    have "v = w \<and> concat (map enc vs) @ r = concat (map enc ws) @ r'"
      using Cons.prems(1-3) by (intro Cons.prems(4)) auto
    note head = this
    have "vs = ws \<and> r = r'"
    proof (rule Cons.IH)
      show "concat (map enc vs) @ r = concat (map enc ws) @ r'" using head ..
      show "\<forall>v \<in> set vs. encodable v" "\<forall>v \<in> set ws. encodable v"
        using Cons.prems(2,3) by simp_all
    qed (rule Cons.prems(4); simp)
    with head show ?case by blast
  qed simp
  with w show ?case by simp
next
  case (CObj kvs)
  from CObj.prems obtain kws where w: "w = CObj kws" by (cases w) (auto split: if_splits)
  let ?e = "\<lambda>p. entry_bytes (key_bytes (fst p)) (enc (snd p))"
  let ?ok = "\<lambda>p. short (key_bytes (fst p)) \<and> encodable (snd p)"
  from CObj.prems w have len: "length kvs = length kws"
    and eq: "concat (map ?e kvs) @ r = concat (map ?e kws) @ r'"
    and ok: "\<forall>p \<in> set kvs. ?ok p" "\<forall>p \<in> set kws. ?ok p"
    by (auto simp: short_def list_all_iff o_def dest: u32_inj)
  have ih: "\<And>p w r r'. \<lbrakk> p \<in> set kvs; enc (snd p) @ r = enc w @ r'; encodable (snd p); encodable w \<rbrakk>
      \<Longrightarrow> snd p = w \<and> r = r'"
    by (rule CObj.IH [OF _ snds.intros])
  from len eq ok ih have "kvs = kws \<and> r = r'"
  proof (induction kvs kws rule: list_induct2)
    case (Cons p kvs q kws)
    have "key_bytes (fst p) = key_bytes (fst q) \<and>
        enc (snd p) @ concat (map ?e kvs) @ r = enc (snd q) @ concat (map ?e kws) @ r'"
      using Cons.prems(1-3) by (intro entry_bytes_prefix) auto
    then have key: "key_bytes (fst p) = key_bytes (fst q)"
      and tail: "enc (snd p) @ concat (map ?e kvs) @ r = enc (snd q) @ concat (map ?e kws) @ r'"
      by blast+
    have head: "snd p = snd q \<and> concat (map ?e kvs) @ r = concat (map ?e kws) @ r'"
      using Cons.prems(2,3) by (intro Cons.prems(4) [OF _ tail]) auto
    have "kvs = kws \<and> r = r'"
    proof (rule Cons.IH)
      show "concat (map ?e kvs) @ r = concat (map ?e kws) @ r'" using head ..
      show "\<forall>p \<in> set kvs. ?ok p" "\<forall>p \<in> set kws. ?ok p" using Cons.prems(2,3) by simp_all
    qed (rule Cons.prems(4); simp)
    with head key utf8_inj show ?case by (auto simp: key_bytes_def prod_eq_iff)
  qed simp
  with w show ?case by simp
qed (case_tac w; auto split: if_splits)+

section \<open>What the encoder accepts\<close>

text \<open>The limits on strings and keys, and the values within the encoder's limits at a depth.\<close>

definition string_ok :: "units \<Rightarrow> bool" where
  "string_ok s \<longleftrightarrow> validUnicodeScalarString (map unat s) \<and> length (key_bytes s) \<le> MAX_STRING_BYTES"

definition keys_ok :: "(units \<Rightarrow> units) \<Rightarrow> units list \<Rightarrow> bool" where
  "keys_ok nfc ks \<longleftrightarrow> list_all (\<lambda>k. string_ok k \<and> nfc k = k) ks \<and> distinct ks"

primrec within :: "(units \<Rightarrow> units) \<Rightarrow> cval \<Rightarrow> nat \<Rightarrow> bool" where
  "within nfc CNull = (\<lambda>d. d \<le> MAX_DEPTH)"
| "within nfc (CBool b) = (\<lambda>d. d \<le> MAX_DEPTH)"
| "within nfc (CInt n) = (\<lambda>d. d \<le> MAX_DEPTH \<and> is_safe_int n)"
| "within nfc CNegZero = (\<lambda>d. False)"
| "within nfc CFrac = (\<lambda>d. False)"
| "within nfc (CStr s) = (\<lambda>d. d \<le> MAX_DEPTH \<and> string_ok s)"
| "within nfc (CArr vs) = (\<lambda>d. d \<le> MAX_DEPTH \<and> length vs \<le> MAX_CONTAINER_ENTRIES \<and>
     list_all (\<lambda>f. f (d + 1)) (map (within nfc) vs))"
| "within nfc (CObj kvs) = (\<lambda>d. d \<le> MAX_DEPTH \<and> length kvs \<le> MAX_CONTAINER_ENTRIES \<and>
     keys_ok nfc (map fst kvs) \<and>
     list_all (\<lambda>p. snd p (d + 1)) (map (map_prod id (within nfc)) kvs))"
| "within nfc COther = (\<lambda>d. False)"
| "within nfc CExotic = (\<lambda>d. False)"

lemma append_ctx_ok:
  "length ctx + length (concat vs) \<le> MAX_ENCODED_BYTES \<Longrightarrow> append_ctx ctx vs = Inr (ctx @ concat vs)"
  by (induction vs arbitrary: ctx) auto

lemma append_ctx_bound:
  "append_ctx ctx vs = Inr r \<Longrightarrow> length r \<le> max (length ctx) MAX_ENCODED_BYTES"
  by (induction vs arbitrary: ctx) (fastforce simp: inversion)+

lemma stringBytes_ok_iff: "stringBytes s = Inr bs \<longleftrightarrow> string_ok s \<and> bs = key_bytes s"
  by (auto simp: stringBytes_def string_ok_def key_bytes_def)

lemma keyEntries_ok:
  assumes "keys_ok nfc (map fst kvs)" and "set (map fst kvs) \<inter> set seen = {}"
    and "kb + sum_list (map (\<lambda>p. length (key_bytes (fst p))) kvs) \<le> MAX_ENCODED_BYTES"
  shows "keyEntries nfc seen kb kvs = Inr (map (\<lambda>p. (key_bytes (fst p), snd p)) kvs)"
  using assms
proof (induction kvs arbitrary: seen kb)
  case (Cons p kvs)
  obtain k v where p: "p = (k, v)" by (cases p)
  with Cons.prems have k: "stringBytes k = Inr (key_bytes k)" "nfc k = k" "k \<notin> set seen"
    "\<not> kb + length (key_bytes k) > MAX_ENCODED_BYTES"
    by (auto simp: keys_ok_def stringBytes_ok_iff)
  have "keyEntries nfc (k # seen) (kb + length (key_bytes k)) kvs =
      Inr (map (\<lambda>p. (key_bytes (fst p), snd p)) kvs)"
    using Cons.prems p by (intro Cons.IH) (auto simp: keys_ok_def)
  with k p show ?case by simp
qed simp

lemma keyEntries_keys:
  "keyEntries nfc seen kb kvs = Inr es \<Longrightarrow>
   list_all (\<lambda>k. string_ok k \<and> nfc k = k) (map fst kvs) \<and> distinct (map fst kvs) \<and>
   set (map fst kvs) \<inter> set seen = {}"
proof (induction kvs arbitrary: seen kb es)
  case (Cons p kvs)
  obtain k v where p: "p = (k, v)" by (cases p)
  with Cons.prems obtain bs es' where k: "stringBytes k = Inr bs" "nfc k = k" "k \<notin> set seen"
    and rest: "keyEntries nfc (k # seen) (kb + length bs) kvs = Inr es'"
    by (auto simp: inversion)
  from Cons.IH [OF rest] k p show ?case by (auto simp: stringBytes_ok_iff)
qed simp

lemma length_concat_entries:
  "length (concat (map (\<lambda>p. entry_bytes (f p) (g p)) xs)) =
     (\<Sum>p \<leftarrow> xs. 5 + length (f p) + length (g p))"
  by (induction xs) (simp_all add: entry_bytes_def)

lemma encode_ok:
  "within nfc v d \<Longrightarrow> length ctx + length (enc (canon v)) \<le> MAX_ENCODED_BYTES \<Longrightarrow>
     encodeValue nfc v ctx d = Inr (ctx @ enc (canon v))"
  "\<forall>v \<in> set vs. within nfc v d \<Longrightarrow>
     length ctx + length (concat (map (\<lambda>v. enc (canon v)) vs)) \<le> MAX_ENCODED_BYTES \<Longrightarrow>
     encodeArray nfc vs ctx d = Inr (ctx @ concat (map (\<lambda>v. enc (canon v)) vs))"
  "\<forall>p \<in> set es. within nfc (snd p) d \<Longrightarrow>
     length ctx + length (concat (map (\<lambda>p. entry_bytes (fst p) (enc (canon (snd p)))) es)) \<le>
       MAX_ENCODED_BYTES \<Longrightarrow>
     encodeEntries nfc es ctx d =
       Inr (ctx @ concat (map (\<lambda>p. entry_bytes (fst p) (enc (canon (snd p)))) es))"
proof (induction nfc v ctx d and nfc vs ctx d and nfc es ctx d
    rule: encodeValue_encodeArray_encodeEntries.induct)
  case (1 nfc v ctx depth)
  from "1.prems"(1) have deep: "\<not> depth > MAX_DEPTH" by (cases v) auto
  show ?case
  proof (cases v)
    case (CStr s)
    with "1.prems" deep show ?thesis
      by (simp add: encodeValue.simps append_ctx_ok stringBytes_ok_iff [THEN iffD2] key_bytes_def)
  next
    case (CArr vs)
    from "1.prems" CArr have vs: "arrayValues vs = Inr vs" "\<forall>v \<in> set vs. within nfc v (depth + 1)"
      by (auto simp: arrayValues_def list_all_iff)
    let ?c = "ctx @ [5] @ u32 (length vs)"
    have c: "append_ctx ctx [[5], u32 (length vs)] = Inr ?c"
      using "1.prems"(2) CArr by (subst append_ctx_ok) auto
    have "encodeArray nfc vs ?c (depth + 1) = Inr (?c @ concat (map (\<lambda>v. enc (canon v)) vs))"
      using "1.prems"(2) CArr by (intro "1.IH"(1) [OF deep CArr vs(1) c vs(2)]) (simp add: o_def)
    with deep CArr vs(1) c show ?thesis by (simp add: encodeValue.simps o_def)
  next
    case (CObj kvs)
    let ?es = "map (\<lambda>p. (key_bytes (fst p), snd p)) (sort_key (\<lambda>p. key_bytes (fst p)) kvs)"
    let ?body = "concat (map (\<lambda>p. entry_bytes (fst p) (enc (canon (snd p)))) ?es)"
    have encv: "enc (canon v) = 6 # u32 (length kvs) @ ?body"
      using enc_canon_CObj [OF refl, of kvs] CObj by simp
    from "1.prems" CObj have len: "\<not> length kvs > MAX_CONTAINER_ENTRIES"
      and keys: "keys_ok nfc (map fst kvs)" and sub: "\<forall>p \<in> set kvs. within nfc (snd p) (depth + 1)"
      by (auto simp: list_all_iff)
    have "sum_list (map (\<lambda>p. length (key_bytes (fst p))) kvs) =
        sum_list (map (\<lambda>p. length (key_bytes (fst p))) (sort_key (\<lambda>p. key_bytes (fst p)) kvs))"
      by (simp add: sum_list_sort_key)
    also have "\<dots> \<le> length ?body"
      by (simp only: length_concat_entries map_map o_def fst_conv snd_conv)
        (rule sum_list_mono, simp)
    finally have "keyEntries nfc [] 0 kvs = Inr (map (\<lambda>p. (key_bytes (fst p), snd p)) kvs)"
      using "1.prems"(2) encv keys by (intro keyEntries_ok) auto
    then have es: "sortedObjectEntries nfc kvs = Inr ?es"
      using len sort_key_map [of fst "\<lambda>p. (key_bytes (fst p), snd p)" "\<lambda>p. key_bytes (fst p)"]
      by (simp add: sortedObjectEntries_def)
    let ?c = "ctx @ [6] @ u32 (length ?es)"
    have c: "append_ctx ctx [[6], u32 (length ?es)] = Inr ?c"
      using "1.prems"(2) encv by (subst append_ctx_ok) auto
    have "encodeEntries nfc ?es ?c (depth + 1) = Inr (?c @ ?body)"
    proof (rule "1.IH"(2) [OF deep CObj es c])
      show "\<forall>p \<in> set ?es. within nfc (snd p) (depth + 1)" using sub by auto
      show "length ?c + length ?body \<le> MAX_ENCODED_BYTES" using "1.prems"(2) encv by simp
    qed
    with deep CObj es c encv show ?thesis
      by (simp add: encodeValue.simps del: append_ctx.simps canon.simps enc.simps)
  qed (use "1.prems" deep in \<open>auto simp: encodeValue.simps append_ctx_ok\<close>)
next
  case (3 nfc v vs ctx depth)
  have v: "encodeValue nfc v ctx depth = Inr (ctx @ enc (canon v))"
    using "3.prems" by (intro "3.IH"(1)) auto
  have "encodeArray nfc vs (ctx @ enc (canon v)) depth =
      Inr ((ctx @ enc (canon v)) @ concat (map (\<lambda>v. enc (canon v)) vs))"
    using "3.prems" by (intro "3.IH"(2) [OF v]) auto
  with v show ?case by simp
next
  case (5 nfc bs v es ctx depth)
  let ?c = "ctx @ [4] @ u32 (length bs) @ bs"
  have c: "append_ctx ctx [[4], u32 (length bs), bs] = Inr ?c"
    using "5.prems"(2) by (subst append_ctx_ok) (auto simp: entry_bytes_def)
  have v: "encodeValue nfc v ?c depth = Inr (?c @ enc (canon v))"
    using "5.prems" by (intro "5.IH"(1) [OF c]) (auto simp: entry_bytes_def)
  have "encodeEntries nfc es (?c @ enc (canon v)) depth =
      Inr ((?c @ enc (canon v)) @ concat (map (\<lambda>p. entry_bytes (fst p) (enc (canon (snd p)))) es))"
    using "5.prems" by (intro "5.IH"(2) [OF c v]) (auto simp: entry_bytes_def)
  with c v show ?case by (simp add: entry_bytes_def)
qed simp_all


lemma encode_within:
  "encodeValue nfc v ctx d = Inr r \<Longrightarrow>
     within nfc v d \<and> length r \<le> max (length ctx) MAX_ENCODED_BYTES"
  "encodeArray nfc vs ctx d = Inr r \<Longrightarrow>
     (\<forall>v \<in> set vs. within nfc v d) \<and> length r \<le> max (length ctx) MAX_ENCODED_BYTES"
  "encodeEntries nfc es ctx d = Inr r \<Longrightarrow>
     (\<forall>p \<in> set es. within nfc (snd p) d) \<and> length r \<le> max (length ctx) MAX_ENCODED_BYTES"
proof (induction nfc v ctx d and nfc vs ctx d and nfc es ctx d arbitrary: r and r and r
    rule: encodeValue_encodeArray_encodeEntries.induct)
  case (1 nfc v ctx depth)
  from "1.prems" have deep: "\<not> depth > MAX_DEPTH"
    by (auto simp: encodeValue.simps split: if_splits)
  note step = "1.prems" [unfolded encodeValue.simps [of nfc v] if_not_P [OF deep]]
  show ?case
  proof (cases v)
    case (CArr vs)
    with step obtain c where len: "length vs \<le> MAX_CONTAINER_ENTRIES"
      and c: "append_ctx ctx [[5], u32 (length vs)] = Inr c"
      and r: "encodeArray nfc vs c (depth + 1) = Inr r"
      by (auto simp: inversion arrayValues_def)
    from "1.IH"(1) [OF deep CArr _ c r] len append_ctx_bound [OF c] CArr deep show ?thesis
      by (auto simp: arrayValues_def list_all_iff)
  next
    case (CObj kvs)
    with step obtain es c where es: "sortedObjectEntries nfc kvs = Inr es"
      and c: "append_ctx ctx [[6], u32 (length es)] = Inr c"
      and r: "encodeEntries nfc es c (depth + 1) = Inr r"
      by (auto simp: inversion)
    from es obtain es' where len: "length kvs \<le> MAX_CONTAINER_ENTRIES"
      and es': "keyEntries nfc [] 0 kvs = Inr es'" "es = sort_key fst es'"
      by (auto simp: sortedObjectEntries_def inversion)
    have keys: "keys_ok nfc (map fst kvs)"
      using keyEntries_keys [OF es'(1)] by (simp add: keys_ok_def)
    have "snd ` set es = snd ` set kvs"
      using keyEntries_values [OF es'(1)] es'(2) by (metis set_map set_sort)
    with "1.IH"(2) [OF deep CObj es c r] have "\<forall>p \<in> set kvs. within nfc (snd p) (depth + 1)"
      by (metis imageE image_eqI)
    with "1.IH"(2) [OF deep CObj es c r] append_ctx_bound [OF c] keys len deep CObj show ?thesis
      by (auto simp: list_all_iff)
  qed (use step deep in \<open>auto simp: inversion stringBytes_ok_iff dest!: append_ctx_bound\<close>)
next
  case (3 nfc v vs ctx depth)
  then show ?case by (fastforce simp: inversion)
next
  case (5 nfc bs v es ctx depth)
  from "5.prems" obtain c c' where c: "append_ctx ctx [[4], u32 (length bs), bs] = Inr c"
    and c': "encodeValue nfc v c depth = Inr c'" and r: "encodeEntries nfc es c' depth = Inr r"
    by (auto simp: inversion)
  from "5.IH"(1) [OF c c'] "5.IH"(2) [OF c c' r] append_ctx_bound [OF c] show ?case
    by auto
qed simp_all

lemma encoding_accepts_iff:
  "consensusValueBytes nfc v = Inr b \<longleftrightarrow>
     within nfc v 0 \<and> b = enc (canon v) \<and> length b \<le> MAX_ENCODED_BYTES"
proof
  assume ok: "consensusValueBytes nfc v = Inr b"
  then have e: "encodeValue nfc v [] 0 = Inr b" by (simp add: consensusValueBytes_def)
  from encode_Inr(1) [OF e] encode_within(1) [OF e]
  show "within nfc v 0 \<and> b = enc (canon v) \<and> length b \<le> MAX_ENCODED_BYTES" by simp
next
  assume "within nfc v 0 \<and> b = enc (canon v) \<and> length b \<le> MAX_ENCODED_BYTES"
  then show "consensusValueBytes nfc v = Inr b"
    using encode_ok(1) [of nfc v 0 "[]"] by (auto simp: consensusValueBytes_def)
qed

text \<open>
  the encoder accepts exactly the values within its limits (depth, container sizes, strings
  that are well-formed and normalized keys, safe integers, total size), and then returns the
  canonical encoding: the entries of every object in the order of their UTF-8 keys, whatever
  order they were given in.
\<close>

theorem consensus_encoding_accepts_iff:
  "consensusValueBytes nfc v = Inr b \<longleftrightarrow>
     within nfc v 0 \<and> b = enc (canon v) \<and> length b \<le> MAX_ENCODED_BYTES"
  by (rule encoding_accepts_iff)

end
