(* ===== verification/Constants.thy ===== *)
theory Constants
  imports Prelude
begin

text \<open>
  \<open>blockchain/constants.mjs\<close>: the protocol's constants, the vesting schedule and the issuance
  schedule, and the decimal amounts every component parses.
\<close>

section \<open>Constants\<close>

definition ATOMIC_UNITS :: int where
  "ATOMIC_UNITS = 100000000"

definition MAX_SUPPLY :: int where
  "MAX_SUPPLY = 21000000 * ATOMIC_UNITS"

definition TREASURY_BPS :: int where
  "TREASURY_BPS = 1200"

definition TREASURY_ALLOCATION :: int where
  "TREASURY_ALLOCATION = (MAX_SUPPLY * TREASURY_BPS) div 10000"

definition FOUNDER_BPS :: int where
  "FOUNDER_BPS = 700"

definition FOUNDER_ALLOCATION :: int where
  "FOUNDER_ALLOCATION = (MAX_SUPPLY * FOUNDER_BPS) div 10000"

definition FOUNDER_IMMEDIATE_BPS :: int where
  "FOUNDER_IMMEDIATE_BPS = 100"

definition FOUNDER_IMMEDIATE_ALLOCATION :: int where
  "FOUNDER_IMMEDIATE_ALLOCATION = (MAX_SUPPLY * FOUNDER_IMMEDIATE_BPS) div 10000"

definition FOUNDER_VESTED_ALLOCATION :: int where
  "FOUNDER_VESTED_ALLOCATION = FOUNDER_ALLOCATION - FOUNDER_IMMEDIATE_ALLOCATION"

definition PROTOCOL_TREASURY_ALLOCATION :: int where
  "PROTOCOL_TREASURY_ALLOCATION = TREASURY_ALLOCATION - FOUNDER_ALLOCATION"

definition TESTER_REWARD_RESERVE_ALLOCATION :: int where
  "TESTER_REWARD_RESERVE_ALLOCATION = (MAX_SUPPLY * 10) div 10000"

definition PROTOCOL_TREASURY_VESTED_ALLOCATION :: int where
  "PROTOCOL_TREASURY_VESTED_ALLOCATION =
     PROTOCOL_TREASURY_ALLOCATION - TESTER_REWARD_RESERVE_ALLOCATION"

definition MINING_POOL :: int where
  "MINING_POOL = MAX_SUPPLY - TREASURY_ALLOCATION"

definition INITIAL_EPOCH_REWARD :: int where
  "INITIAL_EPOCH_REWARD = 44 * ATOMIC_UNITS"

definition HALVING_INTERVAL :: int where
  "HALVING_INTERVAL = 210000"

definition SIGNATURE_ALGORITHM :: string where
  "SIGNATURE_ALGORITHM = ''ml-dsa-65''"

definition MULTISIG_ALGORITHM :: string where
  "MULTISIG_ALGORITHM = ''ml-dsa-65-multisig''"

definition MAX_MULTISIG_MEMBERS :: nat where
  "MAX_MULTISIG_MEMBERS = 16"

text \<open>Protocol versions from which a rule applies.\<close>

definition RECOVERY_STATE_COMMITMENT_PROTOCOL_VERSION :: int where
  "RECOVERY_STATE_COMMITMENT_PROTOCOL_VERSION = 25"

definition EVALUATION_ASSIGNMENT_ROOT_PROTOCOL_VERSION :: int where
  "EVALUATION_ASSIGNMENT_ROOT_PROTOCOL_VERSION = 26"

definition EXTENDED_EVALUATION_ASSIGNMENT_PROTOCOL_VERSION :: int where
  "EXTENDED_EVALUATION_ASSIGNMENT_PROTOCOL_VERSION = 27"

definition HISTORICAL_VALIDATOR_EVIDENCE_PROTOCOL_VERSION :: int where
  "HISTORICAL_VALIDATOR_EVIDENCE_PROTOCOL_VERSION = 29"

definition VALIDATOR_EXIT_LIFECYCLE_PROTOCOL_VERSION :: int where
  "VALIDATOR_EXIT_LIFECYCLE_PROTOCOL_VERSION = 30"

definition VALIDATOR_ADMISSION_EXPIRY_PROTOCOL_VERSION :: int where
  "VALIDATOR_ADMISSION_EXPIRY_PROTOCOL_VERSION = 32"

definition VALIDATOR_READINESS_SET_RESET_PROTOCOL_VERSION :: int where
  "VALIDATOR_READINESS_SET_RESET_PROTOCOL_VERSION = 33"

definition RECOVERY_RESERVE_ADMISSION_PROTOCOL_VERSION :: int where
  "RECOVERY_RESERVE_ADMISSION_PROTOCOL_VERSION = 34"

definition EPOCH_REVEAL_TIMEOUT_BLOCKS :: int where
  "EPOCH_REVEAL_TIMEOUT_BLOCKS = 8"

definition BEACON_NON_REVEAL_SLASH_BPS :: int where
  "BEACON_NON_REVEAL_SLASH_BPS = 100"

definition CHAIN_IDENTITY_CHECKPOINT_PROTOCOL_VERSION :: int where
  "CHAIN_IDENTITY_CHECKPOINT_PROTOCOL_VERSION = 28"

definition VALIDATOR_ADMISSION_QUEUE_PROTOCOL_VERSION :: int where
  "VALIDATOR_ADMISSION_QUEUE_PROTOCOL_VERSION = 31"

definition PROGRESS_GENESIS_BINDING_PROTOCOL_VERSION :: int where
  "PROGRESS_GENESIS_BINDING_PROTOCOL_VERSION = 35"

definition TRANSFER_GENESIS_BINDING_PROTOCOL_VERSION :: int where
  "TRANSFER_GENESIS_BINDING_PROTOCOL_VERSION = 36"

definition PROOF_MINING_PROTOCOL_VERSION :: int where
  "PROOF_MINING_PROTOCOL_VERSION = 37"

definition NAME_REGISTRY_PROTOCOL_VERSION :: int where
  "NAME_REGISTRY_PROTOCOL_VERSION = 38"

definition VALIDATOR_WITHDRAWAL_DELAY_BLOCKS :: int where
  "VALIDATOR_WITHDRAWAL_DELAY_BLOCKS = 64"

definition MAX_PROGRESS_REWARDS_PER_BLOCK :: nat where
  "MAX_PROGRESS_REWARDS_PER_BLOCK = 256"

definition PROGRESS_REWARD_ESCROW_DELAY_BLOCKS :: int where
  "PROGRESS_REWARD_ESCROW_DELAY_BLOCKS = 64"

definition MAX_VALIDATORS :: nat where
  "MAX_VALIDATORS = 256"

definition MAX_CONSENSUS_ROUND :: int where
  "MAX_CONSENSUS_ROUND = 31"

definition MIN_BEACON_BOND :: int where
  "MIN_BEACON_BOND = 1000 * ATOMIC_UNITS"

definition MIN_EVALUATOR_BOND :: int where
  "MIN_EVALUATOR_BOND = 50 * ATOMIC_UNITS"

definition EVALUATOR_ACTIVATION_DELAY_BLOCKS :: int where
  "EVALUATOR_ACTIVATION_DELAY_BLOCKS = 64"

definition EVALUATOR_CREDENTIAL_LIFETIME_BLOCKS :: int where
  "EVALUATOR_CREDENTIAL_LIFETIME_BLOCKS = 1024"

definition TRANSFER_CREDIT_EPOCH_BLOCKS :: int where
  "TRANSFER_CREDIT_EPOCH_BLOCKS = 720"

definition TRANSFER_CREDIT_STAKE_UNIT :: int where
  "TRANSFER_CREDIT_STAKE_UNIT = 100 * ATOMIC_UNITS"

definition TRANSFER_CREDITS_PER_STAKE_UNIT :: int where
  "TRANSFER_CREDITS_PER_STAKE_UNIT = 10"

definition MAX_CREDIT_DELEGATIONS_PER_OWNER :: nat where
  "MAX_CREDIT_DELEGATIONS_PER_OWNER = 256"

definition CREDIT_UNSTAKE_DELAY_BLOCKS :: int where
  "CREDIT_UNSTAKE_DELAY_BLOCKS = 64"

definition MAX_NATIVE_ASSETS :: nat where
  "MAX_NATIVE_ASSETS = 4096"

definition MAX_NATIVE_ASSET_BALANCES :: nat where
  "MAX_NATIVE_ASSET_BALANCES = 65536"

definition MIN_REWARD_INTERVAL_MS :: int where
  "MIN_REWARD_INTERVAL_MS = 600000"

definition MIN_TRANSFER_FEE :: int where
  "MIN_TRANSFER_FEE = 1000"

definition MIN_PROGRESS_CANDIDATE_BOND :: int where
  "MIN_PROGRESS_CANDIDATE_BOND = 1 * ATOMIC_UNITS"

definition MAX_DECIMAL_DIGITS :: nat where
  "MAX_DECIMAL_DIGITS = 32"

definition TREASURY_VESTING_MS :: int where
  "TREASURY_VESTING_MS = 315576000000"

lemmas monetary_constants =
  ATOMIC_UNITS_def MAX_SUPPLY_def TREASURY_BPS_def TREASURY_ALLOCATION_def FOUNDER_BPS_def
  FOUNDER_ALLOCATION_def FOUNDER_IMMEDIATE_BPS_def FOUNDER_IMMEDIATE_ALLOCATION_def
  FOUNDER_VESTED_ALLOCATION_def PROTOCOL_TREASURY_ALLOCATION_def
  TESTER_REWARD_RESERVE_ALLOCATION_def PROTOCOL_TREASURY_VESTED_ALLOCATION_def MINING_POOL_def
  INITIAL_EPOCH_REWARD_def HALVING_INTERVAL_def

section \<open>Schedules\<close>

datatype schedule_error = Vesting_invalid | Epoch_invalid | Initial_reward_invalid

text \<open>\<open>vestedAllocationAtTimestamp\<close>: linear in the elapsed time, rounded down.\<close>

definition vestedAllocationAtTimestamp :: "int \<Rightarrow> int \<Rightarrow> int \<Rightarrow> schedule_error + int" where
  "vestedAllocationAtTimestamp allocation genesisTimestamp timestamp =
     (if allocation < 0 \<or> \<not> is_safe_int genesisTimestamp \<or> \<not> is_safe_int timestamp \<or>
         genesisTimestamp < 0 \<or> timestamp < genesisTimestamp then Inl Vesting_invalid
      else let elapsed = timestamp - genesisTimestamp in
        if elapsed \<ge> TREASURY_VESTING_MS then Inr allocation
        else Inr ((allocation * elapsed) div TREASURY_VESTING_MS))"

definition vestedTreasuryAtTimestamp :: "int \<Rightarrow> int \<Rightarrow> schedule_error + int" where
  "vestedTreasuryAtTimestamp genesisTimestamp timestamp =
     vestedAllocationAtTimestamp TREASURY_ALLOCATION genesisTimestamp timestamp"

text \<open>\<open>scheduledEpochBudget\<close>: the reward of an epoch, shifted right once per halving.\<close>

definition scheduledEpochBudget :: "int \<Rightarrow> int \<Rightarrow> schedule_error + int" where
  "scheduledEpochBudget epoch initialReward =
     (if \<not> is_safe_int epoch \<or> epoch < 0 then Inl Epoch_invalid
      else if initialReward \<le> 0 \<or> initialReward > MAX_SUPPLY then Inl Initial_reward_invalid
      else let halvings = epoch div HALVING_INTERVAL in
        Inr (if halvings \<ge> 64 then 0 else initialReward div 2 ^ nat halvings))"

section \<open>Decimal amounts\<close>

text \<open>
  \<open>parseAtomic\<close> of \<open>chain.mjs\<close>, the guard of every amount of a transaction: a string of at most
  32 digits without a leading zero.
\<close>

datatype amount_error = Not_a_decimal_string

fun parseAtomic :: "jsval \<Rightarrow> amount_error + int" where
  "parseAtomic (JStr s) =
     (if length s > MAX_DECIMAL_DIGITS \<or> \<not> is_decimal s then Inl Not_a_decimal_string
      else Inr (dec_value s))"
| "parseAtomic _ = Inl Not_a_decimal_string"

definition MAX_ATOMIC_VALUE :: int where
  "MAX_ATOMIC_VALUE = 10 ^ MAX_DECIMAL_DIGITS - 1"

lemma parseAtomic_Inr_iff:
  "parseAtomic v = Inr n \<longleftrightarrow>
     (\<exists>s. v = JStr s \<and> length s \<le> MAX_DECIMAL_DIGITS \<and> is_decimal s \<and> n = dec_value s)"
  by (cases v) auto

lemma dec_value_foldl_bound:
  "list_all is_digit s \<Longrightarrow>
   foldl (\<lambda>acc c. 10 * acc + digit_value c) acc s < (acc + 1) * 10 ^ length s"
proof (induction s arbitrary: acc)
  case (Cons c s)
  then have "foldl (\<lambda>acc c. 10 * acc + digit_value c) (10 * acc + digit_value c) s <
      (10 * acc + digit_value c + 1) * 10 ^ length s" by simp
  also have "\<dots> \<le> ((acc + 1) * 10) * 10 ^ length s"
    using Cons.prems by (intro mult_right_mono) (auto simp: is_digit_def digit_value_def)
  finally show ?case by (simp add: algebra_simps)
qed simp

lemma dec_value_bound: "is_decimal s \<Longrightarrow> dec_value s < 10 ^ length s"
proof -
  assume "is_decimal s"
  then have "list_all is_digit s" by (auto simp: is_decimal_def is_digit_def unit_of_def)
  then show ?thesis using dec_value_foldl_bound [of s 0] by (simp add: dec_value_def)
qed

lemma parseAtomic_range: "parseAtomic v = Inr n \<Longrightarrow> 0 \<le> n \<and> n \<le> MAX_ATOMIC_VALUE"
proof -
  assume "parseAtomic v = Inr n"
  then obtain s where s: "length s \<le> MAX_DECIMAL_DIGITS" "is_decimal s" "n = dec_value s"
    by (auto simp: parseAtomic_Inr_iff)
  have "dec_value s < 10 ^ length s" using s by (simp add: dec_value_bound)
  also have "\<dots> \<le> (10 :: int) ^ MAX_DECIMAL_DIGITS" using s by (intro power_increasing) auto
  finally show ?thesis using s dec_value_nonneg by (simp add: MAX_ATOMIC_VALUE_def)
qed

lemma parseAtomic_nonneg: "parseAtomic v = Inr n \<Longrightarrow> 0 \<le> n"
  by (simp add: parseAtomic_range)

text \<open>Schedules: what is vested never exceeds the allocation, grows with time and is complete
  after ten years; the budget never grows and is zero after 64 halvings.\<close>

lemma vested_bounds:
  "vestedAllocationAtTimestamp a g t = Inr v \<Longrightarrow> 0 \<le> v \<and> v \<le> a"
proof -
  assume v: "vestedAllocationAtTimestamp a g t = Inr v"
  then have a: "0 \<le> a" and el: "0 \<le> t - g"
    by (auto simp: vestedAllocationAtTimestamp_def Let_def split: if_splits)
  have "a * (t - g) div TREASURY_VESTING_MS \<le> a" if "t - g < TREASURY_VESTING_MS"
  proof -
    have "a * (t - g) \<le> a * TREASURY_VESTING_MS" using a that by (intro mult_left_mono) auto
    then have "a * (t - g) div TREASURY_VESTING_MS \<le> a * TREASURY_VESTING_MS div TREASURY_VESTING_MS"
      by (intro zdiv_mono1) (auto simp: TREASURY_VESTING_MS_def)
    then show ?thesis by (simp add: TREASURY_VESTING_MS_def)
  qed
  moreover have "0 \<le> a * (t - g) div TREASURY_VESTING_MS"
    using a el by (simp add: TREASURY_VESTING_MS_def pos_imp_zdiv_nonneg_iff)
  ultimately show ?thesis
    using v a by (auto simp: vestedAllocationAtTimestamp_def Let_def split: if_splits)
qed

lemma vested_mono:
  assumes "vestedAllocationAtTimestamp a g t = Inr v" and "vestedAllocationAtTimestamp a g t' = Inr v'"
    and "t \<le> t'"
  shows "v \<le> v'"
proof (cases "t' - g < TREASURY_VESTING_MS")
  case True
  with assms have "0 \<le> a" by (auto simp: vestedAllocationAtTimestamp_def split: if_splits)
  then have "a * (t - g) \<le> a * (t' - g)" using assms(3) by (intro mult_left_mono) auto
  then have "a * (t - g) div TREASURY_VESTING_MS \<le> a * (t' - g) div TREASURY_VESTING_MS"
    by (intro zdiv_mono1) (auto simp: TREASURY_VESTING_MS_def)
  with assms True show ?thesis
    by (auto simp: vestedAllocationAtTimestamp_def Let_def split: if_splits)
next
  case False
  then have "v' = a" using assms(2)
    by (auto simp: vestedAllocationAtTimestamp_def Let_def split: if_splits)
  with vested_bounds [OF assms(1)] show ?thesis by simp
qed

lemma scheduledEpochBudget_bounds:
  assumes "scheduledEpochBudget e r = Inr b"
  shows "0 \<le> b \<and> b \<le> r"
proof -
  from assms have r: "0 < r" by (auto simp: scheduledEpochBudget_def split: if_splits)
  have "r div 2 ^ n \<le> r" for n :: nat
    using zdiv_mono2 [of r 1 "2 ^ n"] r by simp
  with assms r show ?thesis
    by (auto simp: scheduledEpochBudget_def Let_def pos_imp_zdiv_nonneg_iff split: if_splits)
qed

section \<open>The issuance schedule\<close>

text \<open>What the schedule allows in one epoch, 0 where the schedule throws.\<close>

definition epochIssue :: "nat \<Rightarrow> int" where
  "epochIssue e = (case scheduledEpochBudget (int e) INITIAL_EPOCH_REWARD of Inl _ \<Rightarrow> 0 | Inr b \<Rightarrow> b)"

lemma sum_halvings: "0 \<le> r \<Longrightarrow> (\<Sum>j<k. r div 2 ^ j) \<le> 2 * r - 2 * (r div 2 ^ k)" for r :: int
proof (induction k)
  case (Suc k)
  have "2 * (r div 2 ^ k div 2) \<le> r div 2 ^ k" by simp
  then have "2 * (r div 2 ^ Suc k) \<le> r div 2 ^ k"
    by (simp add: zdiv_zmult2_eq [symmetric] mult.commute)
  moreover have "(\<Sum>j<k. r div 2 ^ j) \<le> 2 * r - 2 * (r div 2 ^ k)" using Suc by simp
  ultimately show ?case by simp
qed simp

lemma sum_blocks:
  fixes f :: "nat \<Rightarrow> int"
  shows "0 < h \<Longrightarrow> (\<Sum>e<k * h. f (e div h)) = int h * (\<Sum>j<k. f j)"
proof (induction k)
  case (Suc k)
  have "(\<Sum>e<Suc k * h. f (e div h)) = (\<Sum>e<k * h. f (e div h)) + (\<Sum>e=k * h..<Suc k * h. f (e div h))"
    by (subst sum.atLeastLessThan_concat [of 0 "k * h", symmetric, simplified atLeast0LessThan]) auto
  also have "(\<Sum>e=k * h..<Suc k * h. f (e div h)) = (\<Sum>e=k * h..<Suc k * h. f k)"
  proof (rule sum.cong)
    fix e assume "e \<in> {k * h..<Suc k * h}"
    then have "e div h = k" by (intro div_nat_eqI) (auto simp: mult.commute)
    then show "f (e div h) = f k" by simp
  qed simp
  also have "\<dots> = int h * f k" by simp
  finally show ?case using Suc by (simp add: algebra_simps)
qed simp

lemma epochIssue_bounds: "0 \<le> epochIssue e \<and> epochIssue e \<le> INITIAL_EPOCH_REWARD div 2 ^ (e div nat HALVING_INTERVAL)"
proof -
  have "int e div HALVING_INTERVAL = int (e div nat HALVING_INTERVAL)"
    by (simp add: HALVING_INTERVAL_def zdiv_int)
  then show ?thesis
    by (simp add: epochIssue_def scheduledEpochBudget_def Let_def INITIAL_EPOCH_REWARD_def
        ATOMIC_UNITS_def pos_imp_zdiv_nonneg_iff nat_div_distrib HALVING_INTERVAL_def)
qed

text \<open>
  however many epochs pass, the schedule never issues more than the mining pool: the budgets
  of all epochs together stay within what the treasury allocation leaves of the maximum supply.
\<close>

theorem scheduled_issuance_capped: "(\<Sum>e<n. epochIssue e) \<le> MINING_POOL"
proof -
  let ?h = "nat HALVING_INTERVAL" and ?r = INITIAL_EPOCH_REWARD
  have h: "0 < ?h" by (simp add: HALVING_INTERVAL_def)
  have r: "0 \<le> ?r" by (simp add: INITIAL_EPOCH_REWARD_def ATOMIC_UNITS_def)
  have "(\<Sum>e<n. epochIssue e) \<le> (\<Sum>e<n * ?h. epochIssue e)"
    using h epochIssue_bounds by (intro sum_mono2) (auto intro: less_le_trans)
  also have "\<dots> \<le> (\<Sum>e<n * ?h. ?r div 2 ^ (e div ?h))"
    using epochIssue_bounds by (intro sum_mono) blast
  also have "\<dots> = int ?h * (\<Sum>j<n. ?r div 2 ^ j)"
    by (rule sum_blocks [OF h])
  also have "\<dots> \<le> int ?h * (2 * ?r)"
  proof -
    have "0 \<le> ?r div 2 ^ n" using r by (simp add: pos_imp_zdiv_nonneg_iff)
    then have "(\<Sum>j<n. ?r div 2 ^ j) \<le> 2 * ?r" using sum_halvings [OF r, of n] by simp
    then show ?thesis by (intro mult_left_mono) auto
  qed
  also have "\<dots> = MINING_POOL"
    by (simp add: HALVING_INTERVAL_def INITIAL_EPOCH_REWARD_def MINING_POOL_def MAX_SUPPLY_def
        TREASURY_ALLOCATION_def TREASURY_BPS_def ATOMIC_UNITS_def)
  finally show ?thesis .
qed


end
