(* ===== verification/Crypto.thy ===== *)
theory Crypto
  imports Codec Constants
begin

text \<open>
  \<open>blockchain/crypto.mjs\<close> over Node's primitives: \<open>hashObject\<close> is SHA3-256 of a domain's
  envelope, \<open>addressFromPublicKey\<close> SHA3-256 of a tagged key, \<open>verifyObject\<close> an ML-DSA-65
  verification that answers false instead of throwing. The primitives are the fields of
  \<open>crypto\<close>; nothing is assumed of them here.
\<close>

text \<open>
  \<open>sha3_hex\<close>: SHA3-256 as 64 hexadecimal digits. \<open>buffer_from\<close>: \<open>Buffer.from(v, "base64")\<close>, \<open>None\<close>
  when it throws. \<open>mldsa_verify\<close>: importing a DER key, checking that it is an ML-DSA-65 key and
  verifying a payload, false when any of it throws. \<open>nfc\<close>: Unicode normalization.
\<close>

record crypto =
  sha3_hex :: "bytes \<Rightarrow> string"
  buffer_from :: "jsval \<Rightarrow> bytes option"
  mldsa_verify :: "bytes \<Rightarrow> bytes \<Rightarrow> bytes \<Rightarrow> bool"
  nfc :: "units \<Rightarrow> units"

text \<open>A field's value as the encoder sees it.\<close>

definition str_units :: "string \<Rightarrow> units" where
  "str_units s = map of_char s"

primrec to_cval :: "jsval \<Rightarrow> cval" where
  "to_cval JUndef = COther"
| "to_cval JNull = CNull"
| "to_cval (JBool b) = CBool b"
| "to_cval (JNum n) = CInt n"
| "to_cval JNegZero = CNegZero"
| "to_cval JFrac = CFrac"
| "to_cval (JBig n) = COther"
| "to_cval (JStr s) = CStr (str_units s)"
| "to_cval (JArr vs) = CArr (map to_cval vs)"
| "to_cval (JObj kvs) = CObj (map (\<lambda>p. (str_units (fst p), snd p)) (map (map_prod id to_cval) kvs))"

definition domainPayload :: "crypto \<Rightarrow> string \<Rightarrow> jsval \<Rightarrow> codec_error + bytes" where
  "domainPayload cr domain v =
     consensusEnvelopeBytes (nfc cr) domain (to_cval v) CONSENSUS_ENCODING_VERSION"

definition hashObject :: "crypto \<Rightarrow> jsval \<Rightarrow> string \<Rightarrow> codec_error + string" where
  "hashObject cr v domain = bind_r (domainPayload cr domain v) (\<lambda>b. Inr (sha3_hex cr b))"

text \<open>\<open>None\<close>: the key is a value \<open>Buffer.from\<close> throws on.\<close>

definition addressFromPublicKey :: "crypto \<Rightarrow> jsval \<Rightarrow> string option" where
  "addressFromPublicKey cr publicKey =
     (case buffer_from cr publicKey of
        None \<Rightarrow> None
      | Some key \<Rightarrow> Some (''nir1'' @ sha3_hex cr (ascii ''NIR/ADDRESS/v1'' @ [0] @ key)))"

definition verifyObject :: "crypto \<Rightarrow> jsval \<Rightarrow> jsval \<Rightarrow> jsval \<Rightarrow> string \<Rightarrow> bool" where
  "verifyObject cr v signature publicKey domain =
     (case (buffer_from cr publicKey, domainPayload cr domain v, buffer_from cr signature) of
        (Some key, Inr payload, Some sig) \<Rightarrow> mldsa_verify cr payload key sig
      | _ \<Rightarrow> False)"

text \<open>
  Two values with the same hash under some domain, hashed by a function without collisions
  on their envelopes, are the same value: the domain and the value are recoverable from the
  bytes that are hashed.
\<close>

lemma domainPayload_inj:
  assumes "domainPayload cr d v = Inr b" and "domainPayload cr d' w = Inr b"
  shows "d = d' \<and> canon (to_cval v) = canon (to_cval w)"
proof -
  have prefix: "ascii ''NIR-CONSENSUS'' @ [0, 0, n, length d] @ ascii d @ x =
      ascii ''NIR-CONSENSUS'' @ [0, 0, n, length d'] @ ascii d' @ y \<Longrightarrow> d = d' \<and> x = y" for n x y
  proof -
    assume "ascii ''NIR-CONSENSUS'' @ [0, 0, n, length d] @ ascii d @ x =
      ascii ''NIR-CONSENSUS'' @ [0, 0, n, length d'] @ ascii d' @ y"
    then have "length d = length d'" "ascii d @ x = ascii d' @ y" by simp_all
    then have "ascii d = ascii d' \<and> x = y" by (simp add: ascii_def)
    moreover have "inj unit_of" by (rule injI) (simp add: unit_of_def)
    ultimately show ?thesis by (simp add: ascii_def inj_map_eq_map)
  qed
  from assms obtain bv bw
    where v: "consensusValueBytes (nfc cr) (to_cval v) = Inr bv"
      and w: "consensusValueBytes (nfc cr) (to_cval w) = Inr bw"
      and eq: "ascii ''NIR-CONSENSUS'' @ [0, 0, CONSENSUS_ENCODING_VERSION, length d] @ ascii d @ bv =
        ascii ''NIR-CONSENSUS'' @ [0, 0, CONSENSUS_ENCODING_VERSION, length d'] @ ascii d' @ bw"
    by (auto simp: domainPayload_def consensusEnvelopeBytes_def envelopePrefix_def inversion)
  from prefix [OF eq] have "d = d'" "bv = bw" by simp_all
  with v w show ?thesis
    using encode_Inr(1) [OF v [unfolded consensusValueBytes_def]]
      encode_Inr(1) [OF w [unfolded consensusValueBytes_def]]
      enc_prefix [of "canon (to_cval v)" "[]" "canon (to_cval w)" "[]"]
    by simp
qed

section \<open>Hashing the objects of the protocol\<close>

text \<open>
  The objects the chain hashes have ASCII strings, safe integers and few fields. \<open>json_within\<close>
  decides, on such a value and without encoding it, that the encoder accepts it at a depth;
  \<open>json_length\<close> is the length of its encoding.
\<close>

definition ascii_string :: "string \<Rightarrow> bool" where
  "ascii_string s \<longleftrightarrow> list_all (\<lambda>c. unit_of c < 128) s \<and> length s \<le> MAX_STRING_BYTES"

primrec json_within :: "jsval \<Rightarrow> nat \<Rightarrow> bool" where
  "json_within JUndef = (\<lambda>d. False)"
| "json_within JNull = (\<lambda>d. d \<le> MAX_DEPTH)"
| "json_within (JBool b) = (\<lambda>d. d \<le> MAX_DEPTH)"
| "json_within (JNum n) = (\<lambda>d. d \<le> MAX_DEPTH \<and> is_safe_int n)"
| "json_within JNegZero = (\<lambda>d. False)"
| "json_within JFrac = (\<lambda>d. False)"
| "json_within (JBig n) = (\<lambda>d. False)"
| "json_within (JStr s) = (\<lambda>d. d \<le> MAX_DEPTH \<and> ascii_string s)"
| "json_within (JArr vs) = (\<lambda>d. d \<le> MAX_DEPTH \<and> length vs \<le> MAX_CONTAINER_ENTRIES \<and>
     list_all (\<lambda>f. f (d + 1)) (map json_within vs))"
| "json_within (JObj kvs) = (\<lambda>d. d \<le> MAX_DEPTH \<and> length kvs \<le> MAX_CONTAINER_ENTRIES \<and>
     list_all ascii_string (map fst kvs) \<and> distinct (map fst kvs) \<and>
     list_all (\<lambda>p. snd p (d + 1)) (map (map_prod id json_within) kvs))"

primrec json_length :: "jsval \<Rightarrow> nat" where
  "json_length JUndef = 0"
| "json_length JNull = 1"
| "json_length (JBool b) = 1"
| "json_length (JNum n) = 9"
| "json_length JNegZero = 0"
| "json_length JFrac = 0"
| "json_length (JBig n) = 0"
| "json_length (JStr s) = 5 + length s"
| "json_length (JArr vs) = 5 + sum_list (map json_length vs)"
| "json_length (JObj kvs) =
     5 + sum_list (map (\<lambda>p. 5 + length (fst p) + snd p) (map (map_prod id json_length) kvs))"

definition json_ok :: "jsval \<Rightarrow> bool" where
  "json_ok v \<longleftrightarrow> json_within v 0 \<and> json_length v \<le> MAX_ENCODED_BYTES"

text \<open>Normalization leaves ASCII strings alone.\<close>

definition keeps_ascii :: "crypto \<Rightarrow> bool" where
  "keeps_ascii cr \<longleftrightarrow> (\<forall>s. ascii_string s \<longrightarrow> nfc cr (str_units s) = str_units s)"

lemma unat_of_char: "unat (of_char c :: 16 word) = unit_of c"
proof -
  have "(of_char c :: 16 word) = of_nat (unit_of c)" by (simp add: unit_of_def of_nat_of_char)
  moreover have "unit_of c < 2 ^ 16"
    using less_trans [OF nat_of_char_less_256 [of c], of "2 ^ 16"] by (simp add: unit_of_def)
  ultimately show ?thesis by (simp add: unat_of_nat)
qed

lemma map_unat_str_units [simp]: "map unat (str_units s) = ascii s"
  by (simp add: str_units_def ascii_def unat_of_char)

lemma utf8_ascii: "list_all (\<lambda>u. u < 128) us \<Longrightarrow> utf8 us = us"
  by (induction us rule: utf8.induct) (auto simp: utf8_scalar_def high_surrogate_def)

lemma valid_ascii: "list_all (\<lambda>u. u < 128) us \<Longrightarrow> validUnicodeScalarString us"
  by (induction us rule: validUnicodeScalarString.induct)
    (auto simp: high_surrogate_def low_surrogate_def)

lemma ascii_string_ok: "ascii_string s \<Longrightarrow> string_ok (str_units s) \<and> key_bytes (str_units s) = ascii s"
  by (simp add: ascii_string_def string_ok_def key_bytes_def utf8_ascii valid_ascii ascii_def
      list.pred_map o_def)

lemma length_ascii [simp]: "length (ascii s) = length s"
  by (simp add: ascii_def)

lemma inj_str_units: "inj str_units"
proof -
  have "inj (\<lambda>c. of_char c :: 16 word)"
    by (rule injI) (metis unat_of_char unit_of_def of_char_eq_iff)
  then show ?thesis by (simp add: str_units_def [abs_def] inj_mapI)
qed

lemma json_within_length:
  "json_within v d \<Longrightarrow> length (enc (canon (to_cval v))) = json_length v"
proof (induction v arbitrary: d)
  case (JStr s)
  then show ?case by (simp add: ascii_string_ok)
next
  case (JArr vs)
  then have "\<forall>v \<in> set vs. length (enc (canon (to_cval v))) = json_length v"
    by (auto simp: list_all_iff)
  then have "map (\<lambda>v. length (enc (canon (to_cval v)))) vs = map json_length vs" by simp
  then have "(\<Sum>v \<leftarrow> vs. length (enc (canon (to_cval v)))) = sum_list (map json_length vs)"
    by (rule arg_cong)
  then show ?case by (simp add: length_concat o_def)
next
  case (JObj kvs)
  let ?kvs = "map (map_prod str_units to_cval) kvs"
  have kv: "to_cval (JObj kvs) = CObj ?kvs"
    by (simp add: map_prod_def case_prod_unfold o_def)
  have "length (enc (canon (CObj ?kvs))) =
      5 + (\<Sum>p \<leftarrow> sort_key (\<lambda>p. key_bytes (fst p)) ?kvs.
             5 + length (key_bytes (fst p)) + length (enc (canon (snd p))))"
    by (subst enc_canon_CObj [OF refl]) (simp add: length_concat_entries o_def)
  also have "\<dots> = 5 + (\<Sum>p \<leftarrow> ?kvs. 5 + length (key_bytes (fst p)) + length (enc (canon (snd p))))"
    by (simp add: sum_list_sort_key)
  also have "(\<Sum>p \<leftarrow> ?kvs. 5 + length (key_bytes (fst p)) + length (enc (canon (snd p)))) =
      (\<Sum>p \<leftarrow> kvs. 5 + length (fst p) + json_length (snd p))"
  proof -
    have "\<forall>p \<in> set kvs. length (key_bytes (str_units (fst p))) = length (fst p) \<and>
        length (enc (canon (to_cval (snd p)))) = json_length (snd p)"
    proof
      fix p assume p: "p \<in> set kvs"
      with JObj.prems have "ascii_string (fst p)" "json_within (snd p) (d + 1)"
        by (auto simp: list_all_iff)
      moreover have "snd p \<in> Basic_BNFs.snds p" by (rule snds.intros)
      ultimately show "length (key_bytes (str_units (fst p))) = length (fst p) \<and>
        length (enc (canon (to_cval (snd p)))) = json_length (snd p)"
        using JObj.IH [OF p] by (simp add: ascii_string_ok)
    qed
    then show ?thesis by (simp add: o_def cong: map_cong)
  qed
  finally have "length (enc (canon (CObj ?kvs))) = json_length (JObj kvs)" by (simp add: o_def)
  then show ?case unfolding kv .
qed simp_all

lemma json_within_within:
  assumes "keeps_ascii cr"
  shows "json_within v d \<Longrightarrow> within (nfc cr) (to_cval v) d"
proof (induction v arbitrary: d)
  case (JObj kvs)
  have keys: "map fst (map (\<lambda>p. (str_units (fst p), snd p)) (map (map_prod id to_cval) kvs)) =
      map str_units (map fst kvs)" by simp
  from JObj.prems have "distinct (map str_units (map fst kvs))"
    by (simp only: distinct_map [of str_units]) (auto intro: inj_on_subset [OF inj_str_units])
  moreover from JObj.prems assms have "\<forall>s \<in> set (map fst kvs). string_ok (str_units s) \<and>
      nfc cr (str_units s) = str_units s"
    by (auto simp: list_all_iff ascii_string_ok keeps_ascii_def)
  ultimately have "keys_ok (nfc cr) (map str_units (map fst kvs))"
    by (simp add: keys_ok_def list_all_iff)
  moreover have "\<forall>p \<in> set kvs. within (nfc cr) (to_cval (snd p)) (d + 1)"
    using JObj by (fastforce simp: list_all_iff intro: snds.intros)
  ultimately show ?case using JObj.prems unfolding to_cval.simps within.simps keys
    by (auto simp: list_all_iff)
qed (auto simp: ascii_string_ok list_all_iff)

lemma hashObject_ok:
  assumes "keeps_ascii cr" and "json_ok v" and "is_domain d"
  shows "hashObject cr v d = Inr (sha3_hex cr (ascii ''NIR-CONSENSUS'' @
     [0, 0, CONSENSUS_ENCODING_VERSION, length d] @ ascii d @ enc (canon (to_cval v))))"
proof -
  have "consensusValueBytes (nfc cr) (to_cval v) = Inr (enc (canon (to_cval v)))"
    using assms json_within_within [OF assms(1), of v 0] json_within_length [of v 0]
    by (simp add: encoding_accepts_iff json_ok_def)
  with assms(3) show ?thesis
    by (simp add: hashObject_def domainPayload_def consensusEnvelopeBytes_def envelopePrefix_def)
qed


text \<open>
  two values whose hashes under two domains have the same preimage are, up to the order of
  object entries, the same value under the same domain. So, for a hash without collisions, no
  signature or identifier of one kind of object can be presented for another object or another
  domain.
\<close>

theorem hash_preimage_unique:
  assumes "domainPayload cr d v = Inr b" and "domainPayload cr d' w = Inr b"
  shows "d = d' \<and> canon (to_cval v) = canon (to_cval w)"
  by (rule domainPayload_inj [OF assms])

lemma str_units_eq [simp]: "str_units a = str_units b \<longleftrightarrow> a = b"
  using inj_str_units by (simp add: inj_eq)

lemma canon_entries:
  assumes "canon (to_cval (JObj kvs)) = canon (to_cval (JObj kvs'))"
  shows "(\<lambda>p. (fst p, canon (to_cval (snd p)))) ` set kvs = (\<lambda>p. (fst p, canon (to_cval (snd p)))) ` set kvs'"
proof -
  let ?f = "\<lambda>p. (str_units (fst p), canon (to_cval (snd p)))"
  have "set (sort_key (\<lambda>p. key_bytes (fst p)) (map ?f kvs)) = set (sort_key (\<lambda>p. key_bytes (fst p)) (map ?f kvs'))"
    using assms by (simp add: o_def map_prod_def case_prod_beta)
  then have "?f ` set kvs = ?f ` set kvs'" by simp
  then have "(\<lambda>(u, c). (inv str_units u, c)) ` ?f ` set kvs = (\<lambda>(u, c). (inv str_units u, c)) ` ?f ` set kvs'" by simp
  then show ?thesis by (simp add: image_image inv_f_f [OF inj_str_units])
qed

lemma canon_fld:
  assumes "canon (to_cval (JObj kvs)) = canon (to_cval (JObj kvs'))"
    and "distinct (map fst kvs)" and "distinct (map fst kvs')"
  shows "canon (to_cval (fld kvs k)) = canon (to_cval (fld kvs' k))"
proof -
  note e = canon_entries [OF assms(1)]
  have keys: "fst ` set kvs = fst ` set kvs'"
    using arg_cong [OF e, of "image fst"] by (simp add: image_image)
  show ?thesis
  proof (cases "map_of kvs k")
    case None
    then have "map_of kvs' k = None" using keys by (simp add: map_of_eq_None_iff)
    with None show ?thesis by (simp add: fld_def)
  next
    case (Some v)
    then have "(k, canon (to_cval v)) \<in> (\<lambda>p. (fst p, canon (to_cval (snd p)))) ` set kvs"
      using map_of_SomeD [OF Some] by force
    then obtain v' where v': "(k, v') \<in> set kvs'" "canon (to_cval v) = canon (to_cval v')" unfolding e by auto
    have "map_of kvs' k = Some v'" using v'(1) assms(3) by simp
    with Some v'(2) show ?thesis by (simp add: fld_def)
  qed
qed

lemma hash_equal:
  assumes "hashObject cr (JObj kvs) d = Inr h" and "hashObject cr (JObj kvs') d = Inr h"
    and "inj_on (sha3_hex cr) S" and "\<And>x. domainPayload cr d (JObj kvs) = Inr x \<Longrightarrow> x \<in> S"
    and "\<And>x. domainPayload cr d (JObj kvs') = Inr x \<Longrightarrow> x \<in> S"
    and "distinct (map fst kvs)" and "distinct (map fst kvs')"
  shows "canon (to_cval (fld kvs k)) = canon (to_cval (fld kvs' k))"
proof -
  obtain x where x: "domainPayload cr d (JObj kvs) = Inr x" "sha3_hex cr x = h"
    using assms(1) by (auto simp: hashObject_def bind_r_Inr_iff)
  obtain y where y: "domainPayload cr d (JObj kvs') = Inr y" "sha3_hex cr y = h"
    using assms(2) by (auto simp: hashObject_def bind_r_Inr_iff)
  have "x = y" by (rule inj_onD [OF assms(3)]) (use x y assms(4,5) in auto)
  with x(1) y(1) have "canon (to_cval (JObj kvs)) = canon (to_cval (JObj kvs'))" using domainPayload_inj by blast
  then show ?thesis by (rule canon_fld [OF _ assms(6,7)])
qed

text \<open>Primitives to evaluate the model with: a constant hash, keys and signatures read as ASCII.\<close>

fun demo_buffer :: "jsval \<Rightarrow> bytes option" where
  "demo_buffer (JStr s) = Some (ascii s)"
| "demo_buffer _ = None"

definition demo_crypto :: crypto where
  "demo_crypto = \<lparr>sha3_hex = (\<lambda>b. replicate 64 CHR ''d''), buffer_from = demo_buffer,
     mldsa_verify = (\<lambda>payload key sig. True), nfc = id\<rparr>"

lemma demo_keeps_ascii: "keeps_ascii demo_crypto"
  by (simp add: keeps_ascii_def demo_crypto_def)

lemma demo_hash:
  assumes "json_ok v" and "is_domain d"
  shows "hashObject demo_crypto v d = Inr (replicate 64 CHR ''d'')"
  using hashObject_ok [OF demo_keeps_ascii assms] by (simp add: demo_crypto_def)

lemma domainPayload_ok:
  assumes "keeps_ascii cr" and "json_ok v" and "is_domain d"
  shows "\<exists>b. domainPayload cr d v = Inr b"
  using hashObject_ok [OF assms] by (auto simp: hashObject_def bind_r_Inr_iff)

theorem hash_preimage_unique_witness:
  "canon (to_cval (JObj [(''b'', JNum 1), (''a'', JStr ''x'')])) =
   canon (to_cval (JObj [(''a'', JStr ''x''), (''b'', JNum 1)]))"
proof -
  let ?v = "JObj [(''b'', JNum 1), (''a'', JStr ''x'')]" and ?w = "JObj [(''a'', JStr ''x''), (''b'', JNum 1)]"
  have "(case (domainPayload demo_crypto ''T'' ?v, domainPayload demo_crypto ''T'' ?w) of
      (Inr x, Inr y) \<Rightarrow> x = y | _ \<Rightarrow> False)" by code_simp
  then obtain b where "domainPayload demo_crypto ''T'' ?v = Inr b" "domainPayload demo_crypto ''T'' ?w = Inr b"
    by (auto split: sum.splits)
  then have "''T'' = ''T'' \<and> canon (to_cval ?v) = canon (to_cval ?w)" by (rule hash_preimage_unique)
  then show ?thesis ..
qed

end
