(* ===== verification/ConsensusJson.thy ===== *)
theory ConsensusJson
  imports Crypto
begin

text \<open>
  The text form of consensus data: \<open>strictCanonicalJson\<close> of \<open>blockchain/consensus-codec.mjs\<close>, which
  prints a value with the entries of every object in the order of their keys' bytes, and
  \<open>parseConsensusJson\<close> of \<open>blockchain/consensus-json.mjs\<close>, the strict parser of what peers and files
  hold. The parser's \<open>position\<close> is the suffix of the input it has not read; \<open>None\<close> stands for the one
  error it throws. The main result is the round trip: what is printed is parsed back as the value
  with its entries in canonical order, so equal texts are equal values. An object is the list of its
  entries in the order they were defined; JavaScript lists keys that are array indices first, an
  order no consensus code looks at.
\<close>

section \<open>Printing\<close>

text \<open>
  \<open>JSON.stringify\<close> of a string without unpaired surrogates, which is what the printer passes it.
\<close>

definition lower_hex :: "nat \<Rightarrow> 16 word" where
  "lower_hex d = (if d < 10 then of_nat (48 + d) else of_nat (87 + d))"

definition escapeUnit :: "16 word \<Rightarrow> units" where
  "escapeUnit u =
     (if u = 0x22 then [0x5c, 0x22] else if u = 0x5c then [0x5c, 0x5c]
      else if u = 0x08 then [0x5c, 0x62] else if u = 0x0c then [0x5c, 0x66]
      else if u = 0x0a then [0x5c, 0x6e] else if u = 0x0d then [0x5c, 0x72]
      else if u = 0x09 then [0x5c, 0x74]
      else if u < 0x20 then [0x5c, 0x75, 0x30, 0x30, lower_hex (unat u div 16), lower_hex (unat u mod 16)]
      else [u])"

definition quoteString :: "units \<Rightarrow> units" where
  "quoteString s = 0x22 # concat (map escapeUnit s) @ [0x22]"

fun joined :: "units list \<Rightarrow> units" where
  "joined [] = []"
| "joined [t] = t"
| "joined (t # ts) = t @ 0x2c # joined ts"

function (sequential)
  jsonValue :: "(units \<Rightarrow> units) \<Rightarrow> cval \<Rightarrow> nat \<Rightarrow> codec_error + units" and
  jsonElements :: "(units \<Rightarrow> units) \<Rightarrow> cval list \<Rightarrow> nat \<Rightarrow> codec_error + units list" and
  jsonEntries :: "(units \<Rightarrow> units) \<Rightarrow> (units \<times> cval) list \<Rightarrow> nat \<Rightarrow> codec_error + units list"
where
  "jsonValue nf v depth =
     (if depth > MAX_DEPTH then Inl Nesting_too_deep
      else (case v of
        CNull \<Rightarrow> Inr (str_units ''null'')
      | CBool b \<Rightarrow> Inr (str_units (if b then ''true'' else ''false''))
      | CInt n \<Rightarrow> if \<not> is_safe_int n then Inl Not_safe_integer else Inr (str_units (dec_string n))
      | CNegZero \<Rightarrow> Inl Not_safe_integer
      | CFrac \<Rightarrow> Inl Not_safe_integer
      | CStr s \<Rightarrow> bind_r (stringBytes s) (\<lambda>_. Inr (quoteString s))
      | COther \<Rightarrow> Inl Unsupported_type
      | CExotic \<Rightarrow> Inl Exotic_value
      | CArr vs \<Rightarrow> bind_r (arrayValues vs) (\<lambda>vs.
          bind_r (jsonElements nf vs (depth + 1)) (\<lambda>ts. Inr (0x5b # joined ts @ [0x5d])))
      | CObj kvs \<Rightarrow> bind_r (sortedObjectEntries nf kvs) (\<lambda>_.
          bind_r (jsonEntries nf (sort_key (\<lambda>p. utf8 (map unat (fst p))) kvs) (depth + 1)) (\<lambda>ts.
            Inr (0x7b # joined ts @ [0x7d])))))"
| "jsonElements nf [] depth = Inr []"
| "jsonElements nf (v # vs) depth =
     bind_r (jsonValue nf v depth) (\<lambda>t. bind_r (jsonElements nf vs depth) (\<lambda>ts. Inr (t # ts)))"
| "jsonEntries nf [] depth = Inr []"
| "jsonEntries nf ((k, v) # es) depth =
     bind_r (jsonValue nf v depth) (\<lambda>t. bind_r (jsonEntries nf es depth) (\<lambda>ts.
       Inr ((quoteString k @ 0x3a # t) # ts)))"
  by pat_completeness auto
termination
proof (relation "measure (case_sum (\<lambda>(nf, v, d). csz v)
    (case_sum (\<lambda>(nf, vs, d). sum_list (map (\<lambda>v. Suc (csz v)) vs))
      (\<lambda>(nf, es, d). sum_list (map (\<lambda>p. Suc (csz (snd p))) es))))", goal_cases)
  case (2 nf v depth vs vs')
  then show ?case by (auto simp: arrayValues_def o_def split: if_splits)
next
  case (3 nf v depth kvs es)
  then show ?case by (simp add: sum_list_sort_key o_def)
qed auto

declare jsonValue.simps [simp del]

text \<open>The aggregate bounds are those of the encoder.\<close>

definition strictCanonicalJson :: "(units \<Rightarrow> units) \<Rightarrow> cval \<Rightarrow> codec_error + units" where
  "strictCanonicalJson nf v = bind_r (consensusValueBytes nf v) (\<lambda>_. jsonValue nf v 0)"

section \<open>Parsing\<close>

definition MAX_INPUT_BYTES :: nat where
  "MAX_INPUT_BYTES = 67108864"

definition is_space :: "16 word \<Rightarrow> bool" where
  "is_space u \<longleftrightarrow> u = 0x20 \<or> u = 0x09 \<or> u = 0x0d \<or> u = 0x0a"

definition whitespace :: "units \<Rightarrow> units" where
  "whitespace s = dropWhile is_space s"

text \<open>The loop of \<open>string()\<close> after the opening quote: the units up to the closing quote, and the rest.\<close>

fun scanString :: "bool \<Rightarrow> units \<Rightarrow> (units \<times> units) option" where
  "scanString escaped [] = None"
| "scanString escaped (c # cs) =
     (if \<not> escaped \<and> c = 0x22 then Some ([], cs)
      else if \<not> escaped \<and> c < 0x20 then None
      else map_option (apfst (Cons c)) (scanString (\<not> escaped \<and> c = 0x5c) cs))"

text \<open>\<open>JSON.parse\<close> of a string literal, without its quotes.\<close>

definition hex_value :: "16 word \<Rightarrow> nat option" where
  "hex_value u = (let n = unat u in
     if 48 \<le> n \<and> n \<le> 57 then Some (n - 48) else if 97 \<le> n \<and> n \<le> 102 then Some (n - 87)
     else if 65 \<le> n \<and> n \<le> 70 then Some (n - 55) else None)"

definition hex_unit :: "16 word \<Rightarrow> 16 word \<Rightarrow> 16 word \<Rightarrow> 16 word \<Rightarrow> 16 word option" where
  "hex_unit a b c d = (case (hex_value a, hex_value b, hex_value c, hex_value d) of
     (Some a, Some b, Some c, Some d) \<Rightarrow> Some (of_nat (4096 * a + 256 * b + 16 * c + d))
   | _ \<Rightarrow> None)"

definition simpleEscape :: "16 word \<Rightarrow> 16 word option" where
  "simpleEscape e =
     (if e = 0x22 \<or> e = 0x5c \<or> e = 0x2f then Some e
      else if e = 0x62 then Some 0x08 else if e = 0x66 then Some 0x0c else if e = 0x6e then Some 0x0a
      else if e = 0x72 then Some 0x0d else if e = 0x74 then Some 0x09 else None)"

fun unescape :: "units \<Rightarrow> units option" where
  "unescape [] = Some []"
| "unescape (u # us) =
     (if u < 0x20 \<or> u = 0x22 then None
      else if u \<noteq> 0x5c then map_option (Cons u) (unescape us)
      else (case us of
        [] \<Rightarrow> None
      | e # us' \<Rightarrow>
          if e = 0x75 then
            (case us' of
               a # b # c # d # us'' \<Rightarrow>
                 (case hex_unit a b c d of None \<Rightarrow> None | Some x \<Rightarrow> map_option (Cons x) (unescape us''))
             | _ \<Rightarrow> None)
          else (case simpleEscape e of None \<Rightarrow> None | Some x \<Rightarrow> map_option (Cons x) (unescape us'))))"

definition parseString :: "units \<Rightarrow> (units \<times> units) option" where
  "parseString s =
     (case s of
        [] \<Rightarrow> None
      | c # cs \<Rightarrow>
          if c \<noteq> 0x22 then None
          else (case scanString False cs of
            None \<Rightarrow> None
          | Some (literal, rest) \<Rightarrow>
              (case unescape literal of
                 None \<Rightarrow> None
               | Some parsed \<Rightarrow>
                   if \<not> validUnicodeScalarString (map unat parsed) \<or>
                      length (utf8 (map unat parsed)) > MAX_STRING_BYTES then None
                   else Some (parsed, rest))))"

definition digit_unit :: "16 word \<Rightarrow> bool" where
  "digit_unit u \<longleftrightarrow> 48 \<le> unat u \<and> unat u \<le> 57"

definition units_value :: "units \<Rightarrow> int" where
  "units_value s = foldl (\<lambda>acc u. 10 * acc + (int (unat u) - 48)) 0 s"

text \<open>\<open>/^-?(?:0|[1-9][0-9]*)/\<close>: the sign, the digits and what follows.\<close>

definition matchNumber :: "units \<Rightarrow> (bool \<times> units \<times> units) option" where
  "matchNumber s =
     (let (negative, t) = (case s of c # cs \<Rightarrow> if c = 0x2d then (True, cs) else (False, s) | [] \<Rightarrow> (False, s)) in
      (case t of
        [] \<Rightarrow> None
      | d # ds \<Rightarrow>
          if d = 0x30 then Some (negative, [d], ds)
          else if digit_unit d then Some (negative, takeWhile digit_unit t, dropWhile digit_unit t)
          else None))"

text \<open>\<open>Number\<close> rounds an integer beyond the safe ones to one beyond them, and \<open>-0\<close> is refused.\<close>

definition parseNumber :: "units \<Rightarrow> (cval \<times> units) option" where
  "parseNumber s =
     (case matchNumber s of
        None \<Rightarrow> None
      | Some (negative, digits, rest) \<Rightarrow>
          let n = (if negative then - units_value digits else units_value digits) in
          if \<not> is_safe_int n \<or> (negative \<and> n = 0) then None else Some (CInt n, rest))"

definition starts :: "string \<Rightarrow> units \<Rightarrow> bool" where
  "starts w s \<longleftrightarrow> take (length w) s = str_units w"

lemma whitespace_shorter: "length (whitespace s) \<le> length s"
  by (simp add: whitespace_def length_dropWhile_le)

lemma whitespace_Cons: "whitespace s = d # u \<Longrightarrow> length u < length s"
  using whitespace_shorter [of s] by simp

text \<open>
  \<open>value(depth)\<close> with the loops over the elements of an array and the members of an object. The
  loops go on only when something was read, which is always so (\<open>parse_reads\<close>).
\<close>

function (sequential)
  parseValue :: "(units \<Rightarrow> units) \<Rightarrow> nat \<Rightarrow> units \<Rightarrow> (cval \<times> units) option" and
  parseElements :: "(units \<Rightarrow> units) \<Rightarrow> nat \<Rightarrow> cval list \<Rightarrow> units \<Rightarrow> (cval list \<times> units) option" and
  parseMembers :: "(units \<Rightarrow> units) \<Rightarrow> nat \<Rightarrow> (units \<times> cval) list \<Rightarrow> units \<Rightarrow> ((units \<times> cval) list \<times> units) option"
where
  "parseValue nf depth input =
     (if depth > MAX_DEPTH then None
      else let s = whitespace input in
        if starts ''null'' s then Some (CNull, drop 4 s)
        else if starts ''true'' s then Some (CBool True, drop 4 s)
        else if starts ''false'' s then Some (CBool False, drop 5 s)
        else (case s of
          [] \<Rightarrow> None
        | c # r \<Rightarrow>
            if c = 0x22 then map_option (apfst CStr) (parseString s)
            else if c = 0x5b then
              (case whitespace r of
                 [] \<Rightarrow> map_option (apfst CArr) (parseElements nf (depth + 1) [] [])
               | d # t \<Rightarrow> if d = 0x5d then Some (CArr [], t)
                          else map_option (apfst CArr) (parseElements nf (depth + 1) [] (d # t)))
            else if c = 0x7b then
              (case whitespace r of
                 [] \<Rightarrow> map_option (apfst CObj) (parseMembers nf (depth + 1) [] [])
               | d # t \<Rightarrow> if d = 0x7d then Some (CObj [], t)
                          else map_option (apfst CObj) (parseMembers nf (depth + 1) [] (d # t)))
            else parseNumber s))"
| "parseElements nf depth vs s =
     (case parseValue nf depth s of
        None \<Rightarrow> None
      | Some (v, t) \<Rightarrow>
          if length vs + 1 > MAX_CONTAINER_ENTRIES \<or> \<not> length t < length s then None
          else (case whitespace t of
            [] \<Rightarrow> None
          | d # u \<Rightarrow> if d = 0x5d then Some (vs @ [v], u)
                     else if d \<noteq> 0x2c then None else parseElements nf depth (vs @ [v]) u))"
| "parseMembers nf depth kvs s =
     (case parseString (whitespace s) of
        None \<Rightarrow> None
      | Some (key, t) \<Rightarrow>
          if nf key \<noteq> key \<or> key \<in> fst ` set kvs \<or> length kvs \<ge> MAX_CONTAINER_ENTRIES \<or> \<not> length t < length s
          then None
          else (case whitespace t of
            [] \<Rightarrow> None
          | c # w \<Rightarrow>
              if c \<noteq> 0x3a then None
              else (case parseValue nf depth w of
                None \<Rightarrow> None
              | Some (v, x) \<Rightarrow>
                  if \<not> length x < length w then None
                  else (case whitespace x of
                    [] \<Rightarrow> None
                  | d # u \<Rightarrow> if d = 0x7d then Some (kvs @ [(key, v)], u)
                             else if d \<noteq> 0x2c then None else parseMembers nf depth (kvs @ [(key, v)]) u))))"
  by pat_completeness auto

termination
proof (relation "measure (case_sum (\<lambda>(nf, d, s). 2 * length s)
    (case_sum (\<lambda>(nf, d, vs, s). 2 * length s + 1) (\<lambda>(nf, d, kvs, s). 2 * length s + 1)))", goal_cases)
qed (auto dest!: whitespace_Cons dest: sym)

declare parseValue.simps [simp del] parseElements.simps [simp del] parseMembers.simps [simp del]

definition parseConsensusJson :: "(units \<Rightarrow> units) \<Rightarrow> units \<Rightarrow> cval option" where
  "parseConsensusJson nf input =
     (if length (utf8 (map unat input)) > MAX_INPUT_BYTES then None
      else (case parseValue nf 0 (whitespace input) of
        None \<Rightarrow> None
      | Some (parsed, rest) \<Rightarrow>
          if whitespace rest \<noteq> [] then None
          else (case consensusValueBytes nf parsed of Inl _ \<Rightarrow> None | Inr _ \<Rightarrow> Some parsed)))"

section \<open>Strings are read back\<close>

lemma lower_hex_unat: "n < 16 \<Longrightarrow> unat (lower_hex n) = (if n < 10 then 48 + n else 87 + n)"
  by (simp add: lower_hex_def unat_of_nat del: of_nat_add)

lemma lower_hex: "n < 16 \<Longrightarrow> hex_value (lower_hex n) = Some n"
  by (simp add: hex_value_def lower_hex_unat)

lemma lower_hex_plain: "n < 16 \<Longrightarrow> lower_hex n \<noteq> 0x22 \<and> lower_hex n \<noteq> 0x5c \<and> \<not> lower_hex n < 0x20"
proof -
  assume n: "n < 16"
  have "unat (lower_hex n) \<noteq> unat (0x22 :: 16 word)" "unat (lower_hex n) \<noteq> unat (0x5c :: 16 word)"
    "\<not> unat (lower_hex n) < unat (0x20 :: 16 word)" using n by (auto simp: lower_hex_unat)
  then show ?thesis by (auto simp: word_less_nat_alt)
qed

lemma control_unit:
  assumes "u < (0x20 :: 16 word)"
  shows "unat u div 16 < 16" and "unat u mod 16 < 16" and "hex_unit 0x30 0x30 (lower_hex (unat u div 16)) (lower_hex (unat u mod 16)) = Some u"
proof -
  have "unat u < 32" using assms by (simp add: word_less_nat_alt)
  then show d: "unat u div 16 < 16" and m: "unat u mod 16 < 16" by auto
  have z: "hex_value 0x30 = Some 0" by (simp add: hex_value_def)
  have "16 * (unat u div 16) + unat u mod 16 = unat u" by simp
  then show "hex_unit 0x30 0x30 (lower_hex (unat u div 16)) (lower_hex (unat u mod 16)) = Some u"
    by (simp add: hex_unit_def z lower_hex d m)
qed

lemma scan_escape:
  "scanString False (escapeUnit u @ t) = map_option (apfst (append (escapeUnit u))) (scanString False t)"
proof (cases "u < 0x20")
  case True
  note h = lower_hex_plain [OF control_unit(1) [OF True]] lower_hex_plain [OF control_unit(2) [OF True]]
  show ?thesis
    using h by (simp add: escapeUnit_def option.map_comp o_def apfst_def map_prod_def split_def)
next
  case False
  then show ?thesis by (auto simp add: escapeUnit_def option.map_comp o_def apfst_def map_prod_def split_def)
qed

lemma unescape_escape: "unescape (escapeUnit u @ t) = map_option (Cons u) (unescape t)"
  by (cases "u < 0x20") (auto simp: escapeUnit_def simpleEscape_def control_unit)

lemma scan_quoted:
  "scanString False (concat (map escapeUnit s) @ 0x22 # r) = Some (concat (map escapeUnit s), r)"
  by (induction s) (simp_all add: scan_escape)

lemma unescape_quoted: "unescape (concat (map escapeUnit s)) = Some s"
  by (induction s) (simp_all add: unescape_escape)

lemma parse_quoted: "string_ok s \<Longrightarrow> parseString (quoteString s @ r) = Some (s, r)"
  by (simp add: parseString_def quoteString_def scan_quoted unescape_quoted string_ok_def key_bytes_def)

section \<open>Numbers are read back\<close>

definition delimited :: "units \<Rightarrow> bool" where
  "delimited r \<longleftrightarrow> r = [] \<or> hd r \<in> {0x2c, 0x5d, 0x7d}"

lemma delimited_digit: "delimited r \<Longrightarrow> r = [] \<or> \<not> digit_unit (hd r)"
  by (auto simp: delimited_def digit_unit_def)

lemma str_units_value: "units_value (str_units s) = dec_value s"
proof -
  have "uint (of_char c :: 16 word) = int (unit_of c)" for c
    by (simp add: uint_nat unat_of_char)
  then have "foldl (\<lambda>acc u. 10 * acc + (int (unat u) - 48)) a (str_units s) =
      foldl (\<lambda>acc c. 10 * acc + digit_value c) a s" for a
    by (induction s arbitrary: a) (simp_all add: str_units_def digit_value_def)
  then show ?thesis by (simp add: units_value_def dec_value_def)
qed

lemma str_units_digits: "list_all is_digit s \<Longrightarrow> list_all digit_unit (str_units s)"
  by (simp add: str_units_def list_all_iff digit_unit_def is_digit_def unat_of_char)

lemma digits_end:
  assumes "list_all digit_unit ds" and "r = [] \<or> \<not> digit_unit (hd r)"
  shows "takeWhile digit_unit (ds @ r) = ds \<and> dropWhile digit_unit (ds @ r) = r"
  using assms by (induction ds) (cases r; auto)+

lemma match_digits:
  assumes "delimited r"
  shows "matchNumber (str_units (dec_digits n) @ r) = Some (False, str_units (dec_digits n), r)"
    and "matchNumber (0x2d # str_units (dec_digits n) @ r) = Some (True, str_units (dec_digits n), r)"
proof -
  let ?ds = "str_units (dec_digits n)"
  have d: "list_all digit_unit ?ds" by (rule str_units_digits [OF dec_digits_digits])
  obtain c cs where cs: "?ds = c # cs" by (cases ?ds) (auto simp: str_units_def)
  have "c = 0x30 \<longleftrightarrow> n = 0"
  proof
    assume "c = 0x30"
    then have "of_char (hd (dec_digits n)) = (0x30 :: 16 word)"
      using cs by (cases "dec_digits n") (auto simp: str_units_def)
    then have "unit_of (hd (dec_digits n)) = 48" using unat_of_char [of "hd (dec_digits n)"] by simp
    moreover have "unit_of CHR ''0'' = 48" by (simp add: unit_of_def)
    moreover have "a = b" if "unit_of a = unit_of b" for a b using that by (simp add: unit_of_def)
    ultimately have "hd (dec_digits n) = CHR ''0''" by presburger
    then show "n = 0" using hd_dec_digits [of n] by auto
  next
    assume "n = 0"
    then show "c = 0x30" using cs by (auto simp: dec_digits.simps str_units_def digit_char_0)
  qed
  moreover have "cs = []" if "n = 0" using that cs by (simp add: dec_digits.simps str_units_def)
  moreover have "digit_unit c" "c \<noteq> 0x2d" using d cs by (auto simp: digit_unit_def)
  ultimately show "matchNumber (?ds @ r) = Some (False, ?ds, r)" "matchNumber (0x2d # ?ds @ r) = Some (True, ?ds, r)"
    using digits_end [OF d delimited_digit [OF assms]] by (auto simp: matchNumber_def cs)
qed

lemma parse_printed_number:
  assumes "is_safe_int n" and "delimited r"
  shows "parseNumber (str_units (dec_string n) @ r) = Some (CInt n, r)"
proof -
  have v: "units_value (str_units (dec_digits m)) = int m" for m
    by (simp add: str_units_value dec_value_dec_digits)
  show ?thesis
  proof (cases "n < 0")
    case True
    then have "str_units (dec_string n) = 0x2d # str_units (dec_digits (nat (- n)))"
      by (simp add: dec_string_def str_units_def)
    with True assms(1) match_digits(2) [OF assms(2)] show ?thesis by (simp add: parseNumber_def v)
  next
    case False
    then have "str_units (dec_string n) = str_units (dec_digits (nat n))" by (simp add: dec_string_def)
    with False assms(1) match_digits(1) [OF assms(2)] show ?thesis by (simp add: parseNumber_def v)
  qed
qed

section \<open>The round trip\<close>

text \<open>The text of a value whose entries are in order.\<close>

primrec text_of :: "cval \<Rightarrow> units" where
  "text_of CNull = str_units ''null''"
| "text_of (CBool b) = str_units (if b then ''true'' else ''false'')"
| "text_of (CInt n) = str_units (dec_string n)"
| "text_of CNegZero = []"
| "text_of CFrac = []"
| "text_of (CStr s) = quoteString s"
| "text_of (CArr vs) = 0x5b # joined (map text_of vs) @ [0x5d]"
| "text_of (CObj kvs) =
     0x7b # joined (map (\<lambda>p. quoteString (fst p) @ 0x3a # snd p) (map (map_prod id text_of) kvs)) @ [0x7d]"
| "text_of COther = []"
| "text_of CExotic = []"

lemma jsonValue_text:
  "jsonValue nf v d = Inr t \<Longrightarrow> t = text_of (canon v)"
  "jsonElements nf vs d = Inr ts \<Longrightarrow> ts = map (\<lambda>v. text_of (canon v)) vs"
  "jsonEntries nf es d = Inr ts \<Longrightarrow> ts = map (\<lambda>p. quoteString (fst p) @ 0x3a # text_of (canon (snd p))) es"
proof (induction nf v d and nf vs d and nf es d arbitrary: t and ts and ts
    rule: jsonValue_jsonElements_jsonEntries.induct)
  case (1 nf v depth)
  from "1.prems" have deep: "\<not> depth > MAX_DEPTH" by (auto simp: jsonValue.simps split: if_splits)
  note step = "1.prems" [unfolded jsonValue.simps [of nf v] if_not_P [OF deep]]
  show ?case
  proof (cases v)
    case (CArr vs)
    with step obtain ts where len: "arrayValues vs = Inr vs"
      and r: "jsonElements nf vs (depth + 1) = Inr ts" and t: "t = 0x5b # joined ts @ [0x5d]"
      by (auto simp: inversion arrayValues_def)
    from "1.IH"(1) [OF deep CArr len r] t CArr show ?thesis by (simp add: o_def)
  next
    case (CObj kvs)
    with step obtain es ts where es: "sortedObjectEntries nf kvs = Inr es"
      and r: "jsonEntries nf (sort_key (\<lambda>p. utf8 (map unat (fst p))) kvs) (depth + 1) = Inr ts"
      and t: "t = 0x7b # joined ts @ [0x7d]"
      by (auto simp: inversion)
    have "sort_key (\<lambda>p. key_bytes (fst p)) (map (map_prod id canon) kvs) =
        map (map_prod id canon) (sort_key (\<lambda>p. key_bytes (fst p)) kvs)"
      by (rule sort_key_map) simp
    with "1.IH"(2) [OF deep CObj es r] t CObj show ?thesis
      by (simp add: o_def key_bytes_def)
  qed (use step in \<open>auto simp: inversion\<close>)
next
  case (3 nf v vs depth)
  then show ?case by (auto simp: inversion)
next
  case (5 nf k v es depth)
  then show ?case by (auto simp: inversion)
qed simp_all

lemma digit_unit_plain: "digit_unit c \<Longrightarrow> \<not> is_space c \<and> c \<notin> {0x22, 0x2d, 0x5b, 0x5d, 0x66, 0x6e, 0x74, 0x7b, 0x7d}"
  by (auto simp: digit_unit_def is_space_def)

lemma number_text: "\<exists>c t. str_units (dec_string n) = c # t \<and> (c = 0x2d \<or> digit_unit c)"
proof -
  have "\<exists>c t. str_units (dec_digits m) = c # t \<and> digit_unit c" for m
    using str_units_digits [OF dec_digits_digits [of m]] by (cases "dec_digits m") (auto simp: str_units_def)
  from this [of "nat n"] show ?thesis
    by (cases "n < 0") (auto simp: dec_string_def str_units_def)
qed

lemma text_not_space: "within nf v d \<Longrightarrow> \<exists>c t. text_of v = c # t \<and> \<not> is_space c \<and> c \<noteq> 0x5d \<and> c \<noteq> 0x7d"
proof (cases v)
  case (CInt n)
  with number_text [of n] digit_unit_plain show ?thesis by (auto simp: is_space_def)
qed (auto simp: str_units_def quoteString_def is_space_def)

lemma whitespace_id: "\<not> is_space c \<Longrightarrow> whitespace (c # t) = c # t"
  by (simp add: whitespace_def)

lemma delimiters [simp]: "\<not> is_space 0x2c" "\<not> is_space 0x3a" "\<not> is_space 0x5b" "\<not> is_space 0x5d" "\<not> is_space 0x7b"
    "\<not> is_space 0x7d" "\<not> is_space 0x22"
  by (simp_all add: is_space_def)

lemma text_nonempty: "within nf v d \<Longrightarrow> 0 < length (text_of v)"
  using text_not_space by fastforce

definition reads_back :: "(units \<Rightarrow> units) \<Rightarrow> nat \<Rightarrow> cval \<Rightarrow> bool" where
  "reads_back nf d v \<longleftrightarrow> 0 < length (text_of v) \<and>
     (\<forall>r. delimited r \<longrightarrow> parseValue nf d (text_of v @ r) = Some (v, r))"

lemma joined_Cons: "joined (t # ts) @ r = t @ (if ts = [] then r else 0x2c # joined ts @ r)"
  by (cases ts) simp_all

lemma parse_printed_elements:
  assumes "\<forall>v \<in> set vs. reads_back nf d v" and "vs \<noteq> []" and "length acc + length vs \<le> MAX_CONTAINER_ENTRIES"
  shows "parseElements nf d acc (joined (map text_of vs) @ 0x5d # r) = Some (acc @ vs, r)"
  using assms
proof (induction vs arbitrary: acc)
  case (Cons v vs)
  let ?rest = "if vs = [] then 0x5d # r else 0x2c # joined (map text_of vs) @ 0x5d # r"
  have "delimited ?rest" by (simp add: delimited_def)
  then have v: "parseValue nf d (text_of v @ ?rest) = Some (v, ?rest)" "0 < length (text_of v)"
    using Cons.prems(1) by (simp_all add: reads_back_def)
  have s: "joined (map text_of (v # vs)) @ 0x5d # r = text_of v @ ?rest"
    using joined_Cons [of "text_of v" "map text_of vs" "0x5d # r"] by simp
  have shorter: "length ?rest < length (text_of v @ ?rest)" using v(2) by simp
  have room: "\<not> length acc + 1 > MAX_CONTAINER_ENTRIES" using Cons.prems(3) by simp
  show ?case
  proof (cases "vs = []")
    case True
    then show ?thesis
      using v shorter room unfolding s by (subst parseElements.simps) (simp add: whitespace_id)
  next
    case False
    have "parseElements nf d (acc @ [v]) (joined (map text_of vs) @ 0x5d # r) = Some ((acc @ [v]) @ vs, r)"
      using Cons.prems False by (intro Cons.IH) auto
    then show ?thesis
      using v shorter room False unfolding s by (subst parseElements.simps) (simp add: whitespace_id)
  qed
qed simp

definition entry_text :: "units \<times> cval \<Rightarrow> units" where
  "entry_text p = quoteString (fst p) @ 0x3a # text_of (snd p)"

lemma quote_whitespace: "whitespace (quoteString k @ t) = quoteString k @ t"
  by (simp add: quoteString_def whitespace_id)

lemma parse_printed_members:
  assumes "\<forall>p \<in> set kvs. reads_back nf d (snd p)" and "kvs \<noteq> []" and "length acc + length kvs \<le> MAX_CONTAINER_ENTRIES"
    and "keys_ok nf (map fst (acc @ kvs))"
  shows "parseMembers nf d acc (joined (map entry_text kvs) @ 0x7d # r) = Some (acc @ kvs, r)"
  using assms
proof (induction kvs arbitrary: acc)
  case (Cons p kvs)
  obtain k v where p: "p = (k, v)" by (cases p)
  let ?rest = "if kvs = [] then 0x7d # r else 0x2c # joined (map entry_text kvs) @ 0x7d # r"
  have "delimited ?rest" by (simp add: delimited_def)
  then have v: "parseValue nf d (text_of v @ ?rest) = Some (v, ?rest)" "0 < length (text_of v)"
    using Cons.prems(1) p by (simp_all add: reads_back_def)
  have s: "joined (map entry_text (p # kvs)) @ 0x7d # r = quoteString k @ 0x3a # text_of v @ ?rest"
    using joined_Cons [of "entry_text p" "map entry_text kvs" "0x7d # r"] p by (simp add: entry_text_def)
  have key: "string_ok k" "nf k = k" "k \<notin> fst ` set acc"
    using Cons.prems(4) p by (auto simp: keys_ok_def)
  have kp: "parseString (whitespace (quoteString k @ 0x3a # text_of v @ ?rest)) = Some (k, 0x3a # text_of v @ ?rest)"
    by (simp only: quote_whitespace parse_quoted [OF key(1)])
  have shorter: "length ?rest < length (text_of v @ ?rest)"
    "length (0x3a # text_of v @ ?rest) < length (quoteString k @ 0x3a # text_of v @ ?rest)"
    using v(2) by (simp_all add: quoteString_def)
  have room: "\<not> length acc \<ge> MAX_CONTAINER_ENTRIES" using Cons.prems(3) by simp
  have step: "parseMembers nf d acc (quoteString k @ 0x3a # text_of v @ ?rest) =
      (case whitespace ?rest of [] \<Rightarrow> None
       | e # u \<Rightarrow> if e = 0x7d then Some (acc @ [(k, v)], u)
                  else if e \<noteq> 0x2c then None else parseMembers nf d (acc @ [(k, v)]) u)"
    using shorter room key(2,3) v(1)
    by (subst parseMembers.simps) (simp only: kp option.case prod.case whitespace_id delimiters list.case if_False simp_thms)
  show ?case
  proof (cases "kvs = []")
    case True
    then show ?thesis unfolding s step by (simp add: whitespace_id p)
  next
    case False
    have "parseMembers nf d (acc @ [(k, v)]) (joined (map entry_text kvs) @ 0x7d # r) = Some ((acc @ [(k, v)]) @ kvs, r)"
      using Cons.prems False p by (intro Cons.IH) auto
    then show ?thesis unfolding s step using False by (simp add: whitespace_id p)
  qed
qed simp

lemma starts_Cons: "starts (c # w) (u # s) \<Longrightarrow> of_char c = u"
  by (auto simp: starts_def str_units_def)

lemma not_starts:
  "u \<noteq> 0x6e \<Longrightarrow> \<not> starts ''null'' (u # s)" "u \<noteq> 0x74 \<Longrightarrow> \<not> starts ''true'' (u # s)"
  "u \<noteq> 0x66 \<Longrightarrow> \<not> starts ''false'' (u # s)"
  by (auto dest: starts_Cons)

lemma printed_reads_back: "within nf v d \<Longrightarrow> reads_back nf d v"
proof (induction v arbitrary: d)
  case CNull
  then show ?case
    by (auto simp: reads_back_def parseValue.simps str_units_def whitespace_id is_space_def starts_def)
next
  case (CBool b)
  then show ?case
    by (cases b) (auto simp: reads_back_def parseValue.simps str_units_def whitespace_id is_space_def starts_def)
next
  case (CInt n)
  obtain c t where t: "str_units (dec_string n) = c # t" "c = 0x2d \<or> digit_unit c" using number_text by blast
  then have c: "\<not> is_space c" "c \<notin> {0x22, 0x5b, 0x66, 0x6e, 0x74, 0x7b}"
    using digit_unit_plain by (auto simp: is_space_def)
  have "parseNumber (c # t @ r) = Some (CInt n, r)" if "delimited r" for r
    using parse_printed_number [of n r] CInt that t(1) by simp
  then show ?case
    using CInt c t(1) by (simp add: reads_back_def parseValue.simps whitespace_id not_starts)
next
  case (CStr s)
  have "parseString (0x22 # concat (map escapeUnit s) @ 0x22 # r) = Some (s, r)" for r
    using parse_quoted [of s r] CStr by (simp add: quoteString_def)
  then show ?case
    using CStr by (simp add: reads_back_def parseValue.simps quoteString_def whitespace_id not_starts)
next
  case (CArr vs)
  then have d: "\<not> d > MAX_DEPTH" and len: "length vs \<le> MAX_CONTAINER_ENTRIES"
    and vs: "\<forall>v \<in> set vs. reads_back nf (d + 1) v"
    by (auto simp: list_all_iff)
  have "parseValue nf d (0x5b # joined (map text_of vs) @ 0x5d # r) = Some (CArr vs, r)" for r
  proof (cases vs)
    case Nil
    then show ?thesis using d by (simp add: parseValue.simps whitespace_id not_starts)
  next
    case (Cons v ws)
    obtain c t where c: "text_of v = c # t" "\<not> is_space c" "c \<noteq> 0x5d"
      using text_not_space [of nf v "d + 1"] CArr.prems Cons by auto
    then obtain t' where t': "joined (map text_of vs) @ 0x5d # r = c # t'"
      using joined_Cons [of "text_of v" "map text_of ws" "0x5d # r"] Cons by simp
    have "parseElements nf (d + 1) [] (c # t') = Some (vs, r)"
      using parse_printed_elements [OF vs, of "[]" r] Cons len t' by simp
    then show ?thesis
      using d c by (simp add: parseValue.simps whitespace_id not_starts t')
  qed
  then show ?case by (simp add: reads_back_def)
next
  case (CObj kvs)
  then have d: "\<not> d > MAX_DEPTH" and len: "length kvs \<le> MAX_CONTAINER_ENTRIES"
    and kvs: "\<forall>p \<in> set kvs. reads_back nf (d + 1) (snd p)" and keys: "keys_ok nf (map fst kvs)"
    by (auto simp: list_all_iff snds.simps)
  have e: "map (\<lambda>p. quoteString (fst p) @ 0x3a # snd p) (map (map_prod id text_of) kvs) = map entry_text kvs"
    by (simp add: entry_text_def)
  have "parseValue nf d (0x7b # joined (map entry_text kvs) @ 0x7d # r) = Some (CObj kvs, r)" for r
  proof (cases kvs)
    case Nil
    then show ?thesis using d by (simp add: parseValue.simps whitespace_id not_starts)
  next
    case (Cons p ps)
    obtain t' where t': "joined (map entry_text kvs) @ 0x7d # r = 0x22 # t'"
      using joined_Cons [of "entry_text p" "map entry_text ps" "0x7d # r"] Cons
      by (simp add: entry_text_def quoteString_def)
    have "parseMembers nf (d + 1) [] (0x22 # t') = Some (kvs, r)"
      using parse_printed_members [OF kvs, of "[]" r] Cons len keys t' by simp
    then show ?thesis
      using d by (simp add: parseValue.simps whitespace_id not_starts t')
  qed
  then show ?case by (simp add: reads_back_def e del: map_map)
qed simp_all

lemma within_canon: "within nf v d \<Longrightarrow> within nf (canon v) d"
proof (induction v arbitrary: d)
  case (CObj kvs)
  have "keys_ok nf (map fst (sort_key (\<lambda>p. key_bytes (fst p)) kvs))" if "keys_ok nf (map fst kvs)"
    using that by (auto simp: keys_ok_def list_all_iff distinct_map)
  moreover have "sort_key (\<lambda>p. key_bytes (fst p)) (map (map_prod id canon) kvs) =
      map (map_prod id canon) (sort_key (\<lambda>p. key_bytes (fst p)) kvs)"
    by (rule sort_key_map) simp
  ultimately show ?case using CObj by (auto simp: list_all_iff o_def snds.simps)
qed (auto simp: list_all_iff)

lemma canon_idem: "canon (canon v) = canon v"
proof (induction v)
  case (CObj kvs)
  let ?f = "\<lambda>p :: units \<times> cval. key_bytes (fst p)"
  have s: "sort_key ?f (map (map_prod id canon) ps) = map (map_prod id canon) (sort_key ?f ps)" for ps
    by (rule sort_key_map) simp
  have "map_prod id canon (map_prod id canon p) = map_prod id canon p" if "p \<in> set kvs" for p
    using CObj that by (cases p) (auto simp: snds.simps)
  then have twice: "map (map_prod id canon) (map (map_prod id canon) (sort_key ?f kvs)) = map (map_prod id canon) (sort_key ?f kvs)"
    unfolding map_map by (intro map_cong) auto
  have "sort_key ?f (sort_key ?f kvs) = sort_key ?f kvs" by (simp add: sort_key_id_if_sorted)
  then show ?case by (simp only: canon.simps s twice)
qed simp_all

lemma printed_within:
  assumes "strictCanonicalJson nf v = Inr t"
  shows "t = text_of (canon v)" and "within nf (canon v) 0" and "consensusValueBytes nf (canon v) = consensusValueBytes nf v"
proof -
  from assms obtain b where b: "consensusValueBytes nf v = Inr b" and t: "jsonValue nf v 0 = Inr t"
    by (auto simp: strictCanonicalJson_def inversion)
  from t show "t = text_of (canon v)" by (rule jsonValue_text)
  have e: "encodeValue nf v [] 0 = Inr b" using b by (simp add: consensusValueBytes_def)
  from encode_within(1) [OF e] show w: "within nf (canon v) 0" by (simp add: within_canon)
  show "consensusValueBytes nf (canon v) = consensusValueBytes nf v"
    using encode_ok(1) [OF w, of "[]"] encode_Inr(1) [OF e] encode_within(1) [OF e] b
    by (simp add: consensusValueBytes_def canon_idem)
qed

text \<open>
  C26: What the canonical printer prints, the strict parser reads back as the same value with the
  entries of every object in the order of their keys, provided the text is within the parser's
  bound on its input.
\<close>

theorem canonical_json_roundtrip:
  assumes "strictCanonicalJson nf v = Inr t" and "length (utf8 (map unat t)) \<le> MAX_INPUT_BYTES"
  shows "parseConsensusJson nf t = Some (canon v)"
proof -
  note p = printed_within [OF assms(1)]
  obtain b where b: "consensusValueBytes nf v = Inr b"
    using assms(1) by (auto simp: strictCanonicalJson_def inversion)
  have "parseValue nf 0 t = Some (canon v, [])"
    using printed_reads_back [OF p(2)] p(1) by (force simp: reads_back_def delimited_def)
  moreover have "whitespace t = t"
    using text_not_space [OF p(2)] p(1) by (auto simp: whitespace_id)
  ultimately show ?thesis using assms(2) p(3) b by (simp add: parseConsensusJson_def whitespace_def)
qed

text \<open>Two values with one text are the same value up to the order of entries.\<close>

lemma canonical_json_inj:
  assumes "strictCanonicalJson nf v = Inr t" and "strictCanonicalJson nf w = Inr t"
  shows "canon v = canon w"
proof -
  note v = printed_within [OF assms(1)] and w = printed_within [OF assms(2)]
  have "delimited []" by (simp add: delimited_def)
  with printed_reads_back [OF v(2)] printed_reads_back [OF w(2)] v(1) w(1)
  show ?thesis by (force simp: reads_back_def)
qed

section \<open>The guards of the loops are never taken\<close>

lemma scan_shorter: "scanString e s = Some (x, r) \<Longrightarrow> length r < length s"
  by (induction e s arbitrary: x rule: scanString.induct) (auto split: if_splits)

lemma parseString_shorter: "parseString s = Some (x, r) \<Longrightarrow> length r < length s"
  by (auto simp: parseString_def split: list.splits if_splits option.splits dest!: scan_shorter)

lemma parseNumber_shorter: "parseNumber s = Some (x, r) \<Longrightarrow> length r < length s"
  by (auto simp: parseNumber_def matchNumber_def Let_def length_dropWhile_le less_Suc_eq_le le_SucI
      split: list.splits if_splits option.splits prod.splits)

lemma elements_shorter: "parseElements nf d vs s = Some (vs', r) \<Longrightarrow> length r < length s"
proof (induction s arbitrary: vs rule: measure_induct_rule [where f = length])
  case (less s)
  from less.prems show ?case
    by (subst (asm) parseElements.simps)
      (auto split: option.splits prod.splits if_splits list.splits dest!: whitespace_Cons dest: less.IH [rotated])
qed

lemma members_shorter: "parseMembers nf d kvs s = Some (kvs', r) \<Longrightarrow> length r < length s"
proof (induction s arbitrary: kvs rule: measure_induct_rule [where f = length])
  case (less s)
  from less.prems show ?case
    by (subst (asm) parseMembers.simps)
      (auto split: option.splits prod.splits if_splits list.splits dest!: whitespace_Cons dest: less.IH [rotated])
qed

lemma parse_reads:
  assumes "parseValue nf d s = Some (v, r)"
  shows "length r < length s"
proof -
  let ?s = "whitespace s"
  have deep: "\<not> d > MAX_DEPTH" using assms by (auto simp: parseValue.simps split: if_splits)
  have words: "length (drop n ?s) < length s" if "starts w ?s" "w \<noteq> []" "0 < n" for w n
  proof -
    have "?s \<noteq> []" using that by (auto simp: starts_def str_units_def)
    then have "length (drop n ?s) < length ?s" using that by simp
    with whitespace_shorter [of s] show ?thesis by linarith
  qed
  consider (word) "starts ''null'' ?s" | (word2) "\<not> starts ''null'' ?s" "starts ''true'' ?s"
    | (word3) "\<not> starts ''null'' ?s" "\<not> starts ''true'' ?s" "starts ''false'' ?s"
    | (other) "\<not> starts ''null'' ?s" "\<not> starts ''true'' ?s" "\<not> starts ''false'' ?s" by blast
  then show ?thesis
  proof cases
    case other
    show ?thesis
    proof (cases ?s)
      case (Cons c t)
      note no = other [unfolded Cons]
      note step = assms [unfolded parseValue.simps [of nf d] if_not_P [OF deep] Let_def Cons if_not_P [OF no(1)]
        if_not_P [OF no(2)] if_not_P [OF no(3)] list.case]
      have t: "length t < length s" by (rule whitespace_Cons [OF Cons])
      consider (str) "c = 0x22" | (arr) "c = 0x5b" | (obj) "c = 0x7b" | (num) "c \<notin> {0x22, 0x5b, 0x7b}" by blast
      then show ?thesis
      proof cases
        case str
        with step Cons whitespace_shorter [of s] show ?thesis by (auto dest!: parseString_shorter)
      next
        case num
        with step Cons whitespace_shorter [of s] show ?thesis by (auto dest!: parseNumber_shorter)
      next
        case arr
        then have "whitespace t = 0x5d # r \<or> (\<exists>vs. parseElements nf (d + 1) [] (whitespace t) = Some (vs, r))"
          using step by (auto split: list.splits if_split_asm)
        with t whitespace_shorter [of t] show ?thesis by (auto dest!: elements_shorter)
      next
        case obj
        then have "whitespace t = 0x7d # r \<or> (\<exists>kvs. parseMembers nf (d + 1) [] (whitespace t) = Some (kvs, r))"
          using step by (auto split: list.splits if_split_asm)
        with t whitespace_shorter [of t] show ?thesis by (auto dest!: members_shorter)
      qed
    qed (use assms deep other in \<open>simp add: parseValue.simps\<close>)
  qed (use assms deep words in \<open>auto simp: parseValue.simps\<close>)
qed

definition demo_json :: cval where
  "demo_json = CObj [(str_units ''b'', CBool True), (str_units ''a'', CArr [CInt (- 10), CStr [0x78, 0x0a, 0x22]])]"

theorem canonical_json_roundtrip_witness:
  "\<exists>t. strictCanonicalJson (\<lambda>k. k) demo_json = Inr t \<and> parseConsensusJson (\<lambda>k. k) t =
     Some (CObj [(str_units ''a'', CArr [CInt (- 10), CStr [0x78, 0x0a, 0x22]]), (str_units ''b'', CBool True)])"
proof -
  have "case strictCanonicalJson (\<lambda>k. k) demo_json of Inl _ \<Rightarrow> False
      | Inr t \<Rightarrow> length (utf8 (map unat t)) \<le> MAX_INPUT_BYTES" by code_simp
  then obtain t where "strictCanonicalJson (\<lambda>k. k) demo_json = Inr t" "length (utf8 (map unat t)) \<le> MAX_INPUT_BYTES"
    by (auto split: sum.splits)
  moreover from this have "parseConsensusJson (\<lambda>k. k) t = Some (canon demo_json)"
    by (rule canonical_json_roundtrip)
  moreover have "canon demo_json = CObj [(str_units ''a'', CArr [CInt (- 10), CStr [0x78, 0x0a, 0x22]]), (str_units ''b'', CBool True)]"
    by code_simp
  ultimately show ?thesis by auto
qed

section \<open>The printer accepts what the encoder accepts\<close>

lemma encoded_parts:
  "encodeArray nf vs ctx d = Inr r \<Longrightarrow> v \<in> set vs \<Longrightarrow> \<exists>ctx r. encodeValue nf v ctx d = Inr r"
  by (induction vs arbitrary: ctx) (auto simp: bind_r_Inr_iff)

lemma encoded_entries:
  "encodeEntries nf es ctx d = Inr r \<Longrightarrow> p \<in> set es \<Longrightarrow> \<exists>ctx r. encodeValue nf (snd p) ctx d = Inr r"
  by (induction es arbitrary: ctx) (force simp: bind_r_Inr_iff)+

lemma elements_printed:
  "\<forall>v \<in> set vs. jsonValue nf v d = Inr (f v) \<Longrightarrow> jsonElements nf vs d = Inr (map f vs)"
  by (induction vs) simp_all

lemma entries_printed:
  "\<forall>p \<in> set es. jsonValue nf (snd p) d = Inr (f (snd p)) \<Longrightarrow>
   jsonEntries nf es d = Inr (map (\<lambda>p. quoteString (fst p) @ 0x3a # f (snd p)) es)"
  by (induction es) (auto simp: bind_r_Inr_iff)

lemma encoded_printed: "encodeValue nf v ctx d = Inr r \<Longrightarrow> jsonValue nf v d = Inr (text_of (canon v))"
proof (induction v arbitrary: ctx d r)
  case (CArr vs)
  from CArr.prems have deep: "\<not> d > MAX_DEPTH" by (auto simp: encodeValue.simps split: if_splits)
  with CArr.prems obtain c where "length vs \<le> MAX_CONTAINER_ENTRIES" "encodeArray nf vs c (d + 1) = Inr r"
    by (auto simp: encodeValue.simps bind_r_Inr_iff arrayValues_def split: if_split_asm)
  with CArr.IH have "jsonElements nf vs (d + 1) = Inr (map (\<lambda>v. text_of (canon v)) vs)"
    by (intro elements_printed) (auto dest!: encoded_parts)
  with deep \<open>length vs \<le> MAX_CONTAINER_ENTRIES\<close> show ?case by (simp add: jsonValue.simps arrayValues_def o_def)
next
  case (CObj kvs)
  from CObj.prems have deep: "\<not> d > MAX_DEPTH" by (auto simp: encodeValue.simps split: if_splits)
  with CObj.prems obtain es c where es: "sortedObjectEntries nf kvs = Inr es" and r: "encodeEntries nf es c (d + 1) = Inr r"
    by (auto simp: encodeValue.simps bind_r_Inr_iff)
  have "snd ` set es = snd ` set kvs"
    using sortedObjectEntries_Inr [OF es] by (force simp: image_image)
  then have "jsonValue nf (snd p) (d + 1) = Inr (text_of (canon (snd p)))" if "p \<in> set kvs" for p
    using that encoded_entries [OF r] CObj.IH [of p "snd p"] by (metis image_eqI imageE snds.intros)
  then have "jsonEntries nf (sort_key (\<lambda>p. utf8 (map unat (fst p))) kvs) (d + 1) =
      Inr (map (\<lambda>p. quoteString (fst p) @ 0x3a # text_of (canon (snd p))) (sort_key (\<lambda>p. utf8 (map unat (fst p))) kvs))"
    by (intro entries_printed [where f = "\<lambda>v. text_of (canon v)"]) simp
  moreover have "sort_key (\<lambda>p. key_bytes (fst p)) (map (map_prod id canon) kvs) =
      map (map_prod id canon) (sort_key (\<lambda>p. key_bytes (fst p)) kvs)"
    by (rule sort_key_map) simp
  ultimately show ?case using deep es by (simp add: jsonValue.simps key_bytes_def o_def)
qed (auto simp: encodeValue.simps jsonValue.simps bind_r_Inr_iff split: if_splits)

lemma strictCanonicalJson_ok:
  assumes "keeps_ascii cr" and "json_ok v"
  shows "strictCanonicalJson (nfc cr) (to_cval v) = Inr (text_of (canon (to_cval v)))"
proof -
  have c: "consensusValueBytes (nfc cr) (to_cval v) = Inr (enc (canon (to_cval v)))"
    using assms json_within_within [OF assms(1), of v 0] json_within_length [of v 0]
    by (simp add: encoding_accepts_iff json_ok_def)
  then have "jsonValue (nfc cr) (to_cval v) 0 = Inr (text_of (canon (to_cval v)))"
    by (intro encoded_printed) (simp add: consensusValueBytes_def)
  with c show ?thesis by (simp add: strictCanonicalJson_def)
qed

section \<open>A bound on the length of a text\<close>

text \<open>Strings that are printed as they are, and a bound on the text of a value that has no others.\<close>

definition printable :: "string \<Rightarrow> bool" where
  "printable s \<longleftrightarrow> list_all (\<lambda>c. 32 \<le> unit_of c \<and> unit_of c < 127 \<and> unit_of c \<noteq> 34 \<and> unit_of c \<noteq> 92) s"

primrec text_size :: "jsval \<Rightarrow> nat" where
  "text_size JUndef = 0"
| "text_size JNull = 4"
| "text_size (JBool b) = 5"
| "text_size (JNum n) = length (dec_string n)"
| "text_size JNegZero = 0"
| "text_size JFrac = 0"
| "text_size (JBig n) = 0"
| "text_size (JStr s) = 2 + length s"
| "text_size (JArr vs) = 2 + sum_list (map Suc (map text_size vs))"
| "text_size (JObj kvs) = 2 + sum_list (map (\<lambda>p. Suc (Suc (Suc (Suc (length (fst p) + snd p))))) (map (map_prod id text_size) kvs))"

primrec plain_text :: "jsval \<Rightarrow> bool" where
  "plain_text JUndef = True"
| "plain_text JNull = True"
| "plain_text (JBool b) = True"
| "plain_text (JNum n) = True"
| "plain_text JNegZero = True"
| "plain_text JFrac = True"
| "plain_text (JBig n) = True"
| "plain_text (JStr s) = printable s"
| "plain_text (JArr vs) = list_all (\<lambda>b. b) (map plain_text vs)"
| "plain_text (JObj kvs) = list_all (\<lambda>p. printable (fst p) \<and> snd p) (map (map_prod id plain_text) kvs)"

definition small_text :: "nat \<Rightarrow> units \<Rightarrow> bool" where
  "small_text n t \<longleftrightarrow> length t \<le> n \<and> (\<forall>u \<in> set t. unat u < 128)"

lemma small_text_append: "small_text m s \<Longrightarrow> small_text n t \<Longrightarrow> small_text (m + n) (s @ t)"
  by (auto simp: small_text_def)

lemma small_text_Cons: "unat u < 128 \<Longrightarrow> small_text n t \<Longrightarrow> small_text (Suc n) (u # t)"
  by (auto simp: small_text_def)

lemma small_text_joined:
  "\<forall>x \<in> set xs. small_text (f x) (g x) \<Longrightarrow> small_text (sum_list (map (\<lambda>x. Suc (f x)) xs)) (joined (map g xs))"
proof (induction xs rule: induct_list012)
  case (2 x)
  then show ?case by (auto simp: small_text_def)
next
  case (3 x y xs)
  then have "small_text (sum_list (map (\<lambda>x. Suc (f x)) (y # xs))) (joined (map g (y # xs)))" by simp
  then have "small_text (f x + Suc (sum_list (map (\<lambda>x. Suc (f x)) (y # xs)))) (g x @ 0x2c # joined (map g (y # xs)))"
    using 3 by (intro small_text_append small_text_Cons) simp_all
  then show ?case by simp
qed (simp add: small_text_def)

lemma small_text_bracketed: "unat u < 128 \<Longrightarrow> unat w < 128 \<Longrightarrow> small_text n t \<Longrightarrow> small_text (2 + n) (u # t @ [w])"
  by (auto simp: small_text_def)

lemma printable_units: "printable s \<Longrightarrow> \<forall>u \<in> set (str_units s). 32 \<le> unat u \<and> unat u < 127 \<and> unat u \<noteq> 34 \<and> unat u \<noteq> 92"
  by (auto simp: printable_def str_units_def list_all_iff unat_of_char)

lemma plain_escape: "32 \<le> unat u \<Longrightarrow> unat u \<noteq> 34 \<Longrightarrow> unat u \<noteq> 92 \<Longrightarrow> escapeUnit u = [u]"
  by (auto simp: escapeUnit_def word_less_nat_alt)

lemma printable_quoted:
  assumes "printable s"
  shows "small_text (2 + length s) (quoteString (str_units s))"
proof -
  have "concat (map escapeUnit t) = t" if "\<forall>u \<in> set t. 32 \<le> unat u \<and> unat u < 127 \<and> unat u \<noteq> 34 \<and> unat u \<noteq> 92" for t
    using that by (induction t) (simp_all add: plain_escape)
  from this [OF printable_units [OF assms]] printable_units [OF assms] show ?thesis
    by (auto simp: quoteString_def small_text_def) (auto simp: str_units_def)
qed

lemma small_ascii: "list_all (\<lambda>c. unit_of c < 128) s \<Longrightarrow> small_text (length s) (str_units s)"
  by (auto simp: small_text_def str_units_def list_all_iff unat_of_char)

lemma plain_text_small: "plain_text v \<Longrightarrow> small_text (text_size v) (text_of (canon (to_cval v)))"
proof (induction v)
  case (JNum n)
  have "list_all (\<lambda>c. unit_of c < 128) (dec_digits m)" for m
    using dec_digits_digits [of m] by (auto simp: list_all_iff is_digit_def)
  then have "list_all (\<lambda>c. unit_of c < 128) (dec_string n)" by (auto simp: dec_string_def unit_of_def)
  then show ?case by (simp add: small_ascii)
next
  case (JArr vs)
  have "small_text (sum_list (map (\<lambda>v. Suc (text_size v)) vs)) (joined (map (\<lambda>v. text_of (canon (to_cval v))) vs))"
    using JArr by (intro small_text_joined) (simp add: list_all_iff)
  then have "small_text (2 + sum_list (map (\<lambda>v. Suc (text_size v)) vs))
      (0x5b # joined (map (\<lambda>v. text_of (canon (to_cval v))) vs) @ [0x5d])"
    by (intro small_text_bracketed) simp_all
  then show ?case by (simp add: o_def)
next
  case (JObj kvs)
  let ?e = "\<lambda>p. quoteString (str_units (fst p)) @ 0x3a # text_of (canon (to_cval (snd p)))"
  let ?n = "\<lambda>p :: string \<times> jsval. 2 + length (fst p) + Suc (text_size (snd p))"
  let ?s = "sort_key (\<lambda>p. key_bytes (str_units (fst p))) kvs"
  have "sort_key (\<lambda>p. key_bytes (fst p)) (map (\<lambda>p. (str_units (fst p), canon (to_cval (snd p)))) kvs) =
      map (\<lambda>p. (str_units (fst p), canon (to_cval (snd p)))) ?s"
    by (rule sort_key_map) simp
  then have t: "text_of (canon (to_cval (JObj kvs))) = 0x7b # joined (map ?e ?s) @ [0x7d]"
    by (simp add: o_def map_prod_def split_def)
  have "small_text (2 + length (fst p) + Suc (text_size (snd p))) (?e p)" if "p \<in> set kvs" for p
    using JObj that by (intro small_text_append small_text_Cons printable_quoted) (auto simp: list_all_iff snds.simps)
  then have "small_text (sum_list (map (\<lambda>p. Suc (?n p)) ?s)) (joined (map ?e ?s))"
    by (intro small_text_joined) simp
  then have "small_text (2 + sum_list (map (\<lambda>p. Suc (?n p)) kvs)) (0x7b # joined (map ?e ?s) @ [0x7d])"
    unfolding sum_list_sort_key by (intro small_text_bracketed) simp_all
  then show ?case unfolding t by (simp add: o_def map_prod_def split_def)
next
  case (JStr s)
  then show ?case using printable_quoted [of s] by simp
qed (auto simp: small_text_def str_units_def)

lemma small_text_bytes: "small_text n t \<Longrightarrow> length (utf8 (map unat t)) \<le> n"
proof -
  have "length (utf8 s) = length s" if "\<forall>u \<in> set s. u < 128" for s
    using that by (induction s rule: utf8.induct) (auto simp: utf8_scalar_def high_surrogate_def)
  from this [of "map unat t"] show "small_text n t \<Longrightarrow> length (utf8 (map unat t)) \<le> n"
    by (auto simp: small_text_def)
qed

end
