(* ===== verification/Merkle.thy ===== *)
theory Merkle
  imports ConsensusJson
begin

text \<open>
  The hash tree that \<open>transaction-tree.mjs\<close>, \<open>account-history.mjs\<close> and \<open>account-tree.mjs\<close> each
  compute in a way of their own: a perfect binary tree whose leaves are given by a partial function
  of the position, missing leaves being the empty leaf. The three differ in the domains they
  hash leaves, nodes and the empty leaf under, in the height and in what a leaf is. Here are the
  functions that are the same in all three, the tree itself, and what a path that ends in its root
  proves.
\<close>

section \<open>Nodes\<close>

record merkle_domains =
  mk_node :: string
  mk_empty :: string
  mk_leaf :: string

definition nodeObject :: "jsval \<Rightarrow> jsval \<Rightarrow> jsval" where
  "nodeObject left right = JObj [(''left'', left), (''right'', right)]"

definition nodeHash :: "crypto \<Rightarrow> merkle_domains \<Rightarrow> jsval \<Rightarrow> jsval \<Rightarrow> codec_error + string" where
  "nodeHash cr D left right = hashObject cr (nodeObject left right) (mk_node D)"

text \<open>\<open>emptyHashes\<close> is a table of these values; here they are computed where they are used.\<close>

primrec emptyHash :: "crypto \<Rightarrow> merkle_domains \<Rightarrow> nat \<Rightarrow> codec_error + string" where
  "emptyHash cr D 0 = hashObject cr JNull (mk_empty D)"
| "emptyHash cr D (Suc level) = bind_r (emptyHash cr D level) (\<lambda>child. nodeHash cr D (JStr child) (JStr child))"

text \<open>The loop of the three verifications: the bits of the position say on which side the sibling is.\<close>

fun climb :: "crypto \<Rightarrow> merkle_domains \<Rightarrow> string \<Rightarrow> nat \<Rightarrow> jsval list \<Rightarrow> codec_error + string" where
  "climb cr D current position [] = Inr current"
| "climb cr D current position (s # siblings) =
     bind_r (if position mod 2 = 0 then nodeHash cr D (JStr current) s else nodeHash cr D s (JStr current))
       (\<lambda>h. climb cr D h (position div 2) siblings)"

section \<open>The tree\<close>

text \<open>The root of the tree of height \<open>d\<close>; the leaf at a position is \<open>f\<close> of it.\<close>

primrec merkleRoot :: "crypto \<Rightarrow> merkle_domains \<Rightarrow> nat \<Rightarrow> (nat \<Rightarrow> string option) \<Rightarrow> codec_error + string" where
  "merkleRoot cr D 0 f = (case f 0 of None \<Rightarrow> emptyHash cr D 0 | Some x \<Rightarrow> Inr x)"
| "merkleRoot cr D (Suc d) f =
     bind_r (merkleRoot cr D d f) (\<lambda>l.
     bind_r (merkleRoot cr D d (\<lambda>i. f (i + 2 ^ d))) (\<lambda>r. nodeHash cr D (JStr l) (JStr r)))"

text \<open>The leaves of a list.\<close>

definition leavesOf :: "'a list \<Rightarrow> nat \<Rightarrow> 'a option" where
  "leavesOf xs i = (if i < length xs then Some (xs ! i) else None)"

text \<open>
  The tree over any node function, and the level above a level. A tree one higher is the tree
  over the level above.
\<close>

primrec treeRoot :: "('a \<Rightarrow> 'a \<Rightarrow> 'a) \<Rightarrow> (nat \<Rightarrow> 'a) \<Rightarrow> nat \<Rightarrow> nat \<Rightarrow> (nat \<Rightarrow> 'a option) \<Rightarrow> 'a" where
  "treeRoot N E 0 level f = (case f 0 of None \<Rightarrow> E level | Some x \<Rightarrow> x)"
| "treeRoot N E (Suc d) level f = N (treeRoot N E d level f) (treeRoot N E d level (\<lambda>i. f (i + 2 ^ d)))"

definition above :: "('a \<Rightarrow> 'a \<Rightarrow> 'a) \<Rightarrow> 'a \<Rightarrow> (nat \<Rightarrow> 'a option) \<Rightarrow> nat \<Rightarrow> 'a option" where
  "above N e f i =
     (case (f (2 * i), f (2 * i + 1)) of
        (None, None) \<Rightarrow> None
      | (l, r) \<Rightarrow> Some (N (case l of None \<Rightarrow> e | Some x \<Rightarrow> x) (case r of None \<Rightarrow> e | Some x \<Rightarrow> x)))"

fun pairs :: "('a \<Rightarrow> 'a \<Rightarrow> 'a) \<Rightarrow> 'a \<Rightarrow> 'a list \<Rightarrow> 'a list" where
  "pairs N e [] = []"
| "pairs N e [x] = [N x e]"
| "pairs N e (x # y # xs) = N x y # pairs N e xs"

lemma treeRoot_cong: "(\<And>i. i < 2 ^ d \<Longrightarrow> f i = g i) \<Longrightarrow> treeRoot N E d level f = treeRoot N E d level g"
proof (induction d arbitrary: f g)
  case (Suc d)
  have "treeRoot N E d level f = treeRoot N E d level g" by (rule Suc.IH) (use Suc.prems in simp)
  moreover have "treeRoot N E d level (\<lambda>i. f (i + 2 ^ d)) = treeRoot N E d level (\<lambda>i. g (i + 2 ^ d))"
    by (rule Suc.IH) (use Suc.prems in simp)
  ultimately show ?case by simp
qed simp

lemma length_pairs [simp]: "length (pairs N e xs) = (length xs + 1) div 2"
  by (induction N e xs rule: pairs.induct) simp_all

lemma above_leaves: "above N e (leavesOf xs) = leavesOf (pairs N e xs)"
proof
  fix i
  show "above N e (leavesOf xs) i = leavesOf (pairs N e xs) i"
  proof (induction xs arbitrary: i rule: induct_list012)
    case (3 x y xs)
    show ?case
    proof (cases i)
      case (Suc j)
      have "above N e (leavesOf (x # y # xs)) (Suc j) = above N e (leavesOf xs) j"
        by (simp add: above_def leavesOf_def)
      moreover have "leavesOf (pairs N e (x # y # xs)) (Suc j) = leavesOf (pairs N e xs) j" by (simp add: leavesOf_def)
      ultimately show ?thesis using Suc "3.IH"(1) [of j] by simp
    qed (simp add: above_def leavesOf_def)
  qed (auto simp: above_def leavesOf_def)
qed

text \<open>
  The interface of the node function: all that is used of it and of the table of empty subtrees is
  the law the table is filled by.
\<close>

locale hash_tree =
  fixes N :: "'a \<Rightarrow> 'a \<Rightarrow> 'a" and E :: "nat \<Rightarrow> 'a"
  assumes E_Suc: "E (Suc level) = N (E level) (E level)"
begin

lemma root_above: "treeRoot N E (Suc d) level f = treeRoot N E d (Suc level) (above N (E level) f)"
proof (induction d arbitrary: f)
  case 0
  then show ?case by (simp add: above_def E_Suc split: option.splits)
next
  case (Suc d)
  have "(\<lambda>i. above N (E level) f (i + 2 ^ d)) = above N (E level) (\<lambda>i. f (i + 2 ^ Suc d))"
    by (rule ext) (simp add: above_def distrib_left add.assoc)
  with Suc [of f] Suc [of "\<lambda>i. f (i + 2 ^ Suc d)"] show ?case by (simp only: treeRoot.simps)
qed

lemma root_empty: "treeRoot N E d level (\<lambda>i. None) = E (level + d)"
  by (induction d) (simp_all add: E_Suc)

lemma root_pairs: "treeRoot N E (Suc d) level (leavesOf xs) = treeRoot N E d (Suc level) (leavesOf (pairs N (E level) xs))"
  by (simp only: root_above above_leaves)

text \<open>An empty leaf more makes no difference.\<close>

lemma root_empty_leaf: "length xs < 2 ^ d \<Longrightarrow> treeRoot N E d level (leavesOf (xs @ [E level])) = treeRoot N E d level (leavesOf xs)"
proof (induction d arbitrary: level xs)
  case 0
  then show ?case by (simp add: leavesOf_def)
next
  case (Suc d)
  have odd: "pairs N (E level) (xs @ [E level]) = pairs N (E level) xs" if "odd (length xs)"
    using that by (induction xs rule: induct_list012) simp_all
  have even: "pairs N (E level) (xs @ [E level]) = pairs N (E level) xs @ [E (Suc level)]" if "even (length xs)"
    using that by (induction xs rule: induct_list012) (simp_all add: E_Suc)
  show ?case
  proof (cases "odd (length xs)")
    case True
    show ?thesis unfolding root_pairs odd [OF True] by (rule refl)
  next
    case False
    then have "length (pairs N (E level) xs) < 2 ^ d" using Suc.prems by auto
    from Suc.IH [OF this, of "Suc level"] even False show ?thesis unfolding root_pairs by simp
  qed
qed

end

section \<open>Hashes that cannot fail\<close>

text \<open>What is asked of the primitives: hashes are 64 hexadecimal digits and ASCII is normalized.\<close>

definition sound_hash :: "crypto \<Rightarrow> bool" where
  "sound_hash cr \<longleftrightarrow> keeps_ascii cr \<and> (\<forall>b. is_hex64 (sha3_hex cr b))"

definition tree_domains :: "merkle_domains \<Rightarrow> bool" where
  "tree_domains D \<longleftrightarrow> is_domain (mk_node D) \<and> is_domain (mk_empty D) \<and> is_domain (mk_leaf D) \<and>
     mk_node D \<noteq> mk_empty D \<and> mk_node D \<noteq> mk_leaf D \<and> mk_empty D \<noteq> mk_leaf D"

text \<open>The bytes that are hashed for a value the encoder accepts.\<close>

definition payload :: "string \<Rightarrow> jsval \<Rightarrow> bytes" where
  "payload d v = ascii ''NIR-CONSENSUS'' @ [0, 0, CONSENSUS_ENCODING_VERSION, length d] @ ascii d @ enc (canon (to_cval v))"

definition nodeOf :: "crypto \<Rightarrow> merkle_domains \<Rightarrow> string \<Rightarrow> string \<Rightarrow> string" where
  "nodeOf cr D l r = sha3_hex cr (payload (mk_node D) (nodeObject (JStr l) (JStr r)))"

primrec emptyOf :: "crypto \<Rightarrow> merkle_domains \<Rightarrow> nat \<Rightarrow> string" where
  "emptyOf cr D 0 = sha3_hex cr (payload (mk_empty D) JNull)"
| "emptyOf cr D (Suc level) = nodeOf cr D (emptyOf cr D level) (emptyOf cr D level)"

interpretation hashes: hash_tree "nodeOf cr D" "emptyOf cr D" for cr D
  by unfold_locales simp

abbreviation rootOf :: "crypto \<Rightarrow> merkle_domains \<Rightarrow> nat \<Rightarrow> nat \<Rightarrow> (nat \<Rightarrow> string option) \<Rightarrow> string" where
  "rootOf cr D \<equiv> treeRoot (nodeOf cr D) (emptyOf cr D)"

lemma domainPayload_payload:
  assumes "keeps_ascii cr" and "json_ok v" and "is_domain d"
  shows "domainPayload cr d v = Inr (payload d v)"
proof -
  have "consensusValueBytes (nfc cr) (to_cval v) = Inr (enc (canon (to_cval v)))"
    using assms json_within_within [OF assms(1), of v 0] json_within_length [of v 0]
    by (simp add: encoding_accepts_iff json_ok_def)
  with assms(3) show ?thesis by (simp add: domainPayload_def consensusEnvelopeBytes_def envelopePrefix_def payload_def)
qed

lemma payload_length: "json_ok v \<Longrightarrow> length (payload d v) = 17 + length d + json_length v"
  using json_within_length [of v 0] by (simp add: payload_def json_ok_def)

lemma hash_total:
  assumes "sound_hash cr" and "json_ok v" and "is_domain d"
  shows "hashObject cr v d = Inr (sha3_hex cr (payload d v))" and "is_hex64 (sha3_hex cr (payload d v))"
  using domainPayload_payload [of cr v d] assms by (simp_all add: sound_hash_def hashObject_def)

lemma hash_hex: "sound_hash cr \<Longrightarrow> hashObject cr v d = Inr h \<Longrightarrow> is_hex64 h"
  by (auto simp: sound_hash_def hashObject_def bind_r_Inr_iff)

lemma hex_ascii: "is_hex64 s \<Longrightarrow> ascii_string s"
  by (auto simp: is_hex64_def ascii_string_def list_all_iff is_hex_digit_def is_digit_def MAX_STRING_BYTES_def)

lemma hex_length: "is_hex64 s \<Longrightarrow> length s = 64"
  by (simp add: is_hex64_def)

lemma hex_printable: "is_hex64 s \<Longrightarrow> printable s"
  by (auto simp: is_hex64_def printable_def list_all_iff is_hex_digit_def is_digit_def)

lemma node_keys: "ascii_string ''left''" "ascii_string ''right''"
  by code_simp+

lemma node_json: "is_hex64 l \<Longrightarrow> is_hex64 r \<Longrightarrow> json_ok (nodeObject (JStr l) (JStr r))"
  by (simp add: json_ok_def nodeObject_def node_keys hex_ascii hex_length MAX_DEPTH_def MAX_CONTAINER_ENTRIES_def
      MAX_ENCODED_BYTES_def)

lemma null_json: "json_ok JNull"
  by code_simp

lemma node_total:
  assumes "sound_hash cr" and "tree_domains D" and "is_hex64 l" and "is_hex64 r"
  shows "nodeHash cr D (JStr l) (JStr r) = Inr (nodeOf cr D l r)" and "is_hex64 (nodeOf cr D l r)"
  using hash_total [OF assms(1) node_json [OF assms(3,4)], of "mk_node D"] assms(2)
  by (simp_all add: nodeHash_def nodeOf_def tree_domains_def)

lemma empty_total:
  assumes "sound_hash cr" and "tree_domains D"
  shows "emptyHash cr D level = Inr (emptyOf cr D level) \<and> is_hex64 (emptyOf cr D level)"
proof (induction level)
  case 0
  show ?case using hash_total [OF assms(1) null_json, of "mk_empty D"] assms(2) by (simp add: tree_domains_def)
next
  case (Suc level)
  with node_total [OF assms] show ?case by simp
qed

text \<open>The tree over hashes is the tree over the pure node function.\<close>

definition hex_leaves :: "(nat \<Rightarrow> string option) \<Rightarrow> bool" where
  "hex_leaves f \<longleftrightarrow> (\<forall>i x. f i = Some x \<longrightarrow> is_hex64 x)"

lemma hex_leavesOf: "hex_leaves (leavesOf xs) \<longleftrightarrow> list_all is_hex64 xs"
  by (auto simp: hex_leaves_def leavesOf_def list_all_length)

lemma merkleRoot_total:
  assumes "sound_hash cr" and "tree_domains D"
  shows "hex_leaves f \<Longrightarrow> merkleRoot cr D d f = Inr (rootOf cr D d 0 f) \<and> is_hex64 (rootOf cr D d 0 f)"
proof (induction d arbitrary: f)
  case 0
  then show ?case using empty_total [OF assms, of 0] by (auto simp: hex_leaves_def split: option.splits simp del: emptyHash.simps)
next
  case (Suc d)
  then have "hex_leaves (\<lambda>i. f (i + 2 ^ d))" by (auto simp: hex_leaves_def)
  with Suc node_total [OF assms] show ?case by simp
qed

lemma root_hex:
  assumes "sound_hash cr" and "tree_domains D" and "hex_leaves f"
  shows "is_hex64 (rootOf cr D d level f)"
proof -
  have "is_hex64 (rootOf cr D d level f)" if "hex_leaves f" for f
    using that
  proof (induction d arbitrary: f)
    case 0
    then show ?case using empty_total [OF assms(1,2), of level] by (auto simp: hex_leaves_def split: option.splits)
  next
    case (Suc d)
    then have "hex_leaves (\<lambda>i. f (i + 2 ^ d))" by (auto simp: hex_leaves_def)
    with Suc node_total [OF assms(1,2)] show ?case by simp
  qed
  with assms(3) show ?thesis by blast
qed

lemma pairs_hex:
  assumes "sound_hash cr" and "tree_domains D"
  shows "list_all is_hex64 xs \<Longrightarrow> list_all is_hex64 (pairs (nodeOf cr D) (emptyOf cr D level) xs)"
  by (induction xs rule: induct_list012) (use node_total(2) [OF assms] empty_total [OF assms] in simp_all)

section \<open>What a path proves\<close>

text \<open>The byte strings that are hashed for a value, for a tree and along a path.\<close>

definition hashInput :: "crypto \<Rightarrow> jsval \<Rightarrow> string \<Rightarrow> bytes set" where
  "hashInput cr v domain = {b. domainPayload cr domain v = Inr b}"

primrec treeInputs :: "crypto \<Rightarrow> merkle_domains \<Rightarrow> nat \<Rightarrow> (nat \<Rightarrow> string option) \<Rightarrow> bytes set" where
  "treeInputs cr D 0 f = (if f 0 = None then hashInput cr JNull (mk_empty D) else {})"
| "treeInputs cr D (Suc d) f =
     treeInputs cr D d f \<union> treeInputs cr D d (\<lambda>i. f (i + 2 ^ d)) \<union>
     {b. \<exists>l r. merkleRoot cr D d f = Inr l \<and> merkleRoot cr D d (\<lambda>i. f (i + 2 ^ d)) = Inr r \<and>
        b \<in> hashInput cr (nodeObject (JStr l) (JStr r)) (mk_node D)}"

definition climbNode :: "string \<Rightarrow> nat \<Rightarrow> jsval \<Rightarrow> jsval" where
  "climbNode current position s =
     (if position mod 2 = 0 then nodeObject (JStr current) s else nodeObject s (JStr current))"

text \<open>The inputs of the steps of a path, each step reached by the ones before it.\<close>

definition pathInputs :: "crypto \<Rightarrow> merkle_domains \<Rightarrow> string \<Rightarrow> nat \<Rightarrow> jsval list \<Rightarrow> bytes set" where
  "pathInputs cr D current position siblings =
     {b. \<exists>n h. n < length siblings \<and> climb cr D current position (take n siblings) = Inr h \<and>
        b \<in> hashInput cr (climbNode h (position div 2 ^ n) (siblings ! n)) (mk_node D)}"

lemma same_hash:
  assumes "hashObject cr v d = Inr h" and "hashObject cr w d' = Inr h" and "inj_on (sha3_hex cr) B"
    and "hashInput cr v d \<subseteq> B" and "hashInput cr w d' \<subseteq> B"
  shows "d = d' \<and> canon (to_cval v) = canon (to_cval w)"
proof -
  obtain x y where "domainPayload cr d v = Inr x" "sha3_hex cr x = h" "domainPayload cr d' w = Inr y" "sha3_hex cr y = h"
    using assms(1,2) by (auto simp: hashObject_def bind_r_Inr_iff)
  moreover from this have "x = y" using assms(4,5) by (intro inj_onD [OF assms(3)]) (auto simp: hashInput_def)
  ultimately show ?thesis using domainPayload_inj by blast
qed

lemma climb_snoc:
  "climb cr D c p (ss @ [s]) = bind_r (climb cr D c p ss) (\<lambda>h. hashObject cr (climbNode h (p div 2 ^ length ss) s) (mk_node D))"
proof (induction ss arbitrary: c p)
  case Nil
  have "bind_r m Inr = m" for m :: "codec_error + string" by (cases m) simp_all
  then show ?case by (simp add: climbNode_def nodeHash_def)
next
  case (Cons t ss)
  let ?m = "if p mod 2 = 0 then nodeHash cr D (JStr c) t else nodeHash cr D t (JStr c)"
  show ?case by (cases ?m) (simp_all add: Cons div_mult2_eq)
qed

lemma pathInputs_snoc:
  "pathInputs cr D c p ss \<subseteq> pathInputs cr D c p (ss @ [s])"
  "climb cr D c p ss = Inr h \<Longrightarrow>
     hashInput cr (climbNode h (p div 2 ^ length ss) s) (mk_node D) \<subseteq> pathInputs cr D c p (ss @ [s])"
proof -
  show "pathInputs cr D c p ss \<subseteq> pathInputs cr D c p (ss @ [s])"
  proof
    fix b assume "b \<in> pathInputs cr D c p ss"
    then obtain n h where "n < length ss" "climb cr D c p (take n ss) = Inr h"
        "b \<in> hashInput cr (climbNode h (p div 2 ^ n) (ss ! n)) (mk_node D)" by (auto simp: pathInputs_def)
    then show "b \<in> pathInputs cr D c p (ss @ [s])"
      unfolding pathInputs_def by (intro CollectI exI [of _ n] exI [of _ h]) (simp add: nth_append)
  qed
  show "hashInput cr (climbNode h (p div 2 ^ length ss) s) (mk_node D) \<subseteq> pathInputs cr D c p (ss @ [s])"
    if "climb cr D c p ss = Inr h"
    using that by (force simp: pathInputs_def intro!: exI [of _ "length ss"])
qed

lemma node_fields:
  assumes "canon (to_cval (nodeObject a b)) = canon (to_cval (nodeObject a' b'))"
  shows "canon (to_cval a) = canon (to_cval a')" and "canon (to_cval b) = canon (to_cval b')"
proof -
  note e = canon_fld [OF assms [unfolded nodeObject_def]]
  show "canon (to_cval a) = canon (to_cval a')" using e [of "''left''"] by (simp add: fld_def)
  show "canon (to_cval b) = canon (to_cval b')" using e [of "''right''"] by (simp add: fld_def)
qed

text \<open>Every leaf of the tree is the hash of some value under the domain of leaves, or the empty leaf.\<close>

definition hashed_leaves :: "crypto \<Rightarrow> merkle_domains \<Rightarrow> bytes set \<Rightarrow> (nat \<Rightarrow> string option) \<Rightarrow> bool" where
  "hashed_leaves cr D B f \<longleftrightarrow>
     (\<forall>i x. f i = Some x \<longrightarrow> (\<exists>w. hashObject cr w (mk_leaf D) = Inr x \<and> hashInput cr w (mk_leaf D) \<subseteq> B))"

text \<open>
  A path from a leaf, or from the empty leaf, that ends in the root started at the leaf of its
  position.
\<close>

definition leaf_or_empty :: "crypto \<Rightarrow> merkle_domains \<Rightarrow> bytes set \<Rightarrow> string option \<Rightarrow> string \<Rightarrow> bool" where
  "leaf_or_empty cr D B leaf c \<longleftrightarrow> (case leaf of
     None \<Rightarrow> hashObject cr JNull (mk_empty D) = Inr c \<and> hashInput cr JNull (mk_empty D) \<subseteq> B
   | Some x \<Rightarrow> c = x \<and> (\<exists>w. hashObject cr w (mk_leaf D) = Inr x \<and> hashInput cr w (mk_leaf D) \<subseteq> B))"

lemma leaf_or_empty_hash:
  assumes "leaf_or_empty cr D B leaf c" and "tree_domains D"
  obtains w e where "hashObject cr w e = Inr c" and "hashInput cr w e \<subseteq> B" and "e \<noteq> mk_node D"
    and "e = (if leaf = None then mk_empty D else mk_leaf D)"
  using assms by (auto simp: leaf_or_empty_def tree_domains_def split: option.splits)

lemma leaf_or_empty_eq:
  assumes "leaf_or_empty cr D B x c" and "leaf_or_empty cr D B y c" and "tree_domains D" and "inj_on (sha3_hex cr) B"
  shows "x = y"
proof -
  obtain w e where w: "hashObject cr w e = Inr c" "hashInput cr w e \<subseteq> B" "e = (if x = None then mk_empty D else mk_leaf D)"
    by (rule leaf_or_empty_hash [OF assms(1,3)])
  obtain v e' where v: "hashObject cr v e' = Inr c" "hashInput cr v e' \<subseteq> B" "e' = (if y = None then mk_empty D else mk_leaf D)"
    by (rule leaf_or_empty_hash [OF assms(2,3)])
  have "e = e'" using same_hash [OF w(1) v(1) assms(4) w(2) v(2)] by simp
  with w(3) v(3) assms(3) have "x = None \<longleftrightarrow> y = None" by (auto simp: tree_domains_def split: if_splits)
  with assms(1,2) show ?thesis by (auto simp: leaf_or_empty_def split: option.splits)
qed

lemma path_to_leaf:
  assumes "tree_domains D" and "inj_on (sha3_hex cr) B" and "leaf_or_empty cr D B leaf c"
  shows "merkleRoot cr D d f = Inr root \<Longrightarrow> climb cr D c p ss = Inr root \<Longrightarrow> treeInputs cr D d f \<subseteq> B \<Longrightarrow>
    pathInputs cr D c p ss \<subseteq> B \<Longrightarrow> hashed_leaves cr D B f \<Longrightarrow> leaf \<noteq> None \<or> length ss = d \<Longrightarrow>
    length ss = d \<and> f (p mod 2 ^ d) = leaf"
proof (induction d arbitrary: f ss root)
  case 0
  have root: "leaf_or_empty cr D B (f 0) root"
    using "0.prems"(1,3,5) by (auto simp: leaf_or_empty_def hashed_leaves_def split: option.splits)
  have "ss = []"
  proof (cases ss rule: rev_cases)
    case (snoc ts s)
    with "0.prems"(2) obtain h where h: "climb cr D c p ts = Inr h"
        "hashObject cr (climbNode h (p div 2 ^ length ts) s) (mk_node D) = Inr root"
      by (auto simp: climb_snoc bind_r_Inr_iff)
    moreover have "hashInput cr (climbNode h (p div 2 ^ length ts) s) (mk_node D) \<subseteq> B"
      using pathInputs_snoc(2) [OF h(1), of s] "0.prems"(4) snoc by blast
    ultimately show ?thesis using leaf_or_empty_hash [OF root assms(1)] same_hash [OF _ h(2) assms(2)] by metis
  qed
  with "0.prems"(2) have "c = root" by simp
  with leaf_or_empty_eq [OF root assms(3) [unfolded this] assms(1,2)] \<open>ss = []\<close> show ?case by simp
next
  case (Suc d)
  let ?R = "\<lambda>i. f (i + 2 ^ d)"
  from Suc.prems(1) obtain l r where lr: "merkleRoot cr D d f = Inr l" "merkleRoot cr D d ?R = Inr r"
      and node: "hashObject cr (nodeObject (JStr l) (JStr r)) (mk_node D) = Inr root"
    by (auto simp: bind_r_Inr_iff nodeHash_def)
  have B: "hashInput cr (nodeObject (JStr l) (JStr r)) (mk_node D) \<subseteq> B" "treeInputs cr D d f \<subseteq> B" "treeInputs cr D d ?R \<subseteq> B"
    using Suc.prems(3) lr by auto
  show ?case
  proof (cases ss rule: rev_cases)
    case Nil
    with Suc.prems(2) have "c = root" by simp
    obtain w e where "hashObject cr w e = Inr c" "hashInput cr w e \<subseteq> B" "e \<noteq> mk_node D"
      by (rule leaf_or_empty_hash [OF assms(3,1)])
    with same_hash [OF _ node assms(2) _ B(1)] \<open>c = root\<close> show ?thesis by blast
  next
    case (snoc ts s)
    let ?q = "p div 2 ^ length ts"
    obtain h where h: "climb cr D c p ts = Inr h" "hashObject cr (climbNode h ?q s) (mk_node D) = Inr root"
      using Suc.prems(2) unfolding snoc climb_snoc by (auto simp: bind_r_Inr_iff)
    have "hashInput cr (climbNode h ?q s) (mk_node D) \<subseteq> B" and ts: "pathInputs cr D c p ts \<subseteq> B"
      using pathInputs_snoc(1) [of cr D c p ts s] pathInputs_snoc(2) [OF h(1), of s] Suc.prems(4) unfolding snoc by blast+
    then have eq: "canon (to_cval (climbNode h ?q s)) = canon (to_cval (nodeObject (JStr l) (JStr r)))"
      using same_hash [OF h(2) node assms(2) _ B(1)] by blast
    have leaves: "hashed_leaves cr D B ?R" using Suc.prems(5) by (auto simp: hashed_leaves_def)
    have len: "leaf \<noteq> None \<or> length ts = d" using Suc.prems(6) snoc by auto
    have split: "p mod 2 ^ Suc d = 2 ^ d * (p div 2 ^ d mod 2) + p mod 2 ^ d"
      using mod_mult2_eq [of p "2 ^ d" 2] by (simp only: power_Suc mult.commute)
    show ?thesis
    proof (cases "?q mod 2 = 0")
      case True
      with eq have "h = l" using node_fields(1) [of "JStr h" s "JStr l" "JStr r"] by (simp add: climbNode_def)
      with Suc.IH [OF lr(1) h(1) [unfolded this] B(2) ts Suc.prems(5) len] True snoc split show ?thesis by simp
    next
      case False
      with eq have "h = r" using node_fields(2) [of s "JStr h" "JStr l" "JStr r"] by (simp add: climbNode_def)
      with Suc.IH [OF lr(2) h(1) [unfolded this] B(3) ts leaves len] False snoc split show ?thesis by (simp add: add.commute)
    qed
  qed
qed

end
