(* ===== verification/Single_Leaf.thy ===== *)
theory Single_Leaf
  imports Merkle
begin

text \<open>
  A tree with one leaf, at position 0, to evaluate the theorems on: a hash without collisions on the byte
  strings that are hashed for it. They are numbered, the empty subtrees first, then the leaf and the nodes
  above it, and the hash of each is its number.
\<close>

section \<open>The hash\<close>

definition hex_number :: "nat \<Rightarrow> string" where
  "hex_number k = replicate 61 CHR ''0'' @ [digit_char (k div 100 mod 10), digit_char (k div 10 mod 10), digit_char (k mod 10)]"

definition leaf_input :: "merkle_domains \<Rightarrow> nat \<Rightarrow> jsval \<Rightarrow> nat \<Rightarrow> bytes" where
  "leaf_input D d v k =
     (if k = 0 then payload (mk_empty D) JNull
      else if k \<le> d then payload (mk_node D) (nodeObject (JStr (hex_number (k - 1))) (JStr (hex_number (k - 1))))
      else if k = d + 1 then payload (mk_leaf D) v
      else payload (mk_node D) (nodeObject (JStr (hex_number (k - 1))) (JStr (hex_number (k - d - 2)))))"

definition numbered :: "merkle_domains \<Rightarrow> nat \<Rightarrow> jsval \<Rightarrow> crypto" where
  "numbered D d v = demo_crypto\<lparr>sha3_hex := (\<lambda>b. case find (\<lambda>k. b = leaf_input D d v k) [0..<2 * d + 2] of
     None \<Rightarrow> hex_number 999 | Some k \<Rightarrow> hex_number k)\<rparr>"

lemma hex_number_hex: "is_hex64 (hex_number k)"
proof -
  have "is_hex_digit (digit_char d)" if "d < 10" for d
    using unit_of_digit_char [OF that] that by (simp add: is_hex_digit_def is_digit_def)
  moreover have "is_hex_digit CHR ''0''" by code_simp
  ultimately show ?thesis by (simp add: hex_number_def is_hex64_def list_all_iff)
qed

lemma digit_char_eq: "d < 10 \<Longrightarrow> e < 10 \<Longrightarrow> digit_char d = digit_char e \<longleftrightarrow> d = e"
  by (metis unit_of_digit_char add_left_cancel)

lemma digits_eq:
  fixes i k :: nat
  assumes "i < 1000" and "k < 1000" and "i div 100 mod 10 = k div 100 mod 10" and "i div 10 mod 10 = k div 10 mod 10" and "i mod 10 = k mod 10"
  shows "i = k"
proof -
  have "i div 100 = i div 10 div 10" "k div 100 = k div 10 div 10" by (simp_all add: div_mult2_eq [symmetric])
  moreover have "i div 100 < 10" "k div 100 < 10" using assms(1,2) by auto
  ultimately have "i div 10 div 10 = k div 10 div 10" using assms(3) by (metis mod_less)
  then have "i div 10 = k div 10" using assms(4) by (metis div_mult_mod_eq)
  then show ?thesis using assms(5) by (metis div_mult_mod_eq)
qed

lemma hex_number_eq: "i < 1000 \<Longrightarrow> k < 1000 \<Longrightarrow> hex_number i = hex_number k \<longleftrightarrow> i = k"
proof
  assume k: "i < 1000" "k < 1000" and "hex_number i = hex_number k"
  then have "i div 100 mod 10 = k div 100 mod 10" "i div 10 mod 10 = k div 10 mod 10" "i mod 10 = k mod 10"
    by (auto simp: hex_number_def digit_char_eq)
  then show "i = k" by (rule digits_eq [OF k])
qed simp

lemma numbered_value: "\<exists>k. sha3_hex (numbered D d v) b = hex_number k"
  by (auto simp: numbered_def split: option.split)

lemma numbered_ascii: "keeps_ascii (numbered D d v)"
  using demo_keeps_ascii by (simp add: keeps_ascii_def numbered_def demo_crypto_def)

lemma numbered_sound: "sound_hash (numbered D d v)"
  using numbered_ascii numbered_value hex_number_hex unfolding sound_hash_def by metis

lemma payload_eq:
  assumes "payload d v = payload e w" and "json_ok v" and "json_ok w" and "is_domain d" and "is_domain e"
  shows "d = e \<and> canon (to_cval v) = canon (to_cval w)"
  using domainPayload_payload [OF demo_keeps_ascii assms(2,4)] domainPayload_payload [OF demo_keeps_ascii assms(3,5)] assms(1)
    domainPayload_inj by metis

section \<open>It has no collisions\<close>

lemma numbered_node_eq:
  assumes "tree_domains D"
    and "payload (mk_node D) (nodeObject (JStr (hex_number i)) (JStr (hex_number j))) =
      payload (mk_node D) (nodeObject (JStr (hex_number k)) (JStr (hex_number l)))" and "i < 1000" and "k < 1000"
  shows "i = k"
proof -
  note ok = node_json [OF hex_number_hex hex_number_hex]
  have D: "is_domain (mk_node D)" using assms(1) by (simp add: tree_domains_def)
  have "canon (to_cval (nodeObject (JStr (hex_number i)) (JStr (hex_number j)))) =
      canon (to_cval (nodeObject (JStr (hex_number k)) (JStr (hex_number l))))"
    using payload_eq [OF assms(2) ok ok D D] by (rule conjunct2)
  from node_fields(1) [OF this] have "hex_number i = hex_number k" by simp
  then show ?thesis using hex_number_eq assms(3,4) by simp
qed

lemma leaf_input_node:
  "k \<noteq> 0 \<Longrightarrow> k \<noteq> d + 1 \<Longrightarrow>
   \<exists>j. leaf_input D d v k = payload (mk_node D) (nodeObject (JStr (hex_number (k - 1))) (JStr (hex_number j)))"
  unfolding leaf_input_def by (cases "k \<le> d") auto

text \<open>The domain of an input.\<close>

definition input_domain :: "merkle_domains \<Rightarrow> nat \<Rightarrow> nat \<Rightarrow> string" where
  "input_domain D d k = (if k = 0 then mk_empty D else if k = d + 1 then mk_leaf D else mk_node D)"

lemma leaf_input_domain:
  assumes "json_ok v"
  obtains w where "leaf_input D d v k = payload (input_domain D d k) w" and "json_ok w"
proof
  let ?w = "if k = 0 then JNull
    else if k \<le> d then nodeObject (JStr (hex_number (k - 1))) (JStr (hex_number (k - 1)))
    else if k = d + 1 then v else nodeObject (JStr (hex_number (k - 1))) (JStr (hex_number (k - d - 2)))"
  show "leaf_input D d v k = payload (input_domain D d k) ?w" by (simp add: leaf_input_def input_domain_def)
  show "json_ok ?w" using assms by (simp add: null_json node_json hex_number_hex)
qed

lemma leaf_input_inj:
  assumes "tree_domains D" and "json_ok v" and "leaf_input D d v i = leaf_input D d v k" and "i < 2 * d + 2" and "k < 2 * d + 2"
    and "2 * d < 900"
  shows "i = k"
proof -
  obtain w where w: "leaf_input D d v i = payload (input_domain D d i) w" "json_ok w" by (rule leaf_input_domain [OF assms(2)])
  obtain u where u: "leaf_input D d v k = payload (input_domain D d k) u" "json_ok u" by (rule leaf_input_domain [OF assms(2)])
  have "is_domain (input_domain D d n)" for n using assms(1) by (simp add: input_domain_def tree_domains_def)
  with payload_eq [OF _ w(2) u(2)] assms(3) w(1) u(1) have same: "input_domain D d i = input_domain D d k" by metis
  show ?thesis
  proof (cases "i = 0 \<or> i = d + 1")
    case True
    with same assms(1) show ?thesis by (auto simp: input_domain_def tree_domains_def split: if_splits)
  next
    case False
    with same assms(1) have k: "k \<noteq> 0" "k \<noteq> d + 1" by (auto simp: input_domain_def tree_domains_def split: if_splits)
    from False leaf_input_node [of i d D v] obtain j where
      "leaf_input D d v i = payload (mk_node D) (nodeObject (JStr (hex_number (i - 1))) (JStr (hex_number j)))" by auto
    moreover from leaf_input_node [OF k, of D v] obtain l where
      "leaf_input D d v k = payload (mk_node D) (nodeObject (JStr (hex_number (k - 1))) (JStr (hex_number l)))" by auto
    moreover have "i - 1 < 1000" "k - 1 < 1000" using assms(4-6) by auto
    ultimately have "i - 1 = k - 1" using numbered_node_eq [OF assms(1)] assms(3) by metis
    with False k show ?thesis by auto
  qed
qed

section \<open>The tree\<close>

definition single_ok :: "merkle_domains \<Rightarrow> nat \<Rightarrow> jsval \<Rightarrow> bool" where
  "single_ok D d v \<longleftrightarrow> tree_domains D \<and> json_ok v \<and> 2 * d < 900"

lemma numbered_hash:
  assumes "single_ok D d v" and "k < 2 * d + 2"
  shows "sha3_hex (numbered D d v) (leaf_input D d v k) = hex_number k"
proof -
  have "leaf_input D d v k \<noteq> leaf_input D d v j" if "j < k" for j
    using leaf_input_inj [of D v d k j] assms that by (auto simp: single_ok_def)
  then have "find (\<lambda>i. leaf_input D d v k = leaf_input D d v i) [0..<2 * d + 2] = Some k"
    unfolding find_Some_iff using assms(2) by (intro exI [of _ k]) (simp add: nth_upt del: upt_Suc)
  then show ?thesis by (simp add: numbered_def)
qed

lemma numbered_inj: "single_ok D d v \<Longrightarrow> inj_on (sha3_hex (numbered D d v)) (leaf_input D d v ` {..<2 * d + 2})"
  by (rule inj_onI) (auto simp: numbered_hash hex_number_eq single_ok_def)

lemma numbered_empty: "single_ok D d v \<Longrightarrow> k \<le> d \<Longrightarrow> emptyOf (numbered D d v) D k = hex_number k"
proof (induction k)
  case 0
  then show ?case using numbered_hash [of D d v 0] by (simp add: leaf_input_def)
next
  case (Suc k)
  then show ?case using numbered_hash [of D d v "Suc k"] by (simp add: leaf_input_def nodeOf_def)
qed

lemma numbered_leaf: "single_ok D d v \<Longrightarrow> hashObject (numbered D d v) v (mk_leaf D) = Inr (hex_number (d + 1))"
  using numbered_hash [of D d v "d + 1"] hash_total(1) [OF numbered_sound, of v "mk_leaf D" D d v]
  by (simp add: leaf_input_def single_ok_def tree_domains_def)

lemma numbered_node:
  "single_ok D d v \<Longrightarrow> k < d \<Longrightarrow> nodeOf (numbered D d v) D (hex_number (d + 1 + k)) (hex_number k) = hex_number (d + 2 + k)"
  using numbered_hash [of D d v "d + 2 + k"] by (simp add: leaf_input_def nodeOf_def)

lemma leavesOf_single: "(\<lambda>i. leavesOf [x] (i + 2 ^ d)) = (\<lambda>i. None)"
  by (simp add: leavesOf_def fun_eq_iff)

lemma numbered_root:
  "single_ok D d v \<Longrightarrow> n \<le> d \<Longrightarrow> rootOf (numbered D d v) D n 0 (leavesOf [hex_number (d + 1)]) = hex_number (d + 1 + n)"
proof (induction n)
  case (Suc n)
  then show ?case
    using numbered_node [of D d v n] numbered_empty [of D d v n] hashes.root_empty [of "numbered D d v" D n 0]
    by (simp add: leavesOf_single)
qed (simp add: leavesOf_def)

lemma numbered_merkle:
  assumes "single_ok D d v" and "n \<le> d"
  shows "merkleRoot (numbered D d v) D n (leavesOf [hex_number (d + 1)]) = Inr (hex_number (d + 1 + n))"
    and "merkleRoot (numbered D d v) D n (\<lambda>_. None) = Inr (hex_number n)"
proof -
  have D: "tree_domains D" using assms(1) by (simp add: single_ok_def)
  show "merkleRoot (numbered D d v) D n (leavesOf [hex_number (d + 1)]) = Inr (hex_number (d + 1 + n))"
    using merkleRoot_total [OF numbered_sound D, of "leavesOf [hex_number (d + 1)]"] numbered_root [OF assms]
    by (simp add: hex_leavesOf hex_number_hex)
  show "merkleRoot (numbered D d v) D n (\<lambda>_. None) = Inr (hex_number n)"
    using merkleRoot_total [OF numbered_sound D, of "\<lambda>_. None"] numbered_empty [OF assms]
      hashes.root_empty [of "numbered D d v" D n 0] by (simp add: hex_leaves_def)
qed

lemma numbered_input:
  "json_ok w \<Longrightarrow> is_domain e \<Longrightarrow> hashInput (numbered D d v) w e = {payload e w}"
  using domainPayload_payload [of "numbered D d v" w e] numbered_ascii by (simp add: hashInput_def)

lemma numbered_node_input:
  "single_ok D d v \<Longrightarrow> hashInput (numbered D d v) (nodeObject (JStr (hex_number i)) (JStr (hex_number j))) (mk_node D) =
     {payload (mk_node D) (nodeObject (JStr (hex_number i)) (JStr (hex_number j)))}"
  by (intro numbered_input node_json hex_number_hex) (simp add: single_ok_def tree_domains_def)

lemma numbered_leaf_input: "single_ok D d v \<Longrightarrow> hashInput (numbered D d v) v (mk_leaf D) = {leaf_input D d v (d + 1)}"
  using numbered_input [of v "mk_leaf D" D d v] by (simp add: single_ok_def tree_domains_def leaf_input_def)

lemma numbered_empty_tree:
  "single_ok D d v \<Longrightarrow> n \<le> d \<Longrightarrow> treeInputs (numbered D d v) D n (\<lambda>_. None) \<subseteq> leaf_input D d v ` {..<2 * d + 2}"
proof (induction n)
  case 0
  then show ?case using numbered_input [OF null_json, of "mk_empty D" D d v]
    by (auto simp: leaf_input_def single_ok_def tree_domains_def)
next
  case (Suc n)
  have "payload (mk_node D) (nodeObject (JStr (hex_number n)) (JStr (hex_number n))) = leaf_input D d v (Suc n)"
    using Suc.prems by (simp add: leaf_input_def)
  then have "payload (mk_node D) (nodeObject (JStr (hex_number n)) (JStr (hex_number n))) \<in> leaf_input D d v ` {..<2 * d + 2}"
    using Suc.prems by auto
  with Suc numbered_merkle(2) [of D d v n] show ?case by (auto simp: numbered_node_input)
qed

lemma numbered_tree:
  "single_ok D d v \<Longrightarrow> n \<le> d \<Longrightarrow>
   treeInputs (numbered D d v) D n (leavesOf [hex_number (d + 1)]) \<subseteq> leaf_input D d v ` {..<2 * d + 2}"
proof (induction n)
  case 0
  then show ?case by (simp add: leavesOf_def)
next
  case (Suc n)
  have "payload (mk_node D) (nodeObject (JStr (hex_number (d + 1 + n))) (JStr (hex_number n))) = leaf_input D d v (d + 2 + n)"
    using Suc.prems by (simp add: leaf_input_def)
  then have "payload (mk_node D) (nodeObject (JStr (hex_number (d + 1 + n))) (JStr (hex_number n))) \<in> leaf_input D d v ` {..<2 * d + 2}"
    using Suc.prems by auto
  with Suc numbered_merkle [of D d v n] numbered_empty_tree [of D d v n] show ?case
    by (auto simp: numbered_node_input leavesOf_single)
qed

section \<open>The path to the leaf\<close>

lemma numbered_climb:
  "single_ok D d v \<Longrightarrow> n \<le> d \<Longrightarrow>
   climb (numbered D d v) D (hex_number (d + 1)) 0 (map (\<lambda>k. JStr (hex_number k)) [0..<n]) = Inr (hex_number (d + 1 + n))"
proof (induction n)
  case (Suc n)
  note ok = node_json [OF hex_number_hex [of "d + 1 + n"] hex_number_hex [of n]]
  have "is_domain (mk_node D)" using Suc.prems(1) by (simp add: single_ok_def tree_domains_def)
  from hash_total(1) [OF numbered_sound ok this, of D d v]
  have "hashObject (numbered D d v) (nodeObject (JStr (hex_number (d + 1 + n))) (JStr (hex_number n))) (mk_node D) =
      Inr (hex_number (d + 2 + n))"
    using numbered_node [of D d v n] Suc.prems by (simp add: nodeOf_def)
  with Suc show ?case by (simp add: climb_snoc climbNode_def)
qed simp

lemma numbered_path:
  assumes "single_ok D d v"
  shows "pathInputs (numbered D d v) D (hex_number (d + 1)) 0 (map (\<lambda>k. JStr (hex_number k)) [0..<d]) \<subseteq>
    leaf_input D d v ` {..<2 * d + 2}"
proof
  let ?ss = "map (\<lambda>k. JStr (hex_number k)) [0..<d]"
  fix b assume "b \<in> pathInputs (numbered D d v) D (hex_number (d + 1)) 0 ?ss"
  then obtain n h where n: "n < d" "climb (numbered D d v) D (hex_number (d + 1)) 0 (take n ?ss) = Inr h"
      "b \<in> hashInput (numbered D d v) (climbNode h 0 (JStr (hex_number n))) (mk_node D)"
    by (auto simp: pathInputs_def)
  have "take n ?ss = map (\<lambda>k. JStr (hex_number k)) [0..<n]" using n(1) by (simp add: take_map)
  with n numbered_climb [OF assms, of n] have "h = hex_number (d + 1 + n)" by simp
  with n(1,3) have "b = leaf_input D d v (d + 2 + n)" using assms by (simp add: climbNode_def numbered_node_input leaf_input_def)
  with n(1) show "b \<in> leaf_input D d v ` {..<2 * d + 2}" by auto
qed

end
