(* ===== verification/Js_Map.thy ===== *)
theory Js_Map
  imports Prelude
begin

text \<open>
  The JavaScript \<open>Map\<close>: entries in insertion order, \<open>set\<close> overwriting in place or appending,
  \<open>delete\<close> removing. It is an association list whose keys are distinct (\<open>jwf\<close>); a \<open>Set\<close> is a
  map to \<open>unit\<close>. The second half states the interface the monetary components use a map of
  balances through (\<open>value_store\<close>) and proves, once, what transferring value over it keeps.
\<close>

section \<open>Maps\<close>

type_synonym ('k, 'v) jsmap = "('k \<times> 'v) list"
type_synonym 'k jsset = "('k, unit) jsmap"

definition jget :: "('k, 'v) jsmap \<Rightarrow> 'k \<Rightarrow> 'v option" where
  "jget m k = map_of m k"

definition jhas :: "('k, 'v) jsmap \<Rightarrow> 'k \<Rightarrow> bool" where
  "jhas m k \<longleftrightarrow> jget m k \<noteq> None"

text \<open>\<open>m.get(k) ?? d\<close>\<close>

definition jget_or :: "'v \<Rightarrow> ('k, 'v) jsmap \<Rightarrow> 'k \<Rightarrow> 'v" where
  "jget_or d m k = (case jget m k of None \<Rightarrow> d | Some v \<Rightarrow> v)"

definition jset :: "'k \<Rightarrow> 'v \<Rightarrow> ('k, 'v) jsmap \<Rightarrow> ('k, 'v) jsmap" where
  "jset k v m = AList.update k v m"

definition jdel :: "'k \<Rightarrow> ('k, 'v) jsmap \<Rightarrow> ('k, 'v) jsmap" where
  "jdel k m = AList.delete k m"

definition jsize :: "('k, 'v) jsmap \<Rightarrow> nat" where
  "jsize m = length m"

definition jkeys :: "('k, 'v) jsmap \<Rightarrow> 'k list" where
  "jkeys m = map fst m"

definition jvalues :: "('k, 'v) jsmap \<Rightarrow> 'v list" where
  "jvalues m = map snd m"

definition jwf :: "('k, 'v) jsmap \<Rightarrow> bool" where
  "jwf m \<longleftrightarrow> distinct (map fst m)"

definition jadd :: "'k \<Rightarrow> 'k jsset \<Rightarrow> 'k jsset" where
  "jadd k s = jset k () s"

text \<open>\<open>jsum f m\<close> adds \<open>f\<close> over the stored values, \<open>jtotal\<close> the values themselves.\<close>

definition jsum :: "('v \<Rightarrow> int) \<Rightarrow> ('k, 'v) jsmap \<Rightarrow> int" where
  "jsum f m = (\<Sum>(k, v) \<leftarrow> m. f v)"

definition jtotal :: "('k, int) jsmap \<Rightarrow> int" where
  "jtotal m = jsum (\<lambda>v. v) m"

subsection \<open>Laws\<close>

lemma jget_empty [simp, map_laws]: "jget [] k = None"
  by (simp add: jget_def)

lemma jget_jset [simp, map_laws]: "jget (jset k v m) k' = (if k' = k then Some v else jget m k')"
  by (simp add: jget_def jset_def update_conv)

lemma jget_jdel [simp, map_laws]: "jget (jdel k m) k' = (if k' = k then None else jget m k')"
  by (simp add: jget_def jdel_def delete_conv)

lemma jhas_jset [simp]: "jhas (jset k v m) k' \<longleftrightarrow> k' = k \<or> jhas m k'"
  by (simp add: jhas_def)

lemma jhas_jdel [simp]: "jhas (jdel k m) k' \<longleftrightarrow> k' \<noteq> k \<and> jhas m k'"
  by (simp add: jhas_def)

lemma jhas_Some: "jget m k = Some v \<Longrightarrow> jhas m k"
  by (simp add: jhas_def)

lemma jhas_empty [simp]: "\<not> jhas [] k"
  by (simp add: jhas_def)

lemma jhas_iff_keys: "jhas m k \<longleftrightarrow> k \<in> set (jkeys m)"
  by (simp add: jhas_def jget_def jkeys_def map_of_eq_None_iff)

lemma jget_or_jset [simp]: "jget_or d (jset k v m) k' = (if k' = k then v else jget_or d m k')"
  by (simp add: jget_or_def)

lemma jget_or_jdel [simp]: "jget_or d (jdel k m) k' = (if k' = k then d else jget_or d m k')"
  by (simp add: jget_or_def)

lemma jget_or_empty [simp]: "jget_or d [] k = d"
  by (simp add: jget_or_def)

lemma jget_or_Some: "jget m k = Some v \<Longrightarrow> jget_or d m k = v"
  by (simp add: jget_or_def)

lemma jget_or_None: "\<not> jhas m k \<Longrightarrow> jget_or d m k = d"
  by (simp add: jget_or_def jhas_def)

lemma jwf_empty [simp]: "jwf []"
  by (simp add: jwf_def)

lemma jwf_jset [simp, intro]: "jwf m \<Longrightarrow> jwf (jset k v m)"
  by (simp add: jwf_def jset_def distinct_update)

lemma jwf_jdel [simp, intro]: "jwf m \<Longrightarrow> jwf (jdel k m)"
  by (simp add: jwf_def jdel_def distinct_delete)

lemma jwf_filter [simp, intro]: "jwf m \<Longrightarrow> jwf (filter P m)"
  by (induction m) (auto simp: jwf_def)

lemma jget_Some_in: "jget m k = Some v \<Longrightarrow> (k, v) \<in> set m"
  by (simp add: jget_def map_of_SomeD)

lemma jget_iff_in: "jwf m \<Longrightarrow> jget m k = Some v \<longleftrightarrow> (k, v) \<in> set m"
  by (simp add: jget_def jwf_def map_of_eq_Some_iff)

lemma jget_filter:
  "jwf m \<Longrightarrow> jget (filter (\<lambda>(k, v). P k v) m) k =
     (case jget m k of None \<Rightarrow> None | Some v \<Rightarrow> if P k v then Some v else None)"
proof (induction m)
  case (Cons p m)
  obtain k' v' where p: "p = (k', v')" by (cases p)
  from Cons.prems p have "k' \<notin> fst ` set m" "jwf m" by (auto simp: jwf_def)
  then have "jget m k' = None" by (auto simp: jget_def map_of_eq_None_iff)
  with Cons.IH [OF \<open>jwf m\<close>] p show ?case
    by (auto simp: jget_def split: option.splits)
qed simp

lemma jsize_jset: "jsize (jset k v m) = (if jhas m k then jsize m else Suc (jsize m))"
  by (induction m) (auto simp: jsize_def jset_def jhas_def jget_def)

lemma jsize_jdel: "jwf m \<Longrightarrow> jsize (jdel k m) = (if jhas m k then jsize m - 1 else jsize m)"
proof (induction m)
  case (Cons p m)
  obtain k' v' where p: "p = (k', v')" by (cases p)
  from Cons.prems p have wf: "k' \<notin> fst ` set m" "jwf m" by (auto simp: jwf_def)
  show ?case
  proof (cases "k' = k")
    case True
    with wf have "filter (\<lambda>(k', _). k \<noteq> k') m = m"
      by (intro filter_True) force
    with True p show ?thesis
      by (simp add: jsize_def jdel_def jhas_def jget_def AList.delete_eq)
  next
    case False
    with Cons.IH [OF wf(2)] p show ?thesis
      by (cases m) (auto simp: jsize_def jdel_def jhas_def jget_def AList.delete_eq)
  qed
qed (simp add: jsize_def jdel_def)

lemma jsize_jset_le: "jsize (jset k v m) \<le> Suc (jsize m)"
  by (simp add: jsize_jset)

lemma jdel_absent: "\<not> jhas m k \<Longrightarrow> jdel k m = m"
  by (simp add: jhas_def jget_def jdel_def map_of_eq_None_iff AList.delete_eq)
     (force intro: filter_True)

lemma jset_fresh: "\<not> jhas m k \<Longrightarrow> jset k v m = m @ [(k, v)]"
  by (induction m) (auto simp: jhas_def jget_def jset_def split: if_splits)

lemma jhas_append [simp]: "jhas (m @ m') k \<longleftrightarrow> jhas m k \<or> jhas m' k"
  by (auto simp: jhas_iff_keys jkeys_def)

lemma jhas_Cons [simp]: "jhas (p # m) k \<longleftrightarrow> k = fst p \<or> jhas m k"
  by (auto simp: jhas_iff_keys jkeys_def)

subsection \<open>Sums of the stored values\<close>

lemma jsum_empty [simp]: "jsum f [] = 0"
  by (simp add: jsum_def)

lemma jsum_jset:
  "jsum f (jset k v m) = jsum f m - (case jget m k of None \<Rightarrow> 0 | Some w \<Rightarrow> f w) + f v"
  by (induction m) (auto simp: jsum_def jset_def jget_def split: option.splits)

lemma jsum_jdel:
  "jwf m \<Longrightarrow> jsum f (jdel k m) = jsum f m - (case jget m k of None \<Rightarrow> 0 | Some w \<Rightarrow> f w)"
proof (induction m)
  case (Cons p m)
  obtain k' v' where p: "p = (k', v')" by (cases p)
  from Cons.prems p have wf: "k' \<notin> fst ` set m" "jwf m" by (auto simp: jwf_def)
  show ?case
  proof (cases "k' = k")
    case True
    with wf have "jdel k m = m" "jget m k = None"
      by (auto simp: jhas_def jget_def map_of_eq_None_iff intro!: jdel_absent)
    with True p show ?thesis by (simp add: jsum_def jdel_def jget_def)
  next
    case False
    with Cons.IH [OF wf(2)] p show ?thesis
      by (simp add: jsum_def jdel_def jget_def)
  qed
qed (simp add: jdel_def)

lemma jtotal_empty [simp]: "jtotal [] = 0"
  by (simp add: jtotal_def)

lemma jtotal_jset: "jtotal (jset k v m) = jtotal m - jget_or 0 m k + v"
  by (simp add: jtotal_def jsum_jset jget_or_def)

lemma jtotal_jdel: "jwf m \<Longrightarrow> jtotal (jdel k m) = jtotal m - jget_or 0 m k"
  by (simp add: jtotal_def jsum_jdel jget_or_def)

lemma jsum_nonneg: "(\<And>k v. (k, v) \<in> set m \<Longrightarrow> 0 \<le> f v) \<Longrightarrow> 0 \<le> jsum f m"
  by (force simp: jsum_def intro: sum_list_nonneg)

lemma jsum_ge_one:
  assumes "\<And>k v. (k, v) \<in> set m \<Longrightarrow> 0 \<le> f v" and "jget m k = Some w"
  shows "f w \<le> jsum f m"
  using assms
proof (induction m)
  case (Cons p m)
  have "0 \<le> jsum f m" using Cons.prems(1) by (force intro: jsum_nonneg)
  moreover have "\<And>k v. (k, v) \<in> set m \<Longrightarrow> 0 \<le> f v" using Cons.prems(1) by auto
  ultimately show ?case
    using Cons by (cases p) (fastforce simp: jget_def jsum_def split: if_splits)
qed simp

lemma jtotal_jvalues: "jtotal m = sum_list (jvalues m)"
  by (simp add: jtotal_def jsum_def jvalues_def case_prod_unfold)

text \<open>Summing what a map holds for a list of keys that covers its keys.\<close>

lemma sum_jget_or_cover:
  assumes "jwf m" and "set (jkeys m) \<subseteq> set ks" and "distinct ks"
  shows "(\<Sum>k \<leftarrow> ks. jget_or 0 m k) = jtotal m"
  using assms
proof (induction m)
  case (Cons p m)
  obtain k v where p: "p = (k, v)" by (cases p)
  from Cons.prems p have wf: "jwf m" and fresh: "\<not> jhas m k" and k: "k \<in> set ks"
    and sub: "set (jkeys m) \<subseteq> set ks"
    by (auto simp: jwf_def jkeys_def jhas_iff_keys)
  have "jget_or 0 (p # m) = (\<lambda>x. (if x = k then v else 0) + jget_or 0 m x)"
    using fresh p by (auto simp: fun_eq_iff jget_or_def jget_def jhas_def)
  then have "(\<Sum>x \<leftarrow> ks. jget_or 0 (p # m) x) =
      (\<Sum>x \<leftarrow> ks. if x = k then v else 0) + (\<Sum>x \<leftarrow> ks. jget_or 0 m x)"
    by (simp add: sum_list_addf)
  also have "(\<Sum>x \<leftarrow> ks. if x = k then v else 0) = v"
    using k Cons.prems(3) by (simp add: sum_list_distinct_conv_sum_set)
  finally show ?case
    using Cons.IH [OF wf sub Cons.prems(3)] p by (simp add: jtotal_def jsum_def)
next
  case Nil
  have "jget_or 0 ([] :: ('a \<times> int) list) = (\<lambda>_. 0)" by (simp add: fun_eq_iff)
  then show ?case by simp
qed

section \<open>The interface to a store of amounts\<close>

text \<open>
  What the monetary transitions rely on of a map of amounts: reading after writing, and how
  one write changes the total. \<open>write_all\<close> is the loop \<open>for (const [account, value] of next)
  balances.set(account, value)\<close> that ends every transition.
\<close>

locale value_store =
  fixes get :: "'m \<Rightarrow> 'k \<Rightarrow> int"
    and put :: "'k \<Rightarrow> int \<Rightarrow> 'm \<Rightarrow> 'm"
    and total :: "'m \<Rightarrow> int"
  assumes get_put: "get (put k v m) k' = (if k' = k then v else get m k')"
    and total_put: "total (put k v m) = total m - get m k + v"
begin

text \<open>Taking an amount from one account and adding it to another keeps the total.\<close>

lemma total_move:
  "total (put b (get (put a (get m a - x) m) b + x) (put a (get m a - x) m)) = total m"
  by (simp add: total_put get_put)

lemma get_fold_put:
  "distinct ks \<Longrightarrow> get (fold (\<lambda>k m. put k (new k) m) ks m) k' =
     (if k' \<in> set ks then new k' else get m k')"
  by (induction ks arbitrary: m) (auto simp: get_put)

lemma total_fold_put:
  "distinct ks \<Longrightarrow> total (fold (\<lambda>k m. put k (new k) m) ks m) =
     total m + (\<Sum>k \<leftarrow> ks. new k - get m k)"
proof (induction ks arbitrary: m)
  case (Cons k ks)
  then have "k \<notin> set ks" by simp
  then have "(\<Sum>x \<leftarrow> ks. new x - get (put k (new k) m) x) = (\<Sum>x \<leftarrow> ks. new x - get m x)"
    by (intro arg_cong [where f = sum_list] map_cong) (auto simp: get_put)
  with Cons show ?case by (simp add: total_put)
qed simp

text \<open>Writing back balances that differ from the old ones by deltas adding up to \<open>d\<close> changes
  the total by \<open>d\<close>.\<close>

lemma total_fold_deltas:
  assumes "distinct ks" and "\<And>k. k \<in> set ks \<Longrightarrow> new k = get m k + delta k"
  shows "total (fold (\<lambda>k m. put k (new k) m) ks m) = total m + (\<Sum>k \<leftarrow> ks. delta k)"
proof -
  have "(\<Sum>k \<leftarrow> ks. new k - get m k) = (\<Sum>k \<leftarrow> ks. delta k)"
    by (intro arg_cong [where f = sum_list] map_cong) (auto simp: assms(2))
  with total_fold_put [OF assms(1)] show ?thesis by simp
qed

end

text \<open>The chain's maps of amounts are such stores.\<close>

interpretation amounts: value_store "jget_or 0" jset jtotal
  by unfold_locales (simp_all add: jtotal_jset)

end
