(* ===== verification/AccountHistory.thy ===== *)
theory AccountHistory
  imports Single_Leaf Js_Map
begin

text \<open>
  \<open>blockchain/account-history.mjs\<close>: the history of an account, committed by the root of a tree of
  height 32 over the identifiers of its transactions. \<open>appendAccountHistory\<close> keeps only the count,
  the root and the frontier (the completed subtree of each height that waits for its sibling);
  \<open>AccountHistoryMerkleIndex\<close> keeps every node, to create proofs. The main results: both refine
  the list of identifiers with the root of its tree, so they always agree, created proofs verify,
  and a verified proof is for the entry that was committed at its index.
\<close>

section \<open>Commitments\<close>

datatype history_error =
    History_encoding codec_error
  | History_level_invalid
  | History_commitment_invalid
  | History_accumulator_invalid
  | History_capacity
  | History_transaction_id_invalid
  | History_frontier_incomplete
  | History_list_invalid
  | History_indexes_invalid
  | History_proof_invalid
  | History_root_mismatch
  | History_reordered

definition ACCOUNT_HISTORY :: merkle_domains where
  "ACCOUNT_HISTORY = \<lparr>mk_node = ''ACCOUNT_HISTORY_NODE'', mk_empty = ''ACCOUNT_HISTORY_EMPTY_LEAF'',
     mk_leaf = ''ACCOUNT_HISTORY_LEAF''\<rparr>"

definition ACCOUNT_HISTORY_FORMAT :: string where
  "ACCOUNT_HISTORY_FORMAT = ''nir-account-history-v2''"

definition ACCOUNT_HISTORY_PROOF_FORMAT :: string where
  "ACCOUNT_HISTORY_PROOF_FORMAT = ''nir-account-history-entry-v1''"

definition ACCOUNT_HISTORY_DEPTH :: nat where
  "ACCOUNT_HISTORY_DEPTH = 32"

definition MAX_HISTORY_COUNT :: int where
  "MAX_HISTORY_COUNT = 2 ^ 32"

definition MAX_ACCOUNT_HISTORY_PROOF_BYTES :: nat where
  "MAX_ACCOUNT_HISTORY_PROOF_BYTES = 64 * 1024"

definition EMPTY_ACCOUNT_HISTORY_ROOT :: "crypto \<Rightarrow> history_error + string" where
  "EMPTY_ACCOUNT_HISTORY_ROOT cr = map_err History_encoding (emptyHash cr ACCOUNT_HISTORY ACCOUNT_HISTORY_DEPTH)"

definition historyBit :: "int \<Rightarrow> nat \<Rightarrow> int" where
  "historyBit index level = (index div 2 ^ level) mod 2"

definition siblingPosition :: "nat \<Rightarrow> nat" where
  "siblingPosition position = (if position mod 2 = 0 then position + 1 else position - 1)"

definition entryObject :: "jsval \<Rightarrow> jsval \<Rightarrow> jsval" where
  "entryObject transactionId index = JObj [(''index'', index), (''transactionId'', transactionId)]"

definition historyLeaf :: "crypto \<Rightarrow> jsval \<Rightarrow> jsval \<Rightarrow> history_error + string" where
  "historyLeaf cr transactionId index =
     map_err History_encoding (hashObject cr (entryObject transactionId index) ''ACCOUNT_HISTORY_LEAF'')"

definition accountHistoryEmptyHash :: "crypto \<Rightarrow> jsval \<Rightarrow> history_error + string" where
  "accountHistoryEmptyHash cr level =
     (case safe_int level of
        None \<Rightarrow> Inl History_level_invalid
      | Some n \<Rightarrow> if n < 0 \<or> n > int ACCOUNT_HISTORY_DEPTH then Inl History_level_invalid
                  else map_err History_encoding (emptyHash cr ACCOUNT_HISTORY (nat n)))"

text \<open>The loop of \<open>rootFromFrontier\<close>, from \<open>level\<close> on; a frontier has \<open>DEPTH\<close> entries, some \<open>null\<close>.\<close>

fun frontierRoot :: "crypto \<Rightarrow> int \<Rightarrow> nat \<Rightarrow> string \<Rightarrow> jsval list \<Rightarrow> codec_error + string" where
  "frontierRoot cr n level value [] = Inr value"
| "frontierRoot cr n level value (v # frontier) =
     bind_r (if historyBit n level = 1 then nodeHash cr ACCOUNT_HISTORY v (JStr value)
             else bind_r (emptyHash cr ACCOUNT_HISTORY level) (\<lambda>e. nodeHash cr ACCOUNT_HISTORY (JStr value) (JStr e)))
       (\<lambda>h. frontierRoot cr n (level + 1) h frontier)"

definition rootFromFrontier :: "crypto \<Rightarrow> jsval list \<Rightarrow> int \<Rightarrow> history_error + string" where
  "rootFromFrontier cr frontier n =
     map_err History_encoding (bind_r (emptyHash cr ACCOUNT_HISTORY 0) (\<lambda>e. frontierRoot cr n 0 e frontier))"

definition emptyAccountHistory :: "crypto \<Rightarrow> history_error + jsobj" where
  "emptyAccountHistory cr = bind_r (EMPTY_ACCOUNT_HISTORY_ROOT cr) (\<lambda>root.
     Inr [(''count'', JNum 0), (''format'', JStr ACCOUNT_HISTORY_FORMAT), (''root'', JStr root)])"

definition emptyAccountHistoryAccumulator :: "crypto \<Rightarrow> history_error + jsobj" where
  "emptyAccountHistoryAccumulator cr = bind_r (emptyAccountHistory cr) (\<lambda>h.
     Inr (h @ [(''frontier'', JArr (replicate ACCOUNT_HISTORY_DEPTH JNull))]))"

definition normalizeAccountHistory :: "crypto \<Rightarrow> jsval \<Rightarrow> history_error + jsobj" where
  "normalizeAccountHistory cr history =
     bind_r (EMPTY_ACCOUNT_HISTORY_ROOT cr) (\<lambda>emptyRoot.
     case history of
       JObj h \<Rightarrow>
         (case safe_int (fld h ''count'') of
            None \<Rightarrow> Inl History_commitment_invalid
          | Some n \<Rightarrow>
              if fld h ''format'' \<noteq> JStr ACCOUNT_HISTORY_FORMAT \<or> n < 0 \<or> n > MAX_HISTORY_COUNT \<or>
                 \<not> is_hex64 (coerced (fld h ''root'')) \<or> (n = 0) \<noteq> (fld h ''root'' = JStr emptyRoot)
              then Inl History_commitment_invalid
              else Inr [(''count'', fld h ''count''), (''format'', JStr ACCOUNT_HISTORY_FORMAT), (''root'', fld h ''root'')])
     | _ \<Rightarrow> Inl History_commitment_invalid)"

fun frontierOk :: "int \<Rightarrow> nat \<Rightarrow> jsval list \<Rightarrow> bool" where
  "frontierOk n level [] = True"
| "frontierOk n level (v # frontier) =
     ((if historyBit n level = 1 then is_hex64 (coerced v) else v = JNull) \<and> frontierOk n (level + 1) frontier)"

definition normalizeAccountHistoryAccumulator :: "crypto \<Rightarrow> jsval \<Rightarrow> history_error + (jsobj \<times> int \<times> jsval list)" where
  "normalizeAccountHistoryAccumulator cr history =
     bind_r (normalizeAccountHistory cr history) (\<lambda>commitment.
     case (history, safe_int (fld commitment ''count'')) of
       (JObj h, Some n) \<Rightarrow>
         (case fld h ''frontier'' of
            JArr frontier \<Rightarrow>
              if length frontier \<noteq> ACCOUNT_HISTORY_DEPTH \<or> \<not> frontierOk n 0 frontier then Inl History_accumulator_invalid
              else bind_r (rootFromFrontier cr frontier n) (\<lambda>root.
                if JStr root \<noteq> fld commitment ''root'' then Inl History_accumulator_invalid
                else Inr (commitment @ [(''frontier'', JArr frontier)], n, frontier))
          | _ \<Rightarrow> Inl History_accumulator_invalid)
     | _ \<Rightarrow> Inl History_accumulator_invalid)"

text \<open>The loop of \<open>appendAccountHistory\<close> from \<open>level\<close> on, over the rest of the frontier.\<close>

fun pushFrontier :: "crypto \<Rightarrow> int \<Rightarrow> nat \<Rightarrow> string \<Rightarrow> jsval list \<Rightarrow> history_error + jsval list" where
  "pushFrontier cr n level value [] = Inr []"
| "pushFrontier cr n level value (v # frontier) =
     (if historyBit n level = 0 then Inr (JStr value # frontier)
      else if \<not> is_hex64 (coerced v) then Inl History_frontier_incomplete
      else bind_r (map_err History_encoding (nodeHash cr ACCOUNT_HISTORY v (JStr value))) (\<lambda>h.
           bind_r (pushFrontier cr n (level + 1) h frontier) (\<lambda>frontier'. Inr (JNull # frontier'))))"

definition appendAccountHistory :: "crypto \<Rightarrow> jsval \<Rightarrow> jsval \<Rightarrow> history_error + jsval" where
  "appendAccountHistory cr history transactionId =
     bind_r (normalizeAccountHistoryAccumulator cr history) (\<lambda>(current, n, frontier).
     if n \<ge> MAX_HISTORY_COUNT then Inl History_capacity
     else if \<not> is_hex64 (coerced transactionId) then Inl History_transaction_id_invalid
     else bind_r (historyLeaf cr transactionId (fld current ''count'')) (\<lambda>value.
          bind_r (pushFrontier cr n 0 value frontier) (\<lambda>frontier'.
          bind_r (rootFromFrontier cr frontier' (n + 1)) (\<lambda>root.
          Inr (JObj [(''count'', JNum (n + 1)), (''format'', JStr ACCOUNT_HISTORY_FORMAT),
            (''frontier'', JArr frontier'), (''root'', JStr root)])))))"

definition accountHistoryAccumulator :: "crypto \<Rightarrow> jsval \<Rightarrow> history_error + jsval" where
  "accountHistoryAccumulator cr transactionIds =
     (case transactionIds of
        JArr ids \<Rightarrow> bind_r (emptyAccountHistoryAccumulator cr) (\<lambda>h. foldM (appendAccountHistory cr) (JObj h) ids)
      | _ \<Rightarrow> Inl History_list_invalid)"

definition accountHistoryCommitment :: "crypto \<Rightarrow> jsval \<Rightarrow> history_error + jsobj" where
  "accountHistoryCommitment cr transactionIds =
     bind_r (accountHistoryAccumulator cr transactionIds) (normalizeAccountHistory cr)"

definition verifyAccountHistory :: "crypto \<Rightarrow> jsval \<Rightarrow> jsval \<Rightarrow> history_error + jsobj" where
  "verifyAccountHistory cr transactionIds expected =
     bind_r (accountHistoryCommitment cr transactionIds) (\<lambda>commitment.
     bind_r (normalizeAccountHistory cr expected) (\<lambda>normalized.
     if \<not> strict_eq (fld commitment ''count'') (fld normalized ''count'') \<or>
        \<not> strict_eq (fld commitment ''root'') (fld normalized ''root'')
     then Inl History_reordered else Inr commitment))"

section \<open>The index and its proofs\<close>

record history_index =
  hi_count :: nat
  hi_levels :: "(nat, string) jsmap list"

definition newIndex :: history_index where
  "newIndex = \<lparr>hi_count = 0, hi_levels = replicate (ACCOUNT_HISTORY_DEPTH + 1) []\<rparr>"

text \<open>The node at a position of a level is set, and with it the nodes above.\<close>

fun setNodes :: "crypto \<Rightarrow> nat \<Rightarrow> nat \<Rightarrow> string \<Rightarrow> (nat, string) jsmap list \<Rightarrow> codec_error + (nat, string) jsmap list" where
  "setNodes cr level position value [] = Inr []"
| "setNodes cr level position value [nodes] = Inr [jset position value nodes]"
| "setNodes cr level position value (nodes # next # levels) =
     (let nodes' = jset position value nodes in
      bind_r (case jget nodes' (siblingPosition position) of None \<Rightarrow> emptyHash cr ACCOUNT_HISTORY level | Some s \<Rightarrow> Inr s) (\<lambda>s.
      bind_r (if position mod 2 = 0 then nodeHash cr ACCOUNT_HISTORY (JStr value) (JStr s)
              else nodeHash cr ACCOUNT_HISTORY (JStr s) (JStr value)) (\<lambda>h.
      bind_r (setNodes cr (level + 1) (position div 2) h (next # levels)) (\<lambda>levels'. Inr (nodes' # levels')))))"

definition appendIndex :: "crypto \<Rightarrow> history_index \<Rightarrow> jsval \<Rightarrow> history_error + history_index" where
  "appendIndex cr index transactionId =
     (if int (hi_count index) \<ge> MAX_HISTORY_COUNT \<or> \<not> is_hex64 (coerced transactionId)
      then Inl History_transaction_id_invalid
      else bind_r (historyLeaf cr transactionId (JNum (int (hi_count index)))) (\<lambda>value.
           bind_r (map_err History_encoding (setNodes cr 0 (hi_count index) value (hi_levels index))) (\<lambda>levels.
           Inr \<lparr>hi_count = hi_count index + 1, hi_levels = levels\<rparr>)))"

definition historyIndex :: "crypto \<Rightarrow> jsval \<Rightarrow> history_error + history_index" where
  "historyIndex cr transactionIds =
     (case transactionIds of
        JArr ids \<Rightarrow> foldM (appendIndex cr) newIndex ids
      | _ \<Rightarrow> Inl History_list_invalid)"

definition indexCommitment :: "crypto \<Rightarrow> history_index \<Rightarrow> history_error + jsobj" where
  "indexCommitment cr index =
     bind_r (case jget (hi_levels index ! ACCOUNT_HISTORY_DEPTH) 0 of
               None \<Rightarrow> EMPTY_ACCOUNT_HISTORY_ROOT cr | Some r \<Rightarrow> Inr r) (\<lambda>root.
     Inr [(''count'', JNum (int (hi_count index))), (''format'', JStr ACCOUNT_HISTORY_FORMAT), (''root'', JStr root)])"

fun pathSiblings :: "crypto \<Rightarrow> nat \<Rightarrow> nat \<Rightarrow> (nat, string) jsmap list \<Rightarrow> codec_error + string list" where
  "pathSiblings cr level position (nodes # next # levels) =
     bind_r (case jget nodes (siblingPosition position) of None \<Rightarrow> emptyHash cr ACCOUNT_HISTORY level | Some s \<Rightarrow> Inr s) (\<lambda>s.
     bind_r (pathSiblings cr (level + 1) (position div 2) (next # levels)) (\<lambda>ss. Inr (s # ss)))"
| "pathSiblings cr level position _ = Inr []"

definition entryProof :: "nat \<Rightarrow> jsval \<Rightarrow> string list \<Rightarrow> jsval" where
  "entryProof n index siblings =
     JObj [(''count'', JNum (int n)), (''format'', JStr ACCOUNT_HISTORY_PROOF_FORMAT), (''index'', index),
       (''siblings'', JArr (map JStr siblings))]"

definition indexProofs :: "crypto \<Rightarrow> history_index \<Rightarrow> jsval \<Rightarrow> history_error + jsval list" where
  "indexProofs cr index indexes =
     (case indexes of
        JArr ixs \<Rightarrow>
          if \<not> list_all (\<lambda>v. case safe_int v of None \<Rightarrow> False | Some i \<Rightarrow> 0 \<le> i \<and> i < int (hi_count index)) ixs
          then Inl History_indexes_invalid
          else mapM (\<lambda>v. bind_r (map_err History_encoding (pathSiblings cr 0 (nat (the (safe_int v))) (hi_levels index)))
                 (\<lambda>siblings. Inr (entryProof (hi_count index) v siblings))) ixs
      | _ \<Rightarrow> Inl History_indexes_invalid)"

definition createAccountHistoryProofs :: "crypto \<Rightarrow> jsval \<Rightarrow> jsval \<Rightarrow> history_error + jsval list" where
  "createAccountHistoryProofs cr transactionIds indexes =
     bind_r (historyIndex cr transactionIds) (\<lambda>index. indexProofs cr index indexes)"

definition createAccountHistoryProof :: "crypto \<Rightarrow> jsval \<Rightarrow> jsval \<Rightarrow> history_error + jsval" where
  "createAccountHistoryProof cr transactionIds index =
     bind_r (createAccountHistoryProofs cr transactionIds (JArr [index])) (\<lambda>proofs. Inr (hd proofs))"

text \<open>The index as a number, and the siblings, of a proof that has the shape the first check demands.\<close>

definition entryFields :: "crypto \<Rightarrow> jsval \<Rightarrow> jsobj \<Rightarrow> jsval \<Rightarrow> history_error + (jsval \<times> nat \<times> jsval list)" where
  "entryFields cr transactionId commitment proof =
     (case proof of
        JObj p \<Rightarrow>
          (case (safe_int (fld p ''count''), safe_int (fld p ''index''), fld p ''siblings'') of
             (Some n, Some index, JArr siblings) \<Rightarrow>
               if \<not> is_hex64 (coerced transactionId) \<or> fld p ''format'' \<noteq> JStr ACCOUNT_HISTORY_PROOF_FORMAT \<or>
                  \<not> strict_eq (fld p ''count'') (fld commitment ''count'') \<or> index < 0 \<or> index \<ge> n \<or>
                  length siblings \<noteq> ACCOUNT_HISTORY_DEPTH \<or> \<not> list_all (\<lambda>hash. is_hex64 (coerced hash)) siblings
               then Inl History_proof_invalid
               else bind_r (map_err History_encoding (strictCanonicalJson (nfc cr) (to_cval proof))) (\<lambda>text.
                 if length (utf8 (map unat text)) > MAX_ACCOUNT_HISTORY_PROOF_BYTES then Inl History_proof_invalid
                 else Inr (fld p ''index'', nat index, siblings))
           | _ \<Rightarrow> Inl History_proof_invalid)
      | _ \<Rightarrow> Inl History_proof_invalid)"

definition verifyAccountHistoryEntry :: "crypto \<Rightarrow> jsval \<Rightarrow> jsval \<Rightarrow> jsval \<Rightarrow> history_error + jsobj" where
  "verifyAccountHistoryEntry cr transactionId proof expected =
     bind_r (normalizeAccountHistory cr expected) (\<lambda>commitment.
     bind_r (entryFields cr transactionId commitment proof) (\<lambda>(index, position, siblings).
     bind_r (historyLeaf cr transactionId index) (\<lambda>l.
     bind_r (map_err History_encoding (climb cr ACCOUNT_HISTORY l position siblings)) (\<lambda>value.
     if JStr value \<noteq> fld commitment ''root'' then Inl History_root_mismatch
     else Inr [(''index'', index), (''transactionId'', transactionId)]))))"

section \<open>Trees with the same root\<close>

text \<open>Without collisions, two trees of one height with one root have the same leaves.\<close>

lemma root_leaves:
  assumes "tree_domains D" and "inj_on (sha3_hex cr) B"
  shows "merkleRoot cr D d f = Inr root \<Longrightarrow> merkleRoot cr D d g = Inr root \<Longrightarrow> treeInputs cr D d f \<subseteq> B \<Longrightarrow>
    treeInputs cr D d g \<subseteq> B \<Longrightarrow> hashed_leaves cr D B f \<Longrightarrow> hashed_leaves cr D B g \<Longrightarrow> i < 2 ^ d \<Longrightarrow> f i = g i"
proof (induction d arbitrary: f g root i)
  case 0
  have "leaf_or_empty cr D B (f 0) root" "leaf_or_empty cr D B (g 0) root"
    using 0 by (auto simp: leaf_or_empty_def hashed_leaves_def split: option.splits)
  from leaf_or_empty_eq [OF this assms] 0 show ?case by simp
next
  case (Suc d)
  let ?f = "\<lambda>i. f (i + 2 ^ d)" and ?g = "\<lambda>i. g (i + 2 ^ d)"
  from Suc.prems(1) obtain l r where f: "merkleRoot cr D d f = Inr l" "merkleRoot cr D d ?f = Inr r"
      "hashObject cr (nodeObject (JStr l) (JStr r)) (mk_node D) = Inr root"
    by (auto simp: bind_r_Inr_iff nodeHash_def)
  from Suc.prems(2) obtain l' r' where g: "merkleRoot cr D d g = Inr l'" "merkleRoot cr D d ?g = Inr r'"
      "hashObject cr (nodeObject (JStr l') (JStr r')) (mk_node D) = Inr root"
    by (auto simp: bind_r_Inr_iff nodeHash_def)
  have B: "hashInput cr (nodeObject (JStr l) (JStr r)) (mk_node D) \<subseteq> B" "treeInputs cr D d f \<subseteq> B" "treeInputs cr D d ?f \<subseteq> B"
      "hashInput cr (nodeObject (JStr l') (JStr r')) (mk_node D) \<subseteq> B" "treeInputs cr D d g \<subseteq> B" "treeInputs cr D d ?g \<subseteq> B"
    using Suc.prems(3,4) f g by auto
  have "canon (to_cval (nodeObject (JStr l) (JStr r))) = canon (to_cval (nodeObject (JStr l') (JStr r')))"
    using same_hash [OF f(3) g(3) assms(2) B(1,4)] ..
  from node_fields [OF this] have eq: "l' = l" "r' = r" by simp_all
  have leaves: "hashed_leaves cr D B ?f" "hashed_leaves cr D B ?g" using Suc.prems(5,6) by (auto simp: hashed_leaves_def)
  show ?case
  proof (cases "i < 2 ^ d")
    case True
    with Suc.IH [OF f(1) g(1) [unfolded eq] B(2,5) Suc.prems(5,6)] show ?thesis by blast
  next
    case False
    with Suc.IH [OF f(2) g(2) [unfolded eq] B(3,6) leaves, of "i - 2 ^ d"] Suc.prems(7) show ?thesis by simp
  qed
qed

section \<open>The frontier\<close>

lemma history_domains: "tree_domains ACCOUNT_HISTORY" "is_domain ''ACCOUNT_HISTORY_LEAF''"
  by code_simp+

lemma account_history_simps [simp]: "mk_node ACCOUNT_HISTORY = ''ACCOUNT_HISTORY_NODE''"
  "mk_empty ACCOUNT_HISTORY = ''ACCOUNT_HISTORY_EMPTY_LEAF''" "mk_leaf ACCOUNT_HISTORY = ''ACCOUNT_HISTORY_LEAF''"
  by (simp_all add: ACCOUNT_HISTORY_def)

lemmas history_node = node_total [OF _ history_domains(1)]
lemmas history_empty = empty_total [OF _ history_domains(1)]

abbreviation historyAbove :: "crypto \<Rightarrow> nat \<Rightarrow> string list \<Rightarrow> string list" where
  "historyAbove cr level \<equiv> pairs (nodeOf cr ACCOUNT_HISTORY) (emptyOf cr ACCOUNT_HISTORY level)"

abbreviation historyRoot :: "crypto \<Rightarrow> nat \<Rightarrow> nat \<Rightarrow> string list \<Rightarrow> string" where
  "historyRoot cr d level xs \<equiv> rootOf cr ACCOUNT_HISTORY d level (leavesOf xs)"

text \<open>The subtrees that are complete, and of each height the one that has no sibling.\<close>

fun completed :: "('a \<Rightarrow> 'a \<Rightarrow> 'a) \<Rightarrow> 'a list \<Rightarrow> 'a list" where
  "completed N (x # y # xs) = N x y # completed N xs"
| "completed N _ = []"

primrec frontierOf :: "('a \<Rightarrow> 'a \<Rightarrow> 'a) \<Rightarrow> nat \<Rightarrow> 'a list \<Rightarrow> 'a option list" where
  "frontierOf N 0 xs = []"
| "frontierOf N (Suc d) xs = (if odd (length xs) then Some (last xs) else None) # frontierOf N d (completed N xs)"

primrec slot :: "string option \<Rightarrow> jsval" where
  "slot None = JNull"
| "slot (Some x) = JStr x"

lemma length_completed [simp]: "length (completed N xs) = length xs div 2"
  by (induction N xs rule: completed.induct) simp_all

lemma completed_snoc: "completed N (xs @ [v]) = (if odd (length xs) then completed N xs @ [N (last xs) v] else completed N xs)"
proof (induction xs rule: induct_list012)
  case (3 x y zs)
  then show ?case by (cases zs) auto
qed simp_all

lemma pairs_snoc: "pairs N e (xs @ [v]) = completed N xs @ [if odd (length xs) then N (last xs) v else N v e]"
proof (induction xs rule: induct_list012)
  case (3 x y zs)
  then show ?case by (cases zs) auto
qed simp_all

lemma completed_take: "p \<le> length xs \<Longrightarrow> completed N (take p xs) = take (p div 2) (pairs N e xs)"
proof (induction xs arbitrary: p rule: induct_list012)
  case (2 x)
  then show ?case by (cases p) auto
next
  case (3 x y zs)
  consider "p = 0" | "p = 1" | q where "p = q + 2" by (metis One_nat_def add_2_eq_Suc' not0_implies_Suc)
  then show ?case
  proof cases
    case (3 q)
    with "3.IH"(1) [of q] "3.prems" show ?thesis by simp
  qed simp_all
qed simp

lemma frontier_nil [simp]: "frontierOf N d [] = replicate d None"
  by (induction d) simp_all

lemma length_frontier [simp]: "length (frontierOf N d xs) = d"
  by (induction d arbitrary: xs) simp_all

lemma completed_hex: "sound_hash cr \<Longrightarrow> list_all is_hex64 xs \<Longrightarrow> list_all is_hex64 (completed (nodeOf cr ACCOUNT_HISTORY) xs)"
  by (induction xs rule: induct_list012) (simp_all add: history_node)

lemma last_hex: "list_all is_hex64 xs \<Longrightarrow> odd (length xs) \<Longrightarrow> is_hex64 (last xs)"
  by (cases "xs = []") (auto simp: list_all_iff)

lemma bit_length: "n div 2 ^ level = int (length xs) \<Longrightarrow> historyBit n level = (if odd (length xs) then 1 else 0)"
  by (simp add: historyBit_def) presburger

lemma next_length: "n div 2 ^ level = int (length xs) \<Longrightarrow> n div 2 ^ Suc level = int (length (completed N xs))"
  using zdiv_zmult2_eq [of 2 n "2 ^ level"] by (simp add: zdiv_int mult.commute)

lemma frontier_root:
  assumes "sound_hash cr"
  shows "list_all is_hex64 xs \<Longrightarrow> is_hex64 v \<Longrightarrow> n div 2 ^ level = int (length xs) \<Longrightarrow> length xs < 2 ^ d \<Longrightarrow>
    frontierRoot cr n level v (map slot (frontierOf (nodeOf cr ACCOUNT_HISTORY) d xs)) =
    Inr (historyRoot cr d level (xs @ [v]))"
proof (induction d arbitrary: level xs v)
  case 0
  then show ?case by (simp add: leavesOf_def)
next
  case (Suc d)
  let ?N = "nodeOf cr ACCOUNT_HISTORY" let ?e = "emptyOf cr ACCOUNT_HISTORY level"
  let ?h = "if odd (length xs) then ?N (last xs) v else ?N v ?e"
  have h: "(if historyBit n level = 1 then nodeHash cr ACCOUNT_HISTORY (slot (if odd (length xs) then Some (last xs) else None)) (JStr v)
        else bind_r (emptyHash cr ACCOUNT_HISTORY level) (\<lambda>e. nodeHash cr ACCOUNT_HISTORY (JStr v) (JStr e))) = Inr ?h" "is_hex64 ?h"
    using history_node [OF assms] history_empty [OF assms, of level] last_hex [OF Suc.prems(1)] Suc.prems(2)
    by (simp_all add: bit_length [OF Suc.prems(3)])
  have "length (completed ?N xs) < 2 ^ d" using Suc.prems(4) by simp
  from Suc.IH [OF completed_hex [OF assms Suc.prems(1)] h(2) next_length [OF Suc.prems(3)] this] h(1)
  show ?case by (simp add: hashes.root_pairs pairs_snoc del: treeRoot.simps)
qed

lemma push_frontier:
  assumes "sound_hash cr"
  shows "list_all is_hex64 xs \<Longrightarrow> is_hex64 v \<Longrightarrow> n div 2 ^ level = int (length xs) \<Longrightarrow> length xs + 1 < 2 ^ d \<Longrightarrow>
    pushFrontier cr n level v (map slot (frontierOf (nodeOf cr ACCOUNT_HISTORY) d xs)) =
    Inr (map slot (frontierOf (nodeOf cr ACCOUNT_HISTORY) d (xs @ [v])))"
proof (induction d arbitrary: level xs v)
  case (Suc d)
  let ?N = "nodeOf cr ACCOUNT_HISTORY"
  show ?case
  proof (cases "odd (length xs)")
    case True
    then have short: "length (completed ?N xs) + 1 < 2 ^ d" using Suc.prems(4) by (auto elim!: oddE)
    note last = last_hex [OF Suc.prems(1) True]
    from Suc.IH [OF completed_hex [OF assms Suc.prems(1)] history_node(2) [OF assms last Suc.prems(2)] next_length [OF Suc.prems(3)] short]
    show ?thesis using True last history_node(1) [OF assms last Suc.prems(2)] bit_length [OF Suc.prems(3)]
      by (simp add: completed_snoc)
  next
    case False
    then show ?thesis using bit_length [OF Suc.prems(3)] by (simp add: completed_snoc)
  qed
qed simp

lemma frontier_ok:
  assumes "sound_hash cr"
  shows "list_all is_hex64 xs \<Longrightarrow> n div 2 ^ level = int (length xs) \<Longrightarrow>
    frontierOk n level (map slot (frontierOf (nodeOf cr ACCOUNT_HISTORY) d xs))"
proof (induction d arbitrary: level xs)
  case (Suc d)
  from Suc.IH [OF completed_hex [OF assms Suc.prems(1)] next_length [OF Suc.prems(2)]]
  show ?case using last_hex [OF Suc.prems(1)] bit_length [OF Suc.prems(2)] by simp
qed simp

section \<open>The accumulator refines the list of identifiers\<close>

definition entryHash :: "crypto \<Rightarrow> nat \<Rightarrow> string \<Rightarrow> string" where
  "entryHash cr i transactionId = sha3_hex cr (payload ''ACCOUNT_HISTORY_LEAF'' (entryObject (JStr transactionId) (JNum (int i))))"

definition entryLeaves :: "crypto \<Rightarrow> string list \<Rightarrow> string list" where
  "entryLeaves cr ids = map (\<lambda>i. entryHash cr i (ids ! i)) [0..<length ids]"

text \<open>The accumulator \<open>h\<close> stands for the list of identifiers: its root is that of their tree.\<close>

definition represents :: "crypto \<Rightarrow> string list \<Rightarrow> jsobj \<Rightarrow> bool" where
  "represents cr ids h \<longleftrightarrow>
     fld h ''count'' = JNum (int (length ids)) \<and> fld h ''format'' = JStr ACCOUNT_HISTORY_FORMAT \<and>
     fld h ''frontier'' = JArr (map slot (frontierOf (nodeOf cr ACCOUNT_HISTORY) ACCOUNT_HISTORY_DEPTH (entryLeaves cr ids))) \<and>
     fld h ''root'' = JStr (historyRoot cr ACCOUNT_HISTORY_DEPTH 0 (entryLeaves cr ids))"

text \<open>The byte strings that are hashed for the tree of the identifiers, and for the empty tree.\<close>

definition historyInputs :: "crypto \<Rightarrow> string list \<Rightarrow> bytes set" where
  "historyInputs cr ids =
     (\<Union>i < length ids. hashInput cr (entryObject (JStr (ids ! i)) (JNum (int i))) ''ACCOUNT_HISTORY_LEAF'') \<union>
     treeInputs cr ACCOUNT_HISTORY ACCOUNT_HISTORY_DEPTH (leavesOf (entryLeaves cr ids)) \<union>
     treeInputs cr ACCOUNT_HISTORY ACCOUNT_HISTORY_DEPTH (\<lambda>_. None)"

definition hex_ids :: "string list \<Rightarrow> bool" where
  "hex_ids ids \<longleftrightarrow> list_all is_hex64 ids \<and> length ids \<le> 2 ^ 32"

lemma leavesOf_Nil: "leavesOf [] = (\<lambda>i. None)"
  by (simp add: leavesOf_def fun_eq_iff)

lemma length_entryLeaves [simp]: "length (entryLeaves cr ids) = length ids"
  by (simp add: entryLeaves_def)

lemma entryLeaves_snoc: "entryLeaves cr (ids @ [i]) = entryLeaves cr ids @ [entryHash cr (length ids) i]"
  by (simp add: entryLeaves_def nth_append)

lemma entry_keys: "ascii_string ''index''" "ascii_string ''transactionId''" "ascii_string ''count''" "ascii_string ''format''"
  "ascii_string ''siblings''" "ascii_string ACCOUNT_HISTORY_PROOF_FORMAT"
  by code_simp+

lemma entry_json: "is_hex64 t \<Longrightarrow> i \<le> 2 ^ 32 \<Longrightarrow> json_ok (entryObject (JStr t) (JNum (int i)))"
  by (simp add: json_ok_def entryObject_def entry_keys hex_ascii hex_length MAX_DEPTH_def MAX_CONTAINER_ENTRIES_def
      MAX_ENCODED_BYTES_def is_safe_int_def MAX_SAFE_INTEGER_def)

lemma entry_total:
  assumes "sound_hash cr" and "is_hex64 t" and "i \<le> 2 ^ 32"
  shows "historyLeaf cr (JStr t) (JNum (int i)) = Inr (entryHash cr i t)" and "is_hex64 (entryHash cr i t)"
  using hash_total [OF assms(1) entry_json [OF assms(2,3)] history_domains(2)] by (simp_all add: historyLeaf_def entryHash_def)

lemma entry_leaves_hex: "sound_hash cr \<Longrightarrow> list_all is_hex64 (entryLeaves cr ids)"
  by (auto simp: entryLeaves_def entryHash_def list_all_iff sound_hash_def)

lemma empty_history_root: "sound_hash cr \<Longrightarrow> EMPTY_ACCOUNT_HISTORY_ROOT cr = Inr (emptyOf cr ACCOUNT_HISTORY ACCOUNT_HISTORY_DEPTH)"
  by (simp add: EMPTY_ACCOUNT_HISTORY_ROOT_def history_empty)

lemma entry_hashed:
  assumes "sound_hash cr" and "hex_ids ids" and "historyInputs cr ids \<subseteq> B"
  shows "hashed_leaves cr ACCOUNT_HISTORY B (leavesOf (entryLeaves cr ids))"
proof -
  have "\<exists>w. hashObject cr w ''ACCOUNT_HISTORY_LEAF'' = Inr (entryHash cr i (ids ! i)) \<and> hashInput cr w ''ACCOUNT_HISTORY_LEAF'' \<subseteq> B"
    if "i < length ids" for i
  proof (intro exI conjI)
    have "is_hex64 (ids ! i)" "i \<le> 2 ^ 32" using assms(2) that by (auto simp: hex_ids_def list_all_length)
    from entry_total(1) [OF assms(1) this]
    show "hashObject cr (entryObject (JStr (ids ! i)) (JNum (int i))) ''ACCOUNT_HISTORY_LEAF'' = Inr (entryHash cr i (ids ! i))"
      by (simp add: historyLeaf_def map_err_Inr_iff)
    show "hashInput cr (entryObject (JStr (ids ! i)) (JNum (int i))) ''ACCOUNT_HISTORY_LEAF'' \<subseteq> B"
      using assms(3) that by (auto simp: historyInputs_def)
  qed
  then show ?thesis by (auto simp: hashed_leaves_def leavesOf_def entryLeaves_def split: if_splits)
qed

lemma history_root:
  "sound_hash cr \<Longrightarrow> merkleRoot cr ACCOUNT_HISTORY ACCOUNT_HISTORY_DEPTH (leavesOf (entryLeaves cr ids)) =
     Inr (historyRoot cr ACCOUNT_HISTORY_DEPTH 0 (entryLeaves cr ids))"
  using merkleRoot_total [OF _ history_domains(1)] entry_leaves_hex by (simp add: hex_leavesOf)

text \<open>Only the empty history has the root of the empty history.\<close>

lemma nonempty_root:
  assumes "sound_hash cr" and "hex_ids ids" and "ids \<noteq> [] \<Longrightarrow> inj_on (sha3_hex cr) (historyInputs cr ids)"
  shows "ids = [] \<longleftrightarrow> historyRoot cr ACCOUNT_HISTORY_DEPTH 0 (entryLeaves cr ids) = emptyOf cr ACCOUNT_HISTORY ACCOUNT_HISTORY_DEPTH"
proof
  assume "ids = []"
  then have "leavesOf (entryLeaves cr ids) = (\<lambda>i. None)" by (simp add: leavesOf_Nil entryLeaves_def)
  then show "historyRoot cr ACCOUNT_HISTORY_DEPTH 0 (entryLeaves cr ids) = emptyOf cr ACCOUNT_HISTORY ACCOUNT_HISTORY_DEPTH"
    using hashes.root_empty [of cr ACCOUNT_HISTORY ACCOUNT_HISTORY_DEPTH 0] by simp
next
  let ?e = "emptyOf cr ACCOUNT_HISTORY ACCOUNT_HISTORY_DEPTH"
  assume eq: "historyRoot cr ACCOUNT_HISTORY_DEPTH 0 (entryLeaves cr ids) = ?e"
  have empty: "merkleRoot cr ACCOUNT_HISTORY ACCOUNT_HISTORY_DEPTH (\<lambda>_. None) = Inr ?e"
    using merkleRoot_total [OF assms(1) history_domains(1), of "\<lambda>_. None" ACCOUNT_HISTORY_DEPTH]
      hashes.root_empty [of cr ACCOUNT_HISTORY ACCOUNT_HISTORY_DEPTH 0] by (simp add: hex_leaves_def)
  have root: "merkleRoot cr ACCOUNT_HISTORY ACCOUNT_HISTORY_DEPTH (leavesOf (entryLeaves cr ids)) = Inr ?e"
    using history_root [OF assms(1), of ids] eq by simp
  have hashed: "hashed_leaves cr ACCOUNT_HISTORY (historyInputs cr ids) (leavesOf (entryLeaves cr ids))"
    by (rule entry_hashed [OF assms(1,2) order_refl])
  show "ids = []"
  proof (rule ccontr)
    assume "ids \<noteq> []"
    from root_leaves [OF history_domains(1) assms(3) [OF this], of ACCOUNT_HISTORY_DEPTH "leavesOf (entryLeaves cr ids)" ?e "\<lambda>_. None" 0]
    have "leavesOf (entryLeaves cr ids) 0 = None"
      using empty root hashed by (auto simp: historyInputs_def hashed_leaves_def)
    with \<open>ids \<noteq> []\<close> show False by (auto simp: leavesOf_def split: if_splits)
  qed
qed

lemma normalize_Inr: "normalizeAccountHistory cr (JObj h) = Inr c \<Longrightarrow> fld c ''root'' = fld h ''root''"
  unfolding normalizeAccountHistory_def
  by (cases "safe_int (fld h ''count'')") (auto simp: bind_r_Inr_iff if_Inl_Inr_iff fld_def [of "_ # _"])

text \<open>An accumulator that stands for a list passes its normalization.\<close>

lemma represents_root:
  assumes "sound_hash cr" and "length ids < 2 ^ 32"
  shows "rootFromFrontier cr (map slot (frontierOf (nodeOf cr ACCOUNT_HISTORY) ACCOUNT_HISTORY_DEPTH (entryLeaves cr ids)))
    (int (length ids)) = Inr (historyRoot cr ACCOUNT_HISTORY_DEPTH 0 (entryLeaves cr ids))"
proof -
  let ?e = "emptyOf cr ACCOUNT_HISTORY 0" and ?xs = "entryLeaves cr ids"
  have "length ?xs < 2 ^ ACCOUNT_HISTORY_DEPTH" using assms(2) by (simp add: ACCOUNT_HISTORY_DEPTH_def)
  then have "frontierRoot cr (int (length ids)) 0 ?e (map slot (frontierOf (nodeOf cr ACCOUNT_HISTORY) ACCOUNT_HISTORY_DEPTH ?xs)) =
      Inr (historyRoot cr ACCOUNT_HISTORY_DEPTH 0 (?xs @ [?e]))"
    using history_empty [OF assms(1), of 0] by (intro frontier_root [OF assms(1) entry_leaves_hex [OF assms(1)]]) simp_all
  also have "historyRoot cr ACCOUNT_HISTORY_DEPTH 0 (?xs @ [?e]) = historyRoot cr ACCOUNT_HISTORY_DEPTH 0 ?xs"
    by (rule hashes.root_empty_leaf) fact
  finally show ?thesis using history_empty [OF assms(1), of 0] by (simp add: rootFromFrontier_def del: emptyHash.simps emptyOf.simps)
qed

lemma represents_normal:
  assumes "sound_hash cr" and "hex_ids ids" and "ids \<noteq> [] \<Longrightarrow> inj_on (sha3_hex cr) (historyInputs cr ids)"
    and "fld h ''count'' = JNum (int (length ids))" and "fld h ''format'' = JStr ACCOUNT_HISTORY_FORMAT"
    and "fld h ''root'' = JStr (historyRoot cr ACCOUNT_HISTORY_DEPTH 0 (entryLeaves cr ids))"
  shows "normalizeAccountHistory cr (JObj h) = Inr [(''count'', JNum (int (length ids))), (''format'', JStr ACCOUNT_HISTORY_FORMAT),
    (''root'', JStr (historyRoot cr ACCOUNT_HISTORY_DEPTH 0 (entryLeaves cr ids)))]"
proof -
  have n: "length ids \<le> 2 ^ 32" using assms(2) by (simp add: hex_ids_def)
  then have "safe_int (JNum (int (length ids))) = Some (int (length ids))" by (simp add: MAX_SAFE_INTEGER_def)
  moreover have "is_hex64 (historyRoot cr ACCOUNT_HISTORY_DEPTH 0 (entryLeaves cr ids))"
    using root_hex [OF assms(1) history_domains(1)] entry_leaves_hex [OF assms(1)] by (simp add: hex_leavesOf)
  moreover have "int (length ids) \<le> MAX_HISTORY_COUNT" using n by (simp add: MAX_HISTORY_COUNT_def)
  ultimately show ?thesis
    using nonempty_root [OF assms(1,2,3)] assms(4-6)
    by (simp add: normalizeAccountHistory_def empty_history_root [OF assms(1)] del: safe_int.simps)
qed

lemma represents_empty:
  assumes "sound_hash cr"
  obtains h where "emptyAccountHistoryAccumulator cr = Inr h" and "represents cr [] h"
proof -
  have "leavesOf (entryLeaves cr []) = (\<lambda>i. None)" by (simp add: leavesOf_Nil entryLeaves_def)
  then show thesis
    using that hashes.root_empty [of cr ACCOUNT_HISTORY ACCOUNT_HISTORY_DEPTH 0]
    by (simp add: emptyAccountHistoryAccumulator_def emptyAccountHistory_def empty_history_root [OF assms] represents_def fld_def
        entryLeaves_def)
qed

lemma represents_append:
  assumes "sound_hash cr" and "represents cr ids h" and "hex_ids (ids @ [i])" and "length ids + 1 < 2 ^ 32"
    and "ids \<noteq> [] \<Longrightarrow> inj_on (sha3_hex cr) (historyInputs cr ids)"
  obtains h' where "appendAccountHistory cr (JObj h) (JStr i) = Inr (JObj h')" and "represents cr (ids @ [i]) h'"
proof -
  let ?F = "frontierOf (nodeOf cr ACCOUNT_HISTORY) ACCOUNT_HISTORY_DEPTH" and ?n = "int (length ids)"
  let ?xs = "entryLeaves cr ids" and ?v = "entryHash cr (length ids) i"
  have ids: "hex_ids ids" "is_hex64 i" using assms(3) by (auto simp: hex_ids_def)
  have r: "fld h ''count'' = JNum ?n" "fld h ''format'' = JStr ACCOUNT_HISTORY_FORMAT" "fld h ''frontier'' = JArr (map slot (?F ?xs))"
      "fld h ''root'' = JStr (historyRoot cr ACCOUNT_HISTORY_DEPTH 0 ?xs)"
    using assms(2) by (auto simp: represents_def)
  note normal = represents_normal [OF assms(1) ids(1) assms(5) r(1,2,4)]
  have n: "safe_int (JNum ?n) = Some ?n" using assms(4) by (simp add: MAX_SAFE_INTEGER_def)
  have "frontierOk ?n 0 (map slot (?F ?xs))"
    using frontier_ok [OF assms(1) entry_leaves_hex [OF assms(1)], of ?n 0 ids] by simp
  moreover have "rootFromFrontier cr (map slot (?F ?xs)) ?n = Inr (historyRoot cr ACCOUNT_HISTORY_DEPTH 0 ?xs)"
    using represents_root [OF assms(1), of ids] assms(4) by simp
  ultimately have acc: "normalizeAccountHistoryAccumulator cr (JObj h) =
      Inr ([(''count'', JNum ?n), (''format'', JStr ACCOUNT_HISTORY_FORMAT), (''root'', JStr (historyRoot cr ACCOUNT_HISTORY_DEPTH 0 ?xs)),
        (''frontier'', JArr (map slot (?F ?xs)))], ?n, map slot (?F ?xs))"
    using n r(3) by (simp add: normalizeAccountHistoryAccumulator_def normal fld_def [of "_ # _"] del: safe_int.simps)
  have leaf: "historyLeaf cr (JStr i) (JNum ?n) = Inr ?v" "is_hex64 ?v"
    using entry_total [OF assms(1) ids(2), of "length ids"] assms(4) by simp_all
  have push: "pushFrontier cr ?n 0 ?v (map slot (?F ?xs)) = Inr (map slot (?F (?xs @ [?v])))"
    using assms(4) by (intro push_frontier [OF assms(1) entry_leaves_hex [OF assms(1)] leaf(2)]) (simp_all add: ACCOUNT_HISTORY_DEPTH_def)
  have "rootFromFrontier cr (map slot (?F (?xs @ [?v]))) (?n + 1) = Inr (historyRoot cr ACCOUNT_HISTORY_DEPTH 0 (?xs @ [?v]))"
    using represents_root [OF assms(1), of "ids @ [i]"] assms(4) by (simp add: entryLeaves_snoc add.commute)
  then have "appendAccountHistory cr (JObj h) (JStr i) = Inr (JObj [(''count'', JNum (?n + 1)), (''format'', JStr ACCOUNT_HISTORY_FORMAT),
      (''frontier'', JArr (map slot (?F (?xs @ [?v])))), (''root'', JStr (historyRoot cr ACCOUNT_HISTORY_DEPTH 0 (?xs @ [?v])))])"
    using acc leaf push ids(2) assms(4) by (simp add: appendAccountHistory_def fld_def [of "_ # _"] MAX_HISTORY_COUNT_def)
  then show thesis by (rule that) (simp add: represents_def fld_def entryLeaves_snoc add.commute)
qed

section \<open>The index refines it too\<close>

text \<open>The levels of an index hold the nodes over a list, and nothing else.\<close>

fun holds_levels :: "crypto \<Rightarrow> nat \<Rightarrow> string list \<Rightarrow> (nat, string) jsmap list \<Rightarrow> bool" where
  "holds_levels cr level xs [] \<longleftrightarrow> True"
| "holds_levels cr level xs (nodes # levels) \<longleftrightarrow>
     (\<forall>p. jget nodes p = leavesOf xs p) \<and> holds_levels cr (Suc level) (historyAbove cr level xs) levels"

definition indexes :: "crypto \<Rightarrow> string list \<Rightarrow> history_index \<Rightarrow> bool" where
  "indexes cr ids index \<longleftrightarrow> hi_count index = length ids \<and> length (hi_levels index) = ACCOUNT_HISTORY_DEPTH + 1 \<and>
     holds_levels cr 0 (entryLeaves cr ids) (hi_levels index)"

lemma half_bounds: "p \<le> n \<Longrightarrow> n \<le> p + 1 \<Longrightarrow> p div 2 \<le> (n + 1) div 2 \<and> (n + 1) div 2 \<le> p div (2 :: nat) + 1"
  by presburger

lemma set_nodes:
  assumes "sound_hash cr"
  shows "holds_levels cr level xs levels \<Longrightarrow> list_all is_hex64 xs \<Longrightarrow> is_hex64 v \<Longrightarrow> p \<le> length xs \<Longrightarrow> length xs \<le> p + 1 \<Longrightarrow>
    \<exists>levels'. setNodes cr level p v levels = Inr levels' \<and> length levels' = length levels \<and>
      holds_levels cr level (take p xs @ [v]) levels'"
proof (induction levels arbitrary: level xs p v rule: induct_list012)
  case (2 nodes)
  then show ?case by (auto simp: leavesOf_def nth_append min_absorb2)
next
  case (3 nodes "next" levels)
  let ?N = "nodeOf cr ACCOUNT_HISTORY" and ?e = "emptyOf cr ACCOUNT_HISTORY level"
  let ?xs = "take p xs @ [v]" and ?nodes = "jset p v nodes"
  let ?s = "if even p then ?e else xs ! (p - 1)" let ?h = "if even p then ?N v ?s else ?N ?s v"
  have len: "length (take p xs) = p" using "3.prems"(4) by simp
  have nodes: "\<forall>q. jget ?nodes q = leavesOf ?xs q"
    using "3.prems"(1,4,5) by (auto simp: leavesOf_def nth_append min_absorb2)
  then have "jget ?nodes (siblingPosition p) = (if even p then None else Some ?s)"
    using "3.prems"(4) by (auto simp: siblingPosition_def leavesOf_def nth_append even_iff_mod_2_eq_zero min_absorb2)
  then have s: "(case jget ?nodes (siblingPosition p) of None \<Rightarrow> emptyHash cr ACCOUNT_HISTORY level | Some s \<Rightarrow> Inr s) = Inr ?s"
      "is_hex64 ?s"
    using history_empty [OF assms, of level] "3.prems"(2,4) by (auto simp: list_all_length elim!: oddE)
  then have h: "(if p mod 2 = 0 then nodeHash cr ACCOUNT_HISTORY (JStr v) (JStr ?s) else nodeHash cr ACCOUNT_HISTORY (JStr ?s) (JStr v)) =
      Inr ?h" "is_hex64 ?h"
    using history_node [OF assms "3.prems"(3) s(2)] history_node [OF assms s(2) "3.prems"(3)]
    by (cases "even p"; simp add: even_iff_mod_2_eq_zero)+
  have "last (take p xs) = xs ! (p - 1)" if "odd p"
    using that "3.prems"(4) len by (subst last_conv_nth) (auto elim!: oddE)
  then have above: "historyAbove cr level ?xs = take (p div 2) (historyAbove cr level xs) @ [?h]"
    using completed_take [OF "3.prems"(4)] len by (simp add: pairs_snoc)
  have held: "holds_levels cr (level + 1) (historyAbove cr level xs) (next # levels)" using "3.prems"(1) by simp
  have bounds: "p div 2 \<le> length (historyAbove cr level xs)" "length (historyAbove cr level xs) \<le> p div 2 + 1"
    using half_bounds [OF "3.prems"(4,5)] by simp_all
  from "3.IH"(2) [OF held pairs_hex [OF assms history_domains(1) "3.prems"(2)] h(2) bounds]
  obtain levels' where "setNodes cr (level + 1) (p div 2) ?h (next # levels) = Inr levels'" "length levels' = length (next # levels)"
      "holds_levels cr (Suc level) (take (p div 2) (historyAbove cr level xs) @ [?h]) levels'"
    by auto
  with s(1) h(1) nodes above show ?case by (intro exI [of _ "?nodes # levels'"]) (simp add: Let_def)
qed simp

lemma indexes_empty: "indexes cr [] newIndex"
proof -
  have "holds_levels cr level [] (replicate d [])" for level d
    by (induction d arbitrary: level) (simp_all add: leavesOf_Nil)
  then show ?thesis by (simp add: indexes_def newIndex_def entryLeaves_def leavesOf_def)
qed

lemma indexes_append:
  assumes "sound_hash cr" and "indexes cr ids index" and "hex_ids (ids @ [i])"
  obtains index' where "appendIndex cr index (JStr i) = Inr index'" and "indexes cr (ids @ [i]) index'"
proof -
  let ?v = "entryHash cr (length ids) i" and ?xs = "entryLeaves cr ids"
  have hex: "is_hex64 i" and len: "length ids < 2 ^ 32" using assms(3) by (auto simp: hex_ids_def)
  have leaf: "historyLeaf cr (JStr i) (JNum (int (length ids))) = Inr ?v" "is_hex64 ?v"
    using entry_total [OF assms(1) hex, of "length ids"] len by simp_all
  have ix: "hi_count index = length ids" "length (hi_levels index) = ACCOUNT_HISTORY_DEPTH + 1" "holds_levels cr 0 ?xs (hi_levels index)"
    using assms(2) by (auto simp: indexes_def)
  from set_nodes [OF assms(1) ix(3) entry_leaves_hex [OF assms(1)] leaf(2), of "length ids"] obtain levels where
    "setNodes cr 0 (length ids) ?v (hi_levels index) = Inr levels" "length levels = length (hi_levels index)"
    "holds_levels cr 0 (?xs @ [?v]) levels" by auto
  with leaf ix len hex show thesis
    by (intro that [of "\<lparr>hi_count = hi_count index + 1, hi_levels = levels\<rparr>"])
      (simp_all add: appendIndex_def indexes_def entryLeaves_snoc MAX_HISTORY_COUNT_def)
qed

lemma indexes_all:
  assumes "sound_hash cr"
  shows "hex_ids (done @ ids) \<Longrightarrow> indexes cr done index \<Longrightarrow>
    \<exists>index'. foldM (appendIndex cr) index (map JStr ids) = Inr index' \<and> indexes cr (done @ ids) index'"
proof (induction ids arbitrary: "done" index)
  case (Cons i ids)
  have "hex_ids (done @ [i])" using Cons.prems(1) by (auto simp: hex_ids_def)
  from indexes_append [OF assms Cons.prems(2) this] obtain index' where
    i: "appendIndex cr index (JStr i) = Inr index'" "indexes cr (done @ [i]) index'" .
  from Cons.IH [OF _ i(2)] Cons.prems(1) i(1) show ?case by simp
qed simp

lemma historyIndex_all:
  assumes "sound_hash cr" and "hex_ids ids"
  obtains index where "historyIndex cr (JArr (map JStr ids)) = Inr index" and "indexes cr ids index"
  using indexes_all [OF assms(1), of "[]" ids newIndex] assms(2) indexes_empty by (auto simp: historyIndex_def)

text \<open>The last level holds the root, and the levels give the siblings of every path.\<close>

lemma top_level:
  "holds_levels cr level xs levels \<Longrightarrow> length levels = Suc d \<Longrightarrow>
   (case jget (levels ! d) 0 of None \<Rightarrow> emptyOf cr ACCOUNT_HISTORY (level + d) | Some r \<Rightarrow> r) = historyRoot cr d level xs"
proof (induction d arbitrary: level xs levels)
  case 0
  then show ?case by (cases levels) (auto split: option.splits)
next
  case (Suc d)
  then obtain nodes rest where l: "levels = nodes # rest" "holds_levels cr (Suc level) (historyAbove cr level xs) rest"
    by (cases levels) auto
  from Suc.IH [OF l(2)] Suc.prems(2) l(1) show ?case by (simp add: hashes.root_pairs del: treeRoot.simps emptyOf.simps cong: option.case_cong)
qed

lemma path_siblings:
  assumes "sound_hash cr"
  shows "holds_levels cr level xs levels \<Longrightarrow> length levels = Suc d \<Longrightarrow> list_all is_hex64 xs \<Longrightarrow> p < length xs \<Longrightarrow> length xs \<le> 2 ^ d \<Longrightarrow>
    \<exists>ss. pathSiblings cr level p levels = Inr ss \<and> length ss = d \<and> list_all is_hex64 ss \<and>
      climb cr ACCOUNT_HISTORY (xs ! p) p (map JStr ss) = Inr (historyRoot cr d level xs)"
proof (induction d arbitrary: level xs levels p)
  case 0
  then obtain nodes where "levels = [nodes]" by (cases levels) auto
  moreover have "p = 0" "xs \<noteq> []" using 0 by auto
  ultimately show ?case by (simp add: leavesOf_def)
next
  case (Suc d)
  then obtain nodes "next" rest where l: "levels = nodes # next # rest"
    by (cases levels; cases "tl levels") auto
  let ?e = "emptyOf cr ACCOUNT_HISTORY level" and ?N = "nodeOf cr ACCOUNT_HISTORY"
  let ?s = "if even p then if p + 1 < length xs then xs ! (p + 1) else ?e else xs ! (p - 1)"
  have held: "\<forall>q. jget nodes q = leavesOf xs q" "holds_levels cr (Suc level) (historyAbove cr level xs) (next # rest)"
    using Suc.prems(1) l by auto
  then have "(case jget nodes (siblingPosition p) of None \<Rightarrow> emptyHash cr ACCOUNT_HISTORY level | Some s \<Rightarrow> Inr s) = Inr ?s"
    using history_empty [OF assms, of level] Suc.prems(4) by (auto simp: siblingPosition_def leavesOf_def even_iff_mod_2_eq_zero)
  moreover have s: "is_hex64 ?s" using Suc.prems(3,4) history_empty [OF assms, of level] by (auto simp: list_all_length)
  have pair: "historyAbove cr level xs ! (p div 2) = (if even p then ?N (xs ! p) ?s else ?N ?s (xs ! p))"
  proof -
    have "above ?N ?e (leavesOf xs) (p div 2) = Some (historyAbove cr level xs ! (p div 2))"
      unfolding above_leaves using Suc.prems(4) by (simp add: leavesOf_def)
    then show ?thesis using Suc.prems(4) by (auto simp: above_def leavesOf_def elim!: evenE oddE split: if_splits)
  qed
  have "is_hex64 (xs ! p)" using Suc.prems(3,4) by (simp add: list_all_length)
  note node = history_node(1) [OF assms this s] history_node(1) [OF assms s this]
  have step: "(if p mod 2 = 0 then nodeHash cr ACCOUNT_HISTORY (JStr (xs ! p)) (JStr ?s) else nodeHash cr ACCOUNT_HISTORY (JStr ?s) (JStr (xs ! p))) =
      Inr (historyAbove cr level xs ! (p div 2))"
    unfolding pair using node by (cases "even p"; simp add: even_iff_mod_2_eq_zero)
  have "p div 2 < length (historyAbove cr level xs)" "length (historyAbove cr level xs) \<le> 2 ^ d" "length (next # rest) = Suc d"
    using Suc.prems(2,4,5) l by auto
  from Suc.IH [OF held(2) this(3) pairs_hex [OF assms history_domains(1) Suc.prems(3)] this(1,2)] obtain ss where
    "pathSiblings cr (Suc level) (p div 2) (next # rest) = Inr ss" "length ss = d" "list_all is_hex64 ss"
    "climb cr ACCOUNT_HISTORY (historyAbove cr level xs ! (p div 2)) (p div 2) (map JStr ss) = Inr (historyRoot cr d (Suc level) (historyAbove cr level xs))"
    by blast
  ultimately show ?case using l s step
    by (intro exI [of _ "?s # ss"]) (simp add: hashes.root_pairs del: treeRoot.simps emptyHash.simps)
qed

section \<open>Results\<close>

text \<open>
  C10: The accumulator refines the list of identifiers. If it stands for a list, appending an identifier
  succeeds and gives the accumulator of the list with the identifier at its end, whose root is the root of
  the tree of height 32 over the list; so the constant size state never loses or reorders an entry, below
  2 ^ 32 entries and without collisions.
\<close>

theorem account_history_refines_list:
  assumes "sound_hash cr" and "represents cr ids h" and "hex_ids (ids @ [i])" and "length ids + 1 < 2 ^ 32"
    and "inj_on (sha3_hex cr) (historyInputs cr ids)"
  shows "\<exists>h' root. appendAccountHistory cr (JObj h) (JStr i) = Inr (JObj h') \<and> represents cr (ids @ [i]) h' \<and>
    fld h' ''count'' = JNum (int (length ids) + 1) \<and> fld h' ''root'' = JStr root \<and>
    merkleRoot cr ACCOUNT_HISTORY ACCOUNT_HISTORY_DEPTH (leavesOf (entryLeaves cr (ids @ [i]))) = Inr root"
proof -
  obtain h' where h: "appendAccountHistory cr (JObj h) (JStr i) = Inr (JObj h')" "represents cr (ids @ [i]) h'"
    by (rule represents_append [OF assms])
  then show ?thesis using history_root [OF assms(1), of "ids @ [i]"] by (auto simp: represents_def add.commute)
qed

text \<open>
  The index that keeps every node and the accumulator that keeps the frontier commit to the same history:
  for the same identifiers they have the same count and the same root.
\<close>

lemma history_index_agrees:
  assumes "sound_hash cr" and "represents cr ids h" and "hex_ids ids"
  shows "\<exists>index. historyIndex cr (JArr (map JStr ids)) = Inr index \<and>
    indexCommitment cr index = Inr [(''count'', fld h ''count''), (''format'', fld h ''format''), (''root'', fld h ''root'')]"
proof -
  obtain index where i: "historyIndex cr (JArr (map JStr ids)) = Inr index" "indexes cr ids index"
    by (rule historyIndex_all [OF assms(1,3)])
  then have "(case jget (hi_levels index ! ACCOUNT_HISTORY_DEPTH) 0 of None \<Rightarrow> EMPTY_ACCOUNT_HISTORY_ROOT cr | Some r \<Rightarrow> Inr r) =
      Inr (historyRoot cr ACCOUNT_HISTORY_DEPTH 0 (entryLeaves cr ids))"
    using top_level [of cr 0 "entryLeaves cr ids" "hi_levels index" ACCOUNT_HISTORY_DEPTH]
    by (auto simp: indexes_def empty_history_root [OF assms(1)] split: option.splits)
  with i assms(2) show ?thesis by (auto simp: indexCommitment_def indexes_def represents_def)
qed

text \<open>
  At \<open>2 ^ 32\<close> entries, which the bound on the count admits, no bit of the count that the loop reads is set:
  the root is that of the empty history, whatever the frontier, and the next normalization refuses it.
\<close>

lemma full_history_loses_root:
  assumes "sound_hash cr" and "length frontier = ACCOUNT_HISTORY_DEPTH"
  shows "rootFromFrontier cr frontier MAX_HISTORY_COUNT = EMPTY_ACCOUNT_HISTORY_ROOT cr"
proof -
  have bit: "historyBit (2 ^ n) level = 0" if "level < n" for level n
  proof -
    have "(2 :: int) ^ n = 2 ^ level * 2 ^ (n - level)" using that by (simp flip: power_add)
    moreover have "0 < n - level" using that by simp
    then obtain k where "n - level = Suc k" by (cases "n - level") auto
    ultimately show ?thesis by (simp add: historyBit_def)
  qed
  have "frontierRoot cr (2 ^ 32) level (emptyOf cr ACCOUNT_HISTORY level) frontier =
      Inr (emptyOf cr ACCOUNT_HISTORY (level + length frontier))" if "level + length frontier \<le> 32" for level
    using that
  proof (induction frontier arbitrary: level)
    case (Cons v frontier)
    have e: "emptyHash cr ACCOUNT_HISTORY level = Inr (emptyOf cr ACCOUNT_HISTORY level)"
      "nodeHash cr ACCOUNT_HISTORY (JStr (emptyOf cr ACCOUNT_HISTORY level)) (JStr (emptyOf cr ACCOUNT_HISTORY level)) =
        Inr (emptyOf cr ACCOUNT_HISTORY (Suc level))"
      using history_empty [OF assms(1), of level] history_node(1) [OF assms(1)] by simp_all
    from Cons.IH [of "Suc level"] Cons.prems show ?case
      using bit [of level 32] e by (simp del: emptyOf.simps)
  qed simp
  from this [of 0] assms show ?thesis
    using history_empty [OF assms(1), of 0]
    by (simp add: rootFromFrontier_def empty_history_root MAX_HISTORY_COUNT_def ACCOUNT_HISTORY_DEPTH_def del: emptyOf.simps emptyHash.simps)
qed

lemma decimal_length: "n < 10 ^ Suc k \<Longrightarrow> length (dec_digits n) \<le> Suc k"
proof (induction k arbitrary: n)
  case 0
  then show ?case by (simp add: dec_digits.simps)
next
  case (Suc k)
  then have "length (dec_digits (n div 10)) \<le> Suc k" by (intro Suc.IH) simp
  then show ?case by (subst dec_digits.simps) simp
qed

text \<open>The text of a proof with a count, an index and a few siblings.\<close>

lemma path_proof_small:
  assumes "keeps_ascii cr" and "list_all is_hex64 ss" and "length ss \<le> 32" and "n \<le> 2 ^ 32" and "i \<le> 2 ^ 32"
    and "ascii_string format" and "printable format" and "length format \<le> 100"
  obtains t where "strictCanonicalJson (nfc cr) (to_cval (JObj [(''count'', JNum (int n)), (''format'', JStr format),
      (''index'', JNum (int i)), (''siblings'', JArr (map JStr ss))])) = Inr t"
    and "length (utf8 (map unat t)) \<le> 4096"
proof -
  let ?p = "JObj [(''count'', JNum (int n)), (''format'', JStr format), (''index'', JNum (int i)), (''siblings'', JArr (map JStr ss))]"
  have len: "map length ss = replicate (length ss) 64"
    using assms(2) by (intro nth_equalityI) (auto simp: list_all_length is_hex64_def)
  have sizes: "sum_list (map (\<lambda>x. 5 + length x) ss) = 69 * length ss" "sum_list (map (\<lambda>x. Suc (2 + length x)) ss) = 67 * length ss"
    using len by (simp_all add: sum_list_addf sum_list_triv sum_list_Suc sum_list_replicate)
  have digits: "length (dec_string (int m)) \<le> 10" if "m \<le> 2 ^ 32" for m
    using decimal_length [of m 9] that by (simp add: dec_string_def)
  have "list_all ascii_string ss" using assms(2) hex_ascii by (auto simp: list_all_iff)
  with assms sizes have "json_ok ?p"
    by (auto simp: json_ok_def entry_keys MAX_DEPTH_def MAX_CONTAINER_ENTRIES_def MAX_ENCODED_BYTES_def
        is_safe_int_def MAX_SAFE_INTEGER_def o_def list_all_iff)
  then have t: "strictCanonicalJson (nfc cr) (to_cval ?p) = Inr (text_of (canon (to_cval ?p)))"
    by (rule strictCanonicalJson_ok [OF assms(1)])
  have "printable ''count''" "printable ''format''" "printable ''index''" "printable ''siblings''" by code_simp+
  then have "plain_text ?p" using assms(2,7) hex_printable by (auto simp: list_all_iff)
  then have "length (utf8 (map unat (text_of (canon (to_cval ?p))))) \<le> text_size ?p"
    by (intro small_text_bytes plain_text_small)
  also have "\<dots> \<le> 4096"
    using digits [OF assms(4)] digits [OF assms(5)] sizes(2) assms(3,8) by (simp add: o_def)
  finally show thesis using that [OF t] by simp
qed

text \<open>
  The proof the index creates for an entry verifies against the commitment of the index, and answers the
  entry's index and identifier.
\<close>

lemma created_entry_verifies:
  assumes "sound_hash cr" and "hex_ids ids" and "inj_on (sha3_hex cr) (historyInputs cr ids)"
    and "createAccountHistoryProofs cr (JArr (map JStr ids)) (JArr (map JNum ixs)) = Inr proofs" and "j < length ixs"
  shows "\<exists>index commitment. historyIndex cr (JArr (map JStr ids)) = Inr index \<and> indexCommitment cr index = Inr commitment \<and>
    verifyAccountHistoryEntry cr (JStr (ids ! nat (ixs ! j))) (proofs ! j) (JObj commitment) =
      Inr [(''index'', JNum (ixs ! j)), (''transactionId'', JStr (ids ! nat (ixs ! j)))]"
proof -
  obtain index where ix: "historyIndex cr (JArr (map JStr ids)) = Inr index" "indexes cr ids index"
    by (rule historyIndex_all [OF assms(1,2)])
  let ?n = "length ids" let ?root = "historyRoot cr ACCOUNT_HISTORY_DEPTH 0 (entryLeaves cr ids)"
  let ?c = "[(''count'', JNum (int ?n)), (''format'', JStr ACCOUNT_HISTORY_FORMAT), (''root'', JStr ?root)]"
  have held: "hi_count index = ?n" "length (hi_levels index) = Suc ACCOUNT_HISTORY_DEPTH"
      "holds_levels cr 0 (entryLeaves cr ids) (hi_levels index)" and n: "?n \<le> 2 ^ 32" "list_all is_hex64 ids"
    using ix(2) assms(2) by (auto simp: indexes_def hex_ids_def)
  have "indexProofs cr index (JArr (map JNum ixs)) = Inr proofs"
    using assms(4) ix(1) by (simp add: createAccountHistoryProofs_def)
  then have ok: "list_all (\<lambda>v. case safe_int v of None \<Rightarrow> False | Some i \<Rightarrow> 0 \<le> i \<and> i < int ?n) (map JNum ixs)"
      and proofs: "mapM (\<lambda>v. bind_r (map_err History_encoding (pathSiblings cr 0 (nat (the (safe_int v))) (hi_levels index)))
        (\<lambda>siblings. Inr (entryProof ?n v siblings))) (map JNum ixs) = Inr proofs"
    unfolding indexProofs_def held(1) by (simp_all add: if_Inl_Inr_iff)
  define i where "i = nat (ixs ! j)"
  have "case safe_int (JNum (ixs ! j)) of None \<Rightarrow> False | Some i \<Rightarrow> 0 \<le> i \<and> i < int ?n"
    using ok assms(5) by (simp add: list_all_length del: safe_int.simps)
  then have i: "ixs ! j = int i" "i < ?n" "safe_int (JNum (int i)) = Some (int i)"
    by (auto simp: i_def split: if_splits)
  have n': "safe_int (JNum (int ?n)) = Some (int ?n)" using n by (simp add: MAX_SAFE_INTEGER_def)
  from path_siblings [OF assms(1) held(3,2) entry_leaves_hex [OF assms(1)], of i] i(2) n obtain ss where
    ss: "pathSiblings cr 0 i (hi_levels index) = Inr ss" "length ss = ACCOUNT_HISTORY_DEPTH" "list_all is_hex64 ss"
      "climb cr ACCOUNT_HISTORY (entryLeaves cr ids ! i) i (map JStr ss) = Inr ?root"
    by (auto simp: ACCOUNT_HISTORY_DEPTH_def)
  have proof_j: "proofs ! j = entryProof ?n (JNum (int i)) ss"
    using mapM_nth [OF proofs, of j] assms(5) i ss(1) by (simp del: safe_int.simps)
  obtain t where t: "strictCanonicalJson (nfc cr) (to_cval (entryProof ?n (JNum (int i)) ss)) = Inr t"
      "length (utf8 (map unat t)) \<le> MAX_ACCOUNT_HISTORY_PROOF_BYTES"
  proof (rule path_proof_small [of cr ss ?n i ACCOUNT_HISTORY_PROOF_FORMAT])
    show "printable ACCOUNT_HISTORY_PROOF_FORMAT" by code_simp
  qed (use assms(1) ss i(2) n entry_keys in \<open>auto simp: sound_hash_def entryProof_def ACCOUNT_HISTORY_DEPTH_def
      MAX_ACCOUNT_HISTORY_PROOF_BYTES_def ACCOUNT_HISTORY_PROOF_FORMAT_def\<close>)
  have "normalizeAccountHistory cr (JObj ?c) = Inr ?c"
    by (rule represents_normal [OF assms(1-3)]) (simp_all add: fld_def)
  moreover have "entryFields cr (JStr (ids ! i)) ?c (proofs ! j) = Inr (JNum (int i), i, map JStr ss)"
    using t n' i ss n unfolding proof_j
    by (simp add: entryFields_def entryProof_def fld_def list_all_length del: safe_int.simps)
  moreover have "historyLeaf cr (JStr (ids ! i)) (JNum (int i)) = Inr (entryLeaves cr ids ! i)"
    using entry_total(1) [OF assms(1), of "ids ! i" i] i(2) n by (simp add: list_all_length entryLeaves_def)
  ultimately have "verifyAccountHistoryEntry cr (JStr (ids ! i)) (proofs ! j) (JObj ?c) =
      Inr [(''index'', JNum (int i)), (''transactionId'', JStr (ids ! i))]"
    using ss(4) by (simp add: verifyAccountHistoryEntry_def fld_def [of "_ # _"])
  moreover have "indexCommitment cr index = Inr ?c"
    using top_level [OF held(3,2)] held(1)
    by (auto simp: indexCommitment_def empty_history_root [OF assms(1)] split: option.splits)
  ultimately show ?thesis using ix(1) i(1) by (auto simp flip: i_def)
qed

text \<open>
  C27: An entry that verifies against the root of a history is the entry of the history at the index of
  the proof, when no two of the byte strings hashed for the history and for the proof collide.
\<close>

theorem accepted_entry_is_of_history:
  assumes "sound_hash cr" and "hex_ids ids"
    and "merkleRoot cr ACCOUNT_HISTORY ACCOUNT_HISTORY_DEPTH (leavesOf (entryLeaves cr ids)) = Inr root"
    and "fld h ''root'' = JStr root" and "verifyAccountHistoryEntry cr transactionId (JObj p) (JObj h) = Inr r"
    and "historyLeaf cr transactionId (fld p ''index'') = Inr l" and "fld p ''siblings'' = JArr siblings"
    and "safe_int (fld p ''index'') = Some k"
    and "inj_on (sha3_hex cr) (historyInputs cr ids \<union> pathInputs cr ACCOUNT_HISTORY l (nat k) siblings \<union>
      hashInput cr (entryObject transactionId (fld p ''index'')) ''ACCOUNT_HISTORY_LEAF'')"
  shows "\<exists>i < length ids. fld p ''index'' = JNum (int i) \<and> transactionId = JStr (ids ! i)"
proof -
  let ?e = "entryObject transactionId (fld p ''index'')"
  let ?B = "historyInputs cr ids \<union> pathInputs cr ACCOUNT_HISTORY l (nat k) siblings \<union> hashInput cr ?e ''ACCOUNT_HISTORY_LEAF''"
  have leaf: "hashObject cr ?e ''ACCOUNT_HISTORY_LEAF'' = Inr l"
    using assms(6) by (simp add: historyLeaf_def map_err_Inr_iff)
  obtain c index position ss v root' where c: "normalizeAccountHistory cr (JObj h) = Inr c"
    and f: "entryFields cr transactionId c (JObj p) = Inr (index, position, ss)"
    and v: "historyLeaf cr transactionId index = Inr v" "climb cr ACCOUNT_HISTORY v position ss = Inr root'" "JStr root' = fld c ''root''"
    using assms(5) by (auto simp: verifyAccountHistoryEntry_def bind_r_Inr_iff map_err_Inr_iff if_Inl_Inr_iff)
  have "root' = root" using normalize_Inr [OF c] v(3) assms(4) by simp
  moreover have f: "index = fld p ''index''" "position = nat k" "ss = siblings"
    using f assms(7,8) by (auto simp: entryFields_def bind_r_Inr_iff split: option.splits if_splits)
  moreover have "v = l" using v(1) assms(6) f(1) by simp
  ultimately have climb: "climb cr ACCOUNT_HISTORY l (nat k) siblings = Inr root" using v(2) by simp
  have "historyInputs cr ids \<subseteq> ?B" by blast
  from entry_hashed [OF assms(1,2) this] have hashed: "hashed_leaves cr ACCOUNT_HISTORY ?B (leavesOf (entryLeaves cr ids))" .
  have tree: "treeInputs cr ACCOUNT_HISTORY ACCOUNT_HISTORY_DEPTH (leavesOf (entryLeaves cr ids)) \<subseteq> ?B"
    by (auto simp: historyInputs_def)
  have "leaf_or_empty cr ACCOUNT_HISTORY ?B (Some l) l" using leaf by (auto simp: leaf_or_empty_def)
  from path_to_leaf [OF history_domains(1) assms(9) this assms(3) climb tree _ hashed]
  obtain m where "leavesOf (entryLeaves cr ids) m = Some l" by auto
  then have m: "m < length ids" "entryHash cr m (ids ! m) = l" by (auto simp: leavesOf_def entryLeaves_def split: if_splits)
  have "is_hex64 (ids ! m)" "m \<le> 2 ^ 32" using assms(2) m(1) by (auto simp: hex_ids_def list_all_length)
  from entry_total(1) [OF assms(1) this] m(2)
  have at: "hashObject cr (entryObject (JStr (ids ! m)) (JNum (int m))) ''ACCOUNT_HISTORY_LEAF'' = Inr l"
    by (simp add: historyLeaf_def map_err_Inr_iff)
  have "hashInput cr (entryObject (JStr (ids ! m)) (JNum (int m))) ''ACCOUNT_HISTORY_LEAF'' \<subseteq> ?B"
    using m(1) by (auto simp: historyInputs_def)
  from same_hash [OF leaf at assms(9) _ this]
  have "canon (to_cval ?e) = canon (to_cval (entryObject (JStr (ids ! m)) (JNum (int m))))" by auto
  note e = canon_fld [OF this [unfolded entryObject_def]]
  have "canon (to_cval transactionId) = CStr (str_units (ids ! m))" using e [of "''transactionId''"] by (simp add: fld_def)
  then have "transactionId = JStr (ids ! m)" by (cases transactionId) auto
  moreover have "canon (to_cval (fld p ''index'')) = CInt (int m)" using e [of "''index''"] by (simp add: fld_def [of "_ # _"])
  then have "fld p ''index'' = JNum (int m)" using assms(8) by (cases "fld p ''index''") auto
  ultimately show ?thesis using m(1) by blast
qed

section \<open>A history to evaluate\<close>

text \<open>The history of one identifier, hashed without collisions.\<close>

definition demo_entry :: string where
  "demo_entry = replicate 64 CHR ''e''"

abbreviation demo_value :: jsval where
  "demo_value \<equiv> entryObject (JStr demo_entry) (JNum 0)"

abbreviation demo_numbered :: crypto where
  "demo_numbered \<equiv> numbered ACCOUNT_HISTORY 32 demo_value"

lemma demo_entry_hex: "is_hex64 demo_entry"
  by code_simp

lemma demo_entry_single: "single_ok ACCOUNT_HISTORY 32 demo_value"
  using entry_json [OF demo_entry_hex, of 0] history_domains(1) by (simp add: single_ok_def)

lemma demo_entry_leaf: "mk_leaf ACCOUNT_HISTORY = ''ACCOUNT_HISTORY_LEAF''"
  by (simp add: ACCOUNT_HISTORY_def)

lemma numbered_entry: "entryLeaves demo_numbered [demo_entry] = [hex_number 33]"
  using numbered_hash [OF demo_entry_single, of 33] by (simp add: entryLeaves_def entryHash_def leaf_input_def demo_entry_leaf)

lemma numbered_entry_input: "hashInput demo_numbered demo_value ''ACCOUNT_HISTORY_LEAF'' = {leaf_input ACCOUNT_HISTORY 32 demo_value 33}"
  using numbered_leaf_input [OF demo_entry_single] by (simp add: demo_entry_leaf)

abbreviation demo_inputs :: "bytes set" where
  "demo_inputs \<equiv> leaf_input ACCOUNT_HISTORY 32 demo_value ` {..<2 * 32 + 2}"

lemma numbered_history: "historyInputs demo_numbered [demo_entry] \<subseteq> demo_inputs"
  using numbered_tree [OF demo_entry_single order_refl] numbered_empty_tree [OF demo_entry_single order_refl] numbered_entry_input
  by (auto simp: historyInputs_def numbered_entry ACCOUNT_HISTORY_DEPTH_def)

lemma numbered_ids: "hex_ids [demo_entry]" "hex_ids ([demo_entry] @ [demo_entry])"
  by (simp_all add: hex_ids_def demo_entry_hex)

definition numbered_history_object :: jsobj where
  "numbered_history_object =
     [(''count'', JNum 1), (''format'', JStr ACCOUNT_HISTORY_FORMAT), (''root'', JStr (hex_number 65)),
      (''frontier'', JArr (JStr (hex_number 33) # replicate 31 JNull))]"

lemma frontier_single: "frontierOf N (Suc d) [x] = Some x # replicate d None"
  by simp

lemma numbered_represents: "represents demo_numbered [demo_entry] numbered_history_object"
proof -
  have "frontierOf (nodeOf demo_numbered ACCOUNT_HISTORY) (Suc 31) [hex_number 33] = Some (hex_number 33) # replicate 31 None"
    by (rule frontier_single)
  moreover have "Suc 31 = 32" by simp
  ultimately have "map slot (frontierOf (nodeOf demo_numbered ACCOUNT_HISTORY) 32 [hex_number 33]) = JStr (hex_number 33) # replicate 31 JNull"
    by (simp only: list.map slot.simps map_replicate)
  then show ?thesis
    using numbered_root [OF demo_entry_single order_refl]
    by (simp add: represents_def numbered_history_object_def fld_def numbered_entry ACCOUNT_HISTORY_DEPTH_def)
qed

theorem account_history_refines_list_witness:
  "\<exists>h' root. appendAccountHistory demo_numbered (JObj numbered_history_object) (JStr demo_entry) = Inr (JObj h') \<and>
    represents demo_numbered [demo_entry, demo_entry] h' \<and> fld h' ''count'' = JNum 2 \<and> fld h' ''root'' = JStr root \<and>
    merkleRoot demo_numbered ACCOUNT_HISTORY ACCOUNT_HISTORY_DEPTH (leavesOf (entryLeaves demo_numbered [demo_entry, demo_entry])) = Inr root"
  using account_history_refines_list [OF numbered_sound numbered_represents numbered_ids(2) _
      inj_on_subset [OF numbered_inj [OF demo_entry_single] numbered_history]] by simp

theorem accepted_entry_is_of_history_witness:
  "\<exists>i < 1. JNum 0 = JNum (int i) \<and> JStr demo_entry = JStr ([demo_entry] ! i)"
proof -
  let ?ss = "map hex_number [0..<32]" let ?h = "numbered_history_object"
  define p where "p = [(''count'', JNum 1), (''format'', JStr ACCOUNT_HISTORY_PROOF_FORMAT), (''index'', JNum 0),
    (''siblings'', JArr (map JStr ?ss))]"
  have p: "fld p ''index'' = JNum 0" "fld p ''siblings'' = JArr (map JStr ?ss)" "fld p ''count'' = JNum 1"
      "fld p ''format'' = JStr ACCOUNT_HISTORY_PROOF_FORMAT" by (simp_all add: p_def fld_def)
  have zero: "safe_int (JNum 0) = Some 0" "safe_int (JNum 1) = Some 1" by code_simp+
  have "printable ACCOUNT_HISTORY_PROOF_FORMAT" by code_simp
  then obtain t where t: "strictCanonicalJson (nfc demo_numbered) (to_cval (JObj p)) = Inr t" "length (utf8 (map unat t)) \<le> 4096"
    using path_proof_small [OF numbered_ascii [of ACCOUNT_HISTORY 32 demo_value], of ?ss 1 0 ACCOUNT_HISTORY_PROOF_FORMAT] entry_keys(6) hex_number_hex
    by (auto simp: p_def list_all_iff ACCOUNT_HISTORY_PROOF_FORMAT_def)
  have "fld ?h ''count'' = JNum (int (length [demo_entry]))" "fld ?h ''format'' = JStr ACCOUNT_HISTORY_FORMAT"
      "fld ?h ''root'' = JStr (historyRoot demo_numbered ACCOUNT_HISTORY_DEPTH 0 (entryLeaves demo_numbered [demo_entry]))"
    using numbered_represents by (simp_all add: represents_def)
  note normal = represents_normal [OF numbered_sound numbered_ids(1) inj_on_subset [OF numbered_inj [OF demo_entry_single] numbered_history] this]
  have root: "historyRoot demo_numbered ACCOUNT_HISTORY_DEPTH 0 (entryLeaves demo_numbered [demo_entry]) = hex_number 65"
    using numbered_root [OF demo_entry_single order_refl] by (simp add: numbered_entry ACCOUNT_HISTORY_DEPTH_def)
  have leaf: "historyLeaf demo_numbered (JStr demo_entry) (JNum 0) = Inr (hex_number 33)"
    using numbered_leaf [OF demo_entry_single] by (simp add: historyLeaf_def demo_entry_leaf)
  have ss: "map JStr ?ss = map (\<lambda>k. JStr (hex_number k)) [0..<32]" by (simp add: o_def del: upt_rec_numeral upt.simps)
  have climb: "climb demo_numbered ACCOUNT_HISTORY (hex_number 33) 0 (map JStr ?ss) = Inr (hex_number 65)"
    unfolding ss using numbered_climb [OF demo_entry_single order_refl] by simp
  have "entryFields demo_numbered (JStr demo_entry) [(''count'', JNum (int (length [demo_entry]))), (''format'', JStr ACCOUNT_HISTORY_FORMAT),
      (''root'', JStr (hex_number 65))] (JObj p) = Inr (JNum 0, 0, map JStr ?ss)"
    using t p zero demo_entry_hex hex_number_hex
    by (simp add: entryFields_def fld_def [of "_ # _"] ACCOUNT_HISTORY_DEPTH_def list_all_iff MAX_ACCOUNT_HISTORY_PROOF_BYTES_def
        del: to_cval.simps upt_rec_numeral upt.simps)
  then have accepted: "verifyAccountHistoryEntry demo_numbered (JStr demo_entry) (JObj p) (JObj ?h) =
      Inr [(''index'', JNum 0), (''transactionId'', JStr demo_entry)]"
    using normal leaf climb by (simp add: verifyAccountHistoryEntry_def root fld_def [of "_ # _"] del: upt_rec_numeral upt.simps)
  have path: "pathInputs demo_numbered ACCOUNT_HISTORY (hex_number 33) (nat 0) (map JStr ?ss) \<subseteq> demo_inputs"
    unfolding ss using numbered_path [OF demo_entry_single] by simp
  have "historyInputs demo_numbered [demo_entry] \<union> pathInputs demo_numbered ACCOUNT_HISTORY (hex_number 33) (nat 0) (map JStr ?ss) \<union>
      hashInput demo_numbered (entryObject (JStr demo_entry) (fld p ''index'')) ''ACCOUNT_HISTORY_LEAF'' \<subseteq> demo_inputs"
    using numbered_history path numbered_entry_input p(1) by auto
  note inj = inj_on_subset [OF numbered_inj [OF demo_entry_single] this]
  have "merkleRoot demo_numbered ACCOUNT_HISTORY ACCOUNT_HISTORY_DEPTH (leavesOf (entryLeaves demo_numbered [demo_entry])) = Inr (hex_number 65)"
    using history_root [OF numbered_sound [of ACCOUNT_HISTORY 32 demo_value], of "[demo_entry]"] root by simp
  from accepted_entry_is_of_history [OF numbered_sound numbered_ids(1) this _ accepted _ p(2) _ inj] leaf zero(1) p(1)
  show ?thesis by (simp add: numbered_history_object_def fld_def)
qed

end
