(* ===== verification/AccountTree.thy ===== *)
theory AccountTree
  imports AccountHistory
begin

text \<open>
  \<open>blockchain/account-tree.mjs\<close>: the state of every account, committed by the root of a tree of height
  256 whose leaf at an address is the hash of the account, or the empty leaf. The code keeps of every
  level only the nodes above an account, in a \<open>Map\<close> from the bits of their path. The main results: the
  root so computed is that of the whole tree over the addresses, and a proof that verifies against it
  shows the state of an account, or that an address has none.
\<close>

section \<open>Addresses and states\<close>

datatype tree_error =
    Tree_encoding codec_error
  | Tree_history history_error
  | Tree_address_invalid
  | Tree_state_invalid
  | Tree_unstake_invalid
  | Tree_escrow_invalid
  | Tree_delegation_invalid
  | Tree_delegations_duplicated
  | Tree_entries_invalid
  | Tree_address_duplicated
  | Tree_proof_invalid
  | Tree_root_mismatch
  | Tree_threw

definition ACCOUNT_TREE :: merkle_domains where
  "ACCOUNT_TREE = \<lparr>mk_node = ''ACCOUNT_TREE_NODE'', mk_empty = ''ACCOUNT_TREE_EMPTY_LEAF'', mk_leaf = ''ACCOUNT_TREE_LEAF''\<rparr>"

definition ACCOUNT_TREE_DEPTH :: nat where
  "ACCOUNT_TREE_DEPTH = 256"

definition ACCOUNT_STATE_FORMAT :: string where
  "ACCOUNT_STATE_FORMAT = ''nir-account-state-proof-v1''"

definition MAX_ACCOUNT_STATE_PROOF_BYTES :: nat where
  "MAX_ACCOUNT_STATE_PROOF_BYTES = 32 * 1024"

text \<open>\<open>Number.parseInt(digit, 16).toString(2).padStart(4, "0")\<close>\<close>

definition hexDigit :: "char \<Rightarrow> nat" where
  "hexDigit c = (if is_digit c then unit_of c - 48 else unit_of c - 87)"

definition bitChar :: "nat \<Rightarrow> char" where
  "bitChar n = (if n mod 2 = 0 then CHR ''0'' else CHR ''1'')"

definition digitBits :: "char \<Rightarrow> string" where
  "digitBits c = map (\<lambda>k. bitChar (hexDigit c div k)) [8, 4, 2, 1]"

text \<open>An array with the address as its one entry passes the test too; \<open>slice(4)\<close> of it is empty.\<close>

definition addressBits :: "jsval \<Rightarrow> tree_error + string" where
  "addressBits account =
     (if \<not> is_address (coerced account) then Inl Tree_address_invalid
      else Inr (case account of JStr a \<Rightarrow> concat (map digitBits (drop 4 a)) | _ \<Rightarrow> ''''))"

text \<open>\<open>/^(0|[1-9][0-9]{0,31})$/.test(v ?? "")\<close>: numbers are converted to text first.\<close>

fun numeralText :: "jsval \<Rightarrow> string" where
  "numeralText (JNum n) = (if \<bar>n\<bar> < 10 ^ 21 then dec_string n else '''')"
| "numeralText JNegZero = ''0''"
| "numeralText (JBig n) = dec_string n"
| "numeralText (JArr [v]) = numeralText v"
| "numeralText v = coerced v"

definition is_atomic :: "jsval \<Rightarrow> bool" where
  "is_atomic v \<longleftrightarrow> is_decimal (numeralText v) \<and> length (numeralText v) \<le> 32"

text \<open>\<open>!value\<close>\<close>

definition falsy :: "jsval \<Rightarrow> bool" where
  "falsy v \<longleftrightarrow> v \<in> {JUndef, JNull, JBool False, JNum 0, JNegZero, JBig 0, JStr ''''}"

text \<open>The fields of a value; those of a value that is no object are missing.\<close>

definition property :: "jsval \<Rightarrow> string \<Rightarrow> jsval" where
  "property v k = (case plain_object v of None \<Rightarrow> JUndef | Some obj \<Rightarrow> fld obj k)"

definition positive_int :: "jsval \<Rightarrow> bool" where
  "positive_int v \<longleftrightarrow> (case safe_int v of None \<Rightarrow> False | Some n \<Rightarrow> n \<ge> 1)"

text \<open>\<open>BigInt(value.amount) === 0n\<close> is asked of an amount that passed the test.\<close>

definition progressEscrow :: "jsval \<Rightarrow> tree_error + jsval" where
  "progressEscrow v =
     (if v = JUndef \<or> v = JNull then Inr JNull
      else if falsy v \<or> \<not> is_atomic (property v ''amount'') \<or> numeralText (property v ''amount'') = ''0'' \<or>
        \<not> positive_int (property v ''count'') \<or> (case safe_int (property v ''count'') of None \<Rightarrow> True | Some n \<Rightarrow> n > 1000000) \<or>
        \<not> positive_int (property v ''nextUnlockHeight'')
      then Inl Tree_escrow_invalid
      else Inr (JObj [(''amount'', property v ''amount''), (''count'', property v ''count''),
        (''nextUnlockHeight'', property v ''nextUnlockHeight'')]))"

definition checkDelegation :: "jsval \<Rightarrow> jsval \<Rightarrow> tree_error + jsval" where
  "checkDelegation account d =
     (if falsy d \<or> \<not> strict_eq (property d ''owner'') account \<or> \<not> is_address (coerced (property d ''delegate'')) \<or>
        strict_eq (property d ''delegate'') account
      then Inl Tree_delegation_invalid
      else case (safe_int (property d ''epoch''), safe_int (property d ''limit''), safe_int (property d ''spent'')) of
        (Some epoch, Some limit, Some spent) \<Rightarrow>
          if epoch < 0 \<or> limit < 1 \<or> limit > 1000000 \<or> spent < 0 \<or> spent > limit then Inl Tree_delegation_invalid else Inr d
      | _ \<Rightarrow> Inl Tree_delegation_invalid)"

text \<open>
  \<open>.sort((a, b) => a.delegate.localeCompare(b.delegate))\<close>: \<open>order a b\<close> is a positive result. The order
  is that of the host's locale, so it is a parameter. Only strings have a \<open>localeCompare\<close>; a delegate that
  is no string (an array with the address as its one entry) is taken to throw when it is compared, and a
  list of one entry is not compared.
\<close>

definition sortDelegations :: "(string \<Rightarrow> string \<Rightarrow> bool) \<Rightarrow> jsval list \<Rightarrow> tree_error + jsval list" where
  "sortDelegations order ds =
     (case ds of
        [d] \<Rightarrow> Inr [d]
      | _ \<Rightarrow> bind_r (mapM (\<lambda>d. case property d ''delegate'' of JStr a \<Rightarrow> Inr (a, d) | _ \<Rightarrow> Inl Tree_threw) ds) (\<lambda>keyed.
          if \<not> distinct (map fst keyed) then Inl Tree_delegations_duplicated
          else Inr (map snd (foldr (insertBy order) keyed []))))"

definition normalizeUnstake :: "jsval \<Rightarrow> tree_error + jsval" where
  "normalizeUnstake pending =
     (if pending = JNull then Inr JNull
      else if falsy pending \<or> \<not> is_atomic (property pending ''amount'') \<or> \<not> positive_int (property pending ''unlockHeight'')
      then Inl Tree_unstake_invalid
      else Inr (JObj [(''amount'', property pending ''amount''), (''unlockHeight'', property pending ''unlockHeight'')]))"

definition normalizeAccountState :: "crypto \<Rightarrow> (string \<Rightarrow> string \<Rightarrow> bool) \<Rightarrow> jsval \<Rightarrow> tree_error + jsobj" where
  "normalizeAccountState cr order account =
     (let resources = property account ''resources'' in
      case (safe_int (property account ''nextNonce''), property resources ''delegations'') of
        (Some nextNonce, JArr ds) \<Rightarrow>
          if \<not> is_address (coerced (property account ''address'')) \<or> \<not> is_atomic (property account ''atomicBalance'') \<or>
             nextNonce < 0 \<or> falsy (property account ''history'') \<or> \<not> is_atomic (property resources ''atomicStake'') \<or>
             \<not> is_atomic (property resources ''availableTransferCredits'') \<or> length ds > 256
          then Inl Tree_state_invalid
          else bind_r (normalizeUnstake (property resources ''pendingUnstake'')) (\<lambda>pending.
               bind_r (mapM (checkDelegation (property account ''address'')) ds) (\<lambda>checked.
               bind_r (sortDelegations order checked) (\<lambda>delegations.
               bind_r (map_err Tree_history (normalizeAccountHistory cr (property account ''history''))) (\<lambda>history.
               bind_r (progressEscrow (property resources ''pendingProgressBondRefund'')) (\<lambda>refund.
               bind_r (progressEscrow (property resources ''pendingProgressReward'')) (\<lambda>reward.
               Inr [(''address'', property account ''address''), (''atomicBalance'', property account ''atomicBalance''),
                 (''history'', JObj history), (''nextNonce'', property account ''nextNonce''),
                 (''resources'', JObj [(''atomicStake'', property resources ''atomicStake''),
                   (''availableTransferCredits'', property resources ''availableTransferCredits''),
                   (''delegations'', JArr delegations), (''pendingUnstake'', pending),
                   (''pendingProgressBondRefund'', refund), (''pendingProgressReward'', reward)])]))))))
      | _ \<Rightarrow> Inl Tree_state_invalid)"

definition emptyAccountState :: "crypto \<Rightarrow> jsval \<Rightarrow> tree_error + jsobj" where
  "emptyAccountState cr account =
     bind_r (map_err Tree_history (emptyAccountHistory cr)) (\<lambda>history.
     Inr [(''address'', account), (''atomicBalance'', JStr ''0''), (''history'', JObj history), (''nextNonce'', JNum 0),
       (''resources'', JObj [(''atomicStake'', JStr ''0''), (''availableTransferCredits'', JStr ''0''), (''delegations'', JArr []),
         (''pendingUnstake'', JNull), (''pendingProgressBondRefund'', JNull), (''pendingProgressReward'', JNull)])])"

section \<open>The levels\<close>

text \<open>\<open>emptyHashes[depth]\<close>\<close>

definition emptyAt :: "crypto \<Rightarrow> nat \<Rightarrow> tree_error + string" where
  "emptyAt cr depth = map_err Tree_encoding (emptyHash cr ACCOUNT_TREE (ACCOUNT_TREE_DEPTH - depth))"

definition stateLeaf :: "crypto \<Rightarrow> (string \<Rightarrow> string \<Rightarrow> bool) \<Rightarrow> jsval \<Rightarrow> bool \<Rightarrow> tree_error + string" where
  "stateLeaf cr order account present =
     (if present then bind_r (normalizeAccountState cr order account) (\<lambda>n.
        map_err Tree_encoding (hashObject cr (JObj n) (mk_leaf ACCOUNT_TREE)))
      else emptyAt cr ACCOUNT_TREE_DEPTH)"

definition addLeaf :: "crypto \<Rightarrow> (string \<Rightarrow> string \<Rightarrow> bool) \<Rightarrow> (string, string) jsmap \<Rightarrow> jsval \<Rightarrow> tree_error + (string, string) jsmap" where
  "addLeaf cr order leaves v =
     bind_r (normalizeAccountState cr order v) (\<lambda>account.
     bind_r (addressBits (fld account ''address'')) (\<lambda>path.
     if jhas leaves path then Inl Tree_address_duplicated
     else bind_r (stateLeaf cr order (JObj account) True) (\<lambda>h. Inr (jset path h leaves))))"

definition nodeAt :: "crypto \<Rightarrow> nat \<Rightarrow> (string, string) jsmap \<Rightarrow> string \<Rightarrow> tree_error + string" where
  "nodeAt cr depth nodes path = (case jget nodes path of None \<Rightarrow> emptyAt cr depth | Some h \<Rightarrow> Inr h)"

definition addParent :: "crypto \<Rightarrow> nat \<Rightarrow> (string, string) jsmap \<Rightarrow> (string, string) jsmap \<Rightarrow> string \<Rightarrow> tree_error + (string, string) jsmap" where
  "addParent cr depth children nodes parent =
     bind_r (nodeAt cr (depth + 1) children (parent @ ''0'')) (\<lambda>left.
     bind_r (nodeAt cr (depth + 1) children (parent @ ''1'')) (\<lambda>right.
     bind_r (map_err Tree_encoding (nodeHash cr ACCOUNT_TREE (JStr left) (JStr right))) (\<lambda>h. Inr (jset parent h nodes))))"

text \<open>The levels from the root down to the level of depth \<open>depth\<close>, which is given.\<close>

primrec levelsAbove :: "crypto \<Rightarrow> nat \<Rightarrow> (string, string) jsmap \<Rightarrow> tree_error + (string, string) jsmap list" where
  "levelsAbove cr 0 nodes = Inr [nodes]"
| "levelsAbove cr (Suc depth) nodes =
     bind_r (foldM (addParent cr depth nodes) [] (uniq (map (take depth) (jkeys nodes)))) (\<lambda>parents.
     bind_r (levelsAbove cr depth parents) (\<lambda>levels. Inr (levels @ [nodes])))"

definition buildLevels :: "crypto \<Rightarrow> (string \<Rightarrow> string \<Rightarrow> bool) \<Rightarrow> jsval \<Rightarrow> tree_error + (string, string) jsmap list" where
  "buildLevels cr order accounts =
     (case accounts of
        JArr vs \<Rightarrow> bind_r (foldM (addLeaf cr order) [] vs) (levelsAbove cr ACCOUNT_TREE_DEPTH)
      | _ \<Rightarrow> Inl Tree_entries_invalid)"

definition accountStateRoot :: "crypto \<Rightarrow> (string \<Rightarrow> string \<Rightarrow> bool) \<Rightarrow> jsval \<Rightarrow> tree_error + string" where
  "accountStateRoot cr order accounts = bind_r (buildLevels cr order accounts) (\<lambda>levels. nodeAt cr 0 (levels ! 0) '''')"

section \<open>Proofs\<close>

text \<open>The sibling of the node of depth \<open>depth\<close> on the path.\<close>

definition siblingPath :: "string \<Rightarrow> nat \<Rightarrow> string" where
  "siblingPath path depth =
     (let prefix = take depth path in butlast prefix @ (if prefix \<noteq> [] \<and> last prefix = CHR ''0'' then ''1'' else ''0''))"

definition stateProof :: "jsval \<Rightarrow> string list \<Rightarrow> jsval" where
  "stateProof present siblings =
     JObj [(''exists'', present), (''format'', JStr ACCOUNT_STATE_FORMAT), (''siblings'', JArr (map JStr siblings))]"

definition proofFromLevels :: "crypto \<Rightarrow> jsval list \<Rightarrow> jsval \<Rightarrow> (string, string) jsmap list \<Rightarrow> tree_error + jsval" where
  "proofFromLevels cr accounts account levels =
     bind_r (addressBits account) (\<lambda>path.
     bind_r (mapM (\<lambda>depth. nodeAt cr depth (levels ! depth) (siblingPath path depth)) (rev [1..<Suc ACCOUNT_TREE_DEPTH])) (\<lambda>siblings.
     Inr (stateProof (JBool (list_ex (\<lambda>a. strict_eq (property a ''address'') account) accounts)) siblings)))"

definition createAccountStateProof :: "crypto \<Rightarrow> (string \<Rightarrow> string \<Rightarrow> bool) \<Rightarrow> jsval \<Rightarrow> jsval \<Rightarrow> tree_error + jsval" where
  "createAccountStateProof cr order accounts account =
     bind_r (buildLevels cr order accounts) (\<lambda>levels.
     case accounts of JArr vs \<Rightarrow> proofFromLevels cr vs account levels | _ \<Rightarrow> Inl Tree_entries_invalid)"

definition createAccountStateWitness :: "crypto \<Rightarrow> (string \<Rightarrow> string \<Rightarrow> bool) \<Rightarrow> jsval \<Rightarrow> jsval \<Rightarrow> tree_error + jsval" where
  "createAccountStateWitness cr order accounts account =
     bind_r (buildLevels cr order accounts) (\<lambda>levels.
     bind_r (nodeAt cr 0 (levels ! 0) '''') (\<lambda>root.
     case accounts of
       JArr vs \<Rightarrow> bind_r (proofFromLevels cr vs account levels) (\<lambda>p.
         Inr (JObj [(''accountStateRoot'', JStr root), (''inclusionProof'', p)]))
     | _ \<Rightarrow> Inl Tree_entries_invalid))"

text \<open>The loop over the bits of the path, the last one first, and the siblings.\<close>

fun climbPath :: "crypto \<Rightarrow> string \<Rightarrow> string \<Rightarrow> jsval list \<Rightarrow> codec_error + string" where
  "climbPath cr current bits [] = Inr current"
| "climbPath cr current bits (s # siblings) =
     bind_r (if bits \<noteq> [] \<and> hd bits = CHR ''0'' then nodeHash cr ACCOUNT_TREE (JStr current) s
             else nodeHash cr ACCOUNT_TREE s (JStr current))
       (\<lambda>h. climbPath cr h (tl bits) siblings)"

text \<open>\<open>typeof proof.exists\<close> and the siblings, of a proof that passes the first check.\<close>

definition stateProofFields :: "crypto \<Rightarrow> jsval \<Rightarrow> jsobj \<Rightarrow> jsval \<Rightarrow> jsval \<Rightarrow> tree_error + (bool \<times> jsval list)" where
  "stateProofFields cr account normalized proof expectedRoot =
     (case (property proof ''exists'', property proof ''siblings'') of
        (JBool present, JArr siblings) \<Rightarrow>
          if property proof ''format'' \<noteq> JStr ACCOUNT_STATE_FORMAT \<or> length siblings \<noteq> ACCOUNT_TREE_DEPTH \<or>
             \<not> list_all (\<lambda>hash. is_hex64 (coerced hash)) siblings \<or> \<not> is_hex64 (coerced expectedRoot)
          then Inl Tree_proof_invalid
          else bind_r (map_err Tree_encoding (strictCanonicalJson (nfc cr) (to_cval proof))) (\<lambda>text.
               if length (utf8 (map unat text)) > MAX_ACCOUNT_STATE_PROOF_BYTES then Inl Tree_proof_invalid
               else if present then Inr (present, siblings)
               else bind_r (map_err Tree_encoding (strictCanonicalJson (nfc cr) (to_cval (JObj normalized)))) (\<lambda>given.
                    bind_r (emptyAccountState cr (property account ''address'')) (\<lambda>none.
                    bind_r (map_err Tree_encoding (strictCanonicalJson (nfc cr) (to_cval (JObj none)))) (\<lambda>absent.
                    if given \<noteq> absent then Inl Tree_proof_invalid else Inr (present, siblings)))))
      | _ \<Rightarrow> Inl Tree_proof_invalid)"

definition verifyAccountStateProof ::
    "crypto \<Rightarrow> (string \<Rightarrow> string \<Rightarrow> bool) \<Rightarrow> jsval \<Rightarrow> jsval \<Rightarrow> jsval \<Rightarrow> tree_error + jsobj" where
  "verifyAccountStateProof cr order account proof expectedRoot =
     bind_r (normalizeAccountState cr order account) (\<lambda>normalized.
     bind_r (stateProofFields cr account normalized proof expectedRoot) (\<lambda>(present, siblings).
     bind_r (addressBits (property account ''address'')) (\<lambda>path.
     bind_r (stateLeaf cr order (JObj normalized) present) (\<lambda>l.
     bind_r (map_err Tree_encoding (climbPath cr l (rev path) siblings)) (\<lambda>current.
     if JStr current \<noteq> expectedRoot then Inl Tree_root_mismatch else Inr normalized)))))"

section \<open>Paths and positions\<close>

text \<open>The position of a path among those of its length.\<close>

definition pathNumber :: "string \<Rightarrow> nat" where
  "pathNumber path = foldl (\<lambda>n c. 2 * n + (if c = CHR ''0'' then 0 else 1)) 0 path"

definition is_path :: "nat \<Rightarrow> string \<Rightarrow> bool" where
  "is_path d path \<longleftrightarrow> length path = d \<and> set path \<subseteq> {CHR ''0'', CHR ''1''}"

lemma pathNumber_Nil [simp]: "pathNumber [] = 0"
  by (simp add: pathNumber_def)

lemma pathNumber_snoc [simp]: "pathNumber (path @ [c]) = 2 * pathNumber path + (if c = CHR ''0'' then 0 else 1)"
  by (simp add: pathNumber_def)

lemma is_path_Suc: "is_path (Suc d) k \<longleftrightarrow> (\<exists>path. is_path d path \<and> (k = path @ ''0'' \<or> k = path @ ''1''))"
proof
  assume k: "is_path (Suc d) k"
  then obtain path c where "k = path @ [c]" by (cases k rule: rev_cases) (auto simp: is_path_def)
  with k show "\<exists>path. is_path d path \<and> (k = path @ ''0'' \<or> k = path @ ''1'')" by (auto simp: is_path_def)
qed (auto simp: is_path_def)

lemma pathNumber_bound: "is_path d path \<Longrightarrow> pathNumber path < 2 ^ d"
proof (induction d arbitrary: path)
  case (Suc d)
  then obtain p where p: "is_path d p" "path = p @ ''0'' \<or> path = p @ ''1''" by (auto simp: is_path_Suc)
  from Suc.IH [OF p(1)] have "Suc (2 * pathNumber p) < 2 * 2 ^ d" by simp
  with p(2) show ?case by auto
qed (simp add: is_path_def)

lemma double_eq: "2 * m = Suc (2 * n) \<longleftrightarrow> False" "Suc (2 * m) = 2 * n \<longleftrightarrow> False" for m n :: nat
  by presburger+

lemma pathNumber_inj: "is_path d p \<Longrightarrow> is_path d q \<Longrightarrow> pathNumber p = pathNumber q \<Longrightarrow> p = q"
proof (induction d arbitrary: p q)
  case (Suc d)
  then obtain p' q' where "is_path d p'" "is_path d q'" "p = p' @ ''0'' \<or> p = p' @ ''1''" "q = q' @ ''0'' \<or> q = q' @ ''1''"
    by (auto simp: is_path_Suc)
  with Suc.IH [of p' q'] Suc.prems(3) show ?case by (auto simp: double_eq)
qed (simp add: is_path_def)

lemma climbPath_climb:
  "is_path (length siblings) path \<Longrightarrow> climbPath cr c (rev path) siblings = climb cr ACCOUNT_TREE c (pathNumber path) siblings"
proof (induction siblings arbitrary: path c)
  case (Cons s siblings)
  then obtain p where p: "is_path (length siblings) p" "path = p @ ''0'' \<or> path = p @ ''1''" by (auto simp: is_path_Suc)
  from p(2) show ?case
  proof
    assume "path = p @ ''0''"
    with Cons.IH [OF p(1)] show ?thesis by simp
  next
    assume path: "path = p @ ''1''"
    have "Suc (2 * pathNumber p) mod 2 \<noteq> 0" "Suc (2 * pathNumber p) div 2 = pathNumber p" by presburger+
    with path Cons.IH [OF p(1)] show ?thesis by simp
  qed
qed simp

lemma hexDigit_bound: "is_hex_digit c \<Longrightarrow> hexDigit c < 16"
  by (auto simp: is_hex_digit_def is_digit_def hexDigit_def)

lemma hexDigit_inj: "is_hex_digit c \<Longrightarrow> is_hex_digit e \<Longrightarrow> hexDigit c = hexDigit e \<Longrightarrow> c = e"
proof -
  assume "is_hex_digit c" "is_hex_digit e" "hexDigit c = hexDigit e"
  then have "unit_of c = unit_of e" unfolding is_hex_digit_def is_digit_def hexDigit_def by (simp split: if_splits) arith
  then show ?thesis by (simp add: unit_of_def)
qed

lemma digitBits_path: "is_path 4 (digitBits c)"
proof -
  have "bitChar n \<in> {CHR ''0'', CHR ''1''}" for n by (simp add: bitChar_def)
  then show ?thesis unfolding is_path_def digitBits_def set_map by (intro conjI image_subsetI) simp_all
qed

lemma bitChar_zero: "bitChar n = CHR ''0'' \<longleftrightarrow> n mod 2 = 0"
  by (simp add: bitChar_def)

lemma digitBits_number: "is_hex_digit c \<Longrightarrow> pathNumber (digitBits c) = hexDigit c"
proof -
  let ?n = "hexDigit c"
  assume "is_hex_digit c"
  then have "?n div 8 < 2" using hexDigit_bound [of c] by auto
  then have top: "?n div 8 mod 2 = ?n div 8" by simp
  have "?n div 8 = ?n div 4 div 2" "?n div 4 = ?n div 2 div 2" by (simp_all only: div_mult2_eq [symmetric]) simp_all
  then have halves: "2 * (?n div 8) + ?n div 4 mod 2 = ?n div 4" "2 * (?n div 4) + ?n div 2 mod 2 = ?n div 2"
      "2 * (?n div 2) + ?n mod 2 = ?n"
    by (metis mult_div_mod_eq)+
  have bit: "2 * m + (if bitChar k = CHR ''0'' then 0 else 1) = 2 * m + k mod 2" for m k
    by (simp add: bitChar_zero)
  have "pathNumber (digitBits c) = 2 * (2 * (2 * (2 * 0 + ?n div 8 mod 2) + ?n div 4 mod 2) + ?n div 2 mod 2) + ?n div 1 mod 2"
    unfolding pathNumber_def digitBits_def list.map foldl.simps bit by (rule refl)
  also have "\<dots> = ?n" by (simp only: top halves mult_0_right add_0 div_by_1)
  finally show ?thesis .
qed

lemma concat_path: "is_path (4 * length s) (concat (map digitBits s))"
  using digitBits_path by (induction s) (auto simp: is_path_def)

lemma concat_inj:
  "length s = length t \<Longrightarrow> list_all is_hex_digit s \<Longrightarrow> list_all is_hex_digit t \<Longrightarrow>
   concat (map digitBits s) = concat (map digitBits t) \<Longrightarrow> s = t"
proof (induction s t rule: list_induct2)
  case (Cons c s e t)
  have "length (digitBits c) = length (digitBits e)" using digitBits_path by (simp add: is_path_def)
  with Cons.prems(3) have eq: "digitBits c = digitBits e" "concat (map digitBits s) = concat (map digitBits t)" by simp_all
  from eq(1) digitBits_number [of c] digitBits_number [of e] Cons.prems(1,2) have "hexDigit c = hexDigit e" by simp
  with Cons.prems(1,2) hexDigit_inj have "c = e" by simp
  with Cons.IH [OF _ _ eq(2)] Cons.prems(1,2) show ?case by simp
qed simp

lemma addressBits_path: "addressBits (JStr a) = Inr path \<Longrightarrow> is_path ACCOUNT_TREE_DEPTH path"
proof -
  assume "addressBits (JStr a) = Inr path"
  then have a: "is_address a" "path = concat (map digitBits (drop 4 a))" by (simp_all add: addressBits_def split: if_splits)
  then have "length (drop 4 a) = 64" by (simp only: is_address_def is_hex64_def)
  then show ?thesis using concat_path [of "drop 4 a"] a(2) by (simp add: ACCOUNT_TREE_DEPTH_def)
qed

lemma addressBits_inj: "addressBits (JStr a) = Inr path \<Longrightarrow> addressBits (JStr b) = Inr path \<Longrightarrow> a = b"
proof -
  assume "addressBits (JStr a) = Inr path" "addressBits (JStr b) = Inr path"
  then have ab: "is_address a" "is_address b" "concat (map digitBits (drop 4 a)) = concat (map digitBits (drop 4 b))"
    by (simp_all add: addressBits_def split: if_splits)
  have parts: "take 4 x = ''nir1''" "length (drop 4 x) = 64" "list_all is_hex_digit (drop 4 x)" if "is_address x" for x
    using that by (simp_all only: is_address_def is_hex64_def)
  have "drop 4 a = drop 4 b"
    by (rule concat_inj [OF _ parts(3) [OF ab(1)] parts(3) [OF ab(2)] ab(3)]) (simp only: parts(2) [OF ab(1)] parts(2) [OF ab(2)])
  with parts(1) [OF ab(1)] parts(1) [OF ab(2)] show "a = b" by (metis append_take_drop_id)
qed

section \<open>The levels are those of the tree\<close>

lemma account_domains: "tree_domains ACCOUNT_TREE" "is_domain ''ACCOUNT_TREE_LEAF''"
  by code_simp+

text \<open>The level \<open>k\<close> above the leaves.\<close>

primrec stateLevel :: "crypto \<Rightarrow> nat \<Rightarrow> (nat \<Rightarrow> string option) \<Rightarrow> nat \<Rightarrow> string option" where
  "stateLevel cr 0 f = f"
| "stateLevel cr (Suc k) f = above (nodeOf cr ACCOUNT_TREE) (emptyOf cr ACCOUNT_TREE k) (stateLevel cr k f)"

text \<open>The nodes of a depth, by their paths, are those of a level, by their positions.\<close>

definition covers :: "nat \<Rightarrow> (string, string) jsmap \<Rightarrow> (nat \<Rightarrow> string option) \<Rightarrow> bool" where
  "covers d nodes f \<longleftrightarrow> (\<forall>k \<in> set (jkeys nodes). is_path d k) \<and> (\<forall>k. is_path d k \<longrightarrow> jget nodes k = f (pathNumber k))"

lemma level_root:
  "k \<le> d \<Longrightarrow> rootOf cr ACCOUNT_TREE d 0 f = rootOf cr ACCOUNT_TREE (d - k) k (stateLevel cr k f)"
proof (induction k)
  case (Suc k)
  then have "d - k = Suc (d - Suc k)" by simp
  with Suc show ?case using hashes.root_above [of cr ACCOUNT_TREE "d - Suc k" k "stateLevel cr k f"] by (simp del: treeRoot.simps)
qed simp

lemma level_hex:
  assumes "sound_hash cr" and "hex_leaves f"
  shows "hex_leaves (stateLevel cr k f)"
proof (induction k)
  case (Suc k)
  have e: "is_hex64 (emptyOf cr ACCOUNT_TREE k)" using empty_total [OF assms(1) account_domains(1)] by simp
  show ?case unfolding hex_leaves_def
  proof (intro allI impI)
    fix i x assume x: "stateLevel cr (Suc k) f i = Some x"
    define l where "l = (case stateLevel cr k f (2 * i) of None \<Rightarrow> emptyOf cr ACCOUNT_TREE k | Some x \<Rightarrow> x)"
    define r where "r = (case stateLevel cr k f (2 * i + 1) of None \<Rightarrow> emptyOf cr ACCOUNT_TREE k | Some x \<Rightarrow> x)"
    have "is_hex64 l" "is_hex64 r" using Suc e by (auto simp: l_def r_def hex_leaves_def split: option.split)
    moreover have "x = nodeOf cr ACCOUNT_TREE l r" using x by (auto simp: above_def l_def r_def split: option.splits)
    ultimately show "is_hex64 x" using node_total(2) [OF assms(1) account_domains(1)] by simp
  qed
qed (simp add: assms(2))

lemma nodeAt_total:
  assumes "sound_hash cr" and "covers depth nodes f" and "hex_leaves f" and "is_path depth k"
  shows "nodeAt cr depth nodes k = Inr (case f (pathNumber k) of None \<Rightarrow> emptyOf cr ACCOUNT_TREE (ACCOUNT_TREE_DEPTH - depth) | Some h \<Rightarrow> h)"
    and "is_hex64 (case f (pathNumber k) of None \<Rightarrow> emptyOf cr ACCOUNT_TREE (ACCOUNT_TREE_DEPTH - depth) | Some h \<Rightarrow> h)"
  using assms empty_total [OF assms(1) account_domains(1), of "ACCOUNT_TREE_DEPTH - depth"]
  by (auto simp: nodeAt_def emptyAt_def covers_def hex_leaves_def split: option.split)

text \<open>The loop over the parents of a level.\<close>

lemma parents_fold:
  assumes "\<And>p acc. p \<in> set ps \<Longrightarrow> addParent cr depth nodes acc p = Inr (jset p (g p) acc)"
  shows "\<exists>parents. foldM (addParent cr depth nodes) acc ps = Inr parents \<and>
    (\<forall>k. jget parents k = (if k \<in> set ps then Some (g k) else jget acc k))"
  using assms
proof (induction ps arbitrary: acc)
  case (Cons p ps)
  obtain parents where "foldM (addParent cr depth nodes) (jset p (g p) acc) ps = Inr parents"
      "\<forall>k. jget parents k = (if k \<in> set ps then Some (g k) else jget (jset p (g p) acc) k)"
    using Cons.IH [of "jset p (g p) acc"] Cons.prems by auto
  with Cons.prems [of p acc] show ?case by auto
qed simp

lemma jget_key: "k \<in> set (jkeys m) \<longleftrightarrow> jget m k \<noteq> None"
  by (simp add: jkeys_def jget_def map_of_eq_None_iff)

lemma parents_cover:
  assumes "sound_hash cr" and "covers (Suc depth) nodes f" and "hex_leaves f" and "Suc depth \<le> ACCOUNT_TREE_DEPTH"
  shows "\<exists>parents. foldM (addParent cr depth nodes) [] (uniq (map (take depth) (jkeys nodes))) = Inr parents \<and>
    covers depth parents (above (nodeOf cr ACCOUNT_TREE) (emptyOf cr ACCOUNT_TREE (ACCOUNT_TREE_DEPTH - Suc depth)) f)"
proof -
  let ?e = "emptyOf cr ACCOUNT_TREE (ACCOUNT_TREE_DEPTH - Suc depth)"
  let ?val = "\<lambda>i. case f i of None \<Rightarrow> ?e | Some h \<Rightarrow> h"
  let ?g = "\<lambda>p. nodeOf cr ACCOUNT_TREE (?val (2 * pathNumber p)) (?val (2 * pathNumber p + 1))"
  let ?ps = "uniq (map (take depth) (jkeys nodes))"
  have parent: "k \<in> set ?ps \<longleftrightarrow> is_path depth k \<and> (f (2 * pathNumber k) \<noteq> None \<or> f (2 * pathNumber k + 1) \<noteq> None)" for k
  proof
    assume "k \<in> set ?ps"
    then obtain key where key: "key \<in> set (jkeys nodes)" "k = take depth key" by auto
    with assms(2) have "is_path (Suc depth) key" by (simp add: covers_def)
    then obtain p where p: "is_path depth p" "key = p @ ''0'' \<or> key = p @ ''1''" by (auto simp: is_path_Suc)
    then have "k = p" using key(2) by (auto simp: is_path_def)
    moreover have "f (pathNumber key) \<noteq> None"
      using key(1) assms(2) \<open>is_path (Suc depth) key\<close> by (simp add: jget_key covers_def)
    ultimately show "is_path depth k \<and> (f (2 * pathNumber k) \<noteq> None \<or> f (2 * pathNumber k + 1) \<noteq> None)" using p by auto
  next
    assume k: "is_path depth k \<and> (f (2 * pathNumber k) \<noteq> None \<or> f (2 * pathNumber k + 1) \<noteq> None)"
    then have paths: "is_path (Suc depth) (k @ ''0'')" "is_path (Suc depth) (k @ ''1'')" by (auto simp: is_path_Suc)
    with k assms(2) have "jget nodes (k @ ''0'') \<noteq> None \<or> jget nodes (k @ ''1'') \<noteq> None" by (auto simp: covers_def)
    then have "k @ ''0'' \<in> set (jkeys nodes) \<or> k @ ''1'' \<in> set (jkeys nodes)" by (simp add: jget_key)
    moreover have "take depth (k @ s) = k" for s using k by (simp add: is_path_def)
    ultimately obtain key where "key \<in> set (jkeys nodes)" "take depth key = k" by metis
    then show "k \<in> set ?ps" by force
  qed
  have step: "addParent cr depth nodes acc p = Inr (jset p (?g p) acc)" if "p \<in> set ?ps" for p acc
  proof -
    have "is_path (Suc depth) (p @ ''0'')" "is_path (Suc depth) (p @ ''1'')" using that parent [of p] by (auto simp: is_path_Suc)
    note l = nodeAt_total [OF assms(1,2,3) this(1)] and r = nodeAt_total [OF assms(1,2,3) this(2)]
    from l r node_total(1) [OF assms(1) account_domains(1) l(2) r(2)] show ?thesis by (simp add: addParent_def)
  qed
  from parents_fold [of ?ps, OF step] obtain parents where parents: "foldM (addParent cr depth nodes) [] ?ps = Inr parents"
      "\<forall>k. jget parents k = (if k \<in> set ?ps then Some (?g k) else jget [] k)" by blast
  have "covers depth parents (above (nodeOf cr ACCOUNT_TREE) ?e f)"
    unfolding covers_def
  proof (intro conjI ballI allI impI)
    fix k assume "k \<in> set (jkeys parents)"
    then show "is_path depth k" using parents(2) parent [of k] by (auto simp: jget_key jget_def split: if_splits)
  next
    fix k assume "is_path depth k"
    then show "jget parents k = above (nodeOf cr ACCOUNT_TREE) ?e f (pathNumber k)"
      using parents(2) parent [of k] by (auto simp: above_def jget_def split: option.split)
  qed
  with parents(1) show ?thesis by blast
qed

lemma levels_cover:
  assumes "sound_hash cr" and "hex_leaves f"
  shows "depth \<le> ACCOUNT_TREE_DEPTH \<Longrightarrow> covers depth nodes (stateLevel cr (ACCOUNT_TREE_DEPTH - depth) f) \<Longrightarrow>
    \<exists>levels. levelsAbove cr depth nodes = Inr levels \<and> length levels = Suc depth \<and>
      (\<forall>j \<le> depth. covers j (levels ! j) (stateLevel cr (ACCOUNT_TREE_DEPTH - j) f))"
proof (induction depth arbitrary: nodes)
  case (Suc depth)
  obtain parents where p: "foldM (addParent cr depth nodes) [] (uniq (map (take depth) (jkeys nodes))) = Inr parents"
      "covers depth parents (above (nodeOf cr ACCOUNT_TREE) (emptyOf cr ACCOUNT_TREE (ACCOUNT_TREE_DEPTH - Suc depth))
        (stateLevel cr (ACCOUNT_TREE_DEPTH - Suc depth) f))"
    using parents_cover [OF assms(1) Suc.prems(2) level_hex [OF assms] Suc.prems(1)] by blast
  have "ACCOUNT_TREE_DEPTH - depth = Suc (ACCOUNT_TREE_DEPTH - Suc depth)" using Suc.prems(1) by simp
  then have "covers depth parents (stateLevel cr (ACCOUNT_TREE_DEPTH - depth) f)" using p(2) by simp
  then obtain levels where "levelsAbove cr depth parents = Inr levels" "length levels = Suc depth"
      "\<forall>j \<le> depth. covers j (levels ! j) (stateLevel cr (ACCOUNT_TREE_DEPTH - j) f)"
    using Suc.IH Suc.prems(1) by auto
  with p(1) Suc.prems(2) show ?case by (auto simp: nth_append le_Suc_eq)
qed simp

section \<open>The leaves\<close>

text \<open>The path and the leaf of an account.\<close>

definition stateEntry :: "crypto \<Rightarrow> (string \<Rightarrow> string \<Rightarrow> bool) \<Rightarrow> jsval \<Rightarrow> tree_error + string \<times> string" where
  "stateEntry cr order v =
     bind_r (normalizeAccountState cr order v) (\<lambda>n.
     bind_r (addressBits (fld n ''address'')) (\<lambda>path.
     bind_r (stateLeaf cr order (JObj n) True) (\<lambda>h. Inr (path, h))))"

definition stateLeaves :: "(string \<times> string) list \<Rightarrow> nat \<Rightarrow> string option" where
  "stateLeaves es = map_of (map (\<lambda>(path, h). (pathNumber path, h)) es)"

definition string_addresses :: "jsval list \<Rightarrow> bool" where
  "string_addresses vs \<longleftrightarrow> (\<forall>v \<in> set vs. \<exists>a. property v ''address'' = JStr a)"

lemma addLeaf_Inr:
  "addLeaf cr order leaves v = Inr leaves' \<longleftrightarrow>
     (\<exists>path h. stateEntry cr order v = Inr (path, h) \<and> \<not> jhas leaves path \<and> leaves' = jset path h leaves)"
  by (auto simp: addLeaf_def stateEntry_def bind_r_Inr_iff)

lemma leaves_fold:
  "foldM (addLeaf cr order) acc vs = Inr leaves \<longleftrightarrow>
     (\<exists>es. mapM (stateEntry cr order) vs = Inr es \<and> distinct (map fst es) \<and> (\<forall>e \<in> set es. \<not> jhas acc (fst e)) \<and>
        leaves = fold (\<lambda>(path, h). jset path h) es acc)"
proof (induction vs arbitrary: acc)
  case (Cons v vs)
  show ?case
  proof
    assume "foldM (addLeaf cr order) acc (v # vs) = Inr leaves"
    then obtain path h where e: "stateEntry cr order v = Inr (path, h)" "\<not> jhas acc path"
        "foldM (addLeaf cr order) (jset path h acc) vs = Inr leaves" by (auto simp: bind_r_Inr_iff addLeaf_Inr)
    from e(3) obtain es where "mapM (stateEntry cr order) vs = Inr es" "distinct (map fst es)" "\<forall>e \<in> set es. \<not> jhas (jset path h acc) (fst e)"
        "leaves = fold (\<lambda>(path, h). jset path h) es (jset path h acc)" unfolding Cons.IH by blast
    with e(1,2) show "\<exists>es. mapM (stateEntry cr order) (v # vs) = Inr es \<and> distinct (map fst es) \<and> (\<forall>e \<in> set es. \<not> jhas acc (fst e)) \<and>
        leaves = fold (\<lambda>(path, h). jset path h) es acc"
      by (intro exI [of _ "(path, h) # es"]) (auto simp: jhas_def split: if_splits)
  next
    assume "\<exists>es. mapM (stateEntry cr order) (v # vs) = Inr es \<and> distinct (map fst es) \<and> (\<forall>e \<in> set es. \<not> jhas acc (fst e)) \<and>
        leaves = fold (\<lambda>(path, h). jset path h) es acc"
    then obtain path h es where e: "stateEntry cr order v = Inr (path, h)" "mapM (stateEntry cr order) vs = Inr es"
        "distinct (map fst ((path, h) # es))" "\<forall>e \<in> set ((path, h) # es). \<not> jhas acc (fst e)"
        "leaves = fold (\<lambda>(path, h). jset path h) ((path, h) # es) acc" by (auto simp: bind_r_Inr_iff)
    then have "\<forall>e \<in> set es. \<not> jhas (jset path h acc) (fst e)" by (auto simp: jhas_def)
    with e have "foldM (addLeaf cr order) (jset path h acc) vs = Inr leaves" unfolding Cons.IH by auto
    with e show "foldM (addLeaf cr order) acc (v # vs) = Inr leaves"
      using addLeaf_Inr [of cr order acc v "jset path h acc"] by auto
  qed
qed auto

lemma fold_jget:
  "distinct (map fst es) \<Longrightarrow>
   jget (fold (\<lambda>(path, h). jset path h) es acc) k = (case map_of es k of None \<Rightarrow> jget acc k | Some h \<Rightarrow> Some h)"
proof (induction es arbitrary: acc)
  case (Cons e es)
  obtain path h where e: "e = (path, h)" by (cases e)
  with Cons.prems have "map_of es path = None" by (auto simp: map_of_eq_None_iff)
  with e Cons show ?case by (auto split: option.split)
qed simp

lemma stateLeaves_path:
  "\<forall>e \<in> set es. is_path d (fst e) \<Longrightarrow> is_path d k \<Longrightarrow> stateLeaves es (pathNumber k) = map_of es k"
proof (induction es)
  case (Cons e es)
  obtain path h where e: "e = (path, h)" by (cases e)
  with Cons.prems have "pathNumber path = pathNumber k \<longleftrightarrow> path = k" using pathNumber_inj by auto
  with e Cons show ?case by (auto simp: stateLeaves_def)
qed (simp add: stateLeaves_def)

lemma stateLeaves_in: "stateLeaves es i = Some h \<Longrightarrow> \<exists>path. (path, h) \<in> set es \<and> pathNumber path = i"
  by (auto simp: stateLeaves_def dest!: map_of_SomeD)

lemma normalize_fields:
  assumes "normalizeAccountState cr order v = Inr n"
  shows "fld n ''address'' = property v ''address''" and "is_address (coerced (property v ''address''))"
proof -
  from assms obtain history resources where
    "n = [(''address'', property v ''address''), (''atomicBalance'', property v ''atomicBalance''), (''history'', JObj history),
      (''nextNonce'', property v ''nextNonce''), (''resources'', resources)] \<and> is_address (coerced (property v ''address''))"
    unfolding normalizeAccountState_def Let_def
    by (auto simp: bind_r_Inr_iff split: option.splits jsval.splits if_splits)
  then show "fld n ''address'' = property v ''address''" "is_address (coerced (property v ''address''))" by (auto simp: fld_def)
qed

lemma entry_parts:
  assumes "stateEntry cr order v = Inr (path, h)" and "property v ''address'' = JStr a"
  shows "addressBits (JStr a) = Inr path" and "is_path ACCOUNT_TREE_DEPTH path"
    and "sound_hash cr \<Longrightarrow> is_hex64 h" and "\<exists>n. normalizeAccountState cr order v = Inr n \<and> stateLeaf cr order (JObj n) True = Inr h"
proof -
  from assms(1) obtain n where n: "normalizeAccountState cr order v = Inr n" "addressBits (fld n ''address'') = Inr path"
      "stateLeaf cr order (JObj n) True = Inr h" by (auto simp: stateEntry_def bind_r_Inr_iff)
  then show a: "addressBits (JStr a) = Inr path" using normalize_fields(1) [OF n(1)] assms(2) by simp
  show "is_path ACCOUNT_TREE_DEPTH path" by (rule addressBits_path [OF a])
  show "\<exists>n. normalizeAccountState cr order v = Inr n \<and> stateLeaf cr order (JObj n) True = Inr h" using n by blast
  show "is_hex64 h" if "sound_hash cr"
    using n(3) hash_hex [OF that] by (auto simp: stateLeaf_def bind_r_Inr_iff map_err_Inr_iff)
qed

lemma mapM_source: "mapM f xs = Inr ys \<Longrightarrow> y \<in> set ys \<Longrightarrow> \<exists>x \<in> set xs. f x = Inr y"
  by (induction xs arbitrary: ys) (auto simp: bind_r_Inr_iff)

lemma mapM_all: "mapM f xs = Inr ys \<Longrightarrow> x \<in> set xs \<Longrightarrow> \<exists>y \<in> set ys. f x = Inr y"
  by (induction xs arbitrary: ys) (auto simp: bind_r_Inr_iff)

text \<open>What the entries of accounts with string addresses are.\<close>

lemma entries_ok:
  assumes "mapM (stateEntry cr order) vs = Inr es" and "string_addresses vs"
  shows "\<forall>e \<in> set es. is_path ACCOUNT_TREE_DEPTH (fst e)" and "sound_hash cr \<Longrightarrow> hex_leaves (stateLeaves es)"
proof -
  have e: "is_path ACCOUNT_TREE_DEPTH path \<and> (sound_hash cr \<longrightarrow> is_hex64 h)" if in_es: "(path, h) \<in> set es" for path h
  proof -
    obtain v where v: "v \<in> set vs" "stateEntry cr order v = Inr (path, h)" using mapM_source [OF assms(1) in_es] by blast
    with assms(2) obtain a where "property v ''address'' = JStr a" by (auto simp: string_addresses_def)
    with entry_parts [OF v(2)] show ?thesis by blast
  qed
  then show "\<forall>e \<in> set es. is_path ACCOUNT_TREE_DEPTH (fst e)" by auto
  show "hex_leaves (stateLeaves es)" if "sound_hash cr"
    unfolding hex_leaves_def using e that by (blast dest: stateLeaves_in)
qed

lemma leaves_cover:
  assumes "mapM (stateEntry cr order) vs = Inr es" and "string_addresses vs" and "distinct (map fst es)"
  shows "covers ACCOUNT_TREE_DEPTH (fold (\<lambda>(path, h). jset path h) es []) (stateLeaves es)"
proof -
  note paths = entries_ok(1) [OF assms(1,2)]
  have get: "jget (fold (\<lambda>(path, h). jset path h) es []) k = map_of es k" for k
    using fold_jget [OF assms(3), of "[]" k] by (simp add: jget_def split: option.splits)
  show ?thesis unfolding covers_def
  proof (intro conjI ballI allI impI)
    fix k assume "k \<in> set (jkeys (fold (\<lambda>(path, h). jset path h) es []))"
    then obtain h where "(k, h) \<in> set es" by (auto simp: jget_key get dest: map_of_SomeD)
    with paths show "is_path ACCOUNT_TREE_DEPTH k" by auto
  next
    fix k assume "is_path ACCOUNT_TREE_DEPTH k"
    then show "jget (fold (\<lambda>(path, h). jset path h) es []) k = stateLeaves es (pathNumber k)"
      using stateLeaves_path [OF paths] by (simp add: get)
  qed
qed

lemma levels_root:
  assumes "sound_hash cr" and "mapM (stateEntry cr order) vs = Inr es" and "string_addresses vs" and "distinct (map fst es)"
  shows "accountStateRoot cr order (JArr vs) = Inr (rootOf cr ACCOUNT_TREE ACCOUNT_TREE_DEPTH 0 (stateLeaves es))"
proof -
  let ?f = "stateLeaves es" and ?nodes = "fold (\<lambda>(path, h). jset path h) es []"
  have hex: "hex_leaves ?f" by (rule entries_ok(2) [OF assms(2,3,1)])
  have "covers ACCOUNT_TREE_DEPTH ?nodes (stateLevel cr (ACCOUNT_TREE_DEPTH - ACCOUNT_TREE_DEPTH) ?f)"
    using leaves_cover [OF assms(2,3,4)] by simp
  from levels_cover [OF assms(1) hex order_refl this] obtain levels where
    levels: "levelsAbove cr ACCOUNT_TREE_DEPTH ?nodes = Inr levels" "covers 0 (levels ! 0) (stateLevel cr ACCOUNT_TREE_DEPTH ?f)"
    by auto
  have "foldM (addLeaf cr order) [] vs = Inr ?nodes"
    unfolding leaves_fold using assms(2,4) by (auto simp: jhas_def jget_def)
  then have built: "buildLevels cr order (JArr vs) = Inr levels" using levels(1) by (simp add: buildLevels_def)
  have "nodeAt cr 0 (levels ! 0) [] = Inr (case stateLevel cr ACCOUNT_TREE_DEPTH ?f 0 of None \<Rightarrow> emptyOf cr ACCOUNT_TREE ACCOUNT_TREE_DEPTH | Some h \<Rightarrow> h)"
    using nodeAt_total(1) [OF assms(1) levels(2) level_hex [OF assms(1) hex], of "[]"] by (simp add: is_path_def cong: option.case_cong)
  also have "(case stateLevel cr ACCOUNT_TREE_DEPTH ?f 0 of None \<Rightarrow> emptyOf cr ACCOUNT_TREE ACCOUNT_TREE_DEPTH | Some h \<Rightarrow> h) =
      rootOf cr ACCOUNT_TREE ACCOUNT_TREE_DEPTH 0 ?f"
    using level_root [OF order_refl, of cr ACCOUNT_TREE_DEPTH ?f] by simp
  finally show ?thesis using built by (simp add: accountStateRoot_def)
qed

lemma root_entries:
  assumes "sound_hash cr" and "string_addresses vs" and "accountStateRoot cr order (JArr vs) = Inr root"
  obtains es where "mapM (stateEntry cr order) vs = Inr es" and "distinct (map fst es)"
    and "merkleRoot cr ACCOUNT_TREE ACCOUNT_TREE_DEPTH (stateLeaves es) = Inr root"
proof -
  from assms(3) obtain leaves where "foldM (addLeaf cr order) [] vs = Inr leaves"
    by (auto simp: accountStateRoot_def buildLevels_def bind_r_Inr_iff)
  then obtain es where es: "mapM (stateEntry cr order) vs = Inr es" "distinct (map fst es)" unfolding leaves_fold by blast
  with levels_root [OF assms(1) es(1) assms(2) es(2)] assms(3)
    merkleRoot_total [OF assms(1) account_domains(1) entries_ok(2) [OF es(1) assms(2,1)], of ACCOUNT_TREE_DEPTH]
  show thesis by (intro that [OF es]) simp
qed

text \<open>
  C13: The root that is computed from the nodes above the accounts is that of the tree of height 256 over
  all addresses, whose leaf at an address is the hash of its account and everywhere else the empty leaf;
  it is computed exactly when every account is valid and no two have one address.
\<close>

theorem account_root_is_tree:
  assumes "sound_hash cr" and "string_addresses vs"
  shows "accountStateRoot cr order (JArr vs) = Inr root \<longleftrightarrow>
    (\<exists>es. mapM (stateEntry cr order) vs = Inr es \<and> distinct (map fst es) \<and>
      merkleRoot cr ACCOUNT_TREE ACCOUNT_TREE_DEPTH (stateLeaves es) = Inr root)"
proof
  assume "accountStateRoot cr order (JArr vs) = Inr root"
  then show "\<exists>es. mapM (stateEntry cr order) vs = Inr es \<and> distinct (map fst es) \<and>
      merkleRoot cr ACCOUNT_TREE ACCOUNT_TREE_DEPTH (stateLeaves es) = Inr root"
    using root_entries [OF assms] by metis
next
  assume "\<exists>es. mapM (stateEntry cr order) vs = Inr es \<and> distinct (map fst es) \<and>
      merkleRoot cr ACCOUNT_TREE ACCOUNT_TREE_DEPTH (stateLeaves es) = Inr root"
  then obtain es where es: "mapM (stateEntry cr order) vs = Inr es" "distinct (map fst es)"
      "merkleRoot cr ACCOUNT_TREE ACCOUNT_TREE_DEPTH (stateLeaves es) = Inr root" by blast
  with levels_root [OF assms(1) es(1) assms(2) es(2)]
    merkleRoot_total [OF assms(1) account_domains(1) entries_ok(2) [OF es(1) assms(2,1)], of ACCOUNT_TREE_DEPTH]
  show "accountStateRoot cr order (JArr vs) = Inr root" by simp
qed

section \<open>A normal state is its own normal form\<close>

abbreviation delegateKey :: "jsval \<Rightarrow> tree_error + string \<times> jsval" where
  "delegateKey d \<equiv> (case property d ''delegate'' of JStr a \<Rightarrow> Inr (a, d) | _ \<Rightarrow> Inl Tree_threw)"

lemma sortDelegations_many:
  "sortDelegations order ds =
     (if length ds = 1 then Inr ds
      else bind_r (mapM delegateKey ds) (\<lambda>keyed.
        if \<not> distinct (map fst keyed) then Inl Tree_delegations_duplicated
        else Inr (map snd (foldr (insertBy order) keyed []))))"
  by (cases ds rule: remdups_adj.cases) (simp_all add: sortDelegations_def)

lemma delegateKey_Inr: "delegateKey d = Inr x \<longleftrightarrow> snd x = d \<and> property d ''delegate'' = JStr (fst x)"
  by (cases x) (auto split: jsval.splits)

lemma mapM_keyed: "(\<And>x. x \<in> set xs \<Longrightarrow> f (snd x) = Inr x) \<Longrightarrow> mapM f (map snd xs) = Inr xs"
  by (induction xs) auto

lemma mapM_fixed: "(\<And>x. x \<in> set xs \<Longrightarrow> f x = Inr x) \<Longrightarrow> mapM f xs = Inr xs"
  by (induction xs) auto

lemma sort_again:
  assumes "\<And>a b. order a b \<Longrightarrow> \<not> order b a" and "sortDelegations order ds = Inr ds'"
  shows "sortDelegations order ds' = Inr ds'" and "set ds' = set ds" and "length ds' = length ds"
proof -
  have "sortDelegations order ds' = Inr ds' \<and> set ds' = set ds \<and> length ds' = length ds"
  proof (cases "length ds = 1")
    case True
    with assms(2) have "ds' = ds" by (simp add: sortDelegations_many)
    with assms(2) show ?thesis by simp
  next
    case False
    with assms(2) obtain keyed where keyed: "mapM delegateKey ds = Inr keyed" "distinct (map fst keyed)"
      and ds': "ds' = map snd (foldr (insertBy order) keyed [])"
      by (auto simp: sortDelegations_many bind_r_Inr_iff split: if_splits)
    let ?s = "foldr (insertBy order) keyed []"
    note perm = foldr_insertBy_mset [of order keyed]
    have in_s: "x \<in> set ?s \<longleftrightarrow> x \<in> set keyed" for x using perm by (metis set_mset_mset)
    have key: "delegateKey (snd x) = Inr x" if "x \<in> set keyed" for x
      using mapM_source [OF keyed(1) that] delegateKey_Inr by metis
    have again: "mapM delegateKey ds' = Inr ?s" unfolding ds' by (rule mapM_keyed) (use key in_s in blast)
    have "distinct (map fst ?s)" using perm keyed(2) by (metis mset_map mset_eq_imp_distinct_iff)
    moreover have "foldr (insertBy order) ?s [] = ?s" by (rule in_order_fold, rule foldr_in_order, rule assms(1))
    moreover have len: "length ds' = length ds" using perm mapM_length [OF keyed(1)] unfolding ds' by (metis length_map size_mset)
    moreover have "set ds' = set ds"
    proof -
      have "snd ` set keyed = set ds"
        using mapM_source [OF keyed(1)] mapM_all [OF keyed(1)] delegateKey_Inr by (force simp: image_iff)
      moreover have "set ?s = set keyed" using in_s by blast
      ultimately show ?thesis by (simp only: ds' set_map)
    qed
    ultimately show ?thesis
      using again False by (simp add: sortDelegations_many [of order "ds'"] ds' [symmetric] del: length_map)
  qed
  then show "sortDelegations order ds' = Inr ds'" "set ds' = set ds" "length ds' = length ds" by simp_all
qed

lemma checkDelegation_same: "checkDelegation account d = Inr d' \<Longrightarrow> d' = d"
  by (auto simp: checkDelegation_def split: if_splits option.splits)

lemma mapM_same: "mapM f xs = Inr ys \<Longrightarrow> (\<And>x y. f x = Inr y \<Longrightarrow> y = x) \<Longrightarrow> ys = xs"
  by (induction xs arbitrary: ys) (auto simp: bind_r_Inr_iff)

lemma property_cons: "property (JObj kvs) k = fld kvs k"
  by (simp add: property_def)

lemma escrow_again: "progressEscrow v = Inr w \<Longrightarrow> progressEscrow w = Inr w"
  unfolding progressEscrow_def by (auto simp: property_cons fld_def falsy_def split: if_splits)

lemma unstake_again: "normalizeUnstake v = Inr w \<Longrightarrow> normalizeUnstake w = Inr w"
  unfolding normalizeUnstake_def by (auto simp: property_cons fld_def falsy_def split: if_splits)

lemma history_again:
  assumes "normalizeAccountHistory cr v = Inr h"
  shows "normalizeAccountHistory cr (JObj h) = Inr h"
proof -
  obtain empty where empty: "EMPTY_ACCOUNT_HISTORY_ROOT cr = Inr empty"
    using assms by (auto simp: normalizeAccountHistory_def bind_r_Inr_iff)
  obtain obj where v: "v = JObj obj"
    using assms by (cases v) (auto simp: normalizeAccountHistory_def bind_r_Inr_iff)
  obtain n where n: "safe_int (fld obj ''count'') = Some n"
    using assms by (cases "safe_int (fld obj ''count'')") (auto simp: normalizeAccountHistory_def bind_r_Inr_iff v)
  show ?thesis
    using assms by (auto simp: normalizeAccountHistory_def empty v n fld_def [of "_ # _"] split: if_splits)
qed

lemma normalize_parts:
  assumes "normalizeAccountState cr order v = Inr n"
  obtains resources nextNonce ds pending delegations history refund reward where
    "resources = property v ''resources''" and "safe_int (property v ''nextNonce'') = Some nextNonce"
    and "property resources ''delegations'' = JArr ds"
    and "is_address (coerced (property v ''address''))" and "is_atomic (property v ''atomicBalance'')" and "0 \<le> nextNonce"
    and "is_atomic (property resources ''atomicStake'')" and "is_atomic (property resources ''availableTransferCredits'')"
    and "length ds \<le> 256" and "normalizeUnstake (property resources ''pendingUnstake'') = Inr pending"
    and "\<And>d. d \<in> set ds \<Longrightarrow> checkDelegation (property v ''address'') d = Inr d"
    and "sortDelegations order ds = Inr delegations"
    and "normalizeAccountHistory cr (property v ''history'') = Inr history"
    and "progressEscrow (property resources ''pendingProgressBondRefund'') = Inr refund"
    and "progressEscrow (property resources ''pendingProgressReward'') = Inr reward"
    and "n = [(''address'', property v ''address''), (''atomicBalance'', property v ''atomicBalance''),
      (''history'', JObj history), (''nextNonce'', property v ''nextNonce''),
      (''resources'', JObj [(''atomicStake'', property resources ''atomicStake''),
        (''availableTransferCredits'', property resources ''availableTransferCredits''),
        (''delegations'', JArr delegations), (''pendingUnstake'', pending),
        (''pendingProgressBondRefund'', refund), (''pendingProgressReward'', reward)])]"
proof -
  let ?r = "property v ''resources''"
  obtain nextNonce where nextNonce: "safe_int (property v ''nextNonce'') = Some nextNonce"
    using assms by (cases "safe_int (property v ''nextNonce'')") (auto simp: normalizeAccountState_def Let_def)
  obtain ds where ds: "property ?r ''delegations'' = JArr ds"
    using assms by (cases "property ?r ''delegations''") (auto simp: normalizeAccountState_def Let_def nextNonce)
  from assms have *: "(if \<not> is_address (coerced (property v ''address'')) \<or> \<not> is_atomic (property v ''atomicBalance'') \<or>
             nextNonce < 0 \<or> falsy (property v ''history'') \<or> \<not> is_atomic (property ?r ''atomicStake'') \<or>
             \<not> is_atomic (property ?r ''availableTransferCredits'') \<or> length ds > 256
          then Inl Tree_state_invalid
          else bind_r (normalizeUnstake (property ?r ''pendingUnstake'')) (\<lambda>pending.
               bind_r (mapM (checkDelegation (property v ''address'')) ds) (\<lambda>checked.
               bind_r (sortDelegations order checked) (\<lambda>delegations.
               bind_r (map_err Tree_history (normalizeAccountHistory cr (property v ''history''))) (\<lambda>history.
               bind_r (progressEscrow (property ?r ''pendingProgressBondRefund'')) (\<lambda>refund.
               bind_r (progressEscrow (property ?r ''pendingProgressReward'')) (\<lambda>reward.
               Inr [(''address'', property v ''address''), (''atomicBalance'', property v ''atomicBalance''),
                 (''history'', JObj history), (''nextNonce'', property v ''nextNonce''),
                 (''resources'', JObj [(''atomicStake'', property ?r ''atomicStake''),
                   (''availableTransferCredits'', property ?r ''availableTransferCredits''),
                   (''delegations'', JArr delegations), (''pendingUnstake'', pending),
                   (''pendingProgressBondRefund'', refund), (''pendingProgressReward'', reward)])]))))))) = Inr n"
    by (simp add: normalizeAccountState_def Let_def nextNonce ds)
  then obtain pending checked delegations history refund reward where
    b: "is_address (coerced (property v ''address''))" "is_atomic (property v ''atomicBalance'')" "\<not> nextNonce < 0"
      "is_atomic (property ?r ''atomicStake'')" "is_atomic (property ?r ''availableTransferCredits'')" "\<not> length ds > 256"
    and c: "normalizeUnstake (property ?r ''pendingUnstake'') = Inr pending"
      "mapM (checkDelegation (property v ''address'')) ds = Inr checked" "sortDelegations order checked = Inr delegations"
      "normalizeAccountHistory cr (property v ''history'') = Inr history"
      "progressEscrow (property ?r ''pendingProgressBondRefund'') = Inr refund"
      "progressEscrow (property ?r ''pendingProgressReward'') = Inr reward"
    and n: "n = [(''address'', property v ''address''), (''atomicBalance'', property v ''atomicBalance''),
      (''history'', JObj history), (''nextNonce'', property v ''nextNonce''),
      (''resources'', JObj [(''atomicStake'', property ?r ''atomicStake''),
        (''availableTransferCredits'', property ?r ''availableTransferCredits''),
        (''delegations'', JArr delegations), (''pendingUnstake'', pending),
        (''pendingProgressBondRefund'', refund), (''pendingProgressReward'', reward)])]"
    unfolding if_Inl_Inr_iff bind_r_Inr_iff map_err_Inr_iff by blast
  have same: "checked = ds" by (rule mapM_same [OF c(2) checkDelegation_same])
  have "checkDelegation (property v ''address'') d = Inr d" if "d \<in> set ds" for d
    using mapM_all [OF c(2) that] checkDelegation_same by metis
  with that [OF refl nextNonce ds b(1,2) _ b(4,5) _ c(1) _ c(3) [unfolded same] c(4,5,6) n] b(3,6) show thesis by simp
qed

lemma normalize_again:
  assumes "\<And>a b. order a b \<Longrightarrow> \<not> order b a" and "normalizeAccountState cr order v = Inr n"
  shows "normalizeAccountState cr order (JObj n) = Inr n"
  using assms(2)
proof (rule normalize_parts)
  fix resources nextNonce ds pending delegations history refund reward
  assume parts: "safe_int (property v ''nextNonce'') = Some nextNonce" "is_address (coerced (property v ''address''))"
      "is_atomic (property v ''atomicBalance'')" "0 \<le> nextNonce" "is_atomic (property resources ''atomicStake'')"
      "is_atomic (property resources ''availableTransferCredits'')" "length ds \<le> 256"
      "normalizeUnstake (property resources ''pendingUnstake'') = Inr pending"
    and check: "\<And>d. d \<in> set ds \<Longrightarrow> checkDelegation (property v ''address'') d = Inr d"
    and sorted: "sortDelegations order ds = Inr delegations"
    and rest: "normalizeAccountHistory cr (property v ''history'') = Inr history"
      "progressEscrow (property resources ''pendingProgressBondRefund'') = Inr refund"
      "progressEscrow (property resources ''pendingProgressReward'') = Inr reward"
    and n: "n = [(''address'', property v ''address''), (''atomicBalance'', property v ''atomicBalance''),
      (''history'', JObj history), (''nextNonce'', property v ''nextNonce''),
      (''resources'', JObj [(''atomicStake'', property resources ''atomicStake''),
        (''availableTransferCredits'', property resources ''availableTransferCredits''),
        (''delegations'', JArr delegations), (''pendingUnstake'', pending),
        (''pendingProgressBondRefund'', refund), (''pendingProgressReward'', reward)])]"
  note again = sort_again [OF assms(1) sorted]
  let ?r = "fld n ''resources''"
  have f: "fld n ''address'' = property v ''address''" "fld n ''atomicBalance'' = property v ''atomicBalance''"
      "fld n ''history'' = JObj history" "fld n ''nextNonce'' = property v ''nextNonce''"
      "property ?r ''atomicStake'' = property resources ''atomicStake''"
      "property ?r ''availableTransferCredits'' = property resources ''availableTransferCredits''"
      "property ?r ''delegations'' = JArr delegations" "property ?r ''pendingUnstake'' = pending"
      "property ?r ''pendingProgressBondRefund'' = refund" "property ?r ''pendingProgressReward'' = reward"
    by (simp_all add: n property_cons fld_def)
  have "mapM (checkDelegation (property v ''address'')) delegations = Inr delegations"
    by (rule mapM_fixed) (use check again(2) in blast)
  with parts again(1,3) unstake_again [OF parts(8)] history_again [OF rest(1)] escrow_again [OF rest(2)] escrow_again [OF rest(3)]
  show ?thesis unfolding normalizeAccountState_def Let_def property_cons f by (simp add: falsy_def n)
qed

section \<open>What a proof shows\<close>

text \<open>The byte strings hashed for the accounts of a tree, for the nodes above them and for the empty leaf.\<close>

definition stateInputs :: "crypto \<Rightarrow> (string \<Rightarrow> string \<Rightarrow> bool) \<Rightarrow> jsval list \<Rightarrow> bytes set" where
  "stateInputs cr order vs =
     {b. \<exists>v \<in> set vs. \<exists>n. normalizeAccountState cr order v = Inr n \<and> b \<in> hashInput cr (JObj n) ''ACCOUNT_TREE_LEAF''} \<union>
     {b. \<exists>es. mapM (stateEntry cr order) vs = Inr es \<and> b \<in> treeInputs cr ACCOUNT_TREE ACCOUNT_TREE_DEPTH (stateLeaves es)} \<union>
     hashInput cr JNull ''ACCOUNT_TREE_EMPTY_LEAF''"

lemma stateProof_Inr:
  assumes "stateProofFields cr account normalized proof expectedRoot = Inr (present, siblings)"
  shows "property proof ''exists'' = JBool present" and "property proof ''siblings'' = JArr siblings"
    and "length siblings = ACCOUNT_TREE_DEPTH"
    and "\<not> present \<Longrightarrow> \<exists>none. emptyAccountState cr (property account ''address'') = Inr none \<and>
      canon (to_cval (JObj normalized)) = canon (to_cval (JObj none))"
proof -
  obtain b ss where f: "property proof ''exists'' = JBool b" "property proof ''siblings'' = JArr ss"
    using assms by (auto simp: stateProofFields_def split: jsval.splits)
  from assms obtain printed where len: "length ss = ACCOUNT_TREE_DEPTH"
    and rest: "(if b then Inr (b, ss)
       else bind_r (map_err Tree_encoding (strictCanonicalJson (nfc cr) (to_cval (JObj normalized)))) (\<lambda>given.
            bind_r (emptyAccountState cr (property account ''address'')) (\<lambda>none.
            bind_r (map_err Tree_encoding (strictCanonicalJson (nfc cr) (to_cval (JObj none)))) (\<lambda>absent.
            if given \<noteq> absent then Inl Tree_proof_invalid else Inr (b, ss))))) = Inr (present, siblings)"
    unfolding stateProofFields_def f by (auto simp: bind_r_Inr_iff map_err_Inr_iff simp del: to_cval.simps split: if_splits)
  have "b = present \<and> ss = siblings"
    using rest by (cases b) (auto simp: bind_r_Inr_iff simp del: to_cval.simps split: if_splits)
  with f len show "property proof ''exists'' = JBool present" "property proof ''siblings'' = JArr siblings"
    "length siblings = ACCOUNT_TREE_DEPTH" by simp_all
  show "\<exists>none. emptyAccountState cr (property account ''address'') = Inr none \<and>
      canon (to_cval (JObj normalized)) = canon (to_cval (JObj none))" if "\<not> present"
  proof -
    have "\<not> b" using \<open>b = present \<and> ss = siblings\<close> that by simp
    with rest obtain printed none where "strictCanonicalJson (nfc cr) (to_cval (JObj normalized)) = Inr printed"
        "emptyAccountState cr (property account ''address'') = Inr none" "strictCanonicalJson (nfc cr) (to_cval (JObj none)) = Inr printed"
      by (auto simp: bind_r_Inr_iff map_err_Inr_iff simp del: to_cval.simps split: if_splits)
    with canonical_json_inj show ?thesis by blast
  qed
qed

lemma stateLeaf_hash:
  assumes "\<And>a b. order a b \<Longrightarrow> \<not> order b a" and "normalizeAccountState cr order v = Inr n" and "stateLeaf cr order (JObj n) True = Inr h"
  shows "hashObject cr (JObj n) ''ACCOUNT_TREE_LEAF'' = Inr h"
  using assms(3) normalize_again [OF assms(1,2)] by (simp add: stateLeaf_def map_err_Inr_iff ACCOUNT_TREE_def)

lemma leaf_domains: "mk_leaf ACCOUNT_TREE = ''ACCOUNT_TREE_LEAF''" "mk_empty ACCOUNT_TREE = ''ACCOUNT_TREE_EMPTY_LEAF''"
  by (simp_all add: ACCOUNT_TREE_def)

lemma states_hashed:
  assumes "\<And>a b. order a b \<Longrightarrow> \<not> order b a" and "mapM (stateEntry cr order) vs = Inr es" and "stateInputs cr order vs \<subseteq> B"
  shows "hashed_leaves cr ACCOUNT_TREE B (stateLeaves es)"
  unfolding hashed_leaves_def
proof (intro allI impI)
  fix i h assume "stateLeaves es i = Some h"
  then obtain path where in_es: "(path, h) \<in> set es" using stateLeaves_in by blast
  obtain v where v: "v \<in> set vs" "stateEntry cr order v = Inr (path, h)" using mapM_source [OF assms(2) in_es] by blast
  then obtain n where n: "normalizeAccountState cr order v = Inr n" "stateLeaf cr order (JObj n) True = Inr h"
    by (auto simp: stateEntry_def bind_r_Inr_iff)
  have "hashInput cr (JObj n) ''ACCOUNT_TREE_LEAF'' \<subseteq> B" using v(1) n(1) assms(3) by (auto simp: stateInputs_def)
  with stateLeaf_hash [OF assms(1) n] show "\<exists>w. hashObject cr w (mk_leaf ACCOUNT_TREE) = Inr h \<and> hashInput cr w (mk_leaf ACCOUNT_TREE) \<subseteq> B"
    unfolding leaf_domains by blast
qed

text \<open>
  C8: A proof that verifies against the root of the accounts tells the truth about an address. If it says
  that the account exists, the accounts have one whose state has the same canonical form; if it says that
  there is none, no account has the address and the state is the empty one. This supposes that no two of the
  byte strings hashed for the accounts and for the proof collide.
\<close>

theorem accepted_state_is_of_the_accounts:
  assumes "sound_hash cr" and "\<And>a b. order a b \<Longrightarrow> \<not> order b a" and "string_addresses vs"
    and "accountStateRoot cr order (JArr vs) = Inr root" and "property account ''address'' = JStr a"
    and "verifyAccountStateProof cr order account proof (JStr root) = Inr n"
    and "property proof ''exists'' = JBool present" and "property proof ''siblings'' = JArr siblings"
    and "stateLeaf cr order (JObj n) present = Inr l" and "addressBits (JStr a) = Inr path"
    and "inj_on (sha3_hex cr) (stateInputs cr order vs \<union> hashInput cr (JObj n) ''ACCOUNT_TREE_LEAF'' \<union>
      pathInputs cr ACCOUNT_TREE l (pathNumber path) siblings)"
  shows "if present then \<exists>v \<in> set vs. \<exists>m. property v ''address'' = JStr a \<and> normalizeAccountState cr order v = Inr m \<and>
       canon (to_cval (JObj m)) = canon (to_cval (JObj n))
     else (\<forall>v \<in> set vs. property v ''address'' \<noteq> JStr a) \<and>
       (\<exists>none. emptyAccountState cr (JStr a) = Inr none \<and> canon (to_cval (JObj n)) = canon (to_cval (JObj none)))"
proof -
  let ?B = "stateInputs cr order vs \<union> hashInput cr (JObj n) ''ACCOUNT_TREE_LEAF'' \<union>
      pathInputs cr ACCOUNT_TREE l (pathNumber path) siblings"
  obtain es where es: "mapM (stateEntry cr order) vs = Inr es" "distinct (map fst es)"
    and tree: "merkleRoot cr ACCOUNT_TREE ACCOUNT_TREE_DEPTH (stateLeaves es) = Inr root"
    by (rule root_entries [OF assms(1,3,4)])
  from assms(6) obtain present' siblings' path' l' where n: "normalizeAccountState cr order account = Inr n"
    and v: "stateProofFields cr account n proof (JStr root) = Inr (present', siblings')"
      "addressBits (property account ''address'') = Inr path'" "stateLeaf cr order (JObj n) present' = Inr l'"
      "climbPath cr l' (rev path') siblings' = Inr root"
    by (auto simp: verifyAccountStateProof_def bind_r_Inr_iff map_err_Inr_iff split: if_splits)
  note f = stateProof_Inr [OF v(1)]
  have same: "present' = present" "siblings' = siblings" "path' = path" "l' = l"
    using f(1,2) v(2,3) assms(5,7-10) by auto
  note paths = entries_ok(1) [OF es(1) assms(3)] and path = addressBits_path [OF assms(10)]
  have climb: "climb cr ACCOUNT_TREE l (pathNumber path) siblings = Inr root"
    using v(4) climbPath_climb [of siblings path cr l] path f(3) unfolding same by simp
  have hashed: "hashed_leaves cr ACCOUNT_TREE ?B (stateLeaves es)" by (rule states_hashed [OF assms(2) es(1)]) (assumption | intro le_supI1 order_refl)+
  have inputs: "treeInputs cr ACCOUNT_TREE ACCOUNT_TREE_DEPTH (stateLeaves es) \<subseteq> ?B" "pathInputs cr ACCOUNT_TREE l (pathNumber path) siblings \<subseteq> ?B"
    using es(1) by (auto simp: stateInputs_def)
  have leaf: "leaf_or_empty cr ACCOUNT_TREE ?B (if present then Some l else None) l"
  proof (cases present)
    case True
    with assms(9) have "hashObject cr (JObj n) ''ACCOUNT_TREE_LEAF'' = Inr l" using stateLeaf_hash [OF assms(2) n] by simp
    with True show ?thesis unfolding leaf_or_empty_def leaf_domains by auto
  next
    case False
    with assms(9) have "hashObject cr JNull ''ACCOUNT_TREE_EMPTY_LEAF'' = Inr l"
      by (simp add: stateLeaf_def emptyAt_def map_err_Inr_iff leaf_domains)
    with False show ?thesis unfolding leaf_or_empty_def leaf_domains by (auto simp: stateInputs_def)
  qed
  have "length siblings = ACCOUNT_TREE_DEPTH" using f(3) same(2) by simp
  with path_to_leaf [OF account_domains(1) assms(11) leaf tree climb inputs hashed]
  have at: "map_of es path = (if present then Some l else None)"
    using pathNumber_bound [OF path] stateLeaves_path [OF paths path] by simp
  show ?thesis
  proof (cases present)
    case True
    with at have in_es: "(path, l) \<in> set es" by (auto dest: map_of_SomeD)
    obtain v where w: "v \<in> set vs" "stateEntry cr order v = Inr (path, l)" using mapM_source [OF es(1) in_es] by blast
    with assms(3) obtain b where b: "property v ''address'' = JStr b" by (auto simp: string_addresses_def)
    note e = entry_parts [OF w(2) b]
    obtain m where m: "normalizeAccountState cr order v = Inr m" "stateLeaf cr order (JObj m) True = Inr l" using e(4) by blast
    have "hashInput cr (JObj m) ''ACCOUNT_TREE_LEAF'' \<subseteq> ?B" using w(1) m(1) by (auto simp: stateInputs_def)
    moreover have "stateLeaf cr order (JObj n) True = Inr l" using assms(9) True by simp
    ultimately have "canon (to_cval (JObj m)) = canon (to_cval (JObj n))"
      using same_hash [OF stateLeaf_hash [OF assms(2) m] stateLeaf_hash [OF assms(2) n] assms(11)] by blast
    with True w(1) m(1) b addressBits_inj [OF e(1) assms(10)] show ?thesis by auto
  next
    case False
    have "property v ''address'' \<noteq> JStr a" if in_vs: "v \<in> set vs" for v
    proof
      assume b: "property v ''address'' = JStr a"
      obtain q h where q: "stateEntry cr order v = Inr (q, h)" "(q, h) \<in> set es" using mapM_all [OF es(1) in_vs] by auto
      then have "q = path" using entry_parts(1) [OF q(1) b] assms(10) by simp
      with q(2) have "map_of es path \<noteq> None" using weak_map_of_SomeI [of q h es] by auto
      with at False show False by simp
    qed
    with False f(4) same(1) assms(5) show ?thesis by simp
  qed
qed

section \<open>An account to evaluate\<close>

text \<open>The tree of one account, at address 0, hashed without collisions; delegates are ordered by code units.\<close>

definition codeUnitsAfter :: "string \<Rightarrow> string \<Rightarrow> bool" where
  "codeUnitsAfter a b \<longleftrightarrow> foldl (\<lambda>n c. 256 * n + unit_of c) 0 b < foldl (\<lambda>n c. 256 * n + unit_of c) 0 a"

definition demo_owner :: string where
  "demo_owner = ''nir1'' @ replicate 64 CHR ''0''"

definition demo_state :: jsobj where
  "demo_state = [(''address'', JStr demo_owner), (''atomicBalance'', JStr ''5''),
     (''history'', JObj [(''count'', JNum 1), (''format'', JStr ACCOUNT_HISTORY_FORMAT), (''root'', JStr (replicate 64 CHR ''e''))]),
     (''nextNonce'', JNum 0),
     (''resources'', JObj [(''atomicStake'', JStr ''0''), (''availableTransferCredits'', JStr ''0''), (''delegations'', JArr []),
       (''pendingUnstake'', JNull), (''pendingProgressBondRefund'', JNull), (''pendingProgressReward'', JNull)])]"

abbreviation demo_hashes :: crypto where
  "demo_hashes \<equiv> numbered ACCOUNT_TREE 256 (JObj demo_state)"

definition demo_state_proof :: jsval where
  "demo_state_proof = stateProof (JBool True) (map hex_number [0..<256])"

lemma codeUnitsAfter_antisym: "codeUnitsAfter a b \<Longrightarrow> \<not> codeUnitsAfter b a"
  by (simp add: codeUnitsAfter_def)

lemma demo_state_ok: "single_ok ACCOUNT_TREE 256 (JObj demo_state)"
proof -
  have "json_ok (JObj demo_state)" by code_simp
  then show ?thesis by (simp add: single_ok_def account_domains)
qed

lemma demo_history_normal:
  "normalizeAccountHistory demo_hashes (JObj [(''count'', JNum 1), (''format'', JStr ACCOUNT_HISTORY_FORMAT), (''root'', JStr (replicate 64 CHR ''e''))]) =
   Inr [(''count'', JNum 1), (''format'', JStr ACCOUNT_HISTORY_FORMAT), (''root'', JStr (replicate 64 CHR ''e''))]"
proof -
  obtain k where "emptyOf demo_hashes ACCOUNT_HISTORY (Suc 31) = hex_number k"
    using numbered_value unfolding emptyOf.simps nodeOf_def by metis
  then have "EMPTY_ACCOUNT_HISTORY_ROOT demo_hashes = Inr (hex_number k)"
    using empty_history_root [OF numbered_sound, of ACCOUNT_TREE 256 "JObj demo_state"] by (simp add: ACCOUNT_HISTORY_DEPTH_def del: emptyOf.simps)
  moreover have "hd (replicate 64 CHR ''e'') \<noteq> hd (hex_number k)" by (simp add: hex_number_def hd_append)
  then have "replicate 64 CHR ''e'' \<noteq> hex_number k" by metis
  moreover have "is_hex64 (replicate 64 CHR ''e'')" by code_simp
  moreover note \<open>replicate 64 CHR ''e'' \<noteq> hex_number k\<close>
  ultimately show ?thesis
    by (simp add: normalizeAccountHistory_def fld_def [of "_ # _"] MAX_HISTORY_COUNT_def MAX_SAFE_INTEGER_def)
qed

lemma demo_normal: "normalizeAccountState demo_hashes order (JObj demo_state) = Inr demo_state"
proof -
  let ?R = "JObj [(''atomicStake'', JStr ''0''), (''availableTransferCredits'', JStr ''0''),
        (''delegations'', JArr []), (''pendingUnstake'', JNull), (''pendingProgressBondRefund'', JNull), (''pendingProgressReward'', JNull)]"
  let ?H = "[(''count'', JNum 1), (''format'', JStr ACCOUNT_HISTORY_FORMAT), (''root'', JStr (replicate 64 CHR ''e''))]"
  have f: "property (JObj demo_state) ''address'' = JStr demo_owner" "property (JObj demo_state) ''atomicBalance'' = JStr ''5''"
      "property (JObj demo_state) ''nextNonce'' = JNum 0" "property (JObj demo_state) ''history'' = JObj ?H"
      "property (JObj demo_state) ''resources'' = ?R"
    by (simp_all add: demo_state_def property_cons fld_def)
  have r: "property ?R ''atomicStake'' = JStr ''0''" "property ?R ''availableTransferCredits'' = JStr ''0''"
      "property ?R ''delegations'' = JArr []" "property ?R ''pendingUnstake'' = JNull"
      "property ?R ''pendingProgressBondRefund'' = JNull" "property ?R ''pendingProgressReward'' = JNull"
    by (simp_all add: property_cons fld_def)
  have ok: "is_address (coerced (JStr demo_owner))" "is_atomic (JStr ''5'')" "is_atomic (JStr ''0'')" "safe_int (JNum 0) = Some 0"
      "\<not> falsy (JObj ?H)" by code_simp+
  have none: "normalizeUnstake JNull = Inr JNull" "progressEscrow JNull = Inr JNull" "sortDelegations order [] = Inr []"
    by (simp_all add: normalizeUnstake_def progressEscrow_def sortDelegations_def)
  have "normalizeAccountState demo_hashes order (JObj demo_state) =
      Inr [(''address'', JStr demo_owner), (''atomicBalance'', JStr ''5''), (''history'', JObj ?H), (''nextNonce'', JNum 0), (''resources'', ?R)]"
    unfolding normalizeAccountState_def Let_def f r using ok none demo_history_normal by simp
  then show ?thesis by (simp only: demo_state_def)
qed

lemma demo_path: "addressBits (JStr demo_owner) = Inr (replicate 256 CHR ''0'')"
  by code_simp

lemma zero_path: "pathNumber (replicate n CHR ''0'') = 0"
proof (induction n)
  case (Suc n)
  then show ?case unfolding replicate_append_same [symmetric] replicate_Suc by simp
qed simp

lemma demo_entry_state: "mapM (stateEntry demo_hashes order) [JObj demo_state] = Inr [(replicate 256 CHR ''0'', hex_number 257)]"
proof -
  have "fld demo_state ''address'' = JStr demo_owner" by (simp add: demo_state_def fld_def)
  moreover have "stateLeaf demo_hashes order (JObj demo_state) True = Inr (hex_number 257)"
    using numbered_leaf [OF demo_state_ok] by (simp add: stateLeaf_def demo_normal)
  ultimately show ?thesis by (simp add: stateEntry_def demo_normal demo_path)
qed

lemma demo_state_leaves: "stateLeaves [(replicate 256 CHR ''0'', h)] = leavesOf [h]"
  by (simp add: stateLeaves_def leavesOf_def fun_eq_iff zero_path)

lemma demo_addresses: "string_addresses [JObj demo_state]"
  by (simp add: string_addresses_def demo_state_def property_cons fld_def)

lemma demo_root: "accountStateRoot demo_hashes order (JArr [JObj demo_state]) = Inr (hex_number 513)"
  using levels_root [OF numbered_sound demo_entry_state demo_addresses] numbered_root [OF demo_state_ok order_refl]
  by (simp add: demo_state_leaves ACCOUNT_TREE_DEPTH_def del: treeRoot.simps)

theorem account_root_is_tree_witness:
  "accountStateRoot demo_hashes codeUnitsAfter (JArr [JObj demo_state]) = Inr (hex_number 513) \<and>
   merkleRoot demo_hashes ACCOUNT_TREE ACCOUNT_TREE_DEPTH (leavesOf [hex_number 257]) = Inr (hex_number 513)"
  using account_root_is_tree [OF numbered_sound demo_addresses, of ACCOUNT_TREE 256 "JObj demo_state" codeUnitsAfter "hex_number 513"]
    demo_root [of codeUnitsAfter] demo_entry_state [of codeUnitsAfter]
  by (simp only: demo_state_leaves sum.inject simp_thms)

lemma state_proof_small:
  assumes "keeps_ascii cr" and "list_all is_hex64 ss" and "length ss \<le> 256"
  obtains t where "strictCanonicalJson (nfc cr) (to_cval (stateProof (JBool b) ss)) = Inr t"
    and "length (utf8 (map unat t)) \<le> MAX_ACCOUNT_STATE_PROOF_BYTES"
proof -
  let ?p = "stateProof (JBool b) ss"
  have len: "map length ss = replicate (length ss) 64"
    using assms(2) by (intro nth_equalityI) (auto simp: list_all_length is_hex64_def)
  have sizes: "sum_list (map (\<lambda>x. 5 + length x) ss) = 69 * length ss" "sum_list (map (\<lambda>x. Suc (2 + length x)) ss) = 67 * length ss"
    using len by (simp_all add: sum_list_addf sum_list_triv sum_list_Suc sum_list_replicate)
  have keys: "ascii_string ''exists''" "ascii_string ''format''" "ascii_string ''siblings''" "ascii_string ACCOUNT_STATE_FORMAT"
      "printable ''exists''" "printable ''format''" "printable ''siblings''" "printable ACCOUNT_STATE_FORMAT" by code_simp+
  have "list_all ascii_string ss" using assms(2) hex_ascii by (auto simp: list_all_iff)
  with assms sizes keys have "json_ok ?p"
    by (auto simp: stateProof_def json_ok_def MAX_DEPTH_def MAX_CONTAINER_ENTRIES_def MAX_ENCODED_BYTES_def
        o_def list_all_iff ACCOUNT_STATE_FORMAT_def)
  then have t: "strictCanonicalJson (nfc cr) (to_cval ?p) = Inr (text_of (canon (to_cval ?p)))"
    by (rule strictCanonicalJson_ok [OF assms(1)])
  have "plain_text ?p" using assms(2) hex_printable keys by (auto simp: list_all_iff stateProof_def)
  then have "length (utf8 (map unat (text_of (canon (to_cval ?p))))) \<le> text_size ?p"
    by (intro small_text_bytes plain_text_small)
  also have "\<dots> \<le> MAX_ACCOUNT_STATE_PROOF_BYTES"
    using sizes(2) assms(3) by (simp add: o_def stateProof_def ACCOUNT_STATE_FORMAT_def MAX_ACCOUNT_STATE_PROOF_BYTES_def)
  finally show thesis by (rule that [OF t])
qed

lemma demo_siblings: "map JStr (map hex_number [0..<256]) = map (\<lambda>k. JStr (hex_number k)) [0..<256]"
  by (simp add: o_def del: upt_rec_numeral upt.simps)

lemma demo_verified:
  "verifyAccountStateProof demo_hashes order (JObj demo_state) demo_state_proof (JStr (hex_number 513)) = Inr demo_state"
proof -
  let ?ss = "map hex_number [0..<256]"
  obtain t where t: "strictCanonicalJson (nfc demo_hashes) (to_cval demo_state_proof) = Inr t"
      "length (utf8 (map unat t)) \<le> MAX_ACCOUNT_STATE_PROOF_BYTES"
    using state_proof_small [OF numbered_ascii [of ACCOUNT_TREE 256 "JObj demo_state"], of ?ss True] hex_number_hex
    unfolding demo_state_proof_def by (auto simp: list_all_iff simp del: upt_rec_numeral upt.simps)
  have f: "property demo_state_proof ''exists'' = JBool True" "property demo_state_proof ''format'' = JStr ACCOUNT_STATE_FORMAT"
      "property demo_state_proof ''siblings'' = JArr (map JStr ?ss)"
    by (simp_all add: demo_state_proof_def stateProof_def property_cons fld_def del: upt_rec_numeral upt.simps)
  have "list_all (\<lambda>hash. is_hex64 (coerced hash)) (map JStr ?ss)"
    using hex_number_hex by (simp add: list_all_iff del: upt_rec_numeral upt.simps)
  then have fields: "stateProofFields demo_hashes (JObj demo_state) demo_state demo_state_proof (JStr (hex_number 513)) = Inr (True, map JStr ?ss)"
    using t hex_number_hex unfolding stateProofFields_def f
    by (simp add: ACCOUNT_TREE_DEPTH_def del: upt_rec_numeral upt.simps to_cval.simps)
  have "climbPath demo_hashes (hex_number 257) (rev (replicate 256 CHR ''0'')) (map JStr ?ss) =
      climb demo_hashes ACCOUNT_TREE (hex_number 257) (pathNumber (replicate 256 CHR ''0'')) (map JStr ?ss)"
    by (rule climbPath_climb) (simp add: is_path_def del: upt_rec_numeral upt.simps)
  then have climb: "climbPath demo_hashes (hex_number 257) (rev (replicate 256 CHR ''0'')) (map JStr ?ss) = Inr (hex_number 513)"
    using numbered_climb [OF demo_state_ok order_refl] unfolding zero_path demo_siblings by simp
  have leaf: "stateLeaf demo_hashes order (JObj demo_state) True = Inr (hex_number 257)"
    using numbered_leaf [OF demo_state_ok] by (simp add: stateLeaf_def demo_normal)
  have "property (JObj demo_state) ''address'' = JStr demo_owner" by (simp add: demo_state_def property_cons fld_def)
  then show ?thesis
    unfolding verifyAccountStateProof_def demo_normal
    using fields climb leaf demo_path by (simp del: upt_rec_numeral upt.simps)
qed

theorem accepted_state_is_of_the_accounts_witness:
  "\<exists>v \<in> set [JObj demo_state]. \<exists>m. property v ''address'' = JStr demo_owner \<and>
     normalizeAccountState demo_hashes codeUnitsAfter v = Inr m \<and> canon (to_cval (JObj m)) = canon (to_cval (JObj demo_state))"
proof -
  let ?ss = "map JStr (map hex_number [0..<256])" and ?B = "leaf_input ACCOUNT_TREE 256 (JObj demo_state) ` {..<2 * 256 + 2}"
  have f: "property demo_state_proof ''exists'' = JBool True" "property demo_state_proof ''siblings'' = JArr ?ss"
    by (simp_all add: demo_state_proof_def stateProof_def property_cons fld_def del: upt_rec_numeral upt.simps)
  have a: "property (JObj demo_state) ''address'' = JStr demo_owner" by (simp add: demo_state_def property_cons fld_def)
  have leaf: "stateLeaf demo_hashes codeUnitsAfter (JObj demo_state) True = Inr (hex_number 257)"
    using numbered_leaf [OF demo_state_ok] by (simp add: stateLeaf_def demo_normal)
  have input: "hashInput demo_hashes (JObj demo_state) ''ACCOUNT_TREE_LEAF'' \<subseteq> ?B"
    using numbered_leaf_input [OF demo_state_ok] by (auto simp: leaf_domains)
  have "hashInput demo_hashes JNull ''ACCOUNT_TREE_EMPTY_LEAF'' = {leaf_input ACCOUNT_TREE 256 (JObj demo_state) 0}"
    using numbered_input [OF null_json, of "''ACCOUNT_TREE_EMPTY_LEAF''" ACCOUNT_TREE 256 "JObj demo_state"] account_domains(1)
    by (simp add: leaf_input_def leaf_domains tree_domains_def)
  then have "stateInputs demo_hashes codeUnitsAfter [JObj demo_state] \<subseteq> ?B"
    using input numbered_tree [OF demo_state_ok order_refl] demo_entry_state [of codeUnitsAfter]
    by (auto simp: stateInputs_def demo_normal demo_state_leaves ACCOUNT_TREE_DEPTH_def)
  moreover have "pathInputs demo_hashes ACCOUNT_TREE (hex_number 257) (pathNumber (replicate 256 CHR ''0'')) ?ss \<subseteq> ?B"
    unfolding zero_path demo_siblings using numbered_path [OF demo_state_ok] by simp
  ultimately have "stateInputs demo_hashes codeUnitsAfter [JObj demo_state] \<union> hashInput demo_hashes (JObj demo_state) ''ACCOUNT_TREE_LEAF'' \<union>
      pathInputs demo_hashes ACCOUNT_TREE (hex_number 257) (pathNumber (replicate 256 CHR ''0'')) ?ss \<subseteq> ?B"
    using input by blast
  note inj = inj_on_subset [OF numbered_inj [OF demo_state_ok] this]
  from accepted_state_is_of_the_accounts [OF numbered_sound codeUnitsAfter_antisym demo_addresses demo_root a demo_verified f leaf demo_path inj]
  show ?thesis by simp
qed

section \<open>The locale of the host\<close>

text \<open>
  Where two locales order two delegates differently, the delegations of a state are listed differently, and
  the leaf is the hash of another value: nodes that run in such locales compute different roots.
\<close>

lemma delegations_depend_on_locale:
  assumes "property d ''delegate'' = JStr a" and "property e ''delegate'' = JStr b" and "a \<noteq> b"
  shows "sortDelegations (\<lambda>x y. x = a \<and> y = b) [d, e] = Inr [e, d]"
    and "sortDelegations (\<lambda>x y. x = b \<and> y = a) [d, e] = Inr [d, e]"
  using assms by (simp_all add: sortDelegations_def)

end
