(* ===== verification/Snapshot.thy ===== *)
theory Snapshot
  imports Js_Map
begin

text \<open>
  What the snapshot parsers of the components share: objects with exactly the given fields, maps
  written as lists of \<open>[key, value]\<close> pairs, and \<open>new Map(list)\<close>. The error is a parameter, so each
  parser throws its own.
\<close>

definition snapshot_object :: "'e \<Rightarrow> jsval \<Rightarrow> string list \<Rightarrow> 'e + jsobj" where
  "snapshot_object e v keys =
     (case v of
        JObj kvs \<Rightarrow> if keys_are kvs keys then Inr kvs else Inl e
      | _ \<Rightarrow> Inl e)"

fun snapshot_entry :: "'e \<Rightarrow> jsval \<Rightarrow> 'e + (jsval \<times> jsval)" where
  "snapshot_entry e (JArr [k, v]) = Inr (k, v)"
| "snapshot_entry e _ = Inl e"

definition snapshot_entries :: "'e \<Rightarrow> jsval \<Rightarrow> nat \<Rightarrow> 'e + (jsval \<times> jsval) list" where
  "snapshot_entries e v bound =
     (case v of
        JArr es \<Rightarrow> if length es > bound then Inl e else mapM (snapshot_entry e) es
      | _ \<Rightarrow> Inl e)"

definition to_map :: "('k \<times> 'v) list \<Rightarrow> ('k, 'v) jsmap" where
  "to_map es = fold (\<lambda>(k, v). jset k v) es []"

lemma jwf_fold_jset_pairs: "jwf m \<Longrightarrow> jwf (fold (\<lambda>(k, v). jset k v) es m)"
  by (induction es arbitrary: m) auto

lemma jwf_to_map [simp]: "jwf (to_map es)"
  by (simp add: to_map_def jwf_fold_jset_pairs)

lemma jset_entry: "p \<in> set (jset k v m) \<Longrightarrow> p = (k, v) \<or> p \<in> set m"
  by (induction m) (auto simp: jset_def split: if_splits)

lemma to_map_entries_acc: "p \<in> set (fold (\<lambda>(k, v). jset k v) es m) \<Longrightarrow> p \<in> set es \<or> p \<in> set m"
proof (induction es arbitrary: m)
  case (Cons e es)
  from Cons.prems have "p \<in> set es \<or> p \<in> set (jset (fst e) (snd e) m)"
    by (intro Cons.IH) (simp add: case_prod_unfold)
  then show ?case by (auto dest: jset_entry)
qed simp

lemma to_map_entries: "p \<in> set (to_map es) \<Longrightarrow> p \<in> set es"
  unfolding to_map_def by (drule to_map_entries_acc) simp

lemma jsize_to_map_acc: "jsize (fold (\<lambda>(k, v). jset k v) es m) \<le> jsize m + length es"
proof (induction es arbitrary: m)
  case (Cons e es)
  have "jsize (fold (\<lambda>(k, v). jset k v) es (jset (fst e) (snd e) m)) \<le>
      jsize (jset (fst e) (snd e) m) + length es" by (rule Cons.IH)
  with jsize_jset_le [of "fst e" "snd e" m] show ?case by (simp add: case_prod_unfold)
qed simp

lemma jsize_to_map: "jsize (to_map es) \<le> length es"
  unfolding to_map_def using jsize_to_map_acc [of es "[]"] by (simp add: jsize_def)

lemma snapshot_entries_length: "snapshot_entries e v bound = Inr es \<Longrightarrow> length es \<le> bound"
  by (cases v) (auto simp: snapshot_entries_def split: if_splits dest: mapM_length)

lemma mapM_in: "mapM f xs = Inr ys \<Longrightarrow> y \<in> set ys \<Longrightarrow> \<exists>x \<in> set xs. f x = Inr y"
  by (induction xs arbitrary: ys) (auto simp: inversion)


end
