(* ===== verification/Names.thy ===== *)
theory Names
  imports Snapshot Crypto
begin

text \<open>
  \<open>blockchain/name-registry.mjs\<close>: account names with commit-reveal. The state is three maps,
  names to their owners, owners to their name, and pending commitments; the invariant is that
  the first two are inverse to each other and that every registered name is an allowed one.
\<close>

section \<open>State and parameters\<close>

record name_params =
  np_minLength :: nat
  np_maxLength :: nat
  np_revealDelayBlocks :: int
  np_commitLifetimeBlocks :: int
  np_maxPendingCommits :: nat
  np_maxNames :: nat

definition NAMES_V1 :: name_params where
  "NAMES_V1 = \<lparr>np_minLength = 3, np_maxLength = 32, np_revealDelayBlocks = 2,
     np_commitLifetimeBlocks = 256, np_maxPendingCommits = 4096, np_maxNames = 1000000\<rparr>"

record name_entry =
  ne_height :: int
  ne_owner :: string

record name_commit =
  nc_height :: int
  nc_sender :: string

record name_state =
  ns_names :: "(string, name_entry) jsmap"
  ns_owners :: "(string, string) jsmap"
  ns_commits :: "(string, name_commit) jsmap"

datatype name_error =
    Name_commitment_invalid
  | Name_commitment_submitted
  | Name_queue_full
  | Name_height_invalid
  | Name_not_allowed
  | Name_salt_invalid
  | Name_no_commit
  | Name_outside_window
  | Name_taken
  | Name_registry_full
  | Name_nothing_to_release
  | Name_recipient_invalid
  | Name_nothing_to_transfer
  | Name_recipient_has_name
  | Name_not_encodable codec_error
  | Name_snapshot_malformed
  | Name_snapshot_invalid
  | Name_snapshot_mismatch

section \<open>Names\<close>

definition namePrice :: "string \<Rightarrow> int" where
  "namePrice name =
     (if length name = 3 then 50 * ATOMIC_UNITS
      else if length name = 4 then 10 * ATOMIC_UNITS
      else ATOMIC_UNITS)"

definition RESERVED_NAMES :: "string list" where
  "RESERVED_NAMES = [''admin'', ''administrator'', ''airdrop'', ''bank'', ''exchange'', ''faucet'',
     ''founder'', ''foundation'', ''giveaway'', ''help'', ''helpdesk'', ''mainnet'', ''miner'',
     ''mining'', ''moderator'', ''null'', ''official'', ''owner'', ''pay'', ''payment'',
     ''payments'', ''refund'', ''root'', ''security'', ''staff'', ''support'', ''system'', ''team'',
     ''testnet'', ''treasury'', ''undefined'', ''validator'', ''validators'', ''wallet'']"

text \<open>\<open>/^[a-z0-9](?:[a-z0-9-]*[a-z0-9])?$/\<close> and \<open>includes\<close>\<close>

definition is_alnum :: "char \<Rightarrow> bool" where
  "is_alnum c \<longleftrightarrow> is_lower c \<or> is_digit c"

definition NAME_matches :: "string \<Rightarrow> bool" where
  "NAME_matches s \<longleftrightarrow> s \<noteq> [] \<and> is_alnum (hd s) \<and> is_alnum (last s) \<and>
     list_all (\<lambda>c. is_alnum c \<or> c = CHR ''-'') s"

fun has_double_hyphen :: "string \<Rightarrow> bool" where
  "has_double_hyphen (a # b # s) \<longleftrightarrow> (a = CHR ''-'' \<and> b = CHR ''-'') \<or> has_double_hyphen (b # s)"
| "has_double_hyphen _ \<longleftrightarrow> False"

datatype name_problem = Problem_length | Problem_characters | Problem_reserved

fun nameProblem :: "jsval \<Rightarrow> name_params \<Rightarrow> name_problem option" where
  "nameProblem (JStr name) params =
     (if length name < np_minLength params \<or> length name > np_maxLength params
      then Some Problem_length
      else if \<not> NAME_matches name \<or> has_double_hyphen name then Some Problem_characters
      else if take 3 name = ''nir'' \<or> name \<in> set RESERVED_NAMES then Some Problem_reserved
      else None)"
| "nameProblem _ params = Some Problem_length"

declare nameProblem.simps(1) [simp del]

text \<open>
  \<open>trim\<close> and \<open>toLowerCase\<close> on code units below 256: the white space is the units 9 to 13, the
  space and the no-break space, the capitals are A to Z and those of Latin-1.
\<close>

definition js_space :: "char \<Rightarrow> bool" where
  "js_space c \<longleftrightarrow> (9 \<le> unit_of c \<and> unit_of c \<le> 13) \<or> unit_of c = 32 \<or> unit_of c = 160"

definition js_trim :: "string \<Rightarrow> string" where
  "js_trim s = rev (dropWhile js_space (rev (dropWhile js_space s)))"

definition js_lower_char :: "char \<Rightarrow> char" where
  "js_lower_char c =
     (if (65 \<le> unit_of c \<and> unit_of c \<le> 90) \<or>
         (192 \<le> unit_of c \<and> unit_of c \<le> 222 \<and> unit_of c \<noteq> 215)
      then char_of (unit_of c + 32) else c)"

definition drop_nir :: "string \<Rightarrow> string" where
  "drop_nir s =
     (if 4 \<le> length s \<and> drop (length s - 4) s = ''.nir'' then take (length s - 4) s else s)"

fun normalizeNameInput :: "jsval \<Rightarrow> string option" where
  "normalizeNameInput (JStr input) =
     (let name = drop_nir (map js_lower_char (js_trim input)) in
      if nameProblem (JStr name) NAMES_V1 = None then Some name else None)"
| "normalizeNameInput _ = None"

section \<open>Operations\<close>

definition name_height :: "int \<Rightarrow> name_error + int" where
  "name_height n = (if \<not> is_safe_int n \<or> n < 0 then Inl Name_height_invalid else Inr n)"

definition nameCommitment :: "crypto \<Rightarrow> string \<Rightarrow> string \<Rightarrow> string \<Rightarrow> string \<Rightarrow> name_error + string" where
  "nameCommitment cr name networkId owner salt =
     map_err Name_not_encodable
       (hashObject cr (JObj [(''name'', JStr name), (''networkId'', JStr networkId),
          (''owner'', JStr owner), (''salt'', JStr salt)]) ''NAME_COMMITMENT_V1'')"

definition createNameRegistryState :: name_state where
  "createNameRegistryState = \<lparr>ns_names = [], ns_owners = [], ns_commits = []\<rparr>"

definition applyNameCommit :: "name_state \<Rightarrow> jsval \<Rightarrow> string \<Rightarrow> int \<Rightarrow> name_params \<Rightarrow>
    name_error + name_state" where
  "applyNameCommit s commitmentValue sender at params =
     (case str_val commitmentValue of
        None \<Rightarrow> Inl Name_commitment_invalid
      | Some commitment \<Rightarrow>
          if \<not> is_hex64 commitment then Inl Name_commitment_invalid
          else if jhas (ns_commits s) commitment then Inl Name_commitment_submitted
          else if jsize (ns_commits s) \<ge> np_maxPendingCommits params then Inl Name_queue_full
          else bind_r (name_height at) (\<lambda>h.
            Inr (s\<lparr>ns_commits := jset commitment \<lparr>nc_height = h, nc_sender = sender\<rparr> (ns_commits s)\<rparr>)))"

text \<open>The new state and the burned price.\<close>

definition applyNameRegister :: "crypto \<Rightarrow> name_state \<Rightarrow> jsval \<Rightarrow> string \<Rightarrow> jsval \<Rightarrow> string \<Rightarrow> int \<Rightarrow>
    name_params \<Rightarrow> name_error + (name_state \<times> int)" where
  "applyNameRegister cr s nameValue networkId saltValue sender at params =
     (case (str_val nameValue, nameProblem nameValue params) of
        (Some name, None) \<Rightarrow>
          (case str_val saltValue of
             None \<Rightarrow> Inl Name_salt_invalid
           | Some salt \<Rightarrow>
               if \<not> is_hex64 salt then Inl Name_salt_invalid
               else bind_r (nameCommitment cr name networkId sender salt) (\<lambda>commitment.
                 case jget (ns_commits s) commitment of
                   None \<Rightarrow> Inl Name_no_commit
                 | Some commit \<Rightarrow>
                     if nc_sender commit \<noteq> sender then Inl Name_no_commit
                     else if at < nc_height commit + np_revealDelayBlocks params \<or>
                             at > nc_height commit + np_commitLifetimeBlocks params
                     then Inl Name_outside_window
                     else if jhas (ns_names s) name then Inl Name_taken
                     else if jsize (ns_names s) \<ge> np_maxNames params then Inl Name_registry_full
                     else let freed = (case jget (ns_owners s) sender of
                                         None \<Rightarrow> ns_names s
                                       | Some previous \<Rightarrow> jdel previous (ns_names s)) in
                       bind_r (name_height at) (\<lambda>h.
                         Inr (s\<lparr>ns_commits := jdel commitment (ns_commits s),
                               ns_names := jset name \<lparr>ne_height = h, ne_owner = sender\<rparr> freed,
                               ns_owners := jset sender name (ns_owners s)\<rparr>,
                              namePrice name))))
      | _ \<Rightarrow> Inl Name_not_allowed)"

definition applyNameRelease :: "name_state \<Rightarrow> string \<Rightarrow> name_error + name_state" where
  "applyNameRelease s sender =
     (case jget (ns_owners s) sender of
        None \<Rightarrow> Inl Name_nothing_to_release
      | Some name \<Rightarrow> Inr (s\<lparr>ns_owners := jdel sender (ns_owners s),
                            ns_names := jdel name (ns_names s)\<rparr>))"

definition applyNameTransfer :: "name_state \<Rightarrow> string \<Rightarrow> jsval \<Rightarrow> int \<Rightarrow> name_error + name_state" where
  "applyNameTransfer s sender recipientValue at =
     (case str_val recipientValue of
        None \<Rightarrow> Inl Name_recipient_invalid
      | Some recipient \<Rightarrow>
          if \<not> is_address recipient \<or> recipient = sender then Inl Name_recipient_invalid
          else (case jget (ns_owners s) sender of
             None \<Rightarrow> Inl Name_nothing_to_transfer
           | Some name \<Rightarrow>
               if jhas (ns_owners s) recipient then Inl Name_recipient_has_name
               else bind_r (name_height at) (\<lambda>h.
                 Inr (s\<lparr>ns_owners := jset recipient name (jdel sender (ns_owners s)),
                       ns_names := jset name \<lparr>ne_height = h, ne_owner = recipient\<rparr> (ns_names s)\<rparr>))))"

definition endNameRegistryBlock :: "name_state \<Rightarrow> int \<Rightarrow> name_params \<Rightarrow> name_state" where
  "endNameRegistryBlock s at params =
     s\<lparr>ns_commits := filter (\<lambda>(commitment, commit).
        \<not> at > nc_height commit + np_commitLifetimeBlocks params) (ns_commits s)\<rparr>"

definition lookupName :: "name_state \<Rightarrow> string \<Rightarrow> (string \<times> string \<times> int) option" where
  "lookupName s name =
     map_option (\<lambda>e. (name, ne_owner e, ne_height e)) (jget (ns_names s) name)"

definition nameOfAddress :: "name_state \<Rightarrow> string \<Rightarrow> string option" where
  "nameOfAddress s address = jget (ns_owners s) address"

section \<open>Snapshots\<close>

text \<open>\<open>object\<close>, \<open>entries\<close> and \<open>address\<close> of the snapshot parser.\<close>

definition snap_object :: "jsval \<Rightarrow> string list \<Rightarrow> name_error + jsobj" where
  "snap_object v keys = snapshot_object Name_snapshot_malformed v keys"

definition snap_entries :: "jsval \<Rightarrow> nat \<Rightarrow> name_error + (jsval \<times> jsval) list" where
  "snap_entries v bound = snapshot_entries Name_snapshot_malformed v bound"

definition snap_address :: "jsval \<Rightarrow> name_error + string" where
  "snap_address v =
     (case v of
        JStr s \<Rightarrow> if is_address s then Inr s else Inl Name_snapshot_invalid
      | _ \<Rightarrow> Inl Name_snapshot_invalid)"

definition snap_height :: "jsval \<Rightarrow> name_error + int" where
  "snap_height v = (case safe_int v of
       None \<Rightarrow> Inl Name_height_invalid
     | Some n \<Rightarrow> if n < 0 then Inl Name_height_invalid else Inr n)"

definition snap_name :: "name_params \<Rightarrow> jsval \<times> jsval \<Rightarrow> name_error + (string \<times> name_entry)" where
  "snap_name params kv =
     bind_r (snap_object (snd kv) [''height'', ''owner'']) (\<lambda>obj.
       case (str_val (fst kv), nameProblem (fst kv) params) of
         (Some name, None) \<Rightarrow>
           bind_r (snap_height (fld obj ''height'')) (\<lambda>h.
           bind_r (snap_address (fld obj ''owner'')) (\<lambda>owner.
             Inr (name, \<lparr>ne_height = h, ne_owner = owner\<rparr>)))
       | _ \<Rightarrow> Inl Name_snapshot_invalid)"

definition snap_owner :: "jsval \<times> jsval \<Rightarrow> name_error + (string \<times> jsval)" where
  "snap_owner kv = bind_r (snap_address (fst kv)) (\<lambda>owner. Inr (owner, snd kv))"

definition snap_commit :: "jsval \<times> jsval \<Rightarrow> name_error + (string \<times> name_commit)" where
  "snap_commit kv =
     bind_r (snap_object (snd kv) [''height'', ''sender'']) (\<lambda>obj.
       case fst kv of
         JStr commitment \<Rightarrow>
           if \<not> is_hex64 commitment then Inl Name_snapshot_invalid
           else bind_r (snap_height (fld obj ''height'')) (\<lambda>h.
                bind_r (snap_address (fld obj ''sender'')) (\<lambda>sender.
                  Inr (commitment, \<lparr>nc_height = h, nc_sender = sender\<rparr>)))
       | _ \<Rightarrow> Inl Name_snapshot_invalid)"

text \<open>\<open>names.get(name)?.owner !== owner\<close>; a name that is no string is in no map.\<close>

definition owner_matches :: "(string, name_entry) jsmap \<Rightarrow> string \<times> jsval \<Rightarrow> bool" where
  "owner_matches names on =
     (case snd on of
        JStr name \<Rightarrow> (case jget names name of None \<Rightarrow> False | Some e \<Rightarrow> ne_owner e = fst on)
      | _ \<Rightarrow> False)"

definition parseNameRegistrySnapshot :: "jsval \<Rightarrow> name_params \<Rightarrow> name_error + name_state" where
  "parseNameRegistrySnapshot value params =
     bind_r (snap_object value [''commits'', ''names'', ''owners'']) (\<lambda>obj.
     bind_r (snap_entries (fld obj ''names'') (np_maxNames params)) (\<lambda>nameEntries.
     bind_r (mapM (snap_name params) nameEntries) (\<lambda>nameList.
     bind_r (snap_entries (fld obj ''owners'') (np_maxNames params)) (\<lambda>ownerEntries.
     bind_r (mapM snap_owner ownerEntries) (\<lambda>ownerList.
     let names = to_map nameList; owners = to_map ownerList in
     if jsize owners \<noteq> jsize names \<or> list_ex (\<lambda>on. \<not> owner_matches names on) owners
     then Inl Name_snapshot_mismatch
     else bind_r (snap_entries (fld obj ''commits'') (np_maxPendingCommits params)) (\<lambda>commitEntries.
       bind_r (mapM snap_commit commitEntries) (\<lambda>commitList.
         Inr \<lparr>ns_names = names,
              ns_owners = map (\<lambda>(owner, name). (owner, the (str_val name))) owners,
              ns_commits = to_map commitList\<rparr>)))))))"


section \<open>The invariant\<close>

text \<open>What a name stands for.\<close>

definition owner_of :: "(string, name_entry) jsmap \<Rightarrow> string \<Rightarrow> string option" where
  "owner_of names n = map_option ne_owner (jget names n)"

definition mutual :: "(string, name_entry) jsmap \<Rightarrow> (string, string) jsmap \<Rightarrow> bool" where
  "mutual names owners \<longleftrightarrow> (\<forall>a n. jget owners a = Some n \<longleftrightarrow> owner_of names n = Some a)"

definition names_inv :: "name_params \<Rightarrow> name_state \<Rightarrow> bool" where
  "names_inv params s \<longleftrightarrow>
     jwf (ns_names s) \<and> jwf (ns_owners s) \<and> jwf (ns_commits s) \<and>
     mutual (ns_names s) (ns_owners s) \<and>
     (\<forall>n. jhas (ns_names s) n \<longrightarrow> nameProblem (JStr n) params = None) \<and>
     (\<forall>c. jhas (ns_commits s) c \<longrightarrow> is_hex64 c) \<and>
     jsize (ns_names s) \<le> np_maxNames params \<and> jsize (ns_commits s) \<le> np_maxPendingCommits params"

lemma owner_of_jset [simp]:
  "owner_of (jset n e names) n' = (if n' = n then Some (ne_owner e) else owner_of names n')"
  by (simp add: owner_of_def)

lemma owner_of_jdel [simp]:
  "owner_of (jdel n names) n' = (if n' = n then None else owner_of names n')"
  by (simp add: owner_of_def)

lemma owner_of_None: "owner_of names n = None \<longleftrightarrow> \<not> jhas names n"
  by (simp add: owner_of_def jhas_def)

lemma mutual_iff: "mutual names owners \<Longrightarrow> jget owners a = Some n \<longleftrightarrow> owner_of names n = Some a"
  by (simp add: mutual_def)

lemma mutual_release: "mutual ns os \<Longrightarrow> jget os a = Some n \<Longrightarrow> mutual (jdel n ns) (jdel a os)"
  unfolding mutual_def by (simp, metis option.inject)

lemma mutual_register:
  assumes "mutual ns os" and "owner_of ns n = None"
  shows "mutual (jset n \<lparr>ne_height = h, ne_owner = a\<rparr>
     (case jget os a of None \<Rightarrow> ns | Some p \<Rightarrow> jdel p ns)) (jset a n os)"
proof (cases "jget os a")
  case None
  then have "owner_of ns x \<noteq> Some a" for x using assms(1) by (metis mutual_iff option.distinct(1))
  with assms show ?thesis unfolding None option.case by (auto simp: mutual_def)
next
  case (Some p)
  then have p: "owner_of ns p = Some a" using assms(1) by (simp add: mutual_iff)
  have only: "owner_of ns x = Some a \<Longrightarrow> x = p" for x
    using Some assms(1) by (metis mutual_iff option.inject)
  show ?thesis
    unfolding mutual_def Some option.case
  proof (intro allI)
    fix b x
    show "jget (jset a n os) b = Some x \<longleftrightarrow>
        owner_of (jset n \<lparr>ne_height = h, ne_owner = a\<rparr> (jdel p ns)) x = Some b"
    proof (cases "b = a")
      case True
      then show ?thesis using only by auto
    next
      case False
      then have "owner_of ns p \<noteq> Some b" "owner_of ns n \<noteq> Some b" using p assms(2) by simp_all
      with False show ?thesis using mutual_iff [OF assms(1), of b x] by auto
    qed
  qed
qed

lemma mutual_transfer:
  assumes "mutual ns os" and "jget os a = Some n" and "jget os b = None" and "a \<noteq> b"
  shows "mutual (jset n \<lparr>ne_height = h, ne_owner = b\<rparr> ns) (jset b n (jdel a os))"
  using assms unfolding mutual_def
  by (simp, metis option.distinct(1) option.inject)

lemma name_height_Inr_iff [inversion]:
  "name_height n = Inr h \<longleftrightarrow> h = n \<and> is_safe_int n \<and> 0 \<le> n"
  by (auto simp: name_height_def)

lemma commit_Inr_iff [inversion]:
  "applyNameCommit s v sender at params = Inr s' \<longleftrightarrow>
   (\<exists>c. v = JStr c \<and> is_hex64 c \<and> \<not> jhas (ns_commits s) c \<and>
     jsize (ns_commits s) < np_maxPendingCommits params \<and> is_safe_int at \<and> 0 \<le> at \<and>
     s' = s\<lparr>ns_commits := jset c \<lparr>nc_height = at, nc_sender = sender\<rparr> (ns_commits s)\<rparr>)"
  by (cases v) (auto simp: applyNameCommit_def inversion)

lemma nameProblem_JStr: "nameProblem v params = None \<Longrightarrow> \<exists>n. v = JStr n"
  by (cases v) auto

lemma register_Inr_iff [inversion]:
  "applyNameRegister cr s nameV networkId saltV sender at params = Inr (s', price) \<longleftrightarrow>
   (\<exists>name salt commitment commit. nameV = JStr name \<and> saltV = JStr salt \<and>
     nameProblem (JStr name) params = None \<and> is_hex64 salt \<and>
     nameCommitment cr name networkId sender salt = Inr commitment \<and>
     jget (ns_commits s) commitment = Some commit \<and> nc_sender commit = sender \<and>
     nc_height commit + np_revealDelayBlocks params \<le> at \<and>
     at \<le> nc_height commit + np_commitLifetimeBlocks params \<and>
     \<not> jhas (ns_names s) name \<and> jsize (ns_names s) < np_maxNames params \<and>
     is_safe_int at \<and> 0 \<le> at \<and> price = namePrice name \<and>
     s' = s\<lparr>ns_commits := jdel commitment (ns_commits s),
            ns_names := jset name \<lparr>ne_height = at, ne_owner = sender\<rparr>
              (case jget (ns_owners s) sender of None \<Rightarrow> ns_names s
               | Some previous \<Rightarrow> jdel previous (ns_names s)),
            ns_owners := jset sender name (ns_owners s)\<rparr>)"
proof (cases "nameProblem nameV params")
  case None
  then obtain name where name: "nameV = JStr name" using nameProblem_JStr by blast
  show ?thesis
  proof (cases saltV)
    case (JStr salt)
    then show ?thesis
      unfolding applyNameRegister_def name None [unfolded name]
      by (cases "nameCommitment cr name networkId sender salt")
        (auto simp: inversion Let_def None [unfolded name] not_less not_le split: option.splits)
  qed (use name None in \<open>auto simp: applyNameRegister_def\<close>)
qed (auto simp: applyNameRegister_def split: option.splits)

lemma release_Inr_iff [inversion]:
  "applyNameRelease s sender = Inr s' \<longleftrightarrow>
   (\<exists>name. jget (ns_owners s) sender = Some name \<and>
     s' = s\<lparr>ns_owners := jdel sender (ns_owners s), ns_names := jdel name (ns_names s)\<rparr>)"
  by (auto simp: applyNameRelease_def split: option.splits)

lemma transfer_Inr_iff [inversion]:
  "applyNameTransfer s sender v at = Inr s' \<longleftrightarrow>
   (\<exists>recipient name. v = JStr recipient \<and> is_address recipient \<and> recipient \<noteq> sender \<and>
     jget (ns_owners s) sender = Some name \<and> \<not> jhas (ns_owners s) recipient \<and>
     is_safe_int at \<and> 0 \<le> at \<and>
     s' = s\<lparr>ns_owners := jset recipient name (jdel sender (ns_owners s)),
            ns_names := jset name \<lparr>ne_height = at, ne_owner = recipient\<rparr> (ns_names s)\<rparr>)"
  by (cases v) (auto simp: applyNameTransfer_def inversion split: option.splits)

lemma names_inv_initial: "names_inv params createNameRegistryState"
  by (simp add: names_inv_def createNameRegistryState_def jsize_def mutual_def owner_of_def)

lemma names_inv_commit:
  "names_inv params s \<Longrightarrow> applyNameCommit s v sender at params = Inr s' \<Longrightarrow> names_inv params s'"
  by (auto simp: names_inv_def inversion jsize_jset)

lemma names_inv_end:
  assumes "names_inv params s"
  shows "names_inv params (endNameRegistryBlock s at params)"
proof -
  let ?live = "\<lambda>(c, commit). \<not> at > nc_height commit + np_commitLifetimeBlocks params"
  have "jhas (filter ?live (ns_commits s)) c \<Longrightarrow> jhas (ns_commits s) c" for c
    by (auto simp: jhas_iff_keys jkeys_def)
  moreover have "jsize (filter ?live (ns_commits s)) \<le> jsize (ns_commits s)"
    by (simp add: jsize_def)
  ultimately show ?thesis
    using assms unfolding names_inv_def endNameRegistryBlock_def by (auto simp: jwf_filter)
qed

lemma names_inv_release:
  assumes "names_inv params s" and "applyNameRelease s sender = Inr s'"
  shows "names_inv params s'"
  using assms by (auto simp: names_inv_def inversion jsize_jdel intro: mutual_release)

lemma names_inv_transfer:
  assumes "names_inv params s" and "applyNameTransfer s sender v at = Inr s'"
  shows "names_inv params s'"
proof -
  from assms(2) obtain recipient name where n: "jget (ns_owners s) sender = Some name"
    and r: "jget (ns_owners s) recipient = None" "sender \<noteq> recipient"
    and s': "s' = s\<lparr>ns_owners := jset recipient name (jdel sender (ns_owners s)),
            ns_names := jset name \<lparr>ne_height = at, ne_owner = recipient\<rparr> (ns_names s)\<rparr>"
    by (auto simp: inversion jhas_def)
  from assms(1) n have "owner_of (ns_names s) name = Some sender"
    by (auto simp: names_inv_def mutual_def)
  then have "jhas (ns_names s) name" by (metis owner_of_None option.distinct(1))
  with assms(1) mutual_transfer [OF _ n r] show ?thesis
    by (auto simp: names_inv_def s' jsize_jset)
qed

lemma names_inv_register:
  assumes "names_inv params s"
    and "applyNameRegister cr s nameV networkId saltV sender at params = Inr (s', price)"
  shows "names_inv params s'"
proof -
  let ?freed = "case jget (ns_owners s) sender of None \<Rightarrow> ns_names s
               | Some previous \<Rightarrow> jdel previous (ns_names s)"
  from assms(2) obtain name commitment where
    ok: "nameProblem (JStr name) params = None" and fresh: "owner_of (ns_names s) name = None"
    and room: "jsize (ns_names s) < np_maxNames params"
    and s': "s' = s\<lparr>ns_commits := jdel commitment (ns_commits s),
            ns_names := jset name \<lparr>ne_height = at, ne_owner = sender\<rparr> ?freed,
            ns_owners := jset sender name (ns_owners s)\<rparr>"
    by (auto simp: inversion owner_of_None)
  have sz: "jsize ?freed \<le> jsize (ns_names s)" "jwf ?freed"
    using assms(1) by (auto simp: names_inv_def jsize_jdel split: option.splits)
  have sub: "jhas ?freed n \<Longrightarrow> jhas (ns_names s) n" for n
    by (auto split: option.splits)
  have "mutual (ns_names s') (ns_owners s')"
    using assms(1) mutual_register [OF _ fresh] by (simp add: s' names_inv_def)
  moreover have "jwf (ns_names s') \<and> jwf (ns_owners s') \<and> jwf (ns_commits s')"
    using assms(1) sz(2) by (simp add: s' names_inv_def)
  moreover have "jhas (ns_names s') n \<Longrightarrow> nameProblem (JStr n) params = None" for n
    using assms(1) ok sub by (auto simp: s' names_inv_def)
  moreover have "jsize (ns_names s') \<le> np_maxNames params"
    using le_less_trans [OF sz(1) room] by (simp add: s' jsize_jset)
  moreover have "jsize (ns_commits s') \<le> np_maxPendingCommits params"
    "jhas (ns_commits s') c \<Longrightarrow> is_hex64 c" for c
    using assms(1) by (auto simp: s' names_inv_def jsize_jdel)
  ultimately show ?thesis by (simp add: names_inv_def)
qed

section \<open>Reachable registries\<close>

text \<open>The registry as the chain drives it: transactions and block ends, in any order.\<close>

inductive name_reachable :: "crypto \<Rightarrow> string \<Rightarrow> name_params \<Rightarrow> name_state \<Rightarrow> bool"
  for cr networkId params where
  created: "name_reachable cr networkId params createNameRegistryState"
| committed: "name_reachable cr networkId params s \<Longrightarrow> applyNameCommit s c sender at params = Inr s' \<Longrightarrow>
    name_reachable cr networkId params s'"
| registered: "name_reachable cr networkId params s \<Longrightarrow>
    applyNameRegister cr s name networkId salt sender at params = Inr (s', price) \<Longrightarrow>
    name_reachable cr networkId params s'"
| released: "name_reachable cr networkId params s \<Longrightarrow> applyNameRelease s sender = Inr s' \<Longrightarrow>
    name_reachable cr networkId params s'"
| transferred: "name_reachable cr networkId params s \<Longrightarrow> applyNameTransfer s sender r at = Inr s' \<Longrightarrow>
    name_reachable cr networkId params s'"
| block_ended: "name_reachable cr networkId params s \<Longrightarrow>
    name_reachable cr networkId params (endNameRegistryBlock s at params)"

lemma reachable_names_inv: "name_reachable cr networkId params s \<Longrightarrow> names_inv params s"
  by (induction rule: name_reachable.induct)
    (auto intro: names_inv_initial names_inv_commit names_inv_register names_inv_release
      names_inv_transfer names_inv_end)


section \<open>Properties\<close>

text \<open>
  C20: in every registry the transactions and block ends can produce, an address owns a name
  exactly when the name is registered to that address, so a name has one owner and an address
  at most one name; every registered name passes the rules for names; and neither the registry
  nor the queue of commitments exceeds its bound.
\<close>

theorem name_registry_consistent:
  assumes "name_reachable cr networkId params s"
  shows "(\<forall>a n. nameOfAddress s a = Some n \<longleftrightarrow> (\<exists>h. lookupName s n = Some (n, a, h))) \<and>
    (\<forall>n a h. lookupName s n = Some (n, a, h) \<longrightarrow> nameProblem (JStr n) params = None) \<and>
    jsize (ns_names s) \<le> np_maxNames params \<and> jsize (ns_commits s) \<le> np_maxPendingCommits params"
proof -
  note inv = reachable_names_inv [OF assms, unfolded names_inv_def mutual_def owner_of_def]
  have look: "lookupName s n = Some (n, a, h) \<longleftrightarrow>
      (\<exists>e. jget (ns_names s) n = Some e \<and> ne_owner e = a \<and> ne_height e = h)" for n a h
    by (auto simp: lookupName_def)
  show ?thesis
    using inv unfolding look nameOfAddress_def by (simp add: jhas_def)
qed

text \<open>
  a registration succeeds only for an allowed and free name that the same sender committed
  to, hidden in the hash of name, network, owner and salt, at least the reveal delay and at most
  the commit lifetime before; it burns the price of the name, uses up the commitment, and what
  names stand for changes only in that the name now stands for the sender and the sender's
  previous name, if any, for nobody.
\<close>

theorem name_register_effect:
  assumes "names_inv params s"
    and "applyNameRegister cr s nameV networkId saltV sender at params = Inr (s', price)"
  shows "\<exists>name salt commitment commit. nameV = JStr name \<and> saltV = JStr salt \<and>
    nameProblem (JStr name) params = None \<and> price = namePrice name \<and>
    nameCommitment cr name networkId sender salt = Inr commitment \<and>
    jget (ns_commits s) commitment = Some commit \<and> nc_sender commit = sender \<and>
    nc_height commit + np_revealDelayBlocks params \<le> at \<and>
    at \<le> nc_height commit + np_commitLifetimeBlocks params \<and>
    owner_of (ns_names s) name = None \<and>
    owner_of (ns_names s') = (\<lambda>n. if n = name then Some sender
       else if owner_of (ns_names s) n = Some sender then None else owner_of (ns_names s) n) \<and>
    jget (ns_commits s') = (jget (ns_commits s))(commitment := None)"
proof -
  from assms(2) obtain name salt commitment commit where
    v: "nameV = JStr name" "saltV = JStr salt" "nameProblem (JStr name) params = None"
      "price = namePrice name"
    and c: "nameCommitment cr name networkId sender salt = Inr commitment"
      "jget (ns_commits s) commitment = Some commit" "nc_sender commit = sender"
      "nc_height commit + np_revealDelayBlocks params \<le> at"
      "at \<le> nc_height commit + np_commitLifetimeBlocks params"
    and fresh: "owner_of (ns_names s) name = None"
    and s': "s' = s\<lparr>ns_commits := jdel commitment (ns_commits s),
            ns_names := jset name \<lparr>ne_height = at, ne_owner = sender\<rparr>
              (case jget (ns_owners s) sender of None \<Rightarrow> ns_names s
               | Some previous \<Rightarrow> jdel previous (ns_names s)),
            ns_owners := jset sender name (ns_owners s)\<rparr>"
    by (auto simp: inversion owner_of_None)
  have m: "jget (ns_owners s) sender = Some n \<longleftrightarrow> owner_of (ns_names s) n = Some sender" for n
    using assms(1) by (simp add: names_inv_def mutual_iff)
  have "owner_of (ns_names s') = (\<lambda>n. if n = name then Some sender
       else if owner_of (ns_names s) n = Some sender then None else owner_of (ns_names s) n)"
  proof (cases "jget (ns_owners s) sender")
    case None
    with m have "owner_of (ns_names s) n \<noteq> Some sender" for n by (metis option.distinct(1))
    with None show ?thesis by (simp add: s' fun_eq_iff)
  next
    case (Some p)
    with m have only: "owner_of (ns_names s) n = Some sender \<longleftrightarrow> n = p" for n by (metis option.inject)
    show ?thesis by (rule ext) (simp add: s' Some only)
  qed
  moreover have "jget (ns_commits s') = (jget (ns_commits s))(commitment := None)"
    by (auto simp: s' fun_eq_iff)
  ultimately show ?thesis using v c fresh by blast
qed

text \<open>
  releasing frees exactly the sender's name; a transfer hands exactly the sender's name to
  an address that has none; committing and the end of a block leave every name with its owner.
\<close>

theorem name_ownership_changes:
  assumes "names_inv params s"
  shows "(\<forall>s'. applyNameRelease s sender = Inr s' \<longrightarrow> (\<exists>name. owner_of (ns_names s) name = Some sender \<and>
      owner_of (ns_names s') = (owner_of (ns_names s))(name := None))) \<and>
    (\<forall>s'. applyNameTransfer s sender recipientV at = Inr s' \<longrightarrow>
      (\<exists>name recipient. recipientV = JStr recipient \<and> owner_of (ns_names s) name = Some sender \<and>
        (\<forall>n. owner_of (ns_names s) n \<noteq> Some recipient) \<and>
        owner_of (ns_names s') = (owner_of (ns_names s))(name := Some recipient))) \<and>
    (\<forall>s'. applyNameCommit s c sender at params = Inr s' \<longrightarrow> owner_of (ns_names s') = owner_of (ns_names s)) \<and>
    owner_of (ns_names (endNameRegistryBlock s at params)) = owner_of (ns_names s)"
proof (intro conjI allI impI)
  have m: "jget (ns_owners s) a = Some n \<longleftrightarrow> owner_of (ns_names s) n = Some a" for a n
    using assms by (simp add: names_inv_def mutual_iff)
  show "\<exists>name. owner_of (ns_names s) name = Some sender \<and>
      owner_of (ns_names s') = (owner_of (ns_names s))(name := None)"
    if "applyNameRelease s sender = Inr s'" for s'
    using that by (auto simp: inversion m fun_eq_iff)
  show "\<exists>name recipient. recipientV = JStr recipient \<and> owner_of (ns_names s) name = Some sender \<and>
        (\<forall>n. owner_of (ns_names s) n \<noteq> Some recipient) \<and>
        owner_of (ns_names s') = (owner_of (ns_names s))(name := Some recipient)"
    if "applyNameTransfer s sender recipientV at = Inr s'" for s'
  proof -
    from that [unfolded transfer_Inr_iff] obtain recipient name where
      r: "recipientV = JStr recipient" "jget (ns_owners s) sender = Some name"
        "\<not> jhas (ns_owners s) recipient"
      "s' = s\<lparr>ns_owners := jset recipient name (jdel sender (ns_owners s)),
            ns_names := jset name \<lparr>ne_height = at, ne_owner = recipient\<rparr> (ns_names s)\<rparr>"
      by (elim exE conjE) (rule that)
    have "owner_of (ns_names s) n \<noteq> Some recipient" for n
      using m [of recipient n] r(3) by (auto simp: jhas_def)
    moreover have "owner_of (ns_names s') = (owner_of (ns_names s))(name := Some recipient)"
      by (simp add: r(4) fun_eq_iff)
    ultimately show ?thesis using r(1) r(2) [unfolded m] by blast
  qed
  show "owner_of (ns_names s') = owner_of (ns_names s)"
    if "applyNameCommit s c sender at params = Inr s'" for s'
    using that by (auto simp: inversion)
  show "owner_of (ns_names (endNameRegistryBlock s at params)) = owner_of (ns_names s)"
    by (simp add: endNameRegistryBlock_def)
qed

text \<open>
  a registry read from a snapshot satisfies the invariant the operations keep, whatever the
  snapshot holds: owners and names that do not match each other are rejected.
\<close>

theorem name_snapshot_invariant:
  assumes "parseNameRegistrySnapshot value params = Inr s"
  shows "names_inv params s"
proof -
  from assms obtain obj nes nl oes ol ces cl where
    nl: "snap_entries (fld obj ''names'') (np_maxNames params) = Inr nes"
      "mapM (snap_name params) nes = Inr nl"
    and same: "jsize (to_map ol) = jsize (to_map nl)" "\<not> list_ex (\<lambda>on. \<not> owner_matches (to_map nl) on) (to_map ol)"
    and cl: "snap_entries (fld obj ''commits'') (np_maxPendingCommits params) = Inr ces"
      "mapM snap_commit ces = Inr cl"
    and s: "s = \<lparr>ns_names = to_map nl, ns_owners = map (\<lambda>(a, n). (a, the (str_val n))) (to_map ol),
              ns_commits = to_map cl\<rparr>"
    by (auto simp: parseNameRegistrySnapshot_def bind_r_Inr_iff Let_def split: if_splits)
  let ?owners = "map (\<lambda>(a, n). (a, the (str_val n))) (to_map ol)"
  have wf: "jwf ?owners"
    using jwf_to_map [of ol] by (simp add: jwf_def case_prod_unfold o_def del: jwf_to_map)
  have match: "\<exists>e. jget (to_map nl) n = Some e \<and> ne_owner e = a" if "(a, n) \<in> set ?owners" for a n
  proof -
    from that obtain v where "(a, v) \<in> set (to_map ol)" "n = the (str_val v)" by auto
    with same(2) show ?thesis
      by (cases v) (force simp: list_ex_iff owner_matches_def split: option.splits)+
  qed
  have fwd: "owner_of (to_map nl) n = Some a" if "jget ?owners a = Some n" for a n
    using match [of a n] that jget_iff_in [OF wf] by (auto simp: owner_of_def)
  have bwd: "jget ?owners a = Some n" if "owner_of (to_map nl) n = Some a" for a n
  proof -
    have inj: "inj_on snd (set ?owners)"
    proof (rule inj_onI)
      fix x y assume xy: "x \<in> set ?owners" "y \<in> set ?owners" "snd x = snd y"
      obtain a n b where e: "x = (a, n)" "y = (b, n)" using xy(3) by (cases x; cases y) auto
      show "x = y" using match [OF xy(1) [unfolded e]] match [OF xy(2) [unfolded e]] e by auto
    qed
    have dist: "distinct (map fst ?owners)" "distinct (map fst (to_map nl))"
      using wf jwf_to_map [of nl] by (simp_all only: jwf_def)
    then have "distinct ?owners" by (simp only: distinct_map)
    then have "card (snd ` set ?owners) = length ?owners"
      using inj by (simp only: card_image distinct_card)
    moreover have "card (fst ` set (to_map nl)) = length (to_map nl)"
      using dist(2) by (metis distinct_card length_map set_map)
    moreover have "length ?owners = length (to_map nl)" using same(1) by (simp add: jsize_def)
    moreover have "snd ` set ?owners \<subseteq> fst ` set (to_map nl)"
      using match by (force dest: jget_Some_in)
    ultimately have "snd ` set ?owners = fst ` set (to_map nl)"
      by (intro card_subset_eq) simp_all
    moreover from that have "jhas (to_map nl) n" by (metis owner_of_None option.distinct(1))
    then have "n \<in> fst ` set (to_map nl)" by (simp add: jhas_iff_keys jkeys_def)
    ultimately have "n \<in> snd ` set ?owners" by (simp only:)
    then obtain q where q: "q \<in> set ?owners" "n = snd q" by (rule imageE)
    obtain b where "(b, n) \<in> set ?owners" using q by (metis prod.collapse)
    then have bn: "jget ?owners b = Some n" by (rule jget_iff_in [OF wf, THEN iffD2])
    have "Some b = Some a" by (rule trans [OF fwd [OF bn, THEN sym] that])
    then have "b = a" by (rule option.inject [THEN iffD1])
    from bn [unfolded this] show ?thesis .
  qed
  have mut: "mutual (to_map nl) ?owners" unfolding mutual_def
    by (intro allI iffI) (rule fwd bwd; assumption)+
  have names: "nameProblem (JStr n) params = None" if "jhas (to_map nl) n" for n
  proof -
    from that obtain e where "(n, e) \<in> set (to_map nl)" by (auto simp: jhas_def dest: jget_Some_in)
    then have "(n, e) \<in> set nl" by (rule to_map_entries)
    from mapM_in [OF nl(2) this] obtain x where "snap_name params x = Inr (n, e)" ..
    then show ?thesis
      by (auto simp: snap_name_def bind_r_Inr_iff split: option.splits)
  qed
  have commits: "is_hex64 c" if "jhas (to_map cl) c" for c
  proof -
    from that obtain e where "(c, e) \<in> set (to_map cl)" by (auto simp: jhas_def dest: jget_Some_in)
    then have "(c, e) \<in> set cl" by (rule to_map_entries)
    from mapM_in [OF cl(2) this] obtain x where "snap_commit x = Inr (c, e)" ..
    then show ?thesis
      by (cases "fst x") (auto simp: snap_commit_def bind_r_Inr_iff split: if_splits)
  qed
  have "jsize (to_map nl) \<le> np_maxNames params" "jsize (to_map cl) \<le> np_maxPendingCommits params"
    using jsize_to_map [of nl] snapshot_entries_length [OF nl(1) [unfolded snap_entries_def]] mapM_length [OF nl(2)]
      jsize_to_map [of cl] snapshot_entries_length [OF cl(1) [unfolded snap_entries_def]] mapM_length [OF cl(2)] by simp_all
  with wf mut names commits show ?thesis by (simp add: names_inv_def s)
qed


section \<open>Witnesses\<close>

definition demo_owner :: string where
  "demo_owner = ''nir1'' @ replicate 64 CHR ''a''"

definition demo_committed :: name_state where
  "demo_committed = createNameRegistryState
     \<lparr>ns_commits := [(replicate 64 CHR ''d'', \<lparr>nc_height = 1, nc_sender = demo_owner\<rparr>)]\<rparr>"

definition demo_registered :: name_state where
  "demo_registered = \<lparr>ns_names = [(''sasha'', \<lparr>ne_height = 3, ne_owner = demo_owner\<rparr>)],
     ns_owners = [(demo_owner, ''sasha'')], ns_commits = []\<rparr>"

lemma demo_commit_ok:
  "applyNameCommit createNameRegistryState (JStr (replicate 64 CHR ''d'')) demo_owner 1 NAMES_V1 =
     Inr demo_committed"
  by code_simp

lemma demo_name_commitment:
  "nameCommitment demo_crypto ''sasha'' ''net'' demo_owner (replicate 64 CHR ''0'') =
     Inr (replicate 64 CHR ''d'')"
proof -
  have "json_ok (JObj [(''name'', JStr ''sasha''), (''networkId'', JStr ''net''),
          (''owner'', JStr demo_owner), (''salt'', JStr (replicate 64 CHR ''0''))])"
    "is_domain ''NAME_COMMITMENT_V1''" by code_simp+
  then show ?thesis by (simp add: nameCommitment_def demo_hash)
qed

lemma demo_register_ok:
  "applyNameRegister demo_crypto demo_committed (JStr ''sasha'') ''net'' (JStr (replicate 64 CHR ''0''))
     demo_owner 3 NAMES_V1 = Inr (demo_registered, ATOMIC_UNITS)"
proof -
  have "nameProblem (JStr ''sasha'') NAMES_V1 = None" "is_hex64 (replicate 64 CHR ''0'')"
    "jget (ns_commits demo_committed) (replicate 64 CHR ''d'') = Some \<lparr>nc_height = 1, nc_sender = demo_owner\<rparr>"
    "jsize (ns_names demo_committed) < np_maxNames NAMES_V1" "\<not> jhas (ns_names demo_committed) ''sasha''"
    "np_revealDelayBlocks NAMES_V1 = 2" "np_commitLifetimeBlocks NAMES_V1 = 256" "is_safe_int 3"
    "namePrice ''sasha'' = ATOMIC_UNITS"
    "demo_committed\<lparr>ns_commits := jdel (replicate 64 CHR ''d'') (ns_commits demo_committed),
       ns_names := jset ''sasha'' \<lparr>ne_height = 3, ne_owner = demo_owner\<rparr> (ns_names demo_committed),
       ns_owners := jset demo_owner ''sasha'' (ns_owners demo_committed)\<rparr> = demo_registered"
    "jget (ns_owners demo_committed) demo_owner = None"
    by code_simp+
  then show ?thesis
    unfolding register_Inr_iff
    by (intro exI [of _ "''sasha''"] exI [of _ "replicate 64 CHR ''0''"]
        exI [of _ "replicate 64 CHR ''d''"] exI [of _ "\<lparr>nc_height = 1, nc_sender = demo_owner\<rparr>"])
      (simp add: demo_name_commitment)
qed

lemma demo_reachable: "name_reachable demo_crypto ''net'' NAMES_V1 demo_registered"
  by (rule registered [OF committed [OF created demo_commit_ok] demo_register_ok])

theorem name_registry_consistent_witness:
  "\<exists>h. lookupName demo_registered ''sasha'' = Some (''sasha'', demo_owner, h)"
proof -
  have "nameOfAddress demo_registered demo_owner = Some ''sasha''" by code_simp
  with name_registry_consistent [OF demo_reachable] show ?thesis by blast
qed

theorem name_register_effect_witness: "owner_of (ns_names demo_committed) ''sasha'' = None"
proof -
  have "names_inv NAMES_V1 demo_committed"
    by (rule names_inv_commit [OF names_inv_initial demo_commit_ok])
  from name_register_effect [OF this demo_register_ok] show ?thesis by auto
qed

theorem name_ownership_changes_witness:
  "\<exists>s'. applyNameRelease demo_registered demo_owner = Inr s' \<and> owner_of (ns_names s') ''sasha'' = None"
proof -
  have "names_inv NAMES_V1 demo_registered" by (rule reachable_names_inv [OF demo_reachable])
  note all = name_ownership_changes [OF this]
  have "(case applyNameRelease demo_registered demo_owner of Inr _ \<Rightarrow> True | _ \<Rightarrow> False)" by code_simp
  then obtain s' where s': "applyNameRelease demo_registered demo_owner = Inr s'"
    by (auto split: sum.splits)
  from all [of demo_owner] s' obtain name where n: "owner_of (ns_names demo_registered) name = Some demo_owner"
    "owner_of (ns_names s') = (owner_of (ns_names demo_registered))(name := None)" by blast
  have "owner_of (ns_names demo_registered) ''sasha'' = Some demo_owner" by code_simp
  moreover from n(1) have "name = ''sasha''"
    by (auto simp: owner_of_def demo_registered_def jget_def split: if_splits)
  ultimately show ?thesis using s' n(2) by auto
qed

definition demo_name_snapshot :: jsval where
  "demo_name_snapshot = JObj [(''commits'', JArr []),
     (''names'', JArr [JArr [JStr ''sasha'', JObj [(''height'', JNum 3), (''owner'', JStr demo_owner)]]]),
     (''owners'', JArr [JArr [JStr demo_owner, JStr ''sasha'']])]"

theorem name_snapshot_invariant_witness:
  "\<exists>s. parseNameRegistrySnapshot demo_name_snapshot NAMES_V1 = Inr s \<and> names_inv NAMES_V1 s"
proof -
  have "(case parseNameRegistrySnapshot demo_name_snapshot NAMES_V1 of Inr _ \<Rightarrow> True | _ \<Rightarrow> False)"
    by code_simp
  then obtain s where s: "parseNameRegistrySnapshot demo_name_snapshot NAMES_V1 = Inr s"
    by (auto split: sum.splits)
  with name_snapshot_invariant [OF s] show ?thesis by blast
qed

end
