(* ===== verification/CliqueSearch.thy ===== *)
theory CliqueSearch
  imports Js_Map Crypto
begin

text \<open>
  \<open>blockchain/clique-search.mjs\<close> and \<open>blockchain/proof-difficulty.mjs\<close>: the size of a clique
  task per level, the edges of its graph, the check of an answer, and the level of the next
  tasks from how fast the last ones were answered.
\<close>

section \<open>Parameters\<close>

record clique_params =
  cp_baseClique :: nat
  cp_levelsPerClique :: nat
  cp_maxExpectedLog2 :: nat
  cp_expectedStepLog2 :: nat
  cp_maxLevel :: int

definition CLIQUE_SEARCH_V1 :: clique_params where
  "CLIQUE_SEARCH_V1 = \<lparr>cp_baseClique = 10, cp_levelsPerClique = 8, cp_maxExpectedLog2 = 14,
     cp_expectedStepLog2 = 2, cp_maxLevel = 159\<rparr>"

text \<open>\<open>Clique_search_diverges\<close> is no thrown error: it stands for a doubling loop that never ends.\<close>

datatype clique_error =
    Clique_level_invalid
  | Clique_search_diverges
  | Clique_seed_invalid
  | Clique_answer_length
  | Clique_answer_order
  | Clique_not_adjacent

text \<open>
  The loop of \<open>binomial\<close>; the bigint division truncates, on values that are never negative: the
  product reaches 0 before a factor is negative.
\<close>

definition big_div :: "int \<Rightarrow> int \<Rightarrow> int" where
  "big_div a b = (if (a < 0) \<noteq> (b < 0) then - (\<bar>a\<bar> div \<bar>b\<bar>) else \<bar>a\<bar> div \<bar>b\<bar>)"

definition binomial_big :: "nat \<Rightarrow> nat \<Rightarrow> int" where
  "binomial_big n k = foldl (\<lambda>result i. big_div (result * (int n - int i)) (int i + 1)) 1 [0..<k]"

lemma choose_step: "int (n choose Suc k) * (int k + 1) = int (n choose k) * (int n - int k)"
proof (cases "k \<le> n")
  case True
  have "Suc k * (n choose Suc k) = (n choose k) * (n - k)"
    by (metis binomial_absorb_comp binomial_absorption mult.commute)
  then have "int (Suc k) * int (n choose Suc k) = int (n choose k) * int (n - k)"
    by (metis of_nat_mult)
  with True show ?thesis by (simp add: of_nat_diff algebra_simps)
qed (simp add: binomial_eq_0)

lemma binomial_big_choose: "binomial_big n k = int (n choose k)"
proof (induction k)
  case (Suc k)
  have "binomial_big n (Suc k) = big_div (int (n choose k) * (int n - int k)) (int k + 1)"
    using Suc by (simp add: binomial_big_def)
  also have "\<dots> = big_div (int (n choose Suc k) * (int k + 1)) (int k + 1)"
    by (simp add: choose_step)
  also have "\<dots> = int (n choose Suc k)"
    by (subst big_div_def) (simp add: mult_less_0_iff del: binomial_Suc_Suc)
  finally show ?case .
qed (simp add: binomial_big_def)

text \<open>A clique of \<open>k\<close> among \<open>n\<close> vertices can be chosen in more than \<open>n - k\<close> ways.\<close>

lemma choose_grows: "1 \<le> k \<Longrightarrow> k \<le> n \<Longrightarrow> n + 1 \<le> (n choose k) + k"
proof (induction n arbitrary: k)
  case (Suc n)
  show ?case
  proof (cases "k = Suc n")
    case False
    with Suc have "n + 1 \<le> (n choose k) + k" by simp
    moreover have "1 \<le> n choose (k - 1)" using Suc.prems by (simp add: Suc_le_eq)
    moreover have "Suc n choose k = (n choose (k - 1)) + (n choose k)"
      using Suc.prems by (cases k) auto
    ultimately show ?thesis by simp
  qed simp
qed simp

lemma choose_mono: "m \<le> n \<Longrightarrow> (m choose k) \<le> (n choose k)"
proof (induction n rule: dec_induct)
  case (step n)
  have "(n choose k) \<le> (Suc n choose k)" by (cases k) auto
  with step show ?case by simp
qed simp

text \<open>
  \<open>while (binomial(high, k) < bound) high *= 2\<close>: for \<open>k = 0\<close> or \<open>high = 0\<close> the body changes
  nothing and the loop never ends, which is \<open>None\<close>.
\<close>

function grow :: "nat \<Rightarrow> nat \<Rightarrow> int \<Rightarrow> nat option" where
  "grow high k bound =
     (if binomial_big high k < bound
      then if k = 0 \<or> high = 0 then None else grow (high * 2) k bound
      else Some high)"
  by pat_completeness auto
termination
proof (relation "measure (\<lambda>(high, k, bound). nat (bound + int k) - high)")
  fix high k :: nat and bound :: int
  assume less: "binomial_big high k < bound" and nz: "\<not> (k = 0 \<or> high = 0)"
  have "int high < bound + int k"
  proof (cases "k \<le> high")
    case True
    then have "int (high + 1) \<le> int ((high choose k) + k)"
      using choose_grows [of k high] nz by (simp only: of_nat_le_iff) simp
    with less show ?thesis by (simp add: binomial_big_choose)
  next
    case False
    with less show ?thesis by (simp add: binomial_big_choose binomial_eq_0)
  qed
  then have "high < nat (bound + int k)" by simp
  with nz show "((high * 2, k, bound), high, k, bound) \<in> measure (\<lambda>(high, k, bound). nat (bound + int k) - high)"
    using diff_less_mono2 [of high "high * 2" "nat (bound + int k)"] by simp
qed simp

declare grow.simps [simp del]

text \<open>\<open>while (low < high)\<close>: the binary search for the least size.\<close>

function shrink :: "nat \<Rightarrow> nat \<Rightarrow> nat \<Rightarrow> int \<Rightarrow> nat" where
  "shrink low high k bound =
     (if low < high
      then let middle = (low + high) div 2 in
           if binomial_big middle k \<ge> bound then shrink low middle k bound
           else shrink (middle + 1) high k bound
      else high)"
  by pat_completeness auto
termination by (relation "measure (\<lambda>(low, high, k, bound). high - low)") auto

declare shrink.simps [simp del]

definition cliqueSize :: "int \<Rightarrow> clique_params \<Rightarrow> nat" where
  "cliqueSize level params = cp_baseClique params + nat level div cp_levelsPerClique params"

text \<open>\<open>1n << BigInt(...)\<close>; a negative count would shift to the right.\<close>

definition cliqueBound :: "int \<Rightarrow> clique_params \<Rightarrow> int" where
  "cliqueBound level params =
     (let k = cliqueSize level params;
          e = int (cp_maxExpectedLog2 params) -
              int (cp_expectedStepLog2 params) * (level mod int (cp_levelsPerClique params)) +
              int (k * (k - 1) div 2)
      in if 0 \<le> e then 2 ^ nat e else 0)"

definition cliqueSearchParameters :: "int \<Rightarrow> clique_params \<Rightarrow> clique_error + (nat \<times> nat)" where
  "cliqueSearchParameters level params =
     (if \<not> is_safe_int level \<or> level < 0 \<or> level > cp_maxLevel params then Inl Clique_level_invalid
      else let k = cliqueSize level params; bound = cliqueBound level params in
        case grow k k bound of
          None \<Rightarrow> Inl Clique_search_diverges
        | Some high \<Rightarrow> Inr (max (shrink (high div 2) high k bound) k, k))"

section \<open>Edges and answers\<close>

definition hex_value :: "char \<Rightarrow> nat" where
  "hex_value c = (if is_digit c then unit_of c - 48 else unit_of c - 87)"

text \<open>Byte \<open>i\<close> of the digest whose hexadecimal digits are \<open>s\<close>.\<close>

definition digest_byte :: "string \<Rightarrow> nat \<Rightarrow> nat" where
  "digest_byte s i = 16 * hex_value (s ! (2 * i)) + hex_value (s ! (2 * i + 1))"

definition edgePosition :: "int \<Rightarrow> int \<Rightarrow> int \<Rightarrow> int" where
  "edgePosition n a b = a * n - (a * (a + 1)) div 2 + (b - a - 1)"

definition cliqueEdge :: "crypto \<Rightarrow> string \<Rightarrow> int \<Rightarrow> int \<Rightarrow> int \<Rightarrow> bool" where
  "cliqueEdge cr seed n i j =
     (if i = j then False
      else let (a, b) = (if i < j then (i, j) else (j, i));
               position = edgePosition n a b;
               block = sha3_hex cr (ascii ''NIR/PROOF_TASK/CLIQUE/v1'' @ [0] @ ascii seed @ [0] @
                         ascii (dec_string (position div 256)));
               bit = nat (position mod 256)
           in (digest_byte block (bit div 8) div 2 ^ (7 - bit mod 8)) mod 2 = 1)"

text \<open>The vertices of an answer, as integers; \<open>forEach\<close> over the entries.\<close>

fun checkVertices :: "int \<Rightarrow> int option \<Rightarrow> jsval list \<Rightarrow> clique_error + int list" where
  "checkVertices n previous [] = Inr []"
| "checkVertices n previous (v # vs) =
     (case safe_int v of
        None \<Rightarrow> Inl Clique_answer_order
      | Some x \<Rightarrow>
          if x < 0 \<or> x \<ge> n \<or> (case previous of None \<Rightarrow> False | Some p \<Rightarrow> x \<le> p)
          then Inl Clique_answer_order
          else bind_r (checkVertices n (Some x) vs) (\<lambda>xs. Inr (x # xs)))"

fun all_adjacent :: "(int \<Rightarrow> int \<Rightarrow> bool) \<Rightarrow> int list \<Rightarrow> bool" where
  "all_adjacent edge [] \<longleftrightarrow> True"
| "all_adjacent edge (x # xs) \<longleftrightarrow> list_all (edge x) xs \<and> all_adjacent edge xs"

definition checkCliqueSearchAnswer :: "crypto \<Rightarrow> jsval \<Rightarrow> int \<Rightarrow> jsval \<Rightarrow> clique_params \<Rightarrow>
    clique_error + (nat \<times> nat)" where
  "checkCliqueSearchAnswer cr seedValue level verticesValue params =
     (case seedValue of
        JStr seed \<Rightarrow>
          if \<not> is_hex64 seed then Inl Clique_seed_invalid
          else bind_r (cliqueSearchParameters level params) (\<lambda>(n, k).
            case verticesValue of
              JArr vs \<Rightarrow>
                if length vs \<noteq> k then Inl Clique_answer_length
                else bind_r (checkVertices (int n) None vs) (\<lambda>xs.
                  if all_adjacent (cliqueEdge cr seed (int n)) xs then Inr (n, k)
                  else Inl Clique_not_adjacent)
            | _ \<Rightarrow> Inl Clique_answer_length)
      | _ \<Rightarrow> Inl Clique_seed_invalid)"

section \<open>Difficulty\<close>

record difficulty_params =
  df_window :: nat
  df_targetSolveMs :: int
  df_expiryMs :: int
  df_initialLevel :: int
  df_minLevel :: int
  df_maxLevel :: int

definition PROOF_DIFFICULTY_V1 :: difficulty_params where
  "PROOF_DIFFICULTY_V1 = \<lparr>df_window = 16, df_targetSolveMs = 600000, df_expiryMs = 6 * 600000,
     df_initialLevel = 40, df_minLevel = 0, df_maxLevel = cp_maxLevel CLIQUE_SEARCH_V1\<rparr>"

datatype difficulty_error =
    Time_invalid
  | Answer_precedes_task
  | Level_out_of_range
  | Wrong_number_of_tasks

definition nonNegative :: "int \<Rightarrow> difficulty_error + int" where
  "nonNegative n = (if \<not> is_safe_int n \<or> n < 0 then Inl Time_invalid else Inr n)"

definition solveTime :: "int \<Rightarrow> int option \<Rightarrow> difficulty_params \<Rightarrow> difficulty_error + int option" where
  "solveTime issuedAtMs solvedAtMs params =
     bind_r (nonNegative issuedAtMs) (\<lambda>issued.
       case solvedAtMs of
         None \<Rightarrow> Inr None
       | Some t \<Rightarrow> bind_r (nonNegative t) (\<lambda>t.
           let elapsed = t - issued in
           if elapsed < 0 then Inl Answer_precedes_task
           else Inr (if elapsed > df_expiryMs params then None else Some elapsed)))"

text \<open>The sort by time with the unsolved tasks last.\<close>

definition sortTimes :: "int option list \<Rightarrow> int option list" where
  "sortTimes ts = map Some (sort (List.map_filter id ts)) @ replicate (length (filter (\<lambda>t. t = None) ts)) None"

definition levelStep :: "int \<Rightarrow> int option \<Rightarrow> int \<Rightarrow> int" where
  "levelStep level median target =
     (case median of
        None \<Rightarrow> level - 2
      | Some m \<Rightarrow>
          if m > 4 * target then level - 2
          else if m > 2 * target then level - 1
          else if m * 4 \<le> target then level + 2
          else if m * 2 \<le> target then level + 1
          else level)"

definition nextSearchLevel :: "int \<Rightarrow> (int \<times> int option) list \<Rightarrow> difficulty_params \<Rightarrow>
    difficulty_error + int" where
  "nextSearchLevel level tasks params =
     (if \<not> is_safe_int level \<or> level < df_minLevel params \<or> level > df_maxLevel params
      then Inl Level_out_of_range
      else if length tasks \<noteq> df_window params then Inl Wrong_number_of_tasks
      else bind_r (mapM (\<lambda>(issued, solved). solveTime issued solved params) tasks) (\<lambda>ts.
        let median = sortTimes ts ! ((df_window params - 1) div 2) in
        Inr (min (df_maxLevel params)
               (max (df_minLevel params) (levelStep level median (df_targetSolveMs params))))))"


section \<open>The search for the size of the graph\<close>

lemma grow_ends:
  "1 \<le> k \<Longrightarrow> 1 \<le> h \<Longrightarrow> \<exists>r. grow h k bound = Some r \<and> bound \<le> int (r choose k) \<and> h \<le> r \<and>
     (r = h \<or> int (r div 2 choose k) < bound)"
proof (induction h k bound rule: grow.induct)
  case (1 h k bound)
  show ?case
  proof (cases "binomial_big h k < bound")
    case False
    then show ?thesis by (simp add: grow.simps [of h] binomial_big_choose)
  next
    case True
    from 1 True obtain r where r: "grow (h * 2) k bound = Some r" "bound \<le> int (r choose k)"
      "h * 2 \<le> r" "r = h * 2 \<or> int (r div 2 choose k) < bound" by auto
    with True "1.prems" have "grow h k bound = Some r" by (simp add: grow.simps [of h])
    moreover have "int (r div 2 choose k) < bound"
      using r(4) True by (auto simp: binomial_big_choose)
    ultimately show ?thesis using r by auto
  qed
qed

lemma shrink_least:
  "low \<le> high \<Longrightarrow> bound \<le> int (high choose k) \<Longrightarrow> \<forall>m < low. int (m choose k) < bound \<Longrightarrow>
   bound \<le> int (shrink low high k bound choose k) \<and> (\<forall>m < shrink low high k bound. int (m choose k) < bound)"
proof (induction low high k bound rule: shrink.induct)
  case (1 low high k bound)
  show ?case
  proof (cases "low < high")
    case False
    then have "shrink low high k bound = high" by (subst shrink.simps) simp
    with "1.prems" False show ?thesis by simp
  next
    case True
    define middle where "middle = (low + high) div 2"
    have mid: "low \<le> middle" "middle < high" using True by (auto simp: middle_def)
    show ?thesis
    proof (cases "binomial_big middle k \<ge> bound")
      case True
      then have "shrink low high k bound = shrink low middle k bound"
        using \<open>low < high\<close> by (simp add: shrink.simps [of low high] middle_def)
      with "1.IH"(1) [OF \<open>low < high\<close> middle_def] True mid "1.prems" show ?thesis
        by (simp add: binomial_big_choose)
    next
      case False
      have below: "int (m choose k) < bound" if "m < middle + 1" for m
      proof -
        have "(m choose k) \<le> (middle choose k)" using that by (intro choose_mono) simp
        with False show ?thesis by (simp add: binomial_big_choose)
      qed
      have "shrink low high k bound = shrink (middle + 1) high k bound"
        using \<open>low < high\<close> False by (simp add: shrink.simps [of low high] middle_def)
      with "1.IH"(2) [OF \<open>low < high\<close> middle_def False] below mid "1.prems" show ?thesis by simp
    qed
  qed
qed

lemma parameters_least:
  assumes "is_safe_int level" "0 \<le> level" "level \<le> cp_maxLevel params"
    and "1 \<le> cp_baseClique params" and "0 < cliqueBound level params"
  shows "\<exists>n. cliqueSearchParameters level params = Inr (n, cliqueSize level params) \<and>
    cliqueSize level params \<le> n \<and> cliqueBound level params \<le> int (n choose cliqueSize level params) \<and>
    (\<forall>m < n. int (m choose cliqueSize level params) < cliqueBound level params)"
proof -
  let ?k = "cliqueSize level params" and ?b = "cliqueBound level params"
  have k: "1 \<le> ?k" using assms(4) by (simp add: cliqueSize_def)
  from grow_ends [OF k k] obtain high where g: "grow ?k ?k ?b = Some high"
    "?b \<le> int (high choose ?k)" "?k \<le> high" "high = ?k \<or> int (high div 2 choose ?k) < ?b" by blast
  have below: "\<forall>m < high div 2. int (m choose ?k) < ?b"
  proof (intro allI impI)
    fix m assume m: "m < high div 2"
    show "int (m choose ?k) < ?b"
    proof (cases "high = ?k")
      case True
      then have "m < ?k" using m by simp
      then show ?thesis using assms(5) by (simp add: binomial_eq_0)
    next
      case False
      then have "int (high div 2 choose ?k) < ?b" using g(4) by simp
      moreover have "(m choose ?k) \<le> (high div 2 choose ?k)" using m by (intro choose_mono) simp
      ultimately show ?thesis by simp
    qed
  qed
  let ?n = "shrink (high div 2) high ?k ?b"
  have n: "?b \<le> int (?n choose ?k)" "\<forall>m < ?n. int (m choose ?k) < ?b"
    using shrink_least [OF _ g(2) below] by simp_all
  have "?k \<le> ?n"
  proof (rule ccontr)
    assume "\<not> ?k \<le> ?n"
    then have "?n choose ?k = 0" by (simp add: binomial_eq_0)
    with n(1) assms(5) show False by simp
  qed
  moreover have "cliqueSearchParameters level params = Inr (max ?n ?k, ?k)"
    using assms(1-3) g(1) by (simp add: cliqueSearchParameters_def Let_def)
  ultimately show ?thesis using n by (simp add: max_absorb1)
qed

lemma bound_V1: "0 < cliqueBound level CLIQUE_SEARCH_V1"
proof -
  have "0 \<le> level mod 8" "level mod 8 \<le> 7" by simp_all
  then show ?thesis by (simp add: cliqueBound_def Let_def CLIQUE_SEARCH_V1_def)
qed

section \<open>Properties\<close>

text \<open>
  C33: at every level of the protocol the two loops that look for the size of the graph end, and
  the size they find is the least one with at least the level's number of expected cliques; it
  holds a clique of the wanted size, and an answer always has between 10 and 29 vertices.
\<close>

theorem clique_parameters_least:
  assumes "0 \<le> level" "level \<le> 159"
  shows "\<exists>n k. cliqueSearchParameters level CLIQUE_SEARCH_V1 = Inr (n, k) \<and>
    k = 10 + nat level div 8 \<and> 10 \<le> k \<and> k \<le> 29 \<and> k \<le> n \<and>
    cliqueBound level CLIQUE_SEARCH_V1 \<le> int (n choose k) \<and>
    (\<forall>m < n. int (m choose k) < cliqueBound level CLIQUE_SEARCH_V1)"
proof -
  have "is_safe_int level" "level \<le> cp_maxLevel CLIQUE_SEARCH_V1" "1 \<le> cp_baseClique CLIQUE_SEARCH_V1"
    "cliqueSize level CLIQUE_SEARCH_V1 = 10 + nat level div 8"
    using assms by (simp_all add: is_safe_int_def MAX_SAFE_INTEGER_def CLIQUE_SEARCH_V1_def cliqueSize_def)
  moreover have "nat level div 8 \<le> 19" using assms by simp
  ultimately show ?thesis
    using parameters_least [of level CLIQUE_SEARCH_V1] assms(1) bound_V1 by auto
qed

lemma checkVertices_Inr:
  "checkVertices n p vs = Inr xs \<Longrightarrow> length xs = length vs \<and> sorted_wrt (<) xs \<and>
     (\<forall>x \<in> set xs. 0 \<le> x \<and> x < n \<and> (\<forall>q. p = Some q \<longrightarrow> q < x)) \<and> map safe_int vs = map Some xs"
proof (induction vs arbitrary: p xs)
  case (Cons v vs)
  from Cons.prems obtain x ys where x: "safe_int v = Some x" "0 \<le> x" "x < n"
    "\<forall>q. p = Some q \<longrightarrow> q < x" and rest: "checkVertices n (Some x) vs = Inr ys" "xs = x # ys"
    by (auto simp: bind_r_Inr_iff split: option.splits if_splits)
  from Cons.IH [OF rest(1)] x rest(2) show ?case by fastforce
qed simp

lemma cliqueEdge_sym: "cliqueEdge cr seed n i j = cliqueEdge cr seed n j i"
  by (auto simp: cliqueEdge_def)

lemma all_adjacent_iff:
  "(\<And>x y. edge x y = edge y x) \<Longrightarrow> distinct xs \<Longrightarrow>
   all_adjacent edge xs \<longleftrightarrow> (\<forall>x \<in> set xs. \<forall>y \<in> set xs. x \<noteq> y \<longrightarrow> edge x y)"
  by (induction xs) (auto simp: list_all_iff)

text \<open>
  C34: an accepted answer lists exactly as many vertices as the level asks for, in increasing
  order, all of them vertices of the graph of the level, and any two of them are adjacent.
\<close>

theorem clique_answer_is_clique:
  assumes "checkCliqueSearchAnswer cr seedV level verticesV params = Inr (n, k)"
  shows "\<exists>seed vs xs. seedV = JStr seed \<and> is_hex64 seed \<and> verticesV = JArr vs \<and>
    cliqueSearchParameters level params = Inr (n, k) \<and>
    map safe_int vs = map Some xs \<and> length xs = k \<and> sorted_wrt (<) xs \<and>
    (\<forall>x \<in> set xs. 0 \<le> x \<and> x < int n) \<and> card (set xs) = k \<and>
    (\<forall>x \<in> set xs. \<forall>y \<in> set xs. x \<noteq> y \<longrightarrow> cliqueEdge cr seed (int n) x y)"
proof -
  from assms obtain seed vs xs where v: "seedV = JStr seed" "is_hex64 seed" "verticesV = JArr vs"
    "cliqueSearchParameters level params = Inr (n, k)" "length vs = k"
    and c: "checkVertices (int n) None vs = Inr xs" "all_adjacent (cliqueEdge cr seed (int n)) xs"
    by (cases verticesV; cases seedV)
      (auto simp: checkCliqueSearchAnswer_def bind_r_Inr_iff split: if_splits)
  note xs = checkVertices_Inr [OF c(1)]
  then have d: "distinct xs" by (simp add: strict_sorted_iff)
  then have "card (set xs) = k" using xs v(5) by (simp add: distinct_card)
  moreover have "\<forall>x \<in> set xs. \<forall>y \<in> set xs. x \<noteq> y \<longrightarrow> cliqueEdge cr seed (int n) x y"
    using c(2) all_adjacent_iff [of "cliqueEdge cr seed (int n)" xs] cliqueEdge_sym d by blast
  ultimately show ?thesis using xs v by auto
qed


lemma solveTime_Some: "solveTime i s params = Inr (Some t) \<Longrightarrow> 0 \<le> t \<and> t \<le> df_expiryMs params"
  by (auto simp: solveTime_def bind_r_Inr_iff Let_def split: option.splits if_splits)

lemma length_sortTimes: "length (sortTimes ts) = length ts"
  by (induction ts) (auto simp: sortTimes_def List.map_filter_def split: option.splits)

text \<open>In sorted order, fewer than \<open>j\<close> times before the \<open>j\<close>th and after it the rest: a time in the
  middle lies in every band that holds most of the times.\<close>

definition band :: "int \<Rightarrow> int \<Rightarrow> int option \<Rightarrow> bool" where
  "band lo hi t \<longleftrightarrow> (case t of None \<Rightarrow> False | Some x \<Rightarrow> lo < x \<and> x \<le> hi)"

lemma sorted_median_band:
  assumes "sorted xs" and "length (filter (\<lambda>x. lo < x \<and> x \<le> hi) xs) > length xs + extra - Suc j"
    and "length (filter (\<lambda>x. lo < x \<and> x \<le> hi) xs) > j"
  shows "j < length xs \<and> lo < xs ! j \<and> xs ! j \<le> (hi :: int)"
proof (intro conjI)
  let ?p = "\<lambda>x. lo < x \<and> x \<le> hi"
  show j: "j < length xs" using assms(3) length_filter_le [of ?p xs] by linarith
  have split: "filter ?p xs = filter ?p (take (Suc j) xs) @ filter ?p (drop (Suc j) xs)"
    by (metis append_take_drop_id filter_append)
  have split': "filter ?p xs = filter ?p (take j xs) @ filter ?p (drop j xs)"
    by (metis append_take_drop_id filter_append)
  show "lo < xs ! j"
  proof (rule ccontr)
    assume "\<not> lo < xs ! j"
    moreover have "x \<le> xs ! j" if "x \<in> set (take (Suc j) xs)" for x
      using that assms(1) j by (auto simp: in_set_conv_nth sorted_iff_nth_mono less_Suc_eq_le)
    ultimately have "filter ?p (take (Suc j) xs) = []" by (force simp: filter_empty_conv)
    then have "length (filter ?p xs) \<le> length xs - Suc j"
      using split length_filter_le [of ?p "drop (Suc j) xs"] by simp
    with assms(2) show False by simp
  qed
  show "xs ! j \<le> hi"
  proof (rule ccontr)
    assume "\<not> xs ! j \<le> hi"
    moreover have "xs ! j \<le> x" if "x \<in> set (drop j xs)" for x
      using that assms(1) by (auto simp: in_set_conv_nth sorted_iff_nth_mono)
    ultimately have "filter ?p (drop j xs) = []" by (force simp: filter_empty_conv)
    then have "length (filter ?p xs) \<le> j"
      using split' length_filter_le [of ?p "take j xs"] by simp
    with assms(3) show False by simp
  qed
qed

lemma filter_map_filter: "length (filter (band lo hi) ts) =
    length (filter (\<lambda>x. lo < x \<and> x \<le> hi) (List.map_filter id ts))"
  by (induction ts) (auto simp: band_def List.map_filter_def split: option.splits)

lemma length_map_filter:
  "length (List.map_filter id ts) + length (filter (\<lambda>t. t = None) ts) = length ts"
  by (induction ts) (auto simp: List.map_filter_def split: option.splits)

lemma length_filter_sort: "length (filter P (sort xs)) = length (filter P xs)"
  by (simp add: filter_sort)

lemma median_band:
  assumes "length ts < 2 * length (filter (band lo hi) ts)"
  shows "band lo hi (sortTimes ts ! ((length ts - 1) div 2))"
proof -
  let ?xs = "sort (List.map_filter id ts)" and ?j = "(length ts - 1) div 2"
  let ?n = "length (filter (\<lambda>x. lo < x \<and> x \<le> hi) ?xs)"
  have n: "?n = length (filter (band lo hi) ts)"
    by (simp only: filter_map_filter length_filter_sort)
  have len: "length ?xs \<le> length ts" using length_map_filter [of ts] by simp
  have "?n > length ?xs + 0 - Suc ?j" "?n > ?j" using assms n len by linarith+
  from sorted_median_band [OF sorted_sort this] have "?j < length ?xs" "lo < ?xs ! ?j" "?xs ! ?j \<le> hi"
    by simp_all
  then show ?thesis by (simp add: sortTimes_def nth_append band_def)
qed

text \<open>
  the next level stays in the protocol's range and moves by at most two; and when more than
  half of the window's tasks were answered in between half and twice the target time, the level
  does not change at all, so a minority of held-back or lucky answers cannot move it.
\<close>

theorem next_level_robust:
  assumes "nextSearchLevel level tasks params = Inr next'"
    and "mapM (\<lambda>(issued, solved). solveTime issued solved params) tasks = Inr ts"
    and "0 \<le> df_targetSolveMs params"
  shows "df_minLevel params \<le> next' \<and> next' \<le> df_maxLevel params \<and> \<bar>next' - level\<bar> \<le> 2 \<and>
    (length ts < 2 * length (filter (band (df_targetSolveMs params div 2) (2 * df_targetSolveMs params)) ts)
       \<longrightarrow> next' = level)"
proof -
  let ?t = "df_targetSolveMs params"
  let ?m = "sortTimes ts ! ((df_window params - 1) div 2)"
  from assms(1,2) have lv: "df_minLevel params \<le> level" "level \<le> df_maxLevel params"
    and len: "length tasks = df_window params"
    and next': "next' = min (df_maxLevel params) (max (df_minLevel params) (levelStep level ?m ?t))"
    by (auto simp: nextSearchLevel_def bind_r_Inr_iff Let_def split: if_splits)
  have step: "\<bar>levelStep level ?m ?t - level\<bar> \<le> 2" by (auto simp: levelStep_def split: option.splits)
  have "next' = level"
    if "length ts < 2 * length (filter (band (?t div 2) (2 * ?t)) ts)"
  proof -
    have "length ts = df_window params" using mapM_length [OF assms(2)] len by simp
    with median_band [OF that] have "band (?t div 2) (2 * ?t) ?m" by simp
    then obtain m where m: "?m = Some m" "?t div 2 < m" "m \<le> 2 * ?t"
      by (auto simp: band_def split: option.splits)
    then have "\<not> m * 2 \<le> ?t" "\<not> m * 4 \<le> ?t" "\<not> m > 4 * ?t" using assms(3) by linarith+
    with m have "levelStep level ?m ?t = level" by (simp add: levelStep_def)
    with next' lv show ?thesis by simp
  qed
  with next' lv step show ?thesis by (auto simp: min_def max_def)
qed

section \<open>Witnesses\<close>

theorem clique_parameters_least_witness:
  "\<exists>n. cliqueSearchParameters 40 CLIQUE_SEARCH_V1 = Inr (n, 15) \<and> 15 \<le> n"
  using clique_parameters_least [of 40] by auto

theorem next_level_robust_witness:
  "nextSearchLevel 40 (replicate 9 (0, Some 600000) @ replicate 7 (0, None)) PROOF_DIFFICULTY_V1 = Inr 40"
proof -
  let ?tasks = "replicate 9 (0, Some 600000) @ replicate 7 (0 :: int, None :: int option)"
  have run: "case nextSearchLevel 40 ?tasks PROOF_DIFFICULTY_V1 of Inr _ \<Rightarrow> True | _ \<Rightarrow> False" by code_simp
  then obtain l where l: "nextSearchLevel 40 ?tasks PROOF_DIFFICULTY_V1 = Inr l" by (auto split: sum.splits)
  have ts: "mapM (\<lambda>(issued, solved). solveTime issued solved PROOF_DIFFICULTY_V1) ?tasks =
      Inr (replicate 9 (Some 600000) @ replicate 7 None)" by code_simp
  have "length (replicate 9 (Some (600000 :: int)) @ replicate 7 None) <
      2 * length (filter (band (df_targetSolveMs PROOF_DIFFICULTY_V1 div 2) (2 * df_targetSolveMs PROOF_DIFFICULTY_V1))
        (replicate 9 (Some 600000) @ replicate 7 None))" "0 \<le> df_targetSolveMs PROOF_DIFFICULTY_V1"
    by code_simp+
  with next_level_robust [OF l ts] have "l = 40" by blast
  with l show ?thesis by simp
qed

text \<open>A task of one level of two vertices, to evaluate the check of an answer.\<close>

definition demo_search :: clique_params where
  "demo_search = \<lparr>cp_baseClique = 2, cp_levelsPerClique = 1, cp_maxExpectedLog2 = 0,
     cp_expectedStepLog2 = 0, cp_maxLevel = 0\<rparr>"

lemma demo_answer:
  "checkCliqueSearchAnswer demo_crypto (JStr (replicate 64 CHR ''0'')) 0 (JArr [JNum 0, JNum 1]) demo_search =
     Inr (3, 2)"
  by code_simp

theorem clique_answer_is_clique_witness: "cliqueEdge demo_crypto (replicate 64 CHR ''0'') 3 0 1"
proof -
  from clique_answer_is_clique [OF demo_answer] obtain seed vs xs where
    eq: "JStr (replicate 64 CHR ''0'') = JStr seed" "JArr [JNum 0, JNum 1] = JArr vs"
    and xs: "map safe_int vs = map Some xs"
      "\<forall>x \<in> set xs. \<forall>y \<in> set xs. x \<noteq> y \<longrightarrow> cliqueEdge demo_crypto seed (int 3) x y"
    by (elim exE conjE) (rule that)
  have "map safe_int [JNum 0, JNum 1] = map Some [0, 1]" by code_simp
  then have "map Some xs = map Some [0, 1]" using xs(1) eq(2) by (simp only: jsval.inject)
  then have "xs = [0, 1]" by auto
  moreover have "seed = replicate 64 CHR ''0''" using eq(1) by (simp only: jsval.inject)
  ultimately show ?thesis using xs(2) by simp
qed

end
