(* ===== verification/ProofMining.thy ===== *)
theory ProofMining
  imports CliqueSearch "HOL-Library.Product_Lexorder"
begin

text \<open>
  \<open>blockchain/proof-mining-state.mjs\<close>: the state machine of network clique tasks. A finalized
  beacon round issues a task; miners commit to an answer, with a bond, and reveal it later; at
  the end of a block the earliest valid reveal wins its task, unrevealed commitments lose their
  bond, and the level follows the solve times. Rewards wait in escrow before they are credited.
\<close>

section \<open>State\<close>

record proof_params =
  pm_revealDelayBlocks :: int
  pm_revealWindowBlocks :: int
  pm_commitBond :: int
  pm_maxOpenTasks :: nat
  pm_maxCommitsPerTask :: nat
  pm_maxPendingRewards :: nat
  pm_search :: clique_params

definition PROOF_MINING_V1 :: proof_params where
  "PROOF_MINING_V1 = \<lparr>pm_revealDelayBlocks = 2, pm_revealWindowBlocks = 16, pm_commitBond = 1000000,
     pm_maxOpenTasks = 64, pm_maxCommitsPerTask = 256, pm_maxPendingRewards = 1024,
     pm_search = CLIQUE_SEARCH_V1\<rparr>"

datatype task_status = Task_open | Task_solved | Task_expired

record task =
  tk_round :: int
  tk_seed :: string
  tk_level :: int
  tk_issuedHeight :: int
  tk_issuedAtMs :: int
  tk_closesAtMs :: int
  tk_status :: task_status
  tk_solvedAtMs :: "int option"

record answer_commit =
  ac_commitment :: string
  ac_taskRound :: int
  ac_sender :: string
  ac_bond :: int
  ac_height :: int
  ac_index :: int
  ac_timestampMs :: int
  ac_recipient :: "string option"

record pending_reward =
  pr_fingerprint :: string
  pr_recipient :: string
  pr_taskRound :: int

record escrow =
  es_amount :: int
  es_recipient :: string
  es_unlockHeight :: int

record proof_state =
  ps_level :: int
  ps_tasks :: "(int, task) jsmap"
  ps_commits :: "(string, answer_commit) jsmap"
  ps_pendingRewards :: "pending_reward list"
  ps_escrows :: "(string, escrow) jsmap"

text \<open>\<open>Proof_diverges\<close> stands for the retarget loop of a window of no tasks, which never ends.\<close>

datatype proof_error =
    Proof_integer_invalid
  | Proof_beacon_invalid
  | Proof_round_issued
  | Proof_commitment_invalid
  | Proof_commitment_submitted
  | Proof_task_not_open
  | Proof_too_many_commits
  | Proof_no_commit
  | Proof_outside_window
  | Proof_salt_invalid
  | Proof_commitment_mismatch
  | Proof_answer_rejected clique_error
  | Proof_rewards_full
  | Proof_level difficulty_error
  | Proof_already_escrowed
  | Proof_not_encodable codec_error
  | Proof_snapshot_malformed
  | Proof_snapshot_invalid
  | Proof_diverges

definition proof_integer :: "int \<Rightarrow> proof_error + int" where
  "proof_integer n = (if \<not> is_safe_int n \<or> n < 0 then Inl Proof_integer_invalid else Inr n)"

definition createProofMiningState :: "difficulty_params \<Rightarrow> proof_state" where
  "createProofMiningState difficulty =
     \<lparr>ps_level = df_initialLevel difficulty, ps_tasks = [], ps_commits = [], ps_pendingRewards = [],
      ps_escrows = []\<rparr>"

section \<open>Hashes\<close>

definition proofTaskSeed :: "crypto \<Rightarrow> string \<Rightarrow> int \<Rightarrow> string \<Rightarrow> proof_error + string" where
  "proofTaskSeed cr networkId round beaconValue =
     map_err Proof_not_encodable
       (hashObject cr (JObj [(''beaconValue'', JStr beaconValue), (''networkId'', JStr networkId),
          (''round'', JNum round)]) ''PROOF_TASK_CLIQUE_V1'')"

definition proofAnswerHash :: "crypto \<Rightarrow> jsval \<Rightarrow> proof_error + string" where
  "proofAnswerHash cr vertices =
     map_err Proof_not_encodable (hashObject cr (JObj [(''vertices'', vertices)]) ''PROOF_ANSWER_V1'')"

definition proofAnswerCommitment :: "crypto \<Rightarrow> string \<Rightarrow> int \<Rightarrow> string \<Rightarrow> string \<Rightarrow> jsval \<Rightarrow>
    proof_error + string" where
  "proofAnswerCommitment cr networkId taskRound recipient salt vertices =
     bind_r (proofAnswerHash cr vertices) (\<lambda>answerHash.
       map_err Proof_not_encodable
         (hashObject cr (JObj [(''answerHash'', JStr answerHash), (''networkId'', JStr networkId),
            (''recipient'', JStr recipient), (''salt'', JStr salt), (''taskRound'', JNum taskRound)])
          ''PROOF_ANSWER_COMMITMENT_V1''))"

section \<open>Tasks, commits and reveals\<close>

definition openTasks :: "proof_state \<Rightarrow> nat" where
  "openTasks s = length (filter (\<lambda>t. tk_status t = Task_open) (jvalues (ps_tasks s)))"

text \<open>The state, and the task unless the round was skipped.\<close>

definition issueProofTask :: "crypto \<Rightarrow> proof_state \<Rightarrow> string \<Rightarrow> int \<Rightarrow> jsval \<Rightarrow> int \<Rightarrow> int \<Rightarrow>
    difficulty_params \<Rightarrow> proof_params \<Rightarrow> proof_error + (proof_state \<times> task option)" where
  "issueProofTask cr s networkId roundNumber beaconValue height timestampMs difficulty params =
     bind_r (proof_integer roundNumber) (\<lambda>round.
       case beaconValue of
         JStr beacon \<Rightarrow>
           if \<not> is_hex64 beacon then Inl Proof_beacon_invalid
           else if jhas (ps_tasks s) round then Inl Proof_round_issued
           else if openTasks s \<ge> pm_maxOpenTasks params then Inr (s, None)
           else bind_r (proofTaskSeed cr networkId round beacon) (\<lambda>seed.
                bind_r (proof_integer height) (\<lambda>h.
                bind_r (proof_integer timestampMs) (\<lambda>at.
                  let task = \<lparr>tk_round = round, tk_seed = seed, tk_level = ps_level s,
                              tk_issuedHeight = h, tk_issuedAtMs = at,
                              tk_closesAtMs = timestampMs + df_expiryMs difficulty,
                              tk_status = Task_open, tk_solvedAtMs = None\<rparr>
                  in Inr (s\<lparr>ps_tasks := jset round task (ps_tasks s)\<rparr>, Some task))))
       | _ \<Rightarrow> Inl Proof_beacon_invalid)"

definition commitsOf :: "proof_state \<Rightarrow> int \<Rightarrow> answer_commit list" where
  "commitsOf s round = filter (\<lambda>c. ac_taskRound c = round) (jvalues (ps_commits s))"

definition applyProofAnswerCommit :: "proof_state \<Rightarrow> jsval \<Rightarrow> jsval \<Rightarrow> string \<Rightarrow> int \<Rightarrow> int \<Rightarrow> int \<Rightarrow>
    proof_params \<Rightarrow> proof_error + proof_state" where
  "applyProofAnswerCommit s commitmentValue taskRoundValue sender height index timestampMs params =
     (case commitmentValue of
        JStr commitment \<Rightarrow>
          if \<not> is_hex64 commitment then Inl Proof_commitment_invalid
          else if jhas (ps_commits s) commitment then Inl Proof_commitment_submitted
          else (case safe_int taskRoundValue of
             None \<Rightarrow> Inl Proof_task_not_open
           | Some taskRound \<Rightarrow>
               (case jget (ps_tasks s) taskRound of
                  None \<Rightarrow> Inl Proof_task_not_open
                | Some task \<Rightarrow>
                    if tk_status task \<noteq> Task_open \<or> timestampMs > tk_closesAtMs task
                    then Inl Proof_task_not_open
                    else if length (commitsOf s taskRound) \<ge> pm_maxCommitsPerTask params
                    then Inl Proof_too_many_commits
                    else bind_r (proof_integer height) (\<lambda>h.
                         bind_r (proof_integer index) (\<lambda>i.
                         bind_r (proof_integer timestampMs) (\<lambda>at.
                           Inr (s\<lparr>ps_commits := jset commitment
                             \<lparr>ac_commitment = commitment, ac_taskRound = taskRound, ac_sender = sender,
                              ac_bond = pm_commitBond params, ac_height = h, ac_index = i,
                              ac_timestampMs = at, ac_recipient = None\<rparr> (ps_commits s)\<rparr>))))))
      | _ \<Rightarrow> Inl Proof_commitment_invalid)"

definition applyProofAnswerReveal :: "crypto \<Rightarrow> proof_state \<Rightarrow> string \<Rightarrow> jsval \<Rightarrow> string \<Rightarrow> jsval \<Rightarrow> jsval \<Rightarrow>
    int \<Rightarrow> proof_params \<Rightarrow> proof_error + proof_state" where
  "applyProofAnswerReveal cr s networkId commitmentValue recipient saltValue vertices height params =
     (case (case commitmentValue of JStr k \<Rightarrow> jget (ps_commits s) k | _ \<Rightarrow> None) of
        None \<Rightarrow> Inl Proof_no_commit
      | Some commit \<Rightarrow>
          if ac_recipient commit \<noteq> None then Inl Proof_no_commit
          else (case jget (ps_tasks s) (ac_taskRound commit) of
             None \<Rightarrow> Inl Proof_task_not_open
           | Some task \<Rightarrow>
               if tk_status task \<noteq> Task_open then Inl Proof_task_not_open
               else if height < ac_height commit + pm_revealDelayBlocks params \<or>
                       height > ac_height commit + pm_revealWindowBlocks params
               then Inl Proof_outside_window
               else (case saltValue of
                  JStr salt \<Rightarrow>
                    if \<not> is_hex64 salt then Inl Proof_salt_invalid
                    else bind_r (proofAnswerCommitment cr networkId (ac_taskRound commit) recipient salt vertices)
                      (\<lambda>expected.
                      if JStr expected \<noteq> commitmentValue then Inl Proof_commitment_mismatch
                      else bind_r (map_err Proof_answer_rejected
                             (checkCliqueSearchAnswer cr (JStr (tk_seed task)) (tk_level task) vertices
                                (pm_search params))) (\<lambda>_.
                        Inr (s\<lparr>ps_commits := jset expected (commit\<lparr>ac_recipient := Some recipient\<rparr>)
                                (ps_commits s)\<rparr>)))
                | _ \<Rightarrow> Inl Proof_salt_invalid)))"

section \<open>The end of a block\<close>

definition earlier :: "answer_commit \<Rightarrow> answer_commit \<Rightarrow> bool" where
  "earlier a b \<longleftrightarrow> ac_height a < ac_height b \<or> (ac_height a = ac_height b \<and> ac_index a < ac_index b)"

text \<open>\<open>release\<close>: the refunds and the burned amount are the accumulators of the closure.\<close>

record settlement =
  st_state :: proof_state
  st_refunds :: "(string \<times> int) list"
  st_burned :: int

definition release :: "answer_commit \<Rightarrow> bool \<Rightarrow> settlement \<Rightarrow> settlement" where
  "release commit burn a =
     (let s = st_state a; s' = s\<lparr>ps_commits := jdel (ac_commitment commit) (ps_commits s)\<rparr> in
      if burn then a\<lparr>st_state := s', st_burned := st_burned a + ac_bond commit\<rparr>
      else a\<lparr>st_state := s', st_refunds := st_refunds a @ [(ac_sender commit, ac_bond commit)]\<rparr>)"

definition taskOpen :: "proof_state \<Rightarrow> int \<Rightarrow> bool" where
  "taskOpen s round \<longleftrightarrow>
     (case jget (ps_tasks s) round of None \<Rightarrow> False | Some t \<Rightarrow> tk_status t = Task_open)"

text \<open>The first loop: unrevealed commits at the end of their window.\<close>

definition chargeUnrevealed :: "int \<Rightarrow> proof_params \<Rightarrow> settlement \<Rightarrow> settlement" where
  "chargeUnrevealed height params a =
     foldl (\<lambda>a commit.
        if ac_recipient commit = None \<and> height \<ge> ac_height commit + pm_revealWindowBlocks params
        then release commit (taskOpen (st_state a) (ac_taskRound commit)) a else a)
       a (jvalues (ps_commits (st_state a)))"

text \<open>The revealed commits of a task in the order of the blocks, the earliest first.\<close>

definition revealedInOrder :: "answer_commit list \<Rightarrow> answer_commit list" where
  "revealedInOrder commits =
     sort_key (\<lambda>c. (ac_height c, ac_index c)) (filter (\<lambda>c. ac_recipient c \<noteq> None) commits)"

definition closeTask :: "crypto \<Rightarrow> string \<Rightarrow> int \<Rightarrow> proof_params \<Rightarrow> settlement \<Rightarrow> int \<Rightarrow>
    proof_error + settlement" where
  "closeTask cr networkId timestampMs params a round =
     (let s = st_state a in
      case jget (ps_tasks s) round of
        None \<Rightarrow> Inr a
      | Some task \<Rightarrow>
          if tk_status task \<noteq> Task_open then Inr a
          else let commits = commitsOf s (tk_round task);
                   revealed = revealedInOrder commits;
                   pending = filter (\<lambda>c. ac_recipient c = None) commits in
            (case revealed of
               best # _ \<Rightarrow>
                 if list_all (\<lambda>c. earlier best c) pending
                 then if length (ps_pendingRewards s) \<ge> pm_maxPendingRewards params
                      then Inl Proof_rewards_full
                      else bind_r (map_err Proof_not_encodable
                             (hashObject cr (JObj [(''commitment'', JStr (ac_commitment best)),
                                (''networkId'', JStr networkId), (''round'', JNum (tk_round task))])
                              ''PROOF_TASK_REWARD_V1'')) (\<lambda>fingerprint.
                        let s' = s\<lparr>ps_tasks := jset round (task\<lparr>tk_status := Task_solved,
                                      tk_solvedAtMs := Some (ac_timestampMs best)\<rparr>) (ps_tasks s),
                                   ps_pendingRewards := ps_pendingRewards s @
                                     [\<lparr>pr_fingerprint = fingerprint, pr_recipient = the (ac_recipient best),
                                       pr_taskRound = tk_round task\<rparr>]\<rparr>
                        in Inr (foldl (\<lambda>a c. release c False a) (a\<lparr>st_state := s'\<rparr>) commits))
                 else Inr a
             | [] \<Rightarrow>
                 if commits = [] \<and> timestampMs > tk_closesAtMs task
                 then Inr (a\<lparr>st_state := s\<lparr>ps_tasks := jset round (task\<lparr>tk_status := Task_expired\<rparr>)
                                           (ps_tasks s)\<rparr>\<rparr>)
                 else Inr a))"

text \<open>Task rounds in increasing order, which is how the code sorts the tasks by round.\<close>

definition tasksByRound :: "proof_state \<Rightarrow> task list" where
  "tasksByRound s = sort_key tk_round (jvalues (ps_tasks s))"

definition closeTasks :: "crypto \<Rightarrow> string \<Rightarrow> int \<Rightarrow> proof_params \<Rightarrow> settlement \<Rightarrow> proof_error + settlement" where
  "closeTasks cr networkId timestampMs params a =
     foldM (closeTask cr networkId timestampMs params) a (map tk_round (tasksByRound (st_state a)))"

text \<open>
  The retarget loop. A turn that deletes no task would repeat forever: that is the case of a
  window of no tasks, or of tasks stored under another round than their own.
\<close>

function retarget :: "difficulty_params \<Rightarrow> proof_state \<Rightarrow> proof_error + proof_state" where
  "retarget difficulty s =
     (let oldest = take (df_window difficulty) (tasksByRound s) in
      if length oldest < df_window difficulty \<or> list_ex (\<lambda>t. tk_status t = Task_open) oldest then Inr s
      else bind_r (map_err Proof_level (nextSearchLevel (ps_level s)
                     (map (\<lambda>t. (tk_issuedAtMs t, tk_solvedAtMs t)) oldest) difficulty)) (\<lambda>level.
        let s' = s\<lparr>ps_level := level,
                   ps_tasks := foldl (\<lambda>m t. jdel (tk_round t) m) (ps_tasks s) oldest\<rparr>
        in if jsize (ps_tasks s') < jsize (ps_tasks s) then retarget difficulty s' else Inl Proof_diverges))"
  by pat_completeness auto
termination by (relation "measure (\<lambda>(d, s). jsize (ps_tasks s))") auto

declare retarget.simps [simp del]

definition endProofMiningBlock :: "crypto \<Rightarrow> proof_state \<Rightarrow> string \<Rightarrow> int \<Rightarrow> int \<Rightarrow> difficulty_params \<Rightarrow>
    proof_params \<Rightarrow> proof_error + settlement" where
  "endProofMiningBlock cr s networkId height timestampMs difficulty params =
     bind_r (closeTasks cr networkId timestampMs params
               (chargeUnrevealed height params \<lparr>st_state = s, st_refunds = [], st_burned = 0\<rparr>)) (\<lambda>a.
       bind_r (retarget difficulty (st_state a)) (\<lambda>s'. Inr (a\<lparr>st_state := s'\<rparr>)))"

section \<open>Rewards\<close>

definition takeProofRewards :: "proof_state \<Rightarrow> int \<Rightarrow> proof_error + (pending_reward list \<times> proof_state)" where
  "takeProofRewards s limit =
     bind_r (proof_integer limit) (\<lambda>n.
       Inr (take (nat n) (ps_pendingRewards s),
            s\<lparr>ps_pendingRewards := drop (nat n) (ps_pendingRewards s)\<rparr>))"

record allocation =
  al_amount :: int
  al_fingerprint :: string
  al_recipient :: string

definition escrowOne :: "int \<Rightarrow> proof_state \<Rightarrow> allocation \<Rightarrow> proof_error + proof_state" where
  "escrowOne unlockHeight s a =
     (if jhas (ps_escrows s) (al_fingerprint a) then Inl Proof_already_escrowed
      else bind_r (proof_integer unlockHeight) (\<lambda>h.
        Inr (s\<lparr>ps_escrows := jset (al_fingerprint a)
          \<lparr>es_amount = al_amount a, es_recipient = al_recipient a, es_unlockHeight = h\<rparr> (ps_escrows s)\<rparr>)))"

definition escrowProofRewards :: "proof_state \<Rightarrow> allocation list \<Rightarrow> int \<Rightarrow> proof_error + proof_state" where
  "escrowProofRewards s allocations unlockHeight = foldM (escrowOne unlockHeight) s allocations"

definition matureOne :: "int \<Rightarrow> (string \<times> int) list \<times> proof_state \<Rightarrow> string \<times> escrow \<Rightarrow>
    (string \<times> int) list \<times> proof_state" where
  "matureOne height acc e =
     (if height \<ge> es_unlockHeight (snd e)
      then (fst acc @ [(es_recipient (snd e), es_amount (snd e))],
            (snd acc)\<lparr>ps_escrows := jdel (fst e) (ps_escrows (snd acc))\<rparr>)
      else acc)"

definition matureProofRewards :: "proof_state \<Rightarrow> int \<Rightarrow> (string \<times> int) list \<times> proof_state" where
  "matureProofRewards s height = foldl (matureOne height) ([], s) (sort_key fst (ps_escrows s))"

section \<open>The invariant\<close>

definition task_ok :: "int \<Rightarrow> task \<Rightarrow> bool" where
  "task_ok r t \<longleftrightarrow> tk_round t = r \<and> (tk_status t = Task_solved \<longleftrightarrow> tk_solvedAtMs t \<noteq> None)"

text \<open>The commit of a revealed answer that solves its task, bound to its recipient.\<close>

definition answered :: "crypto \<Rightarrow> string \<Rightarrow> proof_params \<Rightarrow> task \<Rightarrow> string \<Rightarrow> string \<Rightarrow> bool" where
  "answered cr networkId params t commitment recipient \<longleftrightarrow>
     (\<exists>salt vertices n k.
        proofAnswerCommitment cr networkId (tk_round t) recipient salt vertices = Inr commitment \<and>
        checkCliqueSearchAnswer cr (JStr (tk_seed t)) (tk_level t) vertices (pm_search params) = Inr (n, k))"

definition commit_ok :: "crypto \<Rightarrow> string \<Rightarrow> proof_params \<Rightarrow> proof_state \<Rightarrow> string \<Rightarrow> answer_commit \<Rightarrow> bool" where
  "commit_ok cr networkId params s k c \<longleftrightarrow>
     ac_commitment c = k \<and> ac_bond c = pm_commitBond params \<and>
     (\<exists>t. jget (ps_tasks s) (ac_taskRound c) = Some t \<and> tk_status t = Task_open \<and>
        (\<forall>r. ac_recipient c = Some r \<longrightarrow> answered cr networkId params t k r))"

definition earned :: "crypto \<Rightarrow> string \<Rightarrow> proof_params \<Rightarrow> pending_reward \<Rightarrow> bool" where
  "earned cr networkId params p \<longleftrightarrow>
     (\<exists>t commitment. tk_round t = pr_taskRound p \<and>
        answered cr networkId params t commitment (pr_recipient p))"

definition tasks_ok :: "proof_state \<Rightarrow> bool" where
  "tasks_ok s \<longleftrightarrow> jwf (ps_tasks s) \<and> (\<forall>r t. jget (ps_tasks s) r = Some t \<longrightarrow> task_ok r t)"

definition commits_ok :: "crypto \<Rightarrow> string \<Rightarrow> proof_params \<Rightarrow> proof_state \<Rightarrow> bool" where
  "commits_ok cr networkId params s \<longleftrightarrow> jwf (ps_commits s) \<and>
     (\<forall>k c. jget (ps_commits s) k = Some c \<longrightarrow> commit_ok cr networkId params s k c)"

definition rewards_ok :: "crypto \<Rightarrow> string \<Rightarrow> proof_params \<Rightarrow> proof_state \<Rightarrow> bool" where
  "rewards_ok cr networkId params s \<longleftrightarrow>
     (\<forall>p \<in> set (ps_pendingRewards s). earned cr networkId params p) \<and>
     length (ps_pendingRewards s) \<le> pm_maxPendingRewards params"

definition level_ok :: "difficulty_params \<Rightarrow> proof_state \<Rightarrow> bool" where
  "level_ok difficulty s \<longleftrightarrow>
     df_minLevel difficulty \<le> ps_level s \<and> ps_level s \<le> df_maxLevel difficulty"

definition proof_inv :: "crypto \<Rightarrow> string \<Rightarrow> difficulty_params \<Rightarrow> proof_params \<Rightarrow> proof_state \<Rightarrow> bool" where
  "proof_inv cr networkId difficulty params s \<longleftrightarrow>
     tasks_ok s \<and> commits_ok cr networkId params s \<and> rewards_ok cr networkId params s \<and>
     level_ok difficulty s \<and> jwf (ps_escrows s)"

section \<open>Releasing commits\<close>

lemma release_simps [simp]:
  "ps_tasks (st_state (release c b a)) = ps_tasks (st_state a)"
  "ps_level (st_state (release c b a)) = ps_level (st_state a)"
  "ps_pendingRewards (st_state (release c b a)) = ps_pendingRewards (st_state a)"
  "ps_escrows (st_state (release c b a)) = ps_escrows (st_state a)"
  "ps_commits (st_state (release c b a)) = jdel (ac_commitment c) (ps_commits (st_state a))"
  by (simp_all add: release_def Let_def)

text \<open>What is locked, refunded or burned.\<close>

definition lockedBonds :: "proof_state \<Rightarrow> int" where
  "lockedBonds s = jsum ac_bond (ps_commits s)"

definition settled :: "settlement \<Rightarrow> int" where
  "settled a = lockedBonds (st_state a) + sum_list (map snd (st_refunds a)) + st_burned a"

lemma settled_release:
  assumes "jwf (ps_commits (st_state a))" and "jget (ps_commits (st_state a)) (ac_commitment c) = Some c"
  shows "settled (release c b a) = settled a"
  using assms by (simp add: settled_def lockedBonds_def release_def Let_def jsum_jdel)

text \<open>
  Both loops that release commits go over a list of distinct commits the state holds; \<open>P\<close> says
  which of them a loop releases and \<open>B\<close> which of those it burns, as it finds the state.
\<close>

definition releaseAll :: "(answer_commit \<Rightarrow> bool) \<Rightarrow> (settlement \<Rightarrow> answer_commit \<Rightarrow> bool) \<Rightarrow>
    settlement \<Rightarrow> answer_commit list \<Rightarrow> settlement" where
  "releaseAll P B a cs = foldl (\<lambda>a c. if P c then release c (B a c) a else a) a cs"

lemma releaseAll_Cons [simp]:
  "releaseAll P B a (c # cs) = releaseAll P B (if P c then release c (B a c) a else a) cs"
  "releaseAll P B a [] = a"
  by (simp_all add: releaseAll_def)

lemma releaseAll_frame:
  "ps_tasks (st_state (releaseAll P B a cs)) = ps_tasks (st_state a)"
  "ps_level (st_state (releaseAll P B a cs)) = ps_level (st_state a)"
  "ps_pendingRewards (st_state (releaseAll P B a cs)) = ps_pendingRewards (st_state a)"
  "ps_escrows (st_state (releaseAll P B a cs)) = ps_escrows (st_state a)"
  "jwf (ps_commits (st_state a)) \<Longrightarrow> jwf (ps_commits (st_state (releaseAll P B a cs)))"
  by (induction cs arbitrary: a) auto

lemma releaseAll_commits:
  "jget (ps_commits (st_state (releaseAll P B a cs))) k =
     (if \<exists>c \<in> set cs. P c \<and> ac_commitment c = k then None else jget (ps_commits (st_state a)) k)"
  by (induction cs arbitrary: a) auto

lemma releaseAll_settled:
  assumes "jwf (ps_commits (st_state a))" and "distinct (map ac_commitment cs)"
    and "\<forall>c \<in> set cs. jget (ps_commits (st_state a)) (ac_commitment c) = Some c"
  shows "settled (releaseAll P B a cs) = settled a"
  using assms
proof (induction cs arbitrary: a)
  case (Cons c cs)
  let ?a = "if P c then release c (B a c) a else a"
  have "jwf (ps_commits (st_state ?a))" using Cons.prems(1) by simp
  moreover have "distinct (map ac_commitment cs)" using Cons.prems(2) by simp
  moreover have "\<forall>d \<in> set cs. jget (ps_commits (st_state ?a)) (ac_commitment d) = Some d"
  proof
    fix d assume "d \<in> set cs"
    moreover from this have "ac_commitment d \<noteq> ac_commitment c"
      using Cons.prems(2) by (metis distinct.simps(2) image_eqI list.simps(9) set_map)
    ultimately show "jget (ps_commits (st_state ?a)) (ac_commitment d) = Some d"
      using Cons.prems(3) by simp
  qed
  ultimately have "settled (releaseAll P B ?a cs) = settled ?a" by (rule Cons.IH)
  moreover have "settled ?a = settled a" using Cons.prems by (simp add: settled_release)
  ultimately show ?case by simp
qed simp

text \<open>The commits of a state whose keys are their commitments.\<close>

definition keyed :: "proof_state \<Rightarrow> bool" where
  "keyed s \<longleftrightarrow> jwf (ps_commits s) \<and> (\<forall>k c. jget (ps_commits s) k = Some c \<longrightarrow> ac_commitment c = k)"

lemma keyed_values:
  assumes "keyed s"
  shows "c \<in> set (jvalues (ps_commits s)) \<longleftrightarrow> jget (ps_commits s) (ac_commitment c) = Some c"
    and "map ac_commitment (jvalues (ps_commits s)) = jkeys (ps_commits s)"
    and "distinct (jkeys (ps_commits s))"
proof -
  have wf: "jwf (ps_commits s)" and key: "\<And>k c. (k, c) \<in> set (ps_commits s) \<Longrightarrow> ac_commitment c = k"
    using assms by (auto simp: keyed_def jget_iff_in)
  show "c \<in> set (jvalues (ps_commits s)) \<longleftrightarrow> jget (ps_commits s) (ac_commitment c) = Some c"
  proof
    assume "c \<in> set (jvalues (ps_commits s))"
    then obtain k where "(k, c) \<in> set (ps_commits s)" by (auto simp: jvalues_def)
    with key [OF this] show "jget (ps_commits s) (ac_commitment c) = Some c"
      by (simp add: jget_iff_in [OF wf])
  next
    assume "jget (ps_commits s) (ac_commitment c) = Some c"
    then have "(ac_commitment c, c) \<in> set (ps_commits s)" by (rule jget_Some_in)
    then show "c \<in> set (jvalues (ps_commits s))" by (force simp: jvalues_def)
  qed
  show "map ac_commitment (jvalues (ps_commits s)) = jkeys (ps_commits s)"
    using key by (auto simp: jvalues_def jkeys_def)
  show "distinct (jkeys (ps_commits s))" using wf by (simp add: jwf_def jkeys_def)
qed

lemma keyed_filter:
  assumes "keyed s"
  shows "distinct (map ac_commitment (filter P (jvalues (ps_commits s))))"
    and "\<forall>c \<in> set (filter P (jvalues (ps_commits s))). jget (ps_commits s) (ac_commitment c) = Some c"
  using keyed_values [OF assms] by (auto simp: distinct_map_filter)

lemma chargeUnrevealed_eq:
  "chargeUnrevealed height params a =
     releaseAll (\<lambda>c. ac_recipient c = None \<and> height \<ge> ac_height c + pm_revealWindowBlocks params)
       (\<lambda>a c. taskOpen (st_state a) (ac_taskRound c)) a (jvalues (ps_commits (st_state a)))"
  by (simp add: chargeUnrevealed_def releaseAll_def)

lemma chargeUnrevealed_settled:
  assumes "keyed (st_state a)"
  shows "settled (chargeUnrevealed height params a) = settled a"
  unfolding chargeUnrevealed_eq
proof (rule releaseAll_settled)
  show "jwf (ps_commits (st_state a))" using assms by (simp add: keyed_def)
  show "distinct (map ac_commitment (jvalues (ps_commits (st_state a))))"
    using keyed_values(2,3) [OF assms] by simp
  show "\<forall>c \<in> set (jvalues (ps_commits (st_state a))). jget (ps_commits (st_state a)) (ac_commitment c) = Some c"
    using keyed_values(1) [OF assms] by blast
qed

lemma commitsOf_iff:
  assumes "keyed s"
  shows "c \<in> set (commitsOf s r) \<longleftrightarrow> jget (ps_commits s) (ac_commitment c) = Some c \<and> ac_taskRound c = r"
  using keyed_values(1) [OF assms] by (auto simp: commitsOf_def)

section \<open>Closing a task\<close>

text \<open>What closing one task can do: nothing, solve it or let it expire.\<close>

lemma closeTask_cases:
  assumes "closeTask cr networkId at params a r = Inr a'"
  obtains (same) "a' = a"
  | (solved) t best f where "jget (ps_tasks (st_state a)) r = Some t" "tk_status t = Task_open"
      "best \<in> set (commitsOf (st_state a) (tk_round t))" "ac_recipient best \<noteq> None"
      "\<forall>c \<in> set (commitsOf (st_state a) (tk_round t)). \<not> earlier c best"
      "length (ps_pendingRewards (st_state a)) < pm_maxPendingRewards params"
      "a' = releaseAll (\<lambda>_. True) (\<lambda>_ _. False) (a\<lparr>st_state := (st_state a)
         \<lparr>ps_tasks := jset r (t\<lparr>tk_status := Task_solved, tk_solvedAtMs := Some (ac_timestampMs best)\<rparr>)
            (ps_tasks (st_state a)),
          ps_pendingRewards := ps_pendingRewards (st_state a) @
            [\<lparr>pr_fingerprint = f, pr_recipient = the (ac_recipient best), pr_taskRound = tk_round t\<rparr>]\<rparr>\<rparr>)
         (commitsOf (st_state a) (tk_round t))"
      "hashObject cr (JObj [(''commitment'', JStr (ac_commitment best)), (''networkId'', JStr networkId),
         (''round'', JNum (tk_round t))]) ''PROOF_TASK_REWARD_V1'' = Inr f"
  | (expired) t where "jget (ps_tasks (st_state a)) r = Some t" "tk_status t = Task_open"
      "commitsOf (st_state a) (tk_round t) = []" "at > tk_closesAtMs t"
      "a' = a\<lparr>st_state := (st_state a)\<lparr>ps_tasks := jset r (t\<lparr>tk_status := Task_expired\<rparr>)
         (ps_tasks (st_state a))\<rparr>\<rparr>"
proof (cases "jget (ps_tasks (st_state a)) r")
  case None
  with assms same show thesis by (simp add: closeTask_def)
next
  case (Some t)
  show thesis
  proof (cases "tk_status t = Task_open")
    case False
    with Some assms same show thesis by (simp add: closeTask_def)
  next
    case True
    let ?cs = "commitsOf (st_state a) (tk_round t)"
    show thesis
    proof (cases "revealedInOrder ?cs")
      case Nil
      show thesis
      proof (cases "?cs = [] \<and> at > tk_closesAtMs t")
        case True
        with Nil Some \<open>tk_status t = Task_open\<close> assms show thesis
          by (intro expired [of t]) (simp_all add: closeTask_def Let_def)
      next
        case False
        with Nil Some \<open>tk_status t = Task_open\<close> assms show thesis
          by (intro same) (simp add: closeTask_def Let_def)
      qed
    next
      case (Cons best rest)
      have mem: "set (best # rest) = {c \<in> set ?cs. ac_recipient c \<noteq> None}"
        unfolding Cons [symmetric] by (auto simp: revealedInOrder_def)
      have "sorted (map (\<lambda>c. (ac_height c, ac_index c)) (best # rest))"
        unfolding Cons [symmetric] revealedInOrder_def by (rule sorted_sort_key)
      then have first: "\<forall>c \<in> set (best # rest). \<not> earlier c best"
        by (auto simp: earlier_def less_eq_prod_def)
      show thesis
      proof (cases "list_all (\<lambda>c. earlier best c) (filter (\<lambda>c. ac_recipient c = None) ?cs)")
        case False
        with Some True Cons assms same show thesis by (simp add: closeTask_def Let_def)
      next
        case all: True
        have least: "\<forall>c \<in> set ?cs. \<not> earlier c best"
        proof
          fix c assume c: "c \<in> set ?cs"
          show "\<not> earlier c best"
          proof (cases "ac_recipient c = None")
            case True
            with c all have "earlier best c" by (auto simp: list_all_iff)
            then show ?thesis by (auto simp: earlier_def)
          next
            case False
            with c mem have "c \<in> set (best # rest)" by blast
            with first show ?thesis by blast
          qed
        qed
        have best: "best \<in> set ?cs" "ac_recipient best \<noteq> None" using mem by auto
        from assms Some True Cons all obtain f where
          room: "\<not> length (ps_pendingRewards (st_state a)) \<ge> pm_maxPendingRewards params"
          and a': "a' = foldl (\<lambda>a c. release c False a) (a\<lparr>st_state := (st_state a)
         \<lparr>ps_tasks := jset r (t\<lparr>tk_status := Task_solved, tk_solvedAtMs := Some (ac_timestampMs best)\<rparr>)
            (ps_tasks (st_state a)),
          ps_pendingRewards := ps_pendingRewards (st_state a) @
            [\<lparr>pr_fingerprint = f, pr_recipient = the (ac_recipient best), pr_taskRound = tk_round t\<rparr>]\<rparr>\<rparr>) ?cs"
          and f: "hashObject cr (JObj [(''commitment'', JStr (ac_commitment best)), (''networkId'', JStr networkId),
            (''round'', JNum (tk_round t))]) ''PROOF_TASK_REWARD_V1'' = Inr f"
          by (auto simp: closeTask_def Let_def bind_r_Inr_iff map_err_Inr_iff split: if_splits)
        show thesis
          by (rule solved [OF Some True best least]) (use room a' f in \<open>simp_all add: releaseAll_def\<close>)
      qed
    qed
  qed
qed

lemma closeTask_settled:
  assumes "closeTask cr networkId at params a r = Inr a'" and "keyed (st_state a)"
  shows "settled a' = settled a \<and> keyed (st_state a')"
  using assms(1)
proof (cases rule: closeTask_cases)
  case (solved t best f)
  note d = keyed_filter [OF assms(2), of "\<lambda>c. ac_taskRound c = tk_round t", folded commitsOf_def]
  have "settled a' = settled (a\<lparr>st_state := (st_state a)
         \<lparr>ps_tasks := jset r (t\<lparr>tk_status := Task_solved, tk_solvedAtMs := Some (ac_timestampMs best)\<rparr>)
            (ps_tasks (st_state a)),
          ps_pendingRewards := ps_pendingRewards (st_state a) @
            [\<lparr>pr_fingerprint = f, pr_recipient = the (ac_recipient best), pr_taskRound = tk_round t\<rparr>]\<rparr>\<rparr>)"
    unfolding solved(7) using assms(2) d by (intro releaseAll_settled) (simp_all add: keyed_def)
  also have "\<dots> = settled a" by (simp add: settled_def lockedBonds_def)
  finally show ?thesis
    using assms(2) by (auto simp: keyed_def solved(7) releaseAll_frame releaseAll_commits split: if_splits)
qed (use assms(2) in \<open>simp_all add: settled_def lockedBonds_def keyed_def\<close>)

lemma foldM_invariant:
  assumes "foldM f a xs = Inr a'" and "I a" and "\<And>a x a'. x \<in> set xs \<Longrightarrow> I a \<Longrightarrow> f a x = Inr a' \<Longrightarrow> I a'"
  shows "I a'"
  using assms
proof (induction xs arbitrary: a)
  case (Cons x xs)
  from Cons.prems(1) obtain b where b: "f a x = Inr b" "foldM f b xs = Inr a'"
    by (auto simp: bind_r_Inr_iff)
  have "I b" using Cons.prems(2,3) b(1) by auto
  with b(2) show ?case by (rule Cons.IH) (use Cons.prems(3) in auto)
qed simp

lemma closeTasks_settled:
  assumes "closeTasks cr networkId at params a = Inr a'" and "keyed (st_state a)"
  shows "settled a' = settled a \<and> keyed (st_state a')"
proof -
  have "foldM (closeTask cr networkId at params) a (map tk_round (tasksByRound (st_state a))) = Inr a'"
    using assms(1) by (simp add: closeTasks_def)
  then have "settled a' = settled a \<and> keyed (st_state a')"
    by (rule foldM_invariant [where I = "\<lambda>b. settled b = settled a \<and> keyed (st_state b)"])
      (use assms(2) closeTask_settled in \<open>auto\<close>)
  then show ?thesis .
qed


section \<open>Retargeting\<close>

text \<open>A turn of the loop deletes closed tasks and sets a level in range; nothing else changes.\<close>

definition retargeted :: "difficulty_params \<Rightarrow> proof_state \<Rightarrow> proof_state \<Rightarrow> bool" where
  "retargeted difficulty s s' \<longleftrightarrow>
     ps_commits s' = ps_commits s \<and> ps_pendingRewards s' = ps_pendingRewards s \<and>
     ps_escrows s' = ps_escrows s \<and> tasks_ok s' \<and> (level_ok difficulty s \<longrightarrow> level_ok difficulty s') \<and>
     (\<forall>r t. jget (ps_tasks s) r = Some t \<longrightarrow> tk_status t = Task_open \<longrightarrow> jget (ps_tasks s') r = Some t) \<and>
     (\<forall>r t. jget (ps_tasks s') r = Some t \<longrightarrow> jget (ps_tasks s) r = Some t)"

lemma retargeted_trans: "retargeted d s t \<Longrightarrow> retargeted d t u \<Longrightarrow> retargeted d s u"
  unfolding retargeted_def by metis

lemma jget_foldl_jdel:
  "jget (foldl (\<lambda>m t. jdel (g t) m) m ts) k = (if \<exists>t \<in> set ts. g t = k then None else jget m k)"
  by (induction ts arbitrary: m) auto

lemma jwf_foldl_jdel: "jwf m \<Longrightarrow> jwf (foldl (\<lambda>m t. jdel (g t) m) m ts)"
  by (induction ts arbitrary: m) auto

lemma nextSearchLevel_range:
  assumes "nextSearchLevel l ts d = Inr l'"
  shows "df_minLevel d \<le> l' \<and> l' \<le> df_maxLevel d"
proof -
  from assms have "df_minLevel d \<le> l" "l \<le> df_maxLevel d"
    and "\<exists>x. l' = min (df_maxLevel d) (max (df_minLevel d) x)"
    by (auto simp: nextSearchLevel_def bind_r_Inr_iff Let_def split: if_splits)
  then show ?thesis by auto
qed

lemma tasksByRound_set: "t \<in> set (tasksByRound s) \<Longrightarrow> \<exists>r. (r, t) \<in> set (ps_tasks s)"
  by (auto simp: tasksByRound_def jvalues_def)

lemma tasks_ok_round: "tasks_ok s \<Longrightarrow> jget (ps_tasks s) r = Some t \<Longrightarrow> tk_round t = r"
  by (auto simp: tasks_ok_def task_ok_def)

lemma retarget_step:
  assumes "nextSearchLevel (ps_level s) xs difficulty = Inr level"
    and "oldest = take w (tasksByRound s)" and "\<not> list_ex (\<lambda>t. tk_status t = Task_open) oldest"
    and "tasks_ok s"
  shows "retargeted difficulty s (s\<lparr>ps_level := level,
     ps_tasks := foldl (\<lambda>m t. jdel (tk_round t) m) (ps_tasks s) oldest\<rparr>)"
proof -
  let ?m = "foldl (\<lambda>m t. jdel (tk_round t) m) (ps_tasks s) oldest"
  have wf: "jwf (ps_tasks s)" using assms(4) by (simp add: tasks_ok_def)
  have closed: "tk_status t \<noteq> Task_open" "\<exists>r. jget (ps_tasks s) r = Some t" if "t \<in> set oldest" for t
  proof -
    show "tk_status t \<noteq> Task_open" using assms(3) that by (auto simp: list_ex_iff)
    have "t \<in> set (tasksByRound s)" using that assms(2) by (auto dest: in_set_takeD)
    from tasksByRound_set [OF this] show "\<exists>r. jget (ps_tasks s) r = Some t"
      by (simp add: jget_iff_in [OF wf])
  qed
  have keep: "jget ?m r = Some t" if t: "jget (ps_tasks s) r = Some t" "tk_status t = Task_open" for r t
  proof -
    have "tk_round u \<noteq> r" if u: "u \<in> set oldest" for u
    proof
      assume "tk_round u = r"
      moreover obtain q where q: "jget (ps_tasks s) q = Some u" using closed(2) [OF u] by blast
      ultimately have "q = r" using tasks_ok_round [OF assms(4) q] by simp
      with q t closed(1) [OF u] show False by simp
    qed
    with t show ?thesis by (auto simp: jget_foldl_jdel)
  qed
  have "tasks_ok (s\<lparr>ps_level := level, ps_tasks := ?m\<rparr>)"
    using assms(4) by (auto simp: tasks_ok_def jget_foldl_jdel jwf_foldl_jdel split: if_splits)
  then show ?thesis
    using nextSearchLevel_range [OF assms(1)] keep by (simp add: retargeted_def level_ok_def jget_foldl_jdel)
qed

lemma retarget_retargeted:
  "retarget difficulty s = Inr s' \<Longrightarrow> tasks_ok s \<Longrightarrow> retargeted difficulty s s'"
proof (induction difficulty s rule: retarget.induct)
  case (1 difficulty s)
  define oldest where "oldest = take (df_window difficulty) (tasksByRound s)"
  show ?case
  proof (cases "length oldest < df_window difficulty \<or> list_ex (\<lambda>t. tk_status t = Task_open) oldest")
    case True
    then have "s' = s"
      using "1.prems"(1) unfolding retarget.simps [of difficulty s] Let_def oldest_def [symmetric] by simp
    then show ?thesis using "1.prems"(2) by (simp add: retargeted_def)
  next
    case False
    from "1.prems"(1) False obtain level where
      lv: "nextSearchLevel (ps_level s) (map (\<lambda>t. (tk_issuedAtMs t, tk_solvedAtMs t)) oldest) difficulty = Inr level"
      and sz: "jsize (foldl (\<lambda>m t. jdel (tk_round t) m) (ps_tasks s) oldest) < jsize (ps_tasks s)"
      and rec: "retarget difficulty (s\<lparr>ps_level := level,
         ps_tasks := foldl (\<lambda>m t. jdel (tk_round t) m) (ps_tasks s) oldest\<rparr>) = Inr s'"
      unfolding retarget.simps [of difficulty s] Let_def oldest_def [symmetric]
      by (auto simp: bind_r_Inr_iff map_err_Inr_iff split: if_splits)
    let ?s = "s\<lparr>ps_level := level, ps_tasks := foldl (\<lambda>m t. jdel (tk_round t) m) (ps_tasks s) oldest\<rparr>"
    have step: "retargeted difficulty s ?s"
      by (rule retarget_step [OF lv oldest_def]) (use False "1.prems"(2) in auto)
    then have "tasks_ok ?s" by (simp add: retargeted_def)
    have "retargeted difficulty ?s s'"
    proof (rule "1.IH" [OF oldest_def False _ refl])
      show "map_err Proof_level (nextSearchLevel (ps_level s)
          (map (\<lambda>t. (tk_issuedAtMs t, tk_solvedAtMs t)) oldest) difficulty) = Inr level"
        using lv by simp
    qed (use sz rec \<open>tasks_ok ?s\<close> in simp_all)
    with step show ?thesis by (rule retargeted_trans)
  qed
qed

section \<open>The invariant is kept\<close>

lemma proof_inv_keyed: "proof_inv cr net d p s \<Longrightarrow> keyed s"
  unfolding proof_inv_def keyed_def commits_ok_def commit_ok_def by blast

lemma commits_ok_fewer:
  assumes "commits_ok cr net p s" and "jwf (ps_commits s')" and "ps_tasks s' = ps_tasks s"
    and "\<And>k c. jget (ps_commits s') k = Some c \<Longrightarrow> jget (ps_commits s) k = Some c"
  shows "commits_ok cr net p s'"
  using assms unfolding commits_ok_def commit_ok_def by metis

lemma proof_inv_charge:
  assumes "proof_inv cr net d p (st_state a)"
  shows "proof_inv cr net d p (st_state (chargeUnrevealed height p a))"
proof -
  let ?s' = "st_state (chargeUnrevealed height p a)"
  note parts = assms [unfolded proof_inv_def]
  have "commits_ok cr net p ?s'"
  proof (rule commits_ok_fewer)
    show "commits_ok cr net p (st_state a)" using parts by blast
    then show "jwf (ps_commits ?s')" by (simp add: chargeUnrevealed_eq releaseAll_frame commits_ok_def)
  qed (auto simp: chargeUnrevealed_eq releaseAll_frame releaseAll_commits split: if_splits)
  with parts show ?thesis
    by (simp add: proof_inv_def tasks_ok_def rewards_ok_def level_ok_def chargeUnrevealed_eq releaseAll_frame)
qed

lemma proof_inv_retarget:
  assumes "proof_inv cr net d p s" and "retargeted d s s'"
  shows "proof_inv cr net d p s'"
proof -
  have "commit_ok cr net p s k c \<Longrightarrow> commit_ok cr net p s' k c" for k c
    using assms(2) unfolding commit_ok_def retargeted_def by blast
  then have "commits_ok cr net p s'"
    using assms unfolding commits_ok_def proof_inv_def retargeted_def by simp
  with assms show ?thesis by (simp add: proof_inv_def retargeted_def rewards_ok_def)
qed

lemma commit_ok_other_task:
  assumes "commit_ok cr net p s k c" and "ac_taskRound c \<noteq> r" and "ps_tasks s' = jset r t (ps_tasks s)"
  shows "commit_ok cr net p s' k c"
  using assms by (simp add: commit_ok_def)

lemma tasks_ok_jset:
  "tasks_ok s \<Longrightarrow> task_ok r t \<Longrightarrow> ps_tasks s' = jset r t (ps_tasks s) \<Longrightarrow> tasks_ok s'"
  by (auto simp: tasks_ok_def)

lemma proof_inv_closeTask:
  assumes "proof_inv cr net d p (st_state a)" and "closeTask cr net at p a r = Inr a'"
  shows "proof_inv cr net d p (st_state a')"
  using assms(2)
proof (cases rule: closeTask_cases)
  case same
  then show ?thesis using assms(1) by simp
next
  case (solved t best f)
  note parts = assms(1) [unfolded proof_inv_def]
  note keyed = proof_inv_keyed [OF assms(1)]
  let ?t = "t\<lparr>tk_status := Task_solved, tk_solvedAtMs := Some (ac_timestampMs best)\<rparr>"
  have r: "tk_round t = r" using tasks_ok_round solved(1) parts by blast
  have tasks: "ps_tasks (st_state a') = jset r ?t (ps_tasks (st_state a))"
    by (simp add: solved(7) releaseAll_frame)
  have commits: "jget (ps_commits (st_state a')) k = Some c \<Longrightarrow>
      jget (ps_commits (st_state a)) k = Some c \<and> ac_taskRound c \<noteq> r" for k c
  proof -
    assume "jget (ps_commits (st_state a')) k = Some c"
    then have c: "jget (ps_commits (st_state a)) k = Some c"
      and out: "\<not> (\<exists>c \<in> set (commitsOf (st_state a) r). ac_commitment c = k)"
      by (auto simp: solved(7) releaseAll_commits r split: if_splits)
    have "ac_commitment c = k" using c keyed by (simp add: keyed_def)
    with c out show ?thesis by (auto simp: commitsOf_iff [OF keyed])
  qed
  have "commits_ok cr net p (st_state a')"
    unfolding commits_ok_def
  proof (intro conjI allI impI)
    show "jwf (ps_commits (st_state a'))"
      using keyed by (simp add: solved(7) releaseAll_frame keyed_def)
    fix k c assume "jget (ps_commits (st_state a')) k = Some c"
    from commits [OF this] parts show "commit_ok cr net p (st_state a') k c"
      using commit_ok_other_task [OF _ _ tasks] by (simp add: commits_ok_def)
  qed
  moreover have "tasks_ok (st_state a')"
    using parts solved(1) by (intro tasks_ok_jset [OF _ _ tasks]) (auto simp: tasks_ok_def task_ok_def)
  moreover have "earned cr net p \<lparr>pr_fingerprint = f, pr_recipient = the (ac_recipient best),
      pr_taskRound = tk_round t\<rparr>"
  proof -
    from solved(3) have "jget (ps_commits (st_state a)) (ac_commitment best) = Some best"
      "ac_taskRound best = r" by (simp_all add: commitsOf_iff [OF keyed] r)
    with parts have "commit_ok cr net p (st_state a) (ac_commitment best) best"
      by (simp add: commits_ok_def)
    with solved(1,4) \<open>ac_taskRound best = r\<close> have
      "answered cr net p t (ac_commitment best) (the (ac_recipient best))"
      by (auto simp: commit_ok_def)
    then show ?thesis by (auto simp: earned_def)
  qed
  ultimately show ?thesis
    using parts solved(6)
    by (simp add: proof_inv_def rewards_ok_def level_ok_def solved(7) releaseAll_frame)
next
  case (expired t)
  note parts = assms(1) [unfolded proof_inv_def]
  note keyed = proof_inv_keyed [OF assms(1)]
  have r: "tk_round t = r" using tasks_ok_round expired(1) parts by blast
  have tasks: "ps_tasks (st_state a') = jset r (t\<lparr>tk_status := Task_expired\<rparr>) (ps_tasks (st_state a))"
    by (simp add: expired(5))
  have none: "ac_taskRound c \<noteq> r" if "jget (ps_commits (st_state a)) k = Some c" for k c
  proof
    assume "ac_taskRound c = r"
    moreover have "ac_commitment c = k" using that keyed by (simp add: keyed_def)
    ultimately have "c \<in> set (commitsOf (st_state a) r)" using that by (simp add: commitsOf_iff [OF keyed])
    with expired(3) r show False by simp
  qed
  have "commits_ok cr net p (st_state a')"
    unfolding commits_ok_def
  proof (intro conjI allI impI)
    show "jwf (ps_commits (st_state a'))" using keyed by (simp add: expired(5) keyed_def)
    fix k c assume "jget (ps_commits (st_state a')) k = Some c"
    then have "jget (ps_commits (st_state a)) k = Some c" by (simp add: expired(5))
    with none [OF this] parts show "commit_ok cr net p (st_state a') k c"
      using commit_ok_other_task [OF _ _ tasks] by (simp add: commits_ok_def)
  qed
  moreover have "tasks_ok (st_state a')"
  proof (rule tasks_ok_jset [OF _ _ tasks])
    show "tasks_ok (st_state a)" using parts by blast
    then have "task_ok r t" using expired(1) by (simp add: tasks_ok_def)
    with expired(2) show "task_ok r (t\<lparr>tk_status := Task_expired\<rparr>)"
      by (cases "tk_solvedAtMs t") (auto simp: task_ok_def)
  qed
  ultimately show ?thesis
    using parts by (simp add: proof_inv_def rewards_ok_def level_ok_def expired(5))
qed

lemma proof_inv_closeTasks:
  assumes "closeTasks cr net at p a = Inr a'" and "proof_inv cr net d p (st_state a)"
  shows "proof_inv cr net d p (st_state a')"
proof -
  have "foldM (closeTask cr net at p) a (map tk_round (tasksByRound (st_state a))) = Inr a'"
    using assms(1) by (simp add: closeTasks_def)
  then show ?thesis
    by (rule foldM_invariant [where I = "\<lambda>b. proof_inv cr net d p (st_state b)"])
      (use assms(2) proof_inv_closeTask in \<open>auto\<close>)
qed

lemma endBlock_Inr:
  assumes "endProofMiningBlock cr s net height at d p = Inr a"
  obtains b where "closeTasks cr net at p
      (chargeUnrevealed height p \<lparr>st_state = s, st_refunds = [], st_burned = 0\<rparr>) = Inr b"
    and "retarget d (st_state b) = Inr (st_state a)"
    and "st_refunds a = st_refunds b" and "st_burned a = st_burned b"
  using assms by (auto simp: endProofMiningBlock_def bind_r_Inr_iff)

lemma proof_inv_endBlock:
  assumes "proof_inv cr net d p s" and "endProofMiningBlock cr s net height at d p = Inr a"
  shows "proof_inv cr net d p (st_state a)"
  using assms(2)
proof (rule endBlock_Inr)
  fix b
  assume b: "closeTasks cr net at p
      (chargeUnrevealed height p \<lparr>st_state = s, st_refunds = [], st_burned = 0\<rparr>) = Inr b"
    and r: "retarget d (st_state b) = Inr (st_state a)"
  have inv: "proof_inv cr net d p (st_state b)"
    by (rule proof_inv_closeTasks [OF b proof_inv_charge]) (simp add: assms(1))
  then have "tasks_ok (st_state b)" by (simp add: proof_inv_def)
  from proof_inv_retarget [OF inv retarget_retargeted [OF r this]] show ?thesis .
qed


lemma proof_inv_create:
  "df_minLevel d \<le> df_initialLevel d \<Longrightarrow> df_initialLevel d \<le> df_maxLevel d \<Longrightarrow>
   proof_inv cr net d p (createProofMiningState d)"
  by (simp add: proof_inv_def createProofMiningState_def tasks_ok_def commits_ok_def rewards_ok_def level_ok_def)

lemma proof_integer_Inr_iff [inversion]: "proof_integer n = Inr m \<longleftrightarrow> m = n \<and> is_safe_int n \<and> 0 \<le> n"
  by (auto simp: proof_integer_def)

lemma issue_Inr:
  assumes "issueProofTask cr s net round beacon height at d p = Inr (s', r)"
  shows "s' = s \<and> r = None \<or>
    (\<exists>t. r = Some t \<and> s' = s\<lparr>ps_tasks := jset round t (ps_tasks s)\<rparr> \<and> \<not> jhas (ps_tasks s) round \<and>
       task_ok round t \<and> tk_status t = Task_open \<and> tk_level t = ps_level s \<and> openTasks s < pm_maxOpenTasks p)"
  using assms
  by (cases beacon)
    (auto simp: issueProofTask_def bind_r_Inr_iff proof_integer_Inr_iff Let_def task_ok_def not_le split: if_splits)

lemma proof_inv_issue:
  assumes "proof_inv cr net d p s" and "issueProofTask cr s net round beacon height at d p = Inr (s', r)"
  shows "proof_inv cr net d p s'"
  using issue_Inr [OF assms(2)]
proof
  assume "s' = s \<and> r = None" with assms(1) show ?thesis by simp
next
  assume "\<exists>t. r = Some t \<and> s' = s\<lparr>ps_tasks := jset round t (ps_tasks s)\<rparr> \<and> \<not> jhas (ps_tasks s) round \<and>
       task_ok round t \<and> tk_status t = Task_open \<and> tk_level t = ps_level s \<and> openTasks s < pm_maxOpenTasks p"
  then obtain t where t: "s' = s\<lparr>ps_tasks := jset round t (ps_tasks s)\<rparr>" "\<not> jhas (ps_tasks s) round"
    "task_ok round t" by blast
  note parts = assms(1) [unfolded proof_inv_def]
  have tasks: "ps_tasks s' = jset round t (ps_tasks s)" by (simp add: t(1))
  have "commit_ok cr net p s' k c" if c: "commit_ok cr net p s k c" for k c
  proof (rule commit_ok_other_task [OF c _ tasks])
    from c obtain u where "jget (ps_tasks s) (ac_taskRound c) = Some u" by (auto simp: commit_ok_def)
    with t(2) show "ac_taskRound c \<noteq> round" by (auto simp: jhas_def)
  qed
  then have "commits_ok cr net p s'" using parts by (simp add: commits_ok_def t(1))
  moreover have "tasks_ok s'" using tasks_ok_jset [OF _ t(3) tasks] parts by blast
  ultimately show ?thesis using parts by (simp add: proof_inv_def rewards_ok_def level_ok_def t(1))
qed

lemma commit_answer_Inr:
  assumes "applyProofAnswerCommit s cv rv sender height index at p = Inr s'"
  obtains k r t where "cv = JStr k" "is_hex64 k" "\<not> jhas (ps_commits s) k" "safe_int rv = Some r"
    "jget (ps_tasks s) r = Some t" "tk_status t = Task_open" "at \<le> tk_closesAtMs t"
    "length (commitsOf s r) < pm_maxCommitsPerTask p"
    "s' = s\<lparr>ps_commits := jset k \<lparr>ac_commitment = k, ac_taskRound = r, ac_sender = sender,
        ac_bond = pm_commitBond p, ac_height = height, ac_index = index, ac_timestampMs = at,
        ac_recipient = None\<rparr> (ps_commits s)\<rparr>"
proof -
  from assms obtain k where k: "cv = JStr k" by (cases cv) (auto simp: applyProofAnswerCommit_def)
  from assms k obtain r where r: "safe_int rv = Some r"
    by (cases "safe_int rv") (auto simp: applyProofAnswerCommit_def split: if_splits)
  from assms k r obtain t where t: "jget (ps_tasks s) r = Some t"
    by (cases "jget (ps_tasks s) r") (auto simp: applyProofAnswerCommit_def split: if_splits)
  from assms show thesis
    by (intro that [OF k _ _ r t])
      (auto simp: applyProofAnswerCommit_def k r t bind_r_Inr_iff proof_integer_Inr_iff split: if_splits)
qed

lemma proof_inv_commit:
  assumes "proof_inv cr net d p s" and "applyProofAnswerCommit s cv rv sender height index at p = Inr s'"
  shows "proof_inv cr net d p s'"
  using assms(2)
proof (rule commit_answer_Inr)
  fix k r t
  assume t: "jget (ps_tasks s) r = Some t" "tk_status t = Task_open"
    and s': "s' = s\<lparr>ps_commits := jset k \<lparr>ac_commitment = k, ac_taskRound = r, ac_sender = sender,
        ac_bond = pm_commitBond p, ac_height = height, ac_index = index, ac_timestampMs = at,
        ac_recipient = None\<rparr> (ps_commits s)\<rparr>"
  then have "commits_ok cr net p s'"
    using assms(1) by (simp add: proof_inv_def commits_ok_def commit_ok_def)
  with assms(1) show ?thesis
    by (simp add: proof_inv_def s' tasks_ok_def rewards_ok_def level_ok_def)
qed

lemma reveal_Inr:
  assumes "applyProofAnswerReveal cr s net cv recipient sv vertices height p = Inr s'"
  obtains k c t salt nk where "cv = JStr k" "jget (ps_commits s) k = Some c" "ac_recipient c = None"
    "jget (ps_tasks s) (ac_taskRound c) = Some t" "tk_status t = Task_open"
    "ac_height c + pm_revealDelayBlocks p \<le> height" "height \<le> ac_height c + pm_revealWindowBlocks p"
    "sv = JStr salt" "is_hex64 salt"
    "proofAnswerCommitment cr net (ac_taskRound c) recipient salt vertices = Inr k"
    "checkCliqueSearchAnswer cr (JStr (tk_seed t)) (tk_level t) vertices (pm_search p) = Inr nk"
    "s' = s\<lparr>ps_commits := jset k (c\<lparr>ac_recipient := Some recipient\<rparr>) (ps_commits s)\<rparr>"
proof -
  from assms obtain k c where k: "cv = JStr k" and c: "jget (ps_commits s) k = Some c"
    by (cases cv) (auto simp: applyProofAnswerReveal_def split: option.splits)
  from assms k c have none: "ac_recipient c = None"
    by (auto simp: applyProofAnswerReveal_def split: if_splits)
  from assms k c none obtain t where t: "jget (ps_tasks s) (ac_taskRound c) = Some t"
    by (cases "jget (ps_tasks s) (ac_taskRound c)") (auto simp: applyProofAnswerReveal_def)
  from assms k c none t obtain salt where salt: "sv = JStr salt"
    by (cases sv) (auto simp: applyProofAnswerReveal_def split: if_splits)
  from assms obtain nk where nk:
    "checkCliqueSearchAnswer cr (JStr (tk_seed t)) (tk_level t) vertices (pm_search p) = Inr nk"
    by (auto simp: applyProofAnswerReveal_def k c none t salt bind_r_Inr_iff map_err_Inr_iff split: if_splits)
  from assms show thesis
    by (intro that [OF k c none t _ _ _ salt _ _ nk])
      (auto simp: applyProofAnswerReveal_def k c none t salt bind_r_Inr_iff map_err_Inr_iff split: if_splits)
qed


lemma proof_inv_reveal:
  assumes "proof_inv cr net d p s" and "applyProofAnswerReveal cr s net cv recipient sv vertices height p = Inr s'"
  shows "proof_inv cr net d p s'"
  using assms(2)
proof (rule reveal_Inr)
  fix k c t salt nk
  assume c: "jget (ps_commits s) k = Some c"
    and t: "jget (ps_tasks s) (ac_taskRound c) = Some t" "tk_status t = Task_open"
    and h: "proofAnswerCommitment cr net (ac_taskRound c) recipient salt vertices = Inr k"
    and ok: "checkCliqueSearchAnswer cr (JStr (tk_seed t)) (tk_level t) vertices (pm_search p) = Inr nk"
    and s': "s' = s\<lparr>ps_commits := jset k (c\<lparr>ac_recipient := Some recipient\<rparr>) (ps_commits s)\<rparr>"
  note parts = assms(1) [unfolded proof_inv_def]
  have "tk_round t = ac_taskRound c" using tasks_ok_round t(1) parts by blast
  with h ok have "answered cr net p t k recipient"
    unfolding answered_def by (cases nk) auto
  moreover have "commit_ok cr net p s k c" using c parts by (simp add: commits_ok_def)
  ultimately have "commit_ok cr net p s' k (c\<lparr>ac_recipient := Some recipient\<rparr>)"
    using t by (simp add: commit_ok_def s')
  moreover have "commit_ok cr net p s' k' c'" if "commit_ok cr net p s k' c'" for k' c'
    using that by (simp add: commit_ok_def s')
  ultimately have "commits_ok cr net p s'" using parts by (simp add: commits_ok_def s')
  with parts show ?thesis by (simp add: proof_inv_def s' tasks_ok_def rewards_ok_def level_ok_def)
qed

lemma proof_inv_take:
  assumes "proof_inv cr net d p s" and "takeProofRewards s limit = Inr (taken, s')"
  shows "proof_inv cr net d p s' \<and> (\<forall>r \<in> set taken. earned cr net p r)"
proof -
  from assms(2) obtain n where n: "taken = take n (ps_pendingRewards s)"
    "s' = s\<lparr>ps_pendingRewards := drop n (ps_pendingRewards s)\<rparr>"
    by (auto simp: takeProofRewards_def bind_r_Inr_iff)
  have "commits_ok cr net p s'" using assms(1) by (simp add: n proof_inv_def commits_ok_def commit_ok_def)
  with assms(1) show ?thesis
    by (auto simp: n proof_inv_def tasks_ok_def rewards_ok_def level_ok_def dest: in_set_takeD in_set_dropD)
qed

lemma proof_inv_escrows:
  assumes "proof_inv cr net d p s" and "jwf m"
  shows "proof_inv cr net d p (s\<lparr>ps_escrows := m\<rparr>)"
  using assms by (simp add: proof_inv_def tasks_ok_def commits_ok_def commit_ok_def rewards_ok_def level_ok_def)

lemma escrowOne_Inr:
  "escrowOne h s a = Inr s' \<longleftrightarrow> \<not> jhas (ps_escrows s) (al_fingerprint a) \<and> is_safe_int h \<and> 0 \<le> h \<and>
     s' = s\<lparr>ps_escrows := jset (al_fingerprint a)
       \<lparr>es_amount = al_amount a, es_recipient = al_recipient a, es_unlockHeight = h\<rparr> (ps_escrows s)\<rparr>"
  by (auto simp: escrowOne_def bind_r_Inr_iff proof_integer_Inr_iff)

lemma proof_inv_escrow:
  assumes "escrowProofRewards s als h = Inr s'" and "proof_inv cr net d p s"
  shows "proof_inv cr net d p s'"
  using assms(1) unfolding escrowProofRewards_def
proof (rule foldM_invariant [where I = "proof_inv cr net d p"])
  fix s a s'
  assume inv: "proof_inv cr net d p s" and "escrowOne h s a = Inr s'"
  then obtain m where "s' = s\<lparr>ps_escrows := m\<rparr>" "jwf (ps_escrows s) \<longrightarrow> jwf m"
    by (auto simp: escrowOne_Inr)
  moreover have "jwf (ps_escrows s)" using inv by (simp add: proof_inv_def)
  ultimately show "proof_inv cr net d p s'" using proof_inv_escrows [OF inv] by simp
qed (rule assms(2))

text \<open>Maturing goes over the escrows by fingerprint; only their map changes.\<close>

lemma mature_shape:
  "\<exists>m. snd (foldl (matureOne h) acc es) = (snd acc)\<lparr>ps_escrows := m\<rparr> \<and>
     (jwf (ps_escrows (snd acc)) \<longrightarrow> jwf m)"
proof (induction es arbitrary: acc)
  case Nil
  show ?case by (intro exI [of _ "ps_escrows (snd acc)"]) simp
next
  case (Cons e es)
  from Cons [of "matureOne h acc e"] show ?case
    by (cases acc) (auto simp: matureOne_def)
qed

lemma proof_inv_mature:
  assumes "proof_inv cr net d p s"
  shows "proof_inv cr net d p (snd (matureProofRewards s h))"
proof -
  obtain m where "snd (matureProofRewards s h) = s\<lparr>ps_escrows := m\<rparr>" "jwf (ps_escrows s) \<longrightarrow> jwf m"
    using mature_shape [of h "([], s)" "sort_key fst (ps_escrows s)"] by (auto simp: matureProofRewards_def)
  moreover have "jwf (ps_escrows s)" using assms by (simp add: proof_inv_def)
  ultimately show ?thesis using proof_inv_escrows [OF assms] by simp
qed

section \<open>Reachable states\<close>

inductive proof_reachable :: "crypto \<Rightarrow> string \<Rightarrow> difficulty_params \<Rightarrow> proof_params \<Rightarrow> proof_state \<Rightarrow> bool"
  for cr net d p where
  created: "df_minLevel d \<le> df_initialLevel d \<Longrightarrow> df_initialLevel d \<le> df_maxLevel d \<Longrightarrow>
    proof_reachable cr net d p (createProofMiningState d)"
| issued: "proof_reachable cr net d p s \<Longrightarrow> issueProofTask cr s net round beacon height at d p = Inr (s', t) \<Longrightarrow>
    proof_reachable cr net d p s'"
| answered: "proof_reachable cr net d p s \<Longrightarrow>
    applyProofAnswerCommit s k r sender height index at p = Inr s' \<Longrightarrow> proof_reachable cr net d p s'"
| revealed: "proof_reachable cr net d p s \<Longrightarrow>
    applyProofAnswerReveal cr s net k recipient salt vertices height p = Inr s' \<Longrightarrow> proof_reachable cr net d p s'"
| ended: "proof_reachable cr net d p s \<Longrightarrow> endProofMiningBlock cr s net height at d p = Inr a \<Longrightarrow>
    proof_reachable cr net d p (st_state a)"
| taken: "proof_reachable cr net d p s \<Longrightarrow> takeProofRewards s limit = Inr (rewards, s') \<Longrightarrow>
    proof_reachable cr net d p s'"
| escrowed: "proof_reachable cr net d p s \<Longrightarrow> escrowProofRewards s als h = Inr s' \<Longrightarrow>
    proof_reachable cr net d p s'"
| matured: "proof_reachable cr net d p s \<Longrightarrow> proof_reachable cr net d p (snd (matureProofRewards s h))"

lemma reachable_proof_inv: "proof_reachable cr net d p s \<Longrightarrow> proof_inv cr net d p s"
proof (induction rule: proof_reachable.induct)
  case (taken s limit rewards s')
  then show ?case using proof_inv_take by blast
qed (auto intro: proof_inv_create proof_inv_issue proof_inv_commit proof_inv_reveal proof_inv_endBlock
    proof_inv_escrow proof_inv_mature)

section \<open>How a reward is won\<close>















section \<open>Properties\<close>


text \<open>
  C32: the end of a block creates and destroys no bond: what commitments lock before it is what
  they lock after it plus what it returns to their senders and what it burns.
\<close>

theorem proof_bonds_conserved:
  assumes "proof_reachable cr net d p s" and "endProofMiningBlock cr s net height at d p = Inr a"
  shows "lockedBonds s = lockedBonds (st_state a) + sum_list (map snd (st_refunds a)) + st_burned a"
  using assms(2)
proof (rule endBlock_Inr)
  fix b
  let ?a = "\<lparr>st_state = s, st_refunds = [], st_burned = 0\<rparr>"
  assume b: "closeTasks cr net at p (chargeUnrevealed height p ?a) = Inr b"
    and r: "retarget d (st_state b) = Inr (st_state a)"
    and acc: "st_refunds a = st_refunds b" "st_burned a = st_burned b"
  have inv: "proof_inv cr net d p (st_state ?a)" using reachable_proof_inv [OF assms(1)] by simp
  have "settled b = settled (chargeUnrevealed height p ?a)"
    using closeTasks_settled [OF b proof_inv_keyed [OF proof_inv_charge [OF inv]]] by blast
  also have "\<dots> = settled ?a" by (rule chargeUnrevealed_settled [OF proof_inv_keyed [OF inv]])
  also have "\<dots> = lockedBonds s" by (simp add: settled_def)
  finally have "settled b = lockedBonds s" .
  moreover have "tasks_ok (st_state b)"
    using proof_inv_closeTasks [OF b proof_inv_charge [OF inv]] by (simp add: proof_inv_def)
  then have "ps_commits (st_state a) = ps_commits (st_state b)"
    using retarget_retargeted [OF r] by (simp add: retargeted_def)
  ultimately show ?thesis using acc by (simp add: settled_def lockedBonds_def)
qed


lemma release_False_effect:
  "st_refunds (releaseAll (\<lambda>_. True) (\<lambda>_ _. False) a cs) =
     st_refunds a @ map (\<lambda>c. (ac_sender c, ac_bond c)) cs"
  "st_burned (releaseAll (\<lambda>_. True) (\<lambda>_ _. False) a cs) = st_burned a"
  by (induction cs arbitrary: a) (simp_all add: release_def Let_def)

text \<open>
  C22: when closing a task solves it, the winner is a revealed commit of that task that no other
  commit of the task precedes in the order of blocks, revealed or not; the reward goes to the
  recipient it bound, the bonds of all commits of the task return to their senders, none is
  burned, and no commit of the task remains.
\<close>

theorem earliest_answer_wins:
  assumes "keyed (st_state a)" and "closeTask cr net at p a r = Inr a'"
    and "jget (ps_tasks (st_state a)) r = Some t" and "tk_status t = Task_open" and "tk_round t = r"
    and "jget (ps_tasks (st_state a')) r = Some t'" and "tk_status t' = Task_solved"
  shows "\<exists>best f. best \<in> set (commitsOf (st_state a) r) \<and> ac_recipient best \<noteq> None \<and>
    (\<forall>c \<in> set (commitsOf (st_state a) r). \<not> earlier c best) \<and>
    tk_solvedAtMs t' = Some (ac_timestampMs best) \<and>
    ps_pendingRewards (st_state a') = ps_pendingRewards (st_state a) @
      [\<lparr>pr_fingerprint = f, pr_recipient = the (ac_recipient best), pr_taskRound = r\<rparr>] \<and>
    st_refunds a' = st_refunds a @ map (\<lambda>c. (ac_sender c, ac_bond c)) (commitsOf (st_state a) r) \<and>
    st_burned a' = st_burned a \<and> commitsOf (st_state a') r = []"
  using assms(2)
proof (cases rule: closeTask_cases)
  case same
  with assms show ?thesis by simp
next
  case (expired u)
  then have "tk_status t' = Task_expired" using assms(6) by auto
  with assms(7) show ?thesis by simp
next
  case (solved u best f)
  have u: "u = t" using solved(1) assms(3) by simp
  have none: "commitsOf (st_state a') r = []"
  proof (rule ccontr)
    assume "commitsOf (st_state a') r \<noteq> []"
    then obtain c where c: "c \<in> set (commitsOf (st_state a') r)" by (cases "commitsOf (st_state a') r") auto
    have keyed': "keyed (st_state a')" using closeTask_settled [OF assms(2,1)] by blast
    have "jget (ps_commits (st_state a')) (ac_commitment c) = Some c" "ac_taskRound c = r"
      using c by (simp_all add: commitsOf_iff [OF keyed'])
    then show False
      by (auto simp: solved(7) releaseAll_commits u assms(5) commitsOf_iff [OF assms(1)] split: if_splits)
  qed
  have "tk_solvedAtMs t' = Some (ac_timestampMs best)"
    using assms(6) by (auto simp: solved(7) releaseAll_frame)
  then show ?thesis
    using solved(3-5) none
    by (intro exI [of _ best] exI [of _ f])
      (simp add: solved(7) u assms(5) releaseAll_frame release_False_effect)
qed

lemma releaseAll_burns:
  assumes "\<And>a' c. c \<in> set cs \<Longrightarrow> ps_tasks (st_state a') = ps_tasks (st_state a) \<Longrightarrow> B a' c"
  shows "st_refunds (releaseAll P B a cs) = st_refunds a \<and>
    st_burned (releaseAll P B a cs) = st_burned a + (\<Sum>c \<leftarrow> filter P cs. ac_bond c)"
  using assms
proof (induction cs arbitrary: a)
  case (Cons c cs)
  let ?a = "if P c then release c (B a c) a else a"
  have "B a c" using Cons.prems by simp
  moreover have "st_refunds (releaseAll P B ?a cs) = st_refunds ?a \<and>
      st_burned (releaseAll P B ?a cs) = st_burned ?a + (\<Sum>c \<leftarrow> filter P cs. ac_bond c)"
    by (rule Cons.IH) (rule Cons.prems, auto split: if_splits)
  ultimately show ?case by (simp add: release_def Let_def)
qed simp

text \<open>
  in a reachable state, a commitment that reaches the end of its reveal window unrevealed is
  removed by the end of the block and its bond burned, every one of them and no other bond: the
  first loop refunds nothing, because the task of a pending commitment is always still open.
\<close>

theorem unrevealed_commits_charged:
  assumes "proof_reachable cr net d p s"
    and "a = chargeUnrevealed height p \<lparr>st_state = s, st_refunds = [], st_burned = 0\<rparr>"
  shows "st_refunds a = [] \<and>
    st_burned a = (\<Sum>c \<leftarrow> filter (\<lambda>c. ac_recipient c = None \<and>
       height \<ge> ac_height c + pm_revealWindowBlocks p) (jvalues (ps_commits s)). ac_bond c) \<and>
    (\<forall>k. jget (ps_commits (st_state a)) k =
       (case jget (ps_commits s) k of None \<Rightarrow> None
        | Some c \<Rightarrow> if ac_recipient c = None \<and> height \<ge> ac_height c + pm_revealWindowBlocks p
                    then None else Some c))"
proof -
  let ?late = "\<lambda>c. ac_recipient c = None \<and> height \<ge> ac_height c + pm_revealWindowBlocks p"
  let ?a = "\<lparr>st_state = s, st_refunds = [], st_burned = 0\<rparr>"
  note inv = reachable_proof_inv [OF assms(1)]
  note keyed = proof_inv_keyed [OF inv]
  have opened: "taskOpen (st_state a') (ac_taskRound c)"
    if "c \<in> set (jvalues (ps_commits s))" "ps_tasks (st_state a') = ps_tasks (st_state ?a)" for a' c
  proof -
    from that(1) have "jget (ps_commits s) (ac_commitment c) = Some c" by (simp add: keyed_values [OF keyed])
    with inv have "commit_ok cr net p s (ac_commitment c) c" by (simp add: proof_inv_def commits_ok_def)
    with that(2) show ?thesis by (auto simp: commit_ok_def taskOpen_def)
  qed
  have burns: "st_refunds a = [] \<and> st_burned a = (\<Sum>c \<leftarrow> filter ?late (jvalues (ps_commits s)). ac_bond c)"
    unfolding assms(2) chargeUnrevealed_eq
    using releaseAll_burns [of "jvalues (ps_commits s)" ?a "\<lambda>a c. taskOpen (st_state a) (ac_taskRound c)" ?late,
        OF opened] by simp
  have "jget (ps_commits (st_state a)) k =
       (case jget (ps_commits s) k of None \<Rightarrow> None | Some c \<Rightarrow> if ?late c then None else Some c)" for k
  proof (cases "jget (ps_commits s) k")
    case None
    then show ?thesis by (simp add: assms(2) chargeUnrevealed_eq releaseAll_commits)
  next
    case (Some c)
    have "(\<exists>c' \<in> set (jvalues (ps_commits s)). ?late c' \<and> ac_commitment c' = k) \<longleftrightarrow> ?late c"
    proof
      assume "\<exists>c' \<in> set (jvalues (ps_commits s)). ?late c' \<and> ac_commitment c' = k"
      then obtain c' where c': "c' \<in> set (jvalues (ps_commits s))" "?late c'" "ac_commitment c' = k" by blast
      then have "jget (ps_commits s) k = Some c'" using keyed_values(1) [OF keyed] by blast
      with Some c'(2) show "?late c" by simp
    next
      assume late: "?late c"
      have key: "ac_commitment c = k" using Some keyed by (simp add: keyed_def)
      then have "c \<in> set (jvalues (ps_commits s))" using Some keyed_values(1) [OF keyed] by blast
      with late key show "\<exists>c' \<in> set (jvalues (ps_commits s)). ?late c' \<and> ac_commitment c' = k" by blast
    qed
    with Some show ?thesis by (simp add: assms(2) chargeUnrevealed_eq releaseAll_commits)
  qed
  with burns show ?thesis by blast
qed

text \<open>Escrowed amounts.\<close>

definition escrowTotal :: "proof_state \<Rightarrow> int" where
  "escrowTotal s = jsum es_amount (ps_escrows s)"

lemma mature_fold:
  assumes "jwf (ps_escrows (snd acc))" and "distinct (map fst es)"
    and "\<forall>e \<in> set es. jget (ps_escrows (snd acc)) (fst e) = Some (snd e)"
  shows "escrowTotal (snd (foldl (matureOne h) acc es)) + sum_list (map snd (fst (foldl (matureOne h) acc es))) =
      escrowTotal (snd acc) + sum_list (map snd (fst acc)) \<and>
    fst (foldl (matureOne h) acc es) = fst acc @ map (\<lambda>e. (es_recipient (snd e), es_amount (snd e)))
      (filter (\<lambda>e. h \<ge> es_unlockHeight (snd e)) es) \<and>
    (\<forall>k. jget (ps_escrows (snd (foldl (matureOne h) acc es))) k =
      (if \<exists>e \<in> set es. fst e = k \<and> h \<ge> es_unlockHeight (snd e) then None
       else jget (ps_escrows (snd acc)) k))"
  using assms
proof (induction es arbitrary: acc)
  case (Cons e es)
  let ?acc = "matureOne h acc e"
  have wf: "jwf (ps_escrows (snd ?acc))" using Cons.prems(1) by (simp add: matureOne_def)
  have d: "distinct (map fst es)" using Cons.prems(2) by simp
  have g: "\<forall>e' \<in> set es. jget (ps_escrows (snd ?acc)) (fst e') = Some (snd e')"
  proof
    fix e' assume e': "e' \<in> set es"
    then have "fst e' \<noteq> fst e" using Cons.prems(2) by (metis distinct.simps(2) image_eqI list.simps(9) set_map)
    with Cons.prems(3) e' show "jget (ps_escrows (snd ?acc)) (fst e') = Some (snd e')"
      by (simp add: matureOne_def)
  qed
  have "escrowTotal (snd ?acc) + sum_list (map snd (fst ?acc)) =
      escrowTotal (snd acc) + sum_list (map snd (fst acc))"
    using Cons.prems(1,3) by (auto simp: matureOne_def escrowTotal_def jsum_jdel)
  moreover note Cons.IH [OF wf d g]
  ultimately show ?case by (auto simp: matureOne_def)
qed simp

text \<open>
  maturing credits exactly the escrows whose unlock height is reached, each with its amount
  to its recipient, and removes exactly those: what leaves escrow is what is credited.
\<close>

theorem matured_rewards_conserved:
  assumes "proof_reachable cr net d p s" and "matureProofRewards s h = (credits, s')"
  shows "escrowTotal s = escrowTotal s' + sum_list (map snd credits) \<and>
    mset credits = mset (map (\<lambda>e. (es_recipient (snd e), es_amount (snd e)))
      (filter (\<lambda>e. h \<ge> es_unlockHeight (snd e)) (ps_escrows s))) \<and>
    (\<forall>k. jget (ps_escrows s') k =
      (case jget (ps_escrows s) k of None \<Rightarrow> None
       | Some e \<Rightarrow> if h \<ge> es_unlockHeight e then None else Some e))"
proof -
  have wf: "jwf (ps_escrows s)" using reachable_proof_inv [OF assms(1)] by (simp add: proof_inv_def)
  let ?es = "sort_key fst (ps_escrows s)"
  have m: "mset ?es = mset (ps_escrows s)" by simp
  then have st: "set ?es = set (ps_escrows s)" by simp
  have "mset (map fst ?es) = mset (map fst (ps_escrows s))" using m by simp
  then have "distinct (map fst ?es)" using wf by (metis jwf_def mset_eq_imp_distinct_iff)
  then have "escrowTotal s' + sum_list (map snd credits) = escrowTotal s"
    and cr: "credits = map (\<lambda>e. (es_recipient (snd e), es_amount (snd e)))
      (filter (\<lambda>e. h \<ge> es_unlockHeight (snd e)) ?es)"
    and gt: "jget (ps_escrows s') k = (if \<exists>e \<in> set (ps_escrows s). fst e = k \<and> h \<ge> es_unlockHeight (snd e)
       then None else jget (ps_escrows s) k)" for k
    using mature_fold [of "([], s)" ?es h] wf assms(2) st
    by (auto simp: matureProofRewards_def jget_iff_in)
  moreover have "mset credits = mset (map (\<lambda>e. (es_recipient (snd e), es_amount (snd e)))
      (filter (\<lambda>e. h \<ge> es_unlockHeight (snd e)) (ps_escrows s)))"
    unfolding cr by (simp add: mset_filter)
  moreover have "(\<exists>e \<in> set (ps_escrows s). fst e = k \<and> h \<ge> es_unlockHeight (snd e)) \<longleftrightarrow>
      (\<exists>e. jget (ps_escrows s) k = Some e \<and> h \<ge> es_unlockHeight e)" for k
    by (force simp: jget_iff_in [OF wf])
  ultimately show ?thesis by (auto split: option.splits)
qed

section \<open>Witnesses\<close>

text \<open>One task from its issue to the end of the block that rewards it.\<close>

abbreviation demo_hex :: string where
  "demo_hex \<equiv> replicate 64 CHR ''d''"

definition demo_difficulty :: difficulty_params where
  "demo_difficulty = \<lparr>df_window = 16, df_targetSolveMs = 600000, df_expiryMs = 3600000,
     df_initialLevel = 0, df_minLevel = 0, df_maxLevel = 0\<rparr>"

definition demo_mining :: proof_params where
  "demo_mining = \<lparr>pm_revealDelayBlocks = 2, pm_revealWindowBlocks = 16, pm_commitBond = 1000000,
     pm_maxOpenTasks = 64, pm_maxCommitsPerTask = 256, pm_maxPendingRewards = 1024, pm_search = demo_search\<rparr>"

definition demo_task :: task where
  "demo_task = \<lparr>tk_round = 1, tk_seed = demo_hex, tk_level = 0, tk_issuedHeight = 5,
     tk_issuedAtMs = 1000, tk_closesAtMs = 3601000, tk_status = Task_open, tk_solvedAtMs = None\<rparr>"

definition demo_commit :: "string option \<Rightarrow> answer_commit" where
  "demo_commit r = \<lparr>ac_commitment = demo_hex, ac_taskRound = 1, ac_sender = ''alice'', ac_bond = 1000000,
     ac_height = 6, ac_index = 0, ac_timestampMs = 2000, ac_recipient = r\<rparr>"

definition demo_p1 :: proof_state where
  "demo_p1 = \<lparr>ps_level = 0, ps_tasks = [(1, demo_task)], ps_commits = [], ps_pendingRewards = [], ps_escrows = []\<rparr>"

definition demo_p2 :: "string option \<Rightarrow> proof_state" where
  "demo_p2 r = demo_p1\<lparr>ps_commits := [(demo_hex, demo_commit r)]\<rparr>"

definition demo_reward :: pending_reward where
  "demo_reward = \<lparr>pr_fingerprint = demo_hex, pr_recipient = ''bob'', pr_taskRound = 1\<rparr>"

definition demo_p3 :: proof_state where
  "demo_p3 = demo_p1\<lparr>ps_tasks := [(1, demo_task\<lparr>tk_status := Task_solved, tk_solvedAtMs := Some 2000\<rparr>)],
     ps_pendingRewards := [demo_reward]\<rparr>"

lemma demo_seed: "proofTaskSeed demo_crypto ''net'' 1 demo_hex = Inr demo_hex"
proof -
  have "json_ok (JObj [(''beaconValue'', JStr demo_hex), (''networkId'', JStr ''net''), (''round'', JNum 1)])"
    "is_domain ''PROOF_TASK_CLIQUE_V1''" by code_simp+
  then show ?thesis by (simp add: proofTaskSeed_def demo_hash)
qed

lemma demo_answer_commitment:
  "proofAnswerCommitment demo_crypto ''net'' 1 ''bob'' demo_hex (JArr [JNum 0, JNum 1]) = Inr demo_hex"
proof -
  have "json_ok (JObj [(''vertices'', JArr [JNum 0, JNum 1])])" "is_domain ''PROOF_ANSWER_V1''"
    "json_ok (JObj [(''answerHash'', JStr demo_hex), (''networkId'', JStr ''net''),
            (''recipient'', JStr ''bob''), (''salt'', JStr demo_hex), (''taskRound'', JNum 1)])"
    "is_domain ''PROOF_ANSWER_COMMITMENT_V1''" by code_simp+
  then show ?thesis by (simp add: proofAnswerCommitment_def proofAnswerHash_def demo_hash)
qed

lemma demo_fingerprint:
  "hashObject demo_crypto (JObj [(''commitment'', JStr demo_hex), (''networkId'', JStr ''net''),
     (''round'', JNum 1)]) ''PROOF_TASK_REWARD_V1'' = Inr demo_hex"
proof -
  have "json_ok (JObj [(''commitment'', JStr demo_hex), (''networkId'', JStr ''net''), (''round'', JNum 1)])"
    "is_domain ''PROOF_TASK_REWARD_V1''" by code_simp+
  then show ?thesis by (rule demo_hash)
qed

lemma demo_issued:
  "issueProofTask demo_crypto (createProofMiningState demo_difficulty) ''net'' 1 (JStr demo_hex) 5 1000
     demo_difficulty demo_mining = Inr (demo_p1, Some demo_task)"
proof -
  have "is_hex64 demo_hex" "openTasks (createProofMiningState demo_difficulty) = 0" by code_simp+
  then show ?thesis
    by (simp add: issueProofTask_def proof_integer_def is_safe_int_def MAX_SAFE_INTEGER_def demo_seed
        createProofMiningState_def demo_difficulty_def demo_mining_def demo_p1_def demo_task_def jset_def Let_def)
qed

lemma demo_committed_answer:
  "applyProofAnswerCommit demo_p1 (JStr demo_hex) (JNum 1) ''alice'' 6 0 2000 demo_mining = Inr (demo_p2 None)"
  by code_simp

lemma demo_revealed:
  "applyProofAnswerReveal demo_crypto (demo_p2 None) ''net'' (JStr demo_hex) ''bob'' (JStr demo_hex)
     (JArr [JNum 0, JNum 1]) 8 demo_mining = Inr (demo_p2 (Some ''bob''))"
proof -
  have "checkCliqueSearchAnswer demo_crypto (JStr demo_hex) 0 (JArr [JNum 0, JNum 1]) demo_search = Inr (3, 2)"
    by code_simp
  moreover have "is_hex64 demo_hex" by code_simp
  ultimately show ?thesis
    by (simp add: applyProofAnswerReveal_def demo_p2_def demo_p1_def demo_commit_def demo_task_def jget_def
        jset_def demo_mining_def demo_answer_commitment)
qed

lemma demo_closed:
  "closeTask demo_crypto ''net'' 4000 demo_mining
     \<lparr>st_state = demo_p2 (Some ''bob''), st_refunds = [], st_burned = 0\<rparr> 1 =
   Inr \<lparr>st_state = demo_p3, st_refunds = [(''alice'', 1000000)], st_burned = 0\<rparr>"
proof -
  have "commitsOf (demo_p2 (Some ''bob'')) 1 = [demo_commit (Some ''bob'')]"
    "revealedInOrder [demo_commit (Some ''bob'')] = [demo_commit (Some ''bob'')]" by code_simp+
  then show ?thesis
    by (simp add: closeTask_def Let_def demo_p2_def demo_p1_def demo_p3_def demo_task_def demo_commit_def
        jget_def jset_def jdel_def demo_mining_def demo_fingerprint demo_reward_def release_def)
qed

lemma demo_ended:
  "endProofMiningBlock demo_crypto (demo_p2 (Some ''bob'')) ''net'' 9 4000 demo_difficulty demo_mining =
     Inr \<lparr>st_state = demo_p3, st_refunds = [(''alice'', 1000000)], st_burned = 0\<rparr>"
proof -
  have "chargeUnrevealed 9 demo_mining \<lparr>st_state = demo_p2 (Some ''bob''), st_refunds = [], st_burned = 0\<rparr> =
      \<lparr>st_state = demo_p2 (Some ''bob''), st_refunds = [], st_burned = 0\<rparr>"
    "map tk_round (tasksByRound (demo_p2 (Some ''bob''))) = [1]"
    "retarget demo_difficulty demo_p3 = Inr demo_p3" by code_simp+
  then show ?thesis by (simp add: endProofMiningBlock_def closeTasks_def demo_closed)
qed

lemma demo_mining_reachable:
  "proof_reachable demo_crypto ''net'' demo_difficulty demo_mining (demo_p2 (Some ''bob''))"
  "proof_reachable demo_crypto ''net'' demo_difficulty demo_mining (demo_p2 None)"
  "proof_reachable demo_crypto ''net'' demo_difficulty demo_mining demo_p3"
proof -
  have "proof_reachable demo_crypto ''net'' demo_difficulty demo_mining (createProofMiningState demo_difficulty)"
    by (rule proof_reachable.created) (simp_all add: demo_difficulty_def)
  from proof_reachable.answered [OF proof_reachable.issued [OF this demo_issued] demo_committed_answer]
  show p2: "proof_reachable demo_crypto ''net'' demo_difficulty demo_mining (demo_p2 None)" .
  from proof_reachable.revealed [OF this demo_revealed]
  show p3: "proof_reachable demo_crypto ''net'' demo_difficulty demo_mining (demo_p2 (Some ''bob''))" .
  from proof_reachable.ended [OF this demo_ended]
  show "proof_reachable demo_crypto ''net'' demo_difficulty demo_mining demo_p3" by simp
qed


theorem proof_bonds_conserved_witness: "lockedBonds (demo_p2 (Some ''bob'')) = 1000000"
proof -
  have "lockedBonds demo_p3 = 0" by code_simp
  with proof_bonds_conserved [OF demo_mining_reachable(1) demo_ended] show ?thesis by simp
qed

theorem earliest_answer_wins_witness:
  "\<exists>best. best \<in> set (commitsOf (demo_p2 (Some ''bob'')) 1) \<and> ac_recipient best \<noteq> None"
proof -
  let ?a = "\<lparr>st_state = demo_p2 (Some ''bob''), st_refunds = [], st_burned = 0\<rparr>"
  have t: "jget (ps_tasks (st_state ?a)) 1 = Some demo_task" "tk_status demo_task = Task_open"
    "tk_round demo_task = 1" by code_simp+
  have "keyed (st_state ?a)" using proof_inv_keyed [OF reachable_proof_inv [OF demo_mining_reachable(1)]] by simp
  moreover have "jget (ps_tasks demo_p3) 1 =
      Some (demo_task\<lparr>tk_status := Task_solved, tk_solvedAtMs := Some 2000\<rparr>)" by code_simp
  ultimately show ?thesis using earliest_answer_wins [OF _ demo_closed t] by auto
qed

theorem unrevealed_commits_charged_witness:
  "st_burned (chargeUnrevealed 22 demo_mining \<lparr>st_state = demo_p2 None, st_refunds = [], st_burned = 0\<rparr>) = 1000000"
proof -
  have "(\<Sum>c \<leftarrow> filter (\<lambda>c. ac_recipient c = None \<and> 22 \<ge> ac_height c + pm_revealWindowBlocks demo_mining)
      (jvalues (ps_commits (demo_p2 None))). ac_bond c) = 1000000" by code_simp
  with unrevealed_commits_charged [OF demo_mining_reachable(2) refl, of 22] show ?thesis by simp
qed

theorem matured_rewards_conserved_witness:
  "\<exists>credits s'. matureProofRewards demo_p3 100 = (credits, s') \<and> escrowTotal s' = 0"
proof -
  obtain credits s' where m: "matureProofRewards demo_p3 100 = (credits, s')" by (cases "matureProofRewards demo_p3 100")
  have "escrowTotal demo_p3 = 0" "ps_escrows demo_p3 = []" by code_simp+
  with matured_rewards_conserved [OF demo_mining_reachable(3) m] m show ?thesis by auto
qed


end
