(* ===== verification/Transfers.thy ===== *)
theory Transfers
  imports Js_Map Crypto
begin

text \<open>
  \<open>blockchain/transfer-state-transition.mjs\<close>: the monetary transitions of ordinary, multisig,
  sponsored and credit-paid transfers, over the maps of balances, nonces, credit stakes, credit
  usage and credit delegations. Each transition checks everything before it writes, so an error
  leaves the maps as they were; here it is the value \<open>Inl e\<close>.
\<close>

section \<open>State\<close>

type_synonym balances = "(string, int) jsmap"
type_synonym nonces = "(string, int) jsmap"

record credit_usage =
  cu_epoch :: int
  cu_spent :: int

record credit_delegation =
  cd_owner :: string
  cd_delegate :: string
  cd_epoch :: int
  cd_limit :: int
  cd_spent :: int

type_synonym usage_map = "(string, credit_usage) jsmap"
type_synonym delegation_map = "(string, credit_delegation) jsmap"

datatype transfer_field =
    F_sender | F_recipient | F_fee_recipient | F_fee_payer | F_credit_owner | F_amount | F_fee
  | F_nonce | F_fee_payer_nonce | F_account_balance

datatype transfer_error =
    Not_canonical_address transfer_field
  | Out_of_range transfer_field
  | Not_unsigned_decimal transfer_field
  | Nonce_invalid transfer_field
  | Credit_stake_out_of_bounds
  | Credit_height_invalid
  | Multisig_descriptor_invalid
  | Unsigned_transaction_invalid
  | Envelope_invalid
  | Algorithm_mismatch
  | Digest_mismatch
  | Approval_invalid
  | Approval_duplicated
  | Ordinary_signer_invalid
  | Multisig_algorithm_invalid
  | Sender_not_descriptor
  | Signer_collection_invalid
  | Signer_unknown
  | Signer_duplicated
  | Threshold_not_reached
  | Amount_not_positive
  | Fee_below_minimum
  | Unexpected_nonce
  | Unexpected_fee_payer_nonce
  | Insufficient_balance
  | Sender_insufficient_balance
  | Fee_payer_insufficient_balance
  | Balance_underflow
  | Balance_out_of_range
  | Conservation_failed
  | Fee_payer_not_distinct
  | Sponsored_fields_incomplete
  | Sponsored_credit_delegated
  | Credit_owner_not_distinct
  | Credit_fee_not_zero
  | Credit_usage_invalid
  | Credit_quota_exhausted
  | Credit_delegation_missing
  | Credit_delegation_invalid
  | Credit_delegation_exhausted
  | Not_encodable codec_error

section \<open>Parsing\<close>

fun address :: "jsval \<Rightarrow> transfer_field \<Rightarrow> transfer_error + string" where
  "address (JStr s) field = (if \<not> is_address s then Inl (Not_canonical_address field) else Inr s)"
| "address _ field = Inl (Not_canonical_address field)"

fun atomic :: "jsval \<Rightarrow> transfer_field \<Rightarrow> transfer_error + int" where
  "atomic (JBig n) field =
     (if n < 0 \<or> n > MAX_ATOMIC_VALUE then Inl (Out_of_range field) else Inr n)"
| "atomic (JStr s) field =
     (if length s > MAX_DECIMAL_DIGITS \<or> \<not> is_decimal s then Inl (Not_unsigned_decimal field)
      else Inr (dec_value s))"
| "atomic _ field = Inl (Not_unsigned_decimal field)"

definition nonce :: "jsval \<Rightarrow> transfer_field \<Rightarrow> transfer_error + int" where
  "nonce v field =
     (case safe_int v of
        None \<Rightarrow> Inl (Nonce_invalid field)
      | Some n \<Rightarrow> if n < 0 \<or> n \<ge> MAX_SAFE_INTEGER then Inl (Nonce_invalid field) else Inr n)"

definition currentBalance :: "balances \<Rightarrow> string \<Rightarrow> transfer_error + int" where
  "currentBalance balances account =
     atomic (JBig (jget_or 0 balances account)) F_account_balance"

definition totalFor :: "balances \<Rightarrow> string list \<Rightarrow> transfer_error + int" where
  "totalFor balances accounts =
     foldM (\<lambda>total account. bind_r (currentBalance balances account) (\<lambda>b. Inr (total + b))) 0 accounts"

text \<open>\<open>!Number.isSafeInteger(expected) || expected < 0 || n !== expected\<close>\<close>

definition unexpected :: "nonces \<Rightarrow> string \<Rightarrow> int \<Rightarrow> bool" where
  "unexpected nonces account n \<longleftrightarrow>
     (let expected = jget_or 0 nonces account in
      \<not> is_safe_int expected \<or> expected < 0 \<or> n \<noteq> expected)"

section \<open>Transfer credits\<close>

definition transferCreditAllowance :: "int \<Rightarrow> transfer_error + int" where
  "transferCreditAllowance stake =
     (if stake < 0 \<or> stake > MAX_ATOMIC_VALUE then Inl Credit_stake_out_of_bounds
      else Inr ((stake * TRANSFER_CREDITS_PER_STAKE_UNIT) div TRANSFER_CREDIT_STAKE_UNIT))"

definition transferCreditEpoch :: "int \<Rightarrow> transfer_error + int" where
  "transferCreditEpoch height =
     (if \<not> is_safe_int height \<or> height < 0 then Inl Credit_height_invalid
      else if height = 0 then Inr 0
      else Inr ((height - 1) div TRANSFER_CREDIT_EPOCH_BLOCKS))"

section \<open>Settling deltas\<close>

text \<open>
  The part the three transitions share: \<open>addDelta\<close>, the loop that computes the new balances
  into \<open>next\<close>, the conservation check and the final writes. The first balance that would be
  negative ends it with \<open>underflow\<close>.
\<close>

definition addDelta :: "string \<Rightarrow> int \<Rightarrow> balances \<Rightarrow> balances" where
  "addDelta account delta deltas = jset account (jget_or 0 deltas account + delta) deltas"

fun nextBalances :: "transfer_error \<Rightarrow> balances \<Rightarrow> balances \<Rightarrow> string list \<Rightarrow> balances \<Rightarrow>
    transfer_error + balances" where
  "nextBalances underflow balances deltas [] next = Inr next"
| "nextBalances underflow balances deltas (account # accounts) next =
     bind_r (currentBalance balances account) (\<lambda>balance.
       let updated = balance + jget_or 0 deltas account in
       if updated < 0 then Inl underflow
       else if updated > MAX_ATOMIC_VALUE then Inl Balance_out_of_range
       else nextBalances underflow balances deltas accounts (jset account updated next))"

definition writeAll :: "balances \<Rightarrow> balances \<Rightarrow> balances" where
  "writeAll next balances = foldl (\<lambda>b p. jset (fst p) (snd p) b) balances next"

definition settle :: "transfer_error \<Rightarrow> string list \<Rightarrow> balances \<Rightarrow> balances \<Rightarrow>
    transfer_error + balances" where
  "settle underflow accounts deltas balances =
     bind_r (totalFor balances accounts) (\<lambda>before.
     bind_r (nextBalances underflow balances deltas accounts []) (\<lambda>next.
       if sum_list (jvalues next) \<noteq> before \<or> sum_list (jvalues deltas) \<noteq> 0
       then Inl Conservation_failed
       else Inr (writeAll next balances)))"

section \<open>Ordinary transfers\<close>

record receipt =
  rc_amount :: int
  rc_fee :: int
  rc_next_nonce :: int

definition ordinaryDeltas :: "string \<Rightarrow> string \<Rightarrow> string \<Rightarrow> int \<Rightarrow> int \<Rightarrow> balances" where
  "ordinaryDeltas sender recipient feeRecipient amount fee =
     addDelta feeRecipient fee (addDelta recipient amount (addDelta sender (- amount - fee) []))"

definition applyOrdinaryTransferState ::
    "jsval \<Rightarrow> balances \<Rightarrow> jsval \<Rightarrow> jsval \<Rightarrow> jsval \<Rightarrow> nonces \<Rightarrow> jsval \<Rightarrow> jsval \<Rightarrow>
     transfer_error + (balances \<times> nonces \<times> receipt)" where
  "applyOrdinaryTransferState amountValue balances feeValue feeRecipientValue nonceValue nonces
       recipientValue senderValue =
     bind_r (address senderValue F_sender) (\<lambda>sender.
     bind_r (address recipientValue F_recipient) (\<lambda>recipient.
     bind_r (address feeRecipientValue F_fee_recipient) (\<lambda>feeRecipient.
     bind_r (atomic amountValue F_amount) (\<lambda>amount.
     bind_r (atomic feeValue F_fee) (\<lambda>fee.
     bind_r (nonce nonceValue F_nonce) (\<lambda>transactionNonce.
       if amount = 0 then Inl Amount_not_positive
       else if fee < MIN_TRANSFER_FEE then Inl Fee_below_minimum
       else if unexpected nonces sender transactionNonce then Inl Unexpected_nonce
       else bind_r (settle Insufficient_balance (uniq [sender, recipient, feeRecipient])
              (ordinaryDeltas sender recipient feeRecipient amount fee) balances) (\<lambda>balances'.
         Inr (balances', jset sender (transactionNonce + 1) nonces,
              \<lparr>rc_amount = amount, rc_fee = fee, rc_next_nonce = transactionNonce + 1\<rparr>))))))))"

section \<open>Multisignature descriptors and authorizations\<close>

definition multisigDescriptor :: "jsval \<Rightarrow> jsval \<Rightarrow> transfer_error + (string list \<times> int)" where
  "multisigDescriptor memberPublicKeys threshold =
     (case memberPublicKeys of
        JArr ks \<Rightarrow>
          (case (safe_int threshold, str_array ks) of
             (Some t, Some keys) \<Rightarrow>
               if length keys < 2 \<or> length keys > MAX_MULTISIG_MEMBERS \<or>
                  t < 2 \<or> t > int (length keys) \<or> list_ex (\<lambda>k. length k > 4000) keys \<or>
                  length (uniq keys) \<noteq> length keys
               then Inl Multisig_descriptor_invalid
               else Inr (sort keys, t)
           | _ \<Rightarrow> Inl Multisig_descriptor_invalid)
      | _ \<Rightarrow> Inl Multisig_descriptor_invalid)"

definition descriptorObject :: "string list \<times> int \<Rightarrow> jsval" where
  "descriptorObject d = JObj [(''algorithm'', JStr SIGNATURE_ALGORITHM),
     (''memberPublicKeys'', JArr (map JStr (fst d))), (''threshold'', JNum (snd d))]"

definition multisigStateAddress :: "crypto \<Rightarrow> jsval \<Rightarrow> jsval \<Rightarrow> transfer_error + string" where
  "multisigStateAddress cr memberPublicKeys threshold =
     bind_r (multisigDescriptor memberPublicKeys threshold) (\<lambda>d.
     bind_r (map_err Not_encodable (hashObject cr (descriptorObject d) ''MULTISIG_ADDRESS''))
       (\<lambda>h. Inr (''nir1'' @ h)))"

definition transferAuthorizationDigest :: "crypto \<Rightarrow> jsval \<Rightarrow> transfer_error + string" where
  "transferAuthorizationDigest cr unsignedTx =
     (case plain_object unsignedTx of
        None \<Rightarrow> Inl Unsigned_transaction_invalid
      | Some _ \<Rightarrow> map_err Not_encodable (hashObject cr unsignedTx ''TRANSFER''))"

text \<open>One turn of the loop over the approvals; \<open>signers\<close> is the set of keys seen so far.\<close>

definition checkApproval :: "string list \<Rightarrow> jsval \<Rightarrow> transfer_error + string list" where
  "checkApproval signers approval =
     (case plain_object approval of
        None \<Rightarrow> Inl Approval_invalid
      | Some obj \<Rightarrow>
          if \<not> keys_are obj [''publicKey'', ''signature''] then Inl Approval_invalid
          else (case (fld obj ''publicKey'', fld obj ''signature'') of
             (JStr k, JStr sig) \<Rightarrow>
               if length k = 0 \<or> length k > 4000 \<or> length sig = 0 \<or> length sig > 7000
               then Inl Approval_invalid
               else if k \<in> set signers then Inl Approval_duplicated
               else Inr (signers @ [k])
           | _ \<Rightarrow> Inl Approval_invalid))"

text \<open>\<open>validateTransferAuthorizationEnvelope\<close>; the result is \<open>preverifiedSigners\<close>.\<close>

definition validateTransferAuthorizationEnvelope :: "crypto \<Rightarrow> jsval \<Rightarrow> string \<Rightarrow> jsval \<Rightarrow>
    transfer_error + string list" where
  "validateTransferAuthorizationEnvelope cr envelope expectedAlgorithm unsignedTx =
     (case plain_object envelope of
        None \<Rightarrow> Inl Envelope_invalid
      | Some env \<Rightarrow>
          if \<not> keys_are env [''algorithm'', ''approvals'', ''transactionDigest'']
          then Inl Envelope_invalid
          else (case fld env ''approvals'' of
             JArr approvals \<Rightarrow>
               if approvals = [] \<or> length approvals > MAX_MULTISIG_MEMBERS
               then Inl Envelope_invalid
               else if fld env ''algorithm'' \<noteq> JStr expectedAlgorithm then Inl Algorithm_mismatch
               else (case fld env ''transactionDigest'' of
                  JStr digest \<Rightarrow>
                    if \<not> is_hex64 digest then Inl Digest_mismatch
                    else bind_r (transferAuthorizationDigest cr unsignedTx) (\<lambda>expected.
                      if digest \<noteq> expected then Inl Digest_mismatch
                      else foldM checkApproval [] approvals)
                | _ \<Rightarrow> Inl Digest_mismatch)
           | _ \<Rightarrow> Inl Envelope_invalid))"

definition applyAuthorizedOrdinaryTransferState ::
    "crypto \<Rightarrow> jsval \<Rightarrow> balances \<Rightarrow> jsval \<Rightarrow> nonces \<Rightarrow> jsobj \<Rightarrow>
     transfer_error + (balances \<times> nonces \<times> receipt)" where
  "applyAuthorizedOrdinaryTransferState cr envelope balances feeRecipient nonces unsignedTx =
     bind_r (validateTransferAuthorizationEnvelope cr envelope SIGNATURE_ALGORITHM (JObj unsignedTx))
       (\<lambda>signers.
       if length signers \<noteq> 1 \<or> JStr (hd signers) \<noteq> fld unsignedTx ''publicKey'' \<or>
          fld unsignedTx ''algorithm'' \<noteq> JStr SIGNATURE_ALGORITHM
       then Inl Ordinary_signer_invalid
       else applyOrdinaryTransferState (fld unsignedTx ''amount'') balances (fld unsignedTx ''fee'')
              feeRecipient (fld unsignedTx ''nonce'') nonces (fld unsignedTx ''recipient'')
              (fld unsignedTx ''sender''))"

text \<open>One turn of the loop over \<open>verifiedSigners\<close>.\<close>

definition checkSigner :: "string list \<Rightarrow> string list \<Rightarrow> string \<Rightarrow> transfer_error + string list" where
  "checkSigner allowed signers signer =
     (if signer \<notin> set allowed then Inl Signer_unknown
      else if signer \<in> set signers then Inl Signer_duplicated
      else Inr (signers @ [signer]))"

definition applyMultisigTransferState ::
    "crypto \<Rightarrow> jsval \<Rightarrow> balances \<Rightarrow> jsval \<Rightarrow> jsval \<Rightarrow> jsval \<Rightarrow> jsval \<Rightarrow> nonces \<Rightarrow> jsval \<Rightarrow> jsval \<Rightarrow>
     jsval \<Rightarrow> string list \<Rightarrow> transfer_error + (balances \<times> nonces \<times> receipt)" where
  "applyMultisigTransferState cr amount balances fee feeRecipient memberPublicKeys
       transactionNonce nonces recipient sender threshold verifiedSigners =
     bind_r (multisigDescriptor memberPublicKeys threshold) (\<lambda>(keys, t).
     bind_r (multisigStateAddress cr (JArr (map JStr keys)) (JNum t)) (\<lambda>addr.
       if JStr addr \<noteq> sender then Inl Sender_not_descriptor
       else if length verifiedSigners > length keys then Inl Signer_collection_invalid
       else bind_r (foldM (checkSigner keys) [] verifiedSigners) (\<lambda>signers.
         if int (length signers) < t then Inl Threshold_not_reached
         else applyOrdinaryTransferState amount balances fee feeRecipient transactionNonce nonces
                recipient sender)))"

definition applyAuthorizedMultisigTransferState ::
    "crypto \<Rightarrow> jsval \<Rightarrow> balances \<Rightarrow> jsval \<Rightarrow> nonces \<Rightarrow> jsobj \<Rightarrow>
     transfer_error + (balances \<times> nonces \<times> receipt)" where
  "applyAuthorizedMultisigTransferState cr envelope balances feeRecipient nonces unsignedTx =
     bind_r (validateTransferAuthorizationEnvelope cr envelope MULTISIG_ALGORITHM (JObj unsignedTx))
       (\<lambda>signers.
       if fld unsignedTx ''algorithm'' \<noteq> JStr MULTISIG_ALGORITHM then Inl Multisig_algorithm_invalid
       else applyMultisigTransferState cr (fld unsignedTx ''amount'') balances (fld unsignedTx ''fee'')
              feeRecipient (fld unsignedTx ''memberPublicKeys'') (fld unsignedTx ''nonce'') nonces
              (fld unsignedTx ''recipient'') (fld unsignedTx ''sender'') (fld unsignedTx ''threshold'')
              signers)"

section \<open>Sponsored transfers\<close>

record sponsored_receipt =
  sr_amount :: int
  sr_fee :: int
  sr_next_fee_payer_nonce :: int
  sr_next_nonce :: int

definition sponsoredDeltas :: "string \<Rightarrow> string \<Rightarrow> string \<Rightarrow> string \<Rightarrow> int \<Rightarrow> int \<Rightarrow> balances" where
  "sponsoredDeltas sender recipient feePayer feeRecipient amount fee =
     addDelta feeRecipient fee (addDelta feePayer (- fee)
       (addDelta recipient amount (addDelta sender (- amount) [])))"

definition applySponsoredTransferState ::
    "jsval \<Rightarrow> balances \<Rightarrow> jsval \<Rightarrow> jsval \<Rightarrow> jsval \<Rightarrow> jsval \<Rightarrow> jsval \<Rightarrow> nonces \<Rightarrow> jsval \<Rightarrow> jsval \<Rightarrow>
     transfer_error + (balances \<times> nonces \<times> sponsored_receipt)" where
  "applySponsoredTransferState amountValue balances feeValue feePayerValue feePayerNonceValue
       feeRecipientValue nonceValue nonces recipientValue senderValue =
     bind_r (address senderValue F_sender) (\<lambda>sender.
     bind_r (address recipientValue F_recipient) (\<lambda>recipient.
     bind_r (address feePayerValue F_fee_payer) (\<lambda>feePayer.
     bind_r (address feeRecipientValue F_fee_recipient) (\<lambda>feeRecipient.
       if feePayer = sender then Inl Fee_payer_not_distinct
       else bind_r (atomic amountValue F_amount) (\<lambda>amount.
     bind_r (atomic feeValue F_fee) (\<lambda>fee.
     bind_r (nonce nonceValue F_nonce) (\<lambda>transactionNonce.
     bind_r (nonce feePayerNonceValue F_fee_payer_nonce) (\<lambda>sponsorNonce.
       if amount = 0 then Inl Amount_not_positive
       else if fee < MIN_TRANSFER_FEE then Inl Fee_below_minimum
       else if unexpected nonces sender transactionNonce then Inl Unexpected_nonce
       else if unexpected nonces feePayer sponsorNonce then Inl Unexpected_fee_payer_nonce
       else bind_r (currentBalance balances sender) (\<lambda>senderBalance.
         if senderBalance < amount then Inl Sender_insufficient_balance
         else bind_r (currentBalance balances feePayer) (\<lambda>feePayerBalance.
           if feePayerBalance < fee then Inl Fee_payer_insufficient_balance
           else bind_r (settle Balance_underflow (uniq [sender, recipient, feePayer, feeRecipient])
                  (sponsoredDeltas sender recipient feePayer feeRecipient amount fee) balances)
             (\<lambda>balances'.
               Inr (balances',
                    jset feePayer (sponsorNonce + 1) (jset sender (transactionNonce + 1) nonces),
                    \<lparr>sr_amount = amount, sr_fee = fee,
                     sr_next_fee_payer_nonce = sponsorNonce + 1,
                     sr_next_nonce = transactionNonce + 1\<rparr>))))))))))))"

section \<open>Credit-paid transfers\<close>

record credit_state =
  ct_balances :: balances
  ct_nonces :: nonces
  ct_stakes :: balances
  ct_usage :: usage_map
  ct_delegations :: delegation_map

record credit_receipt =
  cr_amount :: int
  cr_epoch :: int
  cr_next_fee_payer_nonce :: "int option"
  cr_next_nonce :: int
  cr_owner :: string

definition creditDelegationKey :: "string \<Rightarrow> string \<Rightarrow> string" where
  "creditDelegationKey owner delegate = owner @ '':'' @ delegate"

text \<open>\<open>previous?.epoch === epoch ? previous.spent : 0\<close>\<close>

definition creditSpent :: "usage_map \<Rightarrow> string \<Rightarrow> int \<Rightarrow> int" where
  "creditSpent usage owner epoch =
     (case jget usage owner of
        None \<Rightarrow> 0
      | Some u \<Rightarrow> if cu_epoch u = epoch then cu_spent u else 0)"

definition spendDelegation :: "delegation_map \<Rightarrow> string \<Rightarrow> string \<Rightarrow> int \<Rightarrow>
    transfer_error + (string \<times> credit_delegation)" where
  "spendDelegation delegations owner sender epoch =
     (let key = creditDelegationKey owner sender in
      case jget delegations key of
        None \<Rightarrow> Inl Credit_delegation_missing
      | Some d \<Rightarrow>
          let spent = (if cd_epoch d = epoch then cd_spent d else 0) in
          if \<not> is_safe_int spent \<or> spent < 0 \<or> \<not> is_safe_int (cd_limit d) \<or> cd_limit d < 0
          then Inl Credit_delegation_invalid
          else if spent \<ge> cd_limit d then Inl Credit_delegation_exhausted
          else Inr (key, d\<lparr>cd_epoch := epoch, cd_spent := spent + 1\<rparr>))"

definition creditDeltas :: "string \<Rightarrow> string \<Rightarrow> int \<Rightarrow> balances" where
  "creditDeltas sender recipient amount =
     addDelta recipient amount (addDelta sender (- amount) [])"

text \<open>An optional argument, \<open>f\<close> of it when it is there.\<close>

definition when_some :: "bool \<Rightarrow> 'e + 'a \<Rightarrow> 'e + 'a option" where
  "when_some c m = (if c then bind_r m (\<lambda>x. Inr (Some x)) else Inr None)"

definition applyCreditTransferState ::
    "jsval \<Rightarrow> credit_state \<Rightarrow> jsval \<Rightarrow> jsval \<Rightarrow> jsval \<Rightarrow> jsval \<Rightarrow> int \<Rightarrow> jsval \<Rightarrow> jsval \<Rightarrow> jsval \<Rightarrow>
     transfer_error + (credit_state \<times> credit_receipt)" where
  "applyCreditTransferState amountValue s creditOwnerValue feeValue feePayerValue
       feePayerNonceValue heightValue nonceValue recipientValue senderValue =
     bind_r (address senderValue F_sender) (\<lambda>sender.
     bind_r (address recipientValue F_recipient) (\<lambda>recipient.
     let sponsored = (feePayerValue \<noteq> JUndef \<or> feePayerNonceValue \<noteq> JUndef) in
       if sponsored \<and> (feePayerValue = JUndef \<or> feePayerNonceValue = JUndef)
       then Inl Sponsored_fields_incomplete
       else if sponsored \<and> creditOwnerValue \<noteq> JUndef then Inl Sponsored_credit_delegated
       else bind_r (when_some sponsored (address feePayerValue F_fee_payer)) (\<lambda>feePayer.
       if feePayer = Some sender then Inl Fee_payer_not_distinct
       else bind_r (case feePayer of Some p \<Rightarrow> Inr p
                    | None \<Rightarrow> if creditOwnerValue = JUndef then Inr sender
                              else address creditOwnerValue F_credit_owner) (\<lambda>owner.
       let delegated = (\<not> sponsored \<and> owner \<noteq> sender) in
       if creditOwnerValue \<noteq> JUndef \<and> \<not> delegated then Inl Credit_owner_not_distinct
       else bind_r (atomic amountValue F_amount) (\<lambda>amount.
       bind_r (atomic feeValue F_fee) (\<lambda>fee.
       bind_r (nonce nonceValue F_nonce) (\<lambda>transactionNonce.
       bind_r (when_some sponsored (nonce feePayerNonceValue F_fee_payer_nonce)) (\<lambda>sponsorNonce.
       bind_r (transferCreditEpoch heightValue) (\<lambda>epoch.
         if amount = 0 then Inl Amount_not_positive
         else if fee \<noteq> 0 then Inl Credit_fee_not_zero
         else if unexpected (ct_nonces s) sender transactionNonce then Inl Unexpected_nonce
         else if (case (feePayer, sponsorNonce) of
                    (Some p, Some n) \<Rightarrow> unexpected (ct_nonces s) p n | _ \<Rightarrow> False)
         then Inl Unexpected_fee_payer_nonce
         else bind_r (currentBalance (ct_balances s) sender) (\<lambda>senderBalance.
         if senderBalance < amount then Inl Sender_insufficient_balance
         else bind_r (transferCreditAllowance (jget_or 0 (ct_stakes s) owner)) (\<lambda>allowance.
         let spent = creditSpent (ct_usage s) owner epoch in
         if \<not> is_safe_int spent \<or> spent < 0 then Inl Credit_usage_invalid
         else if allowance \<le> spent then Inl Credit_quota_exhausted
         else bind_r (when_some delegated (spendDelegation (ct_delegations s) owner sender epoch))
           (\<lambda>nextDelegation.
         bind_r (settle Balance_underflow (uniq [sender, recipient])
                  (creditDeltas sender recipient amount) (ct_balances s)) (\<lambda>balances'.
           let nonces' = jset sender (transactionNonce + 1) (ct_nonces s);
               nonces'' = (case (feePayer, sponsorNonce) of
                             (Some p, Some n) \<Rightarrow> jset p (n + 1) nonces' | _ \<Rightarrow> nonces') in
           Inr (s\<lparr>ct_balances := balances', ct_nonces := nonces'',
                 ct_usage := jset owner \<lparr>cu_epoch = epoch, cu_spent = spent + 1\<rparr> (ct_usage s),
                 ct_delegations := (case nextDelegation of None \<Rightarrow> ct_delegations s
                                    | Some (key, d) \<Rightarrow> jset key d (ct_delegations s))\<rparr>,
                \<lparr>cr_amount = amount, cr_epoch = epoch,
                 cr_next_fee_payer_nonce = map_option (\<lambda>n. n + 1) sponsorNonce,
                 cr_next_nonce = transactionNonce + 1, cr_owner = owner\<rparr>))))))))))))))"

section \<open>What settling does\<close>

lemma atomic_range: "atomic v f = Inr n \<Longrightarrow> 0 \<le> n \<and> n \<le> MAX_ATOMIC_VALUE"
proof (cases v)
  case (JStr s)
  moreover assume "atomic v f = Inr n"
  ultimately have "parseAtomic v = Inr n" by (simp add: inversion)
  then show ?thesis by (rule parseAtomic_range)
qed (auto split: if_splits)

lemma address_Inr_iff [inversion]:
  "address v f = Inr a \<longleftrightarrow> v = JStr a \<and> is_address a"
  by (cases v) auto

lemma nonce_Inr_iff [inversion]:
  "nonce v f = Inr n \<longleftrightarrow> safe_int v = Some n \<and> 0 \<le> n \<and> n < MAX_SAFE_INTEGER"
  by (auto simp: nonce_def split: option.splits)

lemma currentBalance_Inr_iff [inversion]:
  "currentBalance b a = Inr n \<longleftrightarrow>
     n = jget_or 0 b a \<and> 0 \<le> jget_or 0 b a \<and> jget_or 0 b a \<le> MAX_ATOMIC_VALUE"
  by (auto simp: currentBalance_def)

lemma when_some_Inr_iff [inversion]:
  "when_some c m = Inr x \<longleftrightarrow> (if c then \<exists>y. m = Inr y \<and> x = Some y else x = None)"
  by (auto simp: when_some_def inversion)

lemma not_unexpected_iff [inversion]:
  "\<not> unexpected nonces a n \<longleftrightarrow> n = jget_or 0 nonces a \<and> 0 \<le> n \<and> n \<le> MAX_SAFE_INTEGER"
  by (auto simp: unexpected_def Let_def is_safe_int_def)

lemma totalFor_acc:
  "foldM (\<lambda>total account. bind_r (currentBalance b account) (\<lambda>x. Inr (total + x))) t accounts = Inr r \<Longrightarrow>
   r = t + (\<Sum>a \<leftarrow> accounts. jget_or 0 b a)"
  by (induction accounts arbitrary: t) (fastforce simp: inversion)+

lemma totalFor_Inr: "totalFor b accounts = Inr t \<Longrightarrow> t = (\<Sum>a \<leftarrow> accounts. jget_or 0 b a)"
  unfolding totalFor_def by (drule totalFor_acc) simp

lemma nextBalances_Inr:
  assumes "nextBalances u b d accounts next = Inr next'" and "distinct accounts"
    and "\<forall>a \<in> set accounts. \<not> jhas next a"
  shows "next' = next @ map (\<lambda>a. (a, jget_or 0 b a + jget_or 0 d a)) accounts \<and>
    (\<forall>a \<in> set accounts. 0 \<le> jget_or 0 b a + jget_or 0 d a \<and>
       jget_or 0 b a + jget_or 0 d a \<le> MAX_ATOMIC_VALUE)"
  using assms
proof (induction accounts arbitrary: "next")
  case (Cons a accounts)
  let ?u = "jget_or 0 b a + jget_or 0 d a"
  from Cons.prems have rec: "nextBalances u b d accounts (jset a ?u next) = Inr next'"
    and u: "0 \<le> ?u" "?u \<le> MAX_ATOMIC_VALUE"
    by (auto simp: inversion Let_def)
  from Cons.prems have fresh: "jset a ?u next = next @ [(a, ?u)]"
    by (simp add: jset_fresh)
  from Cons.prems have "\<forall>x \<in> set accounts. \<not> jhas (jset a ?u next) x" by auto
  with Cons.IH [OF rec] Cons.prems fresh u show ?case by simp
qed simp

lemma writeAll_map:
  "writeAll (map (\<lambda>a. (a, f a)) accounts) b = fold (\<lambda>k m. jset k (f k) m) accounts b"
  by (simp add: writeAll_def foldl_conv_fold fold_map o_def)

lemma settle_Inr:
  assumes "settle u accounts d b = Inr b'" and "distinct accounts"
  shows "b' = fold (\<lambda>k m. jset k (jget_or 0 b k + jget_or 0 d k) m) accounts b"
    and "(\<Sum>a \<leftarrow> accounts. jget_or 0 d a) = 0"
    and "a \<in> set accounts \<Longrightarrow>
      0 \<le> jget_or 0 b a + jget_or 0 d a \<and> jget_or 0 b a + jget_or 0 d a \<le> MAX_ATOMIC_VALUE"
proof -
  from assms obtain before nxt where before: "totalFor b accounts = Inr before"
    and nx: "nextBalances u b d accounts [] = Inr nxt"
    and same: "sum_list (jvalues nxt) = before" and b': "b' = writeAll nxt b"
    by (auto simp: settle_def inversion)
  from nextBalances_Inr [OF nx assms(2)]
  have form: "nxt = map (\<lambda>a. (a, jget_or 0 b a + jget_or 0 d a)) accounts"
    and range: "\<forall>a \<in> set accounts. 0 \<le> jget_or 0 b a + jget_or 0 d a \<and>
       jget_or 0 b a + jget_or 0 d a \<le> MAX_ATOMIC_VALUE" by simp_all
  show "b' = fold (\<lambda>k m. jset k (jget_or 0 b k + jget_or 0 d k) m) accounts b"
    using b' form by (simp add: writeAll_map)
  have "sum_list (jvalues nxt) = (\<Sum>a \<leftarrow> accounts. jget_or 0 b a) + (\<Sum>a \<leftarrow> accounts. jget_or 0 d a)"
    by (simp add: form jvalues_def o_def sum_list_addf)
  with same totalFor_Inr [OF before] show "(\<Sum>a \<leftarrow> accounts. jget_or 0 d a) = 0" by simp
  show "a \<in> set accounts \<Longrightarrow>
      0 \<le> jget_or 0 b a + jget_or 0 d a \<and> jget_or 0 b a + jget_or 0 d a \<le> MAX_ATOMIC_VALUE"
    using range by blast
qed

text \<open>Settling keeps the total of all balances and changes each account by its delta.\<close>

lemma settle_total:
  assumes "settle u accounts d b = Inr b'" and "distinct accounts"
  shows "jtotal b' = jtotal b"
proof -
  have "jtotal b' = jtotal b + (\<Sum>a \<leftarrow> accounts. jget_or 0 d a)"
    unfolding settle_Inr(1) [OF assms]
    by (rule amounts.total_fold_deltas) (simp_all add: assms(2))
  then show ?thesis by (simp add: settle_Inr(2) [OF assms])
qed

lemma settle_get:
  assumes "settle u accounts d b = Inr b'" and "distinct accounts"
  shows "jget_or 0 b' a = jget_or 0 b a + (if a \<in> set accounts then jget_or 0 d a else 0)"
  unfolding settle_Inr(1) [OF assms] using assms(2)
  by (simp add: amounts.get_fold_put)

lemma jwf_fold_jset: "jwf b \<Longrightarrow> jwf (fold (\<lambda>k m. jset k (f k) m) accounts b)"
  by (induction accounts arbitrary: b) auto

lemma settle_jwf:
  assumes "settle u accounts d b = Inr b'" and "distinct accounts" and "jwf b"
  shows "jwf b'"
  unfolding settle_Inr(1) [OF assms(1,2)] by (rule jwf_fold_jset) fact

text \<open>All balances between zero and the bound: what every transition keeps.\<close>

definition in_range :: "balances \<Rightarrow> bool" where
  "in_range b \<longleftrightarrow> (\<forall>a. 0 \<le> jget_or 0 b a \<and> jget_or 0 b a \<le> MAX_ATOMIC_VALUE)"

lemma settle_in_range:
  assumes "settle u accounts d b = Inr b'" and "distinct accounts" and "in_range b"
  shows "in_range b'"
  unfolding in_range_def
proof
  fix a
  show "0 \<le> jget_or 0 b' a \<and> jget_or 0 b' a \<le> MAX_ATOMIC_VALUE"
    using settle_Inr(3) [OF assms(1,2), of a] assms(3)
    by (auto simp: settle_get [OF assms(1,2)] in_range_def)
qed

lemma jget_or_addDelta: "jget_or 0 (addDelta a x d) k = jget_or 0 d k + (if k = a then x else 0)"
  by (simp add: addDelta_def)

lemma jtotal_addDelta: "jtotal (addDelta a x d) = jtotal d + x"
  by (simp add: addDelta_def jtotal_jset)

lemma jwf_addDelta: "jwf d \<Longrightarrow> jwf (addDelta a x d)"
  by (simp add: addDelta_def jwf_jset)

lemma keys_addDelta: "set (jkeys (addDelta a x d)) = insert a (set (jkeys d))"
  by (auto simp: addDelta_def simp flip: jhas_iff_keys)

lemmas delta_laws = jget_or_addDelta jtotal_addDelta jwf_addDelta keys_addDelta

text \<open>
  The conservation check never fires when the deltas add up to zero and are about the settled
  accounts: in the three transitions it is a check of the code against itself.
\<close>

lemma settle_not_failed:
  assumes "distinct accounts" and "jtotal d = 0" and "jwf d" and "set (jkeys d) \<subseteq> set accounts"
    and "u \<noteq> Conservation_failed"
  shows "settle u accounts d b \<noteq> Inl Conservation_failed"
proof
  have no_total: "foldM (\<lambda>total account. bind_r (currentBalance b account) (\<lambda>x. Inr (total + x))) t as
      \<noteq> Inl Conservation_failed" for t as
    by (induction as arbitrary: t) (auto simp: currentBalance_def bind_r_def split: sum.splits if_splits)
  have no_next: "nextBalances u b d as nx \<noteq> Inl Conservation_failed" for as nx
    using assms(5)
    by (induction as arbitrary: nx)
      (auto simp: currentBalance_def bind_r_def Let_def split: sum.splits if_splits)
  assume fail: "settle u accounts d b = Inl Conservation_failed"
  then obtain before nx where before: "totalFor b accounts = Inr before"
    and nx: "nextBalances u b d accounts [] = Inr nx"
    and bad: "sum_list (jvalues nx) \<noteq> before \<or> sum_list (jvalues d) \<noteq> 0"
    using no_total no_next
    by (auto simp: settle_def totalFor_def bind_r_def split: sum.splits if_splits)
  from nextBalances_Inr [OF nx assms(1)]
  have "nx = map (\<lambda>a. (a, jget_or 0 b a + jget_or 0 d a)) accounts" by simp
  then have "sum_list (jvalues nx) = (\<Sum>a \<leftarrow> accounts. jget_or 0 b a) + (\<Sum>a \<leftarrow> accounts. jget_or 0 d a)"
    by (simp add: jvalues_def o_def sum_list_addf)
  with totalFor_Inr [OF before] sum_jget_or_cover [OF assms(3,4,1)] assms(2) bad
  show False by (simp add: jtotal_jvalues)
qed

section \<open>What the transitions do\<close>

lemma ordinary_Inr_iff [inversion]:
  "applyOrdinaryTransferState amountV b feeV feeRecipientV nonceV ns recipientV senderV =
     Inr (b', ns', r) \<longleftrightarrow>
   (\<exists>sender recipient feeRecipient amount fee n.
      senderV = JStr sender \<and> is_address sender \<and> recipientV = JStr recipient \<and>
      is_address recipient \<and> feeRecipientV = JStr feeRecipient \<and> is_address feeRecipient \<and>
      atomic amountV F_amount = Inr amount \<and> atomic feeV F_fee = Inr fee \<and>
      nonce nonceV F_nonce = Inr n \<and> amount \<noteq> 0 \<and> MIN_TRANSFER_FEE \<le> fee \<and>
      n = jget_or 0 ns sender \<and>
      settle Insufficient_balance (uniq [sender, recipient, feeRecipient])
        (ordinaryDeltas sender recipient feeRecipient amount fee) b = Inr b' \<and>
      ns' = jset sender (n + 1) ns \<and>
      r = \<lparr>rc_amount = amount, rc_fee = fee, rc_next_nonce = n + 1\<rparr>)"
  unfolding applyOrdinaryTransferState_def
  by (simp only: bind_r_Inr_iff if_Inl_Inr_iff address_Inr_iff not_unexpected_iff sum.inject
      prod.inject)
    (auto simp: nonce_Inr_iff)

lemma ordinaryDeltas_get:
  "jget_or 0 (ordinaryDeltas s r f amount fee) a =
     (if a = s then - amount - fee else 0) + (if a = r then amount else 0) + (if a = f then fee else 0)"
  by (simp add: ordinaryDeltas_def delta_laws)

lemma sponsoredDeltas_get:
  "jget_or 0 (sponsoredDeltas s r p f amount fee) a =
     (if a = s then - amount else 0) + (if a = r then amount else 0) + (if a = p then - fee else 0) +
     (if a = f then fee else 0)"
  by (simp add: sponsoredDeltas_def delta_laws)

lemma creditDeltas_get:
  "jget_or 0 (creditDeltas s r amount) a =
     (if a = s then - amount else 0) + (if a = r then amount else 0)"
  by (simp add: creditDeltas_def delta_laws)

lemma sponsored_Inr_iff [inversion]:
  "applySponsoredTransferState amountV b feeV feePayerV feePayerNonceV feeRecipientV nonceV ns
     recipientV senderV = Inr (b', ns', r) \<longleftrightarrow>
   (\<exists>sender recipient feePayer feeRecipient amount fee n m.
      senderV = JStr sender \<and> is_address sender \<and> recipientV = JStr recipient \<and>
      is_address recipient \<and> feePayerV = JStr feePayer \<and> is_address feePayer \<and>
      feeRecipientV = JStr feeRecipient \<and> is_address feeRecipient \<and> feePayer \<noteq> sender \<and>
      atomic amountV F_amount = Inr amount \<and> atomic feeV F_fee = Inr fee \<and>
      nonce nonceV F_nonce = Inr n \<and> nonce feePayerNonceV F_fee_payer_nonce = Inr m \<and>
      amount \<noteq> 0 \<and> MIN_TRANSFER_FEE \<le> fee \<and> n = jget_or 0 ns sender \<and> m = jget_or 0 ns feePayer \<and>
      currentBalance b sender = Inr (jget_or 0 b sender) \<and> amount \<le> jget_or 0 b sender \<and>
      currentBalance b feePayer = Inr (jget_or 0 b feePayer) \<and> fee \<le> jget_or 0 b feePayer \<and>
      settle Balance_underflow (uniq [sender, recipient, feePayer, feeRecipient])
        (sponsoredDeltas sender recipient feePayer feeRecipient amount fee) b = Inr b' \<and>
      ns' = jset feePayer (m + 1) (jset sender (n + 1) ns) \<and>
      r = \<lparr>sr_amount = amount, sr_fee = fee, sr_next_fee_payer_nonce = m + 1, sr_next_nonce = n + 1\<rparr>)"
  unfolding applySponsoredTransferState_def
  by (simp only: bind_r_Inr_iff if_Inl_Inr_iff address_Inr_iff not_unexpected_iff sum.inject
      prod.inject currentBalance_Inr_iff)
    (auto simp: nonce_Inr_iff not_less)



lemma credit_Inr:
  assumes "applyCreditTransferState amountV s ownerV feeV payerV payerNonceV height nonceV
     recipientV senderV = Inr (s', r)"
  shows "\<exists>sender recipient allowance.
    senderV = JStr sender \<and> recipientV = JStr recipient \<and>
    atomic amountV F_amount = Inr (cr_amount r) \<and> cr_amount r \<noteq> 0 \<and> atomic feeV F_fee = Inr 0 \<and>
    nonce nonceV F_nonce = Inr (jget_or 0 (ct_nonces s) sender) \<and>
    transferCreditEpoch height = Inr (cr_epoch r) \<and>
    transferCreditAllowance (jget_or 0 (ct_stakes s) (cr_owner r)) = Inr allowance \<and>
    0 \<le> creditSpent (ct_usage s) (cr_owner r) (cr_epoch r) \<and>
    creditSpent (ct_usage s) (cr_owner r) (cr_epoch r) < allowance \<and>
    settle Balance_underflow (uniq [sender, recipient])
      (creditDeltas sender recipient (cr_amount r)) (ct_balances s) = Inr (ct_balances s') \<and>
    cr_amount r \<le> jget_or 0 (ct_balances s) sender \<and>
    ct_usage s' = jset (cr_owner r) \<lparr>cu_epoch = cr_epoch r,
      cu_spent = creditSpent (ct_usage s) (cr_owner r) (cr_epoch r) + 1\<rparr> (ct_usage s) \<and>
    ct_stakes s' = ct_stakes s \<and>
    (if payerV \<noteq> JUndef then payerV = JStr (cr_owner r) \<and> cr_owner r \<noteq> sender
     else if ownerV \<noteq> JUndef then ownerV = JStr (cr_owner r) \<and> cr_owner r \<noteq> sender
     else cr_owner r = sender) \<and>
    (if payerV = JUndef \<and> ownerV \<noteq> JUndef
     then \<exists>key d. spendDelegation (ct_delegations s) (cr_owner r) sender (cr_epoch r) = Inr (key, d) \<and>
            ct_delegations s' = jset key d (ct_delegations s)
     else ct_delegations s' = ct_delegations s) \<and>
    ct_nonces s' =
      (let own = jset sender (jget_or 0 (ct_nonces s) sender + 1) (ct_nonces s) in
       if payerV = JUndef then own
       else jset (cr_owner r) (jget_or 0 (ct_nonces s) (cr_owner r) + 1) own)"
  using assms unfolding applyCreditTransferState_def Let_def
  apply (simp only: bind_r_Inr_iff if_Inl_Inr_iff address_Inr_iff not_unexpected_iff sum.inject
      prod.inject currentBalance_Inr_iff)
  apply (cases "payerV = JUndef"; cases "payerNonceV = JUndef"; cases "ownerV = JUndef")
         apply (simp_all add: inversion not_le not_less)
    apply (clarsimp simp: inversion)+
   done


lemma totalFor_ok: "in_range b \<Longrightarrow> \<exists>t. totalFor b accounts = Inr t"
proof -
  assume "in_range b"
  then have "\<exists>r. foldM (\<lambda>total account. bind_r (currentBalance b account) (\<lambda>x. Inr (total + x))) t
      accounts = Inr r" for t
    by (induction accounts arbitrary: t) (auto simp: in_range_def currentBalance_def not_less not_le)
  then show ?thesis by (simp add: totalFor_def)
qed

lemma nextBalances_ok:
  assumes "in_range b" and "\<forall>a \<in> set accounts. 0 \<le> jget_or 0 b a + jget_or 0 d a \<and>
       jget_or 0 b a + jget_or 0 d a \<le> MAX_ATOMIC_VALUE"
  shows "\<exists>n. nextBalances u b d accounts nx = Inr n"
  using assms(2)
proof (induction accounts arbitrary: nx)
  case (Cons a accounts)
  moreover have "currentBalance b a = Inr (jget_or 0 b a)"
    using assms(1) by (simp add: in_range_def currentBalance_Inr_iff)
  ultimately show ?case by (simp add: Let_def not_less not_le)
qed simp

text \<open>Settling succeeds exactly when it leaves every account it touches within range.\<close>

lemma settle_ok_iff:
  assumes "distinct accounts" and "in_range b" and "jtotal d = 0" and "jwf d"
    and "set (jkeys d) \<subseteq> set accounts" and "u \<noteq> Conservation_failed"
  shows "(\<exists>b'. settle u accounts d b = Inr b') \<longleftrightarrow>
    (\<forall>a \<in> set accounts. 0 \<le> jget_or 0 b a + jget_or 0 d a \<and>
       jget_or 0 b a + jget_or 0 d a \<le> MAX_ATOMIC_VALUE)" (is "_ \<longleftrightarrow> ?range")
proof
  assume "\<exists>b'. settle u accounts d b = Inr b'"
  then obtain b' where "settle u accounts d b = Inr b'" ..
  from settle_Inr(3) [OF this assms(1)] show ?range by blast
next
  assume ?range
  then obtain before nx where "totalFor b accounts = Inr before"
    and "nextBalances u b d accounts [] = Inr nx"
    using totalFor_ok [OF assms(2)] nextBalances_ok [OF assms(2)] by metis
  moreover have "settle u accounts d b \<noteq> Inl Conservation_failed"
    by (rule settle_not_failed) (use assms in auto)
  ultimately show "\<exists>b'. settle u accounts d b = Inr b'"
    by (auto simp: settle_def split: if_splits)
qed

lemma ordinaryDeltas_laws:
  "jtotal (ordinaryDeltas s r f amount fee) = 0" "jwf (ordinaryDeltas s r f amount fee)"
  "set (jkeys (ordinaryDeltas s r f amount fee)) = {s, r, f}"
  by (auto simp: ordinaryDeltas_def delta_laws) (auto simp: jkeys_def)

lemma sponsoredDeltas_laws:
  "jtotal (sponsoredDeltas s r p f amount fee) = 0" "jwf (sponsoredDeltas s r p f amount fee)"
  "set (jkeys (sponsoredDeltas s r p f amount fee)) = {s, r, p, f}"
  by (auto simp: sponsoredDeltas_def delta_laws) (auto simp: jkeys_def)

lemma creditDeltas_laws:
  "jtotal (creditDeltas s r amount) = 0" "jwf (creditDeltas s r amount)"
  "set (jkeys (creditDeltas s r amount)) = {s, r}"
  by (auto simp: creditDeltas_def delta_laws) (auto simp: jkeys_def)

lemma unexpected_self [simp]:
  "unexpected ns a (jget_or 0 ns a) \<longleftrightarrow> \<not> (0 \<le> jget_or 0 ns a \<and> jget_or 0 ns a \<le> MAX_SAFE_INTEGER)"
  by (auto simp: unexpected_def Let_def is_safe_int_def)

section \<open>Properties\<close>

text \<open>
  C24: a successful ordinary transfer takes the transaction's amount and fee from the sender, adds
  the amount to the recipient and the fee to the fee recipient (the three may coincide), changes no
  other balance, keeps the total of all balances and the range of each, was signed for the sender's
  current nonce and advances only that nonce, by one; its amount is positive and its fee at
  least the protocol minimum. The receipt repeats the amount, the fee and the next nonce.
\<close>

theorem ordinary_transfer_effect:
  assumes "applyOrdinaryTransferState amountV b feeV feeRecipientV nonceV ns recipientV senderV =
     Inr (b', ns', r)"
  shows "\<exists>sender recipient feeRecipient amount fee.
    senderV = JStr sender \<and> recipientV = JStr recipient \<and> feeRecipientV = JStr feeRecipient \<and>
    atomic amountV F_amount = Inr amount \<and> atomic feeV F_fee = Inr fee \<and>
    r = \<lparr>rc_amount = amount, rc_fee = fee, rc_next_nonce = jget_or 0 ns sender + 1\<rparr> \<and>
    0 < amount \<and> MIN_TRANSFER_FEE \<le> fee \<and>
    (\<forall>a. jget_or 0 b' a = jget_or 0 b a
       + (if a = sender then - amount - fee else 0)
       + (if a = recipient then amount else 0)
       + (if a = feeRecipient then fee else 0)) \<and>
    jtotal b' = jtotal b \<and> (in_range b \<longrightarrow> in_range b') \<and>
    nonce nonceV F_nonce = Inr (jget_or 0 ns sender) \<and>
    (\<forall>a. jget_or 0 ns' a = jget_or 0 ns a + (if a = sender then 1 else 0))"
proof -
  from assms obtain s p f amount fee where
    v: "senderV = JStr s" "recipientV = JStr p" "feeRecipientV = JStr f"
    and amt: "atomic amountV F_amount = Inr amount" "amount \<noteq> 0"
    and fee: "atomic feeV F_fee = Inr fee" "MIN_TRANSFER_FEE \<le> fee"
    and n: "nonce nonceV F_nonce = Inr (jget_or 0 ns s)"
    and settled: "settle Insufficient_balance (uniq [s, p, f]) (ordinaryDeltas s p f amount fee) b = Inr b'"
    and ns': "ns' = jset s (jget_or 0 ns s + 1) ns"
    and r: "r = \<lparr>rc_amount = amount, rc_fee = fee, rc_next_nonce = jget_or 0 ns s + 1\<rparr>"
    unfolding ordinary_Inr_iff by auto
  have "0 < amount" using atomic_range [OF amt(1)] amt(2) by simp
  moreover have "jget_or 0 b' a = jget_or 0 b a + (if a = s then - amount - fee else 0)
       + (if a = p then amount else 0) + (if a = f then fee else 0)" for a
    by (simp add: settle_get [OF settled] ordinaryDeltas_get)
  ultimately show ?thesis
    using v amt fee n ns' r settle_total [OF settled] settle_in_range [OF settled] by simp
qed

text \<open>
  C30: over balances in range, an ordinary transfer with canonical addresses, a positive amount,
  a sufficient fee and the sender's current nonce is accepted exactly when it leaves the three
  accounts within range: the conservation check of the code rejects nothing by itself.
\<close>

theorem ordinary_transfer_accepts_iff:
  assumes "in_range b" and "is_address s" "is_address p" "is_address f"
    and "atomic amountV F_amount = Inr amount" "amount \<noteq> 0"
    and "atomic feeV F_fee = Inr fee" "MIN_TRANSFER_FEE \<le> fee"
    and "nonce nonceV F_nonce = Inr (jget_or 0 ns s)"
  shows "(\<exists>res. applyOrdinaryTransferState amountV b feeV (JStr f) nonceV ns (JStr p) (JStr s) =
       Inr res) \<longleftrightarrow>
    (\<forall>a \<in> {s, p, f}. 0 \<le> jget_or 0 b a + jget_or 0 (ordinaryDeltas s p f amount fee) a \<and>
       jget_or 0 b a + jget_or 0 (ordinaryDeltas s p f amount fee) a \<le> MAX_ATOMIC_VALUE)"
proof -
  have "(\<exists>res. applyOrdinaryTransferState amountV b feeV (JStr f) nonceV ns (JStr p) (JStr s) = Inr res)
    \<longleftrightarrow> (\<exists>b'. settle Insufficient_balance (uniq [s, p, f]) (ordinaryDeltas s p f amount fee) b = Inr b')"
    using assms(2-) by (auto simp: ordinary_Inr_iff)
  also have "\<dots> \<longleftrightarrow> (\<forall>a \<in> set (uniq [s, p, f]).
       0 \<le> jget_or 0 b a + jget_or 0 (ordinaryDeltas s p f amount fee) a \<and>
       jget_or 0 b a + jget_or 0 (ordinaryDeltas s p f amount fee) a \<le> MAX_ATOMIC_VALUE)"
    by (rule settle_ok_iff) (simp_all add: assms(1) ordinaryDeltas_laws)
  finally show ?thesis by simp
qed

text \<open>
  C16: a successful sponsored transfer takes only the transaction's amount from the sender and its
  fee from a distinct fee payer, gives them to the recipient and the fee recipient, keeps the total
  of all balances and the range of each, and advances exactly the two signers' nonces, each by one.
\<close>

theorem sponsored_transfer_effect:
  assumes "applySponsoredTransferState amountV b feeV payerV payerNonceV feeRecipientV nonceV ns
     recipientV senderV = Inr (b', ns', r)"
  shows "\<exists>sender recipient payer feeRecipient amount fee.
    senderV = JStr sender \<and> recipientV = JStr recipient \<and> payerV = JStr payer \<and>
    feeRecipientV = JStr feeRecipient \<and> payer \<noteq> sender \<and>
    atomic amountV F_amount = Inr amount \<and> atomic feeV F_fee = Inr fee \<and>
    r = \<lparr>sr_amount = amount, sr_fee = fee, sr_next_fee_payer_nonce = jget_or 0 ns payer + 1,
      sr_next_nonce = jget_or 0 ns sender + 1\<rparr> \<and>
    0 < amount \<and> MIN_TRANSFER_FEE \<le> fee \<and>
    amount \<le> jget_or 0 b sender \<and> fee \<le> jget_or 0 b payer \<and>
    (\<forall>a. jget_or 0 b' a = jget_or 0 b a
       + (if a = sender then - amount else 0) + (if a = recipient then amount else 0)
       + (if a = payer then - fee else 0) + (if a = feeRecipient then fee else 0)) \<and>
    jtotal b' = jtotal b \<and> (in_range b \<longrightarrow> in_range b') \<and>
    nonce nonceV F_nonce = Inr (jget_or 0 ns sender) \<and>
    nonce payerNonceV F_fee_payer_nonce = Inr (jget_or 0 ns payer) \<and>
    (\<forall>a. jget_or 0 ns' a = jget_or 0 ns a + (if a = sender \<or> a = payer then 1 else 0))"
proof -
  from assms obtain s p y f amount fee where
    v: "senderV = JStr s" "recipientV = JStr p" "payerV = JStr y" "feeRecipientV = JStr f" "y \<noteq> s"
    and amt: "atomic amountV F_amount = Inr amount" "amount \<noteq> 0"
    and fee: "atomic feeV F_fee = Inr fee" "MIN_TRANSFER_FEE \<le> fee"
    and n: "nonce nonceV F_nonce = Inr (jget_or 0 ns s)"
      "nonce payerNonceV F_fee_payer_nonce = Inr (jget_or 0 ns y)"
    and funds: "amount \<le> jget_or 0 b s" "fee \<le> jget_or 0 b y"
    and settled: "settle Balance_underflow (uniq [s, p, y, f]) (sponsoredDeltas s p y f amount fee) b = Inr b'"
    and ns': "ns' = jset y (jget_or 0 ns y + 1) (jset s (jget_or 0 ns s + 1) ns)"
    and r: "r = \<lparr>sr_amount = amount, sr_fee = fee, sr_next_fee_payer_nonce = jget_or 0 ns y + 1,
      sr_next_nonce = jget_or 0 ns s + 1\<rparr>"
    unfolding sponsored_Inr_iff by auto
  have "0 < amount" using atomic_range [OF amt(1)] amt(2) by simp
  moreover have "jget_or 0 b' a = jget_or 0 b a + (if a = s then - amount else 0)
       + (if a = p then amount else 0) + (if a = y then - fee else 0) + (if a = f then fee else 0)" for a
    by (simp add: settle_get [OF settled] sponsoredDeltas_get)
  ultimately show ?thesis
    using v amt fee n ns' r funds settle_total [OF settled] settle_in_range [OF settled] by simp
qed

text \<open>What a delegation has been charged in an epoch: an older count is void.\<close>

definition delegationSpent :: "credit_delegation \<Rightarrow> int \<Rightarrow> int" where
  "delegationSpent d epoch = (if cd_epoch d = epoch then cd_spent d else 0)"

lemma spendDelegation_Inr:
  assumes "spendDelegation ds owner sender epoch = Inr (key, d')"
  obtains d where "key = creditDelegationKey owner sender" and "jget ds key = Some d"
    and "0 \<le> delegationSpent d epoch" and "delegationSpent d epoch < cd_limit d"
    and "d' = d\<lparr>cd_epoch := epoch, cd_spent := delegationSpent d epoch + 1\<rparr>"
proof (cases "jget ds (creditDelegationKey owner sender)")
  case None
  with assms show thesis by (simp add: spendDelegation_def)
next
  case (Some d)
  with assms show thesis
    by (intro that [of d]) (auto simp: spendDelegation_def delegationSpent_def Let_def split: if_split_asm)
qed

text \<open>
  C17: a successful credit-paid transfer moves the transaction's positive amount from sender to
  recipient and no fee, keeps the total of all balances and the range of each; it uses exactly one
  unit of the owner's allowance of the epoch, which its stake covers, and of no other owner's; the
  owner is a fee payer or a named credit owner other than the sender, or else the sender; of a
  named owner it also spends one more unit of the recorded owner-to-sender delegation, whose limit
  was not yet reached in the epoch and stays as it is, and nothing else of the delegations changes.
  It advances the nonces of the sender and of the fee payer, each by one, and leaves every stake.
\<close>

theorem credit_transfer_quota:
  assumes "applyCreditTransferState amountV s ownerV feeV payerV payerNonceV height nonceV
     recipientV senderV = Inr (s', r)"
  shows "\<exists>sender recipient amount allowance.
    senderV = JStr sender \<and> recipientV = JStr recipient \<and>
    atomic amountV F_amount = Inr amount \<and> 0 < amount \<and> cr_amount r = amount \<and> atomic feeV F_fee = Inr 0 \<and>
    (\<forall>a. jget_or 0 (ct_balances s') a = jget_or 0 (ct_balances s) a
       + (if a = sender then - amount else 0) + (if a = recipient then amount else 0)) \<and>
    jtotal (ct_balances s') = jtotal (ct_balances s) \<and>
    (in_range (ct_balances s) \<longrightarrow> in_range (ct_balances s')) \<and>
    transferCreditEpoch height = Inr (cr_epoch r) \<and>
    transferCreditAllowance (jget_or 0 (ct_stakes s) (cr_owner r)) = Inr allowance \<and>
    creditSpent (ct_usage s') (cr_owner r) (cr_epoch r) =
      creditSpent (ct_usage s) (cr_owner r) (cr_epoch r) + 1 \<and>
    creditSpent (ct_usage s') (cr_owner r) (cr_epoch r) \<le> allowance \<and>
    (\<forall>o'. o' \<noteq> cr_owner r \<longrightarrow> jget (ct_usage s') o' = jget (ct_usage s) o') \<and>
    (if payerV \<noteq> JUndef then payerV = JStr (cr_owner r) \<and> cr_owner r \<noteq> sender
     else if ownerV \<noteq> JUndef then ownerV = JStr (cr_owner r) \<and> cr_owner r \<noteq> sender
     else cr_owner r = sender) \<and>
    (if payerV = JUndef \<and> ownerV \<noteq> JUndef
     then \<exists>d. jget (ct_delegations s) (creditDelegationKey (cr_owner r) sender) = Some d \<and>
            0 \<le> delegationSpent d (cr_epoch r) \<and> delegationSpent d (cr_epoch r) < cd_limit d \<and>
            jget (ct_delegations s') (creditDelegationKey (cr_owner r) sender) =
              Some (d\<lparr>cd_epoch := cr_epoch r, cd_spent := delegationSpent d (cr_epoch r) + 1\<rparr>) \<and>
            (\<forall>k. k \<noteq> creditDelegationKey (cr_owner r) sender \<longrightarrow>
               jget (ct_delegations s') k = jget (ct_delegations s) k)
     else ct_delegations s' = ct_delegations s) \<and>
    nonce nonceV F_nonce = Inr (jget_or 0 (ct_nonces s) sender) \<and>
    (\<forall>a. jget_or 0 (ct_nonces s') a = jget_or 0 (ct_nonces s) a
       + (if a = sender \<or> (payerV \<noteq> JUndef \<and> a = cr_owner r) then 1 else 0)) \<and>
    ct_stakes s' = ct_stakes s"
proof -
  from credit_Inr [OF assms] obtain sd p allowance where
    v: "senderV = JStr sd" "recipientV = JStr p" "atomic feeV F_fee = Inr 0"
    and amt: "atomic amountV F_amount = Inr (cr_amount r)" "cr_amount r \<noteq> 0"
    and ep: "transferCreditEpoch height = Inr (cr_epoch r)"
    and al: "transferCreditAllowance (jget_or 0 (ct_stakes s) (cr_owner r)) = Inr allowance"
    and lt: "creditSpent (ct_usage s) (cr_owner r) (cr_epoch r) < allowance"
    and settled: "settle Balance_underflow (uniq [sd, p]) (creditDeltas sd p (cr_amount r))
        (ct_balances s) = Inr (ct_balances s')"
    and us: "ct_usage s' = jset (cr_owner r) \<lparr>cu_epoch = cr_epoch r,
      cu_spent = creditSpent (ct_usage s) (cr_owner r) (cr_epoch r) + 1\<rparr> (ct_usage s)"
    and who: "if payerV \<noteq> JUndef then payerV = JStr (cr_owner r) \<and> cr_owner r \<noteq> sd
     else if ownerV \<noteq> JUndef then ownerV = JStr (cr_owner r) \<and> cr_owner r \<noteq> sd
     else cr_owner r = sd"
    and del: "if payerV = JUndef \<and> ownerV \<noteq> JUndef
     then \<exists>key d. spendDelegation (ct_delegations s) (cr_owner r) sd (cr_epoch r) = Inr (key, d) \<and>
            ct_delegations s' = jset key d (ct_delegations s)
     else ct_delegations s' = ct_delegations s"
    and n: "nonce nonceV F_nonce = Inr (jget_or 0 (ct_nonces s) sd)"
    and ns: "ct_nonces s' = (let own = jset sd (jget_or 0 (ct_nonces s) sd + 1) (ct_nonces s) in
       if payerV = JUndef then own else jset (cr_owner r) (jget_or 0 (ct_nonces s) (cr_owner r) + 1) own)"
    and st: "ct_stakes s' = ct_stakes s"
    by (elim exE conjE) (rule that; assumption)
  have pos: "0 < cr_amount r" using atomic_range [OF amt(1)] amt(2) by simp
  have eff: "jget_or 0 (ct_balances s') a = jget_or 0 (ct_balances s) a
       + (if a = sd then - cr_amount r else 0) + (if a = p then cr_amount r else 0)" for a
    by (simp add: settle_get [OF settled] creditDeltas_get)
  have spent: "creditSpent (ct_usage s') (cr_owner r) (cr_epoch r) =
      creditSpent (ct_usage s) (cr_owner r) (cr_epoch r) + 1"
    by (simp add: us creditSpent_def)
  let ?key = "creditDelegationKey (cr_owner r) sd"
  have del': "if payerV = JUndef \<and> ownerV \<noteq> JUndef
     then \<exists>d. jget (ct_delegations s) ?key = Some d \<and>
            0 \<le> delegationSpent d (cr_epoch r) \<and> delegationSpent d (cr_epoch r) < cd_limit d \<and>
            jget (ct_delegations s') ?key = Some (d\<lparr>cd_epoch := cr_epoch r, cd_spent := delegationSpent d (cr_epoch r) + 1\<rparr>) \<and>
            (\<forall>k. k \<noteq> ?key \<longrightarrow> jget (ct_delegations s') k = jget (ct_delegations s) k)
     else ct_delegations s' = ct_delegations s"
    using del by (auto elim!: spendDelegation_Inr split: if_splits)
  have nonces: "jget_or 0 (ct_nonces s') a = jget_or 0 (ct_nonces s) a
      + (if a = sd \<or> (payerV \<noteq> JUndef \<and> a = cr_owner r) then 1 else 0)" for a
    using who by (auto simp: ns Let_def split: if_splits)
  have tot: "jtotal (ct_balances s') = jtotal (ct_balances s)"
    and rng: "in_range (ct_balances s) \<longrightarrow> in_range (ct_balances s')"
    using settle_total [OF settled] settle_in_range [OF settled] by simp_all
  have others: "\<forall>o'. o' \<noteq> cr_owner r \<longrightarrow> jget (ct_usage s') o' = jget (ct_usage s) o'"
    by (simp add: us)
  have le: "creditSpent (ct_usage s') (cr_owner r) (cr_epoch r) \<le> allowance"
    using spent lt by simp
  show ?thesis
    by (intro exI [of _ sd] exI [of _ p] exI [of _ "cr_amount r"] exI [of _ allowance] conjI)
      (fact v amt(1) pos refl eff [THEN allI] tot rng ep al spent le others who del' n nonces [THEN allI] st
        | rule allI, rule eff nonces)+
qed

lemma checkApproval_Inr:
  "checkApproval seen a = Inr seen' \<Longrightarrow>
   \<exists>obj k. plain_object a = Some obj \<and> fld obj ''publicKey'' = JStr k \<and> k \<notin> set seen \<and> seen' = seen @ [k]"
  by (cases "plain_object a"; cases "fld (the (plain_object a)) ''publicKey''";
      cases "fld (the (plain_object a)) ''signature''")
    (auto simp: checkApproval_def split: if_splits)

lemma checkApprovals_Inr:
  "foldM checkApproval seen as = Inr ks \<Longrightarrow> distinct seen \<Longrightarrow>
   distinct ks \<and> (\<forall>k \<in> set ks - set seen. \<exists>a \<in> set as. \<exists>obj. plain_object a = Some obj \<and>
      fld obj ''publicKey'' = JStr k)"
proof (induction as arbitrary: seen)
  case (Cons a as)
  then obtain obj k where k: "plain_object a = Some obj" "fld obj ''publicKey'' = JStr k"
      "k \<notin> set seen" and rest: "foldM checkApproval (seen @ [k]) as = Inr ks"
    by (auto simp: bind_r_Inr_iff dest!: checkApproval_Inr)
  from Cons.IH [OF rest] Cons.prems(2) k show ?case by fastforce
qed simp

lemma checkSigners_Inr:
  "foldM (checkSigner keys) seen ks = Inr ks' \<Longrightarrow> distinct seen \<Longrightarrow> set seen \<subseteq> set keys \<Longrightarrow>
   distinct ks' \<and> set ks' \<subseteq> set keys \<and> ks' = seen @ ks"
proof (induction ks arbitrary: seen)
  case (Cons k ks)
  then have k: "k \<in> set keys" "k \<notin> set seen"
    by (auto simp: checkSigner_def split: if_splits)
  with Cons.prems(1) have rest: "foldM (checkSigner keys) (seen @ [k]) ks = Inr ks'"
    by (simp add: checkSigner_def [of keys seen k])
  from Cons.IH [OF rest] Cons.prems(2,3) k have "distinct ks' \<and> set ks' \<subseteq> set keys \<and> ks' = (seen @ [k]) @ ks"
    by auto
  then show ?case by (simp only: append.assoc append_Cons append_Nil) blast
qed simp

lemma multisigDescriptor_Inr:
  "multisigDescriptor ms t = Inr (keys, n) \<Longrightarrow>
   \<exists>ks. ms = JArr (map JStr ks) \<and> distinct ks \<and> keys = sort ks \<and> safe_int t = Some n \<and> 2 \<le> n \<and>
     n \<le> int (length ks) \<and> length ks \<le> MAX_MULTISIG_MEMBERS"
  by (auto simp: multisigDescriptor_def str_array_Some_iff length_uniq_iff
      split: jsval.splits option.splits if_splits)

lemma str_array_map [simp]: "str_array (map JStr ks) = Some ks"
  by (simp add: str_array_Some_iff)

lemma multisigDescriptor_idem:
  assumes "multisigDescriptor ms t = Inr (keys, n)"
  shows "multisigDescriptor (JArr (map JStr keys)) (JNum n) = Inr (keys, n)"
proof -
  from assms obtain ks where ks: "ms = JArr (map JStr ks)" "safe_int t = Some n" "keys = sort ks"
    "\<not> length ks < 2" "\<not> length ks > MAX_MULTISIG_MEMBERS" "\<not> n < 2" "\<not> n > int (length ks)"
    "\<not> list_ex (\<lambda>k. length k > 4000) ks" "distinct ks"
    by (cases ms; cases "safe_int t")
      (auto simp: multisigDescriptor_def str_array_Some_iff length_uniq_iff
        split: option.splits if_splits)
  have "safe_int (JNum n) = Some n" using safe_int_bound [OF ks(2)] by simp
  moreover have "\<not> list_ex (\<lambda>k. length k > 4000) keys"
    using ks(3,8) by (simp add: list_ex_iff)
  ultimately show ?thesis
    using ks length_uniq_iff [of "sort ks"]
    by (simp add: multisigDescriptor_def sorted_sort_id del: safe_int.simps)
qed

text \<open>The signers an accepted envelope shows: distinct, and the digest is that of the transaction.\<close>

lemma envelope_Inr:
  assumes "validateTransferAuthorizationEnvelope cr envelope alg tx = Inr signers"
  shows "distinct signers \<and> (\<exists>env approvals digest. plain_object envelope = Some env \<and>
    fld env ''approvals'' = JArr approvals \<and> fld env ''algorithm'' = JStr alg \<and>
    fld env ''transactionDigest'' = JStr digest \<and> transferAuthorizationDigest cr tx = Inr digest \<and>
    (\<forall>k \<in> set signers. \<exists>a \<in> set approvals. \<exists>obj. plain_object a = Some obj \<and>
      fld obj ''publicKey'' = JStr k))"
  using assms
  by (auto simp: validateTransferAuthorizationEnvelope_def bind_r_Inr_iff
      split: option.splits if_splits jsval.splits dest: checkApprovals_Inr)

text \<open>
  C14: a multisig transfer is applied only when the envelope's digest is the hash of the very
  transaction, its approvals show distinct keys, all of them members of the descriptor, at least
  the threshold (two or more) of them, and the sender is the address derived from the
  descriptor; the state change is then the ordinary one.
\<close>

theorem multisig_transfer_authorized:
  assumes "applyAuthorizedMultisigTransferState cr envelope b feeRecipient ns tx = Inr res"
  shows "\<exists>signers members t h digest.
    fld tx ''memberPublicKeys'' = JArr (map JStr members) \<and> distinct members \<and>
    safe_int (fld tx ''threshold'') = Some t \<and> 2 \<le> t \<and> t \<le> int (length members) \<and>
    distinct signers \<and> set signers \<subseteq> set members \<and> t \<le> int (length signers) \<and>
    validateTransferAuthorizationEnvelope cr envelope MULTISIG_ALGORITHM (JObj tx) = Inr signers \<and>
    hashObject cr (descriptorObject (sort members, t)) ''MULTISIG_ADDRESS'' = Inr h \<and>
    fld tx ''sender'' = JStr (''nir1'' @ h) \<and>
    transferAuthorizationDigest cr (JObj tx) = Inr digest \<and>
    (\<exists>env. envelope = JObj env \<and> fld env ''transactionDigest'' = JStr digest) \<and>
    applyOrdinaryTransferState (fld tx ''amount'') b (fld tx ''fee'') feeRecipient
      (fld tx ''nonce'') ns (fld tx ''recipient'') (fld tx ''sender'') = Inr res"
proof -
  from assms obtain signers keys t addr signers' where
    env: "validateTransferAuthorizationEnvelope cr envelope MULTISIG_ALGORITHM (JObj tx) = Inr signers"
    and desc: "multisigDescriptor (fld tx ''memberPublicKeys'') (fld tx ''threshold'') = Inr (keys, t)"
    and addr: "multisigStateAddress cr (JArr (map JStr keys)) (JNum t) = Inr addr"
      "fld tx ''sender'' = JStr addr"
    and sig: "foldM (checkSigner keys) [] signers = Inr signers'" "t \<le> int (length signers')"
    and app: "applyOrdinaryTransferState (fld tx ''amount'') b (fld tx ''fee'') feeRecipient
      (fld tx ''nonce'') ns (fld tx ''recipient'') (fld tx ''sender'') = Inr res"
    unfolding applyAuthorizedMultisigTransferState_def applyMultisigTransferState_def
    by (auto simp: bind_r_Inr_iff if_Inl_Inr_iff split_beta not_less)
  from multisigDescriptor_Inr [OF desc] obtain members where m:
    "fld tx ''memberPublicKeys'' = JArr (map JStr members)" "distinct members" "keys = sort members"
    "safe_int (fld tx ''threshold'') = Some t" "2 \<le> t" "t \<le> int (length members)" by blast
  from addr(1) obtain h where h: "addr = ''nir1'' @ h"
    "hashObject cr (descriptorObject (sort members, t)) ''MULTISIG_ADDRESS'' = Inr h"
    unfolding multisigStateAddress_def multisigDescriptor_idem [OF desc] bind_r_Inr_iff
      map_err_Inr_iff by (auto simp: m(3))
  from checkSigners_Inr [OF sig(1)] m(3) have "distinct signers" "set signers \<subseteq> set members"
    "signers' = signers" by auto
  with sig(2) have s: "distinct signers" "set signers \<subseteq> set members" "t \<le> int (length signers)"
    by simp_all
  from envelope_Inr [OF env] obtain ev digest where d: "envelope = JObj ev"
    "fld ev ''transactionDigest'' = JStr digest" "transferAuthorizationDigest cr (JObj tx) = Inr digest"
    by (cases envelope) auto
  have ev: "\<exists>env. envelope = JObj env \<and> fld env ''transactionDigest'' = JStr digest"
    using d by blast
  have snd: "fld tx ''sender'' = JStr (''nir1'' @ h)" using addr(2) h(1) by simp
  show ?thesis
    by (intro exI [of _ signers] exI [of _ members] exI [of _ t] exI [of _ h] exI [of _ digest] conjI)
      (rule m s env h d(3) app ev snd)+
qed



section \<open>Witnesses\<close>

text \<open>Addresses and a ledger to run the transitions on.\<close>

definition demo_address :: "char \<Rightarrow> string" where
  "demo_address c = ''nir1'' @ replicate 64 c"

definition demo_balances :: balances where
  "demo_balances = [(demo_address CHR ''a'', 5000000000), (demo_address CHR ''c'', 1000000000)]"

lemma demo_address_ok: "is_address (demo_address CHR ''a'')" "is_address (demo_address CHR ''b'')"
  "is_address (demo_address CHR ''c'')"
  by code_simp+

theorem ordinary_transfer_effect_witness:
  "\<exists>b' ns' r. applyOrdinaryTransferState (JStr ''1000'') demo_balances (JStr ''100000'')
     (JStr (demo_address CHR ''c'')) (JNum 0) [] (JStr (demo_address CHR ''b''))
     (JStr (demo_address CHR ''a'')) = Inr (b', ns', r) \<and> jtotal b' = 6000000000 \<and>
     jget_or 0 b' (demo_address CHR ''b'') = 1000"
proof -
  let ?run = "applyOrdinaryTransferState (JStr ''1000'') demo_balances (JStr ''100000'')
     (JStr (demo_address CHR ''c'')) (JNum 0) [] (JStr (demo_address CHR ''b''))
     (JStr (demo_address CHR ''a''))"
  have "(case ?run of Inr (b, ns, r) \<Rightarrow> rc_amount r = 1000 | _ \<Rightarrow> False)" by code_simp
  then obtain b' ns' r where run: "?run = Inr (b', ns', r)" and am: "rc_amount r = 1000"
    by (auto split: sum.splits)
  have "jget_or 0 demo_balances (demo_address CHR ''b'') = 0"
    "demo_address CHR ''b'' \<noteq> demo_address CHR ''a''"
    "demo_address CHR ''b'' \<noteq> demo_address CHR ''c''" "jtotal demo_balances = 6000000000"
    by code_simp+
  with ordinary_transfer_effect [OF run] run am show ?thesis by auto
qed

theorem sponsored_transfer_effect_witness:
  "\<exists>b' ns' r. applySponsoredTransferState (JStr ''1000'') demo_balances (JStr ''100000'')
     (JStr (demo_address CHR ''c'')) (JNum 0) (JStr (demo_address CHR ''b'')) (JNum 0) []
     (JStr (demo_address CHR ''b'')) (JStr (demo_address CHR ''a'')) = Inr (b', ns', r) \<and>
     jtotal b' = 6000000000 \<and> jget_or 0 ns' (demo_address CHR ''c'') = 1"
proof -
  let ?run = "applySponsoredTransferState (JStr ''1000'') demo_balances (JStr ''100000'')
     (JStr (demo_address CHR ''c'')) (JNum 0) (JStr (demo_address CHR ''b'')) (JNum 0) []
     (JStr (demo_address CHR ''b'')) (JStr (demo_address CHR ''a''))"
  have "(case ?run of Inr _ \<Rightarrow> True | _ \<Rightarrow> False)" by code_simp
  then obtain b' ns' r where run: "?run = Inr (b', ns', r)" by (auto split: sum.splits)
  have "jtotal demo_balances = 6000000000" by code_simp
  with sponsored_transfer_effect [OF run] run show ?thesis by auto
qed

theorem ordinary_transfer_accepts_iff_witness:
  "(\<exists>res. applyOrdinaryTransferState (JStr ''1000'') demo_balances (JStr ''100000'')
     (JStr (demo_address CHR ''c'')) (JNum 0) [] (JStr (demo_address CHR ''b''))
     (JStr (demo_address CHR ''a'')) = Inr res) \<and>
   \<not> (\<exists>res. applyOrdinaryTransferState (JStr ''5000000000'') demo_balances (JStr ''100000'')
     (JStr (demo_address CHR ''c'')) (JNum 0) [] (JStr (demo_address CHR ''b''))
     (JStr (demo_address CHR ''a'')) = Inr res)"
proof -
  have range: "in_range demo_balances"
  proof -
    have "demo_address CHR ''a'' \<noteq> demo_address CHR ''c''" "5000000000 \<le> MAX_ATOMIC_VALUE" by code_simp+
    then show ?thesis by (simp add: in_range_def demo_balances_def jget_or_def jget_def)
  qed
  have "atomic (JStr ''1000'') F_amount = Inr 1000" "atomic (JStr ''5000000000'') F_amount = Inr 5000000000"
    "atomic (JStr ''100000'') F_fee = Inr 100000" "MIN_TRANSFER_FEE \<le> 100000"
    "nonce (JNum 0) F_nonce = Inr (jget_or 0 [] (demo_address CHR ''a''))" by code_simp+
  note iff = ordinary_transfer_accepts_iff [OF range demo_address_ok(1,2,3) _ _ this(3,4,5)] and vals = this
  have "\<forall>a \<in> {demo_address CHR ''a'', demo_address CHR ''b'', demo_address CHR ''c''}.
      0 \<le> jget_or 0 demo_balances a + jget_or 0 (ordinaryDeltas (demo_address CHR ''a'')
        (demo_address CHR ''b'') (demo_address CHR ''c'') 1000 100000) a \<and>
      jget_or 0 demo_balances a + jget_or 0 (ordinaryDeltas (demo_address CHR ''a'')
        (demo_address CHR ''b'') (demo_address CHR ''c'') 1000 100000) a \<le> MAX_ATOMIC_VALUE"
    by code_simp
  moreover have "\<not> (\<forall>a \<in> {demo_address CHR ''a'', demo_address CHR ''b'', demo_address CHR ''c''}.
      0 \<le> jget_or 0 demo_balances a + jget_or 0 (ordinaryDeltas (demo_address CHR ''a'')
        (demo_address CHR ''b'') (demo_address CHR ''c'') 5000000000 100000) a \<and>
      jget_or 0 demo_balances a + jget_or 0 (ordinaryDeltas (demo_address CHR ''a'')
        (demo_address CHR ''b'') (demo_address CHR ''c'') 5000000000 100000) a \<le> MAX_ATOMIC_VALUE)"
    by code_simp
  ultimately show ?thesis using iff [OF vals(1)] iff [OF vals(2)] by simp
qed


theorem credit_transfer_quota_witness:
  "\<exists>s' r. applyCreditTransferState (JStr ''1000'')
     \<lparr>ct_balances = demo_balances, ct_nonces = [], ct_stakes = [(demo_address CHR ''b'', 100000000000)],
      ct_usage = [], ct_delegations = [(creditDelegationKey (demo_address CHR ''b'') (demo_address CHR ''a''),
        \<lparr>cd_owner = demo_address CHR ''b'', cd_delegate = demo_address CHR ''a'', cd_epoch = 0,
         cd_limit = 2, cd_spent = 0\<rparr>)]\<rparr>
     (JStr (demo_address CHR ''b'')) (JStr ''0'') JUndef JUndef 7 (JNum 0)
     (JStr (demo_address CHR ''b'')) (JStr (demo_address CHR ''a'')) = Inr (s', r) \<and>
     jtotal (ct_balances s') = 6000000000 \<and> cr_owner r = demo_address CHR ''b''"
  (is "\<exists>s' r. ?run = _ \<and> _")
proof -
  have "(case ?run of Inr _ \<Rightarrow> True | _ \<Rightarrow> False)" by code_simp
  then obtain s' r where run: "?run = Inr (s', r)" by (auto split: sum.splits)
  have "jtotal demo_balances = 6000000000" by code_simp
  with credit_transfer_quota [OF run] run show ?thesis by auto
qed

definition demo_multisig :: jsobj where
  "demo_multisig = [(''algorithm'', JStr MULTISIG_ALGORITHM), (''amount'', JStr ''1000''),
     (''fee'', JStr ''100000''), (''memberPublicKeys'', JArr [JStr ''k2'', JStr ''k1'', JStr ''k3'']),
     (''nonce'', JNum 0), (''recipient'', JStr (demo_address CHR ''b'')),
     (''sender'', JStr (demo_address CHR ''d'')), (''threshold'', JNum 2)]"

definition demo_envelope :: jsval where
  "demo_envelope = JObj [(''algorithm'', JStr MULTISIG_ALGORITHM),
     (''approvals'', JArr [JObj [(''publicKey'', JStr ''k1''), (''signature'', JStr ''s'')],
        JObj [(''publicKey'', JStr ''k3''), (''signature'', JStr ''s'')]]),
     (''transactionDigest'', JStr (replicate 64 CHR ''d''))]"


theorem multisig_transfer_authorized_witness:
  "\<exists>res. applyAuthorizedMultisigTransferState demo_crypto demo_envelope
     [(demo_address CHR ''d'', 900000)] (JStr (demo_address CHR ''c'')) [] demo_multisig = Inr res \<and>
     (\<exists>signers. validateTransferAuthorizationEnvelope demo_crypto demo_envelope MULTISIG_ALGORITHM
        (JObj demo_multisig) = Inr signers \<and> 2 \<le> length signers)"
  (is "\<exists>res. ?run = _ \<and> _")
proof -
  have "json_ok (JObj demo_multisig)" "is_domain ''TRANSFER''"
    "json_ok (descriptorObject ([''k1'', ''k2'', ''k3''], 2))" "is_domain ''MULTISIG_ADDRESS''"
    by code_simp+
  note hashes = demo_hash [OF this(1,2)] demo_hash [OF this(3,4)]
  have "foldM checkApproval [] [JObj [(''publicKey'', JStr ''k1''), (''signature'', JStr ''s'')],
        JObj [(''publicKey'', JStr ''k3''), (''signature'', JStr ''s'')]] = Inr [''k1'', ''k3'']"
    "is_hex64 (replicate 64 CHR ''d'')"
    "keys_are (the (plain_object demo_envelope)) [''algorithm'', ''approvals'', ''transactionDigest'']"
    "(length [JStr ''k1'', JStr ''k3''] > MAX_MULTISIG_MEMBERS) = False"
    by code_simp+
  then have env: "validateTransferAuthorizationEnvelope demo_crypto demo_envelope MULTISIG_ALGORITHM
        (JObj demo_multisig) = Inr [''k1'', ''k3'']"
    by (simp add: validateTransferAuthorizationEnvelope_def demo_envelope_def fld_def
        transferAuthorizationDigest_def hashes del: foldM.simps)
  have desc: "multisigDescriptor (fld demo_multisig ''memberPublicKeys'') (fld demo_multisig ''threshold'') =
      Inr ([''k1'', ''k2'', ''k3''], 2)"
    "multisigDescriptor (JArr (map JStr [''k1'', ''k2'', ''k3''])) (JNum 2) =
      Inr ([''k1'', ''k2'', ''k3''], 2)"
    "foldM (checkSigner [''k1'', ''k2'', ''k3'']) [] [''k1'', ''k3''] = Inr [''k1'', ''k3'']"
    "fld demo_multisig ''algorithm'' = JStr MULTISIG_ALGORITHM"
    "JStr (''nir1'' @ replicate 64 CHR ''d'') = fld demo_multisig ''sender''"
    by code_simp+
  have "(case applyOrdinaryTransferState (fld demo_multisig ''amount'') [(demo_address CHR ''d'', 900000)]
      (fld demo_multisig ''fee'') (JStr (demo_address CHR ''c'')) (fld demo_multisig ''nonce'') []
      (fld demo_multisig ''recipient'') (fld demo_multisig ''sender'') of Inr _ \<Rightarrow> True | _ \<Rightarrow> False)"
    by code_simp
  then obtain res where "applyOrdinaryTransferState (fld demo_multisig ''amount'')
      [(demo_address CHR ''d'', 900000)] (fld demo_multisig ''fee'') (JStr (demo_address CHR ''c''))
      (fld demo_multisig ''nonce'') [] (fld demo_multisig ''recipient'') (fld demo_multisig ''sender'') = Inr res"
    by (auto split: sum.splits)
  then have run: "?run = Inr res"
    unfolding applyAuthorizedMultisigTransferState_def env bind_r_simps desc(4) simp_thms if_False
      applyMultisigTransferState_def desc(1) prod.case multisigStateAddress_def desc(2)
      hashes map_err_simps desc(3,5)
    by simp
  from multisig_transfer_authorized [OF run] obtain signers t where
    "validateTransferAuthorizationEnvelope demo_crypto demo_envelope MULTISIG_ALGORITHM
        (JObj demo_multisig) = Inr signers" "2 \<le> t" "t \<le> int (length signers)" by blast
  then have "\<exists>signers. validateTransferAuthorizationEnvelope demo_crypto demo_envelope
      MULTISIG_ALGORITHM (JObj demo_multisig) = Inr signers \<and> 2 \<le> length signers" by fastforce
  with run show ?thesis by blast
qed

end
