(* ===== verification/Ledger.thy ===== *)
theory Ledger
  imports Names ProofMining Transfers
begin

text \<open>
  What the handlers of \<open>NirChain.#applyBlock\<close> (\<open>blockchain/chain.mjs\<close>) share: the context of a
  block, the working copies of the chain's maps it passes to each handler, the shape of the
  transactions, the checks every handler repeats, and the floor under the balances of the
  genesis allocations. A transaction is the object that was parsed from JSON; a handler returns
  the changed maps or the error it threw, in which case the block is rejected as a whole.
\<close>

section \<open>State\<close>

text \<open>An error thrown with a message of its own, or by a component that the handler calls.\<close>

datatype chain_error =
    Refused string
  | Threw
  | Not_hashable codec_error
  | Transfer_refused transfer_error
  | Name_refused name_error
  | Proof_refused proof_error
  | Schedule_refused schedule_error

text \<open>
  A member of one of the protocol's roles. Operator and key are the values of the transaction
  that registered it; a role that keeps the height of an event has it in \<open>mb_height\<close>.
\<close>

record member =
  mb_address :: string
  mb_algorithm :: string
  mb_operatorId :: jsval
  mb_publicKey :: jsval

record retired_member = member +
  rm_retiredHeight :: int

record beacon_admission = member +
  ba_activationHeight :: int
  ba_expiryHeight :: int
  ba_rank :: string
  ba_submittedHeight :: int

record evaluator_registration = member +
  er_activationHeight :: int

text \<open>
  The key a validator authenticates its connections with, and a peer of the active registry.
\<close>

record transport =
  tr_address :: string
  tr_publicKey :: jsval

record peer =
  pe_url :: string
  pe_transport :: "transport option"

text \<open>The fields of an admission's readiness are all present or all \<open>null\<close>.\<close>

record readiness =
  rd_certificateHash :: string
  rd_expiresHeight :: int
  rd_observedHeight :: int
  rd_validatorSetId :: string

record validator_admission = member +
  va_admissionId :: string
  va_submittedHeight :: int
  va_rank :: string
  va_endpoint :: "string option"
  va_tlsCertificateSha256 :: "jsval option"
  va_transport :: "transport option"
  va_legacy :: bool
  va_readiness :: "readiness option"

record validator_exit =
  ve_exclusionHeight :: "int option"
  ve_requestedHeight :: int
  ve_unlockHeight :: "int option"

record beacon_retirement =
  br_requestedHeight :: int
  br_unlockHeight :: int

record credit_unstake =
  un_amount :: int
  un_unlockHeight :: int

text \<open>
  A candidate's bond; \<open>cb_chainIdentityGenesisHash\<close> is \<open>None\<close> when the object has no such field.
  The identifier of a candidate is only tested with a regular expression, which an array with the
  identifier as its one entry passes too; \<open>Map\<close> keeps such a key by its identity, so no later \<open>get\<close>
  or \<open>has\<close> finds the entry. Those bonds are in \<open>lg_strayBonds\<close>.
\<close>

record candidate_bond =
  cb_bond :: int
  cb_committedHeight :: int
  cb_committee :: "string list option"
  cb_randomnessCommits :: "(string, string) jsmap"
  cb_randomnessReveals :: "(string, string) jsmap"
  cb_submitter :: string
  cb_candidateOwner :: string
  cb_purpose :: string
  cb_chainIdentityGenesisHash :: "string option"
  cb_admissionBound :: bool

record native_asset =
  na_assetId :: string
  na_authority :: "string option"
  na_creationNonce :: int
  na_creator :: string
  na_fixedSupply :: bool
  na_maxSupply :: int
  na_metadataHash :: jsval
  na_minted :: int
  na_supply :: int

text \<open>
  The maps of \<open>#applyBlock\<close>, grouped by the component they belong to. \<open>lg_proofMining\<close> and
  \<open>lg_nameRegistry\<close> are \<open>null\<close> before their protocol version; \<open>lg_progressParties\<close> holds sender and
  recipient of the pending progress commitments; \<open>lg_burned\<close> is \<open>newlyBurned\<close>.
\<close>

record credit_book =
  ck_stakes :: balances
  ck_usage :: usage_map
  ck_delegations :: delegation_map
  ck_unstakes :: "(string, credit_unstake) jsmap"

record validator_book =
  vb_bonds :: balances
  vb_registered :: "(string, member) jsmap"
  vb_disabled :: "string jsset"
  vb_faults :: "(string, int) jsmap"
  vb_exits :: "(string, validator_exit) jsmap"
  vb_retired :: "(string, retired_member) jsmap"
  vb_admissions :: "(string, validator_admission) jsmap"
  vb_evidence :: "string jsset"

record evaluator_book =
  eb_bonds :: balances
  eb_members :: "(string, member) jsmap"
  eb_pending :: "(string, evaluator_registration) jsmap"
  eb_disabled :: "string jsset"

record beacon_book =
  bb_bonds :: balances
  bb_registered :: "(string, member) jsmap"
  bb_pending :: "(string, beacon_admission) jsmap"
  bb_retired :: "(string, member) jsmap"
  bb_retirements :: "(string, beacon_retirement) jsmap"

record asset_book =
  ab_assets :: "(string, native_asset) jsmap"
  ab_balances :: balances

record ledger =
  lg_balances :: balances
  lg_nonces :: nonces
  lg_credits :: credit_book
  lg_candidateBonds :: "(string, candidate_bond) jsmap"
  lg_strayBonds :: "candidate_bond list"
  lg_validators :: validator_book
  lg_evaluators :: evaluator_book
  lg_beacons :: beacon_book
  lg_progressParties :: "(string \<times> string) list"
  lg_assets :: asset_book
  lg_proofMining :: "proof_state option"
  lg_nameRegistry :: "name_state option"
  lg_burned :: int

definition empty_ledger :: ledger where
  "empty_ledger = \<lparr>lg_balances = [], lg_nonces = [],
     lg_credits = \<lparr>ck_stakes = [], ck_usage = [], ck_delegations = [], ck_unstakes = []\<rparr>,
     lg_candidateBonds = [], lg_strayBonds = [],
     lg_validators = \<lparr>vb_bonds = [], vb_registered = [], vb_disabled = [], vb_faults = [], vb_exits = [],
       vb_retired = [], vb_admissions = [], vb_evidence = []\<rparr>,
     lg_evaluators = \<lparr>eb_bonds = [], eb_members = [], eb_pending = [], eb_disabled = []\<rparr>,
     lg_beacons = \<lparr>bb_bonds = [], bb_registered = [], bb_pending = [], bb_retired = [],
       bb_retirements = []\<rparr>,
     lg_progressParties = [], lg_assets = \<lparr>ab_assets = [], ab_balances = []\<rparr>,
     lg_proofMining = None, lg_nameRegistry = None, lg_burned = 0\<rparr>"

text \<open>
  What a block is applied against: the allocations fixed at genesis, the private fields of
  \<open>NirChain\<close> that no handler changes, and the block's own height, timestamp, fee recipient and
  protocol version.
\<close>

record genesis =
  gn_treasuryAddress :: string
  gn_founderAddress :: "string option"
  gn_founderImmediateBps :: int
  gn_treasuryImmediateBps :: int
  gn_evaluatorBondAllocation :: int
  gn_timestamp :: int
  gn_evaluatorCount :: nat

record chain_context =
  cx_networkId :: string
  cx_chainIdentityGenesisHash :: string
  cx_genesis :: genesis
  cx_validators :: "(string, member) jsmap"
  cx_blockValidators :: "(string, member) jsmap"
  cx_validatorSetId :: string
  cx_peers :: "peer list"
  cx_rotatingValidators :: "string list"
  cx_recoveryReserves :: "string list"
  cx_beaconAuthorities :: "(string, member) jsmap"
  cx_rotatingBeacons :: "string list"
  cx_disabledBeacons :: "string list"
  cx_height :: int
  cx_timestamp :: int
  cx_feeRecipient :: string
  cx_protocolVersion :: int

section \<open>Transactions\<close>

definition SINGLE_TRANSFER_FIELDS :: "string list" where
  "SINGLE_TRANSFER_FIELDS = [''algorithm'', ''amount'', ''fee'', ''networkId'', ''nonce'', ''publicKey'',
     ''recipient'', ''sender'', ''signature'', ''type'']"

definition SPONSOR_FIELDS :: "string list" where
  "SPONSOR_FIELDS = [''feePayer'', ''feePayerAlgorithm'', ''feePayerNonce'', ''feePayerPublicKey'',
     ''feePayerSignature'']"

definition transferSchemas :: "string list list" where
  "transferSchemas = concat (map (\<lambda>ks. [ks, ks @ [''chainIdentityGenesisHash'']])
     [SINGLE_TRANSFER_FIELDS,
      SINGLE_TRANSFER_FIELDS @ [''resource''],
      SINGLE_TRANSFER_FIELDS @ [''resource'', ''creditOwner''],
      SINGLE_TRANSFER_FIELDS @ SPONSOR_FIELDS,
      SINGLE_TRANSFER_FIELDS @ [''resource''] @ SPONSOR_FIELDS,
      [''algorithm'', ''amount'', ''fee'', ''memberPublicKeys'', ''networkId'', ''nonce'', ''recipient'',
       ''sender'', ''signatures'', ''threshold'', ''type'']])"

text \<open>The fields every signed transaction has.\<close>

definition signed :: "string list \<Rightarrow> string list" where
  "signed ks = ks @ [''algorithm'', ''networkId'', ''nonce'', ''publicKey'', ''sender'', ''signature'', ''type'']"

definition TRANSACTION_SCHEMAS :: "(string \<times> string list list) list" where
  "TRANSACTION_SCHEMAS =
    [(''asset-burn'', [signed [''amount'', ''assetId'', ''fee'']]),
     (''asset-create'', [signed [''assetId'', ''fee'', ''fixedSupply'', ''initialSupply'', ''maxSupply'', ''metadataHash'']]),
     (''asset-mint'', [signed [''amount'', ''assetId'', ''fee'']]),
     (''asset-revoke-authority'', [signed [''assetId'', ''fee'']]),
     (''asset-transfer'', [signed [''amount'', ''assetId'', ''fee'', ''recipient'']]),
     (''beacon-bond'', [signed [''amount'', ''fee''], signed [''activationHeight'', ''amount'', ''fee'', ''operatorId'']]),
     (''beacon-retire'', [signed [''fee'']]),
     (''candidate-bond'', [signed [''amount'', ''candidateId'', ''fee''],
        signed [''amount'', ''candidateId'', ''candidateOwner'', ''fee'', ''purpose''],
        signed [''amount'', ''candidateId'', ''candidateOwner'', ''chainIdentityGenesisHash'', ''fee'', ''purpose'']]),
     (''credit-delegation'', [signed [''delegate'', ''fee'', ''limit'']]),
     (''credit-stake'', [signed [''amount'', ''fee'']]),
     (''credit-unstake-claim'', [signed []]),
     (''credit-unstake-request'', [signed [''amount'', ''fee'']]),
     (''progress-commitment'',
       [signed [''artifactHash'', ''baselineContentHash'', ''baselineHash'', ''candidateId'', ''contentHash'',
          ''parents'', ''recipient'', ''suiteCommitment''],
        signed [''artifactHash'', ''baselineContentHash'', ''baselineHash'', ''candidateId'',
          ''chainIdentityGenesisHash'', ''contentHash'', ''parents'', ''recipient'', ''suiteCommitment'']]),
     (''evaluator-bond'', [signed [''amount'', ''fee''],
        signed [''activationHeight'', ''amount'', ''credentials'', ''fee'', ''operatorId'']]),
     (''validator-equivocation'', [signed [''evidence'', ''fee'']]),
     (''validator-admission-omission'', [signed [''evidence'', ''fee'']]),
     (''validator-admission'',
       [signed [''amount'', ''endpoint'', ''fee'', ''operatorId'', ''tlsCertificateSha256'', ''transportAlgorithm'',
          ''transportPublicKey'', ''transportSignature''],
        signed [''amount'', ''chainIdentityGenesisHash'', ''endpoint'', ''fee'', ''operatorId'', ''referenceHeight'',
          ''tlsCertificateSha256'', ''transportAlgorithm'', ''transportPublicKey'', ''transportSignature'',
          ''validUntilHeight'']]),
     (''validator-admission-readiness'',
       [signed [''admissionId'', ''endpoint'', ''fee'', ''tlsCertificateSha256'', ''transportAlgorithm'',
          ''transportPublicKey'', ''transportSignature'', ''validatorSetId'', ''observedHeight'', ''expiresAtHeight'',
          ''readinessAttestations'']]),
     (''validator-recovery-plan'', [signed [''fee'', ''plan'']]),
     (''validator-recovery'', [[''checkpoint'', ''checkpointCertificate'', ''evidenceTransaction'', ''format'',
        ''generation'', ''planHash'', ''type'']]),
     (''validator-bond'', [signed [''amount'', ''fee''], signed [''amount'', ''fee'', ''operatorId'']]),
     (''validator-exit-request'', [signed [''fee'']]),
     (''proof-answer-commit'', [signed [''chainIdentityGenesisHash'', ''commitment'', ''fee'', ''taskRound'']]),
     (''proof-answer-reveal'', [signed [''chainIdentityGenesisHash'', ''commitment'', ''fee'', ''recipient'', ''salt'',
        ''vertices'']]),
     (''validator-withdrawal-claim'', [signed [''fee'']]),
     (''name-commit'', [signed [''chainIdentityGenesisHash'', ''commitment'', ''fee'']]),
     (''name-register'', [signed [''chainIdentityGenesisHash'', ''fee'', ''name'', ''salt'']]),
     (''name-release'', [signed [''chainIdentityGenesisHash'', ''fee'']]),
     (''name-transfer'', [signed [''chainIdentityGenesisHash'', ''fee'', ''recipient'']]),
     (''transfer'', transferSchemas)]"

text \<open>A type without a schema has none that matches; the names of inherited properties throw too.\<close>

definition requireExactTransactionSchema :: "jsval \<Rightarrow> chain_error + jsobj" where
  "requireExactTransactionSchema transaction =
     (case plain_object transaction of
        None \<Rightarrow> Inl (Refused ''transaction schema is invalid'')
      | Some tx \<Rightarrow>
          let schemas = (case map_of TRANSACTION_SCHEMAS (coerced (fld tx ''type'')) of None \<Rightarrow> [] | Some s \<Rightarrow> s) in
          if \<not> list_ex (keys_are tx) schemas
          then Inl (Refused ''transaction schema contains missing or extra fields'')
          else Inr tx)"

text \<open>\<open>const { a, b, ...rest } = value\<close>\<close>

definition omit :: "string list \<Rightarrow> jsobj \<Rightarrow> jsobj" where
  "omit ks obj = filter (\<lambda>p. fst p \<notin> set ks) obj"

lemma fld_omit: "k \<notin> set ks \<Longrightarrow> fld (omit ks obj) k = fld obj k"
proof -
  assume "k \<notin> set ks"
  then have "map_of (filter (\<lambda>p. fst p \<notin> set ks) obj) k = map_of obj k"
    by (induction obj) auto
  then show ?thesis by (simp add: fld_def omit_def)
qed

definition unsignedTransaction :: "jsobj \<Rightarrow> jsobj" where
  "unsignedTransaction tx = omit [''feePayerSignature'', ''signature'', ''signatures''] tx"

definition transactionId :: "crypto \<Rightarrow> jsobj \<Rightarrow> chain_error + string" where
  "transactionId cr tx = map_err Not_hashable (hashObject cr (JObj tx) ''TRANSACTION_ID'')"

section \<open>Checks of the handlers\<close>

text \<open>\<open>m.get(v)\<close> and \<open>m.has(v)\<close> for a value read from a transaction: the keys are strings.\<close>

definition vget :: "(string, 'v) jsmap \<Rightarrow> jsval \<Rightarrow> 'v option" where
  "vget m v = (case v of JStr k \<Rightarrow> jget m k | _ \<Rightarrow> None)"

definition vhas :: "(string, 'v) jsmap \<Rightarrow> jsval \<Rightarrow> bool" where
  "vhas m v \<longleftrightarrow> vget m v \<noteq> None"

text \<open>
  \<open>addressFromPublicKey(transaction.publicKey) !== transaction.sender || !verifyObject(...)\<close>: the
  last two conditions of the first check of every handler. The result is the sender.
\<close>

definition signer :: "crypto \<Rightarrow> jsobj \<Rightarrow> string \<Rightarrow> string \<Rightarrow> chain_error + string" where
  "signer cr tx domain message =
     (case addressFromPublicKey cr (fld tx ''publicKey'') of
        None \<Rightarrow> Inl Threw
      | Some a \<Rightarrow>
          if JStr a \<noteq> fld tx ''sender'' \<or>
             \<not> verifyObject cr (JObj (unsignedTransaction tx)) (fld tx ''signature'') (fld tx ''publicKey'') domain
          then Inl (Refused message) else Inr a)"

text \<open>
  \<open>transaction.type !== T || transaction.algorithm !== SIGNATURE_ALGORITHM || transaction.networkId
  !== this.#networkId\<close>
\<close>

definition misdirected :: "chain_context \<Rightarrow> jsobj \<Rightarrow> string \<Rightarrow> bool" where
  "misdirected cx tx kind \<longleftrightarrow> fld tx ''type'' \<noteq> JStr kind \<or>
     fld tx ''algorithm'' \<noteq> JStr SIGNATURE_ALGORITHM \<or> fld tx ''networkId'' \<noteq> JStr (cx_networkId cx)"

text \<open>\<open>typeof v !== "string" || v.length > n\<close> fails.\<close>

definition short_string :: "nat \<Rightarrow> jsval \<Rightarrow> bool" where
  "short_string n v \<longleftrightarrow> (case v of JStr s \<Rightarrow> length s \<le> n | _ \<Rightarrow> False)"

definition expectNonce :: "jsobj \<Rightarrow> nonces \<Rightarrow> string \<Rightarrow> chain_error + int" where
  "expectNonce tx nonces sender =
     (let expected = jget_or 0 nonces sender in
      if safe_int (fld tx ''nonce'') \<noteq> Some expected then Inl (Refused ''unexpected nonce'') else Inr expected)"

definition amountOf :: "jsval \<Rightarrow> string \<Rightarrow> chain_error + int" where
  "amountOf v field =
     map_err (\<lambda>_. Refused (field @ '' must be an unsigned decimal string'')) (parseAtomic v)"

definition assertAddress :: "jsval \<Rightarrow> string \<Rightarrow> chain_error + string" where
  "assertAddress v field =
     (case v of
        JStr a \<Rightarrow> if is_address a then Inr a else Inl (Refused (field @ '' is not a canonical NIR address''))
      | _ \<Rightarrow> Inl (Refused (field @ '' is not a canonical NIR address'')))"

text \<open>
  \<open>balances.set(sender, rest); balances.set(proposer, (balances.get(proposer) ?? 0n) + fee)\<close>
\<close>

definition payFee :: "string \<Rightarrow> int \<Rightarrow> string \<Rightarrow> int \<Rightarrow> balances \<Rightarrow> balances" where
  "payFee sender rest proposer fee balances =
     (let b = jset sender rest balances in jset proposer (jget_or 0 b proposer + fee) b)"

section \<open>The floor of the genesis allocations\<close>

definition TESTER_REWARD_RESERVE_BPS :: int where
  "TESTER_REWARD_RESERVE_BPS = 10"

definition allocationLockedFloor :: "genesis \<Rightarrow> string \<Rightarrow> int \<Rightarrow> chain_error + int" where
  "allocationLockedFloor g account timestamp =
     (if account \<noteq> gn_treasuryAddress g \<and> Some account \<noteq> gn_founderAddress g then Inr 0
      else
        let founder = (Some account = gn_founderAddress g);
            allocation = (if founder then FOUNDER_ALLOCATION
              else if gn_founderAddress g = None then TREASURY_ALLOCATION else PROTOCOL_TREASURY_ALLOCATION);
            lockedAllocation =
              (if founder \<and> gn_founderImmediateBps g = FOUNDER_IMMEDIATE_BPS then FOUNDER_VESTED_ALLOCATION
               else if account = gn_treasuryAddress g \<and> gn_treasuryImmediateBps g = TESTER_REWARD_RESERVE_BPS
               then PROTOCOL_TREASURY_VESTED_ALLOCATION else allocation);
            initial = (if account = gn_treasuryAddress g then lockedAllocation - gn_evaluatorBondAllocation g
              else lockedAllocation)
        in bind_r (map_err Schedule_refused
             (if gn_founderAddress g = None then vestedTreasuryAtTimestamp (gn_timestamp g) timestamp
              else vestedAllocationAtTimestamp lockedAllocation (gn_timestamp g) timestamp)) (\<lambda>vested.
             let floor = initial - vested in Inr (if floor > 0 then floor else 0)))"

definition treasuryLockedFloor :: "genesis \<Rightarrow> int \<Rightarrow> chain_error + int" where
  "treasuryLockedFloor g timestamp = allocationLockedFloor g (gn_treasuryAddress g) timestamp"

text \<open>\<open>if (sender === treasury) { if (rest < locked) throw ... }\<close>\<close>

definition assertVested :: "chain_context \<Rightarrow> string \<Rightarrow> int \<Rightarrow> chain_error + unit" where
  "assertVested cx sender rest =
     (if sender \<noteq> gn_treasuryAddress (cx_genesis cx) then Inr ()
      else bind_r (treasuryLockedFloor (cx_genesis cx) (cx_timestamp cx)) (\<lambda>locked.
        if rest < locked then Inl (Refused ''treasury funds are still vesting'') else Inr ()))"

text \<open>The check that ends a block: no genesis allocation below its floor.\<close>

definition assertAllocationsLocked :: "chain_context \<Rightarrow> balances \<Rightarrow> chain_error + unit" where
  "assertAllocationsLocked cx balances =
     foldM (\<lambda>_ account. bind_r (allocationLockedFloor (cx_genesis cx) account (cx_timestamp cx)) (\<lambda>locked.
         if jget_or 0 balances account < locked
         then Inl (Refused ''genesis allocation funds are still vesting'') else Inr ()))
       () (gn_treasuryAddress (cx_genesis cx) #
           (case gn_founderAddress (cx_genesis cx) of None \<Rightarrow> [] | Some a \<Rightarrow> [a]))"

section \<open>Rules for the checks\<close>

lemma signer_Inr [inversion]:
  "signer cr tx domain message = Inr a \<longleftrightarrow>
     addressFromPublicKey cr (fld tx ''publicKey'') = Some a \<and> fld tx ''sender'' = JStr a \<and>
     verifyObject cr (JObj (unsignedTransaction tx)) (fld tx ''signature'') (fld tx ''publicKey'') domain"
  by (auto simp: signer_def split: option.splits)

lemma expectNonce_Inr [inversion]:
  "expectNonce tx nonces sender = Inr n \<longleftrightarrow>
     n = jget_or 0 nonces sender \<and> safe_int (fld tx ''nonce'') = Some n"
  by (auto simp: expectNonce_def Let_def)

lemma amountOf_Inr [inversion]: "amountOf v field = Inr n \<longleftrightarrow> parseAtomic v = Inr n"
  by (simp add: amountOf_def inversion)

lemma amountOf_range: "amountOf v field = Inr n \<Longrightarrow> 0 \<le> n \<and> n \<le> MAX_ATOMIC_VALUE"
  by (auto simp: inversion dest: parseAtomic_range)

lemma assertAddress_Inr [inversion]: "assertAddress v field = Inr a \<longleftrightarrow> v = JStr a \<and> is_address a"
  by (auto simp: assertAddress_def split: jsval.splits)

lemma vget_JStr [simp]: "vget m (JStr k) = jget m k"
  by (simp add: vget_def)

lemma vhas_JStr [simp]: "vhas m (JStr k) = jhas m k"
  by (simp add: vhas_def jhas_def)

section \<open>Amounts that are kept\<close>

text \<open>Maps of amounts, or of records with an amount, without negative entries.\<close>

definition no_debt :: "('v \<Rightarrow> int) \<Rightarrow> ('k, 'v) jsmap \<Rightarrow> bool" where
  "no_debt f m \<longleftrightarrow> jwf m \<and> (\<forall>k v. jget m k = Some v \<longrightarrow> 0 \<le> f v)"

abbreviation solvent :: "balances \<Rightarrow> bool" where
  "solvent m \<equiv> no_debt (\<lambda>v. v) m"

lemma no_debt_empty [simp]: "no_debt f []"
  by (simp add: no_debt_def)

lemma no_debt_jwf: "no_debt f m \<Longrightarrow> jwf m"
  by (simp add: no_debt_def)

lemma no_debt_jset [intro]: "no_debt f m \<Longrightarrow> 0 \<le> f v \<Longrightarrow> no_debt f (jset k v m)"
  by (auto simp: no_debt_def)

lemma no_debt_jdel [intro]: "no_debt f m \<Longrightarrow> no_debt f (jdel k m)"
  by (auto simp: no_debt_def split: if_splits)

lemma no_debt_get: "no_debt f m \<Longrightarrow> jget m k = Some v \<Longrightarrow> 0 \<le> f v"
  by (auto simp: no_debt_def)

lemma solvent_get: "solvent m \<Longrightarrow> 0 \<le> jget_or 0 m k"
  by (auto simp: no_debt_def jget_or_def split: option.splits)

lemma no_debt_sum: "no_debt f m \<Longrightarrow> 0 \<le> jsum f m"
  by (rule jsum_nonneg) (auto simp: no_debt_def jget_iff_in)

lemma solvent_total: "solvent m \<Longrightarrow> 0 \<le> jtotal m"
  unfolding jtotal_def by (rule no_debt_sum)

lemma solvent_le_total: "solvent m \<Longrightarrow> jget_or 0 m k \<le> jtotal m"
proof (cases "jget m k")
  case None
  moreover assume "solvent m"
  ultimately show ?thesis by (simp add: jget_or_def solvent_total)
next
  case (Some v)
  moreover assume "solvent m"
  then have "\<And>k v. (k, v) \<in> set m \<Longrightarrow> 0 \<le> v" by (auto simp: no_debt_def jget_iff_in)
  ultimately show ?thesis
    using jsum_ge_one [of m "\<lambda>v. v" k v] by (simp add: jget_or_def jtotal_def)
qed

lemma solvent_addDelta_like: "solvent m \<Longrightarrow> 0 \<le> x \<Longrightarrow> solvent (jset k (jget_or 0 m k + x) m)"
  by (rule no_debt_jset) (auto simp: solvent_get)

lemma payFee_total: "jtotal (payFee sender rest proposer fee b) = jtotal b - jget_or 0 b sender + rest + fee"
  by (simp add: payFee_def Let_def jtotal_jset)

lemma payFee_solvent: "solvent b \<Longrightarrow> 0 \<le> rest \<Longrightarrow> 0 \<le> fee \<Longrightarrow> solvent (payFee sender rest proposer fee b)"
  unfolding payFee_def Let_def by (intro solvent_addDelta_like no_debt_jset)

lemma payFee_get: "jget_or 0 (payFee sender rest proposer fee b) a =
    (if a = proposer then fee else 0) + (if a = sender then rest else jget_or 0 b a)"
  by (simp add: payFee_def Let_def)

lemma fold_jset_no_debt:
  "solvent m \<Longrightarrow> \<forall>k \<in> set ks. 0 \<le> f k \<Longrightarrow> solvent (fold (\<lambda>k m. jset k (f k) m) ks m)"
proof (induction ks arbitrary: m)
  case (Cons k ks)
  then have "solvent (jset k (f k) m)" by (intro no_debt_jset) auto
  with Cons show ?case by simp
qed simp

lemma settle_solvent:
  assumes "settle u accounts d b = Inr b'" and "distinct accounts" and "solvent b"
  shows "solvent b'"
  unfolding settle_Inr(1) [OF assms(1,2)] using assms(3) settle_Inr(3) [OF assms(1,2)]
  by (intro fold_jset_no_debt) auto

section \<open>What the ledger is worth\<close>

text \<open>
  Every unit the ledger accounts for: balances, stakes and what is being unstaked, the bonds of
  candidates, validators, evaluators and beacons, the bonds of sealed proof answers, and what the
  block has burned. The invariant: no entry of these maps is negative.
\<close>

definition worth :: "ledger \<Rightarrow> int" where
  "worth L = jtotal (lg_balances L) + jtotal (ck_stakes (lg_credits L)) +
     jsum un_amount (ck_unstakes (lg_credits L)) + jsum cb_bond (lg_candidateBonds L) +
     sum_list (map cb_bond (lg_strayBonds L)) + jtotal (vb_bonds (lg_validators L)) + jtotal (eb_bonds (lg_evaluators L)) +
     jtotal (bb_bonds (lg_beacons L)) +
     (case lg_proofMining L of None \<Rightarrow> 0 | Some s \<Rightarrow> lockedBonds s) + lg_burned L"

definition ledger_ok :: "ledger \<Rightarrow> bool" where
  "ledger_ok L \<longleftrightarrow> solvent (lg_balances L) \<and> solvent (ck_stakes (lg_credits L)) \<and>
     no_debt un_amount (ck_unstakes (lg_credits L)) \<and> no_debt cb_bond (lg_candidateBonds L) \<and>
     (\<forall>c \<in> set (lg_strayBonds L). 0 \<le> cb_bond c) \<and> solvent (vb_bonds (lg_validators L)) \<and> solvent (eb_bonds (lg_evaluators L)) \<and>
     solvent (bb_bonds (lg_beacons L)) \<and>
     (\<forall>s. lg_proofMining L = Some s \<longrightarrow> no_debt ac_bond (ps_commits s)) \<and> 0 \<le> lg_burned L"

lemma ledger_ok_empty: "ledger_ok empty_ledger"
  by (simp add: ledger_ok_def empty_ledger_def)

lemma lockedBonds_jsum: "lockedBonds s = jsum ac_bond (ps_commits s)"
  by (simp add: lockedBonds_def)

text \<open>Nobody owns more than the ledger is worth.\<close>

lemma balance_le_worth:
  assumes "ledger_ok L"
  shows "0 \<le> jget_or 0 (lg_balances L) a \<and> jget_or 0 (lg_balances L) a \<le> worth L"
proof -
  from assms have ok: "solvent (lg_balances L)" "solvent (ck_stakes (lg_credits L))"
    "no_debt un_amount (ck_unstakes (lg_credits L))" "no_debt cb_bond (lg_candidateBonds L)"
    "solvent (vb_bonds (lg_validators L))" "solvent (eb_bonds (lg_evaluators L))"
    "solvent (bb_bonds (lg_beacons L))" "0 \<le> lg_burned L"
    by (simp_all add: ledger_ok_def)
  have "0 \<le> sum_list (map cb_bond (lg_strayBonds L))"
    using assms by (auto simp: ledger_ok_def intro!: sum_list_nonneg)
  moreover
  have "0 \<le> (case lg_proofMining L of None \<Rightarrow> 0 | Some s \<Rightarrow> lockedBonds s)"
    using assms by (auto simp: ledger_ok_def lockedBonds_jsum no_debt_sum split: option.splits)
  ultimately show ?thesis
    using ok solvent_le_total [OF ok(1), of a] solvent_get [OF ok(1), of a] solvent_total [OF ok(2)]
      no_debt_sum [OF ok(3)] no_debt_sum [OF ok(4)] solvent_total [OF ok(5)] solvent_total [OF ok(6)]
      solvent_total [OF ok(7)]
    by (simp add: worth_def)
qed

section \<open>What a handler keeps\<close>

text \<open>
  A transaction advances the nonce of its sender by one, from the nonce it names, and no other
  nonce goes back; value is neither made nor lost, and nothing is owed.
\<close>

definition advances :: "jsobj \<Rightarrow> ledger \<Rightarrow> ledger \<Rightarrow> bool" where
  "advances tx L L' \<longleftrightarrow> (\<exists>a. fld tx ''sender'' = JStr a \<and>
     safe_int (fld tx ''nonce'') = Some (jget_or 0 (lg_nonces L) a) \<and>
     jget_or 0 (lg_nonces L') a = jget_or 0 (lg_nonces L) a + 1 \<and>
     (\<forall>x. jget_or 0 (lg_nonces L) x \<le> jget_or 0 (lg_nonces L') x))"

definition keeps :: "jsobj \<Rightarrow> ledger \<Rightarrow> ledger \<Rightarrow> bool" where
  "keeps tx L L' \<longleftrightarrow> (ledger_ok L \<longrightarrow> ledger_ok L' \<and> worth L' = worth L) \<and> advances tx L L'"

lemma keepsI:
  assumes "fld tx ''sender'' = JStr a" and "safe_int (fld tx ''nonce'') = Some (jget_or 0 (lg_nonces L) a)"
    and "lg_nonces L' = jset a (jget_or 0 (lg_nonces L) a + 1) (lg_nonces L)"
    and "ledger_ok L \<Longrightarrow> ledger_ok L'" and "ledger_ok L \<Longrightarrow> worth L' = worth L"
  shows "keeps tx L L'"
  using assms by (auto simp: keeps_def advances_def)

lemma jset_fee_total: "jtotal (jset k (jget_or 0 m k + x) m) = jtotal m + x"
  by (simp add: jtotal_jset)

lemmas handler_guards = bind_r_Inr_iff if_Inl_Inr_iff signer_Inr expectNonce_Inr amountOf_Inr assertAddress_Inr
  map_err_Inr_iff not_le not_less de_Morgan_disj

lemmas ledger_rules = payFee_solvent solvent_addDelta_like no_debt_jset no_debt_jdel solvent_get

lemmas worth_rules = worth_def payFee_total jtotal_jset jtotal_jdel jsum_jset jsum_jdel

section \<open>A block to evaluate the handlers in\<close>

text \<open>
  With the constant hash of \<open>demo_crypto\<close> every key has the same address, and every signature of an
  object the encoder accepts is valid.
\<close>

lemma demo_verify:
  assumes "json_ok v" and "is_domain d"
  shows "verifyObject demo_crypto v (JStr s) (JStr k) d"
proof -
  obtain b where "domainPayload demo_crypto d v = Inr b"
    using domainPayload_ok [OF demo_keeps_ascii assms] by blast
  then show ?thesis by (simp add: verifyObject_def demo_crypto_def)
qed

lemma demo_key: "addressFromPublicKey demo_crypto (JStr k) = Some (demo_address CHR ''d'')"
  by (simp add: addressFromPublicKey_def demo_crypto_def demo_address_def)

lemma demo_signer:
  assumes "fld tx ''publicKey'' = JStr k" and "fld tx ''signature'' = JStr s"
    and "fld tx ''sender'' = JStr (demo_address CHR ''d'')"
    and "json_ok (JObj (unsignedTransaction tx))" and "is_domain domain"
  shows "signer demo_crypto tx domain message = Inr (demo_address CHR ''d'')"
  using assms by (simp add: signer_Inr demo_key demo_verify)

definition demo_context :: chain_context where
  "demo_context = \<lparr>cx_networkId = ''nir-test'', cx_chainIdentityGenesisHash = replicate 64 CHR ''a'',
     cx_genesis = \<lparr>gn_treasuryAddress = demo_address CHR ''a'', gn_founderAddress = None,
       gn_founderImmediateBps = 0, gn_treasuryImmediateBps = 0, gn_evaluatorBondAllocation = 0,
       gn_timestamp = 0, gn_evaluatorCount = 4\<rparr>,
     cx_validators = [], cx_blockValidators = [], cx_validatorSetId = replicate 64 CHR ''e'', cx_peers = [], cx_rotatingValidators = [], cx_recoveryReserves = [], cx_beaconAuthorities = [],
     cx_rotatingBeacons = [], cx_disabledBeacons = [], cx_height = 10, cx_timestamp = 1000,
     cx_feeRecipient = demo_address CHR ''b'', cx_protocolVersion = 38\<rparr>"

definition demo_tx :: "string \<Rightarrow> int \<Rightarrow> jsobj \<Rightarrow> jsobj" where
  "demo_tx kind n kvs = kvs @ [(''algorithm'', JStr SIGNATURE_ALGORITHM), (''networkId'', JStr ''nir-test''),
     (''nonce'', JNum n), (''publicKey'', JStr ''key''), (''sender'', JStr (demo_address CHR ''d'')),
     (''signature'', JStr ''sig''), (''type'', JStr kind)]"

end
