(* ===== verification/Accounts.thy ===== *)
theory Accounts
  imports Ledger
begin

text \<open>
  The handlers of \<open>blockchain/chain.mjs\<close> for transfers and transfer credits: \<open>#applyTransfer\<close>,
  \<open>#applyCreditStake\<close>, \<open>#applyCreditDelegation\<close>, \<open>#applyCreditUnstakeRequest\<close> and
  \<open>#applyCreditUnstakeClaim\<close>, each with what it keeps of the ledger.
\<close>

section \<open>Transfers\<close>

definition transferDigest :: "crypto \<Rightarrow> jsobj \<Rightarrow> chain_error + string" where
  "transferDigest cr tx =
     map_err Transfer_refused (transferAuthorizationDigest cr (JObj (unsignedTransaction tx)))"

text \<open>One turn of the loop over the approvals of a multisignature.\<close>

definition verifyApproval :: "crypto \<Rightarrow> jsobj \<Rightarrow> string list \<Rightarrow> string list \<Rightarrow> jsval \<Rightarrow>
    chain_error + string list" where
  "verifyApproval cr unsignedTx allowed signers approval =
     (case approval of
        JNull \<Rightarrow> Inl Threw
      | JUndef \<Rightarrow> Inl Threw
      | JObj obj \<Rightarrow>
          (case (fld obj ''publicKey'', fld obj ''signature'') of
             (JStr key, JStr signature) \<Rightarrow>
               if key \<notin> set allowed \<or> key \<in> set signers \<or> length signature > 7000 \<or>
                  \<not> verifyObject cr (JObj unsignedTx) (JStr signature) (JStr key) ''TRANSFER''
               then Inl (Refused ''invalid multisignature approval'') else Inr (signers @ [key])
           | _ \<Rightarrow> Inl (Refused ''invalid multisignature approval''))
      | _ \<Rightarrow> Inl (Refused ''invalid multisignature approval''))"

definition approvalPart :: "jsval \<Rightarrow> jsval" where
  "approvalPart approval = (case approval of
     JObj obj \<Rightarrow> JObj [(''publicKey'', fld obj ''publicKey''), (''signature'', fld obj ''signature'')]
   | _ \<Rightarrow> JObj [(''publicKey'', JUndef), (''signature'', JUndef)])"

text \<open>\<open>authorizationEnvelope\<close>, with the sender whose authorization it is.\<close>

definition authorizationEnvelope :: "crypto \<Rightarrow> jsobj \<Rightarrow> chain_error + (string \<times> jsval)" where
  "authorizationEnvelope cr tx =
     (let unsignedTx = unsignedTransaction tx;
          envelope = (\<lambda>sender approvals. bind_r (transferDigest cr tx) (\<lambda>digest.
            Inr (sender, JObj [(''algorithm'', fld tx ''algorithm''), (''approvals'', JArr approvals),
                               (''transactionDigest'', JStr digest)])))
      in
      if fld tx ''algorithm'' = JStr SIGNATURE_ALGORITHM then
        if \<not> short_string 4000 (fld tx ''publicKey'') \<or> \<not> short_string 7000 (fld tx ''signature'')
        then Inl (Refused ''transaction cryptographic material exceeds limits'')
        else (case addressFromPublicKey cr (fld tx ''publicKey'') of
          None \<Rightarrow> Inl Threw
        | Some sender \<Rightarrow>
            if JStr sender \<noteq> fld tx ''sender'' then Inl (Refused ''sender address does not match public key'')
            else if \<not> verifyObject cr (JObj unsignedTx) (fld tx ''signature'') (fld tx ''publicKey'') ''TRANSFER''
            then Inl (Refused ''invalid transaction signature'')
            else envelope sender [JObj [(''publicKey'', fld tx ''publicKey''), (''signature'', fld tx ''signature'')]])
      else
        bind_r (map_err Transfer_refused (multisigDescriptor (fld tx ''memberPublicKeys'') (fld tx ''threshold'')))
          (\<lambda>(keys, threshold).
        bind_r (map_err Transfer_refused (multisigStateAddress cr (JArr (map JStr keys)) (JNum threshold))) (\<lambda>sender.
          if JStr sender \<noteq> fld tx ''sender''
          then Inl (Refused ''sender address does not match multisignature descriptor'')
          else (case fld tx ''signatures'' of
            JArr approvals \<Rightarrow>
              if length approvals > length keys then Inl (Refused ''multisignature collection is invalid'')
              else bind_r (foldM (verifyApproval cr unsignedTx keys) [] approvals) (\<lambda>signers.
                if int (length signers) < threshold then Inl (Refused ''multisignature threshold not reached'')
                else envelope sender (map approvalPart approvals))
          | _ \<Rightarrow> Inl (Refused ''multisignature collection is invalid'')))))"

text \<open>The checks of a sponsor, with its balance.\<close>

definition sponsorBalance :: "crypto \<Rightarrow> jsobj \<Rightarrow> string \<Rightarrow> ledger \<Rightarrow> chain_error + (string \<times> int)" where
  "sponsorBalance cr tx sender L =
     (case fld tx ''feePayer'' of
        JStr payer \<Rightarrow>
          if payer = sender \<or> fld tx ''feePayerAlgorithm'' \<noteq> JStr SIGNATURE_ALGORITHM \<or>
             \<not> short_string 4000 (fld tx ''feePayerPublicKey'') \<or> \<not> short_string 7000 (fld tx ''feePayerSignature'') \<or>
             addressFromPublicKey cr (fld tx ''feePayerPublicKey'') \<noteq> Some payer \<or>
             (case safe_int (fld tx ''feePayerNonce'') of None \<Rightarrow> True | Some n \<Rightarrow> n < 0)
          then Inl (Refused ''sponsored transfer fee payer is invalid'')
          else if \<not> verifyObject cr (JObj (omit [''feePayerSignature''] tx)) (fld tx ''feePayerSignature'')
                    (fld tx ''feePayerPublicKey'') ''SPONSORED_TRANSFER''
          then Inl (Refused ''invalid fee payer signature'')
          else if safe_int (fld tx ''feePayerNonce'') \<noteq> Some (jget_or 0 (lg_nonces L) payer)
          then Inl (Refused ''unexpected fee payer nonce'')
          else Inr (payer, jget_or 0 (lg_balances L) payer)
      | _ \<Rightarrow> Inl (Refused ''sponsored transfer fee payer is invalid''))"

text \<open>The balance checks of a transfer before its transition: \<open>sponsor\<close> is payer and balance.\<close>

definition transferFunds :: "chain_context \<Rightarrow> string \<Rightarrow> (string \<times> int) option \<Rightarrow> bool \<Rightarrow> int \<Rightarrow> int \<Rightarrow> int \<Rightarrow>
    chain_error + unit" where
  "transferFunds cx sender sponsor creditPaid senderBalance amount fee =
     bind_r (case sponsor of
         Some (payer, payerBalance) \<Rightarrow>
           if senderBalance < amount \<or> (\<not> creditPaid \<and> payerBalance < fee)
           then Inl (Refused ''insufficient balance'') else Inr ()
       | None \<Rightarrow> if senderBalance < amount + fee then Inl (Refused ''insufficient balance'') else Inr ()) (\<lambda>_.
     bind_r (assertVested cx sender (senderBalance - amount - (if sponsor = None then fee else 0))) (\<lambda>_.
       case sponsor of
         Some (payer, payerBalance) \<Rightarrow>
           if creditPaid then Inr () else assertVested cx payer (payerBalance - fee)
       | None \<Rightarrow> Inr ()))"

text \<open>The transition a transfer ends with.\<close>

definition creditTransition :: "chain_context \<Rightarrow> jsobj \<Rightarrow> string \<Rightarrow> (string \<times> int) option \<Rightarrow> int \<Rightarrow> int \<Rightarrow> ledger \<Rightarrow>
    chain_error + ledger" where
  "creditTransition cx tx sender sponsor amount fee L =
     bind_r (map_err Transfer_refused (applyCreditTransferState (JBig amount)
         \<lparr>ct_balances = lg_balances L, ct_nonces = lg_nonces L, ct_stakes = ck_stakes (lg_credits L),
          ct_usage = ck_usage (lg_credits L), ct_delegations = ck_delegations (lg_credits L)\<rparr>
         (fld tx ''creditOwner'') (JBig fee)
         (case sponsor of Some (payer, _) \<Rightarrow> JStr payer | None \<Rightarrow> JUndef)
         (case sponsor of Some _ \<Rightarrow> fld tx ''feePayerNonce'' | None \<Rightarrow> JUndef)
         (cx_height cx) (fld tx ''nonce'') (fld tx ''recipient'') (JStr sender))) (\<lambda>(s, receipt).
       Inr (L\<lparr>lg_balances := ct_balances s, lg_nonces := ct_nonces s,
             lg_credits := (lg_credits L)\<lparr>ck_usage := ct_usage s, ck_delegations := ct_delegations s\<rparr>\<rparr>))"

definition paidTransition :: "crypto \<Rightarrow> chain_context \<Rightarrow> jsobj \<Rightarrow> jsval \<Rightarrow> ledger \<Rightarrow> chain_error + ledger" where
  "paidTransition cr cx tx envelope L =
     bind_r (map_err Transfer_refused
         ((if fld tx ''algorithm'' = JStr MULTISIG_ALGORITHM then applyAuthorizedMultisigTransferState
           else applyAuthorizedOrdinaryTransferState) cr envelope (lg_balances L)
           (JStr (cx_feeRecipient cx)) (lg_nonces L) (unsignedTransaction tx))) (\<lambda>(b, ns, receipt).
       Inr (L\<lparr>lg_balances := b, lg_nonces := ns\<rparr>))"

definition sponsoredTransition :: "chain_context \<Rightarrow> jsobj \<Rightarrow> string \<Rightarrow> string \<Rightarrow> int \<Rightarrow> int \<Rightarrow> ledger \<Rightarrow>
    chain_error + ledger" where
  "sponsoredTransition cx tx sender payer amount fee L =
     bind_r (map_err Transfer_refused (applySponsoredTransferState (JBig amount) (lg_balances L) (JBig fee)
         (JStr payer) (fld tx ''feePayerNonce'') (JStr (cx_feeRecipient cx)) (fld tx ''nonce'') (lg_nonces L)
         (fld tx ''recipient'') (JStr sender))) (\<lambda>(b, ns, receipt).
       Inr (L\<lparr>lg_balances := b, lg_nonces := ns\<rparr>))"

definition applyTransfer :: "crypto \<Rightarrow> chain_context \<Rightarrow> jsobj \<Rightarrow> ledger \<Rightarrow> chain_error + ledger" where
  "applyTransfer cr cx tx L =
     (if fld tx ''type'' \<noteq> JStr ''transfer'' then Inl (Refused ''unknown transaction type'')
      else if fld tx ''algorithm'' \<notin> {JStr SIGNATURE_ALGORITHM, JStr MULTISIG_ALGORITHM}
      then Inl (Refused ''transaction is not post-quantum signed'')
      else if fld tx ''networkId'' \<noteq> JStr (cx_networkId cx)
      then Inl (Refused ''transaction belongs to another network'')
      else if cx_protocolVersion cx \<ge> TRANSFER_GENESIS_BINDING_PROTOCOL_VERSION \<and>
              fld tx ''chainIdentityGenesisHash'' \<noteq> JStr (cx_chainIdentityGenesisHash cx)
      then Inl (Refused ''transfer belongs to another genesis'')
      else if cx_protocolVersion cx < TRANSFER_GENESIS_BINDING_PROTOCOL_VERSION \<and>
              fld tx ''chainIdentityGenesisHash'' \<noteq> JUndef
      then Inl (Refused ''genesis-bound transfer is not active'')
      else bind_r (assertAddress (fld tx ''recipient'') ''transfer recipient'') (\<lambda>_.
      bind_r (authorizationEnvelope cr tx) (\<lambda>(sender, envelope).
      if (case safe_int (fld tx ''nonce'') of None \<Rightarrow> True | Some n \<Rightarrow> n < 0)
      then Inl (Refused ''invalid transaction nonce'')
      else bind_r (expectNonce tx (lg_nonces L) sender) (\<lambda>_.
      bind_r (amountOf (fld tx ''amount'') ''amount'') (\<lambda>amount.
      bind_r (amountOf (fld tx ''fee'') ''fee'') (\<lambda>fee.
      let creditPaid = (fld tx ''resource'' = JStr ''transfer-credit'');
          sponsorFields = map (fld tx) [''feePayer'', ''feePayerAlgorithm'', ''feePayerNonce'', ''feePayerPublicKey'',
            ''feePayerSignature''];
          sponsored = (JUndef \<notin> set sponsorFields);
          delegated = (fld tx ''creditOwner'' \<noteq> JUndef);
          senderBalance = jget_or 0 (lg_balances L) sender in
      if fld tx ''resource'' \<noteq> JUndef \<and> \<not> creditPaid then Inl (Refused ''unknown transfer resource'')
      else if amount = 0 then Inl (Refused ''transfer amount must be positive'')
      else if (\<not> creditPaid \<and> fee < MIN_TRANSFER_FEE) \<or> (creditPaid \<and> fee \<noteq> 0)
      then Inl (Refused ''transfer fee is below the protocol minimum'')
      else if \<not> sponsored \<and> (\<exists>v \<in> set sponsorFields. v \<noteq> JUndef)
      then Inl (Refused ''sponsored transfer fields are incomplete'')
      else if delegated \<and> (\<not> creditPaid \<or> sponsored \<or> fld tx ''creditOwner'' = JStr sender)
      then Inl (Refused ''delegated transfer credit payer is invalid'')
      else bind_r (if delegated then assertAddress (fld tx ''creditOwner'') ''transfer credit owner''
                   else Inr '''') (\<lambda>_.
      bind_r (if sponsored then bind_r (sponsorBalance cr tx sender L) (\<lambda>p. Inr (Some p)) else Inr None) (\<lambda>sponsor.
      bind_r (transferFunds cx sender sponsor creditPaid senderBalance amount fee) (\<lambda>_.
        if creditPaid then creditTransition cx tx sender sponsor amount fee L
        else (case sponsor of
          None \<Rightarrow> paidTransition cr cx tx envelope L
        | Some (payer, _) \<Rightarrow> sponsoredTransition cx tx sender payer amount fee L))))))))))"

section \<open>Transfer credits\<close>

definition applyCreditStake :: "crypto \<Rightarrow> chain_context \<Rightarrow> jsobj \<Rightarrow> ledger \<Rightarrow> chain_error + ledger" where
  "applyCreditStake cr cx tx L =
     (if misdirected cx tx ''credit-stake'' then Inl (Refused ''credit stake transaction is invalid'')
      else bind_r (signer cr tx ''CREDIT_STAKE'' ''credit stake transaction is invalid'') (\<lambda>sender.
      bind_r (expectNonce tx (lg_nonces L) sender) (\<lambda>expectedNonce.
      bind_r (amountOf (fld tx ''amount'') ''credit stake'') (\<lambda>amount.
      bind_r (amountOf (fld tx ''fee'') ''fee'') (\<lambda>fee.
      if amount = 0 \<or> fee < MIN_TRANSFER_FEE then Inl (Refused ''credit stake or fee is below minimum'')
      else let balance = jget_or 0 (lg_balances L) sender in
      if balance < amount + fee then Inl (Refused ''insufficient balance'')
      else bind_r (assertVested cx sender (balance - amount - fee)) (\<lambda>_.
        Inr (L\<lparr>lg_balances := payFee sender (balance - amount - fee) (cx_feeRecipient cx) fee (lg_balances L),
              lg_nonces := jset sender (expectedNonce + 1) (lg_nonces L),
              lg_credits := (lg_credits L)\<lparr>ck_stakes := jset sender
                (jget_or 0 (ck_stakes (lg_credits L)) sender + amount) (ck_stakes (lg_credits L))\<rparr>\<rparr>)))))))"

text \<open>The new delegations: a limit of zero revokes.\<close>

definition delegate :: "chain_context \<Rightarrow> string \<Rightarrow> string \<Rightarrow> int \<Rightarrow> delegation_map \<Rightarrow> chain_error + delegation_map" where
  "delegate cx owner recipient limit delegations =
     (let key = creditDelegationKey owner recipient; previous = jget delegations key in
      if limit = 0 then
        if previous = None then Inl (Refused ''credit delegation does not exist'') else Inr (jdel key delegations)
      else if previous = None \<and>
              length (filter (\<lambda>d. cd_owner d = owner) (jvalues delegations)) \<ge> MAX_CREDIT_DELEGATIONS_PER_OWNER
      then Inl (Refused ''credit delegation capacity is exhausted'')
      else bind_r (map_err Transfer_refused (transferCreditEpoch (cx_height cx))) (\<lambda>epoch.
        let spent = (case previous of None \<Rightarrow> 0 | Some d \<Rightarrow> if cd_epoch d = epoch then cd_spent d else 0) in
        if limit < spent then Inl (Refused ''credit delegation limit is below already spent credits'')
        else Inr (jset key \<lparr>cd_owner = owner, cd_delegate = recipient, cd_epoch = epoch, cd_limit = limit,
                            cd_spent = spent\<rparr> delegations)))"

definition applyCreditDelegation :: "crypto \<Rightarrow> chain_context \<Rightarrow> jsobj \<Rightarrow> ledger \<Rightarrow> chain_error + ledger" where
  "applyCreditDelegation cr cx tx L =
     (if misdirected cx tx ''credit-delegation'' then Inl (Refused ''credit delegation transaction is invalid'')
      else bind_r (signer cr tx ''CREDIT_DELEGATION'' ''credit delegation transaction is invalid'') (\<lambda>sender.
      bind_r (assertAddress (fld tx ''delegate'') ''credit delegate'') (\<lambda>delegated.
      (case safe_int (fld tx ''limit'') of
         None \<Rightarrow> Inl (Refused ''credit delegation limit is invalid'')
       | Some limit \<Rightarrow>
      if delegated = sender \<or> limit < 0 \<or> limit > 1000000 then Inl (Refused ''credit delegation limit is invalid'')
      else bind_r (expectNonce tx (lg_nonces L) sender) (\<lambda>expectedNonce.
      let stake = jget_or 0 (ck_stakes (lg_credits L)) sender; balance = jget_or 0 (lg_balances L) sender in
      if limit > 0 \<and> stake < TRANSFER_CREDIT_STAKE_UNIT
      then Inl (Refused ''credit delegation owner has insufficient stake'')
      else bind_r (amountOf (fld tx ''fee'') ''fee'') (\<lambda>fee.
      if fee < MIN_TRANSFER_FEE then Inl (Refused ''transfer fee is below the protocol minimum'')
      else let payRevocationFromStake = (limit = 0 \<and> balance < fee) in
      if (\<not> payRevocationFromStake \<and> balance < fee) \<or> (payRevocationFromStake \<and> stake < fee)
      then Inl (Refused ''insufficient balance'')
      else bind_r (if payRevocationFromStake then Inr () else assertVested cx sender (balance - fee)) (\<lambda>_.
      bind_r (delegate cx sender delegated limit (ck_delegations (lg_credits L))) (\<lambda>delegations.
        let stakes = (if payRevocationFromStake then jset sender (stake - fee) (ck_stakes (lg_credits L))
                      else ck_stakes (lg_credits L));
            rest = (if payRevocationFromStake then balance else balance - fee);
            b = (if payRevocationFromStake then lg_balances L else jset sender rest (lg_balances L)) in
        Inr (L\<lparr>lg_balances := jset (cx_feeRecipient cx) (jget_or 0 b (cx_feeRecipient cx) + fee) b,
              lg_nonces := jset sender (expectedNonce + 1) (lg_nonces L),
              lg_credits := (lg_credits L)\<lparr>ck_stakes := stakes, ck_delegations := delegations\<rparr>\<rparr>)))))))))"

definition applyCreditUnstakeRequest :: "crypto \<Rightarrow> chain_context \<Rightarrow> jsobj \<Rightarrow> ledger \<Rightarrow> chain_error + ledger" where
  "applyCreditUnstakeRequest cr cx tx L =
     (if misdirected cx tx ''credit-unstake-request'' then Inl (Refused ''credit unstake request is invalid'')
      else bind_r (signer cr tx ''CREDIT_UNSTAKE_REQUEST'' ''credit unstake request is invalid'') (\<lambda>sender.
      bind_r (expectNonce tx (lg_nonces L) sender) (\<lambda>expectedNonce.
      if jhas (ck_unstakes (lg_credits L)) sender then Inl (Refused ''credit unstake is already pending'')
      else bind_r (amountOf (fld tx ''amount'') ''credit unstake amount'') (\<lambda>amount.
      bind_r (amountOf (fld tx ''fee'') ''fee'') (\<lambda>fee.
      let stake = jget_or 0 (ck_stakes (lg_credits L)) sender in
      if fee < MIN_TRANSFER_FEE \<or> amount \<le> fee \<or> stake < amount
      then Inl (Refused ''credit unstake amount or fee is invalid'')
      else Inr (L\<lparr>lg_balances := jset (cx_feeRecipient cx) (jget_or 0 (lg_balances L) (cx_feeRecipient cx) + fee)
                   (lg_balances L),
                 lg_nonces := jset sender (expectedNonce + 1) (lg_nonces L),
                 lg_credits := (lg_credits L)\<lparr>ck_stakes := jset sender (stake - amount) (ck_stakes (lg_credits L)),
                   ck_unstakes := jset sender
                     \<lparr>un_amount = amount - fee, un_unlockHeight = cx_height cx + CREDIT_UNSTAKE_DELAY_BLOCKS\<rparr>
                     (ck_unstakes (lg_credits L))\<rparr>\<rparr>))))))"

definition applyCreditUnstakeClaim :: "crypto \<Rightarrow> chain_context \<Rightarrow> jsobj \<Rightarrow> ledger \<Rightarrow> chain_error + ledger" where
  "applyCreditUnstakeClaim cr cx tx L =
     (if misdirected cx tx ''credit-unstake-claim'' then Inl (Refused ''credit unstake claim is invalid'')
      else bind_r (signer cr tx ''CREDIT_UNSTAKE_CLAIM'' ''credit unstake claim is invalid'') (\<lambda>sender.
      bind_r (expectNonce tx (lg_nonces L) sender) (\<lambda>expectedNonce.
      (case jget (ck_unstakes (lg_credits L)) sender of
         None \<Rightarrow> Inl (Refused ''credit unstake is not unlocked'')
       | Some pending \<Rightarrow>
           if cx_height cx < un_unlockHeight pending then Inl (Refused ''credit unstake is not unlocked'')
           else let credits = (lg_credits L)\<lparr>ck_unstakes := jdel sender (ck_unstakes (lg_credits L))\<rparr> in
             Inr (L\<lparr>lg_balances := jset sender (jget_or 0 (lg_balances L) sender + un_amount pending) (lg_balances L),
                   lg_nonces := jset sender (expectedNonce + 1) (lg_nonces L),
                   lg_credits := (if jget_or 0 (ck_stakes credits) sender = 0
                     then credits\<lparr>ck_usage := jdel sender (ck_usage credits),
                       ck_delegations := filter (\<lambda>(key, d). cd_owner d \<noteq> sender) (ck_delegations credits)\<rparr>
                     else credits)\<rparr>)))))"

section \<open>What the credit handlers keep\<close>

lemma credit_stake_keeps:
  assumes "applyCreditStake cr cx tx L = Inr L'"
  shows "keeps tx L L'"
  using assms unfolding applyCreditStake_def Let_def
  apply (clarsimp simp only: handler_guards)
  apply (frule parseAtomic_range)
  apply (rule keepsI, assumption, assumption)
    apply simp
   apply (simp add: ledger_ok_def ledger_rules MIN_TRANSFER_FEE_def)
  apply (simp add: worth_rules)
  done

lemma credit_unstake_request_keeps:
  assumes "applyCreditUnstakeRequest cr cx tx L = Inr L'"
  shows "keeps tx L L'"
  using assms unfolding applyCreditUnstakeRequest_def Let_def
  apply (clarsimp simp only: handler_guards)
  apply (rule keepsI, assumption, assumption)
    apply simp
   apply (simp add: ledger_ok_def ledger_rules MIN_TRANSFER_FEE_def)
  apply (simp add: worth_rules jhas_def)
  done

lemma credit_unstake_claim_keeps:
  assumes "applyCreditUnstakeClaim cr cx tx L = Inr L'"
  shows "keeps tx L L'"
proof -
  from assms obtain a pending where a: "fld tx ''sender'' = JStr a"
    "safe_int (fld tx ''nonce'') = Some (jget_or 0 (lg_nonces L) a)"
    and pending: "jget (ck_unstakes (lg_credits L)) a = Some pending"
    and L': "lg_balances L' = jset a (jget_or 0 (lg_balances L) a + un_amount pending) (lg_balances L)"
      "lg_nonces L' = jset a (jget_or 0 (lg_nonces L) a + 1) (lg_nonces L)"
      "ck_stakes (lg_credits L') = ck_stakes (lg_credits L)"
      "ck_unstakes (lg_credits L') = jdel a (ck_unstakes (lg_credits L))"
      "lg_candidateBonds L' = lg_candidateBonds L" "lg_strayBonds L' = lg_strayBonds L" "lg_validators L' = lg_validators L"
      "lg_evaluators L' = lg_evaluators L" "lg_beacons L' = lg_beacons L"
      "lg_proofMining L' = lg_proofMining L" "lg_burned L' = lg_burned L"
    unfolding applyCreditUnstakeClaim_def Let_def
    by (auto simp: handler_guards split: option.splits if_splits)
  show ?thesis
  proof (rule keepsI [OF a L'(2)])
    assume ok: "ledger_ok L"
    then show "ledger_ok L'"
      using no_debt_get [OF _ pending] by (simp add: ledger_ok_def ledger_rules L')
    from ok have "jwf (ck_unstakes (lg_credits L))" by (auto simp: ledger_ok_def dest: no_debt_jwf)
    then show "worth L' = worth L" by (simp add: worth_rules L' pending)
  qed
qed

lemma credit_delegation_keeps:
  assumes "applyCreditDelegation cr cx tx L = Inr L'"
  shows "keeps tx L L'"
proof -
  from assms obtain a fee stake b delegations where a: "fld tx ''sender'' = JStr a"
    "safe_int (fld tx ''nonce'') = Some (jget_or 0 (lg_nonces L) a)"
    and fee: "MIN_TRANSFER_FEE \<le> fee"
    and paid: "stake = ck_stakes (lg_credits L) \<and> fee \<le> jget_or 0 (lg_balances L) a \<and>
        b = jset a (jget_or 0 (lg_balances L) a - fee) (lg_balances L) \<or>
      b = lg_balances L \<and> fee \<le> jget_or 0 (ck_stakes (lg_credits L)) a \<and>
        stake = jset a (jget_or 0 (ck_stakes (lg_credits L)) a - fee) (ck_stakes (lg_credits L))"
    and L': "L' = L\<lparr>lg_balances := jset (cx_feeRecipient cx) (jget_or 0 b (cx_feeRecipient cx) + fee) b,
      lg_nonces := jset a (jget_or 0 (lg_nonces L) a + 1) (lg_nonces L),
      lg_credits := (lg_credits L)\<lparr>ck_stakes := stake, ck_delegations := delegations\<rparr>\<rparr>"
    unfolding applyCreditDelegation_def Let_def
    by (force simp: handler_guards split: option.splits if_splits)
  show ?thesis
  proof (rule keepsI [OF a])
    assume "ledger_ok L"
    then show "ledger_ok L'"
      using paid fee by (auto simp: ledger_ok_def ledger_rules L' MIN_TRANSFER_FEE_def)
    show "worth L' = worth L" using paid by (auto simp: worth_rules L')
  qed (simp add: L')
qed


section \<open>Transfers keep the ledger\<close>

lemma fld_unsigned [simp]:
  "fld (unsignedTransaction tx) ''sender'' = fld tx ''sender''"
  "fld (unsignedTransaction tx) ''nonce'' = fld tx ''nonce''"
  "fld (unsignedTransaction tx) ''amount'' = fld tx ''amount''"
  "fld (unsignedTransaction tx) ''fee'' = fld tx ''fee''"
  "fld (unsignedTransaction tx) ''recipient'' = fld tx ''recipient''"
  "fld (unsignedTransaction tx) ''algorithm'' = fld tx ''algorithm''"
  by (simp_all add: unsignedTransaction_def fld_omit)

lemma ordinary_keeps:
  assumes "applyOrdinaryTransferState amount b fee feeRecipient n ns recipient sender = Inr (b', ns', r)"
  shows "(solvent b \<longrightarrow> solvent b') \<and> jtotal b' = jtotal b \<and>
    (\<exists>a. sender = JStr a \<and> safe_int n = Some (jget_or 0 ns a) \<and> ns' = jset a (jget_or 0 ns a + 1) ns)"
  using assms by (auto simp: ordinary_Inr_iff nonce_Inr_iff
      intro: settle_solvent settle_total)

lemma paid_transition_keeps:
  assumes "paidTransition cr cx tx envelope L = Inr L'"
  shows "keeps tx L L'"
proof -
  from assms obtain b ns r where
    "applyOrdinaryTransferState (fld tx ''amount'') (lg_balances L) (fld tx ''fee'') (JStr (cx_feeRecipient cx))
       (fld tx ''nonce'') (lg_nonces L) (fld tx ''recipient'') (fld tx ''sender'') = Inr (b, ns, r)"
    and L': "L' = L\<lparr>lg_balances := b, lg_nonces := ns\<rparr>"
    by (auto simp: paidTransition_def handler_guards applyAuthorizedOrdinaryTransferState_def
        applyAuthorizedMultisigTransferState_def applyMultisigTransferState_def split: if_splits)
  from ordinary_keeps [OF this(1)] obtain a where
    "solvent (lg_balances L) \<longrightarrow> solvent b" "jtotal b = jtotal (lg_balances L)" "fld tx ''sender'' = JStr a"
    "safe_int (fld tx ''nonce'') = Some (jget_or 0 (lg_nonces L) a)"
    "ns = jset a (jget_or 0 (lg_nonces L) a + 1) (lg_nonces L)" by blast
  then show ?thesis by (intro keepsI) (auto simp: L' ledger_ok_def worth_def)
qed

lemma sponsored_transition_keeps:
  assumes "sponsoredTransition cx tx sender payer amount fee L = Inr L'" and "fld tx ''sender'' = JStr sender"
  shows "keeps tx L L'"
proof -
  from assms(1) obtain b ns r where
    step: "applySponsoredTransferState (JBig amount) (lg_balances L) (JBig fee) (JStr payer)
       (fld tx ''feePayerNonce'') (JStr (cx_feeRecipient cx)) (fld tx ''nonce'') (lg_nonces L)
       (fld tx ''recipient'') (JStr sender) = Inr (b, ns, r)"
    and L': "L' = L\<lparr>lg_balances := b, lg_nonces := ns\<rparr>"
    by (auto simp: sponsoredTransition_def handler_guards)
  from step have "solvent (lg_balances L) \<longrightarrow> solvent b" "jtotal b = jtotal (lg_balances L)"
    and "safe_int (fld tx ''nonce'') = Some (jget_or 0 (lg_nonces L) sender)" "payer \<noteq> sender"
    and "ns = jset payer (jget_or 0 (lg_nonces L) payer + 1)
      (jset sender (jget_or 0 (lg_nonces L) sender + 1) (lg_nonces L))"
    by (auto simp: sponsored_Inr_iff nonce_Inr_iff intro: settle_solvent settle_total)
  with assms(2) show ?thesis
    by (auto simp: keeps_def advances_def L' ledger_ok_def worth_def)
qed

lemma credit_transition_keeps:
  assumes "creditTransition cx tx sender sponsor amount fee L = Inr L'" and "fld tx ''sender'' = JStr sender"
  shows "keeps tx L L'"
proof -
  let ?s = "\<lparr>ct_balances = lg_balances L, ct_nonces = lg_nonces L, ct_stakes = ck_stakes (lg_credits L),
    ct_usage = ck_usage (lg_credits L), ct_delegations = ck_delegations (lg_credits L)\<rparr>"
  from assms(1) obtain s r payer payerNonce where
    step: "applyCreditTransferState (JBig amount) ?s (fld tx ''creditOwner'') (JBig fee) payer payerNonce
      (cx_height cx) (fld tx ''nonce'') (fld tx ''recipient'') (JStr sender) = Inr (s, r)"
    and L': "L' = L\<lparr>lg_balances := ct_balances s, lg_nonces := ct_nonces s,
      lg_credits := (lg_credits L)\<lparr>ck_usage := ct_usage s, ck_delegations := ct_delegations s\<rparr>\<rparr>"
    by (auto simp: creditTransition_def handler_guards)
  from credit_Inr [OF step] obtain recipient where
    settled: "settle Balance_underflow (uniq [sender, recipient])
        (creditDeltas sender recipient (cr_amount r)) (lg_balances L) = Inr (ct_balances s)"
    and n: "safe_int (fld tx ''nonce'') = Some (jget_or 0 (lg_nonces L) sender)"
    and ns: "ct_nonces s = (let own = jset sender (jget_or 0 (lg_nonces L) sender + 1) (lg_nonces L) in
       if payer = JUndef then own else jset (cr_owner r) (jget_or 0 (lg_nonces L) (cr_owner r) + 1) own)"
    and other: "payer \<noteq> JUndef \<Longrightarrow> cr_owner r \<noteq> sender"
    by (auto simp: nonce_Inr_iff split: if_splits)
  have "jtotal (ct_balances s) = jtotal (lg_balances L)" by (rule settle_total [OF settled]) simp
  moreover have "solvent (lg_balances L) \<Longrightarrow> solvent (ct_balances s)"
    by (rule settle_solvent [OF settled]) simp
  ultimately show ?thesis
    using n other assms(2) by (auto simp: keeps_def advances_def L' ledger_ok_def worth_def ns Let_def)
qed

lemma authorizationEnvelope_sender:
  "authorizationEnvelope cr tx = Inr (sender, envelope) \<Longrightarrow> fld tx ''sender'' = JStr sender"
  unfolding authorizationEnvelope_def Let_def
  by (cases "fld tx ''signatures''") (auto simp: handler_guards split: if_splits option.splits)

lemma transfer_Inr:
  assumes "applyTransfer cr cx tx L = Inr L'"
  obtains sender envelope sponsor amount fee u where "authorizationEnvelope cr tx = Inr (sender, envelope)"
    and "parseAtomic (fld tx ''amount'') = Inr amount" and "parseAtomic (fld tx ''fee'') = Inr fee"
    and "transferFunds cx sender sponsor (fld tx ''resource'' = JStr ''transfer-credit'')
      (jget_or 0 (lg_balances L) sender) amount fee = Inr u"
    and "(if fld tx ''resource'' = JStr ''transfer-credit'' then creditTransition cx tx sender sponsor amount fee L
      else case sponsor of
        None \<Rightarrow> paidTransition cr cx tx envelope L
      | Some (payer, _) \<Rightarrow> sponsoredTransition cx tx sender payer amount fee L) = Inr L'"
  using assms unfolding applyTransfer_def Let_def
  apply (simp only: bind_r_Inr_iff if_Inl_Inr_iff split_paired_Ex prod.case amountOf_Inr)
  apply (elim exE conjE)
  apply (rule that, assumption+)
  done

lemma transfer_keeps:
  assumes "applyTransfer cr cx tx L = Inr L'"
  shows "keeps tx L L'"
proof -
  from transfer_Inr [OF assms] obtain sender envelope sponsor amount fee where
    "authorizationEnvelope cr tx = Inr (sender, envelope)"
    and step: "(if fld tx ''resource'' = JStr ''transfer-credit'' then creditTransition cx tx sender sponsor amount fee L
      else case sponsor of
        None \<Rightarrow> paidTransition cr cx tx envelope L
      | Some (payer, _) \<Rightarrow> sponsoredTransition cx tx sender payer amount fee L) = Inr L'" by metis
  from authorizationEnvelope_sender [OF this(1)] have "fld tx ''sender'' = JStr sender" .
  with step show ?thesis
    by (auto intro: credit_transition_keeps paid_transition_keeps sponsored_transition_keeps
        split: if_splits option.splits prod.splits)
qed

end
