(* ===== verification/Assets.thy ===== *)
theory Assets
  imports Ledger
begin

text \<open>
  Native assets: \<open>nativeAssetId\<close>, \<open>#assetFeeDecision\<close>, \<open>#chargeAssetFee\<close> and
  \<open>#applyNativeAssetTransaction\<close> of \<open>blockchain/chain.mjs\<close>, the consistency of the registry of
  assets with the balances that are held of them, and the finality of a revoked authority.
\<close>

section \<open>Handlers\<close>

definition SYSTEM_NIR_ASSET_ID :: string where
  "SYSTEM_NIR_ASSET_ID = replicate 64 CHR ''0''"

text \<open>\<open>Buffer.byteLength\<close> of a string of code units below 256.\<close>

definition byteLength :: "string \<Rightarrow> nat" where
  "byteLength s = sum_list (map (\<lambda>c. if unit_of c < 128 then 1 else 2) s)"

definition nativeAssetId :: "crypto \<Rightarrow> jsval \<Rightarrow> string \<Rightarrow> jsval \<Rightarrow> chain_error + string" where
  "nativeAssetId cr networkIdValue creator nonceValue =
     (case networkIdValue of
        JStr networkId \<Rightarrow>
          if length networkId = 0 \<or> byteLength networkId > 64 then Inl (Refused ''asset network id is invalid'')
          else bind_r (assertAddress (JStr creator) ''asset creator'') (\<lambda>_.
            case safe_int nonceValue of
              None \<Rightarrow> Inl (Refused ''asset nonce is invalid'')
            | Some n \<Rightarrow>
                if n < 0 then Inl (Refused ''asset nonce is invalid'')
                else map_err Not_hashable (hashObject cr (JObj [(''creator'', JStr creator),
                       (''networkId'', JStr networkId), (''nonce'', nonceValue)]) ''NATIVE_ASSET_ID_V1''))
      | _ \<Rightarrow> Inl (Refused ''asset network id is invalid''))"

definition assetBalanceKey :: "string \<Rightarrow> string \<Rightarrow> string" where
  "assetBalanceKey assetId account = assetId @ '':'' @ account"

record asset_fee =
  af_sender :: string
  af_balance :: int
  af_expectedNonce :: int
  af_fee :: int

definition assetDomains :: "(string \<times> string) list" where
  "assetDomains = [(''asset-burn'', ''NATIVE_ASSET_BURN''), (''asset-create'', ''NATIVE_ASSET_CREATE''),
     (''asset-mint'', ''NATIVE_ASSET_MINT''), (''asset-revoke-authority'', ''NATIVE_ASSET_REVOKE_AUTHORITY''),
     (''asset-transfer'', ''NATIVE_ASSET_TRANSFER'')]"

definition assetFeeDecision :: "crypto \<Rightarrow> chain_context \<Rightarrow> jsobj \<Rightarrow> ledger \<Rightarrow> string \<Rightarrow> chain_error + asset_fee" where
  "assetFeeDecision cr cx tx L domain =
     (if fld tx ''algorithm'' \<noteq> JStr SIGNATURE_ALGORITHM \<or> fld tx ''networkId'' \<noteq> JStr (cx_networkId cx) \<or>
         \<not> short_string 4000 (fld tx ''publicKey'') \<or> \<not> short_string 7000 (fld tx ''signature'')
      then Inl (Refused ''native asset transaction signature is invalid'')
      else bind_r (signer cr tx domain ''native asset transaction signature is invalid'') (\<lambda>sender.
      bind_r (expectNonce tx (lg_nonces L) sender) (\<lambda>expectedNonce.
      bind_r (amountOf (fld tx ''fee'') ''native asset fee'') (\<lambda>fee.
      let balance = jget_or 0 (lg_balances L) sender in
      if fee < MIN_TRANSFER_FEE \<or> balance < fee then Inl (Refused ''native asset fee is invalid'')
      else bind_r (assertVested cx sender (balance - fee)) (\<lambda>_.
        Inr \<lparr>af_sender = sender, af_balance = balance, af_expectedNonce = expectedNonce, af_fee = fee\<rparr>)))))"

definition chargeAssetFee :: "chain_context \<Rightarrow> asset_fee \<Rightarrow> ledger \<Rightarrow> ledger" where
  "chargeAssetFee cx d L =
     L\<lparr>lg_balances := payFee (af_sender d) (af_balance d - af_fee d) (cx_feeRecipient cx) (af_fee d) (lg_balances L),
       lg_nonces := jset (af_sender d) (af_expectedNonce d + 1) (lg_nonces L)\<rparr>"

definition newAsset :: "string \<Rightarrow> bool \<Rightarrow> int \<Rightarrow> string \<Rightarrow> int \<Rightarrow> int \<Rightarrow> jsval \<Rightarrow> native_asset" where
  "newAsset assetId fixedSupply creationNonce sender maxSupply initialSupply metadataHash =
     \<lparr>na_assetId = assetId, na_authority = (if fixedSupply then None else Some sender),
      na_creationNonce = creationNonce, na_creator = sender, na_fixedSupply = fixedSupply,
      na_maxSupply = maxSupply, na_metadataHash = metadataHash, na_minted = initialSupply,
      na_supply = initialSupply\<rparr>"

definition createAsset :: "crypto \<Rightarrow> jsobj \<Rightarrow> string \<Rightarrow> asset_book \<Rightarrow> chain_error + asset_book" where
  "createAsset cr tx sender book =
     (case (fld tx ''assetId'', fld tx ''fixedSupply'', safe_int (fld tx ''nonce'')) of
        (JStr assetId, JBool fixedSupply, Some creationNonce) \<Rightarrow>
          if jsize (ab_assets book) \<ge> MAX_NATIVE_ASSETS \<or> jhas (ab_assets book) assetId
          then Inl (Refused ''native asset definition is invalid or duplicated'')
          else bind_r (nativeAssetId cr (fld tx ''networkId'') sender (fld tx ''nonce'')) (\<lambda>expectedId.
          if assetId \<noteq> expectedId \<or> \<not> is_hex64 (coerced (fld tx ''metadataHash''))
          then Inl (Refused ''native asset definition is invalid or duplicated'')
          else bind_r (amountOf (fld tx ''initialSupply'') ''native asset initial supply'') (\<lambda>initialSupply.
          bind_r (amountOf (fld tx ''maxSupply'') ''native asset maximum supply'') (\<lambda>maxSupply.
          if maxSupply = 0 \<or> initialSupply > maxSupply \<or> (fixedSupply \<and> initialSupply \<noteq> maxSupply)
          then Inl (Refused ''native asset supply definition is invalid'')
          else if initialSupply > 0 \<and> jsize (ab_balances book) \<ge> MAX_NATIVE_ASSET_BALANCES
          then Inl (Refused ''native asset balance capacity is exhausted'')
          else Inr (book\<lparr>ab_assets := jset assetId
                 (newAsset assetId fixedSupply creationNonce sender maxSupply initialSupply
                   (fld tx ''metadataHash'')) (ab_assets book),
               ab_balances := (if initialSupply > 0
                 then jset (assetBalanceKey assetId sender) initialSupply (ab_balances book)
                 else ab_balances book)\<rparr>))))
      | _ \<Rightarrow> Inl (Refused ''native asset definition is invalid or duplicated''))"

definition mintAsset :: "jsobj \<Rightarrow> string \<Rightarrow> string \<Rightarrow> native_asset \<Rightarrow> asset_book \<Rightarrow> chain_error + asset_book" where
  "mintAsset tx assetId sender asset book =
     bind_r (amountOf (fld tx ''amount'') ''native asset mint amount'') (\<lambda>amount.
     if amount = 0 \<or> na_authority asset \<noteq> Some sender \<or> na_minted asset + amount > na_maxSupply asset
     then Inl (Refused ''native asset mint is unauthorized or exceeds its cap'')
     else let key = assetBalanceKey assetId sender in
     if \<not> jhas (ab_balances book) key \<and> jsize (ab_balances book) \<ge> MAX_NATIVE_ASSET_BALANCES
     then Inl (Refused ''native asset balance capacity is exhausted'')
     else Inr (book\<lparr>ab_assets := jset assetId
            (asset\<lparr>na_minted := na_minted asset + amount, na_supply := na_supply asset + amount\<rparr>) (ab_assets book),
          ab_balances := jset key (jget_or 0 (ab_balances book) key + amount) (ab_balances book)\<rparr>))"

text \<open>\<open>if (balance === amount) delete(key) else set(key, balance - amount)\<close>\<close>

definition withdraw :: "string \<Rightarrow> int \<Rightarrow> balances \<Rightarrow> balances" where
  "withdraw key amount balances =
     (if jget_or 0 balances key = amount then jdel key balances
      else jset key (jget_or 0 balances key - amount) balances)"

definition transferAsset :: "jsobj \<Rightarrow> string \<Rightarrow> string \<Rightarrow> asset_book \<Rightarrow> chain_error + asset_book" where
  "transferAsset tx assetId sender book =
     bind_r (assertAddress (fld tx ''recipient'') ''native asset recipient'') (\<lambda>recipient.
     bind_r (amountOf (fld tx ''amount'') ''native asset transfer amount'') (\<lambda>amount.
     let senderKey = assetBalanceKey assetId sender; recipientKey = assetBalanceKey assetId recipient;
         senderBalance = jget_or 0 (ab_balances book) senderKey in
     if amount = 0 \<or> recipient = sender \<or> senderBalance < amount
     then Inl (Refused ''native asset transfer is invalid or unfunded'')
     else if \<not> jhas (ab_balances book) recipientKey \<and> jsize (ab_balances book) \<ge> MAX_NATIVE_ASSET_BALANCES \<and>
             senderBalance \<noteq> amount
     then Inl (Refused ''native asset balance capacity is exhausted'')
     else let rest = withdraw senderKey amount (ab_balances book) in
       Inr (book\<lparr>ab_balances := jset recipientKey (jget_or 0 rest recipientKey + amount) rest\<rparr>)))"

definition burnAsset :: "jsobj \<Rightarrow> string \<Rightarrow> string \<Rightarrow> native_asset \<Rightarrow> asset_book \<Rightarrow> chain_error + asset_book" where
  "burnAsset tx assetId sender asset book =
     bind_r (amountOf (fld tx ''amount'') ''native asset burn amount'') (\<lambda>amount.
     let key = assetBalanceKey assetId sender in
     if amount = 0 \<or> jget_or 0 (ab_balances book) key < amount
     then Inl (Refused ''native asset burn is invalid or unfunded'')
     else Inr (book\<lparr>ab_balances := withdraw key amount (ab_balances book),
            ab_assets := jset assetId (asset\<lparr>na_supply := na_supply asset - amount\<rparr>) (ab_assets book)\<rparr>))"

definition revokeAuthority :: "string \<Rightarrow> string \<Rightarrow> native_asset \<Rightarrow> asset_book \<Rightarrow> chain_error + asset_book" where
  "revokeAuthority assetId sender asset book =
     (if na_fixedSupply asset \<or> na_authority asset \<noteq> Some sender
      then Inl (Refused ''native asset authority revocation is unauthorized or already final'')
      else Inr (book\<lparr>ab_assets := jset assetId (asset\<lparr>na_authority := None\<rparr>) (ab_assets book)\<rparr>))"

text \<open>What happens to the assets, by the type of the transaction.\<close>

definition changeAssets :: "crypto \<Rightarrow> jsobj \<Rightarrow> string \<Rightarrow> string \<Rightarrow> asset_book \<Rightarrow> chain_error + asset_book" where
  "changeAssets cr tx kind sender book =
     (if kind = ''asset-create'' then createAsset cr tx sender book
      else (case fld tx ''assetId'' of
        JStr assetId \<Rightarrow>
          (case jget (ab_assets book) assetId of
             None \<Rightarrow> Inl (Refused ''native asset is unknown'')
           | Some asset \<Rightarrow>
               if kind = ''asset-mint'' then mintAsset tx assetId sender asset book
               else if kind = ''asset-transfer'' then transferAsset tx assetId sender book
               else if kind = ''asset-burn'' then burnAsset tx assetId sender asset book
               else if kind = ''asset-revoke-authority'' then revokeAuthority assetId sender asset book
               else Inr book)
      | _ \<Rightarrow> Inl (Refused ''native asset is unknown'')))"

definition applyNativeAssetTransaction :: "crypto \<Rightarrow> chain_context \<Rightarrow> jsobj \<Rightarrow> ledger \<Rightarrow> chain_error + ledger" where
  "applyNativeAssetTransaction cr cx tx L =
     (if fld tx ''assetId'' = JStr SYSTEM_NIR_ASSET_ID \<or> \<not> is_hex64 (coerced (fld tx ''assetId''))
      then Inl (Refused ''native asset id is invalid or reserved'')
      else (case fld tx ''type'' of
        JStr kind \<Rightarrow>
          (case map_of assetDomains kind of
             None \<Rightarrow> Inl (Refused ''native asset transaction signature is invalid'')
           | Some domain \<Rightarrow>
               bind_r (assetFeeDecision cr cx tx L domain) (\<lambda>decision.
               bind_r (changeAssets cr tx kind (af_sender decision) (lg_assets L)) (\<lambda>book.
                 Inr (chargeAssetFee cx decision (L\<lparr>lg_assets := book\<rparr>)))))
      | _ \<Rightarrow> Inl (Refused ''native asset transaction signature is invalid'')))"

section \<open>What is held of an asset\<close>

definition heldOf :: "string \<Rightarrow> balances \<Rightarrow> int" where
  "heldOf assetId m = (\<Sum>(k, v) \<leftarrow> m. if take 64 k = assetId then v else 0)"

lemma heldOf_jset:
  "heldOf i (jset k v m) = heldOf i m + (if take 64 k = i then v - jget_or 0 m k else 0)"
  by (induction m) (auto simp: heldOf_def jset_def jget_or_def jget_def)

lemma heldOf_jdel:
  "jwf m \<Longrightarrow> heldOf i (jdel k m) = heldOf i m - (if take 64 k = i then jget_or 0 m k else 0)"
proof (induction m)
  case (Cons p m)
  obtain k' v' where p: "p = (k', v')" by (cases p)
  from Cons.prems p have wf: "k' \<notin> fst ` set m" "jwf m" by (auto simp: jwf_def)
  show ?case
  proof (cases "k' = k")
    case True
    with wf have "jdel k m = m" "jget m k = None"
      by (auto simp: jhas_def jget_def map_of_eq_None_iff intro!: jdel_absent)
    with True p show ?thesis by (simp add: heldOf_def jdel_def jget_def jget_or_def)
  next
    case False
    with Cons.IH [OF wf(2)] p show ?thesis
      by (simp add: heldOf_def jdel_def jget_def jget_or_def)
  qed
qed (simp add: jdel_def jget_or_def jget_def heldOf_def)

lemma heldOf_nonneg: "\<forall>k v. (k, v) \<in> set m \<longrightarrow> 0 \<le> v \<Longrightarrow> 0 \<le> heldOf i m"
  unfolding heldOf_def by (rule sum_list_nonneg) auto

lemma heldOf_withdraw:
  "jwf m \<Longrightarrow> heldOf i (withdraw k amount m) = heldOf i m - (if take 64 k = i then amount else 0)"
  by (simp add: withdraw_def heldOf_jset heldOf_jdel)

lemma take_assetBalanceKey: "length i = 64 \<Longrightarrow> take 64 (assetBalanceKey i a) = i"
  by (simp add: assetBalanceKey_def)

section \<open>The invariant of the registry\<close>

definition asset_ok :: "native_asset \<Rightarrow> bool" where
  "asset_ok a \<longleftrightarrow> 0 \<le> na_supply a \<and> na_supply a \<le> na_minted a \<and> na_minted a \<le> na_maxSupply a \<and>
     0 < na_maxSupply a \<and> (na_fixedSupply a \<longrightarrow> na_authority a = None \<and> na_minted a = na_maxSupply a)"

definition holdings_ok :: "asset_book \<Rightarrow> bool" where
  "holdings_ok book \<longleftrightarrow> jwf (ab_balances book) \<and> jsize (ab_balances book) \<le> MAX_NATIVE_ASSET_BALANCES \<and>
     (\<forall>k v. jget (ab_balances book) k = Some v \<longrightarrow> 0 < v \<and> jhas (ab_assets book) (take 64 k))"

definition assets_ok :: "asset_book \<Rightarrow> bool" where
  "assets_ok book \<longleftrightarrow> holdings_ok book \<and> jsize (ab_assets book) \<le> MAX_NATIVE_ASSETS \<and>
     (\<forall>i a. jget (ab_assets book) i = Some a \<longrightarrow>
        length i = 64 \<and> na_assetId a = i \<and> asset_ok a \<and> na_supply a = heldOf i (ab_balances book))"

lemma assets_ok_empty: "assets_ok \<lparr>ab_assets = [], ab_balances = []\<rparr>"
  by (simp add: assets_ok_def holdings_ok_def jsize_def)

lemma holdings_nonneg: "holdings_ok book \<Longrightarrow> 0 \<le> heldOf i (ab_balances book)"
  by (rule heldOf_nonneg) (auto simp: holdings_ok_def jget_iff_in less_imp_le)

lemma heldOf_unknown:
  assumes "holdings_ok book" and "\<not> jhas (ab_assets book) i"
  shows "heldOf i (ab_balances book) = 0"
proof -
  have "\<forall>(k, v) \<in> set (ab_balances book). take 64 k \<noteq> i"
    using assms by (auto simp: holdings_ok_def jget_iff_in)
  then have "map (\<lambda>(k, v). if take 64 k = i then v else 0) (ab_balances book) = map (\<lambda>_. 0) (ab_balances book)"
    by (intro map_cong) auto
  then show ?thesis unfolding heldOf_def by (simp only:) simp
qed

text \<open>Changing one asset and what is held of it, by the same amount.\<close>

lemma assets_ok_change:
  assumes "assets_ok book" and "asset_ok a'" and "na_assetId a' = i" and "length i = 64"
    and "jsize (jset i a' (ab_assets book)) \<le> MAX_NATIVE_ASSETS"
    and "na_supply a' = heldOf i m"
    and "\<And>j. j \<noteq> i \<Longrightarrow> heldOf j m = heldOf j (ab_balances book)"
    and "holdings_ok \<lparr>ab_assets = jset i a' (ab_assets book), ab_balances = m\<rparr>"
  shows "assets_ok (book\<lparr>ab_assets := jset i a' (ab_assets book), ab_balances := m\<rparr>)"
  using assms unfolding assets_ok_def holdings_ok_def by (auto split: if_splits)

lemma holdings_ok_jset:
  assumes "holdings_ok book" and "0 < v" and "jhas assets (take 64 k)"
    and "jhas (ab_balances book) k \<or> jsize (ab_balances book) < MAX_NATIVE_ASSET_BALANCES"
    and "\<And>j. jhas (ab_assets book) j \<Longrightarrow> jhas assets j"
  shows "holdings_ok \<lparr>ab_assets = assets, ab_balances = jset k v (ab_balances book)\<rparr>"
  using assms by (auto simp: holdings_ok_def jsize_jset split: if_splits)

lemma holdings_ok_withdraw:
  assumes "holdings_ok book" and "0 < amount" and "amount \<le> jget_or 0 (ab_balances book) k"
    and "\<And>j. jhas (ab_assets book) j \<Longrightarrow> jhas assets j"
  shows "holdings_ok \<lparr>ab_assets = assets, ab_balances = withdraw k amount (ab_balances book)\<rparr>"
proof -
  from assms(2,3) have has: "jhas (ab_balances book) k"
    by (cases "jget (ab_balances book) k") (auto simp: jhas_def jget_or_def)
  with assms show ?thesis
    by (auto simp: holdings_ok_def withdraw_def jsize_jset jsize_jdel split: if_splits)
      (auto simp: jhas_def)
qed

lemma holdings_get: "holdings_ok book \<Longrightarrow> 0 \<le> jget_or 0 (ab_balances book) k"
  by (auto simp: holdings_ok_def jget_or_def less_imp_le split: option.splits)

lemma address_length: "is_address a \<Longrightarrow> length a = 68"
  by (auto simp: is_address_def is_hex64_def)

lemma createAsset_Inr:
  assumes "createAsset cr tx sender book = Inr book'"
  obtains i fixed n initial cap where "fld tx ''assetId'' = JStr i"
    and "\<not> jhas (ab_assets book) i" and "jsize (ab_assets book) < MAX_NATIVE_ASSETS"
    and "0 \<le> initial" and "initial \<le> cap" and "0 < cap" and "fixed \<longrightarrow> initial = cap"
    and "initial > 0 \<longrightarrow> jsize (ab_balances book) < MAX_NATIVE_ASSET_BALANCES"
    and "book' = book\<lparr>ab_assets := jset i (newAsset i fixed n sender cap initial (fld tx ''metadataHash''))
         (ab_assets book),
       ab_balances := (if initial > 0 then jset (assetBalanceKey i sender) initial (ab_balances book)
         else ab_balances book)\<rparr>"
proof -
  from assms obtain i fixed n where f: "fld tx ''assetId'' = JStr i" "fld tx ''fixedSupply'' = JBool fixed"
    "safe_int (fld tx ''nonce'') = Some n"
    by (auto simp: createAsset_def split: jsval.splits option.splits)
  from assms obtain initial cap where *: "\<not> jhas (ab_assets book) i" "jsize (ab_assets book) < MAX_NATIVE_ASSETS"
    "parseAtomic (fld tx ''initialSupply'') = Inr initial" "initial \<le> cap"
    "parseAtomic (fld tx ''maxSupply'') = Inr cap" "cap \<noteq> 0" "fixed \<longrightarrow> initial = cap"
    "initial > 0 \<longrightarrow> jsize (ab_balances book) < MAX_NATIVE_ASSET_BALANCES"
    "book' = book\<lparr>ab_assets := jset i (newAsset i fixed n sender cap initial (fld tx ''metadataHash''))
         (ab_assets book),
       ab_balances := (if initial > 0 then jset (assetBalanceKey i sender) initial (ab_balances book)
         else ab_balances book)\<rparr>"
    by (auto simp: createAsset_def f inversion not_le not_less split del: if_split)
  then show ?thesis
    using that [OF f(1) *(1,2) _ *(4) _ *(7-9)] parseAtomic_range [OF *(3)] parseAtomic_range [OF *(5)] by simp
qed

lemma holdings_ok_more:
  assumes "holdings_ok book"
  shows "holdings_ok \<lparr>ab_assets = jset i a (ab_assets book), ab_balances = ab_balances book\<rparr>"
  using assms by (auto simp: holdings_ok_def)

lemma createAsset_ok:
  assumes "assets_ok book" and "createAsset cr tx sender book = Inr book'"
    and "is_hex64 (coerced (fld tx ''assetId''))"
  shows "assets_ok book'"
  using assms(2)
proof (rule createAsset_Inr)
  fix i fixed n initial cap
  let ?a = "newAsset i fixed n sender cap initial (fld tx ''metadataHash'')"
  let ?m = "if initial > 0 then jset (assetBalanceKey i sender) initial (ab_balances book) else ab_balances book"
  assume i: "fld tx ''assetId'' = JStr i"
    and fresh: "\<not> jhas (ab_assets book) i" "jsize (ab_assets book) < MAX_NATIVE_ASSETS"
    and sane: "0 \<le> initial" "initial \<le> cap" "0 < cap" "fixed \<longrightarrow> initial = cap"
    and room: "initial > 0 \<longrightarrow> jsize (ab_balances book) < MAX_NATIVE_ASSET_BALANCES"
    and book': "book' = book\<lparr>ab_assets := jset i ?a (ab_assets book), ab_balances := ?m\<rparr>"
  have len: "length i = 64" using assms(3) i by (simp add: is_hex64_def)
  have hold: "holdings_ok book" using assms(1) by (simp add: assets_ok_def)
  have zero: "heldOf i (ab_balances book) = 0" by (rule heldOf_unknown [OF hold fresh(1)])
  have "jget (ab_balances book) (assetBalanceKey i sender) = None"
    using hold fresh(1) take_assetBalanceKey [OF len, of sender]
    by (metis holdings_ok_def not_None_eq)
  then have none: "jget_or 0 (ab_balances book) (assetBalanceKey i sender) = 0" by (simp add: jget_or_def)
  show ?thesis
    unfolding book'
  proof (rule assets_ok_change [OF assms(1)])
    show "asset_ok ?a" using sane by (simp add: asset_ok_def newAsset_def)
    show "na_supply ?a = heldOf i ?m"
      using sane by (simp add: newAsset_def heldOf_jset take_assetBalanceKey len none zero)
    show "heldOf j ?m = heldOf j (ab_balances book)" if "j \<noteq> i" for j
      using that by (simp add: heldOf_jset take_assetBalanceKey len)
    show "holdings_ok \<lparr>ab_assets = jset i ?a (ab_assets book), ab_balances = ?m\<rparr>"
      using hold room by (auto intro: holdings_ok_more holdings_ok_jset simp: take_assetBalanceKey len)
  qed (use len fresh in \<open>simp_all add: newAsset_def jsize_jset\<close>)
qed

lemma assets_okD:
  "assets_ok book \<Longrightarrow> holdings_ok book"
  "assets_ok book \<Longrightarrow> jget (ab_assets book) i = Some a \<Longrightarrow>
     length i = 64 \<and> na_assetId a = i \<and> asset_ok a \<and> na_supply a = heldOf i (ab_balances book)"
  "assets_ok book \<Longrightarrow> jget (ab_assets book) i = Some a \<Longrightarrow> jsize (jset i a' (ab_assets book)) \<le> MAX_NATIVE_ASSETS"
  by (auto simp: assets_ok_def jsize_jset jhas_def)

lemma mintAsset_ok:
  assumes "assets_ok book" and "jget (ab_assets book) i = Some a" and "mintAsset tx i sender a book = Inr book'"
  shows "assets_ok book'"
proof -
  from assms(3) obtain amount where amount: "parseAtomic (fld tx ''amount'') = Inr amount" "amount \<noteq> 0"
    and auth: "na_authority a = Some sender" "na_minted a + amount \<le> na_maxSupply a"
    and room: "jhas (ab_balances book) (assetBalanceKey i sender) \<or>
      jsize (ab_balances book) < MAX_NATIVE_ASSET_BALANCES"
    and book': "book' = book\<lparr>ab_assets := jset i
        (a\<lparr>na_minted := na_minted a + amount, na_supply := na_supply a + amount\<rparr>) (ab_assets book),
      ab_balances := jset (assetBalanceKey i sender)
        (jget_or 0 (ab_balances book) (assetBalanceKey i sender) + amount) (ab_balances book)\<rparr>"
    by (auto simp: mintAsset_def inversion not_le not_less Let_def)
  note a = assets_okD(2) [OF assms(1,2)]
  have pos: "0 < amount" using parseAtomic_range [OF amount(1)] amount(2) by simp
  show ?thesis
    unfolding book'
  proof (rule assets_ok_change [OF assms(1)])
    show "asset_ok (a\<lparr>na_minted := na_minted a + amount, na_supply := na_supply a + amount\<rparr>)"
      using a auth pos by (auto simp: asset_ok_def)
    show "holdings_ok \<lparr>ab_assets = jset i (a\<lparr>na_minted := na_minted a + amount, na_supply := na_supply a + amount\<rparr>)
        (ab_assets book), ab_balances = jset (assetBalanceKey i sender)
        (jget_or 0 (ab_balances book) (assetBalanceKey i sender) + amount) (ab_balances book)\<rparr>"
      using pos room a assets_okD(1) [OF assms(1)] holdings_get [OF assets_okD(1) [OF assms(1)]]
      by (intro holdings_ok_jset) (auto simp: take_assetBalanceKey add_nonneg_pos)
  qed (use a assets_okD(3) [OF assms(1,2)] in \<open>simp_all add: heldOf_jset take_assetBalanceKey\<close>)
qed

lemma burnAsset_ok:
  assumes "assets_ok book" and "jget (ab_assets book) i = Some a" and "burnAsset tx i sender a book = Inr book'"
  shows "assets_ok book'"
proof -
  let ?key = "assetBalanceKey i sender"
  from assms(3) obtain amount where amount: "parseAtomic (fld tx ''amount'') = Inr amount" "amount \<noteq> 0"
    and enough: "amount \<le> jget_or 0 (ab_balances book) ?key"
    and book': "book' = book\<lparr>ab_assets := jset i (a\<lparr>na_supply := na_supply a - amount\<rparr>) (ab_assets book),
      ab_balances := withdraw ?key amount (ab_balances book)\<rparr>"
    by (auto simp: burnAsset_def inversion not_le not_less Let_def)
  note a = assets_okD(2) [OF assms(1,2)]
  have pos: "0 < amount" using parseAtomic_range [OF amount(1)] amount(2) by simp
  have wf: "jwf (ab_balances book)" using assets_okD(1) [OF assms(1)] by (simp add: holdings_ok_def)
  have held: "heldOf i (withdraw ?key amount (ab_balances book)) = na_supply a - amount"
    using a by (simp add: heldOf_withdraw [OF wf] take_assetBalanceKey)
  have hold: "holdings_ok \<lparr>ab_assets = jset i (a\<lparr>na_supply := na_supply a - amount\<rparr>) (ab_assets book),
      ab_balances = withdraw ?key amount (ab_balances book)\<rparr>"
    by (rule holdings_ok_withdraw [OF assets_okD(1) [OF assms(1)] pos enough]) simp
  from holdings_nonneg [OF hold, of i] have "amount \<le> na_supply a" by (simp add: held)
  with a pos have ok: "asset_ok (a\<lparr>na_supply := na_supply a - amount\<rparr>)" by (auto simp: asset_ok_def)
  show ?thesis
    unfolding book' by (rule assets_ok_change [OF assms(1) ok _ _ _ _ _ hold])
      (use a assets_okD(3) [OF assms(1,2)] in \<open>simp_all add: held heldOf_withdraw [OF wf] take_assetBalanceKey\<close>)
qed

lemma transferAsset_ok:
  assumes "assets_ok book" and "jget (ab_assets book) i = Some a" and "transferAsset tx i sender book = Inr book'"
  shows "assets_ok book' \<and> ab_assets book' = ab_assets book"
proof -
  from assms(3) obtain recipient amount where amount: "parseAtomic (fld tx ''amount'') = Inr amount" "amount \<noteq> 0"
    and other: "recipient \<noteq> sender"
    and enough: "amount \<le> jget_or 0 (ab_balances book) (assetBalanceKey i sender)"
    and room: "jhas (ab_balances book) (assetBalanceKey i recipient) \<or>
      jsize (ab_balances book) < MAX_NATIVE_ASSET_BALANCES \<or>
      jget_or 0 (ab_balances book) (assetBalanceKey i sender) = amount"
    and book': "book' = book\<lparr>ab_balances :=
      (let rest = withdraw (assetBalanceKey i sender) amount (ab_balances book) in
       jset (assetBalanceKey i recipient) (jget_or 0 rest (assetBalanceKey i recipient) + amount) rest)\<rparr>"
    by (auto simp: transferAsset_def inversion not_le not_less Let_def)
  let ?from = "assetBalanceKey i sender" and ?to = "assetBalanceKey i recipient"
  let ?rest = "withdraw ?from amount (ab_balances book)"
  let ?mid = "\<lparr>ab_assets = ab_assets book, ab_balances = ?rest\<rparr>"
  note a = assets_okD(2) [OF assms(1,2)]
  have pos: "0 < amount" using parseAtomic_range [OF amount(1)] amount(2) by simp
  have wf: "jwf (ab_balances book)" using assets_okD(1) [OF assms(1)] by (simp add: holdings_ok_def)
  have mid: "holdings_ok ?mid" by (rule holdings_ok_withdraw [OF assets_okD(1) [OF assms(1)] pos enough])
  have has: "jhas (ab_balances book) ?from"
    using enough pos by (cases "jget (ab_balances book) ?from") (auto simp: jhas_def jget_or_def)
  have "?from \<noteq> ?to" using other by (simp add: assetBalanceKey_def)
  then have "jhas ?rest ?to \<or> jsize ?rest < MAX_NATIVE_ASSET_BALANCES"
    using room has wf assets_okD(1) [OF assms(1)]
    by (auto simp: withdraw_def jsize_jset jsize_jdel holdings_ok_def MAX_NATIVE_ASSET_BALANCES_def)
  then have "holdings_ok \<lparr>ab_assets = ab_assets book, ab_balances = jset ?to (jget_or 0 ?rest ?to + amount) ?rest\<rparr>"
    using holdings_ok_jset [OF mid, of "jget_or 0 ?rest ?to + amount" "ab_assets book" ?to]
      holdings_get [OF mid, of ?to] pos a assms(2)
    by (simp add: take_assetBalanceKey jhas_Some)
  moreover have "heldOf j (jset ?to (jget_or 0 ?rest ?to + amount) ?rest) = heldOf j (ab_balances book)" for j
    using a by (simp add: heldOf_jset heldOf_withdraw [OF wf] take_assetBalanceKey)
  ultimately show ?thesis
    using assms(1) by (auto simp: assets_ok_def book' Let_def holdings_ok_def)
qed

lemma revokeAuthority_ok:
  assumes "assets_ok book" and "jget (ab_assets book) i = Some a" and "revokeAuthority i sender a book = Inr book'"
  shows "assets_ok book'"
proof -
  let ?a = "a\<lparr>na_authority := None\<rparr>"
  note a = assets_okD(2) [OF assms(1,2)]
  from assms(3) have book': "book' = book\<lparr>ab_assets := jset i ?a (ab_assets book)\<rparr>" and ok: "asset_ok ?a"
    using a by (auto simp: revokeAuthority_def asset_ok_def split: if_splits)
  have "assets_ok (book\<lparr>ab_assets := jset i ?a (ab_assets book), ab_balances := ab_balances book\<rparr>)"
    by (rule assets_ok_change [OF assms(1) ok])
      (use a assets_okD(3) [OF assms(1,2)] holdings_ok_more [OF assets_okD(1) [OF assms(1)]] in simp_all)
  then show ?thesis by (simp add: book')
qed

lemma changeAssets_ok:
  assumes "assets_ok book" and "changeAssets cr tx kind sender book = Inr book'"
    and "is_hex64 (coerced (fld tx ''assetId''))"
  shows "assets_ok book'"
  using assms unfolding changeAssets_def
  by (auto split: if_splits jsval.splits option.splits
      intro: createAsset_ok mintAsset_ok burnAsset_ok revokeAuthority_ok transferAsset_ok [THEN conjunct1])

section \<open>The handler\<close>

text \<open>A sequence of asset transactions, each applied in the context of its own block.\<close>

definition asset_step :: "crypto \<Rightarrow> ledger \<Rightarrow> chain_context \<times> jsobj \<Rightarrow> chain_error + ledger" where
  "asset_step cr L op = applyNativeAssetTransaction cr (fst op) (snd op) L"

lemma asset_handler_Inr:
  assumes "applyNativeAssetTransaction cr cx tx L = Inr L'"
  obtains kind d book where "fld tx ''type'' = JStr kind"
    and "is_hex64 (coerced (fld tx ''assetId''))"
    and "fld tx ''sender'' = JStr (af_sender d)"
    and "safe_int (fld tx ''nonce'') = Some (jget_or 0 (lg_nonces L) (af_sender d))"
    and "af_expectedNonce d = jget_or 0 (lg_nonces L) (af_sender d)"
    and "af_balance d = jget_or 0 (lg_balances L) (af_sender d)"
    and "MIN_TRANSFER_FEE \<le> af_fee d" and "af_fee d \<le> af_balance d"
    and "changeAssets cr tx kind (af_sender d) (lg_assets L) = Inr book"
    and "L' = chargeAssetFee cx d (L\<lparr>lg_assets := book\<rparr>)"
proof -
  from assms obtain kind domain d book where "fld tx ''type'' = JStr kind"
    "is_hex64 (coerced (fld tx ''assetId''))"
    "assetFeeDecision cr cx tx L domain = Inr d"
    "changeAssets cr tx kind (af_sender d) (lg_assets L) = Inr book"
    "L' = chargeAssetFee cx d (L\<lparr>lg_assets := book\<rparr>)"
    by (auto simp: applyNativeAssetTransaction_def inversion split: jsval.splits option.splits)
  moreover from this(3) have "fld tx ''sender'' = JStr (af_sender d)"
    "safe_int (fld tx ''nonce'') = Some (jget_or 0 (lg_nonces L) (af_sender d))"
    "af_expectedNonce d = jget_or 0 (lg_nonces L) (af_sender d)"
    "af_balance d = jget_or 0 (lg_balances L) (af_sender d)"
    "MIN_TRANSFER_FEE \<le> af_fee d" "af_fee d \<le> af_balance d"
    by (auto simp: assetFeeDecision_def handler_guards Let_def)
  ultimately show ?thesis using that by blast
qed

lemma asset_keeps:
  assumes "applyNativeAssetTransaction cr cx tx L = Inr L'"
  shows "keeps tx L L'"
proof -
  from asset_handler_Inr [OF assms] obtain kind d book where
    d: "fld tx ''sender'' = JStr (af_sender d)"
    "safe_int (fld tx ''nonce'') = Some (jget_or 0 (lg_nonces L) (af_sender d))"
    "af_expectedNonce d = jget_or 0 (lg_nonces L) (af_sender d)"
    "af_balance d = jget_or 0 (lg_balances L) (af_sender d)"
    "MIN_TRANSFER_FEE \<le> af_fee d" "af_fee d \<le> af_balance d"
    and L': "L' = chargeAssetFee cx d (L\<lparr>lg_assets := book\<rparr>)" by metis
  show ?thesis
    by (rule keepsI [OF d(1,2)])
      (use d(3-6) in \<open>simp_all add: L' chargeAssetFee_def ledger_ok_def ledger_rules worth_rules MIN_TRANSFER_FEE_def\<close>)
qed

interpretation assets: guarded_machine "asset_step cr" "\<lambda>L. assets_ok (lg_assets L)"
proof unfold_locales
  fix L op L'
  assume ok: "assets_ok (lg_assets L)" and "asset_step cr L op = Inr L'"
  then have "applyNativeAssetTransaction cr (fst op) (snd op) L = Inr L'" by (simp add: asset_step_def)
  from asset_handler_Inr [OF this] obtain kind d book where
    "is_hex64 (coerced (fld (snd op) ''assetId''))"
    "changeAssets cr (snd op) kind (af_sender d) (lg_assets L) = Inr book"
    "L' = chargeAssetFee (fst op) d (L\<lparr>lg_assets := book\<rparr>)" by metis
  with changeAssets_ok [OF ok] show "assets_ok (lg_assets L')" by (simp add: chargeAssetFee_def)
qed

text \<open>
  C18: whatever asset transactions are applied from a chain without assets, the supply of every asset
  is the sum of what is held of it, at most what was minted, which is at most its cap; a fixed supply
  is minted in full and has no authority; every balance is positive and of a registered asset.
\<close>

theorem asset_supply_backed:
  assumes "lg_assets L = \<lparr>ab_assets = [], ab_balances = []\<rparr>" and "foldM (asset_step cr) L ops = Inr L'"
  shows "(\<forall>i a. jget (ab_assets (lg_assets L')) i = Some a \<longrightarrow>
       na_supply a = heldOf i (ab_balances (lg_assets L')) \<and> 0 \<le> na_supply a \<and>
       na_supply a \<le> na_minted a \<and> na_minted a \<le> na_maxSupply a \<and>
       (na_fixedSupply a \<longrightarrow> na_authority a = None \<and> na_minted a = na_maxSupply a)) \<and>
     (\<forall>k v. jget (ab_balances (lg_assets L')) k = Some v \<longrightarrow>
       0 < v \<and> jhas (ab_assets (lg_assets L')) (take 64 k))"
proof -
  have "assets_ok (lg_assets L)" by (simp add: assms(1) assets_ok_empty)
  from assets.run_inv [OF this assms(2)] have "assets_ok (lg_assets L')" .
  then show ?thesis unfolding assets_ok_def holdings_ok_def asset_ok_def by blast
qed

section \<open>A revoked authority\<close>

definition minting_closed :: "string \<Rightarrow> int \<Rightarrow> int \<Rightarrow> asset_book \<Rightarrow> bool" where
  "minting_closed i minted cap book \<longleftrightarrow> (\<exists>a. jget (ab_assets book) i = Some a \<and> na_authority a = None \<and>
     na_minted a = minted \<and> na_maxSupply a = cap)"

lemma changeAssets_closed:
  assumes "minting_closed i minted cap book" and "changeAssets cr tx kind sender book = Inr book'"
  shows "minting_closed i minted cap book'"
  using assms(2) unfolding changeAssets_def
proof (cases "kind = ''asset-create''")
  case True
  with assms(2) have "createAsset cr tx sender book = Inr book'" by (simp add: changeAssets_def)
  then show ?thesis
    by (rule createAsset_Inr) (use assms(1) in \<open>auto simp: minting_closed_def jhas_def\<close>)
next
  case False
  with assms(2) obtain j a where j: "jget (ab_assets book) j = Some a"
    and step: "mintAsset tx j sender a book = Inr book' \<or> transferAsset tx j sender book = Inr book' \<or>
      burnAsset tx j sender a book = Inr book' \<or> revokeAuthority j sender a book = Inr book' \<or> book' = book"
    by (auto simp: changeAssets_def split: if_splits jsval.splits option.splits)
  from step assms(1) j show ?thesis
    by (auto simp: minting_closed_def mintAsset_def transferAsset_def burnAsset_def revokeAuthority_def
        inversion Let_def split: if_splits)
qed

interpretation closed: guarded_machine "asset_step cr" "\<lambda>L. minting_closed i minted cap (lg_assets L)"
proof unfold_locales
  fix L op L'
  assume ok: "minting_closed i minted cap (lg_assets L)" and "asset_step cr L op = Inr L'"
  then have "applyNativeAssetTransaction cr (fst op) (snd op) L = Inr L'" by (simp add: asset_step_def)
  from asset_handler_Inr [OF this] obtain kind d book where
    "changeAssets cr (snd op) kind (af_sender d) (lg_assets L) = Inr book"
    "L' = chargeAssetFee (fst op) d (L\<lparr>lg_assets := book\<rparr>)" by metis
  with changeAssets_closed [OF ok] show "minting_closed i minted cap (lg_assets L')"
    by (simp add: chargeAssetFee_def)
qed

text \<open>
  once an asset has no authority, by a fixed supply or by revoking it, no sequence of asset
  transactions mints a unit of it, gives it an authority again, or raises its supply or its cap.
\<close>

theorem asset_authority_final:
  assumes "jget (ab_assets (lg_assets L)) i = Some a" and "na_authority a = None"
    and "foldM (asset_step cr) L ops = Inr L'"
  shows "\<exists>a'. jget (ab_assets (lg_assets L')) i = Some a' \<and> na_authority a' = None \<and>
    na_minted a' = na_minted a \<and> na_maxSupply a' = na_maxSupply a"
proof -
  have "minting_closed i (na_minted a) (na_maxSupply a) (lg_assets L)"
    using assms(1,2) by (simp add: minting_closed_def)
  from closed.run_inv [OF this assms(3)] show ?thesis by (auto simp: minting_closed_def)
qed

section \<open>Witnesses\<close>

definition demo_asset :: string where
  "demo_asset = replicate 64 CHR ''d''"

definition demo_create :: jsobj where
  "demo_create = demo_tx ''asset-create'' 0 [(''assetId'', JStr demo_asset), (''fee'', JStr ''1000''),
     (''fixedSupply'', JBool False), (''initialSupply'', JStr ''5''), (''maxSupply'', JStr ''10''),
     (''metadataHash'', JStr (replicate 64 CHR ''c''))]"

definition demo_mint :: jsobj where
  "demo_mint = demo_tx ''asset-mint'' 1 [(''amount'', JStr ''3''), (''assetId'', JStr demo_asset), (''fee'', JStr ''1000'')]"

definition demo_revoke :: jsobj where
  "demo_revoke = demo_tx ''asset-revoke-authority'' 1 [(''assetId'', JStr demo_asset), (''fee'', JStr ''1000'')]"

definition demo_burn :: jsobj where
  "demo_burn = demo_tx ''asset-burn'' 2 [(''amount'', JStr ''2''), (''assetId'', JStr demo_asset), (''fee'', JStr ''1000'')]"

definition demo_funded :: ledger where
  "demo_funded = empty_ledger\<lparr>lg_balances := [(demo_address CHR ''d'', 10000)]\<rparr>"

text \<open>The ledger after some of these transactions, with the assets given.\<close>

definition demo_charged :: "int \<Rightarrow> asset_book \<Rightarrow> ledger" where
  "demo_charged n book = empty_ledger\<lparr>
     lg_balances := (if n = 0 then [(demo_address CHR ''d'', 10000)]
       else [(demo_address CHR ''d'', 10000 - 1000 * n), (demo_address CHR ''b'', 1000 * n)]),
     lg_nonces := (if n = 0 then [] else [(demo_address CHR ''d'', n)]), lg_assets := book\<rparr>"

definition demo_book :: "string option \<Rightarrow> int \<Rightarrow> int \<Rightarrow> asset_book" where
  "demo_book authority minted supply = \<lparr>
     ab_assets = [(demo_asset, (newAsset demo_asset False 0 (demo_address CHR ''d'') 10 minted
        (JStr (replicate 64 CHR ''c'')))\<lparr>na_authority := authority, na_supply := supply\<rparr>)],
     ab_balances = [(assetBalanceKey demo_asset (demo_address CHR ''d''), supply)]\<rparr>"

lemma demo_asset_signers:
  "signer demo_crypto demo_create ''NATIVE_ASSET_CREATE'' m = Inr (demo_address CHR ''d'')"
  "signer demo_crypto demo_mint ''NATIVE_ASSET_MINT'' m = Inr (demo_address CHR ''d'')"
  "signer demo_crypto demo_revoke ''NATIVE_ASSET_REVOKE_AUTHORITY'' m = Inr (demo_address CHR ''d'')"
  "signer demo_crypto demo_burn ''NATIVE_ASSET_BURN'' m = Inr (demo_address CHR ''d'')"
  by (rule demo_signer [where k = "''key''" and s = "''sig''"]; code_simp)+

lemma demo_asset_fees:
  "assetFeeDecision demo_crypto demo_context demo_create demo_funded ''NATIVE_ASSET_CREATE'' =
   Inr \<lparr>af_sender = demo_address CHR ''d'', af_balance = 10000, af_expectedNonce = 0, af_fee = 1000\<rparr>"
  "assetFeeDecision demo_crypto demo_context demo_mint (demo_charged 1 (demo_book (Some (demo_address CHR ''d'')) 5 5))
     ''NATIVE_ASSET_MINT'' =
   Inr \<lparr>af_sender = demo_address CHR ''d'', af_balance = 9000, af_expectedNonce = 1, af_fee = 1000\<rparr>"
  "assetFeeDecision demo_crypto demo_context demo_burn (demo_charged 2 (demo_book None 5 5)) ''NATIVE_ASSET_BURN'' =
   Inr \<lparr>af_sender = demo_address CHR ''d'', af_balance = 8000, af_expectedNonce = 2, af_fee = 1000\<rparr>"
  unfolding assetFeeDecision_def demo_asset_signers by code_simp+

lemma demo_asset_id:
  "nativeAssetId demo_crypto (JStr ''nir-test'') (demo_address CHR ''d'') (JNum 0) = Inr demo_asset"
proof -
  have "json_ok (JObj [(''creator'', JStr (demo_address CHR ''d'')), (''networkId'', JStr ''nir-test''),
      (''nonce'', JNum 0)])" by code_simp
  then have "hashObject demo_crypto (JObj [(''creator'', JStr (demo_address CHR ''d'')),
      (''networkId'', JStr ''nir-test''), (''nonce'', JNum 0)]) ''NATIVE_ASSET_ID_V1'' = Inr demo_asset"
    unfolding demo_asset_def by (rule demo_hash) code_simp
  then show ?thesis unfolding nativeAssetId_def by simp code_simp
qed

lemma demo_tx_fields:
  "fld demo_create ''type'' = JStr ''asset-create''" "fld demo_create ''assetId'' = JStr demo_asset"
  "fld demo_create ''fixedSupply'' = JBool False" "fld demo_create ''initialSupply'' = JStr ''5''"
  "fld demo_create ''maxSupply'' = JStr ''10''" "fld demo_create ''metadataHash'' = JStr (replicate 64 CHR ''c'')"
  "fld demo_create ''networkId'' = JStr ''nir-test''" "fld demo_create ''nonce'' = JNum 0"
  "fld demo_mint ''type'' = JStr ''asset-mint''" "fld demo_mint ''assetId'' = JStr demo_asset"
  "fld demo_mint ''amount'' = JStr ''3''"
  "fld demo_burn ''type'' = JStr ''asset-burn''" "fld demo_burn ''assetId'' = JStr demo_asset"
  "fld demo_burn ''amount'' = JStr ''2''"
  by code_simp+

lemma demo_asset_facts:
  "coerced (JStr demo_asset) = demo_asset" "is_hex64 demo_asset" "demo_asset \<noteq> SYSTEM_NIR_ASSET_ID"
  "coerced (JStr (replicate 64 CHR ''c'')) = replicate 64 CHR ''c''" "is_hex64 (replicate 64 CHR ''c'')"
  "amountOf (JStr ''2'') f = Inr 2" "amountOf (JStr ''3'') f = Inr 3" "amountOf (JStr ''5'') f = Inr 5"
  "amountOf (JStr ''10'') f = Inr 10" "safe_int (JNum 0) = Some 0"
  "map_of assetDomains ''asset-create'' = Some ''NATIVE_ASSET_CREATE''"
  "map_of assetDomains ''asset-mint'' = Some ''NATIVE_ASSET_MINT''"
  "map_of assetDomains ''asset-burn'' = Some ''NATIVE_ASSET_BURN''"
  by code_simp+

lemma demo_charge:
  assumes "0 \<le> n"
  shows "chargeAssetFee demo_context \<lparr>af_sender = demo_address CHR ''d'', af_balance = 10000 - 1000 * n,
      af_expectedNonce = n, af_fee = 1000\<rparr> ((demo_charged n book)\<lparr>lg_assets := book'\<rparr>) = demo_charged (n + 1) book'"
proof -
  have "demo_address CHR ''d'' \<noteq> demo_address CHR ''b''" by code_simp
  moreover have "n + 1 \<noteq> 0" using assms by simp
  ultimately show ?thesis
    by (simp add: chargeAssetFee_def demo_charged_def payFee_def Let_def jset_def jget_or_def jget_def
        demo_context_def)
qed

lemma demo_charged_assets [simp]: "lg_assets (demo_charged n book) = book"
  by (simp add: demo_charged_def)

lemma demo_uncharged: "demo_funded = demo_charged 0 \<lparr>ab_assets = [], ab_balances = []\<rparr>"
  by (simp add: demo_funded_def demo_charged_def empty_ledger_def)

lemmas demo_asset_run = asset_step_def applyNativeAssetTransaction_def demo_tx_fields demo_asset_facts demo_asset_fees

lemma demo_created:
  "asset_step demo_crypto demo_funded (demo_context, demo_create) =
   Inr (demo_charged 1 (demo_book (Some (demo_address CHR ''d'')) 5 5))"
proof -
  have "changeAssets demo_crypto demo_create ''asset-create'' (demo_address CHR ''d'') (lg_assets demo_funded) =
      Inr (demo_book (Some (demo_address CHR ''d'')) 5 5)"
    by (simp add: changeAssets_def createAsset_def demo_tx_fields demo_asset_facts demo_asset_id
        demo_funded_def empty_ledger_def jsize_def demo_book_def newAsset_def MAX_NATIVE_ASSETS_def
        MAX_NATIVE_ASSET_BALANCES_def jset_def del: safe_int.simps)
  then show ?thesis
    using demo_charge [where n = 0 and book = "\<lparr>ab_assets = [], ab_balances = []\<rparr>", folded demo_uncharged]
    by (simp add: demo_asset_run)
qed

lemma demo_minted:
  "asset_step demo_crypto (demo_charged 1 (demo_book (Some (demo_address CHR ''d'')) 5 5)) (demo_context, demo_mint) =
   Inr (demo_charged 2 (demo_book (Some (demo_address CHR ''d'')) 8 8))"
proof -
  have "changeAssets demo_crypto demo_mint ''asset-mint'' (demo_address CHR ''d'')
      (demo_book (Some (demo_address CHR ''d'')) 5 5) = Inr (demo_book (Some (demo_address CHR ''d'')) 8 8)"
    by (simp add: changeAssets_def mintAsset_def demo_tx_fields demo_asset_facts demo_book_def newAsset_def
        jset_def jget_def jget_or_def Let_def jhas_def)
  then show ?thesis
    using demo_charge [where n = 1 and book = "demo_book (Some (demo_address CHR ''d'')) 5 5"]
    by (simp add: demo_asset_run)
qed

lemma demo_burned:
  "asset_step demo_crypto (demo_charged 2 (demo_book None 5 5)) (demo_context, demo_burn) =
   Inr (demo_charged 3 (demo_book None 5 3))"
proof -
  have "changeAssets demo_crypto demo_burn ''asset-burn'' (demo_address CHR ''d'') (demo_book None 5 5) =
      Inr (demo_book None 5 3)"
    by (simp add: changeAssets_def burnAsset_def demo_tx_fields demo_asset_facts demo_book_def newAsset_def
        jset_def jget_def jget_or_def Let_def withdraw_def)
  then show ?thesis
    using demo_charge [where n = 2 and book = "demo_book None 5 5"]
    by (simp add: demo_asset_run)
qed

theorem asset_supply_backed_witness:
  "\<exists>L'. foldM (asset_step demo_crypto) demo_funded [(demo_context, demo_create), (demo_context, demo_mint)] = Inr L' \<and>
     (\<exists>a. jget (ab_assets (lg_assets L')) demo_asset = Some a \<and> na_supply a = 8 \<and>
        heldOf demo_asset (ab_balances (lg_assets L')) = 8)"
proof -
  let ?L = "demo_charged 2 (demo_book (Some (demo_address CHR ''d'')) 8 8)"
  have run: "foldM (asset_step demo_crypto) demo_funded [(demo_context, demo_create), (demo_context, demo_mint)] = Inr ?L"
    by (simp add: demo_created demo_minted)
  have "lg_assets demo_funded = \<lparr>ab_assets = [], ab_balances = []\<rparr>" by (simp add: demo_uncharged)
  from asset_supply_backed [OF this run] have "\<forall>i a. jget (ab_assets (lg_assets ?L)) i = Some a \<longrightarrow>
       na_supply a = heldOf i (ab_balances (lg_assets ?L))" by blast
  moreover have "\<exists>a. jget (ab_assets (lg_assets ?L)) demo_asset = Some a \<and> na_supply a = 8"
    by (simp add: demo_charged_def demo_book_def jget_def)
  ultimately show ?thesis using run by metis
qed

theorem asset_authority_final_witness:
  "\<exists>a'. jget (ab_assets (lg_assets (demo_charged 3 (demo_book None 5 3)))) demo_asset = Some a' \<and>
     na_authority a' = None \<and> na_minted a' = 5"
proof -
  let ?a = "(newAsset demo_asset False 0 (demo_address CHR ''d'') 10 5 (JStr (replicate 64 CHR ''c'')))
    \<lparr>na_authority := None, na_supply := 5\<rparr>"
  have "jget (ab_assets (lg_assets (demo_charged 2 (demo_book None 5 5)))) demo_asset = Some ?a"
    by (simp add: demo_charged_def demo_book_def jget_def)
  moreover have "na_authority ?a = None" "na_minted ?a = 5" by (simp_all add: newAsset_def)
  moreover have "foldM (asset_step demo_crypto) (demo_charged 2 (demo_book None 5 5)) [(demo_context, demo_burn)] =
      Inr (demo_charged 3 (demo_book None 5 3))" by (simp add: demo_burned)
  ultimately show ?thesis using asset_authority_final by metis
qed

end
