(* ===== verification/Quorums.thy ===== *)
theory Quorums
  imports Ledger
begin

text \<open>
  The vote threshold \<open>Math.floor((n * 2) / 3) + 1\<close> that certificates, rotations, credentials and
  readiness all use, and why two sets of voters that reach it share more than a third of the
  members. The threshold is exact: \<open>n\<close> is at most a few hundred, so the division is exact in a
  double.
\<close>

locale quorum_system =
  fixes quorum :: "nat \<Rightarrow> nat"
  assumes two_thirds: "2 * n < 3 * quorum n"
begin

lemma intersection:
  assumes "finite S" and "A \<subseteq> S" and "B \<subseteq> S" and "quorum (card S) \<le> card A" and "quorum (card S) \<le> card B"
  shows "card S < 3 * card (A \<inter> B)"
proof -
  have fin: "finite A" "finite B" using assms(1-3) by (auto intro: finite_subset)
  have "card A + card B = card (A \<union> B) + card (A \<inter> B)" by (rule card_Un_Int [OF fin])
  moreover have "card (A \<union> B) \<le> card S" using assms(1-3) by (intro card_mono) auto
  ultimately have "2 * quorum (card S) \<le> card S + card (A \<inter> B)" using assms(4,5) by linarith
  with two_thirds [of "card S"] show ?thesis by linarith
qed

text \<open>With fewer than a third of the members faulty, some member of both is not.\<close>

lemma common_honest:
  assumes "finite S" and "A \<subseteq> S" and "B \<subseteq> S" and "quorum (card S) \<le> card A" and "quorum (card S) \<le> card B"
    and "3 * card F \<le> card S" and "finite F"
  obtains a where "a \<in> A" and "a \<in> B" and "a \<notin> F"
proof -
  have "card F < card (A \<inter> B)" using intersection [OF assms(1-5)] assms(6) by linarith
  then have "\<not> A \<inter> B \<subseteq> F" using card_mono [OF assms(7), of "A \<inter> B"] by linarith
  then show ?thesis using that by blast
qed

end

definition voteQuorum :: "nat \<Rightarrow> nat" where
  "voteQuorum n = (n * 2) div 3 + 1"

lemma voteQuorum_bounds: "2 * n < 3 * voteQuorum n" "3 * voteQuorum n \<le> 2 * n + 3"
proof -
  have eq: "3 * (n * 2 div 3) + n * 2 mod 3 = n * 2" by (rule mult_div_mod_eq)
  have lt: "n * 2 mod 3 < 3" by simp
  from eq lt show "2 * n < 3 * voteQuorum n" by (simp add: voteQuorum_def)
  from eq show "3 * voteQuorum n \<le> 2 * n + 3" by (simp add: voteQuorum_def)
qed

interpretation votes: quorum_system voteQuorum
  by unfold_locales (rule voteQuorum_bounds)

text \<open>All members together reach it.\<close>

lemma voteQuorum_reachable: "0 < n \<Longrightarrow> voteQuorum n \<le> n"
  by (simp add: voteQuorum_def Suc_le_eq div_less_iff_less_mult)

text \<open>
  A loop over votes: each turn counts one voter that was not counted before, or throws. What is
  known of a counted voter may depend on the loop's state, as the round of a prepare vote does.
\<close>

locale vote_count =
  fixes step :: "'s \<Rightarrow> 'v \<Rightarrow> 'e + 's"
    and voters :: "'s \<Rightarrow> string list"
    and counted :: "'s \<Rightarrow> string \<Rightarrow> bool"
  assumes one_more: "step s v = Inr s' \<Longrightarrow> \<exists>a. voters s' = voters s @ [a] \<and> a \<notin> set (voters s) \<and> counted s' a"
    and still: "step s v = Inr s' \<Longrightarrow> counted s b \<Longrightarrow> counted s' b"
begin

lemma tally:
  assumes "foldM step s vs = Inr s'" and "distinct (voters s)" and "\<forall>a \<in> set (voters s). counted s a"
  shows "distinct (voters s') \<and> (\<forall>a \<in> set (voters s'). counted s' a) \<and> length (voters s') = length (voters s) + length vs"
  using assms
proof (induction vs arbitrary: s)
  case Nil
  then show ?case by simp
next
  case (Cons v vs)
  then obtain t where t: "step s v = Inr t" "foldM step t vs = Inr s'" by (auto simp: bind_r_Inr_iff)
  obtain a where a: "voters t = voters s @ [a]" "a \<notin> set (voters s)" "counted t a" using one_more [OF t(1)] by blast
  have "\<forall>b \<in> set (voters t). counted t b" using a(1,3) still [OF t(1)] Cons.prems(3) by auto
  from Cons.IH [OF t(2) _ this] a(1,2) Cons.prems(2) show ?case by simp
qed

end

text \<open>Some signature of \<open>a\<close>'s key in the set checks; a quorum of the set's members has one each.\<close>

definition signedBy :: "crypto \<Rightarrow> (string, member) jsmap \<Rightarrow> jsval \<Rightarrow> string \<Rightarrow> string \<Rightarrow> bool" where
  "signedBy cr members payload domain a \<longleftrightarrow>
     (\<exists>m sig. jget members a = Some m \<and> verifyObject cr payload sig (mb_publicKey m) domain)"

definition quorumSigned :: "crypto \<Rightarrow> (string, member) jsmap \<Rightarrow> (string, member) jsmap \<Rightarrow> jsval \<Rightarrow> string \<Rightarrow> bool" where
  "quorumSigned cr keys members payload domain \<longleftrightarrow>
     (\<exists>A. A \<subseteq> set (jkeys members) \<and> voteQuorum (jsize members) \<le> card A \<and>
          (\<forall>a \<in> A. signedBy cr keys payload domain a))"

text \<open>Only a value the codec takes is ever signed: a payload with a negative zero has no signature.\<close>

lemma verified_encodable:
  assumes "verifyObject cr payload sig key domain"
  shows "encodable (canon (to_cval payload))"
proof -
  obtain b where "domainPayload cr domain payload = Inr b"
    using assms by (auto simp: verifyObject_def split: option.splits sum.splits)
  then show ?thesis
    by (auto simp: domainPayload_def consensusEnvelopeBytes_def consensusValueBytes_def bind_r_Inr_iff dest: encode_Inr(1))
qed

lemma verified_field:
  assumes "verifyObject cr (JObj kvs) sig key domain" and "(k, v) \<in> set kvs"
  shows "encodable (canon (to_cval v))"
  using verified_encodable [OF assms(1)] assms(2) by (auto simp: list_all_iff)

lemma jkeys_size: "jwf m \<Longrightarrow> card (set (jkeys m)) = jsize m"
  using distinct_card [of "jkeys m"] by (simp add: jwf_def jsize_def jkeys_def)

lemma quorumSigned_intersect:
  assumes "jwf members" and "quorumSigned cr keys members p d" and "quorumSigned cr keys' members p' d'"
  shows "\<exists>A. A \<subseteq> set (jkeys members) \<and> jsize members < 3 * card A \<and>
    (\<forall>a \<in> A. signedBy cr keys p d a \<and> signedBy cr keys' p' d' a)"
proof -
  obtain A where A: "A \<subseteq> set (jkeys members)" "voteQuorum (jsize members) \<le> card A" "\<forall>a \<in> A. signedBy cr keys p d a"
    using assms(2) by (auto simp: quorumSigned_def)
  obtain B where B: "B \<subseteq> set (jkeys members)" "voteQuorum (jsize members) \<le> card B" "\<forall>a \<in> B. signedBy cr keys' p' d' a"
    using assms(3) by (auto simp: quorumSigned_def)
  have "card (set (jkeys members)) < 3 * card (A \<inter> B)"
    by (rule votes.intersection) (use A B in \<open>simp_all add: jkeys_size [OF assms(1)]\<close>)
  then show ?thesis using A B jkeys_size [OF assms(1)] by (intro exI [of _ "A \<inter> B"]) auto
qed

end
