(* ===== verification/Validators.thy ===== *)
theory Validators
  imports Quorums
begin

text \<open>
  The handlers of \<open>blockchain/chain.mjs\<close> that lock value for a role and release it again:
  \<open>#applyCandidateBond\<close>, \<open>#applyValidatorBond\<close>, \<open>#applyValidatorExitRequest\<close>,
  \<open>#applyValidatorWithdrawalClaim\<close> and \<open>#applyEvaluatorBond\<close>, with \<open>verifyOperatorCredential\<close> of
  \<open>blockchain/operators.mjs\<close>.
\<close>

section \<open>Identities\<close>

text \<open>\<open>/^[a-z0-9][a-z0-9._-]{2,63}$/\<close>\<close>

definition is_operator_id :: "string \<Rightarrow> bool" where
  "is_operator_id s \<longleftrightarrow> 3 \<le> length s \<and> length s \<le> 64 \<and> (is_digit (hd s) \<or> is_lower (hd s)) \<and>
     list_all (\<lambda>c. is_digit c \<or> is_lower c \<or> c = CHR ''.'' \<or> c = CHR ''_'' \<or> c = CHR ''-'') s"

text \<open>\<open>member.operatorId === transaction.operatorId\<close> and \<open>member.publicKey === transaction.publicKey\<close>\<close>

definition sameOperator :: "jsobj \<Rightarrow> 'a member_scheme \<Rightarrow> bool" where
  "sameOperator tx m \<longleftrightarrow> strict_eq (mb_operatorId m) (fld tx ''operatorId'')"

definition sameKey :: "jsobj \<Rightarrow> 'a member_scheme \<Rightarrow> bool" where
  "sameKey tx m \<longleftrightarrow> strict_eq (mb_publicKey m) (fld tx ''publicKey'')"

definition registrant :: "jsobj \<Rightarrow> string \<Rightarrow> member" where
  "registrant tx sender = \<lparr>mb_address = sender, mb_algorithm = SIGNATURE_ALGORITHM,
     mb_operatorId = fld tx ''operatorId'', mb_publicKey = fld tx ''publicKey''\<rparr>"

definition MIN_VALIDATOR_BOND :: int where
  "MIN_VALIDATOR_BOND = 1000000000"

section \<open>Candidate bonds\<close>

definition candidateBond :: "chain_context \<Rightarrow> jsobj \<Rightarrow> string \<Rightarrow> int \<Rightarrow> bool \<Rightarrow> candidate_bond" where
  "candidateBond cx tx sender bond progressPurpose =
     \<lparr>cb_bond = bond, cb_committedHeight = cx_height cx, cb_committee = None, cb_randomnessCommits = [],
      cb_randomnessReveals = [], cb_submitter = sender,
      cb_candidateOwner = (case (progressPurpose, fld tx ''candidateOwner'') of (True, JStr a) \<Rightarrow> a | _ \<Rightarrow> sender),
      cb_purpose = (if progressPurpose then ''progress'' else ''safety''),
      cb_chainIdentityGenesisHash = (if progressPurpose \<and> fld tx ''chainIdentityGenesisHash'' \<noteq> JUndef
        then Some (cx_chainIdentityGenesisHash cx) else None),
      cb_admissionBound = False\<rparr>"

definition applyCandidateBond :: "crypto \<Rightarrow> chain_context \<Rightarrow> jsobj \<Rightarrow> ledger \<Rightarrow> chain_error + ledger" where
  "applyCandidateBond cr cx tx L =
     (if fld tx ''type'' \<noteq> JStr ''candidate-bond'' \<or> fld tx ''algorithm'' \<noteq> JStr SIGNATURE_ALGORITHM
      then Inl (Refused ''candidate bond transaction is invalid'')
      else if fld tx ''networkId'' \<noteq> JStr (cx_networkId cx)
      then Inl (Refused ''transaction belongs to another network'')
      else let progressPurpose = (fld tx ''purpose'' = JStr ''progress'');
               bound = (progressPurpose \<and> cx_protocolVersion cx \<ge> PROGRESS_GENESIS_BINDING_PROTOCOL_VERSION) in
      if bound \<and> fld tx ''chainIdentityGenesisHash'' \<noteq> JStr (cx_chainIdentityGenesisHash cx)
      then Inl (Refused ''progress candidate bond genesis identity mismatch'')
      else if \<not> bound \<and> fld tx ''chainIdentityGenesisHash'' \<noteq> JUndef
      then Inl (Refused ''candidate bond genesis identity is premature or invalid for purpose'')
      else if \<not> is_hex64 (coerced (fld tx ''candidateId'')) \<or> vhas (lg_candidateBonds L) (fld tx ''candidateId'')
      then Inl (Refused ''candidate bond id is invalid or duplicated'')
      else if \<not> short_string 4000 (fld tx ''publicKey'') \<or> \<not> short_string 7000 (fld tx ''signature'')
      then Inl (Refused ''invalid candidate bond signature'')
      else bind_r (signer cr tx ''CANDIDATE_BOND'' ''invalid candidate bond signature'') (\<lambda>sender.
      if (case safe_int (fld tx ''nonce'') of None \<Rightarrow> True | Some n \<Rightarrow> n < 0)
      then Inl (Refused ''invalid transaction nonce'')
      else bind_r (expectNonce tx (lg_nonces L) sender) (\<lambda>expectedNonce.
      bind_r (amountOf (fld tx ''amount'') ''candidate bond'') (\<lambda>bond.
      bind_r (amountOf (fld tx ''fee'') ''fee'') (\<lambda>fee.
      bind_r (if progressPurpose
              then bind_r (assertAddress (fld tx ''candidateOwner'') ''progress candidate owner'') (\<lambda>_.
                if bond < MIN_PROGRESS_CANDIDATE_BOND \<or> fee \<noteq> 0
                then Inl (Refused ''progress candidate bond amount or fee is invalid'') else Inr ())
              else if fld tx ''purpose'' \<noteq> JUndef \<or> fld tx ''candidateOwner'' \<noteq> JUndef
              then Inl (Refused ''candidate bond purpose is invalid'')
              else if bond = 0 then Inl (Refused ''candidate bond must be positive'')
              else if fee < MIN_TRANSFER_FEE then Inl (Refused ''transfer fee is below the protocol minimum'')
              else Inr ()) (\<lambda>_.
      let balance = jget_or 0 (lg_balances L) sender in
      if balance < bond + fee then Inl (Refused ''insufficient balance'')
      else bind_r (assertVested cx sender (balance - bond - fee)) (\<lambda>_.
        let paid = L\<lparr>lg_balances := (if fee > 0
                       then payFee sender (balance - bond - fee) (cx_feeRecipient cx) fee (lg_balances L)
                       else jset sender (balance - bond - fee) (lg_balances L)),
                     lg_nonces := jset sender (expectedNonce + 1) (lg_nonces L)\<rparr>;
            candidate = candidateBond cx tx sender bond progressPurpose in
        Inr (case fld tx ''candidateId'' of
               JStr candidateId \<Rightarrow> paid\<lparr>lg_candidateBonds := jset candidateId candidate (lg_candidateBonds L)\<rparr>
             | _ \<Rightarrow> paid\<lparr>lg_strayBonds := lg_strayBonds L @ [candidate]\<rparr>))))))))"

section \<open>Validator bonds\<close>

text \<open>A new validator's identity must not occur in any role, current or retired.\<close>

definition validatorIdentityTaken :: "jsobj \<Rightarrow> ledger \<Rightarrow> bool" where
  "validatorIdentityTaken tx L \<longleftrightarrow>
     (let sender = fld tx ''sender''; v = lg_validators L; e = lg_evaluators L; b = lg_beacons L in
      (case fld tx ''operatorId'' of JStr s \<Rightarrow> \<not> is_operator_id s | _ \<Rightarrow> True) \<or>
      jsize (vb_registered v) \<ge> MAX_VALIDATORS \<or>
      vhas (eb_members e) sender \<or> vhas (eb_pending e) sender \<or>
      vhas (bb_registered b) sender \<or> vhas (bb_pending b) sender \<or> vhas (bb_retired b) sender \<or>
      list_ex (\<lambda>m. sameKey tx m \<or> sameOperator tx m) (jvalues (bb_retired b)) \<or>
      list_ex (sameOperator tx) (jvalues (vb_registered v)) \<or> list_ex (sameOperator tx) (jvalues (eb_members e)) \<or>
      list_ex (sameOperator tx) (jvalues (eb_pending e)) \<or> list_ex (sameOperator tx) (jvalues (bb_registered b)) \<or>
      list_ex (sameOperator tx) (jvalues (bb_pending b)) \<or> list_ex (sameOperator tx) (jvalues (bb_retired b)))"

text \<open>The registry after the identity checks of a bond.\<close>

definition bondedRegistry :: "chain_context \<Rightarrow> jsobj \<Rightarrow> string \<Rightarrow> ledger \<Rightarrow>
    chain_error + (string, member) jsmap" where
  "bondedRegistry cx tx sender L =
     (case jget (vb_registered (lg_validators L)) sender of
        None \<Rightarrow>
          if cx_protocolVersion cx \<ge> VALIDATOR_ADMISSION_QUEUE_PROTOCOL_VERSION
          then Inl (Refused ''new validators must use the admission queue'')
          else if validatorIdentityTaken tx L
          then Inl (Refused ''new validator operator id is invalid or duplicated'')
          else Inr (jset sender (registrant tx sender) (vb_registered (lg_validators L)))
      | Some validator \<Rightarrow>
          if \<not> sameKey tx validator \<or> (fld tx ''operatorId'' \<noteq> JUndef \<and> \<not> sameOperator tx validator)
          then Inl (Refused ''validator identity does not match its registration'')
          else Inr (vb_registered (lg_validators L)))"

definition applyValidatorBond :: "crypto \<Rightarrow> chain_context \<Rightarrow> jsobj \<Rightarrow> ledger \<Rightarrow> chain_error + ledger" where
  "applyValidatorBond cr cx tx L =
     (if list_ex (\<lambda>(s, r). fld tx ''sender'' = JStr s \<or> fld tx ''sender'' = JStr r) (lg_progressParties L)
      then Inl (Refused ''validator key cannot have a pending progress commitment'')
      else if vhas (vb_admissions (lg_validators L)) (fld tx ''sender'')
      then Inl (Refused ''pending validator admission cannot be topped up'')
      else if misdirected cx tx ''validator-bond'' then Inl (Refused ''validator bond transaction is invalid'')
      else bind_r (signer cr tx ''VALIDATOR_BOND'' ''validator bond transaction is invalid'') (\<lambda>sender.
      if jhas (vb_disabled (lg_validators L)) sender
      then Inl (Refused ''disabled validator identity cannot bond again'')
      else if jhas (vb_exits (lg_validators L)) sender \<or> jhas (vb_retired (lg_validators L)) sender \<or>
              list_ex (\<lambda>m. sameOperator tx m \<or> sameKey tx m) (jvalues (vb_retired (lg_validators L)))
      then Inl (Refused ''exiting or retired validator identity cannot bond'')
      else bind_r (bondedRegistry cx tx sender L) (\<lambda>registered.
      bind_r (expectNonce tx (lg_nonces L) sender) (\<lambda>expectedNonce.
      bind_r (amountOf (fld tx ''amount'') ''validator bond'') (\<lambda>amount.
      bind_r (amountOf (fld tx ''fee'') ''fee'') (\<lambda>fee.
      if amount = 0 \<or> fee < MIN_TRANSFER_FEE then Inl (Refused ''validator bond or fee is below minimum'')
      else let balance = jget_or 0 (lg_balances L) sender; bonds = vb_bonds (lg_validators L) in
      if balance < amount + fee then Inl (Refused ''insufficient balance'')
      else Inr (L\<lparr>lg_balances := payFee sender (balance - amount - fee) (cx_feeRecipient cx) fee (lg_balances L),
                 lg_nonces := jset sender (expectedNonce + 1) (lg_nonces L),
                 lg_validators := (lg_validators L)\<lparr>vb_registered := registered,
                   vb_bonds := jset sender (jget_or 0 bonds sender + amount) bonds\<rparr>\<rparr>)))))))"

section \<open>Exit and withdrawal\<close>

definition VALIDATOR_LIFECYCLE_INVALID :: string where
  "VALIDATOR_LIFECYCLE_INVALID = ''validator lifecycle transaction is invalid''"

definition verifyValidatorLifecycleEnvelope :: "crypto \<Rightarrow> chain_context \<Rightarrow> jsobj \<Rightarrow> string \<Rightarrow> chain_error + string" where
  "verifyValidatorLifecycleEnvelope cr cx tx domain =
     (if fld tx ''algorithm'' \<noteq> JStr SIGNATURE_ALGORITHM \<or> fld tx ''networkId'' \<noteq> JStr (cx_networkId cx)
      then Inl (Refused VALIDATOR_LIFECYCLE_INVALID)
      else signer cr tx domain VALIDATOR_LIFECYCLE_INVALID)"

definition hasPendingValidatorRandomnessObligation :: "string \<Rightarrow> ledger \<Rightarrow> bool" where
  "hasPendingValidatorRandomnessObligation account L \<longleftrightarrow>
     list_ex (\<lambda>c. cb_purpose c = ''safety'' \<and> jhas (cb_randomnessCommits c) account \<and>
        \<not> jhas (cb_randomnessReveals c) account) (jvalues (lg_candidateBonds L) @ lg_strayBonds L)"

text \<open>The last conditions of the exit request and of the claim: duties that bind a validator.\<close>

definition validatorBound :: "chain_context \<Rightarrow> string \<Rightarrow> ledger \<Rightarrow> bool" where
  "validatorBound cx account L \<longleftrightarrow> account \<in> set (cx_rotatingValidators cx) \<or>
     account \<in> set (cx_recoveryReserves cx) \<or> hasPendingValidatorRandomnessObligation account L"

definition applyValidatorExitRequest :: "crypto \<Rightarrow> chain_context \<Rightarrow> jsobj \<Rightarrow> ledger \<Rightarrow> chain_error + ledger" where
  "applyValidatorExitRequest cr cx tx L =
     bind_r (verifyValidatorLifecycleEnvelope cr cx tx ''VALIDATOR_EXIT_REQUEST_V1'') (\<lambda>sender.
     let v = lg_validators L in
     if (case jget (vb_registered v) sender of None \<Rightarrow> True | Some m \<Rightarrow> \<not> sameKey tx m) \<or>
        jhas (vb_retired v) sender \<or> jhas (vb_exits v) sender \<or>
        (\<not> jhas (vb_bonds v) sender \<and> \<not> jhas (vb_disabled v) sender) \<or> validatorBound cx sender L
     then Inl (Refused ''validator exit identity is unknown, retired, or already pending'')
     else bind_r (expectNonce tx (lg_nonces L) sender) (\<lambda>expectedNonce.
     bind_r (amountOf (fld tx ''fee'') ''fee'') (\<lambda>fee.
     let balance = jget_or 0 (lg_balances L) sender in
     if fee < MIN_TRANSFER_FEE \<or> balance < fee then Inl (Refused ''validator exit fee is invalid or unfunded'')
     else let active = jhas (cx_validators cx) sender;
              exit = \<lparr>ve_exclusionHeight = (if active then None else Some (cx_height cx)),
                      ve_requestedHeight = cx_height cx,
                      ve_unlockHeight = (if active then None else Some (cx_height cx + VALIDATOR_WITHDRAWAL_DELAY_BLOCKS))\<rparr> in
       Inr (L\<lparr>lg_balances := payFee sender (balance - fee) (cx_feeRecipient cx) fee (lg_balances L),
             lg_nonces := jset sender (expectedNonce + 1) (lg_nonces L),
             lg_validators := v\<lparr>vb_exits := jset sender exit (vb_exits v)\<rparr>\<rparr>))))"

text \<open>\<open>!pending || pending.exclusionHeight === null || height < pending.unlockHeight\<close>; \<open>null\<close> counts as 0.\<close>

definition withdrawalLocked :: "chain_context \<Rightarrow> validator_exit option \<Rightarrow> bool" where
  "withdrawalLocked cx pending =
     (case pending of
        None \<Rightarrow> True
      | Some p \<Rightarrow> ve_exclusionHeight p = None \<or>
          cx_height cx < (case ve_unlockHeight p of None \<Rightarrow> 0 | Some h \<Rightarrow> h))"

definition retire :: "chain_context \<Rightarrow> member \<Rightarrow> retired_member" where
  "retire cx m = member.extend m (retired_member.fields (cx_height cx))"

definition applyValidatorWithdrawalClaim :: "crypto \<Rightarrow> chain_context \<Rightarrow> jsobj \<Rightarrow> ledger \<Rightarrow> chain_error + ledger" where
  "applyValidatorWithdrawalClaim cr cx tx L =
     bind_r (verifyValidatorLifecycleEnvelope cr cx tx ''VALIDATOR_WITHDRAWAL_CLAIM_V1'') (\<lambda>sender.
     let v = lg_validators L in
     case jget (vb_registered v) sender of
       None \<Rightarrow> Inl (Refused ''validator withdrawal is not finalized or mature'')
     | Some m \<Rightarrow>
     if withdrawalLocked cx (jget (vb_exits v) sender) \<or> \<not> sameKey tx m \<or>
        jhas (cx_validators cx) sender \<or> validatorBound cx sender L
     then Inl (Refused ''validator withdrawal is not finalized or mature'')
     else bind_r (expectNonce tx (lg_nonces L) sender) (\<lambda>expectedNonce.
     bind_r (amountOf (fld tx ''fee'') ''fee'') (\<lambda>fee.
     let balance = jget_or 0 (lg_balances L) sender in
     if fee < MIN_TRANSFER_FEE \<or> balance < fee then Inl (Refused ''validator withdrawal fee is invalid or unfunded'')
     else Inr (L\<lparr>lg_balances := payFee sender (balance - fee + jget_or 0 (vb_bonds v) sender) (cx_feeRecipient cx) fee
                  (lg_balances L),
                lg_nonces := jset sender (expectedNonce + 1) (lg_nonces L),
                lg_validators := v\<lparr>vb_bonds := jdel sender (vb_bonds v),
                  vb_disabled := jdel sender (vb_disabled v), vb_exits := jdel sender (vb_exits v),
                  vb_registered := jdel sender (vb_registered v),
                  vb_retired := jset sender (retire cx m) (vb_retired v)\<rparr>\<rparr>))))"

section \<open>Evaluator bonds\<close>

text \<open>\<open>verifyOperatorCredential\<close>: the hash of a key that can not be encoded throws.\<close>

definition verifyOperatorCredential :: "crypto \<Rightarrow> chain_context \<Rightarrow> jsobj \<Rightarrow> member \<Rightarrow> string \<Rightarrow>
    (string, member) jsmap \<Rightarrow> chain_error + bool" where
  "verifyOperatorCredential cr cx credential operator role authorities =
     (if fld credential ''algorithm'' \<noteq> JStr SIGNATURE_ALGORITHM \<or>
         fld credential ''networkId'' \<noteq> JStr (cx_networkId cx) \<or> fld credential ''role'' \<noteq> JStr role \<or>
         fld credential ''operatorAddress'' \<noteq> JStr (mb_address operator) \<or>
         \<not> strict_eq (fld credential ''operatorId'') (mb_operatorId operator)
      then Inr False
      else bind_r (map_err Not_hashable (hashObject cr (mb_publicKey operator) ''OPERATOR_PUBLIC_KEY'')) (\<lambda>keyHash.
        if fld credential ''publicKeyHash'' \<noteq> JStr keyHash then Inr False
        else (case (safe_int (fld credential ''validFromEpoch''), safe_int (fld credential ''validUntilEpoch'')) of
          (Some from, Some until) \<Rightarrow>
            if from < 0 \<or> until < from \<or> cx_height cx < from \<or> cx_height cx > until then Inr False
            else (case vget authorities (fld credential ''authority'') of
              None \<Rightarrow> Inr False
            | Some authority \<Rightarrow>
                Inr (verifyObject cr (JObj (omit [''signature''] credential)) (fld credential ''signature'')
                       (mb_publicKey authority) ''OPERATOR_CREDENTIAL''))
        | _ \<Rightarrow> Inr False)))"

definition CREDENTIAL_FIELDS :: "string list" where
  "CREDENTIAL_FIELDS = [''algorithm'', ''authority'', ''networkId'', ''operatorAddress'', ''operatorId'',
     ''publicKeyHash'', ''role'', ''signature'', ''validFromEpoch'', ''validUntilEpoch'']"

text \<open>One turn of the loop over the credentials; the result is \<open>attesters\<close>.\<close>

definition checkCredential :: "crypto \<Rightarrow> chain_context \<Rightarrow> member \<Rightarrow> int \<Rightarrow> string list \<Rightarrow> jsval \<Rightarrow>
    chain_error + string list" where
  "checkCredential cr cx operator activationHeight attesters credential =
     (case credential of
        JObj c \<Rightarrow>
          (case (fld c ''authority'', safe_int (fld c ''validFromEpoch''), safe_int (fld c ''validUntilEpoch'')) of
             (JStr authority, Some from, Some until) \<Rightarrow>
               if \<not> keys_are c CREDENTIAL_FIELDS \<or> authority \<in> set attesters \<or> from > cx_height cx \<or>
                  until < activationHeight \<or> cx_height cx - from > EVALUATOR_CREDENTIAL_LIFETIME_BLOCKS \<or>
                  until - from > EVALUATOR_CREDENTIAL_LIFETIME_BLOCKS
               then Inl (Refused ''new evaluator credential is duplicated, stale, or invalid'')
               else bind_r (verifyOperatorCredential cr cx c operator ''evaluator'' (cx_blockValidators cx)) (\<lambda>ok.
                 if \<not> ok then Inl (Refused ''new evaluator credential is duplicated, stale, or invalid'')
                 else Inr (attesters @ [authority]))
           | _ \<Rightarrow> Inl (Refused ''new evaluator credential is duplicated, stale, or invalid''))
      | _ \<Rightarrow> Inl (Refused ''new evaluator credential is duplicated, stale, or invalid''))"

definition eligibleEvaluators :: "evaluator_book \<Rightarrow> (string, member) jsmap" where
  "eligibleEvaluators e = filter (\<lambda>(account, m). \<not> jhas (eb_disabled e) account \<and>
     jget_or 0 (eb_bonds e) account \<ge> MIN_EVALUATOR_BOND) (eb_members e)"

definition evaluatorSlotTaken :: "chain_context \<Rightarrow> jsobj \<Rightarrow> string \<Rightarrow> ledger \<Rightarrow> bool" where
  "evaluatorSlotTaken cx tx sender L \<longleftrightarrow>
     (let v = lg_validators L; e = lg_evaluators L; b = lg_beacons L in
      jhas (eb_pending e) sender \<or> jhas (vb_registered v) sender \<or> jhas (bb_registered b) sender \<or>
      jhas (bb_pending b) sender \<or> jhas (bb_retired b) sender \<or> list_ex (sameKey tx) (jvalues (bb_retired b)) \<or>
      (case fld tx ''operatorId'' of JStr s \<Rightarrow> \<not> is_operator_id s | _ \<Rightarrow> True) \<or>
      list_ex (sameOperator tx) (jvalues (eb_members e)) \<or> list_ex (sameOperator tx) (jvalues (eb_pending e)) \<or>
      list_ex (sameOperator tx) (jvalues (vb_registered v)) \<or> list_ex (sameOperator tx) (jvalues (bb_registered b)) \<or>
      list_ex (sameOperator tx) (jvalues (bb_pending b)) \<or> list_ex (sameOperator tx) (jvalues (bb_retired b)) \<or>
      jsize (eb_members e) + jsize (eb_pending e) \<ge> 256 \<or>
      jsize (eligibleEvaluators e) + jsize (eb_pending e) \<ge> gn_evaluatorCount (cx_genesis cx) \<or>
      safe_int (fld tx ''activationHeight'') \<noteq> Some (cx_height cx + EVALUATOR_ACTIVATION_DELAY_BLOCKS))"

definition checkNewEvaluator :: "crypto \<Rightarrow> chain_context \<Rightarrow> jsobj \<Rightarrow> string \<Rightarrow> ledger \<Rightarrow> chain_error + unit" where
  "checkNewEvaluator cr cx tx sender L =
     (if evaluatorSlotTaken cx tx sender L
      then Inl (Refused ''new evaluator registration is invalid or has no vacant slot'')
      else (case fld tx ''credentials'' of
        JArr credentials \<Rightarrow>
          if length credentials < voteQuorum (jsize (cx_blockValidators cx)) \<or>
             length credentials > jsize (cx_blockValidators cx)
          then Inl (Refused ''new evaluator lacks a bounded validator credential quorum'')
          else bind_r (foldM (checkCredential cr cx (registrant tx sender)
                 (cx_height cx + EVALUATOR_ACTIVATION_DELAY_BLOCKS)) [] credentials) (\<lambda>attesters.
            if length attesters < voteQuorum (jsize (cx_blockValidators cx))
            then Inl (Refused ''new evaluator credential quorum is not independent'') else Inr ())
      | _ \<Rightarrow> Inl (Refused ''new evaluator lacks a bounded validator credential quorum'')))"

definition registerEvaluator :: "chain_context \<Rightarrow> jsobj \<Rightarrow> string \<Rightarrow> evaluator_registration" where
  "registerEvaluator cx tx sender = member.extend (registrant tx sender)
     (evaluator_registration.fields (cx_height cx + EVALUATOR_ACTIVATION_DELAY_BLOCKS))"

definition applyEvaluatorBond :: "crypto \<Rightarrow> chain_context \<Rightarrow> jsobj \<Rightarrow> ledger \<Rightarrow> chain_error + ledger" where
  "applyEvaluatorBond cr cx tx L =
     (if misdirected cx tx ''evaluator-bond'' then Inl (Refused ''evaluator bond transaction is invalid'')
      else bind_r (signer cr tx ''EVALUATOR_BOND'' ''evaluator bond transaction is invalid'') (\<lambda>sender.
      bind_r (case jget (eb_members (lg_evaluators L)) sender of
          Some evaluator \<Rightarrow>
            if \<not> sameKey tx evaluator \<or> fld tx ''operatorId'' \<noteq> JUndef \<or> fld tx ''activationHeight'' \<noteq> JUndef
            then Inl (Refused ''evaluator bond identity does not match its registration'')
            else if jhas (eb_disabled (lg_evaluators L)) sender
            then Inl (Refused ''disabled evaluator identity cannot bond again'') else Inr ()
        | None \<Rightarrow> checkNewEvaluator cr cx tx sender L) (\<lambda>_.
      bind_r (expectNonce tx (lg_nonces L) sender) (\<lambda>expectedNonce.
      bind_r (amountOf (fld tx ''amount'') ''evaluator bond'') (\<lambda>amount.
      bind_r (amountOf (fld tx ''fee'') ''fee'') (\<lambda>fee.
      let e = lg_evaluators L; isNew = (\<not> jhas (eb_members e) sender); balance = jget_or 0 (lg_balances L) sender in
      if amount = 0 \<or> (isNew \<and> amount < MIN_EVALUATOR_BOND) \<or> fee < MIN_TRANSFER_FEE
      then Inl (Refused ''evaluator bond or fee is below minimum'')
      else if balance < amount + fee then Inl (Refused ''insufficient balance'')
      else Inr (L\<lparr>lg_balances := payFee sender (balance - amount - fee) (cx_feeRecipient cx) fee (lg_balances L),
                 lg_nonces := jset sender (expectedNonce + 1) (lg_nonces L),
                 lg_evaluators := e\<lparr>eb_bonds := jset sender (jget_or 0 (eb_bonds e) sender + amount) (eb_bonds e),
                   eb_pending := (if isNew then jset sender (registerEvaluator cx tx sender) (eb_pending e)
                                  else eb_pending e)\<rparr>\<rparr>)))))))"

section \<open>What the handlers keep\<close>

lemma candidate_bond_keeps:
  assumes "applyCandidateBond cr cx tx L = Inr L'"
  shows "keeps tx L L'"
proof -
  from assms obtain a bond fee b where a: "fld tx ''sender'' = JStr a"
    "safe_int (fld tx ''nonce'') = Some (jget_or 0 (lg_nonces L) a)"
    and bond: "parseAtomic (fld tx ''amount'') = Inr bond" and fee: "parseAtomic (fld tx ''fee'') = Inr fee"
    and enough: "bond + fee \<le> jget_or 0 (lg_balances L) a"
    and b: "b = (if fee > 0 then payFee a (jget_or 0 (lg_balances L) a - bond - fee) (cx_feeRecipient cx) fee (lg_balances L)
        else jset a (jget_or 0 (lg_balances L) a - bond - fee) (lg_balances L))"
    and L': "L' = (case fld tx ''candidateId'' of
        JStr i \<Rightarrow> L\<lparr>lg_balances := b, lg_nonces := jset a (jget_or 0 (lg_nonces L) a + 1) (lg_nonces L),
          lg_candidateBonds := jset i (candidateBond cx tx a bond (fld tx ''purpose'' = JStr ''progress'')) (lg_candidateBonds L)\<rparr>
      | _ \<Rightarrow> L\<lparr>lg_balances := b, lg_nonces := jset a (jget_or 0 (lg_nonces L) a + 1) (lg_nonces L),
          lg_strayBonds := lg_strayBonds L @ [candidateBond cx tx a bond (fld tx ''purpose'' = JStr ''progress'')]\<rparr>)"
    and fresh: "\<not> vhas (lg_candidateBonds L) (fld tx ''candidateId'')"
    unfolding applyCandidateBond_def Let_def
    by (clarsimp simp only: handler_guards) (metis (no_types, lifting))
  have range: "0 \<le> bond" "0 \<le> fee" using parseAtomic_range [OF bond] parseAtomic_range [OF fee] by simp_all
  have c: "cb_bond (candidateBond cx tx a bond p) = bond" for p by (simp add: candidateBond_def)
  have total: "jtotal b = jtotal (lg_balances L) - bond" using range by (simp add: b payFee_total jtotal_jset)
  have ok: "solvent (lg_balances L) \<Longrightarrow> solvent b" using range enough by (simp add: b ledger_rules)
  show ?thesis
  proof (rule keepsI [OF a])
    show "lg_nonces L' = jset a (jget_or 0 (lg_nonces L) a + 1) (lg_nonces L)"
      by (simp add: L' split: jsval.splits)
    assume "ledger_ok L"
    then show "ledger_ok L'" using range ok by (auto simp: L' ledger_ok_def ledger_rules c split: jsval.splits)
    show "worth L' = worth L"
      using fresh by (auto simp: L' worth_rules c total jhas_def split: jsval.splits option.splits)
  qed
qed

lemma validator_bond_keeps:
  assumes "applyValidatorBond cr cx tx L = Inr L'"
  shows "keeps tx L L'"
  using assms unfolding applyValidatorBond_def Let_def
  apply (clarsimp simp only: handler_guards)
  apply (frule parseAtomic_range)
  apply (rule keepsI, assumption, assumption)
    apply simp
   apply (simp add: ledger_ok_def ledger_rules MIN_TRANSFER_FEE_def)
  apply (simp add: worth_rules)
  done

lemma exit_request_keeps:
  assumes "applyValidatorExitRequest cr cx tx L = Inr L'"
  shows "keeps tx L L'"
proof -
  from assms obtain a fee exits where a: "fld tx ''sender'' = JStr a"
    "safe_int (fld tx ''nonce'') = Some (jget_or 0 (lg_nonces L) a)"
    and fee: "MIN_TRANSFER_FEE \<le> fee" "fee \<le> jget_or 0 (lg_balances L) a"
    and L': "L' = L\<lparr>lg_balances := payFee a (jget_or 0 (lg_balances L) a - fee) (cx_feeRecipient cx) fee (lg_balances L),
      lg_nonces := jset a (jget_or 0 (lg_nonces L) a + 1) (lg_nonces L),
      lg_validators := (lg_validators L)\<lparr>vb_exits := exits\<rparr>\<rparr>"
    unfolding applyValidatorExitRequest_def verifyValidatorLifecycleEnvelope_def Let_def
    by (simp only: handler_guards sum.inject) blast
  show ?thesis
    by (rule keepsI [OF a])
      (use fee in \<open>simp_all add: L' ledger_ok_def ledger_rules worth_rules MIN_TRANSFER_FEE_def\<close>)
qed

lemma withdrawal_claim_Inr:
  assumes "applyValidatorWithdrawalClaim cr cx tx L = Inr L'"
  obtains a m p h fee where "fld tx ''sender'' = JStr a"
    and "safe_int (fld tx ''nonce'') = Some (jget_or 0 (lg_nonces L) a)"
    and "jget (vb_registered (lg_validators L)) a = Some m"
    and "jget (vb_exits (lg_validators L)) a = Some p" and "ve_exclusionHeight p = Some h"
    and "(case ve_unlockHeight p of None \<Rightarrow> 0 | Some u \<Rightarrow> u) \<le> cx_height cx"
    and "\<not> jhas (cx_validators cx) a" and "\<not> validatorBound cx a L"
    and "MIN_TRANSFER_FEE \<le> fee" and "fee \<le> jget_or 0 (lg_balances L) a"
    and "amountOf (fld tx ''fee'') ''fee'' = Inr fee" and "sameKey tx m"
    and "verifyObject cr (JObj (unsignedTransaction tx)) (fld tx ''signature'') (fld tx ''publicKey'') ''VALIDATOR_WITHDRAWAL_CLAIM_V1''"
    and "L' = L\<lparr>lg_balances := payFee a (jget_or 0 (lg_balances L) a - fee + jget_or 0 (vb_bonds (lg_validators L)) a)
        (cx_feeRecipient cx) fee (lg_balances L),
      lg_nonces := jset a (jget_or 0 (lg_nonces L) a + 1) (lg_nonces L),
      lg_validators := (lg_validators L)\<lparr>vb_bonds := jdel a (vb_bonds (lg_validators L)),
        vb_disabled := jdel a (vb_disabled (lg_validators L)), vb_exits := jdel a (vb_exits (lg_validators L)),
        vb_registered := jdel a (vb_registered (lg_validators L)),
        vb_retired := jset a (retire cx m) (vb_retired (lg_validators L))\<rparr>\<rparr>"
proof -
  from assms obtain a m fee where *: "fld tx ''sender'' = JStr a"
    "safe_int (fld tx ''nonce'') = Some (jget_or 0 (lg_nonces L) a)"
    "jget (vb_registered (lg_validators L)) a = Some m"
    "\<not> withdrawalLocked cx (jget (vb_exits (lg_validators L)) a)"
    "\<not> jhas (cx_validators cx) a" "\<not> validatorBound cx a L"
    "MIN_TRANSFER_FEE \<le> fee" "fee \<le> jget_or 0 (lg_balances L) a"
    "amountOf (fld tx ''fee'') ''fee'' = Inr fee" "sameKey tx m"
    "verifyObject cr (JObj (unsignedTransaction tx)) (fld tx ''signature'') (fld tx ''publicKey'') ''VALIDATOR_WITHDRAWAL_CLAIM_V1''"
    "L' = L\<lparr>lg_balances := payFee a (jget_or 0 (lg_balances L) a - fee + jget_or 0 (vb_bonds (lg_validators L)) a)
        (cx_feeRecipient cx) fee (lg_balances L),
      lg_nonces := jset a (jget_or 0 (lg_nonces L) a + 1) (lg_nonces L),
      lg_validators := (lg_validators L)\<lparr>vb_bonds := jdel a (vb_bonds (lg_validators L)),
        vb_disabled := jdel a (vb_disabled (lg_validators L)), vb_exits := jdel a (vb_exits (lg_validators L)),
        vb_registered := jdel a (vb_registered (lg_validators L)),
        vb_retired := jset a (retire cx m) (vb_retired (lg_validators L))\<rparr>\<rparr>"
    unfolding applyValidatorWithdrawalClaim_def verifyValidatorLifecycleEnvelope_def Let_def
    by (auto simp: handler_guards split: option.splits)
  moreover from *(4) obtain p h where "jget (vb_exits (lg_validators L)) a = Some p" "ve_exclusionHeight p = Some h"
    "(case ve_unlockHeight p of None \<Rightarrow> 0 | Some u \<Rightarrow> u) \<le> cx_height cx"
    by (auto simp: withdrawalLocked_def split: option.splits)
  ultimately show ?thesis using that by metis
qed

lemma withdrawal_claim_keeps:
  assumes "applyValidatorWithdrawalClaim cr cx tx L = Inr L'"
  shows "keeps tx L L'"
  using assms
proof (rule withdrawal_claim_Inr)
  fix a m p h fee
  assume a: "fld tx ''sender'' = JStr a" "safe_int (fld tx ''nonce'') = Some (jget_or 0 (lg_nonces L) a)"
    and fee: "MIN_TRANSFER_FEE \<le> fee" "fee \<le> jget_or 0 (lg_balances L) a"
    and L': "L' = L\<lparr>lg_balances := payFee a (jget_or 0 (lg_balances L) a - fee + jget_or 0 (vb_bonds (lg_validators L)) a)
        (cx_feeRecipient cx) fee (lg_balances L),
      lg_nonces := jset a (jget_or 0 (lg_nonces L) a + 1) (lg_nonces L),
      lg_validators := (lg_validators L)\<lparr>vb_bonds := jdel a (vb_bonds (lg_validators L)),
        vb_disabled := jdel a (vb_disabled (lg_validators L)), vb_exits := jdel a (vb_exits (lg_validators L)),
        vb_registered := jdel a (vb_registered (lg_validators L)),
        vb_retired := jset a (retire cx m) (vb_retired (lg_validators L))\<rparr>\<rparr>"
  show ?thesis
  proof (rule keepsI [OF a])
    assume ok: "ledger_ok L"
    then have "0 \<le> jget_or 0 (vb_bonds (lg_validators L)) a" by (auto simp: ledger_ok_def intro: solvent_get)
    with ok fee show "ledger_ok L'" by (simp add: L' ledger_ok_def ledger_rules MIN_TRANSFER_FEE_def)
    from ok have "jwf (vb_bonds (lg_validators L))" by (auto simp: ledger_ok_def dest: no_debt_jwf)
    then show "worth L' = worth L" by (simp add: L' worth_rules)
  qed (simp add: L')
qed

lemma evaluator_bond_keeps:
  assumes "applyEvaluatorBond cr cx tx L = Inr L'"
  shows "keeps tx L L'"
  using assms unfolding applyEvaluatorBond_def Let_def
  apply (clarsimp simp only: handler_guards)
  apply (frule parseAtomic_range)
  apply (rule keepsI, assumption, assumption)
    apply simp
   apply (simp add: ledger_ok_def ledger_rules MIN_TRANSFER_FEE_def)
  apply (simp add: worth_rules)
  done

section \<open>What a release and an admission need\<close>

text \<open>
  C19: A claim on a validator's bond succeeds only when its registered key signed the claim and its
  exit is finished: an exit was requested, the validator has left the active set, the unlock height is
  reached, no rotation, recovery plan or pending randomness binds it. The claim pays out exactly the
  bond, less exactly the transaction's fee, which goes to the fee recipient, and changes no other
  balance and no other bond; it retires the identity, which no longer is a registered validator.
\<close>

theorem validator_bond_released:
  assumes "applyValidatorWithdrawalClaim cr cx tx L = Inr L'"
  shows "\<exists>a m p h fee. fld tx ''sender'' = JStr a \<and>
    jget (vb_registered (lg_validators L)) a = Some m \<and> sameKey tx m \<and>
    verifyObject cr (JObj (unsignedTransaction tx)) (fld tx ''signature'') (fld tx ''publicKey'') ''VALIDATOR_WITHDRAWAL_CLAIM_V1'' \<and>
    jget (vb_exits (lg_validators L)) a = Some p \<and> ve_exclusionHeight p = Some h \<and>
    (case ve_unlockHeight p of None \<Rightarrow> 0 | Some u \<Rightarrow> u) \<le> cx_height cx \<and>
    \<not> jhas (cx_validators cx) a \<and> \<not> validatorBound cx a L \<and>
    amountOf (fld tx ''fee'') ''fee'' = Inr fee \<and> MIN_TRANSFER_FEE \<le> fee \<and> fee \<le> jget_or 0 (lg_balances L) a \<and>
    (\<forall>b. jget_or 0 (lg_balances L') b = jget_or 0 (lg_balances L) b
       + (if b = a then jget_or 0 (vb_bonds (lg_validators L)) a - fee else 0)
       + (if b = cx_feeRecipient cx then fee else 0)) \<and>
    vb_bonds (lg_validators L') = jdel a (vb_bonds (lg_validators L)) \<and>
    vb_registered (lg_validators L') = jdel a (vb_registered (lg_validators L)) \<and>
    vb_exits (lg_validators L') = jdel a (vb_exits (lg_validators L)) \<and>
    vb_retired (lg_validators L') = jset a (retire cx m) (vb_retired (lg_validators L))"
  using assms
proof (rule withdrawal_claim_Inr)
  fix a m p h fee
  assume c: "fld tx ''sender'' = JStr a" "jget (vb_registered (lg_validators L)) a = Some m" "sameKey tx m"
      "verifyObject cr (JObj (unsignedTransaction tx)) (fld tx ''signature'') (fld tx ''publicKey'') ''VALIDATOR_WITHDRAWAL_CLAIM_V1''"
      "jget (vb_exits (lg_validators L)) a = Some p" "ve_exclusionHeight p = Some h"
      "(case ve_unlockHeight p of None \<Rightarrow> 0 | Some u \<Rightarrow> u) \<le> cx_height cx" "\<not> jhas (cx_validators cx) a" "\<not> validatorBound cx a L"
      "amountOf (fld tx ''fee'') ''fee'' = Inr fee" "MIN_TRANSFER_FEE \<le> fee" "fee \<le> jget_or 0 (lg_balances L) a"
    and L': "L' = L\<lparr>lg_balances := payFee a (jget_or 0 (lg_balances L) a - fee + jget_or 0 (vb_bonds (lg_validators L)) a)
        (cx_feeRecipient cx) fee (lg_balances L),
      lg_nonces := jset a (jget_or 0 (lg_nonces L) a + 1) (lg_nonces L),
      lg_validators := (lg_validators L)\<lparr>vb_bonds := jdel a (vb_bonds (lg_validators L)),
        vb_disabled := jdel a (vb_disabled (lg_validators L)), vb_exits := jdel a (vb_exits (lg_validators L)),
        vb_registered := jdel a (vb_registered (lg_validators L)),
        vb_retired := jset a (retire cx m) (vb_retired (lg_validators L))\<rparr>\<rparr>"
  have "jget_or 0 (lg_balances L') b = jget_or 0 (lg_balances L) b
       + (if b = a then jget_or 0 (vb_bonds (lg_validators L)) a - fee else 0)
       + (if b = cx_feeRecipient cx then fee else 0)" for b
    by (simp add: L' payFee_def Let_def)
  with c show ?thesis
    by (intro exI [of _ a] exI [of _ m] exI [of _ p] exI [of _ h] exI [of _ fee]) (simp add: L')
qed

lemma exit_request_Inr:
  assumes "applyValidatorExitRequest cr cx tx L = Inr L'"
  obtains a where "fld tx ''sender'' = JStr a"
    and "jget (vb_exits (lg_validators L')) a = Some \<lparr>ve_exclusionHeight = (if jhas (cx_validators cx) a then None else Some (cx_height cx)),
        ve_requestedHeight = cx_height cx,
        ve_unlockHeight = (if jhas (cx_validators cx) a then None else Some (cx_height cx + VALIDATOR_WITHDRAWAL_DELAY_BLOCKS))\<rparr>"
proof -
  from assms have "\<exists>a. fld tx ''sender'' = JStr a \<and> jget (vb_exits (lg_validators L')) a =
      Some \<lparr>ve_exclusionHeight = (if jhas (cx_validators cx) a then None else Some (cx_height cx)),
        ve_requestedHeight = cx_height cx,
        ve_unlockHeight = (if jhas (cx_validators cx) a then None else Some (cx_height cx + VALIDATOR_WITHDRAWAL_DELAY_BLOCKS))\<rparr>"
    unfolding applyValidatorExitRequest_def verifyValidatorLifecycleEnvelope_def Let_def
    by (clarsimp simp only: handler_guards) simp
  then show ?thesis using that by blast
qed

text \<open>
  The withdrawal delay. When a validator's exit request has been recorded and its entry is still
  the recorded one, a later claim of the same account succeeds only if the validator was outside the
  active set at the request, and no earlier than the withdrawal delay after it; the entry of an active
  validator has no unlock height and no claim on it succeeds.
\<close>

theorem withdrawal_waits_for_delay:
  assumes "applyValidatorExitRequest cr cx tx L = Inr L1" and "fld tx ''sender'' = JStr a"
    and "jget (vb_exits (lg_validators L2)) a = jget (vb_exits (lg_validators L1)) a"
    and "applyValidatorWithdrawalClaim cr cx' tx' L2 = Inr L3" and "fld tx' ''sender'' = JStr a"
  shows "\<not> jhas (cx_validators cx) a \<and> cx_height cx + VALIDATOR_WITHDRAWAL_DELAY_BLOCKS \<le> cx_height cx'"
proof -
  obtain p h where p: "jget (vb_exits (lg_validators L2)) a = Some p" "ve_exclusionHeight p = Some h"
      "(case ve_unlockHeight p of None \<Rightarrow> 0 | Some u \<Rightarrow> u) \<le> cx_height cx'"
  proof (rule withdrawal_claim_Inr [OF assms(4)])
    fix b p h
    assume "fld tx' ''sender'' = JStr b" "jget (vb_exits (lg_validators L2)) b = Some p" "ve_exclusionHeight p = Some h"
      "(case ve_unlockHeight p of None \<Rightarrow> 0 | Some u \<Rightarrow> u) \<le> cx_height cx'"
    with that assms(5) show thesis by simp
  qed
  show ?thesis
    using assms(1) by (rule exit_request_Inr) (use assms(2,3) p in \<open>auto split: if_split_asm\<close>)
qed

lemma checkCredential_Inr:
  assumes "checkCredential cr cx operator activationHeight s v = Inr s'"
  obtains c a where "v = JObj c" and "fld c ''authority'' = JStr a" and "a \<notin> set s" and "s' = s @ [a]"
    and "verifyOperatorCredential cr cx c operator ''evaluator'' (cx_blockValidators cx) = Inr True"
proof (cases v)
  case (JObj c)
  from assms [unfolded checkCredential_def JObj jsval.case] obtain a where a: "fld c ''authority'' = JStr a"
    by (auto split: jsval.split_asm)
  from assms a that [OF JObj a] show ?thesis
    by (simp only: checkCredential_def JObj jsval.case a split: option.split_asm prod.split_asm)
      (auto simp: bind_r_Inr_iff split: option.split_asm if_split_asm)
qed (use assms in \<open>simp_all add: checkCredential_def\<close>)

text \<open>\<open>a\<close> is a validator of the block whose credential for the operator checks.\<close>

definition attestedBy :: "crypto \<Rightarrow> chain_context \<Rightarrow> member \<Rightarrow> string \<Rightarrow> bool" where
  "attestedBy cr cx operator a \<longleftrightarrow> (\<exists>c. fld c ''authority'' = JStr a \<and>
     verifyOperatorCredential cr cx c operator ''evaluator'' (cx_blockValidators cx) = Inr True)"

interpretation attesters: vote_count "checkCredential cr cx operator activationHeight" id "\<lambda>_. attestedBy cr cx operator"
  for cr cx operator activationHeight
  by unfold_locales (auto elim!: checkCredential_Inr simp: attestedBy_def)

lemma attestedBy_member: "attestedBy cr cx operator a \<Longrightarrow> jhas (cx_blockValidators cx) a"
  by (auto simp: attestedBy_def verifyOperatorCredential_def bind_r_Inr_iff jhas_def split: option.split_asm if_split_asm)

lemma evaluator_bond_Inr:
  assumes "applyEvaluatorBond cr cx tx L = Inr L'"
  obtains a amount fee where "fld tx ''sender'' = JStr a" and "0 < amount"
    and "jhas (eb_members (lg_evaluators L)) a \<or>
      checkNewEvaluator cr cx tx a L = Inr () \<and> MIN_EVALUATOR_BOND \<le> amount \<and>
      jget (eb_pending (lg_evaluators L')) a = Some (registerEvaluator cx tx a)"
    and "jget_or 0 (eb_bonds (lg_evaluators L')) a = jget_or 0 (eb_bonds (lg_evaluators L)) a + amount"
proof -
  from assms have "\<exists>a amount. fld tx ''sender'' = JStr a \<and> 0 < amount \<and>
      (jhas (eb_members (lg_evaluators L)) a \<or>
      checkNewEvaluator cr cx tx a L = Inr () \<and> MIN_EVALUATOR_BOND \<le> amount \<and>
      jget (eb_pending (lg_evaluators L')) a = Some (registerEvaluator cx tx a)) \<and>
      jget_or 0 (eb_bonds (lg_evaluators L')) a = jget_or 0 (eb_bonds (lg_evaluators L)) a + amount"
    unfolding applyEvaluatorBond_def Let_def
    apply (clarsimp simp only: handler_guards)
    apply (frule parseAtomic_range)
    apply (auto simp: jhas_def split: option.split_asm)
    done
  then show ?thesis using that by blast
qed

lemma checkNewEvaluator_attested:
  assumes "checkNewEvaluator cr cx tx a L = Inr ()"
  obtains attesters where "distinct attesters" and "\<forall>b \<in> set attesters. attestedBy cr cx (registrant tx a) b"
    and "voteQuorum (jsize (cx_blockValidators cx)) \<le> length attesters"
proof -
  from assms obtain credentials where c: "fld tx ''credentials'' = JArr credentials"
    by (auto simp: checkNewEvaluator_def split: jsval.split_asm if_split_asm)
  from assms c obtain attesters where
    f: "foldM (checkCredential cr cx (registrant tx a) (cx_height cx + EVALUATOR_ACTIVATION_DELAY_BLOCKS)) [] credentials = Inr attesters"
    and q: "voteQuorum (jsize (cx_blockValidators cx)) \<le> length attesters"
    by (auto simp: checkNewEvaluator_def bind_r_Inr_iff split: if_split_asm)
  have "distinct attesters \<and> (\<forall>b \<in> set attesters. attestedBy cr cx (registrant tx a) b)"
    using attesters.tally [OF f] by simp
  with q that show ?thesis by blast
qed

text \<open>
  No evaluator enters without the validators. A bond of an account that is no evaluator yet is
  accepted only with at least the minimal bond and with valid credentials, for exactly this account,
  operator and key, of distinct validators of the block that reach the vote quorum; the account then
  is pending until the activation delay has passed.
\<close>

theorem evaluator_admission_needs_quorum:
  assumes "applyEvaluatorBond cr cx tx L = Inr L'" and "fld tx ''sender'' = JStr a"
    and "\<not> jhas (eb_members (lg_evaluators L)) a" and "jwf (cx_blockValidators cx)"
  shows "(\<exists>A. A \<subseteq> set (jkeys (cx_blockValidators cx)) \<and> voteQuorum (jsize (cx_blockValidators cx)) \<le> card A \<and>
      (\<forall>b \<in> A. attestedBy cr cx (registrant tx a) b)) \<and>
    jget_or 0 (eb_bonds (lg_evaluators L)) a + MIN_EVALUATOR_BOND \<le> jget_or 0 (eb_bonds (lg_evaluators L')) a \<and>
    jget (eb_pending (lg_evaluators L')) a = Some (registerEvaluator cx tx a)"
proof -
  obtain amount where b: "checkNewEvaluator cr cx tx a L = Inr ()" "MIN_EVALUATOR_BOND \<le> amount"
      "jget (eb_pending (lg_evaluators L')) a = Some (registerEvaluator cx tx a)"
      "jget_or 0 (eb_bonds (lg_evaluators L')) a = jget_or 0 (eb_bonds (lg_evaluators L)) a + amount"
    using assms(1) by (rule evaluator_bond_Inr) (use assms(2,3) in auto)
  obtain attesters where q: "distinct attesters" "\<forall>b \<in> set attesters. attestedBy cr cx (registrant tx a) b"
      "voteQuorum (jsize (cx_blockValidators cx)) \<le> length attesters"
    by (rule checkNewEvaluator_attested [OF b(1)])
  have "set attesters \<subseteq> set (jkeys (cx_blockValidators cx))"
    using q(2) attestedBy_member by (fastforce simp: jhas_iff_keys [symmetric])
  then have "\<exists>A. A \<subseteq> set (jkeys (cx_blockValidators cx)) \<and> voteQuorum (jsize (cx_blockValidators cx)) \<le> card A \<and>
      (\<forall>b \<in> A. attestedBy cr cx (registrant tx a) b)"
    using q distinct_card [OF q(1)] by (intro exI [of _ "set attesters"]) simp
  with b(2-4) show ?thesis by simp
qed

section \<open>Runs of the handlers\<close>

definition demo_registered :: ledger where
  "demo_registered = empty_ledger\<lparr>lg_balances := [(demo_address CHR ''d'', 5000000000)],
     lg_validators := (lg_validators empty_ledger)\<lparr>vb_registered := [(demo_address CHR ''d'',
         \<lparr>mb_address = demo_address CHR ''d'', mb_algorithm = SIGNATURE_ALGORITHM, mb_operatorId = JStr ''op-1'', mb_publicKey = JStr ''key''\<rparr>)],
       vb_bonds := [(demo_address CHR ''d'', 3000000000)]\<rparr>\<rparr>"

definition demo_exit :: jsobj where
  "demo_exit = demo_tx ''validator-exit-request'' 0 [(''fee'', JStr ''1000'')]"

definition demo_claim :: jsobj where
  "demo_claim = demo_tx ''validator-withdrawal-claim'' 1 [(''fee'', JStr ''1000'')]"

definition demo_later :: chain_context where
  "demo_later = demo_context\<lparr>cx_height := 5000\<rparr>"

lemma demo_lifecycle_signer:
  "signer demo_crypto demo_exit ''VALIDATOR_EXIT_REQUEST_V1'' VALIDATOR_LIFECYCLE_INVALID = Inr (demo_address CHR ''d'')"
  "signer demo_crypto demo_claim ''VALIDATOR_WITHDRAWAL_CLAIM_V1'' VALIDATOR_LIFECYCLE_INVALID = Inr (demo_address CHR ''d'')"
  by (rule demo_signer [where k = "''key''" and s = "''sig''"]; code_simp)+

lemma demo_lifecycle_fields:
  "fld demo_exit ''algorithm'' = JStr SIGNATURE_ALGORITHM" "fld demo_exit ''networkId'' = JStr ''nir-test''"
  "fld demo_exit ''publicKey'' = JStr ''key''" "fld demo_exit ''sender'' = JStr (demo_address CHR ''d'')"
  "fld demo_exit ''nonce'' = JNum 0" "fld demo_exit ''fee'' = JStr ''1000''"
  "fld demo_claim ''algorithm'' = JStr SIGNATURE_ALGORITHM" "fld demo_claim ''networkId'' = JStr ''nir-test''"
  "fld demo_claim ''publicKey'' = JStr ''key''" "fld demo_claim ''sender'' = JStr (demo_address CHR ''d'')"
  "fld demo_claim ''nonce'' = JNum 1" "fld demo_claim ''fee'' = JStr ''1000''"
  "amountOf (JStr ''1000'') f = Inr 1000" "safe_int (JNum 0) = Some 0" "safe_int (JNum 1) = Some 1"
  by code_simp+

lemmas demo_lifecycle = verifyValidatorLifecycleEnvelope_def demo_lifecycle_signer demo_lifecycle_fields Let_def

definition demo_exited :: ledger where
  "demo_exited = demo_registered\<lparr>lg_balances := [(demo_address CHR ''d'', 4999999000), (demo_address CHR ''b'', 1000)],
     lg_nonces := [(demo_address CHR ''d'', 1)],
     lg_validators := (lg_validators demo_registered)\<lparr>vb_exits := [(demo_address CHR ''d'',
       \<lparr>ve_exclusionHeight = Some 10, ve_requestedHeight = 10, ve_unlockHeight = Some 74\<rparr>)]\<rparr>\<rparr>"

lemma demo_exit_run: "applyValidatorExitRequest demo_crypto demo_context demo_exit demo_registered = Inr demo_exited"
  by (simp add: applyValidatorExitRequest_def demo_lifecycle demo_registered_def demo_exited_def demo_context_def empty_ledger_def
      sameKey_def validatorBound_def hasPendingValidatorRandomnessObligation_def expectNonce_def payFee_def
      MIN_TRANSFER_FEE_def VALIDATOR_WITHDRAWAL_DELAY_BLOCKS_def jget_def jhas_def jget_or_def jset_def jvalues_def
      demo_address_def del: safe_int.simps)

lemma demo_claim_run:
  "\<exists>L'. applyValidatorWithdrawalClaim demo_crypto demo_later demo_claim demo_exited = Inr L' \<and>
     jget_or 0 (lg_balances L') (demo_address CHR ''d'') = 7999998000"
  by (simp add: applyValidatorWithdrawalClaim_def demo_lifecycle demo_registered_def demo_exited_def demo_later_def demo_context_def
      empty_ledger_def withdrawalLocked_def sameKey_def validatorBound_def hasPendingValidatorRandomnessObligation_def
      expectNonce_def payFee_def MIN_TRANSFER_FEE_def jget_def jhas_def jget_or_def jset_def jvalues_def
      demo_address_def del: safe_int.simps)

theorem validator_bond_released_witness:
  "\<exists>L'. applyValidatorWithdrawalClaim demo_crypto demo_later demo_claim demo_exited = Inr L' \<and>
     jget_or 0 (lg_balances L') (demo_address CHR ''d'') = 7999998000 \<and>
     \<not> jhas (vb_bonds (lg_validators L')) (demo_address CHR ''d'')"
proof -
  obtain L' where L': "applyValidatorWithdrawalClaim demo_crypto demo_later demo_claim demo_exited = Inr L'"
    "jget_or 0 (lg_balances L') (demo_address CHR ''d'') = 7999998000" using demo_claim_run by blast
  with validator_bond_released [OF L'(1)] show ?thesis by (auto simp: demo_lifecycle_fields)
qed

theorem withdrawal_waits_for_delay_witness: "cx_height demo_context + 64 \<le> cx_height demo_later"
proof -
  obtain L' where L': "applyValidatorWithdrawalClaim demo_crypto demo_later demo_claim demo_exited = Inr L'"
    using demo_claim_run by blast
  from withdrawal_waits_for_delay [OF demo_exit_run _ refl L'] show ?thesis
    by (simp add: demo_lifecycle_fields VALIDATOR_WITHDRAWAL_DELAY_BLOCKS_def)
qed

section \<open>A candidate id that no lookup finds\<close>

definition demo_stray :: jsobj where
  "demo_stray = demo_tx ''candidate-bond'' 0 [(''amount'', JStr ''5''), (''fee'', JStr ''1000''),
     (''candidateId'', JArr [JStr demo_hex])]"

text \<open>
  An id inside an array passes the test of a candidate bond's id. The bond is taken from the
  sender's balance, but no candidate is recorded under the id, so nothing ever releases it; and the
  same id can be bonded again, which the duplicate test should refuse.
\<close>

theorem candidate_id_in_array_accepted:
  "\<exists>L'. applyCandidateBond demo_crypto demo_context demo_stray demo_registered = Inr L' \<and>
     jget_or 0 (lg_balances L') (demo_address CHR ''d'') = 4999998995 \<and>
     \<not> jhas (lg_candidateBonds L') demo_hex \<and> length (lg_strayBonds L') = 1"
proof -
  have s: "signer demo_crypto demo_stray ''CANDIDATE_BOND'' ''invalid candidate bond signature'' = Inr (demo_address CHR ''d'')"
    by (rule demo_signer [where k = "''key''" and s = "''sig''"]; code_simp)
  have f: "fld demo_stray ''type'' = JStr ''candidate-bond''" "fld demo_stray ''algorithm'' = JStr SIGNATURE_ALGORITHM"
    "fld demo_stray ''networkId'' = JStr ''nir-test''" "fld demo_stray ''purpose'' = JUndef"
    "fld demo_stray ''chainIdentityGenesisHash'' = JUndef" "fld demo_stray ''candidateOwner'' = JUndef"
    "fld demo_stray ''candidateId'' = JArr [JStr demo_hex]" "is_hex64 (coerced (JArr [JStr demo_hex]))"
    "short_string 4000 (fld demo_stray ''publicKey'')" "short_string 7000 (fld demo_stray ''signature'')"
    "fld demo_stray ''nonce'' = JNum 0" "fld demo_stray ''amount'' = JStr ''5''" "fld demo_stray ''fee'' = JStr ''1000''"
    "amountOf (JStr ''5'') g = Inr 5" "amountOf (JStr ''1000'') g = Inr 1000" "safe_int (JNum 0) = Some 0" for g
    by code_simp+
  have v: "assertVested demo_context (demo_address CHR ''d'') n = Inr ()" for n
    by (simp add: assertVested_def demo_context_def demo_address_def)
  have c: "cx_networkId demo_context = ''nir-test''" "cx_feeRecipient demo_context = demo_address CHR ''b''"
    "demo_address CHR ''d'' \<noteq> demo_address CHR ''b''" "demo_address CHR ''b'' \<noteq> demo_address CHR ''d''"
    by (simp_all add: demo_context_def demo_address_def)
  show ?thesis
    by (simp add: applyCandidateBond_def f s v c Let_def demo_registered_def empty_ledger_def candidateBond_def
      expectNonce_def payFee_def MIN_TRANSFER_FEE_def vhas_def vget_def jget_def jhas_def jget_or_def jset_def
      del: safe_int.simps coerced.simps)
qed

section \<open>An evaluator's admission\<close>

definition demo_attested :: chain_context where
  "demo_attested = demo_context\<lparr>cx_blockValidators := [(''v1'', \<lparr>mb_address = ''v1'', mb_algorithm = SIGNATURE_ALGORITHM,
     mb_operatorId = JStr ''op-9'', mb_publicKey = JStr ''key''\<rparr>)]\<rparr>"

definition demo_credential :: jsobj where
  "demo_credential = [(''algorithm'', JStr SIGNATURE_ALGORITHM), (''authority'', JStr ''v1''), (''networkId'', JStr ''nir-test''),
     (''operatorAddress'', JStr (demo_address CHR ''d'')), (''operatorId'', JStr ''op-1''), (''publicKeyHash'', JStr demo_hex),
     (''role'', JStr ''evaluator''), (''signature'', JStr ''sig''), (''validFromEpoch'', JNum 5), (''validUntilEpoch'', JNum 100)]"

definition demo_evaluator :: jsobj where
  "demo_evaluator = demo_tx ''evaluator-bond'' 0 [(''amount'', JStr ''5000000000''), (''fee'', JStr ''1000''),
     (''operatorId'', JStr ''op-1''), (''activationHeight'', JNum 74), (''credentials'', JArr [JObj demo_credential])]"

definition demo_rich :: ledger where
  "demo_rich = empty_ledger\<lparr>lg_balances := [(demo_address CHR ''d'', 6000000000)]\<rparr>"

lemma demo_evaluator_fields:
  "fld demo_evaluator ''type'' = JStr ''evaluator-bond''" "fld demo_evaluator ''algorithm'' = JStr SIGNATURE_ALGORITHM"
  "fld demo_evaluator ''networkId'' = JStr ''nir-test''" "fld demo_evaluator ''sender'' = JStr (demo_address CHR ''d'')"
  "fld demo_evaluator ''operatorId'' = JStr ''op-1''" "fld demo_evaluator ''activationHeight'' = JNum 74"
  "fld demo_evaluator ''credentials'' = JArr [JObj demo_credential]" "fld demo_evaluator ''publicKey'' = JStr ''key''"
  "fld demo_evaluator ''nonce'' = JNum 0" "fld demo_evaluator ''amount'' = JStr ''5000000000''"
  "fld demo_evaluator ''fee'' = JStr ''1000''" "amountOf (JStr ''5000000000'') g = Inr 5000000000"
  "amountOf (JStr ''1000'') g = Inr 1000" "safe_int (JNum 0) = Some 0" "safe_int (JNum 74) = Some 74"
  "safe_int (JNum 5) = Some 5" "safe_int (JNum 100) = Some 100"
  "is_operator_id ''op-1''" "keys_are demo_credential CREDENTIAL_FIELDS"
  by code_simp+

lemma demo_credential_fields:
  "fld demo_credential ''algorithm'' = JStr SIGNATURE_ALGORITHM" "fld demo_credential ''authority'' = JStr ''v1''"
  "fld demo_credential ''networkId'' = JStr ''nir-test''" "fld demo_credential ''operatorAddress'' = JStr (demo_address CHR ''d'')"
  "fld demo_credential ''operatorId'' = JStr ''op-1''" "fld demo_credential ''publicKeyHash'' = JStr demo_hex"
  "fld demo_credential ''role'' = JStr ''evaluator''" "fld demo_credential ''signature'' = JStr ''sig''"
  "fld demo_credential ''validFromEpoch'' = JNum 5" "fld demo_credential ''validUntilEpoch'' = JNum 100"
  by code_simp+

lemma demo_credential_ok:
  "verifyOperatorCredential demo_crypto demo_attested demo_credential (registrant demo_evaluator (demo_address CHR ''d''))
     ''evaluator'' (cx_blockValidators demo_attested) = Inr True"
proof -
  have "json_ok (JStr ''key'') \<and> is_domain ''OPERATOR_PUBLIC_KEY''" by code_simp
  then have "hashObject demo_crypto (JStr ''key'') ''OPERATOR_PUBLIC_KEY'' = Inr demo_hex" by (simp add: demo_hash)
  moreover have "json_ok (JObj (omit [''signature''] demo_credential)) \<and> is_domain ''OPERATOR_CREDENTIAL''" by code_simp
  then have "verifyObject demo_crypto (JObj (omit [''signature''] demo_credential)) (JStr ''sig'') (JStr ''key'') ''OPERATOR_CREDENTIAL''"
    by (simp add: demo_verify)
  moreover have "cx_blockValidators demo_attested = [(''v1'', \<lparr>mb_address = ''v1'', mb_algorithm = SIGNATURE_ALGORITHM,
     mb_operatorId = JStr ''op-9'', mb_publicKey = JStr ''key''\<rparr>)]" "cx_networkId demo_attested = ''nir-test''"
    "cx_height demo_attested = 10" by (simp_all add: demo_attested_def demo_context_def)
  ultimately show ?thesis
    by (simp add: verifyOperatorCredential_def demo_credential_fields demo_evaluator_fields registrant_def
      vget_def jget_def del: safe_int.simps)
qed

lemma demo_evaluator_run:
  "\<exists>L'. applyEvaluatorBond demo_crypto demo_attested demo_evaluator demo_rich = Inr L'"
proof -
  have s: "signer demo_crypto demo_evaluator ''EVALUATOR_BOND'' ''evaluator bond transaction is invalid'' = Inr (demo_address CHR ''d'')"
    by (rule demo_signer [where k = "''key''" and s = "''sig''"]; code_simp)
  have c: "cx_networkId demo_attested = ''nir-test''" "cx_height demo_attested = 10" "jsize (cx_blockValidators demo_attested) = 1"
    "gn_evaluatorCount (cx_genesis demo_attested) = 4"
    by (simp_all add: demo_attested_def demo_context_def jsize_def)
  have "\<not> evaluatorSlotTaken demo_attested demo_evaluator (demo_address CHR ''d'') demo_rich"
    by (simp add: evaluatorSlotTaken_def demo_evaluator_fields c demo_rich_def empty_ledger_def jvalues_def jsize_def
      eligibleEvaluators_def EVALUATOR_ACTIVATION_DELAY_BLOCKS_def del: safe_int.simps)
  moreover have "checkCredential demo_crypto demo_attested (registrant demo_evaluator (demo_address CHR ''d'')) 74 [] (JObj demo_credential) = Inr [''v1'']"
    by (simp add: checkCredential_def demo_credential_fields demo_evaluator_fields c demo_credential_ok
      EVALUATOR_CREDENTIAL_LIFETIME_BLOCKS_def del: safe_int.simps)
  ultimately have "checkNewEvaluator demo_crypto demo_attested demo_evaluator (demo_address CHR ''d'') demo_rich = Inr ()"
    by (simp add: checkNewEvaluator_def demo_evaluator_fields c voteQuorum_def EVALUATOR_ACTIVATION_DELAY_BLOCKS_def)
  then show ?thesis
    by (simp add: applyEvaluatorBond_def misdirected_def demo_evaluator_fields s c Let_def demo_rich_def empty_ledger_def
      expectNonce_def MIN_EVALUATOR_BOND_def ATOMIC_UNITS_def MIN_TRANSFER_FEE_def jget_or_def jget_def jhas_def
      del: safe_int.simps)
qed

theorem evaluator_admission_needs_quorum_witness:
  "\<exists>L'. applyEvaluatorBond demo_crypto demo_attested demo_evaluator demo_rich = Inr L' \<and>
     (\<exists>A. A \<subseteq> {''v1''} \<and> 1 \<le> card A) \<and> 5000000000 \<le> jget_or 0 (eb_bonds (lg_evaluators L')) (demo_address CHR ''d'')"
proof -
  obtain L' where L': "applyEvaluatorBond demo_crypto demo_attested demo_evaluator demo_rich = Inr L'"
    using demo_evaluator_run by blast
  have "\<not> jhas (eb_members (lg_evaluators demo_rich)) (demo_address CHR ''d'')" "jwf (cx_blockValidators demo_attested)"
    by (simp_all add: demo_rich_def empty_ledger_def demo_attested_def jwf_def jkeys_def)
  from evaluator_admission_needs_quorum [OF L' _ this] L' show ?thesis
    by (auto simp: demo_evaluator_fields demo_attested_def jkeys_def jsize_def voteQuorum_def demo_rich_def empty_ledger_def
      MIN_EVALUATOR_BOND_def ATOMIC_UNITS_def)
qed

end
