(* ===== verification/Beacons.thy ===== *)
theory Beacons
  imports Validators
begin

text \<open>
  Beacon authorities (\<open>blockchain/beacon-rotation.mjs\<close> and the handlers \<open>#applyBeaconBond\<close> and
  \<open>#applyBeaconRetirement\<close> of \<open>blockchain/chain.mjs\<close>): members and authority sets, the rotation of a
  set by the approvals of the old members and the possession proofs of the new, and the bond and
  retirement of an authority.
\<close>

section \<open>Constants\<close>

definition BEACON_ROTATION_DELAY_BLOCKS :: int where
  "BEACON_ROTATION_DELAY_BLOCKS = 64"

definition BEACON_RETIREMENT_DELAY_BLOCKS :: int where
  "BEACON_RETIREMENT_DELAY_BLOCKS = 64"

definition BEACON_ADMISSION_DELAY_BLOCKS :: int where
  "BEACON_ADMISSION_DELAY_BLOCKS = 64"

definition BEACON_ADMISSION_EXPIRY_BLOCKS :: int where
  "BEACON_ADMISSION_EXPIRY_BLOCKS = 256"

definition MAX_PENDING_BEACON_ADMISSIONS :: nat where
  "MAX_PENDING_BEACON_ADMISSIONS = 256"

definition MAX_AUTHORITIES :: nat where
  "MAX_AUTHORITIES = 64"

section \<open>Members\<close>

text \<open>
  \<open>String(v)\<close> as \<open>RegExp.prototype.test\<close> converts \<open>v ?? ""\<close>: besides strings, numbers, booleans and
  arrays of one entry can match the pattern of operator ids. Fractions are left out: an object with
  one has no encoding, so its hash throws.
\<close>

fun testedText :: "jsval \<Rightarrow> string" where
  "testedText (JStr s) = s"
| "testedText (JNum n) = (if \<bar>n\<bar> \<ge> 10 ^ 21 then ''+'' else if n < 0 then CHR ''-'' # dec_string (- n) else dec_string n)"
| "testedText JNegZero = ''0''"
| "testedText (JBool b) = (if b then ''true'' else ''false'')"
| "testedText (JArr [v]) = testedText v"
| "testedText _ = ''''"

definition memberObject :: "'a member_scheme \<Rightarrow> jsval" where
  "memberObject m = JObj [(''address'', JStr (mb_address m)), (''algorithm'', JStr (mb_algorithm m)),
     (''operatorId'', mb_operatorId m), (''publicKey'', mb_publicKey m)]"

definition normalizeMember :: "crypto \<Rightarrow> jsval \<Rightarrow> string \<Rightarrow> chain_error + member" where
  "normalizeMember cr v label =
     (case v of
        JObj m \<Rightarrow>
          if \<not> keys_are m [''address'', ''algorithm'', ''operatorId'', ''publicKey''] \<or>
             fld m ''algorithm'' \<noteq> JStr SIGNATURE_ALGORITHM \<or> \<not> is_address (coerced (fld m ''address'')) \<or>
             \<not> is_operator_id (testedText (fld m ''operatorId'')) \<or> str_val (fld m ''publicKey'') = None
          then Inl (Refused (label @ '' member is invalid''))
          else (case addressFromPublicKey cr (fld m ''publicKey'') of
            None \<Rightarrow> Inl Threw
          | Some a \<Rightarrow>
              if fld m ''address'' \<noteq> JStr a then Inl (Refused (label @ '' public key is invalid''))
              else Inr \<lparr>mb_address = a, mb_algorithm = SIGNATURE_ALGORITHM, mb_operatorId = fld m ''operatorId'',
                        mb_publicKey = fld m ''publicKey''\<rparr>)
      | _ \<Rightarrow> Inl (Refused (label @ '' member is invalid'')))"

text \<open>\<open>new Set(values).size === values.length\<close>, where a set compares objects by identity.\<close>

fun noRepeats :: "jsval list \<Rightarrow> bool" where
  "noRepeats [] \<longleftrightarrow> True"
| "noRepeats (v # vs) \<longleftrightarrow> \<not> list_ex (strict_eq v) vs \<and> noRepeats vs"

definition normalizeMembers :: "crypto \<Rightarrow> jsval \<Rightarrow> string \<Rightarrow> chain_error + member list" where
  "normalizeMembers cr values label =
     (case values of
        JArr vs \<Rightarrow>
          if length vs < 4 \<or> length vs > MAX_AUTHORITIES then Inl (Refused (label @ '' size is invalid''))
          else bind_r (mapM (\<lambda>v. normalizeMember cr v label) vs) (\<lambda>ms.
            let members = sort_key mb_address ms in
            if \<not> distinct (map mb_address members) \<or> \<not> noRepeats (map mb_operatorId members) \<or>
               \<not> noRepeats (map mb_publicKey members)
            then Inl (Refused (label @ '' identities are duplicated'')) else Inr members)
      | _ \<Rightarrow> Inl (Refused (label @ '' size is invalid'')))"

definition beaconAuthoritySetId :: "crypto \<Rightarrow> jsval \<Rightarrow> jsval \<Rightarrow> jsval \<Rightarrow> chain_error + string" where
  "beaconAuthoritySetId cr generation members networkId =
     bind_r (normalizeMembers cr members ''beacon authority set'') (\<lambda>authorities.
       map_err Not_hashable (hashObject cr (JObj [(''authorities'', JArr (map memberObject authorities)),
         (''generation'', generation), (''networkId'', networkId)]) ''BEACON_AUTHORITY_SET_V1''))"

record retired_beacon = member +
  rb_faults :: int
  rb_identityCommitment :: string
  rb_retiredHeight :: int

definition retiredBeaconIdentity :: "crypto \<Rightarrow> jsval \<Rightarrow> int \<Rightarrow> int \<Rightarrow> chain_error + retired_beacon" where
  "retiredBeaconIdentity cr v retiredHeight faults =
     bind_r (normalizeMember cr v ''retired beacon identity'') (\<lambda>m.
     if \<not> is_safe_int retiredHeight \<or> retiredHeight < 1 \<or> \<not> is_safe_int faults \<or> faults < 0
     then Inl (Refused ''retired beacon identity context is invalid'')
     else bind_r (map_err Not_hashable (hashObject cr (memberObject m) ''BEACON_RETIRED_IDENTITY_V1'')) (\<lambda>c.
       Inr (member.extend m (retired_beacon.fields faults c retiredHeight))))"

definition beaconAdmissionRank :: "crypto \<Rightarrow> jsval \<Rightarrow> string \<Rightarrow> int \<Rightarrow> chain_error + string" where
  "beaconAdmissionRank cr v networkId submittedHeight =
     bind_r (normalizeMember cr v ''beacon admission'') (\<lambda>m.
     if length networkId < 1 \<or> length networkId > 64 \<or> \<not> is_safe_int submittedHeight \<or> submittedHeight < 1
     then Inl (Refused ''beacon admission context is invalid'')
     else map_err Not_hashable (hashObject cr (JObj [(''member'', memberObject m), (''networkId'', JStr networkId),
            (''submittedHeight'', JNum submittedHeight)]) ''BEACON_ADMISSION_RANK_V1''))"

section \<open>Rotation\<close>

record rotation =
  ro_activationHeight :: int
  ro_authorities :: "member list"
  ro_generation :: int
  ro_networkId :: string
  ro_nextSetId :: string
  ro_previousSetId :: string

definition rotationObject :: "rotation \<Rightarrow> jsval" where
  "rotationObject p = JObj [(''activationHeight'', JNum (ro_activationHeight p)),
     (''authorities'', JArr (map memberObject (ro_authorities p))), (''generation'', JNum (ro_generation p)),
     (''networkId'', JStr (ro_networkId p)), (''nextSetId'', JStr (ro_nextSetId p)),
     (''previousSetId'', JStr (ro_previousSetId p))]"

text \<open>
  The hashes are compared with \<open>!==\<close> later on, so the ones that pass are strings; the patterns alone
  would pass an array too.
\<close>

definition rotationPayload :: "crypto \<Rightarrow> jsobj \<Rightarrow> chain_error + (rotation \<times> jsval)" where
  "rotationPayload cr value =
     bind_r (normalizeMembers cr (fld value ''authorities'') ''next beacon authority set'') (\<lambda>authorities.
     (case (fld value ''networkId'', safe_int (fld value ''generation''), safe_int (fld value ''activationHeight'')) of
        (JStr networkId, Some generation, Some activationHeight) \<Rightarrow>
          if length networkId < 1 \<or> length networkId > 64 \<or> generation < 1 \<or> activationHeight < 1 \<or>
             \<not> is_hex64 (coerced (fld value ''previousSetId'')) \<or> \<not> is_hex64 (coerced (fld value ''nextSetId''))
          then Inl (Refused ''beacon rotation payload is invalid'')
          else bind_r (beaconAuthoritySetId cr (JNum generation) (JArr (map memberObject authorities)) (JStr networkId)) (\<lambda>nextSetId.
            if fld value ''nextSetId'' \<noteq> JStr nextSetId
            then Inl (Refused ''next beacon authority set commitment is invalid'')
            else Inr (\<lparr>ro_activationHeight = activationHeight, ro_authorities = authorities, ro_generation = generation,
              ro_networkId = networkId, ro_nextSetId = nextSetId, ro_previousSetId = coerced (fld value ''previousSetId'')\<rparr>,
              fld value ''previousSetId''))
      | _ \<Rightarrow> Inl (Refused ''beacon rotation payload is invalid'')))"

definition byAddress :: "member list \<Rightarrow> (string, member) jsmap" where
  "byAddress ms = foldl (\<lambda>m x. jset (mb_address x) x m) [] ms"

text \<open>One turn of the loop over approvals: those seen so far, the last one's authority with them.\<close>

definition checkRotationApproval :: "crypto \<Rightarrow> jsval \<Rightarrow> (string, member) jsmap \<Rightarrow> string \<Rightarrow> string \<Rightarrow> string list \<Rightarrow> jsval \<Rightarrow>
    chain_error + string list" where
  "checkRotationApproval cr payload members domain label seen approval =
     (case approval of
        JObj a \<Rightarrow>
          (case fld a ''authority'' of
             JStr authority \<Rightarrow>
               if \<not> keys_are a [''authority'', ''signature''] \<or> authority \<in> set seen \<or>
                  (seen \<noteq> [] \<and> \<not> last seen < authority)
               then Inl (Refused (label @ '' is duplicated, unordered, or malformed''))
               else (case jget members authority of
                 None \<Rightarrow> Inl (Refused (label @ '' signature is invalid''))
               | Some m \<Rightarrow>
                   if \<not> verifyObject cr payload (fld a ''signature'') (mb_publicKey m) domain
                   then Inl (Refused (label @ '' signature is invalid'')) else Inr (seen @ [authority]))
           | _ \<Rightarrow> Inl (Refused (label @ '' signature is invalid'')))
      | _ \<Rightarrow> Inl (Refused (label @ '' is duplicated, unordered, or malformed'')))"

definition verifyApprovals :: "crypto \<Rightarrow> jsval \<Rightarrow> jsval \<Rightarrow> (string, member) jsmap \<Rightarrow> string \<Rightarrow> nat \<Rightarrow> string \<Rightarrow>
    chain_error + string list" where
  "verifyApprovals cr payload approvals members domain required label =
     (case approvals of
        JArr vs \<Rightarrow>
          if length vs > jsize members then Inl (Refused (label @ '' list is invalid''))
          else bind_r (foldM (checkRotationApproval cr payload members domain label) [] vs) (\<lambda>seen.
            if length seen < required then Inl (Refused (label @ '' quorum is not reached'')) else Inr seen)
      | _ \<Rightarrow> Inl (Refused (label @ '' list is invalid'')))"

definition ROTATION_FIELDS :: "string list" where
  "ROTATION_FIELDS = [''activationHeight'', ''authorities'', ''generation'', ''networkId'', ''nextSetId'',
     ''oldApprovals'', ''possessionProofs'', ''previousSetId'']"

definition verifyBeaconRotation :: "crypto \<Rightarrow> jsval \<Rightarrow> balances \<Rightarrow> member list \<Rightarrow> int \<Rightarrow> int \<Rightarrow> string \<Rightarrow>
    chain_error + rotation" where
  "verifyBeaconRotation cr v bonds currentAuthorities currentGeneration currentHeight networkId =
     (case v of
        JObj value \<Rightarrow>
          if \<not> keys_are value ROTATION_FIELDS then Inl (Refused ''beacon rotation schema is invalid'')
          else bind_r (normalizeMembers cr (JArr (map memberObject currentAuthorities)) ''current beacon authority set'') (\<lambda>current.
          if \<not> is_safe_int currentGeneration \<or> currentGeneration < 0 \<or> \<not> is_safe_int currentHeight \<or> currentHeight < 0
          then Inl (Refused ''current beacon rotation context is invalid'')
          else bind_r (rotationPayload cr value) (\<lambda>(p, previousSetId).
          if ro_networkId p \<noteq> networkId \<or> ro_generation p \<noteq> currentGeneration + 1 \<or>
             ro_activationHeight p < currentHeight + BEACON_ROTATION_DELAY_BLOCKS
          then Inl (Refused ''beacon rotation lineage, generation, or delay is invalid'')
          else bind_r (beaconAuthoritySetId cr (JNum currentGeneration) (JArr (map memberObject current)) (JStr networkId)) (\<lambda>currentSetId.
          if previousSetId \<noteq> JStr currentSetId \<or> length (ro_authorities p) \<noteq> length current
          then Inl (Refused ''beacon rotation lineage, generation, or delay is invalid'')
          else let currentBy = byAddress current; nextBy = byAddress (ro_authorities p) in
          if length (filter (jhas currentBy) (jkeys nextBy)) < (length current + 2) div 3
          then Inl (Refused ''beacon rotation requires at least one-third old/new overlap'')
          else if list_ex (\<lambda>m. jget_or 0 bonds (mb_address m) < MIN_BEACON_BOND) (ro_authorities p)
          then Inl (Refused ''next beacon authority bond is below minimum'')
          else bind_r (verifyApprovals cr (rotationObject p) (fld value ''oldApprovals'') currentBy ''BEACON_ROTATION_OLD_V1''
                 (voteQuorum (length current)) ''old beacon rotation approval'') (\<lambda>_.
          bind_r (verifyApprovals cr (rotationObject p) (fld value ''possessionProofs'') nextBy ''BEACON_ROTATION_POSSESSION_V1''
                 (jsize nextBy) ''new beacon possession proof'') (\<lambda>_. Inr p)))))
      | _ \<Rightarrow> Inl (Refused ''beacon rotation schema is invalid''))"

section \<open>Bond and retirement\<close>

definition sameIdentity :: "jsobj \<Rightarrow> string \<Rightarrow> 'a member_scheme \<Rightarrow> bool" where
  "sameIdentity tx sender m \<longleftrightarrow> mb_address m = sender \<or> sameKey tx m \<or> sameOperator tx m"

definition checkNewBeacon :: "chain_context \<Rightarrow> jsobj \<Rightarrow> string \<Rightarrow> ledger \<Rightarrow> chain_error + unit" where
  "checkNewBeacon cx tx sender L =
     (let b = lg_beacons L; v = lg_validators L; e = lg_evaluators L;
          occupied = list_ex (sameOperator tx) (jvalues (bb_registered b)) \<or> list_ex (sameOperator tx) (jvalues (bb_pending b)) \<or>
            list_ex (sameOperator tx) (jvalues (bb_retired b)) \<or> list_ex (sameOperator tx) (jvalues (vb_registered v)) \<or>
            list_ex (sameOperator tx) (jvalues (eb_members e)) in
      if fld tx ''operatorId'' = JUndef then Inl (Refused ''beacon bond transaction is invalid'')
      else if \<not> is_operator_id (testedText (fld tx ''operatorId'')) \<or> occupied \<or> jhas (vb_registered v) sender \<or>
              jhas (eb_members e) sender \<or> list_ex (sameIdentity tx sender) (jvalues (bb_retired b)) \<or>
              jsize (bb_pending b) \<ge> MAX_PENDING_BEACON_ADMISSIONS \<or>
              (case safe_int (fld tx ''activationHeight'') of None \<Rightarrow> True
               | Some h \<Rightarrow> h \<noteq> cx_height cx + BEACON_ADMISSION_DELAY_BLOCKS)
      then Inl (Refused ''new beacon authority identity is invalid or duplicated'') else Inr ())"

definition admitBeacon :: "crypto \<Rightarrow> chain_context \<Rightarrow> jsobj \<Rightarrow> string \<Rightarrow> chain_error + beacon_admission" where
  "admitBeacon cr cx tx sender =
     bind_r (beaconAdmissionRank cr (memberObject (registrant tx sender)) (cx_networkId cx) (cx_height cx)) (\<lambda>rank.
       let activation = cx_height cx + BEACON_ADMISSION_DELAY_BLOCKS in
       Inr (member.extend (registrant tx sender)
         (beacon_admission.fields activation (activation + BEACON_ADMISSION_EXPIRY_BLOCKS) rank (cx_height cx))))"

definition applyBeaconBond :: "crypto \<Rightarrow> chain_context \<Rightarrow> jsobj \<Rightarrow> ledger \<Rightarrow> chain_error + ledger" where
  "applyBeaconBond cr cx tx L =
     (if misdirected cx tx ''beacon-bond'' then Inl (Refused ''beacon bond transaction is invalid'')
      else bind_r (signer cr tx ''BEACON_BOND'' ''beacon bond transaction is invalid'') (\<lambda>sender.
      let b = lg_beacons L; authority = jget (bb_registered b) sender in
      if (jhas (cx_beaconAuthorities cx) sender \<and> sender \<in> set (cx_disabledBeacons cx)) \<or>
         (case authority of None \<Rightarrow> False | Some m \<Rightarrow> \<not> sameKey tx m) \<or>
         jhas (bb_pending b) sender
      then Inl (Refused ''beacon bond transaction is invalid'')
      else bind_r (if authority \<noteq> None
             then if fld tx ''operatorId'' \<noteq> JUndef
                  then Inl (Refused ''beacon bond identity does not match its registration'') else Inr ()
             else checkNewBeacon cx tx sender L) (\<lambda>_.
      bind_r (expectNonce tx (lg_nonces L) sender) (\<lambda>expectedNonce.
      bind_r (amountOf (fld tx ''amount'') ''beacon bond'') (\<lambda>amount.
      bind_r (amountOf (fld tx ''fee'') ''fee'') (\<lambda>fee.
      if amount = 0 \<or> (authority = None \<and> amount \<noteq> MIN_BEACON_BOND) \<or> fee < MIN_TRANSFER_FEE
      then Inl (Refused ''beacon bond or fee is below minimum'')
      else let balance = jget_or 0 (lg_balances L) sender in
      if balance < amount + fee then Inl (Refused ''insufficient balance'')
      else bind_r (if authority \<noteq> None then Inr (bb_pending b)
             else bind_r (admitBeacon cr cx tx sender) (\<lambda>a. Inr (jset sender a (bb_pending b)))) (\<lambda>pending.
        Inr (L\<lparr>lg_balances := payFee sender (balance - amount - fee) (cx_feeRecipient cx) fee (lg_balances L),
               lg_nonces := jset sender (expectedNonce + 1) (lg_nonces L),
               lg_beacons := b\<lparr>bb_bonds := jset sender (jget_or 0 (bb_bonds b) sender + amount) (bb_bonds b),
                 bb_pending := pending\<rparr>\<rparr>))))))))"

definition applyBeaconRetirement :: "crypto \<Rightarrow> chain_context \<Rightarrow> jsobj \<Rightarrow> ledger \<Rightarrow> chain_error + ledger" where
  "applyBeaconRetirement cr cx tx L =
     (if misdirected cx tx ''beacon-retire''
      then Inl (Refused ''beacon retirement transaction is invalid or authority is still referenced'')
      else bind_r (signer cr tx ''BEACON_RETIREMENT_V1''
             ''beacon retirement transaction is invalid or authority is still referenced'') (\<lambda>sender.
      let b = lg_beacons L in
      if (case jget (bb_registered b) sender of None \<Rightarrow> True | Some m \<Rightarrow> \<not> sameKey tx m) \<or>
         jhas (cx_beaconAuthorities cx) sender \<or> sender \<in> set (cx_rotatingBeacons cx) \<or> jhas (bb_retirements b) sender
      then Inl (Refused ''beacon retirement transaction is invalid or authority is still referenced'')
      else bind_r (expectNonce tx (lg_nonces L) sender) (\<lambda>expectedNonce.
      bind_r (amountOf (fld tx ''fee'') ''fee'') (\<lambda>fee.
      let bond = jget_or 0 (bb_bonds b) sender; balances = lg_balances L in
      if fee < MIN_TRANSFER_FEE \<or> bond \<le> fee
      then Inl (Refused ''beacon retirement fee or remaining bond is invalid'')
      else Inr (L\<lparr>lg_balances := jset (cx_feeRecipient cx) (jget_or 0 balances (cx_feeRecipient cx) + fee) balances,
                 lg_nonces := jset sender (expectedNonce + 1) (lg_nonces L),
                 lg_beacons := b\<lparr>bb_bonds := jset sender (bond - fee) (bb_bonds b),
                   bb_retirements := jset sender \<lparr>br_requestedHeight = cx_height cx,
                     br_unlockHeight = cx_height cx + BEACON_RETIREMENT_DELAY_BLOCKS\<rparr> (bb_retirements b)\<rparr>\<rparr>)))))"

section \<open>What the handlers keep\<close>

lemma beacon_bond_keeps:
  assumes "applyBeaconBond cr cx tx L = Inr L'"
  shows "keeps tx L L'"
proof -
  from assms obtain a amount fee pending where a: "fld tx ''sender'' = JStr a"
    "safe_int (fld tx ''nonce'') = Some (jget_or 0 (lg_nonces L) a)"
    and am: "parseAtomic (fld tx ''amount'') = Inr amount"
    and fee: "MIN_TRANSFER_FEE \<le> fee" "amount + fee \<le> jget_or 0 (lg_balances L) a"
    and L': "L' = L\<lparr>lg_balances := payFee a (jget_or 0 (lg_balances L) a - amount - fee) (cx_feeRecipient cx) fee (lg_balances L),
      lg_nonces := jset a (jget_or 0 (lg_nonces L) a + 1) (lg_nonces L),
      lg_beacons := (lg_beacons L)\<lparr>bb_bonds := jset a (jget_or 0 (bb_bonds (lg_beacons L)) a + amount) (bb_bonds (lg_beacons L)),
        bb_pending := pending\<rparr>\<rparr>"
    unfolding applyBeaconBond_def Let_def
    by (simp only: handler_guards sum.inject) blast
  have "0 \<le> amount" using parseAtomic_range [OF am] by simp
  then show ?thesis
    by (intro keepsI [OF a])
      (use fee in \<open>simp_all add: L' ledger_ok_def ledger_rules worth_rules MIN_TRANSFER_FEE_def\<close>)
qed

lemma beacon_retirement_keeps:
  assumes "applyBeaconRetirement cr cx tx L = Inr L'"
  shows "keeps tx L L'"
proof -
  from assms obtain a fee retirements where a: "fld tx ''sender'' = JStr a"
    "safe_int (fld tx ''nonce'') = Some (jget_or 0 (lg_nonces L) a)"
    and fee: "MIN_TRANSFER_FEE \<le> fee" "fee < jget_or 0 (bb_bonds (lg_beacons L)) a"
    and L': "L' = L\<lparr>lg_balances := jset (cx_feeRecipient cx) (jget_or 0 (lg_balances L) (cx_feeRecipient cx) + fee) (lg_balances L),
      lg_nonces := jset a (jget_or 0 (lg_nonces L) a + 1) (lg_nonces L),
      lg_beacons := (lg_beacons L)\<lparr>bb_bonds := jset a (jget_or 0 (bb_bonds (lg_beacons L)) a - fee) (bb_bonds (lg_beacons L)),
        bb_retirements := retirements\<rparr>\<rparr>"
    unfolding applyBeaconRetirement_def Let_def
    by (simp only: handler_guards sum.inject) blast
  show ?thesis
    by (intro keepsI [OF a])
      (use fee in \<open>simp_all add: L' ledger_ok_def ledger_rules worth_rules MIN_TRANSFER_FEE_def\<close>)
qed

section \<open>What a rotation shows\<close>

lemma checkRotationApproval_Inr:
  assumes "checkRotationApproval cr payload members domain label s v = Inr s'"
  obtains a m sig where "jget members a = Some m" and "a \<notin> set s" and "s' = s @ [a]"
    and "verifyObject cr payload sig (mb_publicKey m) domain"
  using assms unfolding checkRotationApproval_def
  by (auto split: jsval.split_asm option.split_asm if_split_asm)

interpretation approvals: vote_count "checkRotationApproval cr payload members domain label" id
    "\<lambda>_. signedBy cr members payload domain"
  for cr payload members domain label
  by unfold_locales (auto elim!: checkRotationApproval_Inr simp: signedBy_def)

lemma verifyApprovals_Inr:
  assumes "verifyApprovals cr payload list members domain required label = Inr seen"
  shows "distinct seen \<and> required \<le> length seen \<and> (\<forall>a \<in> set seen. signedBy cr members payload domain a) \<and>
    set seen \<subseteq> set (jkeys members)"
proof -
  from assms obtain vs where f: "foldM (checkRotationApproval cr payload members domain label) [] vs = Inr seen"
      "required \<le> length seen"
    by (auto simp: verifyApprovals_def bind_r_Inr_iff split: jsval.split_asm if_split_asm)
  have t: "distinct seen \<and> (\<forall>a \<in> set seen. signedBy cr members payload domain a)"
    using approvals.tally [OF f(1)] by simp
  then have "set seen \<subseteq> set (jkeys members)"
    unfolding signedBy_def by (auto simp: jhas_iff_keys [symmetric] jhas_def)
  with t f(2) show ?thesis by simp
qed

lemma byAddress_acc:
  "set (jkeys (foldl (\<lambda>m x. jset (mb_address x) x m) m0 ms)) = set (jkeys m0) \<union> mb_address ` set ms \<and>
   (jwf m0 \<longrightarrow> jwf (foldl (\<lambda>m x. jset (mb_address x) x m) m0 ms))"
proof (induction ms arbitrary: m0)
  case (Cons x ms)
  have "set (jkeys (jset (mb_address x) x m0)) = insert (mb_address x) (set (jkeys m0))"
    by (auto simp: jhas_iff_keys [symmetric])
  with Cons [of "jset (mb_address x) x m0"] show ?case by auto
qed simp

lemma byAddress_keys: "set (jkeys (byAddress ms)) = mb_address ` set ms" "jwf (byAddress ms)"
  using byAddress_acc [of "[]" ms] by (simp_all add: byAddress_def jkeys_def)

lemma byAddress_size: "distinct (map mb_address ms) \<Longrightarrow> jsize (byAddress ms) = length ms"
  using jkeys_size [OF byAddress_keys(2), of ms] distinct_card [of "map mb_address ms"] by (simp add: byAddress_keys)

lemma normalizeMembers_Inr:
  assumes "normalizeMembers cr values label = Inr members"
  shows "distinct (map mb_address members) \<and> noRepeats (map mb_operatorId members) \<and>
    sorted (map mb_address members) \<and> 4 \<le> length members \<and> length members \<le> MAX_AUTHORITIES"
proof (cases "values")
  case (JArr vs)
  with assms obtain ms where "mapM (\<lambda>v. normalizeMember cr v label) vs = Inr ms"
      "4 \<le> length vs" "length vs \<le> MAX_AUTHORITIES" "members = sort_key mb_address ms"
      "distinct (map mb_address members)" "noRepeats (map mb_operatorId members)"
    by (auto simp: normalizeMembers_def bind_r_Inr_iff Let_def split: if_split_asm)
  then show ?thesis by (auto dest: mapM_length)
qed (use assms in \<open>simp_all add: normalizeMembers_def\<close>)

lemma rotation_Inr:
  assumes "verifyBeaconRotation cr v bonds authorities generation height networkId = Inr p"
  obtains current old new seen seen' where "normalizeMembers cr (JArr (map memberObject authorities)) ''current beacon authority set'' = Inr current"
    and "verifyApprovals cr (rotationObject p) old (byAddress current) ''BEACON_ROTATION_OLD_V1''
           (voteQuorum (length current)) ''old beacon rotation approval'' = Inr seen"
    and "verifyApprovals cr (rotationObject p) new (byAddress (ro_authorities p)) ''BEACON_ROTATION_POSSESSION_V1''
           (jsize (byAddress (ro_authorities p))) ''new beacon possession proof'' = Inr seen'"
    and "ro_networkId p = networkId" and "ro_generation p = generation + 1"
    and "height + BEACON_ROTATION_DELAY_BLOCKS \<le> ro_activationHeight p"
    and "length (ro_authorities p) = length current"
    and "(length current + 2) div 3 \<le> length (filter (jhas (byAddress current)) (jkeys (byAddress (ro_authorities p))))"
    and "\<not> list_ex (\<lambda>m. jget_or 0 bonds (mb_address m) < MIN_BEACON_BOND) (ro_authorities p)"
proof (cases v)
  case (JObj obj)
  show ?thesis
    using assms [unfolded verifyBeaconRotation_def JObj jsval.case Let_def]
    apply (simp only: bind_r_Inr_iff if_Inl_Inr_iff prod.case split_paired_Ex not_less de_Morgan_disj not_not sum.inject)
    apply (elim exE conjE)
    apply hypsubst
    apply (rule that, (assumption | erule sym)+)
    done
qed (use assms in \<open>simp_all add: verifyBeaconRotation_def\<close>)

text \<open>
  A rotation of the beacon authorities is accepted only for the next generation and the coming
  delay, and only when more than two thirds of the current authorities have signed it, every new
  authority has signed it with its own key and holds the minimal bond, and at least a third of the
  members stay.
\<close>

theorem beacon_rotation_authorized:
  assumes "verifyBeaconRotation cr v bonds authorities generation height networkId = Inr p"
    and "normalizeMembers cr (JArr (map memberObject authorities)) ''current beacon authority set'' = Inr current"
  shows "quorumSigned cr (byAddress current) (byAddress current) (rotationObject p) ''BEACON_ROTATION_OLD_V1'' \<and>
    (\<forall>m \<in> set (ro_authorities p). MIN_BEACON_BOND \<le> jget_or 0 bonds (mb_address m) \<and>
       signedBy cr (byAddress (ro_authorities p)) (rotationObject p) ''BEACON_ROTATION_POSSESSION_V1'' (mb_address m)) \<and>
    ro_generation p = generation + 1 \<and> height + BEACON_ROTATION_DELAY_BLOCKS \<le> ro_activationHeight p \<and>
    length (ro_authorities p) = length current \<and>
    length current \<le> 3 * length (filter (jhas (byAddress current)) (jkeys (byAddress (ro_authorities p))))"
proof -
  obtain old new seen seen' where r:
      "verifyApprovals cr (rotationObject p) old (byAddress current) ''BEACON_ROTATION_OLD_V1''
         (voteQuorum (length current)) ''old beacon rotation approval'' = Inr seen"
      "verifyApprovals cr (rotationObject p) new (byAddress (ro_authorities p)) ''BEACON_ROTATION_POSSESSION_V1''
         (jsize (byAddress (ro_authorities p))) ''new beacon possession proof'' = Inr seen'"
      "ro_generation p = generation + 1" "height + BEACON_ROTATION_DELAY_BLOCKS \<le> ro_activationHeight p"
      "length (ro_authorities p) = length current"
      "(length current + 2) div 3 \<le> length (filter (jhas (byAddress current)) (jkeys (byAddress (ro_authorities p))))"
      "\<not> list_ex (\<lambda>m. jget_or 0 bonds (mb_address m) < MIN_BEACON_BOND) (ro_authorities p)"
  proof (rule rotation_Inr [OF assms(1)])
    fix c old new seen seen'
    assume "normalizeMembers cr (JArr (map memberObject authorities)) ''current beacon authority set'' = Inr c"
    with assms(2) have "c = current" by simp
    moreover assume "verifyApprovals cr (rotationObject p) old (byAddress c) ''BEACON_ROTATION_OLD_V1''
         (voteQuorum (length c)) ''old beacon rotation approval'' = Inr seen"
      "verifyApprovals cr (rotationObject p) new (byAddress (ro_authorities p)) ''BEACON_ROTATION_POSSESSION_V1''
         (jsize (byAddress (ro_authorities p))) ''new beacon possession proof'' = Inr seen'"
      "ro_generation p = generation + 1" "height + BEACON_ROTATION_DELAY_BLOCKS \<le> ro_activationHeight p"
      "length (ro_authorities p) = length c"
      "(length c + 2) div 3 \<le> length (filter (jhas (byAddress c)) (jkeys (byAddress (ro_authorities p))))"
      "\<not> list_ex (\<lambda>m. jget_or 0 bonds (mb_address m) < MIN_BEACON_BOND) (ro_authorities p)"
    ultimately show thesis using that by metis
  qed
  note o = verifyApprovals_Inr [OF r(1)] and n = verifyApprovals_Inr [OF r(2)]
  have size: "jsize (byAddress current) = length current"
    using normalizeMembers_Inr [OF assms(2)] by (simp add: byAddress_size)
  have "quorumSigned cr (byAddress current) (byAddress current) (rotationObject p) ''BEACON_ROTATION_OLD_V1''"
    unfolding quorumSigned_def using o size distinct_card [of seen] by (intro exI [of _ "set seen"]) simp
  moreover have "set seen' = set (jkeys (byAddress (ro_authorities p)))"
    by (rule card_subset_eq) (use n jkeys_size [OF byAddress_keys(2), of "ro_authorities p"] distinct_card [of seen']
      card_mono [of "set (jkeys (byAddress (ro_authorities p)))" "set seen'"] in auto)
  ultimately show ?thesis using r n by (auto simp: byAddress_keys list_ex_iff not_less)
qed

text \<open>
  C23: Two different rotations of one authority set are both accepted only if more than a third of
  the set has signed both.
\<close>

theorem conflicting_rotations_accountable:
  assumes "verifyBeaconRotation cr v bonds authorities generation height networkId = Inr p"
    and "verifyBeaconRotation cr v' bonds' authorities generation' height' networkId' = Inr p'"
  shows "\<exists>current A. normalizeMembers cr (JArr (map memberObject authorities)) ''current beacon authority set'' = Inr current \<and>
    A \<subseteq> mb_address ` set current \<and> length current < 3 * card A \<and>
    (\<forall>a \<in> A. signedBy cr (byAddress current) (rotationObject p) ''BEACON_ROTATION_OLD_V1'' a \<and>
             signedBy cr (byAddress current) (rotationObject p') ''BEACON_ROTATION_OLD_V1'' a)"
proof -
  obtain current where c: "normalizeMembers cr (JArr (map memberObject authorities)) ''current beacon authority set'' = Inr current"
    using assms(1) by (rule rotation_Inr)
  have quorum: "quorumSigned cr (byAddress current) (byAddress current) (rotationObject q) ''BEACON_ROTATION_OLD_V1''"
    if rotation: "verifyBeaconRotation cr w b authorities g h n = Inr q" for w b g h n q
  proof -
    obtain old seen where "verifyApprovals cr (rotationObject q) old (byAddress current) ''BEACON_ROTATION_OLD_V1''
         (voteQuorum (length current)) ''old beacon rotation approval'' = Inr seen"
      using rotation by (rule rotation_Inr) (use c in force)
    from verifyApprovals_Inr [OF this] show ?thesis
      unfolding quorumSigned_def
      using byAddress_size normalizeMembers_Inr [OF c] distinct_card [of seen] by (intro exI [of _ "set seen"]) simp
  qed
  from quorumSigned_intersect [OF byAddress_keys(2) quorum [OF assms(1)] quorum [OF assms(2)]]
  show ?thesis using c normalizeMembers_Inr [OF c] by (auto simp: byAddress_keys byAddress_size)
qed

section \<open>A rotation to evaluate\<close>

text \<open>The last byte of a key gives its address; all other hashes are one constant.\<close>

definition demo_keys :: crypto where
  "demo_keys = demo_crypto\<lparr>sha3_hex := (\<lambda>b. replicate 64 (if b ! 3 = 47 then char_of (last b) else CHR ''d''))\<rparr>"

lemma demo_keys_hash:
  assumes "json_ok v" and "is_domain d"
  shows "hashObject demo_keys v d = Inr demo_hex"
proof -
  have "keeps_ascii demo_keys" by (simp add: keeps_ascii_def demo_keys_def demo_crypto_def)
  moreover have "unit_of CHR ''-'' = 45" by code_simp
  ultimately show ?thesis using hashObject_ok [of demo_keys, OF _ assms] by (simp add: demo_keys_def ascii_def)
qed

lemma demo_keys_verify:
  assumes "json_ok v" and "is_domain d"
  shows "verifyObject demo_keys v (JStr s) (JStr k) d"
proof -
  have "keeps_ascii demo_keys" by (simp add: keeps_ascii_def demo_keys_def demo_crypto_def)
  from domainPayload_ok [OF this assms] show ?thesis by (auto simp: verifyObject_def demo_keys_def demo_crypto_def)
qed

definition demo_beacon :: "char \<Rightarrow> member" where
  "demo_beacon c = \<lparr>mb_address = demo_address c, mb_algorithm = SIGNATURE_ALGORITHM, mb_operatorId = JStr [CHR ''o'', CHR ''p'', c],
     mb_publicKey = JStr [c]\<rparr>"

definition demo_beacons :: "member list" where
  "demo_beacons = map demo_beacon [CHR ''a'', CHR ''b'', CHR ''c'', CHR ''e'']"

definition demo_approvals :: "char list \<Rightarrow> jsval" where
  "demo_approvals cs = JArr (map (\<lambda>c. JObj [(''authority'', JStr (demo_address c)), (''signature'', JStr ''sig'')]) cs)"

definition demo_rotation :: jsobj where
  "demo_rotation = [(''activationHeight'', JNum 100), (''authorities'', JArr (map memberObject demo_beacons)), (''generation'', JNum 1),
     (''networkId'', JStr ''nir-test''), (''nextSetId'', JStr demo_hex),
     (''oldApprovals'', demo_approvals [CHR ''a'', CHR ''b'', CHR ''c'']),
     (''possessionProofs'', demo_approvals [CHR ''a'', CHR ''b'', CHR ''c'', CHR ''e'']), (''previousSetId'', JStr demo_hex)]"

definition demo_rotated :: rotation where
  "demo_rotated = \<lparr>ro_activationHeight = 100, ro_authorities = demo_beacons, ro_generation = 1, ro_networkId = ''nir-test'',
     ro_nextSetId = demo_hex, ro_previousSetId = demo_hex\<rparr>"

lemma demo_beacon_member:
  assumes "c \<in> {CHR ''a'', CHR ''b'', CHR ''c'', CHR ''e''}"
  shows "normalizeMember demo_keys (memberObject (demo_beacon c)) label = Inr (demo_beacon c)"
proof -
  have k: "keys_are [(''address'', x), (''algorithm'', y), (''operatorId'', z), (''publicKey'', w)]
      [''address'', ''algorithm'', ''operatorId'', ''publicKey'']" for x y z w by (simp add: keys_are_def)
  have a: "is_address (demo_address c) \<and> is_operator_id [CHR ''o'', CHR ''p'', c]"
    using assms by (elim insertE emptyE) (simp; code_simp)+
  have p: "addressFromPublicKey demo_keys (JStr [c]) = Some (demo_address c)"
  proof -
    have "unit_of CHR ''/'' = 47" by code_simp
    then show ?thesis
      by (simp add: addressFromPublicKey_def demo_keys_def demo_crypto_def demo_address_def ascii_def unit_of_def)
  qed
  show ?thesis
    using k a p by (simp add: normalizeMember_def memberObject_def demo_beacon_def fld_def)
qed

lemma demo_beacons_members:
  "normalizeMembers demo_keys (JArr (map memberObject demo_beacons)) label = Inr demo_beacons"
proof -
  have m: "mapM (\<lambda>v. normalizeMember demo_keys v label) (map memberObject demo_beacons) = Inr demo_beacons"
    by (simp add: demo_beacons_def demo_beacon_member)
  have s: "sort_key mb_address demo_beacons = demo_beacons"
    by (rule sort_key_id_if_sorted) code_simp
  have d: "distinct (map mb_address demo_beacons)" "noRepeats (map mb_operatorId demo_beacons)"
    "noRepeats (map mb_publicKey demo_beacons)" by code_simp+
  show ?thesis using m s d by (simp add: normalizeMembers_def MAX_AUTHORITIES_def demo_beacons_def)
qed

lemma demo_set_id:
  assumes "g = 0 \<or> g = 1"
  shows "beaconAuthoritySetId demo_keys (JNum g) (JArr (map memberObject demo_beacons)) (JStr ''nir-test'') = Inr demo_hex"
proof -
  have "json_ok (JObj [(''authorities'', JArr (map memberObject demo_beacons)), (''generation'', JNum g),
      (''networkId'', JStr ''nir-test'')]) \<and> is_domain ''BEACON_AUTHORITY_SET_V1''"
    using assms by (elim disjE) (simp only:, code_simp)+
  then show ?thesis by (simp add: beaconAuthoritySetId_def demo_beacons_members demo_keys_hash)
qed

lemma demo_approvals_ok:
  assumes "cs = [CHR ''a'', CHR ''b'', CHR ''c''] \<or> cs = [CHR ''a'', CHR ''b'', CHR ''c'', CHR ''e'']"
    and "\<And>c. verifyObject demo_keys payload (JStr ''sig'') (JStr [c]) domain" and "required \<le> length cs"
  shows "verifyApprovals demo_keys payload (demo_approvals cs) (byAddress demo_beacons) domain required label = Inr (map demo_address cs)"
proof -
  have k: "keys_are [(''authority'', x), (''signature'', y)] [''authority'', ''signature'']" for x y by (simp add: keys_are_def)
  have f: "fld [(''authority'', x), (''signature'', y)] ''authority'' = x" "fld [(''authority'', x), (''signature'', y)] ''signature'' = y"
    for x y by (simp_all add: fld_def)
  have g: "jget (byAddress demo_beacons) (demo_address c) = Some (demo_beacon c)"
    if "c \<in> {CHR ''a'', CHR ''b'', CHR ''c'', CHR ''e''}" for c
    using that by (elim insertE emptyE) (simp only:, code_simp)+
  have o: "demo_address CHR ''a'' < demo_address CHR ''b''" "demo_address CHR ''b'' < demo_address CHR ''c''"
    "demo_address CHR ''c'' < demo_address CHR ''e''" by code_simp+
  have "jsize (byAddress demo_beacons) = 4" by code_simp
  moreover have "demo_address c \<noteq> demo_address d" if "c \<noteq> d" for c d using that by (simp add: demo_address_def)
  ultimately show ?thesis
    using assms k f g o
    by (elim disjE) (simp_all add: verifyApprovals_def demo_approvals_def checkRotationApproval_def demo_beacon_def)
qed

lemma demo_rotation_run:
  "verifyBeaconRotation demo_keys (JObj demo_rotation) (map (\<lambda>m. (mb_address m, MIN_BEACON_BOND)) demo_beacons)
     demo_beacons 0 10 ''nir-test'' = Inr demo_rotated"
proof -
  have f: "fld demo_rotation ''activationHeight'' = JNum 100" "fld demo_rotation ''authorities'' = JArr (map memberObject demo_beacons)"
    "fld demo_rotation ''generation'' = JNum 1" "fld demo_rotation ''networkId'' = JStr ''nir-test''"
    "fld demo_rotation ''nextSetId'' = JStr demo_hex" "fld demo_rotation ''previousSetId'' = JStr demo_hex"
    "fld demo_rotation ''oldApprovals'' = demo_approvals [CHR ''a'', CHR ''b'', CHR ''c'']"
    "fld demo_rotation ''possessionProofs'' = demo_approvals [CHR ''a'', CHR ''b'', CHR ''c'', CHR ''e'']"
    by (simp_all add: demo_rotation_def fld_def)
  have c: "keys_are demo_rotation ROTATION_FIELDS" "is_hex64 demo_hex" "is_safe_int 0" "is_safe_int 10"
    "safe_int (JNum 100) = Some 100" "safe_int (JNum 1) = Some 1" by code_simp+
  have p: "rotationPayload demo_keys demo_rotation = Inr (demo_rotated, JStr demo_hex)"
    by (simp add: rotationPayload_def f c demo_beacons_members demo_set_id demo_rotated_def del: safe_int.simps)
  have j: "json_ok (rotationObject demo_rotated) \<and> is_domain ''BEACON_ROTATION_OLD_V1'' \<and> is_domain ''BEACON_ROTATION_POSSESSION_V1''"
    by code_simp
  have v: "verifyApprovals demo_keys (rotationObject demo_rotated) (demo_approvals [CHR ''a'', CHR ''b'', CHR ''c''])
      (byAddress demo_beacons) ''BEACON_ROTATION_OLD_V1'' 3 l = Inr (map demo_address [CHR ''a'', CHR ''b'', CHR ''c''])"
    "verifyApprovals demo_keys (rotationObject demo_rotated) (demo_approvals [CHR ''a'', CHR ''b'', CHR ''c'', CHR ''e''])
      (byAddress demo_beacons) ''BEACON_ROTATION_POSSESSION_V1'' 4 l = Inr (map demo_address [CHR ''a'', CHR ''b'', CHR ''c'', CHR ''e''])" for l
    by (rule demo_approvals_ok; (use j in \<open>simp add: demo_keys_verify\<close>))+
  have q: "voteQuorum 4 = 3" "jsize (byAddress demo_beacons) = 4" "length demo_beacons = 4"
    "length (filter (jhas (byAddress demo_beacons)) (jkeys (byAddress demo_beacons))) = 4"
    "\<not> list_ex (\<lambda>m. jget_or 0 (map (\<lambda>m. (mb_address m, MIN_BEACON_BOND)) demo_beacons) (mb_address m) < MIN_BEACON_BOND) demo_beacons"
    by code_simp+
  have r: "ro_networkId demo_rotated = ''nir-test''" "ro_generation demo_rotated = 1" "ro_activationHeight demo_rotated = 100"
    "ro_authorities demo_rotated = demo_beacons" by (simp_all add: demo_rotated_def)
  show ?thesis
    by (simp add: verifyBeaconRotation_def c p demo_beacons_members demo_set_id r q f v BEACON_ROTATION_DELAY_BLOCKS_def Let_def)
qed

theorem beacon_rotation_authorized_witness:
  "quorumSigned demo_keys (byAddress demo_beacons) (byAddress demo_beacons) (rotationObject demo_rotated) ''BEACON_ROTATION_OLD_V1''"
  using beacon_rotation_authorized [OF demo_rotation_run demo_beacons_members] by blast

theorem conflicting_rotations_accountable_witness:
  "\<exists>A. A \<subseteq> mb_address ` set demo_beacons \<and> 4 < 3 * card A"
proof -
  have "length demo_beacons = 4" by code_simp
  with conflicting_rotations_accountable [OF demo_rotation_run demo_rotation_run] show ?thesis
    by (auto simp: demo_beacons_members)
qed

end
