(* ===== verification/Finality.thy ===== *)
theory Finality
  imports Quorums
begin

text \<open>
  Blocks, their headers and their certificates (\<open>blockchain/chain.mjs\<close>): the exact fields of a
  block, the header and hash that votes are about, the certificates of prepare and commit votes,
  and the timeout certificate of a later round.
\<close>

section \<open>Block schema\<close>

definition SUPPORTED_PROTOCOL_VERSIONS :: "int list" where
  "SUPPORTED_PROTOCOL_VERSIONS = [24..38]"

definition LEGACY_BLOCK_FIELDS :: "string list" where
  "LEGACY_BLOCK_FIELDS = sort [''accountStateRoot'', ''beaconRotation'', ''capabilityMemoryRoot'', ''certificate'',
     ''epochRandomnessCommits'', ''epochRandomnessReveals'', ''fallbackBeacons'', ''feeRecipient'', ''hash'',
     ''height'', ''issuanceEpoch'', ''networkId'', ''peerRegistryHash'', ''peerRegistryUpdate'',
     ''prepareCertificate'', ''previousHash'', ''progressBeacons'', ''progressFraudProofs'', ''progressRewards'',
     ''proposer'', ''protocolUpgrade'', ''protocolVersion'', ''randomnessCommits'', ''randomnessReveals'',
     ''round'', ''roundCertificate'', ''safetySettlements'', ''stateRoot'', ''timestamp'', ''transactionCount'',
     ''transactions'', ''transactionsRoot'', ''validatorRotation'']"

definition RECOVERY_BLOCK_FIELDS :: "string list" where
  "RECOVERY_BLOCK_FIELDS = sort (LEGACY_BLOCK_FIELDS @ [''recoveryStateCommitment''])"

definition ASSIGNMENT_ROOT_BLOCK_FIELDS :: "string list" where
  "ASSIGNMENT_ROOT_BLOCK_FIELDS = sort (RECOVERY_BLOCK_FIELDS @ [''evaluationAssignmentRoot''])"

definition CHECKPOINT_BLOCK_FIELDS :: "string list" where
  "CHECKPOINT_BLOCK_FIELDS = sort (ASSIGNMENT_ROOT_BLOCK_FIELDS @ [''chainIdentityGenesisHash'', ''validatorSetId''])"

definition blockFieldsForProtocol :: "jsval \<Rightarrow> chain_error + string list" where
  "blockFieldsForProtocol version =
     (case version of
        JNum v \<Rightarrow>
          if v \<notin> set SUPPORTED_PROTOCOL_VERSIONS then Inl (Refused ''block protocol version is unsupported'')
          else Inr (if v \<ge> CHAIN_IDENTITY_CHECKPOINT_PROTOCOL_VERSION then CHECKPOINT_BLOCK_FIELDS
            else if v \<ge> EVALUATION_ASSIGNMENT_ROOT_PROTOCOL_VERSION then ASSIGNMENT_ROOT_BLOCK_FIELDS
            else if v \<ge> RECOVERY_STATE_COMMITMENT_PROTOCOL_VERSION then RECOVERY_BLOCK_FIELDS
            else LEGACY_BLOCK_FIELDS)
      | _ \<Rightarrow> Inl (Refused ''block protocol version is unsupported''))"

definition requireExactBlockSchema :: "crypto \<Rightarrow> jsval \<Rightarrow> chain_error + jsobj" where
  "requireExactBlockSchema cr block =
     bind_r (map_err Not_hashable (consensusValueBytes (nfc cr) (to_cval block))) (\<lambda>_.
     (case plain_object block of
        None \<Rightarrow> Inl (Refused ''block schema contains missing or extra fields'')
      | Some b \<Rightarrow>
          bind_r (blockFieldsForProtocol (fld b ''protocolVersion'')) (\<lambda>ks.
            if \<not> keys_are b ks then Inl (Refused ''block schema contains missing or extra fields'') else Inr b)))"

section \<open>Headers and hashes\<close>

definition unsignedBlock :: "jsobj \<Rightarrow> jsobj" where
  "unsignedBlock block =
     omit [''certificate'', ''hash'', ''prepareCertificate'', ''proposer'', ''round'', ''roundCertificate''] block"

definition finalityHeaderFormat :: "int \<Rightarrow> chain_error + string" where
  "finalityHeaderFormat v =
     (if v \<notin> set SUPPORTED_PROTOCOL_VERSIONS
      then Inl (Refused ''finality header protocol version is unsupported'')
      else Inr (if v \<ge> CHAIN_IDENTITY_CHECKPOINT_PROTOCOL_VERSION then ''nir-finality-header-v4''
        else if v \<ge> EVALUATION_ASSIGNMENT_ROOT_PROTOCOL_VERSION then ''nir-finality-header-v3''
        else if v \<ge> RECOVERY_STATE_COMMITMENT_PROTOCOL_VERSION then ''nir-finality-header-v2''
        else ''nir-finality-header-v1''))"

definition HEADER_FIELDS :: "string list" where
  "HEADER_FIELDS = [''accountStateRoot'', ''capabilityMemoryRoot'', ''chainIdentityGenesisHash'',
     ''evaluationAssignmentRoot'', ''height'', ''networkId'', ''peerRegistryHash'', ''previousHash'',
     ''protocolUpgrade'', ''protocolVersion'', ''recoveryStateCommitment'', ''stateRoot'', ''timestamp'',
     ''transactionCount'', ''transactionsRoot'', ''validatorSetId'']"

definition blockHeader :: "crypto \<Rightarrow> jsobj \<Rightarrow> chain_error + jsobj" where
  "blockHeader cr block =
     bind_r (map_err Not_hashable (hashObject cr (JObj (omit HEADER_FIELDS (unsignedBlock block))) ''BLOCK_BODY''))
       (\<lambda>bodyHash.
     (case fld block ''protocolVersion'' of
        JNum v \<Rightarrow>
          bind_r (finalityHeaderFormat v) (\<lambda>format.
          let keep = (\<lambda>k. (k, fld block k)) in
          Inr ([(''bodyHash'', JStr bodyHash), keep ''accountStateRoot'', keep ''capabilityMemoryRoot'',
             (''format'', JStr format), keep ''height'', keep ''networkId'', keep ''peerRegistryHash'',
             keep ''previousHash'',
             (''protocolUpgrade'', if fld block ''protocolUpgrade'' = JUndef then JNull else fld block ''protocolUpgrade''),
             keep ''protocolVersion''] @
             (if v \<ge> RECOVERY_STATE_COMMITMENT_PROTOCOL_VERSION then [keep ''recoveryStateCommitment''] else []) @
             (if v \<ge> EVALUATION_ASSIGNMENT_ROOT_PROTOCOL_VERSION then [keep ''evaluationAssignmentRoot''] else []) @
             (if v \<ge> CHAIN_IDENTITY_CHECKPOINT_PROTOCOL_VERSION
              then [keep ''chainIdentityGenesisHash'', keep ''validatorSetId''] else []) @
             [keep ''stateRoot'', keep ''timestamp'', keep ''transactionCount'', keep ''transactionsRoot'']))
      | _ \<Rightarrow> Inl (Refused ''finality header protocol version is unsupported'')))"

definition blockHeaderHash :: "crypto \<Rightarrow> jsobj \<Rightarrow> chain_error + string" where
  "blockHeaderHash cr header = map_err Not_hashable (hashObject cr (JObj header) ''BLOCK'')"

definition blockHash :: "crypto \<Rightarrow> jsobj \<Rightarrow> chain_error + string" where
  "blockHash cr block = bind_r (blockHeader cr block) (blockHeaderHash cr)"

definition validateIntrinsicBlock :: "crypto \<Rightarrow> jsval \<Rightarrow> string \<Rightarrow> int \<Rightarrow> jsobj \<Rightarrow> chain_error + jsobj" where
  "validateIntrinsicBlock cr block expectedNetworkId expectedProtocolVersion previousBlock =
     bind_r (requireExactBlockSchema cr block) (\<lambda>b.
     let v = (case fld b ''protocolVersion'' of JNum v \<Rightarrow> v | _ \<Rightarrow> 0);
         hashes = [''accountStateRoot'', ''capabilityMemoryRoot'', ''peerRegistryHash'', ''previousHash'', ''stateRoot'',
             ''transactionsRoot''] @
           (if v \<ge> RECOVERY_STATE_COMMITMENT_PROTOCOL_VERSION then [''recoveryStateCommitment''] else []) @
           (if v \<ge> EVALUATION_ASSIGNMENT_ROOT_PROTOCOL_VERSION then [''evaluationAssignmentRoot''] else []) @
           (if v \<ge> CHAIN_IDENTITY_CHECKPOINT_PROTOCOL_VERSION then [''chainIdentityGenesisHash'', ''validatorSetId''] else [])
     in
     if fld b ''networkId'' \<noteq> JStr expectedNetworkId \<or> fld b ''protocolVersion'' \<noteq> JNum expectedProtocolVersion \<or>
        (case (fld b ''height'', fld previousBlock ''height'') of (JNum h, JNum h') \<Rightarrow> h \<noteq> h' + 1 | _ \<Rightarrow> True) \<or>
        \<not> strict_eq (fld b ''previousHash'') (fld previousBlock ''hash'') \<or>
        (case (safe_int (fld b ''timestamp''), safe_int (fld previousBlock ''timestamp'')) of
           (Some t, Some t') \<Rightarrow> t < t' | _ \<Rightarrow> True) \<or>
        \<not> list_all (\<lambda>k. is_hex64 (coerced (fld b k))) hashes
     then Inl (Refused ''block intrinsic context is invalid'')
     else bind_r (blockHash cr b) (\<lambda>h.
       if fld b ''hash'' \<noteq> JStr h then Inl (Refused ''block intrinsic context is invalid'') else Inr b))"

section \<open>Certificates\<close>

text \<open>\<open>vote.k\<close>: throws for \<open>null\<close> and \<open>undefined\<close>, and is undefined for other values that are no objects.\<close>

definition voteOf :: "jsval \<Rightarrow> chain_error + jsobj" where
  "voteOf v = (case v of JNull \<Rightarrow> Inl Threw | JUndef \<Rightarrow> Inl Threw | JObj kvs \<Rightarrow> Inr kvs | _ \<Rightarrow> Inr [])"

definition prepareCertificateHash :: "crypto \<Rightarrow> jsval list \<Rightarrow> chain_error + string" where
  "prepareCertificateHash cr certificate =
     bind_r (mapM (\<lambda>v. bind_r (voteOf v) (\<lambda>vote.
         case fld vote ''validator'' of JStr a \<Rightarrow> Inr (a, v) | _ \<Rightarrow> Inl Threw)) certificate) (\<lambda>keyed.
       map_err Not_hashable (hashObject cr (JArr (map snd (sort_key fst keyed))) ''PREPARE_CERTIFICATE''))"

definition preparePayload :: "string \<Rightarrow> jsval \<Rightarrow> jsval \<Rightarrow> jsval" where
  "preparePayload hash height round =
     JObj [(''blockHash'', JStr hash), (''height'', height), (''round'', round)]"

definition commitPayload :: "string \<Rightarrow> string \<Rightarrow> jsval" where
  "commitPayload hash prepareHash =
     JObj [(''blockHash'', JStr hash), (''prepareCertificateHash'', JStr prepareHash)]"

text \<open>A wallet is an address with its signing function \<open>signObject(payload, wallet, domain)\<close>.\<close>

type_synonym wallet = "string \<times> (jsval \<Rightarrow> string \<Rightarrow> string)"

definition prepareVoteForBlock :: "crypto \<Rightarrow> jsobj \<Rightarrow> wallet \<Rightarrow> chain_error + jsval" where
  "prepareVoteForBlock cr block w =
     bind_r (blockHash cr block) (\<lambda>hash.
       Inr (JObj [(''round'', fld block ''round''),
         (''signature'', JStr (snd w (preparePayload hash (fld block ''height'') (fld block ''round'')) ''BLOCK_PREPARE'')),
         (''validator'', JStr (fst w))]))"

definition commitVoteForBlock :: "crypto \<Rightarrow> jsobj \<Rightarrow> jsval list \<Rightarrow> wallet \<Rightarrow> chain_error + jsval" where
  "commitVoteForBlock cr block prepareCertificate w =
     bind_r (blockHash cr block) (\<lambda>hash.
     bind_r (prepareCertificateHash cr prepareCertificate) (\<lambda>prepareHash.
       Inr (JObj [(''signature'', JStr (snd w (commitPayload hash prepareHash) ''BLOCK_COMMIT'')),
         (''validator'', JStr (fst w))])))"

text \<open>One turn of the loop over the prepare votes: the voters so far and the round they agree on.\<close>

definition checkPrepare :: "crypto \<Rightarrow> string \<Rightarrow> jsval \<Rightarrow> int \<Rightarrow> (string, member) jsmap \<Rightarrow>
    string list \<times> int option \<Rightarrow> jsval \<Rightarrow> chain_error + (string list \<times> int option)" where
  "checkPrepare cr hash height blockRound validators s v =
     bind_r (voteOf v) (\<lambda>vote.
     (case (fld vote ''validator'', vget validators (fld vote ''validator''), safe_int (fld vote ''round'')) of
        (JStr voter, Some m, Some round) \<Rightarrow>
          if voter \<in> set (fst s) \<or> round < 0 \<or> round > blockRound \<or>
             (snd s \<noteq> None \<and> snd s \<noteq> Some round) \<or> \<not> short_string 7000 (fld vote ''signature'') \<or>
             \<not> verifyObject cr (preparePayload hash height (fld vote ''round'')) (fld vote ''signature'') (mb_publicKey m) ''BLOCK_PREPARE''
          then Inl (Refused ''invalid or duplicate prepare vote'')
          else Inr (fst s @ [voter], Some round)
      | _ \<Rightarrow> Inl (Refused ''invalid or duplicate prepare vote'')))"

text \<open>One turn of the loop over the commit votes.\<close>

definition checkCommit :: "crypto \<Rightarrow> jsval \<Rightarrow> (string, member) jsmap \<Rightarrow> string list \<Rightarrow> jsval \<Rightarrow>
    chain_error + string list" where
  "checkCommit cr payload validators voters v =
     bind_r (voteOf v) (\<lambda>vote.
     (case (fld vote ''validator'', vget validators (fld vote ''validator'')) of
        (JStr voter, Some m) \<Rightarrow>
          if voter \<in> set voters then Inl (Refused ''duplicate validator vote'')
          else if \<not> short_string 7000 (fld vote ''signature'') \<or>
                  \<not> verifyObject cr payload (fld vote ''signature'') (mb_publicKey m) ''BLOCK_COMMIT''
          then Inl (Refused ''invalid validator signature'')
          else Inr (voters @ [voter])
      | _ \<Rightarrow> Inl (Refused ''vote from unknown validator'')))"

definition inSet :: "(string, member) jsmap \<Rightarrow> string list \<Rightarrow> nat" where
  "inSet validators voters = length (filter (jhas validators) voters)"

text \<open>\<open>if (previousValidators) ...\<close>: the old set's own quorum.\<close>

definition assertQuorums :: "(string, member) jsmap \<Rightarrow> (string, member) jsmap option \<Rightarrow> string list \<Rightarrow> string \<Rightarrow>
    string \<Rightarrow> chain_error + unit" where
  "assertQuorums validators previous voters message previousMessage =
     (if inSet validators voters < voteQuorum (jsize validators) then Inl (Refused message)
      else (case previous of
        None \<Rightarrow> Inr ()
      | Some p \<Rightarrow> if inSet p voters < voteQuorum (jsize p) then Inl (Refused previousMessage) else Inr ()))"

text \<open>\<open>new Map([...previousValidators, ...validators])\<close>: a member of both sets has its new key.\<close>

definition acceptedValidators :: "(string, member) jsmap \<Rightarrow> (string, member) jsmap option \<Rightarrow> (string, member) jsmap" where
  "acceptedValidators validators previous =
     (case previous of None \<Rightarrow> validators | Some p \<Rightarrow> foldl (\<lambda>m e. jset (fst e) (snd e) m) [] (p @ validators))"

definition verifyCertificate :: "crypto \<Rightarrow> jsobj \<Rightarrow> (string, member) jsmap \<Rightarrow> (string, member) jsmap option \<Rightarrow>
    chain_error + unit" where
  "verifyCertificate cr block validators previous =
     (let accepted = acceptedValidators validators previous in
      bind_r (blockHash cr block) (\<lambda>hash.
      if fld block ''hash'' \<noteq> JStr hash then Inl (Refused ''block hash mismatch'')
      else (case (fld block ''prepareCertificate'', fld block ''certificate'', safe_int (fld block ''round'')) of
        (JArr prepares, JArr commits, Some blockRound) \<Rightarrow>
          if length prepares > jsize accepted \<or> length commits > jsize accepted
          then Inl (Refused ''invalid finality certificate size'')
          else bind_r (foldM (checkPrepare cr hash (fld block ''height'') blockRound accepted) ([], None) prepares)
            (\<lambda>(prepareVoters, _).
          bind_r (assertQuorums validators previous prepareVoters ''prepare quorum not reached''
             ''old-set prepare quorum not reached'') (\<lambda>_.
          bind_r (prepareCertificateHash cr prepares) (\<lambda>prepareHash.
          bind_r (foldM (checkCommit cr (commitPayload hash prepareHash) accepted) [] commits) (\<lambda>voters.
            assertQuorums validators previous voters ''finality quorum not reached''
              ''old-set transition quorum not reached''))))
      | _ \<Rightarrow> Inl (Refused ''invalid finality certificate size''))))"

definition roundTimeoutPayload :: "string \<Rightarrow> jsval \<Rightarrow> jsval \<Rightarrow> jsval \<Rightarrow> jsval \<Rightarrow> jsval" where
  "roundTimeoutPayload hash networkId height previousHash nextRound =
     JObj [(''blockHash'', JStr hash), (''height'', height), (''networkId'', networkId), (''nextRound'', nextRound),
       (''previousHash'', previousHash)]"

definition checkTimeout :: "crypto \<Rightarrow> jsval \<Rightarrow> (string, member) jsmap \<Rightarrow> string list \<Rightarrow> jsval \<Rightarrow>
    chain_error + string list" where
  "checkTimeout cr payload validators signers v =
     bind_r (voteOf v) (\<lambda>vote.
     (case (fld vote ''validator'', vget validators (fld vote ''validator'')) of
        (JStr voter, Some m) \<Rightarrow>
          if voter \<in> set signers \<or> \<not> short_string 7000 (fld vote ''signature'') \<or>
             \<not> verifyObject cr payload (fld vote ''signature'') (mb_publicKey m) ''ROUND_TIMEOUT''
          then Inl (Refused ''invalid or duplicate round timeout vote'')
          else Inr (signers @ [voter])
      | _ \<Rightarrow> Inl (Refused ''invalid or duplicate round timeout vote'')))"

definition verifyRoundCertificate :: "crypto \<Rightarrow> jsobj \<Rightarrow> (string, member) jsmap \<Rightarrow> chain_error + unit" where
  "verifyRoundCertificate cr block validators =
     (case safe_int (fld block ''round'') of
        None \<Rightarrow> Inl (Refused ''invalid consensus round'')
      | Some round \<Rightarrow>
          if round < 0 \<or> round > MAX_CONSENSUS_ROUND then Inl (Refused ''invalid consensus round'')
          else if round = 0 then
            (if fld block ''roundCertificate'' \<noteq> JNull
             then Inl (Refused ''round zero cannot carry a timeout certificate'') else Inr ())
          else (case fld block ''roundCertificate'' of
            JArr votes \<Rightarrow>
              if length votes > jsize validators then Inl (Refused ''invalid round timeout certificate size'')
              else bind_r (blockHash cr block) (\<lambda>hash.
                bind_r (foldM (checkTimeout cr (roundTimeoutPayload hash (fld block ''networkId'') (fld block ''height'')
                    (fld block ''previousHash'') (fld block ''round'')) validators) [] votes) (\<lambda>signers.
                if length signers < voteQuorum (jsize validators)
                then Inl (Refused ''round timeout quorum not reached'') else Inr ()))
          | _ \<Rightarrow> Inl (Refused ''invalid round timeout certificate size'')))"

section \<open>What a certificate shows\<close>

lemma checkPrepare_Inr:
  assumes "checkPrepare cr hash height blockRound members s v = Inr s'"
  obtains vote a m r where "voteOf v = Inr vote" and "jget members a = Some m" and "safe_int (fld vote ''round'') = Some r"
    and "0 \<le> r" and "r \<le> blockRound" and "snd s = None \<or> snd s = Some r" and "a \<notin> set (fst s)"
    and "verifyObject cr (preparePayload hash height (fld vote ''round'')) (fld vote ''signature'') (mb_publicKey m) ''BLOCK_PREPARE''"
    and "s' = (fst s @ [a], Some r)"
  using assms unfolding checkPrepare_def
  by (clarsimp simp only: bind_r_Inr_iff) (auto split: jsval.split_asm option.split_asm if_split_asm)

lemma checkCommit_Inr:
  assumes "checkCommit cr payload members s v = Inr s'"
  obtains vote a m where "voteOf v = Inr vote" and "jget members a = Some m" and "a \<notin> set s"
    and "verifyObject cr payload (fld vote ''signature'') (mb_publicKey m) ''BLOCK_COMMIT''" and "s' = s @ [a]"
  using assms unfolding checkCommit_def
  by (clarsimp simp only: bind_r_Inr_iff) (auto split: jsval.split_asm option.split_asm if_split_asm)

lemma checkTimeout_Inr:
  assumes "checkTimeout cr payload members s v = Inr s'"
  obtains vote a m where "voteOf v = Inr vote" and "jget members a = Some m" and "a \<notin> set s"
    and "verifyObject cr payload (fld vote ''signature'') (mb_publicKey m) ''ROUND_TIMEOUT''" and "s' = s @ [a]"
  using assms unfolding checkTimeout_def
  by (clarsimp simp only: bind_r_Inr_iff) (auto split: jsval.split_asm option.split_asm if_split_asm)

text \<open>The round a prepare signature covers is the number compared with the block's round.\<close>

lemma prepare_round:
  assumes "verifyObject cr (preparePayload hash height r) sig key ''BLOCK_PREPARE''" and "safe_int r = Some n"
  shows "r = JNum n"
  using verified_field [OF assms(1) [unfolded preparePayload_def], of "''round''" r] assms(2)
  by (cases r) (auto split: if_split_asm)

interpretation prepares: vote_count "checkPrepare cr hash height blockRound members" fst
    "\<lambda>s a. \<exists>n. snd s = Some n \<and> signedBy cr members (preparePayload hash height (JNum n)) ''BLOCK_PREPARE'' a"
  for cr hash height blockRound members
proof unfold_locales
  fix s v s'
  assume "checkPrepare cr hash height blockRound members s v = Inr s'"
  then show "\<exists>a. fst s' = fst s @ [a] \<and> a \<notin> set (fst s) \<and>
      (\<exists>n. snd s' = Some n \<and> signedBy cr members (preparePayload hash height (JNum n)) ''BLOCK_PREPARE'' a)"
    unfolding signedBy_def by (elim checkPrepare_Inr) (frule (1) prepare_round, fastforce)
next
  fix s v s' b
  assume "checkPrepare cr hash height blockRound members s v = Inr s'"
  moreover assume "\<exists>n. snd s = Some n \<and> signedBy cr members (preparePayload hash height (JNum n)) ''BLOCK_PREPARE'' b"
  ultimately show "\<exists>n. snd s' = Some n \<and> signedBy cr members (preparePayload hash height (JNum n)) ''BLOCK_PREPARE'' b"
    by (elim checkPrepare_Inr) auto
qed

interpretation commits: vote_count "checkCommit cr payload members" id
    "\<lambda>_. signedBy cr members payload ''BLOCK_COMMIT''"
  for cr payload members
  by unfold_locales (auto elim!: checkCommit_Inr simp: signedBy_def)

interpretation timeouts: vote_count "checkTimeout cr payload members" id
    "\<lambda>_. signedBy cr members payload ''ROUND_TIMEOUT''"
  for cr payload members
  by unfold_locales (auto elim!: checkTimeout_Inr simp: signedBy_def)

text \<open>What the counts of \<open>assertQuorums\<close> say of the voters a loop counted.\<close>

lemma inSet_quorum:
  assumes "jwf members" and "distinct voters" and "voteQuorum (jsize members) \<le> inSet members voters"
    and "\<forall>a \<in> set voters. signedBy cr keys payload domain a"
  shows "quorumSigned cr keys members payload domain"
proof -
  let ?A = "set (filter (jhas members) voters)"
  have "card ?A = inSet members voters" using distinct_card [of "filter (jhas members) voters"] assms(2)
    by (simp add: inSet_def)
  moreover have "?A \<subseteq> set (jkeys members)" by (auto simp: jhas_iff_keys)
  moreover have "\<forall>a \<in> ?A. signedBy cr keys payload domain a" using assms(4) by simp
  ultimately show ?thesis unfolding quorumSigned_def using assms(3) by (intro exI [of _ ?A]) simp
qed

lemma assertQuorums_Inr:
  assumes "assertQuorums members previous voters message previousMessage = Inr ()"
  shows "voteQuorum (jsize members) \<le> inSet members voters"
    and "previous = Some p \<Longrightarrow> voteQuorum (jsize p) \<le> inSet p voters"
  using assms by (auto simp: assertQuorums_def split: option.split_asm if_split_asm)

lemma verifyCertificate_votes:
  assumes "verifyCertificate cr block validators previous = Inr ()"
  obtains hash prepares commits blockRound prepareVoters r prepareHash voters where "blockHash cr block = Inr hash"
    and "fld block ''hash'' = JStr hash" and "prepareCertificateHash cr prepares = Inr prepareHash"
    and "foldM (checkPrepare cr hash (fld block ''height'') blockRound (acceptedValidators validators previous))
           ([], None) prepares = Inr (prepareVoters, r)"
    and "assertQuorums validators previous prepareVoters ''prepare quorum not reached'' ''old-set prepare quorum not reached'' = Inr ()"
    and "foldM (checkCommit cr (commitPayload hash prepareHash) (acceptedValidators validators previous)) [] commits = Inr voters"
    and "assertQuorums validators previous voters ''finality quorum not reached'' ''old-set transition quorum not reached'' = Inr ()"
proof -
  note v = assms [unfolded verifyCertificate_def Let_def]
  from v obtain hash where h: "blockHash cr block = Inr hash" by (auto simp only: bind_r_Inr_iff)
  from v h have eq: "fld block ''hash'' = JStr hash" by (simp split: if_split_asm)
  from v h eq obtain prepares commits blockRound where
    f: "fld block ''prepareCertificate'' = JArr prepares" "fld block ''certificate'' = JArr commits"
       "safe_int (fld block ''round'') = Some blockRound"
    by (auto split: jsval.split_asm option.split_asm)
  from v h eq f that show ?thesis
    by (auto simp: bind_r_Inr_iff split: if_split_asm)
qed

lemma jget_append: "jget (m @ m') k = (case jget m k of None \<Rightarrow> jget m' k | Some v \<Rightarrow> Some v)"
  by (simp add: jget_def map_add_def split: option.split)

lemma jget_single [simp]: "jget [(k, v)] k' = (if k' = k then Some v else None)"
  by (simp add: jget_def)

lemma jget_foldl_jset:
  "jget (foldl (\<lambda>m e. jset (fst e) (snd e) m) m0 es) k =
     (case jget (rev es) k of None \<Rightarrow> jget m0 k | Some v \<Rightarrow> Some v)"
  by (induction es arbitrary: m0) (auto simp: jget_append split: option.split)

lemma acceptedValidators_own:
  assumes "jwf validators" and "jget validators a = Some m"
  shows "jget (acceptedValidators validators previous) a = Some m"
proof (cases previous)
  case (Some p)
  have "jwf (rev validators)" using assms(1) by (simp add: jwf_def jkeys_def rev_map [symmetric])
  then have "jget (rev validators) a = Some m"
    using assms by (simp add: jget_iff_in)
  then show ?thesis using Some
    by (simp add: acceptedValidators_def jget_foldl_jset jget_append)
qed (use assms in \<open>simp add: acceptedValidators_def\<close>)

text \<open>The voters a set's own keys speak for.\<close>

lemma signedBy_own:
  assumes "jwf validators" and "a \<in> set (jkeys validators)"
  shows "signedBy cr (acceptedValidators validators previous) payload domain a \<longleftrightarrow> signedBy cr validators payload domain a"
proof -
  obtain m where "jget validators a = Some m" using assms(2) by (auto simp: jhas_iff_keys [symmetric] jhas_def)
  with acceptedValidators_own [OF assms(1) this] show ?thesis by (simp add: signedBy_def)
qed

lemma quorumSigned_own:
  assumes "jwf validators" and "quorumSigned cr (acceptedValidators validators previous) validators payload domain"
  shows "quorumSigned cr validators validators payload domain"
  using assms signedBy_own [OF assms(1)] unfolding quorumSigned_def by (metis subsetD)

lemma verifyCertificate_quorums:
  assumes "verifyCertificate cr block validators previous = Inr ()" and "jwf validators"
  obtains hash prepareHash n where "blockHash cr block = Inr hash" and "fld block ''hash'' = JStr hash"
    and "quorumSigned cr validators validators (commitPayload hash prepareHash) ''BLOCK_COMMIT''"
    and "quorumSigned cr validators validators (preparePayload hash (fld block ''height'') (JNum n)) ''BLOCK_PREPARE''"
    and "\<And>p. previous = Some p \<Longrightarrow> jwf p \<Longrightarrow>
      quorumSigned cr (acceptedValidators validators previous) p (commitPayload hash prepareHash) ''BLOCK_COMMIT''"
proof -
  let ?acc = "acceptedValidators validators previous"
  from verifyCertificate_votes [OF assms(1)] obtain hash prepares commits blockRound prepareVoters r prepareHash voters
    where v: "blockHash cr block = Inr hash" "fld block ''hash'' = JStr hash"
      "foldM (checkPrepare cr hash (fld block ''height'') blockRound ?acc) ([], None) prepares = Inr (prepareVoters, r)"
      "assertQuorums validators previous prepareVoters ''prepare quorum not reached'' ''old-set prepare quorum not reached'' = Inr ()"
      "foldM (checkCommit cr (commitPayload hash prepareHash) ?acc) [] commits = Inr voters"
      "assertQuorums validators previous voters ''finality quorum not reached'' ''old-set transition quorum not reached'' = Inr ()"
    by metis
  have quorum: "quorumSigned cr ?acc members payload domain"
    if "jwf members" "voteQuorum (jsize members) \<le> inSet members vs" "distinct vs \<and> (\<forall>a \<in> set vs. signedBy cr ?acc payload domain a)"
    for members vs payload domain
    using inSet_quorum [OF that(1) _ that(2)] that(3) by blast
  have c: "distinct voters \<and> (\<forall>a \<in> set voters. signedBy cr ?acc (commitPayload hash prepareHash) ''BLOCK_COMMIT'' a)"
    using commits.tally [OF v(5)] by simp
  obtain n where p: "distinct prepareVoters \<and>
      (\<forall>a \<in> set prepareVoters. signedBy cr ?acc (preparePayload hash (fld block ''height'') (JNum n)) ''BLOCK_PREPARE'' a)"
    using prepares.tally [OF v(3)] by (cases r) auto
  show ?thesis
  proof (rule that [of hash prepareHash n])
    show "quorumSigned cr validators validators (commitPayload hash prepareHash) ''BLOCK_COMMIT''"
      by (rule quorumSigned_own [OF assms(2) quorum [OF assms(2) assertQuorums_Inr(1) [OF v(6)] c]])
    show "quorumSigned cr validators validators (preparePayload hash (fld block ''height'') (JNum n)) ''BLOCK_PREPARE''"
      by (rule quorumSigned_own [OF assms(2) quorum [OF assms(2) assertQuorums_Inr(1) [OF v(4)] p]])
    show "quorumSigned cr ?acc q (commitPayload hash prepareHash) ''BLOCK_COMMIT''"
      if "previous = Some q" "jwf q" for q
      by (rule quorum [OF that(2) assertQuorums_Inr(2) [OF v(6) that(1)] c])
  qed (fact v)+
qed

text \<open>
  C3: Accountable safety. When the certificates of two blocks are accepted by the same validator set
  (with or without an outgoing set beside it), more than a third of the set's members have signed commit
  votes for both block hashes; at one height, more than a third have also signed prepare votes for both.
  So two different blocks are final only if at least a third of the validators sign twice, and the
  signatures that prove it are the certificates themselves.
\<close>

theorem conflicting_finality_is_accountable:
  assumes "jwf validators"
    and "verifyCertificate cr block validators previous = Inr ()"
    and "verifyCertificate cr block' validators previous' = Inr ()"
  shows "\<exists>hash hash' p p' n n' A B.
    blockHash cr block = Inr hash \<and> fld block ''hash'' = JStr hash \<and>
    blockHash cr block' = Inr hash' \<and> fld block' ''hash'' = JStr hash' \<and>
    A \<subseteq> set (jkeys validators) \<and> jsize validators < 3 * card A \<and>
    (\<forall>a \<in> A. signedBy cr validators (commitPayload hash p) ''BLOCK_COMMIT'' a \<and>
             signedBy cr validators (commitPayload hash' p') ''BLOCK_COMMIT'' a) \<and>
    B \<subseteq> set (jkeys validators) \<and> jsize validators < 3 * card B \<and>
    (\<forall>a \<in> B. signedBy cr validators (preparePayload hash (fld block ''height'') (JNum n)) ''BLOCK_PREPARE'' a \<and>
             signedBy cr validators (preparePayload hash' (fld block' ''height'') (JNum n')) ''BLOCK_PREPARE'' a)"
proof -
  obtain hash p n where b: "blockHash cr block = Inr hash" "fld block ''hash'' = JStr hash"
      "quorumSigned cr validators validators (commitPayload hash p) ''BLOCK_COMMIT''"
      "quorumSigned cr validators validators (preparePayload hash (fld block ''height'') (JNum n)) ''BLOCK_PREPARE''"
    by (rule verifyCertificate_quorums [OF assms(2,1)])
  obtain hash' p' n' where b': "blockHash cr block' = Inr hash'" "fld block' ''hash'' = JStr hash'"
      "quorumSigned cr validators validators (commitPayload hash' p') ''BLOCK_COMMIT''"
      "quorumSigned cr validators validators (preparePayload hash' (fld block' ''height'') (JNum n')) ''BLOCK_PREPARE''"
    by (rule verifyCertificate_quorums [OF assms(3,1)])
  show ?thesis
    using quorumSigned_intersect [OF assms(1) b(3) b'(3)] quorumSigned_intersect [OF assms(1) b(4) b'(4)] b(1,2) b'(1,2)
    by blast
qed

text \<open>
  A certificate accepted across a change of the validator set carries a commit quorum of the new
  set and a commit quorum of the outgoing set, for the block's own hash.
\<close>

theorem transition_needs_both_sets:
  assumes "jwf validators" and "jwf old" and "verifyCertificate cr block validators (Some old) = Inr ()"
  shows "\<exists>hash p. blockHash cr block = Inr hash \<and>
    quorumSigned cr validators validators (commitPayload hash p) ''BLOCK_COMMIT'' \<and>
    quorumSigned cr (acceptedValidators validators (Some old)) old (commitPayload hash p) ''BLOCK_COMMIT''"
  by (rule verifyCertificate_quorums [OF assms(3,1)]) (use assms(2) in blast)

text \<open>
  C15: A block of a round after the first carries signatures of more than two thirds of the
  validators on the timeout that leads to exactly this block, height, parent and round; a block of
  round zero carries none.
\<close>

theorem later_round_needs_timeout_quorum:
  assumes "jwf validators" and "verifyRoundCertificate cr block validators = Inr ()"
  shows "\<exists>n. safe_int (fld block ''round'') = Some n \<and> 0 \<le> n \<and> n \<le> MAX_CONSENSUS_ROUND \<and>
    (if n = 0 then fld block ''roundCertificate'' = JNull
     else \<exists>hash. blockHash cr block = Inr hash \<and> quorumSigned cr validators validators
       (roundTimeoutPayload hash (fld block ''networkId'') (fld block ''height'') (fld block ''previousHash'')
         (fld block ''round'')) ''ROUND_TIMEOUT'')"
proof -
  note v = assms(2) [unfolded verifyRoundCertificate_def]
  from v obtain n where n: "safe_int (fld block ''round'') = Some n" "0 \<le> n" "n \<le> MAX_CONSENSUS_ROUND"
    by (auto split: option.split_asm if_split_asm)
  show ?thesis
  proof (cases "n = 0")
    case True
    with v n show ?thesis by (auto split: if_split_asm)
  next
    case False
    let ?payload = "\<lambda>hash. roundTimeoutPayload hash (fld block ''networkId'') (fld block ''height'')
      (fld block ''previousHash'') (fld block ''round'')"
    from v n False obtain votes where f: "fld block ''roundCertificate'' = JArr votes"
      by (auto split: jsval.split_asm)
    from v n False f obtain hash signers where h: "blockHash cr block = Inr hash"
        "foldM (checkTimeout cr (?payload hash) validators) [] votes = Inr signers"
        "voteQuorum (jsize validators) \<le> length signers"
      by (auto simp: bind_r_Inr_iff split: if_split_asm)
    have s: "distinct signers \<and> (\<forall>a \<in> set signers. signedBy cr validators (?payload hash) ''ROUND_TIMEOUT'' a)"
      using timeouts.tally [OF h(2)] by simp
    have "inSet validators signers = length signers"
      using s by (auto simp: inSet_def signedBy_def jhas_def intro!: arg_cong [where f = length] filter_True)
    with inSet_quorum [OF assms(1), of signers] s h n False show ?thesis by auto
  qed
qed

section \<open>A quorum of honest votes is a certificate\<close>

lemma foldM_checkPrepare_honest:
  assumes "\<forall>w \<in> set ws. \<exists>m. jget members (fst w) = Some m \<and>
      (let sig = snd w (preparePayload hash height (JNum n)) ''BLOCK_PREPARE'' in length sig \<le> 7000 \<and>
       verifyObject cr (preparePayload hash height (JNum n)) (JStr sig) (mb_publicKey m) ''BLOCK_PREPARE'')"
    and "distinct (fst s @ map fst ws)" and "snd s = None \<or> snd s = Some n" and "0 \<le> n" and "n \<le> r" and "is_safe_int n"
  shows "\<exists>x. foldM (checkPrepare cr hash height r members) s
    (map (\<lambda>w. JObj [(''round'', JNum n),
       (''signature'', JStr (snd w (preparePayload hash height (JNum n)) ''BLOCK_PREPARE'')), (''validator'', JStr (fst w))]) ws) =
    Inr (fst s @ map fst ws, x)"
  using assms
proof (induction ws arbitrary: s)
  case Nil
  show ?case by (rule exI [of _ "snd s"]) simp
next
  case (Cons w ws)
  let ?v = "JObj [(''round'', JNum n),
    (''signature'', JStr (snd w (preparePayload hash height (JNum n)) ''BLOCK_PREPARE'')), (''validator'', JStr (fst w))]"
  have "checkPrepare cr hash height r members s ?v = Inr (fst s @ [fst w], Some n)"
    using Cons.prems by (auto simp: checkPrepare_def voteOf_def fld_def short_string_def Let_def is_safe_int_def)
  with Cons.IH [of "(fst s @ [fst w], Some n)"] Cons.prems show ?case by simp
qed

lemma foldM_checkCommit_honest:
  assumes "\<forall>w \<in> set ws. \<exists>m. jget members (fst w) = Some m \<and>
      (let sig = snd w payload ''BLOCK_COMMIT'' in length sig \<le> 7000 \<and>
       verifyObject cr payload (JStr sig) (mb_publicKey m) ''BLOCK_COMMIT'')"
    and "distinct (s @ map fst ws)"
  shows "foldM (checkCommit cr payload members) s
    (map (\<lambda>w. JObj [(''signature'', JStr (snd w payload ''BLOCK_COMMIT'')), (''validator'', JStr (fst w))]) ws) =
    Inr (s @ map fst ws)"
  using assms
proof (induction ws arbitrary: s)
  case (Cons w ws)
  let ?v = "JObj [(''signature'', JStr (snd w payload ''BLOCK_COMMIT'')), (''validator'', JStr (fst w))]"
  have "checkCommit cr payload members s ?v = Inr (s @ [fst w])"
    using Cons.prems by (auto simp: checkCommit_def voteOf_def fld_def short_string_def Let_def)
  with Cons.IH [of "s @ [fst w]"] Cons.prems show ?case by simp
qed simp

definition acceptsVotes :: "crypto \<Rightarrow> (string, member) jsmap \<Rightarrow> jsval \<Rightarrow> string \<Rightarrow> wallet \<Rightarrow> bool" where
  "acceptsVotes cr members payload domain w \<longleftrightarrow>
     (case jget members (fst w) of None \<Rightarrow> False
      | Some m \<Rightarrow> let sig = snd w payload domain in
          length sig \<le> 7000 \<and> verifyObject cr payload (JStr sig) (mb_publicKey m) domain)"

lemma acceptsVotes_iff: "acceptsVotes cr members payload domain w \<longleftrightarrow> (\<exists>m. jget members (fst w) = Some m \<and>
    (let sig = snd w payload domain in length sig \<le> 7000 \<and> verifyObject cr payload (JStr sig) (mb_publicKey m) domain))"
  by (auto simp: acceptsVotes_def split: option.split)

lemma mapM_Inr_map: "mapM (\<lambda>x. Inr (f x)) xs = Inr (map f xs)"
  by (induction xs) simp_all

lemma members_fit:
  assumes "jwf members" and "distinct voters" and "\<forall>a \<in> set voters. jhas members a"
  shows "length voters \<le> jsize members" and "inSet members voters = length voters"
proof -
  have "set voters \<subseteq> set (jkeys members)" using assms(3) by (auto simp: jhas_iff_keys)
  then show "length voters \<le> jsize members"
    using card_mono [of "set (jkeys members)" "set voters"] jkeys_size [OF assms(1)] distinct_card [OF assms(2)] by simp
  show "inSet members voters = length voters" using assms(3) by (simp add: inSet_def)
qed

text \<open>
  C25: No quorum is turned away. If distinct validators, at least the vote quorum of them, vote with
  wallets whose signatures their registered keys accept, then the block with the prepare votes and
  commit votes that the code's two vote functions make is accepted.
\<close>

theorem honest_quorum_finalizes:
  assumes "jwf validators" and "distinct (map fst ws)" and "voteQuorum (jsize validators) \<le> length ws"
    and "blockHash cr block = Inr hash" and "fld block ''hash'' = JStr hash"
    and "fld block ''round'' = JNum n" and "0 \<le> n" and "is_safe_int n"
    and "mapM (prepareVoteForBlock cr block) ws = Inr prepares" and "fld block ''prepareCertificate'' = JArr prepares"
    and "mapM (commitVoteForBlock cr block prepares) ws = Inr commits" and "fld block ''certificate'' = JArr commits"
    and "prepareCertificateHash cr prepares = Inr prepareHash"
    and "\<forall>w \<in> set ws. acceptsVotes cr validators (preparePayload hash (fld block ''height'') (JNum n)) ''BLOCK_PREPARE'' w \<and>
           acceptsVotes cr validators (commitPayload hash prepareHash) ''BLOCK_COMMIT'' w"
  shows "verifyCertificate cr block validators None = Inr ()"
proof -
  let ?p = "preparePayload hash (fld block ''height'') (JNum n)" and ?c = "commitPayload hash prepareHash"
  have members: "\<forall>a \<in> set (map fst ws). jhas validators a"
    using assms(14) by (auto simp: acceptsVotes_iff jhas_def)
  note fit = members_fit [OF assms(1,2) members]
  have prepares: "prepares = map (\<lambda>w. JObj [(''round'', JNum n), (''signature'', JStr (snd w ?p ''BLOCK_PREPARE'')),
      (''validator'', JStr (fst w))]) ws"
    using assms(9) by (simp add: prepareVoteForBlock_def [abs_def] assms(4,6) mapM_Inr_map)
  have commits: "commits = map (\<lambda>w. JObj [(''signature'', JStr (snd w ?c ''BLOCK_COMMIT'')), (''validator'', JStr (fst w))]) ws"
    using assms(11) by (simp add: commitVoteForBlock_def [abs_def] assms(4,13) mapM_Inr_map)
  obtain x where x: "foldM (checkPrepare cr hash (fld block ''height'') n validators) ([], None) prepares =
      Inr (map fst ws, x)"
    using foldM_checkPrepare_honest [of ws validators hash "fld block ''height''" n cr "([], None)" n] assms
    by (auto simp: prepares acceptsVotes_iff)
  have y: "foldM (checkCommit cr ?c validators) [] commits = Inr (map fst ws)"
    using foldM_checkCommit_honest [of ws validators ?c cr "[]"] assms(2,14) by (simp add: commits acceptsVotes_iff)
  have q: "assertQuorums validators None (map fst ws) m1 m2 = Inr ()" for m1 m2
    using fit(2) assms(3) by (simp add: assertQuorums_def)
  have sizes: "\<not> length prepares > jsize validators" "\<not> length commits > jsize validators"
    using fit(1) by (simp_all add: prepares commits)
  show ?thesis
    unfolding verifyCertificate_def acceptedValidators_def Let_def option.case
    using assms(4-8) sizes x y q by (simp add: assms(10,12,13) is_safe_int_def)
qed

section \<open>A block to evaluate\<close>

definition demo_member :: member where
  "demo_member = \<lparr>mb_address = ''v1'', mb_algorithm = SIGNATURE_ALGORITHM, mb_operatorId = JNull, mb_publicKey = JStr ''key''\<rparr>"

definition demo_validators :: "(string, member) jsmap" where
  "demo_validators = [(''v1'', demo_member), (''v2'', demo_member), (''v3'', demo_member)]"

definition demo_wallets :: "wallet list" where
  "demo_wallets = [(''v1'', \<lambda>p d. ''sig''), (''v2'', \<lambda>p d. ''sig''), (''v3'', \<lambda>p d. ''sig'')]"

definition demo_block :: "int \<Rightarrow> jsobj" where
  "demo_block n =
     [(''accountStateRoot'', JStr ''a''), (''capabilityMemoryRoot'', JStr ''a''), (''height'', JNum 7),
      (''networkId'', JStr ''nir-test''), (''peerRegistryHash'', JStr ''a''), (''previousHash'', JStr ''a''),
      (''protocolUpgrade'', JNull), (''protocolVersion'', JNum 24), (''stateRoot'', JStr ''a''), (''timestamp'', JNum 5),
      (''transactionCount'', JNum 0), (''transactionsRoot'', JStr ''a''), (''transactions'', JArr []),
      (''round'', JNum n), (''hash'', JStr (replicate 64 CHR ''d'')),
      (''prepareCertificate'', JArr (map (\<lambda>v. JObj [(''round'', JNum n), (''signature'', JStr ''sig''), (''validator'', JStr v)])
         [''v1'', ''v2'', ''v3''])),
      (''certificate'', JArr (map (\<lambda>v. JObj [(''signature'', JStr ''sig''), (''validator'', JStr v)]) [''v1'', ''v2'', ''v3''])),
      (''roundCertificate'', if n = 0 then JNull else
         JArr (map (\<lambda>v. JObj [(''signature'', JStr ''sig''), (''validator'', JStr v)]) [''v1'', ''v2'', ''v3'']))]"

lemma demo_blockHash: "blockHash demo_crypto (demo_block n) = Inr (replicate 64 CHR ''d'')"
proof -
  let ?body = "JObj (omit HEADER_FIELDS (unsignedBlock (demo_block n)))"
  have "?body = JObj [(''transactions'', JArr [])]" by (simp add: omit_def HEADER_FIELDS_def unsignedBlock_def demo_block_def)
  moreover have "json_ok (JObj [(''transactions'', JArr [])]) \<and> is_domain ''BLOCK_BODY''" by code_simp
  ultimately have "hashObject demo_crypto ?body ''BLOCK_BODY'' = Inr (replicate 64 CHR ''d'')" by (simp add: demo_hash)
  moreover have "finalityHeaderFormat 24 = Inr ''nir-finality-header-v1''" by code_simp
  moreover have "json_ok (JObj [(''bodyHash'', JStr (replicate 64 CHR ''d'')), (''accountStateRoot'', JStr ''a''), (''capabilityMemoryRoot'', JStr ''a''),
      (''format'', JStr ''nir-finality-header-v1''), (''height'', JNum 7), (''networkId'', JStr ''nir-test''),
      (''peerRegistryHash'', JStr ''a''), (''previousHash'', JStr ''a''), (''protocolUpgrade'', JNull),
      (''protocolVersion'', JNum 24), (''stateRoot'', JStr ''a''), (''timestamp'', JNum 5),
      (''transactionCount'', JNum 0), (''transactionsRoot'', JStr ''a'')]) \<and> is_domain ''BLOCK''" by code_simp
  ultimately show ?thesis
    by (simp add: blockHash_def blockHeader_def blockHeaderHash_def demo_hash demo_block_def fld_def
        RECOVERY_STATE_COMMITMENT_PROTOCOL_VERSION_def EVALUATION_ASSIGNMENT_ROOT_PROTOCOL_VERSION_def
        CHAIN_IDENTITY_CHECKPOINT_PROTOCOL_VERSION_def)
qed

lemma demo_votes:
  "acceptsVotes demo_crypto demo_validators (preparePayload (replicate 64 CHR ''d'') (JNum 7) (JNum 0)) ''BLOCK_PREPARE'' (v, \<lambda>p d. ''sig'') \<longleftrightarrow>
     v \<in> {''v1'', ''v2'', ''v3''}"
  "acceptsVotes demo_crypto demo_validators (commitPayload (replicate 64 CHR ''d'') (replicate 64 CHR ''d'')) ''BLOCK_COMMIT'' (v, \<lambda>p d. ''sig'') \<longleftrightarrow>
     v \<in> {''v1'', ''v2'', ''v3''}"
proof -
  let ?h = "replicate 64 CHR ''d''"
  have "json_ok (preparePayload ?h (JNum 7) (JNum 0)) \<and> is_domain ''BLOCK_PREPARE''"
    "json_ok (commitPayload ?h ?h) \<and> is_domain ''BLOCK_COMMIT''" by code_simp+
  then have "verifyObject demo_crypto (preparePayload ?h (JNum 7) (JNum 0)) (JStr ''sig'') (JStr ''key'') ''BLOCK_PREPARE''"
    "verifyObject demo_crypto (commitPayload ?h ?h) (JStr ''sig'') (JStr ''key'') ''BLOCK_COMMIT''"
    by (simp_all add: demo_verify)
  then show "acceptsVotes demo_crypto demo_validators (preparePayload ?h (JNum 7) (JNum 0)) ''BLOCK_PREPARE'' (v, \<lambda>p d. ''sig'') \<longleftrightarrow>
      v \<in> {''v1'', ''v2'', ''v3''}"
    "acceptsVotes demo_crypto demo_validators (commitPayload ?h ?h) ''BLOCK_COMMIT'' (v, \<lambda>p d. ''sig'') \<longleftrightarrow>
      v \<in> {''v1'', ''v2'', ''v3''}"
    by (auto simp: acceptsVotes_def demo_validators_def demo_member_def jget_def)
qed

lemma demo_fields:
  "fld (demo_block 0) ''hash'' = JStr (replicate 64 CHR ''d'')" "fld (demo_block 0) ''height'' = JNum 7"
  "fld (demo_block n) ''round'' = JNum n"
  "fld (demo_block 0) ''prepareCertificate'' = JArr (map (\<lambda>v. JObj [(''round'', JNum 0), (''signature'', JStr ''sig''),
     (''validator'', JStr v)]) [''v1'', ''v2'', ''v3''])"
  "fld (demo_block 0) ''certificate'' = JArr (map (\<lambda>v. JObj [(''signature'', JStr ''sig''), (''validator'', JStr v)])
     [''v1'', ''v2'', ''v3''])"
  by (simp_all add: demo_block_def fld_def)

lemma demo_prepareHash:
  "prepareCertificateHash demo_crypto (map (\<lambda>v. JObj [(''round'', JNum 0), (''signature'', JStr ''sig''), (''validator'', JStr v)])
     [''v1'', ''v2'', ''v3'']) = Inr (replicate 64 CHR ''d'')"
proof -
  let ?vs = "map (\<lambda>v. JObj [(''round'', JNum 0), (''signature'', JStr ''sig''), (''validator'', JStr v)]) [''v1'', ''v2'', ''v3'']"
  have "json_ok (JArr ?vs) \<and> is_domain ''PREPARE_CERTIFICATE''" by code_simp
  then have "hashObject demo_crypto (JArr ?vs) ''PREPARE_CERTIFICATE'' = Inr (replicate 64 CHR ''d'')" by (simp add: demo_hash)
  moreover have "sort_key fst (zip [''v1'', ''v2'', ''v3''] ?vs) = zip [''v1'', ''v2'', ''v3''] ?vs"
    by (rule sort_key_id_if_sorted) code_simp
  ultimately show ?thesis by (simp add: prepareCertificateHash_def voteOf_def fld_def)
qed

theorem honest_quorum_finalizes_witness:
  "verifyCertificate demo_crypto (demo_block 0) demo_validators None = Inr ()"
proof (rule honest_quorum_finalizes [where ws = demo_wallets and n = 0])
  show "jwf demo_validators" "distinct (map fst demo_wallets)" "voteQuorum (jsize demo_validators) \<le> length demo_wallets"
    "is_safe_int 0"
    by (simp_all add: jwf_def jkeys_def jsize_def demo_validators_def demo_wallets_def voteQuorum_def is_safe_int_def MAX_SAFE_INTEGER_def)
  show "blockHash demo_crypto (demo_block 0) = Inr (replicate 64 CHR ''d'')" by (rule demo_blockHash)
  show "\<forall>w \<in> set demo_wallets. acceptsVotes demo_crypto demo_validators
      (preparePayload (replicate 64 CHR ''d'') (fld (demo_block 0) ''height'') (JNum 0)) ''BLOCK_PREPARE'' w \<and>
      acceptsVotes demo_crypto demo_validators (commitPayload (replicate 64 CHR ''d'') (replicate 64 CHR ''d'')) ''BLOCK_COMMIT'' w"
    by (simp add: demo_wallets_def demo_votes demo_fields)
  show "prepareCertificateHash demo_crypto (map (\<lambda>v. JObj [(''round'', JNum 0), (''signature'', JStr ''sig''),
      (''validator'', JStr v)]) [''v1'', ''v2'', ''v3'']) = Inr (replicate 64 CHR ''d'')" by (rule demo_prepareHash)
  then show "mapM (commitVoteForBlock demo_crypto (demo_block 0) (map (\<lambda>v. JObj [(''round'', JNum 0), (''signature'', JStr ''sig''),
      (''validator'', JStr v)]) [''v1'', ''v2'', ''v3''])) demo_wallets = Inr (map (\<lambda>v. JObj [(''signature'', JStr ''sig''), (''validator'', JStr v)])
      [''v1'', ''v2'', ''v3''])"
    by (simp add: demo_wallets_def commitVoteForBlock_def demo_blockHash)
qed (simp_all add: demo_fields demo_wallets_def prepareVoteForBlock_def demo_blockHash)

lemma demo_certificate:
  assumes "previous = None \<or> previous = Some demo_validators"
  shows "verifyCertificate demo_crypto (demo_block 0) demo_validators previous = Inr ()"
proof -
  let ?h = "replicate 64 CHR ''d''" and ?vs = "[''v1'', ''v2'', ''v3'']"
  let ?prepares = "map (\<lambda>v. JObj [(''round'', JNum 0), (''signature'', JStr ''sig''), (''validator'', JStr v)]) ?vs"
  let ?commits = "map (\<lambda>v. JObj [(''signature'', JStr ''sig''), (''validator'', JStr v)]) ?vs"
  have acc: "acceptedValidators demo_validators previous = demo_validators"
    using assms by (elim disjE) (simp_all add: acceptedValidators_def demo_validators_def jset_def)
  have members: "jwf demo_validators" "distinct ?vs" "\<forall>a \<in> set ?vs. jhas demo_validators a" by code_simp+
  note fit = members_fit [OF members]
  obtain x where x: "foldM (checkPrepare demo_crypto ?h (JNum 7) 0 demo_validators) ([], None) ?prepares = Inr (?vs, x)"
    using foldM_checkPrepare_honest [of demo_wallets demo_validators ?h "JNum 7" 0 demo_crypto "([], None)" 0]
      demo_votes(1) [unfolded acceptsVotes_iff]
    by (auto simp: demo_wallets_def is_safe_int_def MAX_SAFE_INTEGER_def)
  have y: "foldM (checkCommit demo_crypto (commitPayload ?h ?h) demo_validators) [] ?commits = Inr ?vs"
    using foldM_checkCommit_honest [of demo_wallets demo_validators "commitPayload ?h ?h" demo_crypto "[]"]
      demo_votes(2) [unfolded acceptsVotes_iff]
    by (simp add: demo_wallets_def)
  have q: "assertQuorums demo_validators previous ?vs m1 m2 = Inr ()" for m1 m2
    using fit(2) assms by (auto simp: assertQuorums_def voteQuorum_def jsize_def demo_validators_def)
  have size: "jsize demo_validators = 3" by code_simp
  show ?thesis
    unfolding verifyCertificate_def acc Let_def demo_blockHash demo_fields
    using x y q demo_prepareHash by (simp add: size MAX_SAFE_INTEGER_def del: foldM.simps list.map)
qed

theorem conflicting_finality_is_accountable_witness:
  "\<exists>A. A \<subseteq> set (jkeys demo_validators) \<and> 3 < 3 * card A"
proof -
  have "jwf demo_validators" by code_simp
  note q = conflicting_finality_is_accountable [OF this demo_certificate [of None] demo_certificate [of None]]
  have "jsize demo_validators = 3" by code_simp
  with q show ?thesis by fastforce
qed

theorem transition_needs_both_sets_witness:
  "\<exists>p. quorumSigned demo_crypto demo_validators demo_validators (commitPayload (replicate 64 CHR ''d'') p) ''BLOCK_COMMIT''"
proof -
  have "jwf demo_validators" by code_simp
  from transition_needs_both_sets [OF this this demo_certificate] show ?thesis by (auto simp: demo_blockHash)
qed

theorem later_round_needs_timeout_quorum_witness:
  "quorumSigned demo_crypto demo_validators demo_validators
     (roundTimeoutPayload demo_hex (JStr ''nir-test'') (JNum 7) (JStr ''a'') (JNum 2)) ''ROUND_TIMEOUT''"
proof -
  have wf: "jwf demo_validators" by code_simp
  have "json_ok (roundTimeoutPayload (replicate 64 CHR ''d'') (JStr ''nir-test'') (JNum 7) (JStr ''a'') (JNum 2)) \<and>
      is_domain ''ROUND_TIMEOUT''" by code_simp
  then have "verifyObject demo_crypto (roundTimeoutPayload (replicate 64 CHR ''d'') (JStr ''nir-test'') (JNum 7) (JStr ''a'') (JNum 2))
      (JStr ''sig'') (JStr ''key'') ''ROUND_TIMEOUT''" by (simp add: demo_verify)
  moreover have fields: "fld (demo_block 2) ''networkId'' = JStr ''nir-test''" "fld (demo_block 2) ''height'' = JNum 7"
      "fld (demo_block 2) ''previousHash'' = JStr ''a''" "fld (demo_block 2) ''round'' = JNum 2"
      "fld (demo_block 2) ''roundCertificate'' =
         JArr (map (\<lambda>v. JObj [(''signature'', JStr ''sig''), (''validator'', JStr v)]) [''v1'', ''v2'', ''v3''])"
    by (simp_all add: demo_block_def fld_def)
  moreover have "fld [(''signature'', JStr ''sig''), (''validator'', JStr v)] ''validator'' = JStr v"
      "fld [(''signature'', JStr ''sig''), (''validator'', JStr v)] ''signature'' = JStr ''sig''" for v
    by (simp_all add: fld_def)
  ultimately have "verifyRoundCertificate demo_crypto (demo_block 2) demo_validators = Inr ()"
    by (simp add: verifyRoundCertificate_def demo_blockHash checkTimeout_def voteOf_def demo_validators_def demo_member_def
        MAX_CONSENSUS_ROUND_def MAX_SAFE_INTEGER_def jsize_def voteQuorum_def jget_def short_string_def)
  from later_round_needs_timeout_quorum [OF wf this] show ?thesis by (simp add: demo_blockHash fields MAX_SAFE_INTEGER_def)
qed

section \<open>What a block hash commits to\<close>

definition UNHASHED :: "string list" where
  "UNHASHED = [''certificate'', ''hash'', ''prepareCertificate'', ''proposer'', ''round'', ''roundCertificate'']"

text \<open>
  The fields a block of a version commits to: all of the body, and of the header those its format has.
  An upgrade that is left out counts as \<open>null\<close>.
\<close>

definition committedField :: "int \<Rightarrow> string \<Rightarrow> bool" where
  "committedField v k \<longleftrightarrow> k \<notin> set UNHASHED \<and>
     (k = ''recoveryStateCommitment'' \<longrightarrow> v \<ge> RECOVERY_STATE_COMMITMENT_PROTOCOL_VERSION) \<and>
     (k = ''evaluationAssignmentRoot'' \<longrightarrow> v \<ge> EVALUATION_ASSIGNMENT_ROOT_PROTOCOL_VERSION) \<and>
     (k \<in> {''chainIdentityGenesisHash'', ''validatorSetId''} \<longrightarrow> v \<ge> CHAIN_IDENTITY_CHECKPOINT_PROTOCOL_VERSION)"

definition committedValue :: "jsobj \<Rightarrow> string \<Rightarrow> jsval" where
  "committedValue block k =
     (if k = ''protocolUpgrade'' \<and> fld block k = JUndef then JNull else fld block k)"

text \<open>The two byte strings that are hashed for a block: its body and its header.\<close>

definition hashedBytes :: "crypto \<Rightarrow> jsobj \<Rightarrow> bytes set" where
  "hashedBytes cr block =
     {x. domainPayload cr ''BLOCK_BODY'' (JObj (omit HEADER_FIELDS (unsignedBlock block))) = Inr x \<or>
         (\<exists>header. blockHeader cr block = Inr header \<and> domainPayload cr ''BLOCK'' (JObj header) = Inr x)}"

lemma distinct_omit [simp]: "distinct (map fst obj) \<Longrightarrow> distinct (map fst (omit ks obj))"
  by (induction obj) (auto simp: omit_def)

lemma blockHeader_Inr:
  assumes "blockHeader cr block = Inr header"
  obtains bodyHash where "hashObject cr (JObj (omit HEADER_FIELDS (unsignedBlock block))) ''BLOCK_BODY'' = Inr bodyHash"
    and "fld header ''bodyHash'' = JStr bodyHash" and "distinct (map fst header)"
    and "\<And>k. k \<in> {''accountStateRoot'', ''capabilityMemoryRoot'', ''height'', ''networkId'', ''peerRegistryHash'',
      ''previousHash'', ''protocolVersion'', ''stateRoot'', ''timestamp'', ''transactionCount'', ''transactionsRoot''} \<Longrightarrow>
      fld header k = fld block k"
    and "\<exists>v. fld block ''protocolVersion'' = JNum v \<and>
      (\<forall>k \<in> set HEADER_FIELDS. committedField v k \<longrightarrow> fld header k = committedValue block k)"
proof -
  from assms obtain bodyHash v format where h:
      "hashObject cr (JObj (omit HEADER_FIELDS (unsignedBlock block))) ''BLOCK_BODY'' = Inr bodyHash"
      "fld block ''protocolVersion'' = JNum v" "finalityHeaderFormat v = Inr format"
    unfolding blockHeader_def by (clarsimp simp only: bind_r_Inr_iff map_err_Inr_iff) (auto simp: bind_r_Inr_iff split: jsval.split_asm)
  have header: "header = [(''bodyHash'', JStr bodyHash), (''accountStateRoot'', fld block ''accountStateRoot''),
      (''capabilityMemoryRoot'', fld block ''capabilityMemoryRoot''), (''format'', JStr format),
      (''height'', fld block ''height''), (''networkId'', fld block ''networkId''),
      (''peerRegistryHash'', fld block ''peerRegistryHash''), (''previousHash'', fld block ''previousHash''),
      (''protocolUpgrade'', if fld block ''protocolUpgrade'' = JUndef then JNull else fld block ''protocolUpgrade''),
      (''protocolVersion'', fld block ''protocolVersion'')] @
      (if v \<ge> RECOVERY_STATE_COMMITMENT_PROTOCOL_VERSION then [(''recoveryStateCommitment'', fld block ''recoveryStateCommitment'')] else []) @
      (if v \<ge> EVALUATION_ASSIGNMENT_ROOT_PROTOCOL_VERSION then [(''evaluationAssignmentRoot'', fld block ''evaluationAssignmentRoot'')] else []) @
      (if v \<ge> CHAIN_IDENTITY_CHECKPOINT_PROTOCOL_VERSION then [(''chainIdentityGenesisHash'', fld block ''chainIdentityGenesisHash''),
         (''validatorSetId'', fld block ''validatorSetId'')] else []) @
      [(''stateRoot'', fld block ''stateRoot''), (''timestamp'', fld block ''timestamp''),
       (''transactionCount'', fld block ''transactionCount''), (''transactionsRoot'', fld block ''transactionsRoot'')]"
    using assms h by (simp add: blockHeader_def Let_def split del: if_split)
  show ?thesis
  proof (rule that [OF h(1)])
    show "fld header ''bodyHash'' = JStr bodyHash" by (simp add: header fld_def)
    show "distinct (map fst header)" unfolding header by auto
    show "fld header k = fld block k" if "k \<in> {''accountStateRoot'', ''capabilityMemoryRoot'', ''height'', ''networkId'',
        ''peerRegistryHash'', ''previousHash'', ''protocolVersion'', ''stateRoot'', ''timestamp'', ''transactionCount'',
        ''transactionsRoot''}" for k
      using that by (elim insertE emptyE) (simp_all add: header fld_def [of "_ # _"] map_add_def)
    have "fld header k = committedValue block k" if "k \<in> set HEADER_FIELDS" "committedField v k" for k
      using that unfolding HEADER_FIELDS_def committedField_def
      by (simp only: set_simps; elim insertE emptyE) (simp_all add: header fld_def [of "_ # _"] map_add_def committedValue_def)
    with h(2) show "\<exists>v. fld block ''protocolVersion'' = JNum v \<and>
      (\<forall>k \<in> set HEADER_FIELDS. committedField v k \<longrightarrow> fld header k = committedValue block k)" by blast
  qed
qed

text \<open>A hash that tells the two domains apart, and so the bytes of one block.\<close>

definition demo_domains :: crypto where
  "demo_domains = demo_crypto\<lparr>sha3_hex := (\<lambda>b. replicate 64 (if b ! 16 = 5 then CHR ''d'' else CHR ''e''))\<rparr>"

text \<open>
  C37: A block hash commits to the whole block. When two blocks hash alike and the hash function has no
  collision among the bytes hashed for them, they have one protocol version and agree (in the codec's
  canonical form) on every field of the body and on every field the header of that version carries, an
  upgrade, the recovery commitment, the assignments, the identity of the chain and the validator set
  among them: only the certificates, the proposer and the round are outside the hash.
\<close>

theorem block_hash_binds_content:
  assumes "distinct (map fst block)" and "distinct (map fst block')"
    and "blockHash cr block = Inr h" and "blockHash cr block' = Inr h"
    and "inj_on (sha3_hex cr) (hashedBytes cr block \<union> hashedBytes cr block')"
  shows "\<exists>v. fld block ''protocolVersion'' = JNum v \<and> fld block' ''protocolVersion'' = JNum v \<and>
    (\<forall>k. committedField v k \<longrightarrow> canon (to_cval (committedValue block k)) = canon (to_cval (committedValue block' k)))"
proof -
  obtain H where H: "blockHeader cr block = Inr H" "hashObject cr (JObj H) ''BLOCK'' = Inr h"
    using assms(3) by (auto simp: blockHash_def blockHeaderHash_def bind_r_Inr_iff map_err_Inr_iff)
  obtain H' where H': "blockHeader cr block' = Inr H'" "hashObject cr (JObj H') ''BLOCK'' = Inr h"
    using assms(4) by (auto simp: blockHash_def blockHeaderHash_def bind_r_Inr_iff map_err_Inr_iff)
  obtain b v where b: "hashObject cr (JObj (omit HEADER_FIELDS (unsignedBlock block))) ''BLOCK_BODY'' = Inr b"
      "fld H ''bodyHash'' = JStr b" "distinct (map fst H)" "fld H ''protocolVersion'' = JNum v" "fld block ''protocolVersion'' = JNum v"
      "\<forall>k \<in> set HEADER_FIELDS. committedField v k \<longrightarrow> fld H k = committedValue block k"
    by (rule blockHeader_Inr [OF H(1)]) auto
  obtain b' v' where b': "hashObject cr (JObj (omit HEADER_FIELDS (unsignedBlock block'))) ''BLOCK_BODY'' = Inr b'"
      "fld H' ''bodyHash'' = JStr b'" "distinct (map fst H')" "fld H' ''protocolVersion'' = JNum v'" "fld block' ''protocolVersion'' = JNum v'"
      "\<forall>k \<in> set HEADER_FIELDS. committedField v' k \<longrightarrow> fld H' k = committedValue block' k"
    by (rule blockHeader_Inr [OF H'(1)]) auto
  have header: "canon (to_cval (fld H k)) = canon (to_cval (fld H' k))" for k
    by (rule hash_equal [OF H(2) H'(2) assms(5) _ _ b(3) b'(3)]) (auto simp: hashedBytes_def H(1) H'(1))
  have "b = b'" using header [of "''bodyHash''"] b(2) b'(2) by simp
  then have body: "canon (to_cval (fld (omit HEADER_FIELDS (unsignedBlock block)) k)) =
      canon (to_cval (fld (omit HEADER_FIELDS (unsignedBlock block')) k))" for k
    by (intro hash_equal [OF b(1) b'(1) [folded \<open>b = b'\<close>] assms(5)])
      (use assms(1,2) in \<open>auto simp: hashedBytes_def unsignedBlock_def\<close>)
  have v: "v = v'" using header [of "''protocolVersion''"] b(4) b'(4) by simp
  have "canon (to_cval (committedValue block k)) = canon (to_cval (committedValue block' k))" if k: "committedField v k" for k
  proof (cases "k \<in> set HEADER_FIELDS")
    case True
    then show ?thesis using header [of k] b(6) b'(6) k v by simp
  next
    case False
    then have "k \<noteq> ''protocolUpgrade''" "k \<notin> set UNHASHED" using k by (auto simp: HEADER_FIELDS_def committedField_def)
    then have "fld (omit HEADER_FIELDS (unsignedBlock x)) k = committedValue x k" for x
      using False by (simp add: fld_omit unsignedBlock_def UNHASHED_def committedValue_def)
    with body [of k] show ?thesis by simp
  qed
  with b(5) b'(5) v show ?thesis by blast
qed

lemma domains_payload:
  assumes "domainPayload cr d v = Inr x"
  shows "x ! 16 = length d"
  using assms
  by (auto simp: domainPayload_def consensusEnvelopeBytes_def envelopePrefix_def bind_r_Inr_iff ascii_def
      split: if_split_asm)

lemma demo_domains_hash:
  assumes "json_ok v" and "is_domain d"
  shows "hashObject demo_domains v d = Inr (replicate 64 (if length d = 5 then CHR ''d'' else CHR ''e''))"
proof -
  have "keeps_ascii demo_domains" by (simp add: keeps_ascii_def demo_domains_def demo_crypto_def)
  from hashObject_ok [OF this assms] obtain x where "domainPayload demo_domains d v = Inr x"
      "hashObject demo_domains v d = Inr (sha3_hex demo_domains x)"
    by (auto simp: hashObject_def bind_r_Inr_iff)
  with domains_payload [OF this(1)] show ?thesis by (simp add: demo_domains_def)
qed

lemma demo_blockHeader:
  "blockHeader demo_domains (demo_block n) = Inr [(''bodyHash'', JStr (replicate 64 CHR ''e'')), (''accountStateRoot'', JStr ''a''),
      (''capabilityMemoryRoot'', JStr ''a''), (''format'', JStr ''nir-finality-header-v1''), (''height'', JNum 7),
      (''networkId'', JStr ''nir-test''), (''peerRegistryHash'', JStr ''a''), (''previousHash'', JStr ''a''),
      (''protocolUpgrade'', JNull), (''protocolVersion'', JNum 24), (''stateRoot'', JStr ''a''), (''timestamp'', JNum 5),
      (''transactionCount'', JNum 0), (''transactionsRoot'', JStr ''a'')]"
proof -
  have "json_ok (JObj [(''transactions'', JArr [])]) \<and> is_domain ''BLOCK_BODY''" by code_simp
  moreover have "finalityHeaderFormat 24 = Inr ''nir-finality-header-v1''" by code_simp
  moreover have "omit HEADER_FIELDS (unsignedBlock (demo_block n)) = [(''transactions'', JArr [])]"
    by (simp add: omit_def HEADER_FIELDS_def unsignedBlock_def demo_block_def)
  ultimately show ?thesis
    by (simp add: blockHeader_def demo_domains_hash demo_block_def fld_def
        RECOVERY_STATE_COMMITMENT_PROTOCOL_VERSION_def EVALUATION_ASSIGNMENT_ROOT_PROTOCOL_VERSION_def
        CHAIN_IDENTITY_CHECKPOINT_PROTOCOL_VERSION_def)
qed

lemma demo_domains_blockHash: "blockHash demo_domains (demo_block n) = Inr (replicate 64 CHR ''d'')"
proof -
  have "json_ok (JObj [(''bodyHash'', JStr (replicate 64 CHR ''e'')), (''accountStateRoot'', JStr ''a''), (''capabilityMemoryRoot'', JStr ''a''),
      (''format'', JStr ''nir-finality-header-v1''), (''height'', JNum 7), (''networkId'', JStr ''nir-test''),
      (''peerRegistryHash'', JStr ''a''), (''previousHash'', JStr ''a''), (''protocolUpgrade'', JNull),
      (''protocolVersion'', JNum 24), (''stateRoot'', JStr ''a''), (''timestamp'', JNum 5),
      (''transactionCount'', JNum 0), (''transactionsRoot'', JStr ''a'')]) \<and> is_domain ''BLOCK''" by code_simp
  then show ?thesis by (simp add: blockHash_def blockHeaderHash_def demo_blockHeader demo_domains_hash)
qed

theorem block_hash_binds_content_witness:
  "\<exists>v. fld (demo_block 0) ''protocolVersion'' = JNum v \<and> (\<forall>k \<in> {''transactions'', ''protocolUpgrade'', ''previousHash''}. committedField v k \<and>
     canon (to_cval (committedValue (demo_block 0) k)) = canon (to_cval (committedValue (demo_block 2) k)))"
proof -
  have "unsignedBlock (demo_block 2) = unsignedBlock (demo_block 0)"
    by (simp add: unsignedBlock_def demo_block_def omit_def)
  then have same: "hashedBytes demo_domains (demo_block 2) = hashedBytes demo_domains (demo_block 0)"
    by (simp add: hashedBytes_def demo_blockHeader)
  have "sha3_hex demo_domains x \<noteq> sha3_hex demo_domains y"
    if "domainPayload demo_domains ''BLOCK_BODY'' v = Inr x" "domainPayload demo_domains ''BLOCK'' w = Inr y" for v w x y
    using domains_payload [OF that(1)] domains_payload [OF that(2)] by (simp add: demo_domains_def)
  then have "inj_on (sha3_hex demo_domains) (hashedBytes demo_domains (demo_block 0))"
    unfolding inj_on_def hashedBytes_def by fastforce
  with same have inj: "inj_on (sha3_hex demo_domains) (hashedBytes demo_domains (demo_block 0) \<union> hashedBytes demo_domains (demo_block 2))"
    by simp
  have keys: "distinct (map fst (demo_block 0))" "distinct (map fst (demo_block 2))" by (simp_all add: demo_block_def)
  have "committedField v k" if "k \<in> {''transactions'', ''protocolUpgrade'', ''previousHash''}" for v k
    using that by (auto simp: committedField_def UNHASHED_def)
  with block_hash_binds_content [OF keys demo_domains_blockHash demo_domains_blockHash inj] show ?thesis by blast
qed

end
