(* ===== verification/Handlers.thy ===== *)
theory Handlers
  imports Beacons
begin

text \<open>
  The handlers of \<open>blockchain/chain.mjs\<close> that drive the proof mining state machine and the name
  registry: \<open>#applyProofAnswer\<close> and \<open>#applyNameTransaction\<close>. Both charge a fee, advance the nonce and
  pass the fields of the transaction on; the first locks the bond of a sealed answer, the second
  burns the price of a name. Their lemmas show what they keep of the ledger and of the
  invariants of the two components.
\<close>

section \<open>Proof answers\<close>

definition applyProofAnswer :: "crypto \<Rightarrow> chain_context \<Rightarrow> jsobj \<Rightarrow> int \<Rightarrow> ledger \<Rightarrow> chain_error + ledger" where
  "applyProofAnswer cr cx tx index L =
     (case lg_proofMining L of
        None \<Rightarrow> Inl (Refused ''proof answers require protocol version 37'')
      | Some proofMining \<Rightarrow>
          let commit = (fld tx ''type'' = JStr ''proof-answer-commit'') in
          if fld tx ''algorithm'' \<noteq> JStr SIGNATURE_ALGORITHM \<or> fld tx ''networkId'' \<noteq> JStr (cx_networkId cx) \<or>
             fld tx ''chainIdentityGenesisHash'' \<noteq> JStr (cx_chainIdentityGenesisHash cx)
          then Inl (Refused ''proof answer transaction is invalid'')
          else bind_r (signer cr tx (if commit then ''PROOF_ANSWER_COMMIT_V1'' else ''PROOF_ANSWER_REVEAL_V1'')
                 ''proof answer transaction is invalid'') (\<lambda>sender.
          bind_r (expectNonce tx (lg_nonces L) sender) (\<lambda>expectedNonce.
          bind_r (amountOf (fld tx ''fee'') ''fee'') (\<lambda>fee.
          let bond = (if commit then pm_commitBond PROOF_MINING_V1 else 0);
              balance = jget_or 0 (lg_balances L) sender in
          if fee < MIN_TRANSFER_FEE \<or> balance < fee + bond
          then Inl (Refused ''proof answer fee or bond is invalid or unfunded'')
          else bind_r
            (if commit
             then map_err Proof_refused (applyProofAnswerCommit proofMining (fld tx ''commitment'') (fld tx ''taskRound'')
                    sender (cx_height cx) index (cx_timestamp cx) PROOF_MINING_V1)
             else bind_r (assertAddress (fld tx ''recipient'') ''proof reward recipient'') (\<lambda>recipient.
                    map_err Proof_refused (applyProofAnswerReveal cr proofMining (cx_networkId cx) (fld tx ''commitment'')
                      recipient (fld tx ''salt'') (fld tx ''vertices'') (cx_height cx) PROOF_MINING_V1))) (\<lambda>next.
            Inr (L\<lparr>lg_balances := payFee sender (balance - fee - bond) (cx_feeRecipient cx) fee (lg_balances L),
                  lg_nonces := jset sender (expectedNonce + 1) (lg_nonces L),
                  lg_proofMining := Some next\<rparr>))))))"

section \<open>Names\<close>

definition NAME_SIGNATURE_DOMAINS :: "(string \<times> string) list" where
  "NAME_SIGNATURE_DOMAINS =
    [(''name-commit'', ''NAME_COMMIT_V1''), (''name-register'', ''NAME_REGISTER_V1''),
     (''name-release'', ''NAME_RELEASE_V1''), (''name-transfer'', ''NAME_TRANSFER_V1'')]"

text \<open>The registry after the transaction, and the price that is burned.\<close>

definition nameOperation :: "crypto \<Rightarrow> chain_context \<Rightarrow> jsobj \<Rightarrow> string \<Rightarrow> string \<Rightarrow> name_state \<Rightarrow>
    chain_error + (name_state \<times> int)" where
  "nameOperation cr cx tx kind sender registry =
     (if kind = ''name-commit'' then
        bind_r (map_err Name_refused (applyNameCommit registry (fld tx ''commitment'') sender (cx_height cx) NAMES_V1))
          (\<lambda>s. Inr (s, 0))
      else if kind = ''name-register'' then
        map_err Name_refused (applyNameRegister cr registry (fld tx ''name'') (cx_networkId cx) (fld tx ''salt'')
          sender (cx_height cx) NAMES_V1)
      else if kind = ''name-release'' then
        bind_r (map_err Name_refused (applyNameRelease registry sender)) (\<lambda>s. Inr (s, 0))
      else
        bind_r (assertAddress (fld tx ''recipient'') ''name recipient'') (\<lambda>recipient.
        bind_r (map_err Name_refused (applyNameTransfer registry sender (JStr recipient) (cx_height cx)))
          (\<lambda>s. Inr (s, 0))))"

definition applyNameTransaction :: "crypto \<Rightarrow> chain_context \<Rightarrow> jsobj \<Rightarrow> ledger \<Rightarrow> chain_error + ledger" where
  "applyNameTransaction cr cx tx L =
     (case (lg_nameRegistry L, fld tx ''type'') of
        (None, _) \<Rightarrow> Inl (Refused ''account names require protocol version 38'')
      | (Some registry, JStr kind) \<Rightarrow>
          (case map_of NAME_SIGNATURE_DOMAINS kind of
             None \<Rightarrow> Inl (Refused ''name transaction is invalid'')
           | Some domain \<Rightarrow>
               if fld tx ''algorithm'' \<noteq> JStr SIGNATURE_ALGORITHM \<or> fld tx ''networkId'' \<noteq> JStr (cx_networkId cx) \<or>
                  fld tx ''chainIdentityGenesisHash'' \<noteq> JStr (cx_chainIdentityGenesisHash cx)
               then Inl (Refused ''name transaction is invalid'')
               else bind_r (signer cr tx domain ''name transaction is invalid'') (\<lambda>sender.
               bind_r (expectNonce tx (lg_nonces L) sender) (\<lambda>expectedNonce.
               bind_r (amountOf (fld tx ''fee'') ''fee'') (\<lambda>fee.
               let balance = jget_or 0 (lg_balances L) sender in
               if fee < MIN_TRANSFER_FEE \<or> balance < fee
               then Inl (Refused ''name transaction fee is invalid or unfunded'')
               else bind_r (nameOperation cr cx tx kind sender registry) (\<lambda>(next, price).
               if balance < fee + price then Inl (Refused ''name price is unfunded'')
               else Inr (L\<lparr>lg_balances := payFee sender (balance - fee - price) (cx_feeRecipient cx) fee (lg_balances L),
                     lg_nonces := jset sender (expectedNonce + 1) (lg_nonces L),
                     lg_nameRegistry := Some next, lg_burned := lg_burned L + price\<rparr>))))))
      | _ \<Rightarrow> Inl (Refused ''name transaction is invalid''))"

section \<open>What they keep\<close>

lemma proof_answer_bonds:
  assumes "applyProofAnswerCommit s cv rv sender height index at p = Inr s' \<and> bond = pm_commitBond p \<or>
    applyProofAnswerReveal cr s net cv recipient sv vertices height p = Inr s' \<and> bond = 0"
    and "no_debt ac_bond (ps_commits s)" and "0 \<le> pm_commitBond p"
  shows "no_debt ac_bond (ps_commits s') \<and> lockedBonds s' = lockedBonds s + bond"
  using assms(1)
proof (elim disjE conjE)
  assume c: "applyProofAnswerCommit s cv rv sender height index at p = Inr s'" and b: "bond = pm_commitBond p"
  from c show ?thesis
    by (rule commit_answer_Inr) (use assms(2,3) b in \<open>auto simp: lockedBonds_jsum jsum_jset jhas_def\<close>)
next
  assume r: "applyProofAnswerReveal cr s net cv recipient sv vertices height p = Inr s'" and b: "bond = 0"
  from r show ?thesis
    by (rule reveal_Inr) (use assms(2) b in \<open>auto simp: lockedBonds_jsum jsum_jset intro!: no_debt_jset dest: no_debt_get\<close>)
qed

lemma proof_answer_Inr:
  assumes "applyProofAnswer cr cx tx index L = Inr L'"
  obtains sender fee bond s s' cv rv recipient sv vs where "fld tx ''sender'' = JStr sender"
    "safe_int (fld tx ''nonce'') = Some (jget_or 0 (lg_nonces L) sender)" "MIN_TRANSFER_FEE \<le> fee"
    "fee + bond \<le> jget_or 0 (lg_balances L) sender" "lg_proofMining L = Some s"
    "applyProofAnswerCommit s cv rv sender (cx_height cx) index (cx_timestamp cx) PROOF_MINING_V1 = Inr s' \<and>
       bond = pm_commitBond PROOF_MINING_V1 \<or>
     applyProofAnswerReveal cr s (cx_networkId cx) cv recipient sv vs (cx_height cx) PROOF_MINING_V1 = Inr s' \<and> bond = 0"
    "L' = L\<lparr>lg_balances := payFee sender (jget_or 0 (lg_balances L) sender - fee - bond) (cx_feeRecipient cx) fee (lg_balances L),
        lg_nonces := jset sender (jget_or 0 (lg_nonces L) sender + 1) (lg_nonces L), lg_proofMining := Some s'\<rparr>"
proof (cases "lg_proofMining L")
  case (Some s)
  show ?thesis
  proof (cases "fld tx ''type'' = JStr ''proof-answer-commit''")
    case True
    from assms [unfolded applyProofAnswer_def Some option.case Let_def, unfolded True simp_thms if_True] show ?thesis
      apply (simp only: handler_guards sum.inject)
      apply (elim exE conjE)
      apply (rule that, assumption+)
      using Some by (auto simp: Some)
  next
    case False
    from assms [unfolded applyProofAnswer_def Some option.case Let_def] False show ?thesis
      apply (simp only: if_False handler_guards sum.inject)
      apply (elim exE conjE)
      apply (rule that, assumption+)
      using Some by (auto simp: Some)
  qed
qed (use assms in \<open>simp add: applyProofAnswer_def\<close>)

lemma proof_answer_keeps:
  assumes "applyProofAnswer cr cx tx index L = Inr L'"
  shows "keeps tx L L'"
  using assms
proof (rule proof_answer_Inr)
  fix sender fee bond s s' cv rv recipient sv vs
  assume a: "fld tx ''sender'' = JStr sender" "safe_int (fld tx ''nonce'') = Some (jget_or 0 (lg_nonces L) sender)"
    and fee: "MIN_TRANSFER_FEE \<le> fee" "fee + bond \<le> jget_or 0 (lg_balances L) sender"
    and s: "lg_proofMining L = Some s"
    and op: "applyProofAnswerCommit s cv rv sender (cx_height cx) index (cx_timestamp cx) PROOF_MINING_V1 = Inr s' \<and>
       bond = pm_commitBond PROOF_MINING_V1 \<or>
     applyProofAnswerReveal cr s (cx_networkId cx) cv recipient sv vs (cx_height cx) PROOF_MINING_V1 = Inr s' \<and> bond = 0"
    and L': "L' = L\<lparr>lg_balances := payFee sender (jget_or 0 (lg_balances L) sender - fee - bond) (cx_feeRecipient cx) fee (lg_balances L),
        lg_nonces := jset sender (jget_or 0 (lg_nonces L) sender + 1) (lg_nonces L), lg_proofMining := Some s'\<rparr>"
  have bonds: "no_debt ac_bond (ps_commits s') \<and> lockedBonds s' = lockedBonds s + bond" if "ledger_ok L"
    by (rule proof_answer_bonds [OF op]) (use that s in \<open>simp_all add: ledger_ok_def PROOF_MINING_V1_def\<close>)
  show "keeps tx L L'"
    by (intro keepsI [OF a]) (use fee s bonds in \<open>simp_all add: L' ledger_ok_def ledger_rules worth_rules MIN_TRANSFER_FEE_def\<close>)
qed

lemma name_operation_price: "nameOperation cr cx tx kind sender s = Inr (s', price) \<Longrightarrow> 0 \<le> price"
  by (auto simp: nameOperation_def bind_r_Inr_iff map_err_Inr_iff register_Inr_iff namePrice_def ATOMIC_UNITS_def
      split: if_splits)

lemma name_transaction_Inr:
  assumes "applyNameTransaction cr cx tx L = Inr L'"
  obtains sender fee kind s s' price where "fld tx ''sender'' = JStr sender"
    "safe_int (fld tx ''nonce'') = Some (jget_or 0 (lg_nonces L) sender)" "MIN_TRANSFER_FEE \<le> fee"
    "fee + price \<le> jget_or 0 (lg_balances L) sender" "lg_nameRegistry L = Some s"
    "nameOperation cr cx tx kind sender s = Inr (s', price)"
    "L' = L\<lparr>lg_balances := payFee sender (jget_or 0 (lg_balances L) sender - fee - price) (cx_feeRecipient cx) fee (lg_balances L),
        lg_nonces := jset sender (jget_or 0 (lg_nonces L) sender + 1) (lg_nonces L), lg_nameRegistry := Some s',
        lg_burned := lg_burned L + price\<rparr>"
proof (cases "lg_nameRegistry L")
  case (Some s)
  show ?thesis
  proof (cases "fld tx ''type''")
    case (JStr kind)
    show ?thesis
    proof (cases "map_of NAME_SIGNATURE_DOMAINS kind")
      case (Some domain)
      from assms [unfolded applyNameTransaction_def \<open>lg_nameRegistry L = Some s\<close> JStr prod.case option.case jsval.case Some Let_def]
      show ?thesis
        apply (simp only: handler_guards sum.inject prod.case split_paired_Ex)
        apply (elim exE conjE)
        apply (rule that, assumption+)
        using \<open>lg_nameRegistry L = Some s\<close> by auto
    qed (use assms Some JStr in \<open>simp add: applyNameTransaction_def\<close>)
  qed (use assms Some in \<open>simp_all add: applyNameTransaction_def\<close>)
qed (use assms in \<open>simp add: applyNameTransaction_def\<close>)

lemma name_transaction_keeps:
  assumes "applyNameTransaction cr cx tx L = Inr L'"
  shows "keeps tx L L'"
  using assms
proof (rule name_transaction_Inr)
  fix sender fee kind s s' price
  assume a: "fld tx ''sender'' = JStr sender" "safe_int (fld tx ''nonce'') = Some (jget_or 0 (lg_nonces L) sender)"
    and fee: "MIN_TRANSFER_FEE \<le> fee" "fee + price \<le> jget_or 0 (lg_balances L) sender"
    and op: "nameOperation cr cx tx kind sender s = Inr (s', price)"
    and L': "L' = L\<lparr>lg_balances := payFee sender (jget_or 0 (lg_balances L) sender - fee - price) (cx_feeRecipient cx) fee (lg_balances L),
        lg_nonces := jset sender (jget_or 0 (lg_nonces L) sender + 1) (lg_nonces L), lg_nameRegistry := Some s',
        lg_burned := lg_burned L + price\<rparr>"
  show "keeps tx L L'"
    by (intro keepsI [OF a]) (use fee name_operation_price [OF op] in
      \<open>simp_all add: L' ledger_ok_def ledger_rules worth_rules MIN_TRANSFER_FEE_def\<close>)
qed

lemma if_either: "(if P then a else b) = c \<Longrightarrow> (a = c \<Longrightarrow> R) \<Longrightarrow> (b = c \<Longrightarrow> R) \<Longrightarrow> R"
  by (simp split: if_split_asm)

lemma name_operation_inv:
  assumes "nameOperation cr cx tx kind sender s = Inr (s', price)" and "names_inv NAMES_V1 s"
  shows "names_inv NAMES_V1 s'"
proof -
  consider (commit) "applyNameCommit s (fld tx ''commitment'') sender (cx_height cx) NAMES_V1 = Inr s'"
    | (register) "applyNameRegister cr s (fld tx ''name'') (cx_networkId cx) (fld tx ''salt'') sender (cx_height cx) NAMES_V1 = Inr (s', price)"
    | (release) "applyNameRelease s sender = Inr s'"
    | (transfer) r where "applyNameTransfer s sender (JStr r) (cx_height cx) = Inr s'"
    using assms(1) unfolding nameOperation_def
    apply (elim if_either)
    apply (simp_all only: bind_r_Inr_iff map_err_Inr_iff sum.inject prod.inject)
    apply blast+
    done
  then show ?thesis
  proof cases
    case commit then show ?thesis by (rule names_inv_commit [OF assms(2)])
  next
    case register then show ?thesis by (rule names_inv_register [OF assms(2)])
  next
    case release then show ?thesis by (rule names_inv_release [OF assms(2)])
  next
    case transfer then show ?thesis by (rule names_inv_transfer [OF assms(2)])
  qed
qed

text \<open>The states behind the handlers stay those of the two components.\<close>

lemma proof_answer_inv:
  assumes "applyProofAnswer cr cx tx index L = Inr L'"
    and "\<And>s. lg_proofMining L = Some s \<Longrightarrow> proof_inv cr (cx_networkId cx) d PROOF_MINING_V1 s"
    and "lg_proofMining L' = Some s'"
  shows "proof_inv cr (cx_networkId cx) d PROOF_MINING_V1 s'"
  using assms(1)
proof (rule proof_answer_Inr)
  fix sender fee bond s s'' cv rv recipient sv vs
  assume s: "lg_proofMining L = Some s"
    and op: "applyProofAnswerCommit s cv rv sender (cx_height cx) index (cx_timestamp cx) PROOF_MINING_V1 = Inr s'' \<and>
       bond = pm_commitBond PROOF_MINING_V1 \<or>
     applyProofAnswerReveal cr s (cx_networkId cx) cv recipient sv vs (cx_height cx) PROOF_MINING_V1 = Inr s'' \<and> bond = 0"
    and L': "L' = L\<lparr>lg_balances := payFee sender (jget_or 0 (lg_balances L) sender - fee - bond) (cx_feeRecipient cx) fee (lg_balances L),
        lg_nonces := jset sender (jget_or 0 (lg_nonces L) sender + 1) (lg_nonces L), lg_proofMining := Some s''\<rparr>"
  note inv = assms(2) [OF s]
  have "s'' = s'" using assms(3) L' by simp
  with op proof_inv_commit [OF inv] proof_inv_reveal [OF inv] show ?thesis by blast
qed

lemma name_transaction_inv:
  assumes "applyNameTransaction cr cx tx L = Inr L'"
    and "\<And>s. lg_nameRegistry L = Some s \<Longrightarrow> names_inv NAMES_V1 s" and "lg_nameRegistry L' = Some s'"
  shows "names_inv NAMES_V1 s'"
  using assms(1)
proof (rule name_transaction_Inr)
  fix sender fee kind s s'' price
  assume s: "lg_nameRegistry L = Some s" and op: "nameOperation cr cx tx kind sender s = Inr (s'', price)"
    and L': "L' = L\<lparr>lg_balances := payFee sender (jget_or 0 (lg_balances L) sender - fee - price) (cx_feeRecipient cx) fee (lg_balances L),
        lg_nonces := jset sender (jget_or 0 (lg_nonces L) sender + 1) (lg_nonces L), lg_nameRegistry := Some s'',
        lg_burned := lg_burned L + price\<rparr>"
  have "names_inv NAMES_V1 s" using assms(2) s .
  moreover have "s'' = s'" using assms(3) L' by simp
  ultimately show ?thesis using op by (blast intro: name_operation_inv)
qed

end
