(* ===== verification/Equivocation.thy ===== *)
theory Equivocation
  imports Finality Handlers ConsensusJson
begin

text \<open>
  \<open>blockchain/validator-equivocation.mjs\<close> and \<open>#applyValidatorEquivocation\<close>: evidence that a validator
  signed two different blocks at one height and round, and the transaction that reports it, which
  burns the validator's bond and disables it. The main result: a validator is punished only when
  its own key verifies both prepare votes, for two different headers of which exactly one is the
  finalized one; it loses the whole bond, once, and nobody else loses anything but the reporter's fee.
\<close>

section \<open>Evidence\<close>

definition MAX_EQUIVOCATION_EVIDENCE_BYTES :: nat where
  "MAX_EQUIVOCATION_EVIDENCE_BYTES = 32768"

definition EVIDENCE_FIELDS :: "string list" where
  "EVIDENCE_FIELDS = [''evidenceHash'', ''format'', ''height'', ''nativePenaltyAvailable'', ''networkId'', ''round'',
     ''statements'', ''validator'']"

definition EVIDENCE_STATEMENT_FIELDS :: "string list" where
  "EVIDENCE_STATEMENT_FIELDS = [''blockHash'', ''header'', ''signature'']"

definition LEGACY_HEADER_FIELDS :: "string list" where
  "LEGACY_HEADER_FIELDS = [''accountStateRoot'', ''bodyHash'', ''capabilityMemoryRoot'', ''format'', ''height'', ''networkId'',
     ''peerRegistryHash'', ''previousHash'', ''protocolUpgrade'', ''protocolVersion'', ''stateRoot'', ''timestamp'',
     ''transactionCount'', ''transactionsRoot'']"

definition EQUIVOCATION_FIELDS :: "string list" where
  "EQUIVOCATION_FIELDS = [''algorithm'', ''evidence'', ''fee'', ''networkId'', ''nonce'', ''publicKey'', ''sender'',
     ''signature'', ''type'']"

definition exactObject :: "jsval \<Rightarrow> string list \<Rightarrow> string \<Rightarrow> chain_error + jsobj" where
  "exactObject v ks label =
     (case plain_object v of
        None \<Rightarrow> Inl (Refused (label @ '' has missing or unknown fields''))
      | Some obj \<Rightarrow> if \<not> keys_are obj ks then Inl (Refused (label @ '' has missing or unknown fields'')) else Inr obj)"

text \<open>\<open>Number.isSafeInteger(v) && v >= n\<close>\<close>

definition atLeast :: "int \<Rightarrow> jsval \<Rightarrow> bool" where
  "atLeast n v \<longleftrightarrow> (case safe_int v of None \<Rightarrow> False | Some k \<Rightarrow> n \<le> k)"

definition bounded_text :: "nat \<Rightarrow> jsval \<Rightarrow> bool" where
  "bounded_text n v \<longleftrightarrow> (case v of JStr s \<Rightarrow> 1 \<le> length s \<and> length s \<le> n | _ \<Rightarrow> False)"

text \<open>
  A version that is no safe integer is refused whatever its comparisons give; the comparisons are
  those of the safe integers here.
\<close>

definition assertHeader :: "jsval \<Rightarrow> chain_error + jsobj" where
  "assertHeader header =
     (let version = (case plain_object header of None \<Rightarrow> JUndef | Some h \<Rightarrow> fld h ''protocolVersion'');
          recoveryFormat = atLeast RECOVERY_STATE_COMMITMENT_PROTOCOL_VERSION version;
          assignmentFormat = atLeast EVALUATION_ASSIGNMENT_ROOT_PROTOCOL_VERSION version;
          checkpointFormat = atLeast CHAIN_IDENTITY_CHECKPOINT_PROTOCOL_VERSION version in
      bind_r (exactObject header
        (if recoveryFormat
         then LEGACY_HEADER_FIELDS @ [''recoveryStateCommitment''] @
           (if assignmentFormat then [''evaluationAssignmentRoot''] else []) @
           (if checkpointFormat then [''chainIdentityGenesisHash'', ''validatorSetId''] else [])
         else LEGACY_HEADER_FIELDS) ''validator equivocation block header'') (\<lambda>h.
      let hashes = [''accountStateRoot'', ''bodyHash'', ''capabilityMemoryRoot'', ''peerRegistryHash'', ''previousHash''] @
            (if recoveryFormat then [''recoveryStateCommitment''] else []) @ [''stateRoot''] @
            (if assignmentFormat then [''evaluationAssignmentRoot''] else []) @
            (if checkpointFormat then [''chainIdentityGenesisHash'', ''validatorSetId''] else []) @ [''transactionsRoot''] in
      if fld h ''format'' \<noteq> JStr (if checkpointFormat then ''nir-finality-header-v4''
           else if assignmentFormat then ''nir-finality-header-v3''
           else if recoveryFormat then ''nir-finality-header-v2'' else ''nir-finality-header-v1'') \<or>
         \<not> bounded_text 128 (fld h ''networkId'') \<or> \<not> atLeast 1 (fld h ''height'') \<or> \<not> atLeast 0 (fld h ''timestamp'') \<or>
         \<not> atLeast 1 (fld h ''protocolVersion'') \<or> \<not> atLeast 0 (fld h ''transactionCount'') \<or>
         \<not> list_all (\<lambda>k. is_hex64 (coerced (fld h k))) hashes
      then Inl (Refused ''validator equivocation block header is invalid'') else Inr h))"

definition assertStatement :: "jsval \<Rightarrow> chain_error + (jsobj \<times> jsobj)" where
  "assertStatement v =
     bind_r (exactObject v EVIDENCE_STATEMENT_FIELDS ''validator equivocation statement'') (\<lambda>item.
     bind_r (assertHeader (fld item ''header'')) (\<lambda>header.
     if \<not> is_hex64 (coerced (fld item ''blockHash'')) \<or> \<not> bounded_text 7000 (fld item ''signature'')
     then Inl (Refused ''validator equivocation statement is invalid'') else Inr (item, header)))"

definition canonicalJson :: "crypto \<Rightarrow> jsval \<Rightarrow> chain_error + units" where
  "canonicalJson cr v = map_err Not_hashable (strictCanonicalJson (nfc cr) (to_cval v))"

text \<open>The evidence with its two statements and their headers.\<close>

record equivocation =
  eq_object :: jsobj
  eq_left :: "jsobj \<times> jsobj"
  eq_right :: "jsobj \<times> jsobj"

definition assertEvidenceEnvelope :: "crypto \<Rightarrow> jsval \<Rightarrow> chain_error + equivocation" where
  "assertEvidenceEnvelope cr evidence =
     bind_r (exactObject evidence EVIDENCE_FIELDS ''validator equivocation evidence'') (\<lambda>e.
     case fld e ''statements'' of
       JArr [left, right] \<Rightarrow>
         if fld e ''format'' \<noteq> JStr ''nir-validator-prepare-equivocation-v2'' \<or>
            fld e ''nativePenaltyAvailable'' \<noteq> JBool True \<or> \<not> is_address (coerced (fld e ''validator'')) \<or>
            \<not> bounded_text 128 (fld e ''networkId'') \<or> \<not> atLeast 1 (fld e ''height'') \<or> \<not> atLeast 0 (fld e ''round'') \<or>
            \<not> is_hex64 (coerced (fld e ''evidenceHash''))
         then Inl (Refused ''validator equivocation evidence header is invalid'')
         else bind_r (assertStatement left) (\<lambda>l.
              bind_r (assertStatement right) (\<lambda>r.
              bind_r (canonicalJson cr evidence) (\<lambda>text.
              if length (utf8 (map unat text)) > MAX_EQUIVOCATION_EVIDENCE_BYTES
              then Inl (Refused ''validator equivocation evidence exceeds the byte-size limit'')
              else Inr \<lparr>eq_object = e, eq_left = l, eq_right = r\<rparr>)))
     | _ \<Rightarrow> Inl (Refused ''validator equivocation evidence header is invalid''))"

definition evidencePayload :: "jsobj \<Rightarrow> jsobj" where
  "evidencePayload evidence = omit [''evidenceHash''] evidence"

definition checkContext :: "crypto \<Rightarrow> jsobj \<Rightarrow> jsobj \<times> jsobj \<Rightarrow> chain_error + unit" where
  "checkContext cr evidence s =
     bind_r (blockHeaderHash cr (snd s)) (\<lambda>hash.
     if \<not> strict_eq (fld (snd s) ''networkId'') (fld evidence ''networkId'') \<or>
        \<not> strict_eq (fld (snd s) ''height'') (fld evidence ''height'') \<or> fld (fst s) ''blockHash'' \<noteq> JStr hash
     then Inl (Refused ''validator equivocation statement context is inconsistent'') else Inr ())"

definition verifyEvidenceMetadata :: "crypto \<Rightarrow> equivocation \<Rightarrow> chain_error + unit" where
  "verifyEvidenceMetadata cr q =
     (let e = eq_object q; left = eq_left q; right = eq_right q in
      if \<not> coerced (fld (fst left) ''blockHash'') < coerced (fld (fst right) ''blockHash'')
      then Inl (Refused ''validator equivocation evidence hash or ordering is invalid'')
      else bind_r (map_err Not_hashable (hashObject cr (JObj (evidencePayload e)) ''VALIDATOR_EQUIVOCATION_V2'')) (\<lambda>hash.
      if fld e ''evidenceHash'' \<noteq> JStr hash
      then Inl (Refused ''validator equivocation evidence hash or ordering is invalid'')
      else bind_r (checkContext cr e left) (\<lambda>_.
           bind_r (checkContext cr e right) (\<lambda>_.
           if \<not> strict_eq (fld (snd left) ''previousHash'') (fld (snd right) ''previousHash'')
           then Inl (Refused ''validator equivocation statements have different parent blocks'') else Inr ()))))"

text \<open>The prepare vote of a statement, under the key of the accused.\<close>

definition prepareSigned :: "crypto \<Rightarrow> jsobj \<Rightarrow> jsval \<Rightarrow> jsobj \<times> jsobj \<Rightarrow> bool" where
  "prepareSigned cr evidence publicKey s \<longleftrightarrow>
     verifyObject cr (JObj [(''blockHash'', fld (fst s) ''blockHash''), (''height'', fld evidence ''height''),
       (''round'', fld evidence ''round'')]) (fld (fst s) ''signature'') publicKey ''BLOCK_PREPARE''"

record penalty =
  pn_bond :: int
  pn_evidenceHash :: string
  pn_validator :: string

definition verifyFinalizedValidatorEquivocationEvidence :: "crypto \<Rightarrow> jsval \<Rightarrow> jsobj \<Rightarrow> jsval \<Rightarrow> balances \<Rightarrow>
    member list \<Rightarrow> chain_error + penalty" where
  "verifyFinalizedValidatorEquivocationEvidence cr evidence finalizedHeader finalizedRound validatorBonds validators =
     bind_r (assertEvidenceEnvelope cr evidence) (\<lambda>q.
     bind_r (assertHeader (JObj finalizedHeader)) (\<lambda>f.
     let e = eq_object q in
     if \<not> strict_eq (fld e ''networkId'') (fld f ''networkId'') \<or> \<not> strict_eq (fld e ''height'') (fld f ''height'') \<or>
        \<not> strict_eq (fld e ''round'') finalizedRound
     then Inl (Refused ''equivocation evidence is not for the current finalized head'')
     else (case fld e ''validator'' of
       JStr validator \<Rightarrow>
         let bond = jget_or 0 validatorBonds validator in
         (case find (\<lambda>m. mb_address m = validator) validators of
            None \<Rightarrow> Inl (Refused ''equivocating validator was not active and bonded in finalized context'')
          | Some m \<Rightarrow>
              if str_val (mb_publicKey m) = None \<or> bond < MIN_VALIDATOR_BOND
              then Inl (Refused ''equivocating validator was not active and bonded in finalized context'')
              else bind_r (verifyEvidenceMetadata cr q) (\<lambda>_.
              if \<not> prepareSigned cr e (mb_publicKey m) (eq_left q) \<or> \<not> prepareSigned cr e (mb_publicKey m) (eq_right q)
              then Inl (Refused ''validator equivocation statement signature is invalid'')
              else bind_r (canonicalJson cr (JObj f)) (\<lambda>finalized.
                   bind_r (canonicalJson cr (JObj (snd (eq_left q)))) (\<lambda>l.
                   bind_r (canonicalJson cr (JObj (snd (eq_right q)))) (\<lambda>r.
                   if (l = finalized) = (r = finalized)
                   then Inl (Refused ''equivocation evidence does not contain the exact finalized header'')
                   else Inr \<lparr>pn_bond = bond, pn_evidenceHash = coerced (fld e ''evidenceHash''), pn_validator = validator\<rparr>)))))
     | _ \<Rightarrow> Inl (Refused ''equivocating validator was not active and bonded in finalized context''))))"

definition verifyValidatorEquivocationTransactionEnvelope :: "crypto \<Rightarrow> jsobj \<Rightarrow> string \<Rightarrow> chain_error + (string \<times> equivocation)" where
  "verifyValidatorEquivocationTransactionEnvelope cr tx networkId =
     (if \<not> keys_are tx EQUIVOCATION_FIELDS
      then Inl (Refused ''validator equivocation transaction has missing or unknown fields'')
      else bind_r (assertEvidenceEnvelope cr (fld tx ''evidence'')) (\<lambda>q.
      if fld tx ''type'' \<noteq> JStr ''validator-equivocation'' \<or> fld tx ''algorithm'' \<noteq> JStr SIGNATURE_ALGORITHM \<or>
         fld tx ''networkId'' \<noteq> JStr networkId \<or> fld (eq_object q) ''networkId'' \<noteq> JStr networkId
      then Inl (Refused ''validator equivocation transaction is invalid'')
      else (case addressFromPublicKey cr (fld tx ''publicKey'') of
        None \<Rightarrow> Inl Threw
      | Some sender \<Rightarrow>
          if fld tx ''sender'' \<noteq> JStr sender \<or> \<not> atLeast 0 (fld tx ''nonce'') \<or>
             (case fld tx ''fee'' of JStr fee \<Rightarrow> length fee > 32 \<or> \<not> is_decimal fee \<or> dec_value fee < MIN_TRANSFER_FEE
              | _ \<Rightarrow> True) \<or>
             \<not> verifyObject cr (JObj (omit [''signature''] tx)) (fld tx ''signature'') (fld tx ''publicKey'')
                 ''VALIDATOR_EQUIVOCATION_TRANSACTION''
          then Inl (Refused ''validator equivocation transaction is invalid'') else Inr (sender, q))))"

section \<open>The handler\<close>

text \<open>
  What it reads of the chain besides the context: the protocol version before the block, the last
  change of the validators and the block at the tip, which is final.
\<close>

record validator_transition =
  vt_activationHeight :: int
  vt_previousValidators :: "member list"
  vt_nextValidators :: "member list"

record finalized_context =
  fc_protocolVersion :: int
  fc_recentTransition :: "validator_transition option"
  fc_block :: jsobj

fun firstOfEach :: "member list \<Rightarrow> member list" where
  "firstOfEach (m # n # ms) =
     (if mb_address m = mb_address n then firstOfEach (m # ms) else m # firstOfEach (n # ms))"
| "firstOfEach ms = ms"

definition evidenceValidators :: "chain_context \<Rightarrow> finalized_context \<Rightarrow> member list" where
  "evidenceValidators cx fc =
     (case fc_recentTransition fc of
        Some t \<Rightarrow>
          if fc_protocolVersion fc \<ge> HISTORICAL_VALIDATOR_EVIDENCE_PROTOCOL_VERSION \<and>
             fld (fc_block fc) ''height'' = JNum (vt_activationHeight t)
          then firstOfEach (sort_key mb_address (vt_previousValidators t @ vt_nextValidators t))
          else jvalues (cx_validators cx)
      | None \<Rightarrow> jvalues (cx_validators cx))"

definition finalizedRound :: "jsobj \<Rightarrow> jsval" where
  "finalizedRound block =
     (case fld block ''prepareCertificate'' of JArr (JObj vote # _) \<Rightarrow> fld vote ''round'' | _ \<Rightarrow> JUndef)"

definition slashValidator :: "penalty \<Rightarrow> validator_book \<Rightarrow> validator_book" where
  "slashValidator p v =
     v\<lparr>vb_bonds := jdel (pn_validator p) (vb_bonds v),
       vb_faults := jset (pn_validator p) (jget_or 0 (vb_faults v) (pn_validator p) + 1) (vb_faults v),
       vb_disabled := jadd (pn_validator p) (vb_disabled v),
       vb_evidence := jadd (pn_evidenceHash p) (vb_evidence v)\<rparr>"

definition applyValidatorEquivocation :: "crypto \<Rightarrow> chain_context \<Rightarrow> finalized_context \<Rightarrow> jsobj \<Rightarrow> ledger \<Rightarrow>
    chain_error + ledger" where
  "applyValidatorEquivocation cr cx fc tx L =
     bind_r (verifyValidatorEquivocationTransactionEnvelope cr tx (cx_networkId cx)) (\<lambda>(sender, q).
     bind_r (expectNonce tx (lg_nonces L) sender) (\<lambda>expectedNonce.
     let v = lg_validators L in
     if vhas (vb_evidence v) (fld (eq_object q) ''evidenceHash'')
     then Inl (Refused ''validator equivocation evidence was already used'')
     else bind_r (amountOf (fld tx ''fee'') ''fee'') (\<lambda>fee.
     let balance = jget_or 0 (lg_balances L) sender in
     if balance < fee then Inl (Refused ''insufficient balance'')
     else bind_r (blockHeader cr (fc_block fc)) (\<lambda>header.
     bind_r (verifyFinalizedValidatorEquivocationEvidence cr (fld tx ''evidence'') header (finalizedRound (fc_block fc))
              (vb_bonds v) (evidenceValidators cx fc)) (\<lambda>p.
       Inr (L\<lparr>lg_balances := payFee sender (balance - fee) (cx_feeRecipient cx) fee (lg_balances L),
             lg_nonces := jset sender (expectedNonce + 1) (lg_nonces L),
             lg_validators := slashValidator p v, lg_burned := lg_burned L + pn_bond p\<rparr>))))))"

section \<open>What an accepted report shows\<close>

lemma exactObject_Inr: "exactObject v ks label = Inr h \<Longrightarrow> v = JObj h \<and> keys_are h ks"
  by (cases v) (auto simp: exactObject_def split: if_split_asm)

lemma assertHeader_Inr: "assertHeader v = Inr h \<Longrightarrow> v = JObj h"
  by (auto simp: assertHeader_def Let_def bind_r_Inr_iff dest!: exactObject_Inr split: if_split_asm)

lemma assertStatement_Inr:
  "assertStatement v = Inr s \<Longrightarrow> v = JObj (fst s) \<and> fld (fst s) ''header'' = JObj (snd s)"
  by (auto simp: assertStatement_def bind_r_Inr_iff dest!: exactObject_Inr assertHeader_Inr split: if_split_asm)

lemma envelope_height:
  assumes "assertEvidenceEnvelope cr v = Inr q"
  shows "atLeast 1 (fld (eq_object q) ''height'')" and "v = JObj (eq_object q)"
proof -
  obtain e where e: "exactObject v EVIDENCE_FIELDS ''validator equivocation evidence'' = Inr e"
    using assms by (auto simp: assertEvidenceEnvelope_def bind_r_Inr_iff)
  have q: "atLeast 1 (fld (eq_object q) ''height'') \<and> eq_object q = e"
    using assms by (auto simp: assertEvidenceEnvelope_def bind_r_Inr_iff e split: jsval.split_asm list.split_asm if_split_asm)
  then show "atLeast 1 (fld (eq_object q) ''height'')" by (rule conjunct1)
  from q exactObject_Inr [OF e] show "v = JObj (eq_object q)" by simp
qed

text \<open>
  What convicts a validator: two headers of one height and parent with different hashes, both of
  whose hashes it signed as prepare votes of one round.
\<close>

definition equivocated :: "crypto \<Rightarrow> member \<Rightarrow> jsobj \<Rightarrow> jsobj \<Rightarrow> jsval \<Rightarrow> bool" where
  "equivocated cr m H H' round \<longleftrightarrow> (\<exists>hash hash' sig sig'.
     blockHeaderHash cr H = Inr hash \<and> blockHeaderHash cr H' = Inr hash' \<and> hash \<noteq> hash' \<and>
     fld H' ''height'' = fld H ''height'' \<and> strict_eq (fld H ''previousHash'') (fld H' ''previousHash'') \<and>
     verifyObject cr (preparePayload hash (fld H ''height'') round) sig (mb_publicKey m) ''BLOCK_PREPARE'' \<and>
     verifyObject cr (preparePayload hash' (fld H' ''height'') round) sig' (mb_publicKey m) ''BLOCK_PREPARE'')"

lemma safe_strict_eq: "strict_eq a b \<Longrightarrow> atLeast n a \<or> atLeast n b \<Longrightarrow> 0 < n \<Longrightarrow> a = b"
  by (cases a; cases b) (auto simp: atLeast_def split: option.split_asm if_split_asm)

lemma strict_eq_text: "strict_eq a (JStr s) \<Longrightarrow> a = JStr s"
  by (cases a) auto

lemma metadata_Inr:
  assumes "verifyEvidenceMetadata cr q = Inr u"
  obtains hash hash' where "blockHeaderHash cr (snd (eq_left q)) = Inr hash" "blockHeaderHash cr (snd (eq_right q)) = Inr hash'"
    "hash < hash'" "fld (fst (eq_left q)) ''blockHash'' = JStr hash" "fld (fst (eq_right q)) ''blockHash'' = JStr hash'"
    "strict_eq (fld (snd (eq_left q)) ''height'') (fld (eq_object q) ''height'')"
    "strict_eq (fld (snd (eq_right q)) ''height'') (fld (eq_object q) ''height'')"
    "strict_eq (fld (snd (eq_left q)) ''networkId'') (fld (eq_object q) ''networkId'')"
    "strict_eq (fld (snd (eq_right q)) ''networkId'') (fld (eq_object q) ''networkId'')"
    "strict_eq (fld (snd (eq_left q)) ''previousHash'') (fld (snd (eq_right q)) ''previousHash'')"
proof -
  have "\<exists>hash hash'. blockHeaderHash cr (snd (eq_left q)) = Inr hash \<and> blockHeaderHash cr (snd (eq_right q)) = Inr hash' \<and>
      fld (fst (eq_left q)) ''blockHash'' = JStr hash \<and> fld (fst (eq_right q)) ''blockHash'' = JStr hash' \<and>
      coerced (fld (fst (eq_left q)) ''blockHash'') < coerced (fld (fst (eq_right q)) ''blockHash'') \<and>
      strict_eq (fld (snd (eq_left q)) ''height'') (fld (eq_object q) ''height'') \<and>
      strict_eq (fld (snd (eq_right q)) ''height'') (fld (eq_object q) ''height'') \<and>
      strict_eq (fld (snd (eq_left q)) ''networkId'') (fld (eq_object q) ''networkId'') \<and>
      strict_eq (fld (snd (eq_right q)) ''networkId'') (fld (eq_object q) ''networkId'') \<and>
      strict_eq (fld (snd (eq_left q)) ''previousHash'') (fld (snd (eq_right q)) ''previousHash'')"
    using assms by (auto simp: verifyEvidenceMetadata_def Let_def bind_r_Inr_iff checkContext_def split: if_split_asm)
  then show thesis using that by auto
qed

lemma metadata_hash:
  assumes "verifyEvidenceMetadata cr q = Inr u"
  obtains k where "fld (eq_object q) ''evidenceHash'' = JStr k"
    and "hashObject cr (JObj (evidencePayload (eq_object q))) ''VALIDATOR_EQUIVOCATION_V2'' = Inr k"
  using assms by (auto simp: verifyEvidenceMetadata_def Let_def bind_r_Inr_iff map_err_Inr_iff split: if_split_asm)

text \<open>Headers with one canonical text have one hash.\<close>

lemma canonical_hash:
  assumes "canonicalJson cr (JObj a) = Inr t" and "canonicalJson cr (JObj b) = Inr t"
  shows "blockHeaderHash cr a = blockHeaderHash cr b"
proof -
  have a: "strictCanonicalJson (nfc cr) (to_cval (JObj a)) = Inr t" and b: "strictCanonicalJson (nfc cr) (to_cval (JObj b)) = Inr t"
    using assms by (simp_all add: canonicalJson_def map_err_Inr_iff)
  have "consensusValueBytes (nfc cr) (to_cval (JObj a)) = consensusValueBytes (nfc cr) (to_cval (JObj b))"
    using printed_within(3) [OF a] printed_within(3) [OF b] canonical_json_inj [OF a b] by simp
  then show ?thesis
    by (simp add: blockHeaderHash_def hashObject_def domainPayload_def consensusEnvelopeBytes_def)
qed

lemma evidence_Inr:
  assumes "verifyFinalizedValidatorEquivocationEvidence cr evidence header finalRound bonds validators = Inr p"
  obtains q m where "assertEvidenceEnvelope cr evidence = Inr q" "find (\<lambda>m. mb_address m = pn_validator p) validators = Some m"
    "fld (eq_object q) ''validator'' = JStr (pn_validator p)"
    "pn_bond p = jget_or 0 bonds (pn_validator p)" "MIN_VALIDATOR_BOND \<le> pn_bond p"
    "pn_evidenceHash p = coerced (fld (eq_object q) ''evidenceHash'')"
    "verifyEvidenceMetadata cr q = Inr ()" "strict_eq (fld (eq_object q) ''height'') (fld header ''height'')"
    "strict_eq (fld (eq_object q) ''round'') finalRound"
    "prepareSigned cr (eq_object q) (mb_publicKey m) (eq_left q)" "prepareSigned cr (eq_object q) (mb_publicKey m) (eq_right q)"
    "blockHeaderHash cr (snd (eq_left q)) = blockHeaderHash cr header \<or> blockHeaderHash cr (snd (eq_right q)) = blockHeaderHash cr header"
proof -
  obtain q where q: "assertEvidenceEnvelope cr evidence = Inr q"
    using assms by (auto simp: verifyFinalizedValidatorEquivocationEvidence_def bind_r_Inr_iff)
  obtain f where "assertHeader (JObj header) = Inr f"
    using assms by (auto simp: verifyFinalizedValidatorEquivocationEvidence_def bind_r_Inr_iff q)
  then have f: "assertHeader (JObj header) = Inr header" using assertHeader_Inr by blast
  obtain v where v: "fld (eq_object q) ''validator'' = JStr v"
    using assms by (auto simp: verifyFinalizedValidatorEquivocationEvidence_def bind_r_Inr_iff q f Let_def
      split: jsval.split_asm if_split_asm)
  obtain m where m: "find (\<lambda>m. mb_address m = v) validators = Some m"
    using assms by (auto simp: verifyFinalizedValidatorEquivocationEvidence_def bind_r_Inr_iff q f Let_def v
      split: option.split_asm if_split_asm)
  have run: "strict_eq (fld (eq_object q) ''height'') (fld header ''height'') \<and> strict_eq (fld (eq_object q) ''round'') finalRound \<and>
      MIN_VALIDATOR_BOND \<le> jget_or 0 bonds v \<and> verifyEvidenceMetadata cr q = Inr () \<and>
      prepareSigned cr (eq_object q) (mb_publicKey m) (eq_left q) \<and> prepareSigned cr (eq_object q) (mb_publicKey m) (eq_right q) \<and>
      (\<exists>t l r. canonicalJson cr (JObj header) = Inr t \<and> canonicalJson cr (JObj (snd (eq_left q))) = Inr l \<and>
         canonicalJson cr (JObj (snd (eq_right q))) = Inr r \<and> (l = t \<or> r = t)) \<and>
      p = \<lparr>pn_bond = jget_or 0 bonds v, pn_evidenceHash = coerced (fld (eq_object q) ''evidenceHash''), pn_validator = v\<rparr>"
    using assms by (auto simp: verifyFinalizedValidatorEquivocationEvidence_def bind_r_Inr_iff q f Let_def v m
      split: if_split_asm)
  then have hash: "blockHeaderHash cr (snd (eq_left q)) = blockHeaderHash cr header \<or> blockHeaderHash cr (snd (eq_right q)) = blockHeaderHash cr header"
    using canonical_hash by blast
  show thesis
    by (rule that [OF q]) (use run m hash v in auto)
qed

lemma penalty_bond:
  assumes "verifyFinalizedValidatorEquivocationEvidence cr evidence header finalRound bonds validators = Inr p"
  shows "pn_bond p = jget_or 0 bonds (pn_validator p) \<and> MIN_VALIDATOR_BOND \<le> pn_bond p"
  by (rule evidence_Inr [OF assms]) (intro conjI; assumption)

lemma equivocation_envelope_Inr:
  assumes "verifyValidatorEquivocationTransactionEnvelope cr tx networkId = Inr (sender, q)"
  shows "fld tx ''sender'' = JStr sender" and "assertEvidenceEnvelope cr (fld tx ''evidence'') = Inr q"
    and "fld (eq_object q) ''networkId'' = JStr networkId"
    and "\<And>field fee. amountOf (fld tx ''fee'') field = Inr fee \<Longrightarrow> MIN_TRANSFER_FEE \<le> fee"
proof -
  have env: "assertEvidenceEnvelope cr (fld tx ''evidence'') = Inr q \<and> fld tx ''sender'' = JStr sender \<and>
      fld (eq_object q) ''networkId'' = JStr networkId \<and> (\<exists>fee. fld tx ''fee'' = JStr fee \<and> MIN_TRANSFER_FEE \<le> dec_value fee)"
    using assms by (auto simp: verifyValidatorEquivocationTransactionEnvelope_def bind_r_Inr_iff
      split: if_split_asm option.split_asm jsval.split_asm)
  then show "fld tx ''sender'' = JStr sender" "assertEvidenceEnvelope cr (fld tx ''evidence'') = Inr q"
    "fld (eq_object q) ''networkId'' = JStr networkId" by simp_all
  show "MIN_TRANSFER_FEE \<le> fee" if "amountOf (fld tx ''fee'') field = Inr fee" for field fee
    using that env by (auto simp: amountOf_Inr parseAtomic_Inr_iff)
qed

lemma equivocation_Inr:
  assumes "applyValidatorEquivocation cr cx fc tx L = Inr L'"
  obtains sender fee header p q where "fld tx ''sender'' = JStr sender"
    "safe_int (fld tx ''nonce'') = Some (jget_or 0 (lg_nonces L) sender)" "MIN_TRANSFER_FEE \<le> fee"
    "fee \<le> jget_or 0 (lg_balances L) sender" "blockHeader cr (fc_block fc) = Inr header"
    "assertEvidenceEnvelope cr (fld tx ''evidence'') = Inr q" "fld (eq_object q) ''networkId'' = JStr (cx_networkId cx)"
    "\<not> vhas (vb_evidence (lg_validators L)) (fld (eq_object q) ''evidenceHash'')"
    "verifyFinalizedValidatorEquivocationEvidence cr (fld tx ''evidence'') header (finalizedRound (fc_block fc))
       (vb_bonds (lg_validators L)) (evidenceValidators cx fc) = Inr p"
    "L' = L\<lparr>lg_balances := payFee sender (jget_or 0 (lg_balances L) sender - fee) (cx_feeRecipient cx) fee (lg_balances L),
        lg_nonces := jset sender (jget_or 0 (lg_nonces L) sender + 1) (lg_nonces L),
        lg_validators := slashValidator p (lg_validators L), lg_burned := lg_burned L + pn_bond p\<rparr>"
proof -
  obtain sender q fee header p where e: "verifyValidatorEquivocationTransactionEnvelope cr tx (cx_networkId cx) = Inr (sender, q)"
    and r: "safe_int (fld tx ''nonce'') = Some (jget_or 0 (lg_nonces L) sender)"
      "\<not> vhas (vb_evidence (lg_validators L)) (fld (eq_object q) ''evidenceHash'')"
      "amountOf (fld tx ''fee'') ''fee'' = Inr fee" "fee \<le> jget_or 0 (lg_balances L) sender" "blockHeader cr (fc_block fc) = Inr header"
      "verifyFinalizedValidatorEquivocationEvidence cr (fld tx ''evidence'') header (finalizedRound (fc_block fc))
         (vb_bonds (lg_validators L)) (evidenceValidators cx fc) = Inr p"
      "L' = L\<lparr>lg_balances := payFee sender (jget_or 0 (lg_balances L) sender - fee) (cx_feeRecipient cx) fee (lg_balances L),
          lg_nonces := jset sender (jget_or 0 (lg_nonces L) sender + 1) (lg_nonces L),
          lg_validators := slashValidator p (lg_validators L), lg_burned := lg_burned L + pn_bond p\<rparr>"
    using assms by (auto simp: applyValidatorEquivocation_def Let_def bind_r_Inr_iff expectNonce_Inr not_less
      split: if_split_asm)
  show thesis
    by (rule that) (use equivocation_envelope_Inr [OF e] r in auto)
qed

lemma slash_simps [simp]:
  "vb_bonds (slashValidator p v) = jdel (pn_validator p) (vb_bonds v)"
  "vb_registered (slashValidator p v) = vb_registered v" "vb_exits (slashValidator p v) = vb_exits v"
  "vb_retired (slashValidator p v) = vb_retired v" "vb_admissions (slashValidator p v) = vb_admissions v"
  "vb_disabled (slashValidator p v) = jadd (pn_validator p) (vb_disabled v)"
  "vb_evidence (slashValidator p v) = jadd (pn_evidenceHash p) (vb_evidence v)"
  by (simp_all add: slashValidator_def)

lemma equivocation_keeps:
  assumes "applyValidatorEquivocation cr cx fc tx L = Inr L'"
  shows "keeps tx L L'"
  using assms
proof (rule equivocation_Inr)
  fix sender fee header p q
  assume a: "fld tx ''sender'' = JStr sender" "safe_int (fld tx ''nonce'') = Some (jget_or 0 (lg_nonces L) sender)"
    and fee: "MIN_TRANSFER_FEE \<le> fee" "fee \<le> jget_or 0 (lg_balances L) sender"
    and v: "verifyFinalizedValidatorEquivocationEvidence cr (fld tx ''evidence'') header (finalizedRound (fc_block fc))
       (vb_bonds (lg_validators L)) (evidenceValidators cx fc) = Inr p"
    and L': "L' = L\<lparr>lg_balances := payFee sender (jget_or 0 (lg_balances L) sender - fee) (cx_feeRecipient cx) fee (lg_balances L),
        lg_nonces := jset sender (jget_or 0 (lg_nonces L) sender + 1) (lg_nonces L),
        lg_validators := slashValidator p (lg_validators L), lg_burned := lg_burned L + pn_bond p\<rparr>"
  have bond: "pn_bond p = jget_or 0 (vb_bonds (lg_validators L)) (pn_validator p)" "0 \<le> pn_bond p"
    using penalty_bond [OF v] by (simp_all add: MIN_VALIDATOR_BOND_def)
  have burn: "solvent (vb_bonds (lg_validators L)) \<Longrightarrow> jtotal (jdel (pn_validator p) (vb_bonds (lg_validators L))) =
      jtotal (vb_bonds (lg_validators L)) - pn_bond p"
    using bond(1) by (simp add: jtotal_jdel [OF no_debt_jwf])
  show "keeps tx L L'"
    by (intro keepsI [OF a]) (use fee bond(2) burn in
      \<open>simp_all add: L' ledger_ok_def ledger_rules worth_rules MIN_TRANSFER_FEE_def\<close>)
qed

text \<open>
  C9: A validator is punished for equivocation only when the evidence names it and holds two headers
  of this network, of the finalized block's height and of one parent, one of them the finalized
  block's, whose different hashes the validator's own key verifies as prepare votes of the round in
  which the block was finalized. The punishment burns its whole bond of at least the minimum, which no
  other validator's bond changes, disables it, and marks the evidence, which was not used before, as
  used by its hash.
\<close>

theorem equivocation_punishment_justified:
  assumes "applyValidatorEquivocation cr cx fc tx L = Inr L'"
  shows "\<exists>e k m H H' round. fld tx ''evidence'' = JObj e \<and> fld e ''validator'' = JStr (mb_address m) \<and>
    m \<in> set (evidenceValidators cx fc) \<and> equivocated cr m H H' round \<and>
    fld H ''height'' = fld (fc_block fc) ''height'' \<and> strict_eq round (finalizedRound (fc_block fc)) \<and>
    fld H ''networkId'' = JStr (cx_networkId cx) \<and> fld H' ''networkId'' = JStr (cx_networkId cx) \<and>
    (blockHeaderHash cr H = blockHash cr (fc_block fc) \<or> blockHeaderHash cr H' = blockHash cr (fc_block fc)) \<and>
    MIN_VALIDATOR_BOND \<le> jget_or 0 (vb_bonds (lg_validators L)) (mb_address m) \<and>
    lg_burned L' = lg_burned L + jget_or 0 (vb_bonds (lg_validators L)) (mb_address m) \<and>
    vb_bonds (lg_validators L') = jdel (mb_address m) (vb_bonds (lg_validators L)) \<and>
    vb_disabled (lg_validators L') = jadd (mb_address m) (vb_disabled (lg_validators L)) \<and>
    fld e ''evidenceHash'' = JStr k \<and> hashObject cr (JObj (evidencePayload e)) ''VALIDATOR_EQUIVOCATION_V2'' = Inr k \<and>
    \<not> jhas (vb_evidence (lg_validators L)) k \<and> vb_evidence (lg_validators L') = jadd k (vb_evidence (lg_validators L))"
  using assms
proof (rule equivocation_Inr)
  fix sender fee header p q
  assume header: "blockHeader cr (fc_block fc) = Inr header"
    and q: "assertEvidenceEnvelope cr (fld tx ''evidence'') = Inr q"
    and net: "fld (eq_object q) ''networkId'' = JStr (cx_networkId cx)"
    and fresh: "\<not> vhas (vb_evidence (lg_validators L)) (fld (eq_object q) ''evidenceHash'')"
    and v: "verifyFinalizedValidatorEquivocationEvidence cr (fld tx ''evidence'') header (finalizedRound (fc_block fc))
       (vb_bonds (lg_validators L)) (evidenceValidators cx fc) = Inr p"
    and L': "L' = L\<lparr>lg_balances := payFee sender (jget_or 0 (lg_balances L) sender - fee) (cx_feeRecipient cx) fee (lg_balances L),
        lg_nonces := jset sender (jget_or 0 (lg_nonces L) sender + 1) (lg_nonces L),
        lg_validators := slashValidator p (lg_validators L), lg_burned := lg_burned L + pn_bond p\<rparr>"
  let ?e = "eq_object q" and ?H = "snd (eq_left q)" and ?H' = "snd (eq_right q)"
  have low: "atLeast 1 (fld ?e ''height'')" by (rule envelope_height [OF q])
  have height: "fld header ''height'' = fld (fc_block fc) ''height''" by (rule blockHeader_Inr [OF header]) simp
  have block: "blockHash cr (fc_block fc) = blockHeaderHash cr header" by (simp add: blockHash_def header)
  show ?thesis
    using v
  proof (rule evidence_Inr)
    fix q' m
    assume "assertEvidenceEnvelope cr (fld tx ''evidence'') = Inr q'"
    then have [simp]: "q' = q" using q by simp
    assume m: "find (\<lambda>m. mb_address m = pn_validator p) (evidenceValidators cx fc) = Some m"
      and accused: "fld (eq_object q') ''validator'' = JStr (pn_validator p)"
      and bond: "pn_bond p = jget_or 0 (vb_bonds (lg_validators L)) (pn_validator p)" "MIN_VALIDATOR_BOND \<le> pn_bond p"
      and used: "pn_evidenceHash p = coerced (fld (eq_object q') ''evidenceHash'')"
      and meta: "verifyEvidenceMetadata cr q' = Inr ()"
      and final: "strict_eq (fld (eq_object q') ''height'') (fld header ''height'')"
        "strict_eq (fld (eq_object q') ''round'') (finalizedRound (fc_block fc))"
      and signed: "prepareSigned cr (eq_object q') (mb_publicKey m) (eq_left q')" "prepareSigned cr (eq_object q') (mb_publicKey m) (eq_right q')"
      and tip: "blockHeaderHash cr (snd (eq_left q')) = blockHeaderHash cr header \<or> blockHeaderHash cr (snd (eq_right q')) = blockHeaderHash cr header"
    from m have member: "m \<in> set (evidenceValidators cx fc)" "mb_address m = pn_validator p"
      by (auto simp: find_Some_iff)
    obtain k where k: "fld ?e ''evidenceHash'' = JStr k" "hashObject cr (JObj (evidencePayload ?e)) ''VALIDATOR_EQUIVOCATION_V2'' = Inr k"
      using meta by (auto elim: metadata_hash)
    obtain hash hash' where h: "blockHeaderHash cr ?H = Inr hash" "blockHeaderHash cr ?H' = Inr hash'" "hash < hash'"
        "fld (fst (eq_left q)) ''blockHash'' = JStr hash" "fld (fst (eq_right q)) ''blockHash'' = JStr hash'"
        "strict_eq (fld ?H ''height'') (fld ?e ''height'')" "strict_eq (fld ?H' ''height'') (fld ?e ''height'')"
        "strict_eq (fld ?H ''networkId'') (fld ?e ''networkId'')" "strict_eq (fld ?H' ''networkId'') (fld ?e ''networkId'')"
        "strict_eq (fld ?H ''previousHash'') (fld ?H' ''previousHash'')"
      using meta by (auto elim: metadata_Inr)
    have heights: "fld ?H ''height'' = fld ?e ''height''" "fld ?H' ''height'' = fld ?e ''height''"
      "fld ?e ''height'' = fld header ''height''"
      using h(6,7) final(1) low safe_strict_eq [of _ _ 1] by simp_all
    have nets: "fld ?H ''networkId'' = JStr (cx_networkId cx)" "fld ?H' ''networkId'' = JStr (cx_networkId cx)"
      using h(8,9) net strict_eq_text by simp_all
    have "equivocated cr m ?H ?H' (fld ?e ''round'')"
      using h signed heights less_imp_neq [OF h(3)] unfolding equivocated_def prepareSigned_def preparePayload_def
      by (intro exI [of _ hash] exI [of _ hash']) auto
    then show ?thesis
      using member bond tip used fresh k accused final heights nets envelope_height(2) [OF q] height block
      by (intro exI [of _ ?e] exI [of _ k] exI [of _ m] exI [of _ ?H] exI [of _ ?H'] exI [of _ "fld ?e ''round''"])
         (simp add: L' vhas_def vget_def jhas_def)
  qed
qed

section \<open>A report to evaluate\<close>

lemma canonicalJson_ok:
  "keeps_ascii cr \<Longrightarrow> json_ok v \<Longrightarrow> canonicalJson cr v = Inr (text_of (canon (to_cval v)))"
  by (simp add: canonicalJson_def strictCanonicalJson_ok)

text \<open>A hash that tells apart the two headers below, of which one has an upgrade, by their lengths.\<close>

definition demo_sized :: crypto where
  "demo_sized = demo_crypto\<lparr>sha3_hex := (\<lambda>b. replicate 64 (if length b = 830 then CHR ''a'' else if length b = 838 then CHR ''b'' else CHR ''d''))\<rparr>"

lemma demo_sized_ascii: "keeps_ascii demo_sized"
  by (simp add: demo_sized_def demo_crypto_def keeps_ascii_def)

lemma demo_sized_hash:
  assumes "json_ok v" and "is_domain d"
  shows "hashObject demo_sized v d = Inr (replicate 64 (if 17 + length d + json_length v = 830 then CHR ''a''
    else if 17 + length d + json_length v = 838 then CHR ''b'' else CHR ''d''))"
  using hashObject_ok [OF demo_sized_ascii assms] json_within_length [of v 0] assms(1)
  by (simp add: demo_sized_def json_ok_def add.commute add.left_commute)

lemma demo_sized_verify:
  assumes "json_ok v" and "is_domain d"
  shows "verifyObject demo_sized v (JStr s) (JStr k) d"
  using domainPayload_ok [OF demo_sized_ascii assms] by (auto simp: verifyObject_def demo_sized_def demo_crypto_def)

definition demo_header :: "jsval \<Rightarrow> jsobj" where
  "demo_header upgrade = [(''bodyHash'', JStr (replicate 64 CHR ''d'')), (''accountStateRoot'', JStr (replicate 64 CHR ''a'')),
     (''capabilityMemoryRoot'', JStr (replicate 64 CHR ''a'')), (''format'', JStr ''nir-finality-header-v1''), (''height'', JNum 7),
     (''networkId'', JStr ''nir-test''), (''peerRegistryHash'', JStr (replicate 64 CHR ''a'')), (''previousHash'', JStr (replicate 64 CHR ''a'')),
     (''protocolUpgrade'', upgrade), (''protocolVersion'', JNum 24), (''stateRoot'', JStr (replicate 64 CHR ''a'')), (''timestamp'', JNum 5),
     (''transactionCount'', JNum 0), (''transactionsRoot'', JStr (replicate 64 CHR ''a''))]"

definition demo_tip :: jsobj where
  "demo_tip = [(''accountStateRoot'', JStr (replicate 64 CHR ''a'')),
     (''capabilityMemoryRoot'', JStr (replicate 64 CHR ''a'')), (''height'', JNum 7),
     (''networkId'', JStr ''nir-test''), (''peerRegistryHash'', JStr (replicate 64 CHR ''a'')), (''previousHash'', JStr (replicate 64 CHR ''a'')),
     (''prepareCertificate'', JArr [JObj [(''round'', JNum 0)]]),
     (''protocolUpgrade'', JNull), (''protocolVersion'', JNum 24), (''stateRoot'', JStr (replicate 64 CHR ''a'')), (''timestamp'', JNum 5),
     (''transactionCount'', JNum 0), (''transactionsRoot'', JStr (replicate 64 CHR ''a'')), (''feeRecipient'', JStr ''e'')]"

definition demo_statement :: "char \<Rightarrow> jsval \<Rightarrow> jsobj" where
  "demo_statement c upgrade = [(''blockHash'', JStr (replicate 64 c)), (''header'', JObj (demo_header upgrade)), (''signature'', JStr ''sig'')]"

definition demo_evidence :: jsobj where
  "demo_evidence = [(''evidenceHash'', JStr (replicate 64 CHR ''d'')), (''format'', JStr ''nir-validator-prepare-equivocation-v2''),
     (''height'', JNum 7), (''nativePenaltyAvailable'', JBool True), (''networkId'', JStr ''nir-test''), (''round'', JNum 0),
     (''statements'', JArr [JObj (demo_statement CHR ''a'' JNull), JObj (demo_statement CHR ''b'' (JNum 0))]),
     (''validator'', JStr (demo_address CHR ''e''))]"

definition demo_report :: jsobj where
  "demo_report = [(''evidence'', JObj demo_evidence), (''fee'', JStr ''1000''), (''algorithm'', JStr SIGNATURE_ALGORITHM),
     (''networkId'', JStr ''nir-test''), (''nonce'', JNum 0), (''publicKey'', JStr ''d''), (''sender'', JStr (demo_address CHR ''d'')),
     (''signature'', JStr ''sig''), (''type'', JStr ''validator-equivocation'')]"

definition demo_accused :: member where
  "demo_accused = \<lparr>mb_address = demo_address CHR ''e'', mb_algorithm = SIGNATURE_ALGORITHM, mb_operatorId = JStr ''op'', mb_publicKey = JStr ''k''\<rparr>"

definition demo_watch :: chain_context where
  "demo_watch = demo_context\<lparr>cx_validators := [(demo_address CHR ''e'', demo_accused)]\<rparr>"

definition demo_finalized :: finalized_context where
  "demo_finalized = \<lparr>fc_protocolVersion = 24, fc_recentTransition = None, fc_block = demo_tip\<rparr>"

definition demo_bonded :: ledger where
  "demo_bonded = empty_ledger\<lparr>lg_balances := [(demo_address CHR ''d'', 5000)],
     lg_validators := (lg_validators empty_ledger)\<lparr>vb_bonds := [(demo_address CHR ''e'', MIN_VALIDATOR_BOND)]\<rparr>\<rparr>"

definition demo_proof :: equivocation where
  "demo_proof = \<lparr>eq_object = demo_evidence, eq_left = (demo_statement CHR ''a'' JNull, demo_header JNull),
     eq_right = (demo_statement CHR ''b'' (JNum 0), demo_header (JNum 0))\<rparr>"

lemma demo_jsons:
  "json_ok (JObj (demo_header JNull))" "json_ok (JObj (demo_header (JNum 0)))" "json_ok (JObj demo_evidence)"
  "json_ok (JObj (evidencePayload demo_evidence))" "json_ok (JObj (omit [''signature''] demo_report))"
  by code_simp+

lemma demo_asserted:
  "assertHeader (JObj (demo_header JNull)) = Inr (demo_header JNull)"
  "assertHeader (JObj (demo_header (JNum 0))) = Inr (demo_header (JNum 0))"
  by code_simp+

lemma demo_hashes:
  "blockHeaderHash demo_sized (demo_header JNull) = Inr (replicate 64 CHR ''a'')"
  "blockHeaderHash demo_sized (demo_header (JNum 0)) = Inr (replicate 64 CHR ''b'')"
  "hashObject demo_sized (JObj (evidencePayload demo_evidence)) ''VALIDATOR_EQUIVOCATION_V2'' = Inr (replicate 64 CHR ''d'')"
proof -
  have l: "json_length (JObj (demo_header JNull)) = 808" "json_length (JObj (demo_header (JNum 0))) = 816"
    "json_length (JObj (evidencePayload demo_evidence)) = 2125" by code_simp+
  have d: "is_domain ''BLOCK''" "is_domain ''VALIDATOR_EQUIVOCATION_V2''" by code_simp+
  show "blockHeaderHash demo_sized (demo_header JNull) = Inr (replicate 64 CHR ''a'')"
    "blockHeaderHash demo_sized (demo_header (JNum 0)) = Inr (replicate 64 CHR ''b'')"
    "hashObject demo_sized (JObj (evidencePayload demo_evidence)) ''VALIDATOR_EQUIVOCATION_V2'' = Inr (replicate 64 CHR ''d'')"
    using demo_sized_hash [OF demo_jsons(1) d(1)] demo_sized_hash [OF demo_jsons(2) d(1)] demo_sized_hash [OF demo_jsons(4) d(2)]
    by (simp_all add: blockHeaderHash_def l del: json_length.simps)
qed

lemma demo_enveloped: "assertEvidenceEnvelope demo_sized (JObj demo_evidence) = Inr demo_proof"
proof -
  have s: "assertStatement (JObj (demo_statement CHR ''a'' JNull)) = Inr (demo_statement CHR ''a'' JNull, demo_header JNull)"
    "assertStatement (JObj (demo_statement CHR ''b'' (JNum 0))) = Inr (demo_statement CHR ''b'' (JNum 0), demo_header (JNum 0))"
    by code_simp+
  have e: "exactObject (JObj demo_evidence) EVIDENCE_FIELDS ''validator equivocation evidence'' = Inr demo_evidence"
    by code_simp
  have f: "is_address (demo_address CHR ''e'')" "is_hex64 (replicate 64 CHR ''d'')" "bounded_text 128 (JStr ''nir-test'')"
    "atLeast 1 (JNum 7)" "atLeast 0 (JNum 0)" by code_simp+
  have v: "fld demo_evidence ''statements'' = JArr [JObj (demo_statement CHR ''a'' JNull), JObj (demo_statement CHR ''b'' (JNum 0))]"
    "fld demo_evidence ''format'' = JStr ''nir-validator-prepare-equivocation-v2''" "fld demo_evidence ''nativePenaltyAvailable'' = JBool True"
    "fld demo_evidence ''validator'' = JStr (demo_address CHR ''e'')" "fld demo_evidence ''networkId'' = JStr ''nir-test''"
    "fld demo_evidence ''height'' = JNum 7" "fld demo_evidence ''round'' = JNum 0"
    "fld demo_evidence ''evidenceHash'' = JStr (replicate 64 CHR ''d'')"
    by (simp_all add: demo_evidence_def fld_def)
  have "plain_text (JObj demo_evidence)" "text_size (JObj demo_evidence) \<le> MAX_EQUIVOCATION_EVIDENCE_BYTES" by code_simp+
  with small_text_bytes [OF plain_text_small] have "length (utf8 (map unat (text_of (canon (to_cval (JObj demo_evidence))))))
      \<le> MAX_EQUIVOCATION_EVIDENCE_BYTES" by (meson order_trans)
  then show ?thesis
    using canonicalJson_ok [OF demo_sized_ascii demo_jsons(3)]
    by (simp add: assertEvidenceEnvelope_def e s f v demo_proof_def del: to_cval.simps canon.simps text_of.simps)
qed

lemma demo_tip_header:
  "blockHeader demo_sized demo_tip = Inr [(''bodyHash'', JStr (replicate 64 CHR ''d'')), (''accountStateRoot'', JStr (replicate 64 CHR ''a'')),
     (''capabilityMemoryRoot'', JStr (replicate 64 CHR ''a'')), (''format'', JStr ''nir-finality-header-v1''), (''height'', JNum 7),
     (''networkId'', JStr ''nir-test''), (''peerRegistryHash'', JStr (replicate 64 CHR ''a'')), (''previousHash'', JStr (replicate 64 CHR ''a'')),
     (''protocolUpgrade'', JNull), (''protocolVersion'', JNum 24), (''stateRoot'', JStr (replicate 64 CHR ''a'')), (''timestamp'', JNum 5),
     (''transactionCount'', JNum 0), (''transactionsRoot'', JStr (replicate 64 CHR ''a''))]"
proof -
  have j: "json_ok (JObj [(''feeRecipient'', JStr ''e'')])" "is_domain ''BLOCK_BODY''"
    "17 + length ''BLOCK_BODY'' + json_length (JObj [(''feeRecipient'', JStr ''e'')]) < 830" by code_simp+
  have "hashObject demo_sized (JObj [(''feeRecipient'', JStr ''e'')]) ''BLOCK_BODY'' = Inr (replicate 64 CHR ''d'')"
    using demo_sized_hash [OF j(1,2)] j(3) by simp
  moreover have "finalityHeaderFormat 24 = Inr ''nir-finality-header-v1''" by code_simp
  moreover have "omit HEADER_FIELDS (unsignedBlock demo_tip) = [(''feeRecipient'', JStr ''e'')]"
    by (simp add: omit_def HEADER_FIELDS_def unsignedBlock_def demo_tip_def)
  ultimately show ?thesis
    by (simp add: blockHeader_def demo_tip_def fld_def
        RECOVERY_STATE_COMMITMENT_PROTOCOL_VERSION_def EVALUATION_ASSIGNMENT_ROOT_PROTOCOL_VERSION_def
        CHAIN_IDENTITY_CHECKPOINT_PROTOCOL_VERSION_def)
qed

lemma demo_header_texts:
  "\<exists>t u h. canonicalJson demo_sized (JObj (demo_header JNull)) = Inr t \<and> canonicalJson demo_sized (JObj (demo_header (JNum 0))) = Inr u \<and>
     t \<noteq> u \<and> blockHeader demo_sized demo_tip = Inr h \<and> assertHeader (JObj h) = Inr h \<and> canonicalJson demo_sized (JObj h) = Inr t \<and>
     fld h ''networkId'' = JStr ''nir-test'' \<and> fld h ''height'' = JNum 7"
proof -
  let ?t = "text_of (canon (to_cval (JObj (demo_header JNull))))" and ?u = "text_of (canon (to_cval (JObj (demo_header (JNum 0)))))"
  note texts = canonicalJson_ok [OF demo_sized_ascii demo_jsons(1)] canonicalJson_ok [OF demo_sized_ascii demo_jsons(2)]
  have "?t \<noteq> ?u"
  proof
    assume "?t = ?u"
    with texts canonical_hash [of demo_sized "demo_header JNull" ?t "demo_header (JNum 0)"]
    have "replicate 64 CHR ''a'' = replicate 64 CHR ''b''" by (simp only: demo_hashes sum.inject)
    then show False by simp
  qed
  moreover have "demo_header JNull = the_tip_header" if "blockHeader demo_sized demo_tip = Inr the_tip_header" for the_tip_header
    using that unfolding demo_tip_header by (simp add: demo_header_def)
  ultimately show ?thesis
    using texts demo_tip_header demo_asserted(1)
    by (intro exI [of _ ?t] exI [of _ ?u] exI [of _ "demo_header JNull"])
      (simp add: demo_header_def fld_def del: to_cval.simps canon.simps text_of.simps)
qed

lemma demo_punished:
  "\<exists>L'. applyValidatorEquivocation demo_sized demo_watch demo_finalized demo_report demo_bonded = Inr L'"
proof -
  obtain t u h where t: "canonicalJson demo_sized (JObj (demo_header JNull)) = Inr t" "canonicalJson demo_sized (JObj (demo_header (JNum 0))) = Inr u"
    "t \<noteq> u" and h: "blockHeader demo_sized demo_tip = Inr h" "assertHeader (JObj h) = Inr h" "canonicalJson demo_sized (JObj h) = Inr t"
      "fld h ''networkId'' = JStr ''nir-test''" "fld h ''height'' = JNum 7"
    using demo_header_texts by blast
  have c: "keys_are demo_report EQUIVOCATION_FIELDS" "is_decimal ''1000''" "dec_value ''1000'' = 1000" "atLeast 0 (JNum 0)"
    "safe_int (JNum 0) = Some 0" "is_domain ''BLOCK_PREPARE''" "is_domain ''VALIDATOR_EQUIVOCATION_TRANSACTION''"
    "json_ok (JObj [(''blockHash'', JStr (replicate 64 CHR ''a'')), (''height'', JNum 7), (''round'', JNum 0)])"
    "json_ok (JObj [(''blockHash'', JStr (replicate 64 CHR ''b'')), (''height'', JNum 7), (''round'', JNum 0)])"
    "replicate 64 CHR ''a'' < replicate 64 CHR ''b''" by code_simp+
  have a: "addressFromPublicKey demo_sized (JStr ''d'') = Some (demo_address CHR ''d'')"
    by (simp add: addressFromPublicKey_def demo_sized_def demo_crypto_def demo_address_def ascii_def)
  have f: "fld demo_report ''evidence'' = JObj demo_evidence" "fld demo_report ''fee'' = JStr ''1000''" "fld demo_report ''nonce'' = JNum 0"
    "fld demo_report ''algorithm'' = JStr SIGNATURE_ALGORITHM" "fld demo_report ''networkId'' = JStr ''nir-test''"
    "fld demo_report ''publicKey'' = JStr ''d''" "fld demo_report ''sender'' = JStr (demo_address CHR ''d'')"
    "fld demo_report ''signature'' = JStr ''sig''" "fld demo_report ''type'' = JStr ''validator-equivocation''"
    by (simp_all add: demo_report_def fld_def)
  have e: "fld demo_evidence ''networkId'' = JStr ''nir-test''" "fld demo_evidence ''height'' = JNum 7" "fld demo_evidence ''round'' = JNum 0"
    "fld demo_evidence ''validator'' = JStr (demo_address CHR ''e'')" "fld demo_evidence ''evidenceHash'' = JStr (replicate 64 CHR ''d'')"
    by (simp_all add: demo_evidence_def fld_def)
  have s: "fld (demo_statement k x) ''blockHash'' = JStr (replicate 64 k)" "fld (demo_statement k x) ''signature'' = JStr ''sig''" for k x
    by (simp_all add: demo_statement_def fld_def)
  have hf: "fld (demo_header x) ''networkId'' = JStr ''nir-test''" "fld (demo_header x) ''height'' = JNum 7"
    "fld (demo_header x) ''previousHash'' = JStr (replicate 64 CHR ''a'')" for x
    by (simp_all add: demo_header_def fld_def)
  have p: "eq_object demo_proof = demo_evidence" "eq_left demo_proof = (demo_statement CHR ''a'' JNull, demo_header JNull)"
    "eq_right demo_proof = (demo_statement CHR ''b'' (JNum 0), demo_header (JNum 0))" by (simp_all add: demo_proof_def)
  have x: "cx_networkId demo_watch = ''nir-test''" by (simp add: demo_watch_def demo_context_def)
  have env: "verifyValidatorEquivocationTransactionEnvelope demo_sized demo_report ''nir-test'' = Inr (demo_address CHR ''d'', demo_proof)"
    using demo_sized_verify [OF demo_jsons(5) c(7)]
    by (simp add: verifyValidatorEquivocationTransactionEnvelope_def c f demo_enveloped e demo_proof_def a MIN_TRANSFER_FEE_def)
  have meta: "verifyEvidenceMetadata demo_sized demo_proof = Inr ()"
    by (simp add: verifyEvidenceMetadata_def checkContext_def demo_proof_def s c(10) demo_hashes e hf Let_def)
  have ev: "evidenceValidators demo_watch demo_finalized = [demo_accused]"
    by (simp add: evidenceValidators_def demo_finalized_def demo_watch_def jvalues_def)
  have final: "verifyFinalizedValidatorEquivocationEvidence demo_sized (JObj demo_evidence) h (JNum 0)
      [(demo_address CHR ''e'', MIN_VALIDATOR_BOND)] [demo_accused] =
      Inr \<lparr>pn_bond = MIN_VALIDATOR_BOND, pn_evidenceHash = replicate 64 CHR ''d'', pn_validator = demo_address CHR ''e''\<rparr>"
    using demo_sized_verify [OF c(8,6)] demo_sized_verify [OF c(9,6)] t meta
    by (simp add: verifyFinalizedValidatorEquivocationEvidence_def demo_enveloped h Let_def p e s hf demo_accused_def
      prepareSigned_def jget_or_def)
  have "finalizedRound demo_tip = JNum 0" by (simp add: finalizedRound_def demo_tip_def fld_def)
  with env final h(1) show ?thesis
    by (simp add: applyValidatorEquivocation_def x f demo_bonded_def empty_ledger_def Let_def expectNonce_def jget_or_def c
      demo_finalized_def ev [unfolded demo_finalized_def] amountOf_def vhas_def MAX_DECIMAL_DIGITS_def MAX_SAFE_INTEGER_def p e)
qed

theorem equivocation_punishment_justified_witness:
  "\<exists>L'. applyValidatorEquivocation demo_sized demo_watch demo_finalized demo_report demo_bonded = Inr L' \<and>
     lg_burned L' = MIN_VALIDATOR_BOND \<and> vb_bonds (lg_validators L') = []"
proof -
  obtain L' where run: "applyValidatorEquivocation demo_sized demo_watch demo_finalized demo_report demo_bonded = Inr L'"
    using demo_punished ..
  have "evidenceValidators demo_watch demo_finalized = [demo_accused]"
    by (simp add: evidenceValidators_def demo_finalized_def demo_watch_def jvalues_def)
  with equivocation_punishment_justified [OF run] run show ?thesis
    by (auto simp: demo_bonded_def empty_ledger_def demo_accused_def jget_or_def jdel_def)
qed

end
