(* ===== verification/Dispatch.thy ===== *)
theory Dispatch
  imports Accounts AccountHistory Assets Beacons Equivocation Handlers
begin

text \<open>
  The loop of \<open>NirChain.#applyBlock\<close> (\<open>blockchain/chain.mjs\<close>) over the transactions of a block: the
  checks on the members that retire, exit or wait for admission, the identifier and the refusal of a
  duplicate, the choice of the handler, and the history of every participant. Six types are refused
  here as \<open>Not_modelled\<close>, whose handlers rest on capability memory, on peer attestations or on recovery
  certificates. The main results: an accepted list of transactions makes and loses no value, uses the
  nonces of a sender one by one, and leaves in the history of every account exactly the identifiers of
  the transactions it takes part in, in order.
\<close>

section \<open>The handlers\<close>

datatype rejection =
    Rejected chain_error
  | History_refused history_error
  | Not_modelled string

definition UNMODELLED_TYPES :: "string list" where
  "UNMODELLED_TYPES = [''progress-commitment'', ''validator-admission'', ''validator-admission-readiness'',
     ''validator-admission-omission'', ''validator-recovery-plan'', ''validator-recovery'']"

text \<open>\<open>[...].includes(transaction.type)\<close>\<close>

definition typeIn :: "jsobj \<Rightarrow> string list \<Rightarrow> bool" where
  "typeIn tx ks \<longleftrightarrow> (case fld tx ''type'' of JStr t \<Rightarrow> t \<in> set ks | _ \<Rightarrow> False)"

text \<open>The sender, its operator or its key belongs to a retired validator.\<close>

definition retiredIdentity :: "jsobj \<Rightarrow> ledger \<Rightarrow> bool" where
  "retiredIdentity tx L \<longleftrightarrow> vhas (vb_retired (lg_validators L)) (fld tx ''sender'') \<or>
     list_ex (\<lambda>m. strict_eq (mb_operatorId m) (fld tx ''operatorId'') \<or> strict_eq (mb_publicKey m) (fld tx ''publicKey''))
       (jvalues (vb_retired (lg_validators L)))"

definition outsideRetired :: "jsobj \<Rightarrow> ledger \<Rightarrow> chain_error + ledger \<Rightarrow> chain_error + ledger" where
  "outsideRetired tx L result =
     (if retiredIdentity tx L
      then Inl (Refused ''retired validator identity cannot assume another protocol role'') else result)"

text \<open>The handler of a type, in two halves; a type that is not a string has no \<open>startsWith\<close>.\<close>

definition laterHandler :: "crypto \<Rightarrow> chain_context \<Rightarrow> int \<Rightarrow> jsobj \<Rightarrow> ledger \<Rightarrow> string \<Rightarrow> chain_error + ledger" where
  "laterHandler cr cx index tx L kind =
     (if kind = ''beacon-bond'' then outsideRetired tx L (applyBeaconBond cr cx tx L)
      else if kind = ''beacon-retire'' then applyBeaconRetirement cr cx tx L
      else if kind = ''credit-stake'' then applyCreditStake cr cx tx L
      else if kind = ''credit-delegation'' then applyCreditDelegation cr cx tx L
      else if kind = ''credit-unstake-request'' then applyCreditUnstakeRequest cr cx tx L
      else if kind = ''credit-unstake-claim'' then applyCreditUnstakeClaim cr cx tx L
      else if kind = ''proof-answer-commit'' \<or> kind = ''proof-answer-reveal'' then applyProofAnswer cr cx tx index L
      else if take 5 kind = ''name-'' then applyNameTransaction cr cx tx L
      else if take 6 kind = ''asset-'' then
        if cx_protocolVersion cx < 25 then Inl (Refused ''native assets require protocol version 25'')
        else applyNativeAssetTransaction cr cx tx L
      else Inl (Refused ''unknown transaction type''))"

definition handlerOf :: "crypto \<Rightarrow> chain_context \<Rightarrow> finalized_context \<Rightarrow> int \<Rightarrow> jsobj \<Rightarrow> ledger \<Rightarrow> string \<Rightarrow>
    chain_error + ledger" where
  "handlerOf cr cx fc index tx L kind =
     (if kind = ''transfer'' then applyTransfer cr cx tx L
      else if kind = ''candidate-bond'' then applyCandidateBond cr cx tx L
      else if kind = ''validator-bond'' then applyValidatorBond cr cx tx L
      else if kind = ''validator-exit-request'' then applyValidatorExitRequest cr cx tx L
      else if kind = ''validator-withdrawal-claim'' then applyValidatorWithdrawalClaim cr cx tx L
      else if kind = ''evaluator-bond'' then outsideRetired tx L (applyEvaluatorBond cr cx tx L)
      else if kind = ''validator-equivocation'' then applyValidatorEquivocation cr cx fc tx L
      else laterHandler cr cx index tx L kind)"

definition applyTransaction :: "crypto \<Rightarrow> chain_context \<Rightarrow> finalized_context \<Rightarrow> int \<Rightarrow> jsobj \<Rightarrow> ledger \<Rightarrow> rejection + ledger" where
  "applyTransaction cr cx fc index tx L =
     (case fld tx ''type'' of
        JStr kind \<Rightarrow>
          if kind \<in> set UNMODELLED_TYPES then Inl (Not_modelled kind)
          else map_err Rejected (handlerOf cr cx fc index tx L kind)
      | _ \<Rightarrow> Inl (Rejected Threw))"

section \<open>Roles in transition\<close>

definition requireFreeRole :: "jsobj \<Rightarrow> ledger \<Rightarrow> chain_error + unit" where
  "requireFreeRole tx L =
     (let sender = fld tx ''sender'' in
      if vhas (vb_retired (lg_validators L)) sender \<and>
         typeIn tx [''candidate-bond'', ''progress-commitment'', ''evaluator-bond'', ''beacon-bond'', ''validator-bond'',
           ''validator-exit-request'']
      then Inl (Refused ''retired validator identity cannot assume a protocol role'')
      else if vhas (vb_exits (lg_validators L)) sender \<and>
         typeIn tx [''candidate-bond'', ''progress-commitment'', ''evaluator-bond'', ''beacon-bond'', ''validator-bond'']
      then Inl (Refused ''exiting validator identity cannot create a protocol obligation'')
      else if vhas (vb_admissions (lg_validators L)) sender \<and>
         typeIn tx [''validator-exit-request'', ''validator-withdrawal-claim'', ''evaluator-bond'', ''beacon-bond'']
      then Inl (Refused ''pending validator admission conflicts with requested protocol role'')
      else Inr ())"

text \<open>
  What a block changes besides its transactions: a rotation of the validators, a recovery, or a rotation
  scheduled before that takes effect at its height.
\<close>

record membership_change =
  mc_rotation :: bool
  mc_recovery :: bool
  mc_activation :: bool

definition MAX_VALIDATOR_ADMISSIONS_PER_BLOCK :: nat where
  "MAX_VALIDATOR_ADMISSIONS_PER_BLOCK = 16"

text \<open>\<open>transactions.filter(({ type }) => ...)\<close> for values that are objects.\<close>

definition ofTypes :: "string list \<Rightarrow> jsval list \<Rightarrow> jsobj list" where
  "ofTypes ks transactions =
     filter (\<lambda>tx. typeIn tx ks) (concat (map (\<lambda>t. case t of JObj tx \<Rightarrow> [tx] | _ \<Rightarrow> []) transactions))"

definition membershipConflict :: "membership_change \<Rightarrow> jsval list \<Rightarrow> bool" where
  "membershipConflict mc transactions \<longleftrightarrow>
     mc_rotation mc \<or> mc_recovery mc \<or> mc_activation mc \<or> ofTypes [''validator-recovery-plan''] transactions \<noteq> []"

definition checkMembership :: "chain_context \<Rightarrow> membership_change \<Rightarrow> jsval list \<Rightarrow> chain_error + unit" where
  "checkMembership cx mc transactions =
     (let lifecycle = ofTypes [''validator-exit-request'', ''validator-withdrawal-claim''] transactions;
          admissions = ofTypes [''validator-admission'', ''validator-admission-readiness''] transactions in
      if list_ex (\<lambda>t. t = JUndef \<or> t = JNull) transactions then Inl Threw
      else if length admissions > MAX_VALIDATOR_ADMISSIONS_PER_BLOCK
      then Inl (Refused ''too many validator admissions in one block'')
      else if admissions \<noteq> [] \<and> (cx_protocolVersion cx < VALIDATOR_ADMISSION_QUEUE_PROTOCOL_VERSION \<or>
        membershipConflict mc transactions)
      then Inl (Refused ''validator admission conflicts with membership transition'')
      else if lifecycle \<noteq> [] \<and> (admissions \<noteq> [] \<or> cx_protocolVersion cx < VALIDATOR_EXIT_LIFECYCLE_PROTOCOL_VERSION \<or>
        membershipConflict mc transactions)
      then Inl (Refused ''validator lifecycle conflicts with membership transition'')
      else Inr ())"

section \<open>The loop\<close>

text \<open>The identifiers seen in the block, the ledger, and the histories of the accounts.\<close>

record block_state =
  bk_ids :: "string list"
  bk_ledger :: ledger
  bk_histories :: "(string, jsval) jsmap"

definition participants :: "jsobj \<Rightarrow> string list" where
  "participants tx = uniq (concat (map (\<lambda>v. case v of JStr a \<Rightarrow> if is_address a then [a] else [] | _ \<Rightarrow> [])
     [fld tx ''sender'', fld tx ''recipient'']))"

definition recordParticipant :: "crypto \<Rightarrow> string \<Rightarrow> (string, jsval) jsmap \<Rightarrow> string \<Rightarrow> history_error + (string, jsval) jsmap" where
  "recordParticipant cr i histories a =
     bind_r (case jget histories a of
         Some h \<Rightarrow> Inr h
       | None \<Rightarrow> bind_r (emptyAccountHistoryAccumulator cr) (\<lambda>h. Inr (JObj h))) (\<lambda>h.
     bind_r (appendAccountHistory cr h (JStr i)) (\<lambda>h'. Inr (jset a h' histories)))"

definition applyNext :: "crypto \<Rightarrow> chain_context \<Rightarrow> finalized_context \<Rightarrow> block_state \<Rightarrow> jsval \<Rightarrow> rejection + block_state" where
  "applyNext cr cx fc b transaction =
     bind_r (map_err Rejected (requireExactTransactionSchema transaction)) (\<lambda>tx.
     bind_r (map_err Rejected (requireFreeRole tx (bk_ledger b))) (\<lambda>_.
     bind_r (map_err Rejected (transactionId cr tx)) (\<lambda>i.
     if i \<in> set (bk_ids b) then Inl (Rejected (Refused ''duplicate transaction in block''))
     else bind_r (applyTransaction cr cx fc (int (length (bk_ids b))) tx (bk_ledger b)) (\<lambda>L.
          bind_r (map_err History_refused (foldM (recordParticipant cr i) (bk_histories b) (participants tx))) (\<lambda>histories.
          Inr \<lparr>bk_ids = bk_ids b @ [i], bk_ledger = L, bk_histories = histories\<rparr>)))))"

definition applyTransactions :: "crypto \<Rightarrow> chain_context \<Rightarrow> finalized_context \<Rightarrow> membership_change \<Rightarrow> jsval list \<Rightarrow> ledger \<Rightarrow>
    (string, jsval) jsmap \<Rightarrow> rejection + block_state" where
  "applyTransactions cr cx fc mc transactions L histories =
     bind_r (map_err Rejected (checkMembership cx mc transactions)) (\<lambda>_.
     foldM (applyNext cr cx fc) \<lparr>bk_ids = [], bk_ledger = L, bk_histories = histories\<rparr> transactions)"

section \<open>What the loop keeps\<close>

lemma outsideRetired_Inr [inversion]: "outsideRetired tx L r = Inr L' \<longleftrightarrow> \<not> retiredIdentity tx L \<and> r = Inr L'"
  by (simp add: outsideRetired_def)

lemmas handlers_keep = transfer_keeps candidate_bond_keeps validator_bond_keeps exit_request_keeps withdrawal_claim_keeps
  evaluator_bond_keeps equivocation_keeps beacon_bond_keeps beacon_retirement_keeps credit_stake_keeps credit_delegation_keeps
  credit_unstake_request_keeps credit_unstake_claim_keeps proof_answer_keeps name_transaction_keeps asset_keeps

lemma handler_keeps: "handlerOf cr cx fc index tx L kind = Inr L' \<Longrightarrow> keeps tx L L'"
  unfolding handlerOf_def laterHandler_def by (simp only: outsideRetired_Inr split: if_splits) ((erule handlers_keep notE [OF sum.distinct(1)]) | (erule conjE, erule handlers_keep))+

lemma apply_keeps: "applyTransaction cr cx fc index tx L = Inr L' \<Longrightarrow> keeps tx L L'"
  by (auto simp: applyTransaction_def map_err_Inr_iff split: jsval.splits if_splits dest: handler_keeps)

lemma plain_object_Some [inversion]: "plain_object v = Some tx \<longleftrightarrow> v = JObj tx"
  by (cases v) auto

lemma applyNext_Inr:
  assumes "applyNext cr cx fc b transaction = Inr b'"
  obtains tx i L histories where "transaction = JObj tx" and "transactionId cr tx = Inr i" and "i \<notin> set (bk_ids b)"
    and "applyTransaction cr cx fc (int (length (bk_ids b))) tx (bk_ledger b) = Inr L"
    and "foldM (recordParticipant cr i) (bk_histories b) (participants tx) = Inr histories"
    and "b' = \<lparr>bk_ids = bk_ids b @ [i], bk_ledger = L, bk_histories = histories\<rparr>"
proof -
  from assms obtain tx i where tx: "requireExactTransactionSchema transaction = Inr tx" "transactionId cr tx = Inr i"
    and "(if i \<in> set (bk_ids b) then Inl (Rejected (Refused ''duplicate transaction in block''))
     else bind_r (applyTransaction cr cx fc (int (length (bk_ids b))) tx (bk_ledger b)) (\<lambda>L.
          bind_r (map_err History_refused (foldM (recordParticipant cr i) (bk_histories b) (participants tx))) (\<lambda>histories.
          Inr \<lparr>bk_ids = bk_ids b @ [i], bk_ledger = L, bk_histories = histories\<rparr>))) = Inr b'"
    unfolding applyNext_def by (simp only: bind_r_Inr_iff map_err_Inr_iff) blast
  moreover have "transaction = JObj tx"
    using tx(1) by (auto simp: requireExactTransactionSchema_def Let_def plain_object_Some split: option.splits if_splits)
  ultimately show thesis
    using that tx(2) by (auto simp: bind_r_Inr_iff map_err_Inr_iff split: if_splits)
qed

interpretation block: conserving_machine "applyNext cr cx fc" "\<lambda>b. ledger_ok (bk_ledger b)" "\<lambda>b. worth (bk_ledger b)"
proof unfold_locales
  fix b transaction b'
  assume ok: "ledger_ok (bk_ledger b)" and step: "applyNext cr cx fc b transaction = Inr b'"
  from applyNext_Inr [OF step] show "ledger_ok (bk_ledger b')"
    by (metis apply_keeps block_state.select_convs(2) keeps_def ok)
  from applyNext_Inr [OF step] show "worth (bk_ledger b') = worth (bk_ledger b)"
    by (metis apply_keeps block_state.select_convs(2) keeps_def ok)
qed

text \<open>
  C1: The transactions of an accepted block neither make nor lose value: what balances, stakes, bonds and
  sealed answers hold together, with what was burned, is the same after them as before, nobody owes
  anything, and nobody owns more than the whole.
\<close>

theorem block_transactions_conserve:
  assumes "ledger_ok L" and "applyTransactions cr cx fc mc transactions L histories = Inr b"
  shows "ledger_ok (bk_ledger b) \<and> worth (bk_ledger b) = worth L \<and>
    (\<forall>a. 0 \<le> jget_or 0 (lg_balances (bk_ledger b)) a \<and> jget_or 0 (lg_balances (bk_ledger b)) a \<le> worth L)"
proof -
  let ?b = "\<lparr>bk_ids = [], bk_ledger = L, bk_histories = histories\<rparr>"
  have run: "foldM (applyNext cr cx fc) ?b transactions = Inr b"
    using assms(2) by (simp add: applyTransactions_def bind_r_Inr_iff)
  have ok: "ledger_ok (bk_ledger b)" using block.run_inv [OF _ run] assms(1) by simp
  moreover have "worth (bk_ledger b) = worth L" using block.run_worth [OF _ run] assms(1) by simp
  ultimately show ?thesis using balance_le_worth [OF ok] by simp
qed

section \<open>Nonces\<close>

definition nonces_grow :: "ledger \<Rightarrow> ledger \<Rightarrow> bool" where
  "nonces_grow L L' \<longleftrightarrow> (\<forall>a. jget_or 0 (lg_nonces L) a \<le> jget_or 0 (lg_nonces L') a)"

lemma nonces_grow_refl [simp]: "nonces_grow L L"
  by (simp add: nonces_grow_def)

lemma nonces_grow_trans [trans]: "nonces_grow L M \<Longrightarrow> nonces_grow M N \<Longrightarrow> nonces_grow L N"
  unfolding nonces_grow_def by (meson order_trans)

text \<open>The transaction was applied between the two ledgers: its nonce is used up.\<close>

definition used_between :: "ledger \<Rightarrow> jsval \<Rightarrow> ledger \<Rightarrow> bool" where
  "used_between L transaction L' \<longleftrightarrow> (\<exists>tx a n. transaction = JObj tx \<and> fld tx ''sender'' = JStr a \<and>
     safe_int (fld tx ''nonce'') = Some n \<and> jget_or 0 (lg_nonces L) a \<le> n \<and> n < jget_or 0 (lg_nonces L') a)"

lemma used_later: "used_between L transaction M \<Longrightarrow> nonces_grow M N \<Longrightarrow> used_between L transaction N"
  unfolding used_between_def nonces_grow_def by (elim exE conjE) (intro exI conjI, assumption+, rule less_le_trans, assumption, erule spec)

lemma apply_used:
  assumes "applyNext cr cx fc b transaction = Inr b'"
  shows "nonces_grow (bk_ledger b) (bk_ledger b')" and "used_between (bk_ledger b) transaction (bk_ledger b')"
proof -
  from applyNext_Inr [OF assms] obtain tx where tx: "transaction = JObj tx" "keeps tx (bk_ledger b) (bk_ledger b')"
    by (metis apply_keeps block_state.select_convs(2))
  then have "advances tx (bk_ledger b) (bk_ledger b')" by (simp add: keeps_def)
  then obtain a where a: "fld tx ''sender'' = JStr a" "safe_int (fld tx ''nonce'') = Some (jget_or 0 (lg_nonces (bk_ledger b)) a)"
    "jget_or 0 (lg_nonces (bk_ledger b')) a = jget_or 0 (lg_nonces (bk_ledger b)) a + 1"
    and grow: "\<forall>x. jget_or 0 (lg_nonces (bk_ledger b)) x \<le> jget_or 0 (lg_nonces (bk_ledger b')) x"
    by (auto simp: advances_def)
  from grow show "nonces_grow (bk_ledger b) (bk_ledger b')" by (simp add: nonces_grow_def)
  from a tx(1) show "used_between (bk_ledger b) transaction (bk_ledger b')" by (auto simp: used_between_def)
qed

lemma run_used:
  assumes "foldM (applyNext cr cx fc) b transactions = Inr b'"
  shows "nonces_grow (bk_ledger b) (bk_ledger b') \<and>
    (\<forall>i < length transactions. \<exists>L L'. used_between L (transactions ! i) L' \<and> nonces_grow (bk_ledger b) L \<and>
      nonces_grow L' (bk_ledger b') \<and> (\<forall>j. i < j \<and> j < length transactions \<longrightarrow>
        (\<exists>M M'. used_between M (transactions ! j) M' \<and> nonces_grow L' M)))"
  using assms
proof (induction transactions arbitrary: b)
  case Nil
  then show ?case by simp
next
  case (Cons t ts)
  from Cons.prems obtain c where c: "applyNext cr cx fc b t = Inr c" "foldM (applyNext cr cx fc) c ts = Inr b'"
    by (auto simp: bind_r_Inr_iff)
  note step = apply_used [OF c(1)] and rest = Cons.IH [OF c(2)]
  show ?case
  proof (intro conjI allI impI)
    show "nonces_grow (bk_ledger b) (bk_ledger b')" using nonces_grow_trans step(1) rest by blast
    fix i assume i: "i < length (t # ts)"
    show "\<exists>L L'. used_between L ((t # ts) ! i) L' \<and> nonces_grow (bk_ledger b) L \<and> nonces_grow L' (bk_ledger b') \<and>
        (\<forall>j. i < j \<and> j < length (t # ts) \<longrightarrow> (\<exists>M M'. used_between M ((t # ts) ! j) M' \<and> nonces_grow L' M))"
    proof (cases i)
      case 0
      have "\<exists>M M'. used_between M ((t # ts) ! j) M' \<and> nonces_grow (bk_ledger c) M" if "0 < j" "j < length (t # ts)" for j
      proof -
        obtain k where k: "j = Suc k" using \<open>0 < j\<close> by (metis gr0_implies_Suc)
        with that(2) have "k < length ts" by simp
        with rest obtain M M' where "used_between M (ts ! k) M'" "nonces_grow (bk_ledger c) M" by blast
        with k show ?thesis by auto
      qed
      with 0 step rest show ?thesis by (intro exI [of _ "bk_ledger b"] exI [of _ "bk_ledger c"]) simp
    next
      case (Suc k)
      with i rest obtain L L' where L: "used_between L (ts ! k) L'" "nonces_grow (bk_ledger c) L" "nonces_grow L' (bk_ledger b')"
        and later: "\<forall>j. k < j \<and> j < length ts \<longrightarrow> (\<exists>M M'. used_between M (ts ! j) M' \<and> nonces_grow L' M)" by auto
      have "\<exists>M M'. used_between M ((t # ts) ! j) M' \<and> nonces_grow L' M" if "i < j" "j < length (t # ts)" for j
        using that later Suc by (cases j) auto
      moreover have "(t # ts) ! i = ts ! k" using Suc by simp
      ultimately show ?thesis using L nonces_grow_trans [OF step(1) L(2)] by metis
    qed
  qed
qed

text \<open>
  C2: No transaction is applied twice. In an accepted block the nonces of the transactions of one sender
  grow strictly, from the nonce the ledger expects on; and a transaction of the block is refused by every
  later ledger, whatever the handler and the context, as long as no nonce has gone back.
\<close>

theorem no_transaction_replayed:
  assumes "applyTransactions cr cx fc mc transactions L histories = Inr b"
  shows "(\<forall>i j. i < j \<and> j < length transactions \<longrightarrow> (\<forall>t u. transactions ! i = JObj t \<and> transactions ! j = JObj u \<and>
       fld t ''sender'' = fld u ''sender'' \<longrightarrow>
       (\<exists>m n. safe_int (fld t ''nonce'') = Some m \<and> safe_int (fld u ''nonce'') = Some n \<and> m < n))) \<and>
     (\<forall>tx later cr' cx' fc' index. JObj tx \<in> set transactions \<and> nonces_grow (bk_ledger b) later \<longrightarrow>
       (\<exists>e. applyTransaction cr' cx' fc' index tx later = Inl e))"
proof -
  have "foldM (applyNext cr cx fc) \<lparr>bk_ids = [], bk_ledger = L, bk_histories = histories\<rparr> transactions = Inr b"
    using assms by (simp add: applyTransactions_def bind_r_Inr_iff)
  note run = run_used [OF this]
  have "\<exists>m n. safe_int (fld t ''nonce'') = Some m \<and> safe_int (fld u ''nonce'') = Some n \<and> m < n"
    if ij: "i < j" "j < length transactions" and t: "transactions ! i = JObj t" "transactions ! j = JObj u" "fld t ''sender'' = fld u ''sender''"
    for i j t u
  proof -
    from ij run obtain L1 L2 M1 M2 where "used_between L1 (JObj t) L2" "used_between M1 (JObj u) M2" "nonces_grow L2 M1"
      using t by (metis order_less_trans)
    then obtain a m n where "fld t ''sender'' = JStr a" "safe_int (fld t ''nonce'') = Some m" "m < jget_or 0 (lg_nonces L2) a"
        "safe_int (fld u ''nonce'') = Some n" "jget_or 0 (lg_nonces M1) a \<le> n" "jget_or 0 (lg_nonces L2) a \<le> jget_or 0 (lg_nonces M1) a"
      using t(3) by (auto simp: used_between_def nonces_grow_def)
    then show ?thesis by auto
  qed
  moreover have "\<exists>e. applyTransaction cr' cx' fc' index tx later = Inl e"
    if tx: "JObj tx \<in> set transactions" and later: "nonces_grow (bk_ledger b) later" for tx later cr' cx' fc' index
  proof (cases "applyTransaction cr' cx' fc' index tx later")
    case (Inr L2)
    from tx run obtain L1 M1 where "used_between L1 (JObj tx) M1" "nonces_grow M1 (bk_ledger b)"
      by (metis in_set_conv_nth)
    with later have "used_between L1 (JObj tx) later" using nonces_grow_trans used_later by blast
    with apply_keeps [OF Inr] show ?thesis by (auto simp: keeps_def advances_def used_between_def)
  qed blast
  ultimately show ?thesis by blast
qed

section \<open>Histories\<close>

text \<open>Every account's history stands for its list of identifiers.\<close>

definition holdsHistories :: "crypto \<Rightarrow> (string, jsval) jsmap \<Rightarrow> (string \<Rightarrow> string list) \<Rightarrow> bool" where
  "holdsHistories cr histories past \<longleftrightarrow> (\<forall>a. case jget histories a of
       None \<Rightarrow> past a = []
     | Some h \<Rightarrow> \<exists>obj. h = JObj obj \<and> represents cr (past a) obj)"

text \<open>The identifiers of the transactions in which an account takes part.\<close>

definition idsOf :: "crypto \<Rightarrow> string \<Rightarrow> jsval list \<Rightarrow> string list" where
  "idsOf cr a transactions = concat (map (\<lambda>t. case plain_object t of
       None \<Rightarrow> []
     | Some tx \<Rightarrow> if a \<in> set (participants tx) then (case transactionId cr tx of Inl e \<Rightarrow> [] | Inr i \<Rightarrow> [i]) else []) transactions)"

lemma transactionId_hex: "sound_hash cr \<Longrightarrow> transactionId cr tx = Inr i \<Longrightarrow> is_hex64 i"
  by (auto simp: transactionId_def map_err_Inr_iff hashObject_def bind_r_Inr_iff sound_hash_def)

lemma recordParticipant_holds:
  assumes "sound_hash cr" and "holdsHistories cr histories past" and "recordParticipant cr i histories a = Inr histories'"
    and "hex_ids (past a @ [i])" and "length (past a) + 1 < 2 ^ 32"
    and "past a \<noteq> [] \<Longrightarrow> inj_on (sha3_hex cr) (historyInputs cr (past a))"
  shows "holdsHistories cr histories' (past(a := past a @ [i]))"
proof -
  obtain empty where empty: "emptyAccountHistoryAccumulator cr = Inr empty" "represents cr [] empty"
    by (rule represents_empty [OF assms(1)])
  obtain obj where obj: "represents cr (past a) obj"
      "bind_r (appendAccountHistory cr (JObj obj) (JStr i)) (\<lambda>h'. Inr (jset a h' histories)) = Inr histories'"
  proof (cases "jget histories a")
    case None
    with spec [OF assms(2) [unfolded holdsHistories_def], of a] have "past a = []" by simp
    moreover have "bind_r (appendAccountHistory cr (JObj empty) (JStr i)) (\<lambda>h'. Inr (jset a h' histories)) = Inr histories'"
      using assms(3) by (simp add: recordParticipant_def None empty(1))
    ultimately show thesis using that [of empty] empty(2) by simp
  next
    case (Some h)
    with spec [OF assms(2) [unfolded holdsHistories_def], of a] obtain obj where "h = JObj obj" "represents cr (past a) obj" by auto
    moreover have "bind_r (appendAccountHistory cr h (JStr i)) (\<lambda>h'. Inr (jset a h' histories)) = Inr histories'"
      using assms(3) by (simp add: recordParticipant_def Some)
    ultimately show thesis using that [of obj] by simp
  qed
  obtain h' where h: "appendAccountHistory cr (JObj obj) (JStr i) = Inr (JObj h')" "represents cr (past a @ [i]) h'"
    by (rule represents_append [OF assms(1) obj(1) assms(4,5,6)])
  then have "histories' = jset a (JObj h') histories" using obj(2) by simp
  with h(2) assms(2) show ?thesis by (simp add: holdsHistories_def cong: option.case_cong)
qed

lemma participants_distinct [simp]: "distinct (participants tx)"
  by (simp add: participants_def)

lemma participants_hold:
  assumes "sound_hash cr" and "foldM (recordParticipant cr i) histories accounts = Inr histories'" and "distinct accounts"
    and "holdsHistories cr histories past" and "\<And>a. a \<in> set accounts \<Longrightarrow> hex_ids (past a @ [i]) \<and> length (past a) + 1 < 2 ^ 32"
    and "\<And>a. a \<in> set accounts \<Longrightarrow> past a \<noteq> [] \<Longrightarrow> inj_on (sha3_hex cr) (historyInputs cr (past a))"
  shows "holdsHistories cr histories' (\<lambda>a. if a \<in> set accounts then past a @ [i] else past a)"
  using assms(2-)
proof (induction accounts arbitrary: histories past)
  case (Cons a as)
  from Cons.prems(1) obtain h where h: "recordParticipant cr i histories a = Inr h" "foldM (recordParticipant cr i) h as = Inr histories'"
    by (auto simp: bind_r_Inr_iff)
  have "holdsHistories cr h (past(a := past a @ [i]))"
    using recordParticipant_holds [OF assms(1) Cons.prems(3) h(1)] Cons.prems(4,5) by simp
  from Cons.IH [OF h(2) _ this] Cons.prems(2,4,5)
  have "holdsHistories cr histories' (\<lambda>x. if x \<in> set as then (past(a := past a @ [i])) x @ [i] else (past(a := past a @ [i])) x)"
    by force
  also have "(\<lambda>x. if x \<in> set as then (past(a := past a @ [i])) x @ [i] else (past(a := past a @ [i])) x) =
      (\<lambda>x. if x \<in> set (a # as) then past x @ [i] else past x)"
    using Cons.prems(2) by (auto simp: fun_eq_iff)
  finally show ?case .
qed simp

lemma run_histories:
  assumes "sound_hash cr" and "foldM (applyNext cr cx fc) b transactions = Inr b'" and "holdsHistories cr (bk_histories b) past"
    and "\<And>a. list_all is_hex64 (past a) \<and> length (past a) + length transactions < 2 ^ 32"
    and "\<And>a n. 0 < n \<Longrightarrow> n < length (past a @ idsOf cr a transactions) \<Longrightarrow>
      inj_on (sha3_hex cr) (historyInputs cr (take n (past a @ idsOf cr a transactions)))"
  shows "holdsHistories cr (bk_histories b') (\<lambda>a. past a @ idsOf cr a transactions)"
  using assms(2-)
proof (induction transactions arbitrary: b past)
  case Nil
  then show ?case by (simp add: idsOf_def)
next
  case (Cons t ts)
  from Cons.prems(1) obtain c where c: "applyNext cr cx fc b t = Inr c" "foldM (applyNext cr cx fc) c ts = Inr b'"
    by (auto simp: bind_r_Inr_iff)
  from applyNext_Inr [OF c(1)] obtain tx i where t: "t = JObj tx" "transactionId cr tx = Inr i"
      "foldM (recordParticipant cr i) (bk_histories b) (participants tx) = Inr (bk_histories c)"
    by (metis block_state.select_convs(3))
  have i: "is_hex64 i" by (rule transactionId_hex [OF assms(1) t(2)])
  let ?past = "\<lambda>a. if a \<in> set (participants tx) then past a @ [i] else past a"
  have ids: "past a @ idsOf cr a (t # ts) = ?past a @ idsOf cr a ts" for a
    using t(1,2) by (simp add: idsOf_def)
  have "holdsHistories cr (bk_histories c) ?past"
  proof (rule participants_hold [OF assms(1) t(3) participants_distinct Cons.prems(2)])
    fix a assume a: "a \<in> set (participants tx)"
    show "hex_ids (past a @ [i]) \<and> length (past a) + 1 < 2 ^ 32"
      using Cons.prems(3) [of a] i by (auto simp: hex_ids_def)
    assume "past a \<noteq> []"
    with Cons.prems(4) [of "length (past a)" a] show "inj_on (sha3_hex cr) (historyInputs cr (past a))"
      unfolding ids using a by simp
  qed
  moreover have "list_all is_hex64 (?past a) \<and> length (?past a) + length ts < 2 ^ 32" for a
    using Cons.prems(3) [of a] i by simp
  moreover have "inj_on (sha3_hex cr) (historyInputs cr (take n (?past a @ idsOf cr a ts)))"
    if "0 < n" "n < length (?past a @ idsOf cr a ts)" for a n
    using Cons.prems(4) [of n a] that unfolding ids by simp
  ultimately have "holdsHistories cr (bk_histories b') (\<lambda>a. ?past a @ idsOf cr a ts)"
    by (rule Cons.IH [OF c(2)])
  then show ?case unfolding ids .
qed

text \<open>
  C12: After an accepted block the committed history of every account is that of the identifiers it had
  before, followed by the identifiers of the transactions of the block it sends or receives, in the order
  of the block: none is lost, none recorded twice, none recorded for another account.
\<close>

theorem block_extends_histories:
  assumes "sound_hash cr" and "applyTransactions cr cx fc mc transactions L histories = Inr b"
    and "holdsHistories cr histories past"
    and "\<And>a. list_all is_hex64 (past a) \<and> length (past a) + length transactions < 2 ^ 32"
    and "\<And>a n. 0 < n \<Longrightarrow> n < length (past a @ idsOf cr a transactions) \<Longrightarrow>
      inj_on (sha3_hex cr) (historyInputs cr (take n (past a @ idsOf cr a transactions)))"
  shows "holdsHistories cr (bk_histories b) (\<lambda>a. past a @ idsOf cr a transactions)"
proof -
  have "foldM (applyNext cr cx fc) \<lparr>bk_ids = [], bk_ledger = L, bk_histories = histories\<rparr> transactions = Inr b"
    using assms(2) by (simp add: applyTransactions_def bind_r_Inr_iff)
  from run_histories [OF assms(1) this _ assms(4,5)] assms(3) show ?thesis by simp
qed

section \<open>Witnesses\<close>

definition demo_finalized :: finalized_context where
  "demo_finalized = \<lparr>fc_protocolVersion = 38, fc_recentTransition = None, fc_block = []\<rparr>"

definition demo_membership :: membership_change where
  "demo_membership = \<lparr>mc_rotation = False, mc_recovery = False, mc_activation = False\<rparr>"

lemma demo_schema: "requireExactTransactionSchema (JObj demo_create) = Inr demo_create"
  by code_simp

lemma demo_role: "requireFreeRole demo_create demo_funded = Inr ()"
  by code_simp

lemma demo_checked: "checkMembership demo_context demo_membership [JObj demo_create] = Inr ()"
  by code_simp

lemma demo_id: "transactionId demo_crypto demo_create = Inr demo_asset"
proof -
  have "json_ok (JObj demo_create)" by code_simp
  then have "hashObject demo_crypto (JObj demo_create) ''TRANSACTION_ID'' = Inr demo_asset"
    unfolding demo_asset_def by (rule demo_hash) code_simp
  then show ?thesis by (simp add: transactionId_def)
qed

lemma demo_participants: "participants demo_create = [demo_address CHR ''d'']"
  by code_simp

lemma demo_applied:
  "applyTransaction demo_crypto demo_context demo_finalized 0 demo_create demo_funded =
   Inr (demo_charged 1 (demo_book (Some (demo_address CHR ''d'')) 5 5))"
proof -
  have "applyNativeAssetTransaction demo_crypto demo_context demo_create demo_funded =
      Inr (demo_charged 1 (demo_book (Some (demo_address CHR ''d'')) 5 5))"
    using demo_created by (simp add: asset_step_def)
  moreover have "cx_protocolVersion demo_context = 38" by (simp add: demo_context_def)
  ultimately show ?thesis by (simp add: applyTransaction_def handlerOf_def laterHandler_def demo_tx_fields UNMODELLED_TYPES_def)
qed

lemma demo_sound_hash: "sound_hash demo_crypto"
proof -
  have "is_hex64 (replicate 64 CHR ''d'')" by code_simp
  then show ?thesis using demo_keeps_ascii by (simp add: sound_hash_def demo_crypto_def)
qed

lemma demo_block:
  obtains h where "applyTransactions demo_crypto demo_context demo_finalized demo_membership [JObj demo_create] demo_funded [] =
    Inr \<lparr>bk_ids = [demo_asset], bk_ledger = demo_charged 1 (demo_book (Some (demo_address CHR ''d'')) 5 5),
      bk_histories = [(demo_address CHR ''d'', JObj h)]\<rparr>"
proof -
  have ids: "hex_ids ([] @ [demo_asset])" using demo_asset_facts by (simp add: hex_ids_def)
  obtain e where e: "emptyAccountHistoryAccumulator demo_crypto = Inr e" "represents demo_crypto [] e"
    by (rule represents_empty [OF demo_sound_hash])
  obtain h where "appendAccountHistory demo_crypto (JObj e) (JStr demo_asset) = Inr (JObj h)"
    by (rule represents_append [OF demo_sound_hash e(2) ids]) simp_all
  with e(1) have "recordParticipant demo_crypto demo_asset [] (demo_address CHR ''d'') = Inr [(demo_address CHR ''d'', JObj h)]"
    by (simp add: recordParticipant_def jget_def jset_def)
  then show thesis
    by (intro that) (simp add: applyTransactions_def demo_checked applyNext_def demo_schema demo_role demo_id demo_applied demo_participants)
qed

lemma demo_funded_ok: "ledger_ok demo_funded" "worth demo_funded = 10000"
  by (simp_all add: demo_funded_def ledger_ok_def empty_ledger_def no_debt_def jwf_def jget_def worth_def jtotal_def jsum_def)

theorem block_transactions_conserve_witness:
  "\<exists>b. applyTransactions demo_crypto demo_context demo_finalized demo_membership [JObj demo_create] demo_funded [] = Inr b \<and>
    bk_ids b = [demo_asset] \<and> ledger_ok (bk_ledger b) \<and> worth (bk_ledger b) = 10000"
proof (rule demo_block)
  fix h
  let ?b = "\<lparr>bk_ids = [demo_asset], bk_ledger = demo_charged 1 (demo_book (Some (demo_address CHR ''d'')) 5 5),
      bk_histories = [(demo_address CHR ''d'', JObj h)]\<rparr>"
  assume run: "applyTransactions demo_crypto demo_context demo_finalized demo_membership [JObj demo_create] demo_funded [] = Inr ?b"
  from block_transactions_conserve [OF demo_funded_ok(1) run] run demo_funded_ok(2) show ?thesis
    by (intro exI [of _ ?b]) simp
qed

theorem no_transaction_replayed_witness:
  "\<exists>e. applyTransaction demo_crypto demo_context demo_finalized 1 demo_create
     (demo_charged 1 (demo_book (Some (demo_address CHR ''d'')) 5 5)) = Inl e"
proof (rule demo_block)
  fix h
  assume run: "applyTransactions demo_crypto demo_context demo_finalized demo_membership [JObj demo_create] demo_funded [] =
    Inr \<lparr>bk_ids = [demo_asset], bk_ledger = demo_charged 1 (demo_book (Some (demo_address CHR ''d'')) 5 5),
      bk_histories = [(demo_address CHR ''d'', JObj h)]\<rparr>"
  note later = conjunct2 [OF no_transaction_replayed [OF run], rule_format, of demo_create]
  show ?thesis by (rule later) simp
qed

theorem block_extends_histories_witness:
  "\<exists>b. applyTransactions demo_crypto demo_context demo_finalized demo_membership [JObj demo_create] demo_funded [] = Inr b \<and>
    holdsHistories demo_crypto (bk_histories b) (\<lambda>a. if a = demo_address CHR ''d'' then [demo_asset] else [])"
proof (rule demo_block)
  fix h
  let ?b = "\<lparr>bk_ids = [demo_asset], bk_ledger = demo_charged 1 (demo_book (Some (demo_address CHR ''d'')) 5 5),
      bk_histories = [(demo_address CHR ''d'', JObj h)]\<rparr>"
  assume run: "applyTransactions demo_crypto demo_context demo_finalized demo_membership [JObj demo_create] demo_funded [] = Inr ?b"
  have ids: "idsOf demo_crypto a [JObj demo_create] = (if a = demo_address CHR ''d'' then [demo_asset] else [])" for a
    by (simp add: idsOf_def demo_participants demo_id)
  have "holdsHistories demo_crypto [] (\<lambda>a. [])" by (simp add: holdsHistories_def jget_def)
  then have "holdsHistories demo_crypto (bk_histories ?b) (\<lambda>a. [] @ idsOf demo_crypto a [JObj demo_create])"
    by (rule block_extends_histories [OF demo_sound_hash run]) (simp_all add: ids split: if_splits)
  with run show ?thesis by (intro exI [of _ ?b]) (simp add: ids)
qed

end
