(* ===== verification/Handoff.thy ===== *)
theory Handoff
  imports Finality Beacons
begin

text \<open>
  Validator sets and how trust passes from one to the next (\<open>blockchain/validator-rotation.mjs\<close>
  and \<open>blockchain/validator-handoff.mjs\<close>): the rotation a block schedules, and the handoff two sets
  attest, by which a client that trusts the first set comes to trust the second. The order in which
  \<open>localeCompare\<close> sorts addresses is that of the host's locale: the parameter \<open>order\<close>.
\<close>

section \<open>Validator sets\<close>

definition MIN_VALIDATOR_SET_SIZE :: nat where
  "MIN_VALIDATOR_SET_SIZE = 4"

definition MIN_ROTATION_DELAY_BLOCKS :: int where
  "MIN_ROTATION_DELAY_BLOCKS = 5"

definition operatorNamed :: "jsval \<Rightarrow> bool" where
  "operatorNamed v \<longleftrightarrow> (case v of JStr s \<Rightarrow> is_operator_id s | _ \<Rightarrow> False)"

text \<open>The checks of one identity, the same in both modules up to the message.\<close>

definition validatorIdentity :: "crypto \<Rightarrow> string \<Rightarrow> jsval \<Rightarrow> chain_error + member" where
  "validatorIdentity cr message v =
     (case v of
        JObj m \<Rightarrow>
          if fld m ''algorithm'' \<noteq> JStr SIGNATURE_ALGORITHM \<or> \<not> short_string 4000 (fld m ''publicKey'')
          then Inl (Refused message)
          else (case addressFromPublicKey cr (fld m ''publicKey'') of
            None \<Rightarrow> Inl Threw
          | Some a \<Rightarrow>
              if fld m ''address'' \<noteq> JStr a \<or> \<not> operatorNamed (fld m ''operatorId'') then Inl (Refused message)
              else Inr \<lparr>mb_address = a, mb_algorithm = SIGNATURE_ALGORITHM, mb_operatorId = fld m ''operatorId'',
                        mb_publicKey = fld m ''publicKey''\<rparr>)
      | _ \<Rightarrow> Inl (Refused message))"

text \<open>\<open>.sort((a, b) => a.address.localeCompare(b.address))\<close>\<close>

definition sortByAddress :: "(string \<Rightarrow> string \<Rightarrow> bool) \<Rightarrow> member list \<Rightarrow> member list" where
  "sortByAddress order ms = map snd (foldr (insertBy order) (map (\<lambda>m. (mb_address m, m)) ms) [])"

definition uniqueIdentities :: "member list \<Rightarrow> bool" where
  "uniqueIdentities ms \<longleftrightarrow> distinct (map mb_address ms) \<and> distinct (map mb_operatorId ms)"

text \<open>A set rotated into needs bonds; members of \<open>allowUnbonded\<close> may have lost theirs.\<close>

definition bondedIdentity :: "crypto \<Rightarrow> balances \<Rightarrow> string list \<Rightarrow> jsval \<Rightarrow> chain_error + member" where
  "bondedIdentity cr bonds allowUnbonded v =
     bind_r (validatorIdentity cr ''validator identity is invalid'' v) (\<lambda>m.
     if jget_or 0 bonds (mb_address m) < MIN_VALIDATOR_BOND \<and> mb_address m \<notin> set allowUnbonded
     then Inl (Refused ''validator bond is below the finality minimum'') else Inr m)"

definition normalizeValidatorSet :: "crypto \<Rightarrow> (string \<Rightarrow> string \<Rightarrow> bool) \<Rightarrow> jsval \<Rightarrow> balances \<Rightarrow> string list \<Rightarrow>
    chain_error + member list" where
  "normalizeValidatorSet cr order members bonds allowUnbonded =
     (case members of
        JArr vs \<Rightarrow>
          if length vs < MIN_VALIDATOR_SET_SIZE \<or> length vs > MAX_VALIDATORS
          then Inl (Refused ''validator set size is invalid'')
          else bind_r (mapM (bondedIdentity cr bonds allowUnbonded) vs) (\<lambda>ms.
            let normalized = sortByAddress order ms in
            if \<not> uniqueIdentities normalized
            then Inl (Refused ''validator addresses and operators must be unique'') else Inr normalized)
      | _ \<Rightarrow> Inl (Refused ''validator set size is invalid''))"

definition validatorSetEntry :: "member \<Rightarrow> jsval" where
  "validatorSetEntry m = JObj ([(''address'', JStr (mb_address m))] @
     (if mb_operatorId m = JUndef then [] else [(''operatorId'', mb_operatorId m)]) @
     [(''publicKey'', mb_publicKey m)])"

definition validatorSetId :: "crypto \<Rightarrow> member list \<Rightarrow> chain_error + string" where
  "validatorSetId cr members =
     map_err Not_hashable (hashObject cr (JArr (map validatorSetEntry (sort_key mb_address members))) ''FINALITY_VALIDATOR_SET'')"

text \<open>Fewer than a third of the smaller set's size in common.\<close>

definition tooLittleOverlap :: "member list \<Rightarrow> member list \<Rightarrow> bool" where
  "tooLittleOverlap old new \<longleftrightarrow>
     length (filter (\<lambda>m. mb_address m \<in> set (map mb_address old)) new) * 3 < min (length old) (length new)"

record validator_rotation =
  vr_activationHeight :: int
  vr_previousSetId :: string
  vr_nextSetId :: string
  vr_validators :: "member list"

definition scheduleValidatorRotation :: "crypto \<Rightarrow> (string \<Rightarrow> string \<Rightarrow> bool) \<Rightarrow> member list \<Rightarrow> jsval \<Rightarrow> balances \<Rightarrow> int \<Rightarrow>
    jsval \<Rightarrow> string list \<Rightarrow> chain_error + validator_rotation" where
  "scheduleValidatorRotation cr order current proposed bonds currentHeight activationHeight disabled =
     bind_r (normalizeValidatorSet cr order (JArr (map memberObject current)) bonds disabled) (\<lambda>oldSet.
     bind_r (normalizeValidatorSet cr order proposed bonds []) (\<lambda>nextSet.
     case safe_int activationHeight of
       None \<Rightarrow> Inl (Refused ''validator rotation delay is too short'')
     | Some activation \<Rightarrow>
         if \<not> is_safe_int currentHeight \<or> activation < currentHeight + MIN_ROTATION_DELAY_BLOCKS
         then Inl (Refused ''validator rotation delay is too short'')
         else if tooLittleOverlap oldSet nextSet
         then Inl (Refused ''validator rotation requires at least one-third overlap'')
         else bind_r (validatorSetId cr oldSet) (\<lambda>previousSetId.
              bind_r (validatorSetId cr nextSet) (\<lambda>nextSetId.
              Inr \<lparr>vr_activationHeight = activation, vr_previousSetId = previousSetId, vr_nextSetId = nextSetId,
                   vr_validators = nextSet\<rparr>))))"

definition activeValidatorSet :: "member list \<Rightarrow> validator_rotation option \<Rightarrow> int \<Rightarrow> member list" where
  "activeValidatorSet current pending height =
     (case pending of
        None \<Rightarrow> current
      | Some p \<Rightarrow> if height < vr_activationHeight p then current else vr_validators p)"

section \<open>Handoffs\<close>

definition HANDOFF_FORMAT :: string where
  "HANDOFF_FORMAT = ''nir-validator-handoff-v1''"

definition normalizeTrustSet :: "crypto \<Rightarrow> (string \<Rightarrow> string \<Rightarrow> bool) \<Rightarrow> jsval \<Rightarrow> chain_error + member list" where
  "normalizeTrustSet cr order members =
     (case members of
        JArr vs \<Rightarrow>
          if length vs < MIN_VALIDATOR_SET_SIZE \<or> length vs > MAX_VALIDATORS
          then Inl (Refused ''validator handoff set size is invalid'')
          else bind_r (mapM (validatorIdentity cr ''validator handoff identity is invalid'') vs) (\<lambda>ms.
            let normalized = sortByAddress order ms in
            if \<not> uniqueIdentities normalized
            then Inl (Refused ''validator handoff identities must be unique'') else Inr normalized)
      | _ \<Rightarrow> Inl (Refused ''validator handoff set size is invalid''))"

text \<open>The hashes of a block and of a state only passed the pattern, which an array of one string does too.\<close>

record handoff =
  ho_activationBlockHash :: jsval
  ho_activationHeight :: int
  ho_activationStateRoot :: jsval
  ho_networkId :: string
  ho_nextSetId :: string
  ho_nextValidators :: "member list"
  ho_previousSetId :: string

definition handoffObject :: "handoff \<Rightarrow> jsval" where
  "handoffObject p = JObj [(''activationBlockHash'', ho_activationBlockHash p),
     (''activationHeight'', JNum (ho_activationHeight p)), (''activationStateRoot'', ho_activationStateRoot p),
     (''format'', JStr HANDOFF_FORMAT), (''networkId'', JStr (ho_networkId p)), (''nextSetId'', JStr (ho_nextSetId p)),
     (''nextValidators'', JArr (map memberObject (ho_nextValidators p))), (''previousSetId'', JStr (ho_previousSetId p))]"

definition handoffPayload :: "crypto \<Rightarrow> (string \<Rightarrow> string \<Rightarrow> bool) \<Rightarrow> jsobj \<Rightarrow> jsval \<Rightarrow> chain_error + handoff" where
  "handoffPayload cr order fs previousValidators =
     bind_r (normalizeTrustSet cr order previousValidators) (\<lambda>previous.
     bind_r (normalizeTrustSet cr order (fld fs ''nextValidators'')) (\<lambda>nextSet.
     if tooLittleOverlap previous nextSet then Inl (Refused ''validator handoff requires at least one-third overlap'')
     else bind_r (validatorSetId cr nextSet) (\<lambda>nextSetId.
     bind_r (validatorSetId cr previous) (\<lambda>previousSetId.
     case (fld fs ''networkId'', safe_int (fld fs ''activationHeight'')) of
       (JStr networkId, Some activationHeight) \<Rightarrow>
         if length networkId < 1 \<or> length networkId > 128 \<or> activationHeight < 1 \<or>
            \<not> is_hex64 (coerced (fld fs ''activationBlockHash'')) \<or> \<not> is_hex64 (coerced (fld fs ''activationStateRoot''))
         then Inl (Refused ''validator handoff payload is invalid'')
         else Inr \<lparr>ho_activationBlockHash = fld fs ''activationBlockHash'', ho_activationHeight = activationHeight,
           ho_activationStateRoot = fld fs ''activationStateRoot'', ho_networkId = networkId, ho_nextSetId = nextSetId,
           ho_nextValidators = nextSet, ho_previousSetId = previousSetId\<rparr>
     | _ \<Rightarrow> Inl (Refused ''validator handoff payload is invalid'')))))"

definition handoffHash :: "crypto \<Rightarrow> handoff \<Rightarrow> chain_error + string" where
  "handoffHash cr p = map_err Not_hashable (hashObject cr (handoffObject p) ''VALIDATOR_HANDOFF'')"

definition attest :: "jsval \<Rightarrow> wallet list \<Rightarrow> string \<Rightarrow> chain_error + jsval" where
  "attest payload wallets domain =
     (if length wallets > MAX_VALIDATORS then Inl (Refused ''validator handoff signers are invalid'')
      else Inr (JArr (map (\<lambda>w. JObj [(''signature'', JStr (snd w payload domain)), (''validator'', JStr (fst w))]) wallets)))"

definition attestedHandoff :: "handoff \<Rightarrow> string \<Rightarrow> jsval \<Rightarrow> jsval \<Rightarrow> jsval" where
  "attestedHandoff p hash nextAttestations previousAttestations =
     (case handoffObject p of JObj o' \<Rightarrow> JObj (o' @ [(''handoffHash'', JStr hash), (''nextAttestations'', nextAttestations),
        (''previousAttestations'', previousAttestations)]) | v \<Rightarrow> v)"

definition createValidatorHandoff :: "crypto \<Rightarrow> (string \<Rightarrow> string \<Rightarrow> bool) \<Rightarrow> jsobj \<Rightarrow> wallet list \<Rightarrow> wallet list \<Rightarrow>
    chain_error + jsval" where
  "createValidatorHandoff cr order fs previousWallets nextWallets =
     bind_r (handoffPayload cr order fs (fld fs ''previousValidators'')) (\<lambda>p.
     bind_r (handoffHash cr p) (\<lambda>hash.
     bind_r (attest (handoffObject p) nextWallets ''VALIDATOR_HANDOFF_NEW'') (\<lambda>nextAttestations.
     bind_r (attest (handoffObject p) previousWallets ''VALIDATOR_HANDOFF_OLD'') (\<lambda>previousAttestations.
     Inr (attestedHandoff p hash nextAttestations previousAttestations)))))"

text \<open>\<open>key\<close> is the wallet's public key.\<close>

definition createValidatorHandoffCandidate :: "crypto \<Rightarrow> (string \<Rightarrow> string \<Rightarrow> bool) \<Rightarrow> jsobj \<Rightarrow> wallet \<Rightarrow> jsval \<Rightarrow>
    chain_error + jsval" where
  "createValidatorHandoffCandidate cr order fs w key =
     bind_r (handoffPayload cr order fs (fld fs ''previousValidators'')) (\<lambda>p.
     bind_r (normalizeTrustSet cr order (fld fs ''previousValidators'')) (\<lambda>previousValidators.
     let isWallet = (\<lambda>m. mb_address m = fst w);
         previous = find isWallet previousValidators;
         nextMember = find isWallet (ho_nextValidators p) in
     if (previous = None \<and> nextMember = None) \<or>
        (case previous of Some m \<Rightarrow> \<not> strict_eq (mb_publicKey m) key | None \<Rightarrow> False) \<or>
        (case nextMember of Some m \<Rightarrow> \<not> strict_eq (mb_publicKey m) key | None \<Rightarrow> False)
     then Inl (Refused ''validator is not a member of this handoff'')
     else bind_r (handoffHash cr p) (\<lambda>hash.
       bind_r (if nextMember = None then Inr (JArr []) else attest (handoffObject p) [w] ''VALIDATOR_HANDOFF_NEW'') (\<lambda>nextAttestations.
       bind_r (if previous = None then Inr (JArr []) else attest (handoffObject p) [w] ''VALIDATOR_HANDOFF_OLD'') (\<lambda>previousAttestations.
       Inr (attestedHandoff p hash nextAttestations previousAttestations))))))"

text \<open>One turn of the loop over the attestations: the members that attested so far.\<close>

definition checkAttestation :: "crypto \<Rightarrow> jsval \<Rightarrow> (string, member) jsmap \<Rightarrow> string \<Rightarrow> string list \<Rightarrow> jsval \<Rightarrow>
    chain_error + string list" where
  "checkAttestation cr payload members domain seen v =
     (case v of
        JObj a \<Rightarrow>
          (case (fld a ''validator'', vget members (fld a ''validator'')) of
             (JStr voter, Some m) \<Rightarrow>
               if voter \<in> set seen \<or> \<not> short_string 7000 (fld a ''signature'') \<or>
                  \<not> verifyObject cr payload (fld a ''signature'') (mb_publicKey m) domain
               then Inl (Refused ''validator handoff attestation is invalid'')
               else Inr (seen @ [voter])
           | _ \<Rightarrow> Inl (Refused ''validator handoff attestation is invalid''))
      | _ \<Rightarrow> Inl (Refused ''validator handoff attestation is invalid''))"

definition verifyAttestations :: "crypto \<Rightarrow> jsval \<Rightarrow> jsval \<Rightarrow> member list \<Rightarrow> string \<Rightarrow> nat option \<Rightarrow>
    chain_error + string list" where
  "verifyAttestations cr payload attestations validators domain minimum =
     (case attestations of
        JArr vs \<Rightarrow>
          if length vs > length validators then Inl (Refused ''validator handoff attestations are invalid'')
          else bind_r (foldM (checkAttestation cr payload (byAddress validators) domain) [] vs) (\<lambda>seen.
            let required = (case minimum of Some n \<Rightarrow> n | None \<Rightarrow> voteQuorum (length validators)) in
            if length seen < required then Inl (Refused ''validator handoff quorum is not reached'') else Inr seen)
      | _ \<Rightarrow> Inl (Refused ''validator handoff attestations are invalid''))"

text \<open>The trust set as it was normalized, the payload and the fields of the handoff that it leaves out.\<close>

record handoff_content =
  hc_current :: "member list"
  hc_payload :: handoff
  hc_handoffHash :: string
  hc_nextAttestations :: jsval
  hc_previousAttestations :: jsval

definition verifyHandoffContent :: "crypto \<Rightarrow> (string \<Rightarrow> string \<Rightarrow> bool) \<Rightarrow> string \<Rightarrow> int \<Rightarrow> member list \<Rightarrow> jsval \<Rightarrow>
    chain_error + handoff_content" where
  "verifyHandoffContent cr order expectedNetworkId minimumActivationHeight trustedValidators v =
     (case v of
        JObj h \<Rightarrow>
          if fld h ''format'' \<noteq> JStr HANDOFF_FORMAT \<or> \<not> is_safe_int minimumActivationHeight \<or> minimumActivationHeight < 1
          then Inl (Refused ''validator handoff header is invalid'')
          else bind_r (normalizeTrustSet cr order (JArr (map memberObject trustedValidators))) (\<lambda>current.
            bind_r (handoffPayload cr order h (JArr (map memberObject current))) (\<lambda>p.
            if ho_networkId p \<noteq> expectedNetworkId \<or> ho_activationHeight p < minimumActivationHeight \<or>
               fld h ''previousSetId'' \<noteq> JStr (ho_previousSetId p) \<or> fld h ''nextSetId'' \<noteq> JStr (ho_nextSetId p)
            then Inl (Refused ''validator handoff trust chain is invalid'')
            else bind_r (handoffHash cr p) (\<lambda>hash.
              if fld h ''handoffHash'' \<noteq> JStr hash then Inl (Refused ''validator handoff trust chain is invalid'')
              else Inr \<lparr>hc_current = current, hc_payload = p, hc_handoffHash = hash,
                hc_nextAttestations = fld h ''nextAttestations'', hc_previousAttestations = fld h ''previousAttestations''\<rparr>)))
      | _ \<Rightarrow> Inl (Refused ''validator handoff header is invalid''))"

text \<open>The verified payload with its hash; its members are the next set to trust.\<close>

definition verifyValidatorHandoff :: "crypto \<Rightarrow> (string \<Rightarrow> string \<Rightarrow> bool) \<Rightarrow> string \<Rightarrow> int \<Rightarrow> member list \<Rightarrow> jsval \<Rightarrow>
    chain_error + (handoff \<times> string)" where
  "verifyValidatorHandoff cr order expectedNetworkId minimumActivationHeight trustedValidators v =
     bind_r (verifyHandoffContent cr order expectedNetworkId minimumActivationHeight trustedValidators v) (\<lambda>c.
     let p = hc_payload c in
     bind_r (verifyAttestations cr (handoffObject p) (hc_previousAttestations c) (hc_current c) ''VALIDATOR_HANDOFF_OLD'' None) (\<lambda>_.
     bind_r (verifyAttestations cr (handoffObject p) (hc_nextAttestations c) (ho_nextValidators p) ''VALIDATOR_HANDOFF_NEW'' None) (\<lambda>_.
     Inr (p, hc_handoffHash c))))"

text \<open>The loop of \<open>advanceValidatorTrust\<close>: the trusted set, the least next height, the last handoff.\<close>

type_synonym trust_state = "member list \<times> int \<times> (handoff \<times> string) option"

definition advanceTrust :: "crypto \<Rightarrow> (string \<Rightarrow> string \<Rightarrow> bool) \<Rightarrow> string \<Rightarrow> trust_state \<Rightarrow> jsval \<Rightarrow>
    chain_error + trust_state" where
  "advanceTrust cr order expectedNetworkId s v =
     (case s of (current, minimumActivationHeight, _) \<Rightarrow>
        bind_r (verifyValidatorHandoff cr order expectedNetworkId minimumActivationHeight current v) (\<lambda>r.
          Inr (ho_nextValidators (fst r), ho_activationHeight (fst r) + 1, Some r)))"

definition advanceValidatorTrust :: "crypto \<Rightarrow> (string \<Rightarrow> string \<Rightarrow> bool) \<Rightarrow> string \<Rightarrow> member list \<Rightarrow> jsval list \<Rightarrow>
    chain_error + ((handoff \<times> string) option \<times> member list)" where
  "advanceValidatorTrust cr order expectedNetworkId trustedValidators handoffs =
     (if length handoffs > MAX_VALIDATORS then Inl (Refused ''validator handoff chain is invalid'')
      else bind_r (normalizeTrustSet cr order (JArr (map memberObject trustedValidators))) (\<lambda>current.
        bind_r (foldM (advanceTrust cr order expectedNetworkId) (current, 1, None) handoffs) (\<lambda>(final, _, lastHandoff).
          Inr (lastHandoff, final))))"

section \<open>Collecting and choosing handoffs\<close>

text \<open>A group of candidates of one handoff: the first of them, and the attestations of all by validator.\<close>

record handoff_group =
  hg_handoff :: jsobj
  hg_next :: "(string, jsval) jsmap"
  hg_previous :: "(string, jsval) jsmap"

definition collectAttestations :: "jsval \<Rightarrow> (string, jsval) jsmap \<Rightarrow> (string, jsval) jsmap" where
  "collectAttestations attestations m =
     (case attestations of
        JArr vs \<Rightarrow> foldl (\<lambda>m v. case v of
            JObj a \<Rightarrow> (case fld a ''validator'' of JStr voter \<Rightarrow> jset voter v m | _ \<Rightarrow> m)
          | _ \<Rightarrow> m) m vs
      | _ \<Rightarrow> m)"

text \<open>The body of the \<open>try\<close> for one candidate; a candidate that throws is skipped.\<close>

definition groupCandidate :: "crypto \<Rightarrow> (string \<Rightarrow> string \<Rightarrow> bool) \<Rightarrow> string \<Rightarrow> int \<Rightarrow> member list \<Rightarrow> jsval \<Rightarrow>
    (string, handoff_group) jsmap \<Rightarrow> chain_error + (string, handoff_group) jsmap" where
  "groupCandidate cr order expectedNetworkId minimumActivationHeight trustedValidators candidate groups =
     bind_r (verifyHandoffContent cr order expectedNetworkId minimumActivationHeight trustedValidators candidate) (\<lambda>c.
     let p = hc_payload c in
     bind_r (verifyAttestations cr (handoffObject p) (hc_previousAttestations c) (hc_current c) ''VALIDATOR_HANDOFF_OLD'' (Some 0)) (\<lambda>previous.
     bind_r (verifyAttestations cr (handoffObject p) (hc_nextAttestations c) (ho_nextValidators p) ''VALIDATOR_HANDOFF_NEW'' (Some 0)) (\<lambda>attested.
     if length previous + length attested = 0 then Inl (Refused ''empty candidate'')
     else let start = \<lparr>hg_handoff = (case candidate of JObj h \<Rightarrow> h | _ \<Rightarrow> []), hg_next = [], hg_previous = []\<rparr>;
          group = (case jget groups (hc_handoffHash c) of Some g \<Rightarrow> g | None \<Rightarrow> start) in
       Inr (jset (hc_handoffHash c) (group\<lparr>hg_previous := collectAttestations (hc_previousAttestations c) (hg_previous group),
         hg_next := collectAttestations (hc_nextAttestations c) (hg_next group)\<rparr>) groups))))"

definition sortedAttestations :: "(string \<Rightarrow> string \<Rightarrow> bool) \<Rightarrow> (string, jsval) jsmap \<Rightarrow> jsval" where
  "sortedAttestations order m = JArr (map snd (foldr (insertBy order) m []))"

definition groupHandoff :: "(string \<Rightarrow> string \<Rightarrow> bool) \<Rightarrow> handoff_group \<Rightarrow> jsval" where
  "groupHandoff order g = JObj (jset ''previousAttestations'' (sortedAttestations order (hg_previous g))
     (jset ''nextAttestations'' (sortedAttestations order (hg_next g)) (hg_handoff g)))"

definition mergeValidatorHandoffCandidates :: "crypto \<Rightarrow> (string \<Rightarrow> string \<Rightarrow> bool) \<Rightarrow> string \<Rightarrow> int \<Rightarrow> member list \<Rightarrow>
    jsval list \<Rightarrow> chain_error + (jsval \<times> handoff \<times> string)" where
  "mergeValidatorHandoffCandidates cr order expectedNetworkId minimumActivationHeight trustedValidators candidates =
     (if candidates = [] \<or> length candidates > MAX_VALIDATORS then Inl (Refused ''validator handoff candidates are invalid'')
      else let groups = foldl (\<lambda>groups c.
             (case groupCandidate cr order expectedNetworkId minimumActivationHeight trustedValidators c groups of
                Inr groups' \<Rightarrow> groups' | Inl _ \<Rightarrow> groups)) [] candidates;
           complete = List.map_filter (\<lambda>g.
             (case verifyValidatorHandoff cr order expectedNetworkId minimumActivationHeight trustedValidators (groupHandoff order g) of
                Inr r \<Rightarrow> Some (groupHandoff order g, r) | Inl _ \<Rightarrow> None)) (jvalues groups) in
      case complete of
        [] \<Rightarrow> Inl (Refused ''validator handoff candidate quorum is not reached'')
      | [c] \<Rightarrow> Inr c
      | _ \<Rightarrow> Inl (Refused ''conflicting validator handoff quorums exist''))"

definition handoffId :: "jsval \<Rightarrow> jsval" where
  "handoffId v = (case v of JObj h \<Rightarrow> fld h ''handoffHash'' | _ \<Rightarrow> JUndef)"

text \<open>
  The first of the longest valid histories, unless a valid one disagrees with it on the positions
  they share, with the number of sources that hold all of it.
\<close>

definition selectValidatorHandoffHistories :: "crypto \<Rightarrow> (string \<Rightarrow> string \<Rightarrow> bool) \<Rightarrow> string \<Rightarrow> member list \<Rightarrow> jsval list \<Rightarrow>
    chain_error + (jsval list \<times> ((handoff \<times> string) option \<times> member list) \<times> nat)" where
  "selectValidatorHandoffHistories cr order expectedNetworkId trustedValidators candidates =
     (if candidates = [] \<or> length candidates > 128 then Inl (Refused ''validator handoff history candidates are invalid'')
      else let valid = List.map_filter (\<lambda>c.
             (case c of
                JArr hs \<Rightarrow>
                  if length hs > 128 then None
                  else (case advanceValidatorTrust cr order expectedNetworkId trustedValidators hs of
                    Inr r \<Rightarrow> Some (hs, r) | Inl _ \<Rightarrow> None)
              | _ \<Rightarrow> None)) candidates in
      case sort_key (\<lambda>c. - int (length (fst c))) valid of
        [] \<Rightarrow> Inl (Refused ''no valid validator handoff history exists'')
      | selected # others \<Rightarrow>
          let agrees = (\<lambda>c. list_all (\<lambda>(h, h'). strict_eq (handoffId h) (handoffId h')) (zip (fst selected) (fst c))) in
          if \<not> list_all agrees others then Inl (Refused ''authenticated validator handoff histories conflict'')
          else Inr (fst selected, snd selected,
            length (filter (\<lambda>c. length (fst c) = length (fst selected) \<and> agrees c) (selected # others))))"

section \<open>Trusted sets\<close>

definition trusted_member :: "crypto \<Rightarrow> member \<Rightarrow> bool" where
  "trusted_member cr m \<longleftrightarrow> mb_algorithm m = SIGNATURE_ALGORITHM \<and> short_string 4000 (mb_publicKey m) \<and>
     addressFromPublicKey cr (mb_publicKey m) = Some (mb_address m) \<and> operatorNamed (mb_operatorId m)"

abbreviation addressed :: "member \<Rightarrow> string \<times> member" where
  "addressed m \<equiv> (mb_address m, m)"

definition trust_set :: "crypto \<Rightarrow> (string \<Rightarrow> string \<Rightarrow> bool) \<Rightarrow> member list \<Rightarrow> bool" where
  "trust_set cr order ms \<longleftrightarrow> MIN_VALIDATOR_SET_SIZE \<le> length ms \<and> length ms \<le> MAX_VALIDATORS \<and>
     list_all (trusted_member cr) ms \<and> uniqueIdentities ms \<and> in_order order (map addressed ms)"

lemma memberObject_fld:
  "fld [(''address'', a), (''algorithm'', b), (''operatorId'', c), (''publicKey'', d)] ''address'' = a"
  "fld [(''address'', a), (''algorithm'', b), (''operatorId'', c), (''publicKey'', d)] ''algorithm'' = b"
  "fld [(''address'', a), (''algorithm'', b), (''operatorId'', c), (''publicKey'', d)] ''operatorId'' = c"
  "fld [(''address'', a), (''algorithm'', b), (''operatorId'', c), (''publicKey'', d)] ''publicKey'' = d"
  by (simp_all add: fld_def)

lemma validatorIdentity_Inr: "validatorIdentity cr message v = Inr m \<Longrightarrow> trusted_member cr m"
  by (auto simp: validatorIdentity_def trusted_member_def split: jsval.split_asm if_split_asm option.split_asm)

lemma validatorIdentity_member: "trusted_member cr m \<Longrightarrow> validatorIdentity cr message (memberObject m) = Inr m"
  by (simp add: validatorIdentity_def trusted_member_def memberObject_def memberObject_fld)

lemma sortByAddress_mset [simp]: "mset (sortByAddress order ms) = mset ms"
proof -
  have "mset (sortByAddress order ms) = image_mset snd (mset (map addressed ms))"
    by (simp add: sortByAddress_def foldr_insertBy_mset)
  then show ?thesis by (simp add: image_mset.compositionality o_def)
qed

lemma sortByAddress_simps [simp]:
  "length (sortByAddress order ms) = length ms" "set (sortByAddress order ms) = set ms"
  using mset_eq_length [OF sortByAddress_mset] mset_eq_setD [OF sortByAddress_mset] by blast+

lemma addressed_sorted: "map addressed (sortByAddress order ms) = foldr (insertBy order) (map addressed ms) []"
proof -
  have "set (foldr (insertBy order) (map addressed ms) []) = addressed ` set ms"
    using mset_eq_setD [OF foldr_insertBy_mset [of order "map addressed ms"]] by simp
  then have "\<And>x. x \<in> set (foldr (insertBy order) (map addressed ms) []) \<Longrightarrow> addressed (snd x) = x" by auto
  then have "map (\<lambda>x. addressed (snd x)) (foldr (insertBy order) (map addressed ms) []) = foldr (insertBy order) (map addressed ms) []"
    by (rule map_idI)
  then show ?thesis by (simp add: sortByAddress_def o_def)
qed

lemma sortByAddress_in_order: "in_order order (map addressed ms) \<Longrightarrow> sortByAddress order ms = ms"
  by (simp add: sortByAddress_def in_order_fold o_def)

lemma mapM_each: "mapM f xs = Inr ys \<Longrightarrow> (\<And>x y. f x = Inr y \<Longrightarrow> P y) \<Longrightarrow> list_all P ys"
  by (induction xs arbitrary: ys) (auto simp: bind_r_Inr_iff)

lemma mapM_identities: "list_all (trusted_member cr) ms \<Longrightarrow> mapM (validatorIdentity cr message) (map memberObject ms) = Inr ms"
  by (induction ms) (simp_all add: validatorIdentity_member)

lemma normalizeTrustSet_Inr:
  assumes "normalizeTrustSet cr order v = Inr ms" and "\<And>a b. order a b \<Longrightarrow> \<not> order b a"
  shows "trust_set cr order ms"
proof -
  obtain vs ns where v: "v = JArr vs" "MIN_VALIDATOR_SET_SIZE \<le> length vs" "length vs \<le> MAX_VALIDATORS"
    and ns: "mapM (validatorIdentity cr ''validator handoff identity is invalid'') vs = Inr ns"
    and ms: "ms = sortByAddress order ns" "uniqueIdentities ms"
    using assms(1) by (auto simp: normalizeTrustSet_def Let_def bind_r_Inr_iff split: jsval.split_asm if_split_asm)
  have "list_all (trusted_member cr) ns" by (rule mapM_each [OF ns]) (rule validatorIdentity_Inr)
  moreover have "length ns = length vs" by (rule mapM_length [OF ns])
  moreover have "in_order order (map addressed ms)" unfolding ms addressed_sorted by (rule foldr_in_order) (rule assms(2))
  ultimately show ?thesis using v ms by (simp add: trust_set_def list_all_iff)
qed

lemma normalizeTrustSet_again: "trust_set cr order ms \<Longrightarrow> normalizeTrustSet cr order (JArr (map memberObject ms)) = Inr ms"
  by (simp add: normalizeTrustSet_def trust_set_def mapM_identities sortByAddress_in_order)

lemma trust_set_distinct: "trust_set cr order ms \<Longrightarrow> distinct (map mb_address ms)"
  by (simp add: trust_set_def uniqueIdentities_def)

section \<open>What attestations show\<close>

lemma checkAttestation_Inr:
  assumes "checkAttestation cr payload members domain s v = Inr s'"
  obtains sig a m where "jget members a = Some m" and "a \<notin> set s"
    and "verifyObject cr payload sig (mb_publicKey m) domain" and "s' = s @ [a]"
  using assms by (auto simp: checkAttestation_def vget_def split: jsval.split_asm option.split_asm if_split_asm)

interpretation attestations: vote_count "checkAttestation cr payload members domain" id
    "\<lambda>_. signedBy cr members payload domain"
  for cr payload members domain
  by unfold_locales (auto elim!: checkAttestation_Inr simp: signedBy_def)

lemma verifyAttestations_quorum:
  assumes "verifyAttestations cr payload vs ms domain None = Inr seen" and "distinct (map mb_address ms)"
  shows "quorumSigned cr (byAddress ms) (byAddress ms) payload domain"
proof -
  obtain xs where xs: "foldM (checkAttestation cr payload (byAddress ms) domain) [] xs = Inr seen" "voteQuorum (length ms) \<le> length seen"
    using assms(1) by (auto simp: verifyAttestations_def bind_r_Inr_iff split: jsval.split_asm if_split_asm)
  have "distinct seen \<and> (\<forall>a \<in> set seen. signedBy cr (byAddress ms) payload domain a)"
    using attestations.tally [OF xs(1)] by simp
  then show ?thesis unfolding quorumSigned_def using xs(2) assms(2)
    by (intro exI [of _ "set seen"]) (auto simp: distinct_card byAddress_size signedBy_def jhas_iff_keys [symmetric] jhas_def)
qed

section \<open>What a handoff commits to\<close>

text \<open>The object a handoff's own fields say was hashed and signed, whatever set it is checked against.\<close>

definition handoffClaim :: "crypto \<Rightarrow> (string \<Rightarrow> string \<Rightarrow> bool) \<Rightarrow> jsval \<Rightarrow> jsval" where
  "handoffClaim cr order v =
     (case v of
        JObj h \<Rightarrow>
          (case normalizeTrustSet cr order (fld h ''nextValidators'') of
             Inl _ \<Rightarrow> JUndef
           | Inr ms \<Rightarrow> JObj [(''activationBlockHash'', fld h ''activationBlockHash''),
               (''activationHeight'', fld h ''activationHeight''), (''activationStateRoot'', fld h ''activationStateRoot''),
               (''format'', JStr HANDOFF_FORMAT), (''networkId'', fld h ''networkId''), (''nextSetId'', fld h ''nextSetId''),
               (''nextValidators'', JArr (map memberObject ms)), (''previousSetId'', fld h ''previousSetId'')])
      | _ \<Rightarrow> JUndef)"

text \<open>The byte strings hashed for the handoffs of a list.\<close>

definition handoffBytes :: "crypto \<Rightarrow> (string \<Rightarrow> string \<Rightarrow> bool) \<Rightarrow> jsval list \<Rightarrow> bytes set" where
  "handoffBytes cr order vs = {b. \<exists>v \<in> set vs. domainPayload cr ''VALIDATOR_HANDOFF'' (handoffClaim cr order v) = Inr b}"

lemma handoffPayload_Inr:
  assumes "handoffPayload cr order fs previousValidators = Inr p"
  obtains previous where "normalizeTrustSet cr order previousValidators = Inr previous"
    and "normalizeTrustSet cr order (fld fs ''nextValidators'') = Inr (ho_nextValidators p)"
    and "\<not> tooLittleOverlap previous (ho_nextValidators p)"
    and "validatorSetId cr (ho_nextValidators p) = Inr (ho_nextSetId p)" and "validatorSetId cr previous = Inr (ho_previousSetId p)"
    and "fld fs ''networkId'' = JStr (ho_networkId p)" and "safe_int (fld fs ''activationHeight'') = Some (ho_activationHeight p)"
    and "1 \<le> ho_activationHeight p" and "fld fs ''activationBlockHash'' = ho_activationBlockHash p"
    and "fld fs ''activationStateRoot'' = ho_activationStateRoot p"
proof (cases "fld fs ''networkId''")
  case (JStr networkId)
  with assms that show thesis
    by (cases "safe_int (fld fs ''activationHeight'')") (auto simp: handoffPayload_def bind_r_Inr_iff split: if_split_asm)
qed (use assms in \<open>auto simp: handoffPayload_def bind_r_Inr_iff split: if_split_asm\<close>)

lemma content_Inr:
  assumes "verifyHandoffContent cr order net low trusted v = Inr c" and "trust_set cr order trusted"
  shows "hc_current c = trusted" and "handoffObject (hc_payload c) = handoffClaim cr order v"
    and "handoffHash cr (hc_payload c) = Inr (hc_handoffHash c)" and "handoffId v = JStr (hc_handoffHash c)"
    and "low \<le> ho_activationHeight (hc_payload c)"
    and "\<exists>h. v = JObj h \<and> handoffPayload cr order h (JArr (map memberObject trusted)) = Inr (hc_payload c)"
proof -
  note again = normalizeTrustSet_again [OF assms(2)]
  obtain h where v: "v = JObj h" using assms(1) by (auto simp: verifyHandoffContent_def split: jsval.split_asm)
  from assms(1) obtain p where p: "handoffPayload cr order h (JArr (map memberObject trusted)) = Inr p"
      "ho_networkId p = net" "low \<le> ho_activationHeight p" "fld h ''previousSetId'' = JStr (ho_previousSetId p)"
      "fld h ''nextSetId'' = JStr (ho_nextSetId p)" "handoffHash cr p = Inr (hc_handoffHash c)"
      "fld h ''handoffHash'' = JStr (hc_handoffHash c)" "hc_current c = trusted" "hc_payload c = p"
    by (auto simp: v verifyHandoffContent_def again bind_r_Inr_iff split: if_split_asm)
  from p show "hc_current c = trusted" "handoffHash cr (hc_payload c) = Inr (hc_handoffHash c)"
    "handoffId v = JStr (hc_handoffHash c)" "low \<le> ho_activationHeight (hc_payload c)"
    "\<exists>h. v = JObj h \<and> handoffPayload cr order h (JArr (map memberObject trusted)) = Inr (hc_payload c)"
    by (simp_all add: v handoffId_def)
  from p(1) show "handoffObject (hc_payload c) = handoffClaim cr order v"
  proof (rule handoffPayload_Inr)
    assume f: "normalizeTrustSet cr order (fld h ''nextValidators'') = Inr (ho_nextValidators p)"
      "fld h ''networkId'' = JStr (ho_networkId p)" "safe_int (fld h ''activationHeight'') = Some (ho_activationHeight p)"
      "1 \<le> ho_activationHeight p" "fld h ''activationBlockHash'' = ho_activationBlockHash p"
      "fld h ''activationStateRoot'' = ho_activationStateRoot p"
    have "fld h ''activationHeight'' = JNum (ho_activationHeight p)"
      using f(3,4) by (cases "fld h ''activationHeight''") (auto split: if_split_asm)
    then show ?thesis using p f by (simp add: v handoffClaim_def handoffObject_def)
  qed
qed

lemma verifyValidatorHandoff_Inr:
  assumes "verifyValidatorHandoff cr order net low trusted v = Inr (p, hash)" and "trust_set cr order trusted"
    and "\<And>a b. order a b \<Longrightarrow> \<not> order b a"
  shows "trust_set cr order (ho_nextValidators p)" and "handoffObject p = handoffClaim cr order v"
    and "handoffHash cr p = Inr hash" and "handoffId v = JStr hash" and "low \<le> ho_activationHeight p"
    and "validatorSetId cr trusted = Inr (ho_previousSetId p)" and "validatorSetId cr (ho_nextValidators p) = Inr (ho_nextSetId p)"
    and "\<not> tooLittleOverlap trusted (ho_nextValidators p)"
    and "quorumSigned cr (byAddress trusted) (byAddress trusted) (handoffObject p) ''VALIDATOR_HANDOFF_OLD''"
    and "quorumSigned cr (byAddress (ho_nextValidators p)) (byAddress (ho_nextValidators p)) (handoffObject p) ''VALIDATOR_HANDOFF_NEW''"
proof -
  from assms(1) obtain c old new where c: "verifyHandoffContent cr order net low trusted v = Inr c" "p = hc_payload c"
      "hash = hc_handoffHash c"
    and old: "verifyAttestations cr (handoffObject p) (hc_previousAttestations c) (hc_current c) ''VALIDATOR_HANDOFF_OLD'' None = Inr old"
    and new: "verifyAttestations cr (handoffObject p) (hc_nextAttestations c) (ho_nextValidators p) ''VALIDATOR_HANDOFF_NEW'' None = Inr new"
    by (auto simp: verifyValidatorHandoff_def Let_def bind_r_Inr_iff)
  note content = content_Inr [OF c(1) assms(2)]
  from content c show "handoffObject p = handoffClaim cr order v" "handoffHash cr p = Inr hash" "handoffId v = JStr hash"
    "low \<le> ho_activationHeight p" by simp_all
  obtain h where h: "handoffPayload cr order h (JArr (map memberObject trusted)) = Inr p" using content(6) c(2) by blast
  from h show parts: "validatorSetId cr trusted = Inr (ho_previousSetId p)"
    "validatorSetId cr (ho_nextValidators p) = Inr (ho_nextSetId p)" "\<not> tooLittleOverlap trusted (ho_nextValidators p)"
    by (rule handoffPayload_Inr, simp add: normalizeTrustSet_again [OF assms(2)])+
  from h have n: "normalizeTrustSet cr order (fld h ''nextValidators'') = Inr (ho_nextValidators p)" by (rule handoffPayload_Inr)
  show next_set: "trust_set cr order (ho_nextValidators p)" by (rule normalizeTrustSet_Inr [OF n assms(3)])
  show "quorumSigned cr (byAddress trusted) (byAddress trusted) (handoffObject p) ''VALIDATOR_HANDOFF_OLD''"
    using verifyAttestations_quorum [OF old] trust_set_distinct [OF assms(2)] content(1) by simp
  show "quorumSigned cr (byAddress (ho_nextValidators p)) (byAddress (ho_nextValidators p)) (handoffObject p) ''VALIDATOR_HANDOFF_NEW''"
    by (rule verifyAttestations_quorum [OF new trust_set_distinct [OF next_set]])
qed

lemma same_hash_same_object:
  assumes "hashObject cr v d = Inr h" and "hashObject cr w d = Inr h" and "inj_on (sha3_hex cr) B"
    and "\<And>x. domainPayload cr d v = Inr x \<Longrightarrow> x \<in> B" and "\<And>x. domainPayload cr d w = Inr x \<Longrightarrow> x \<in> B"
  shows "canon (to_cval v) = canon (to_cval w)"
proof -
  obtain x where x: "domainPayload cr d v = Inr x" "sha3_hex cr x = h"
    using assms(1) by (auto simp: hashObject_def bind_r_Inr_iff)
  obtain y where y: "domainPayload cr d w = Inr y" "sha3_hex cr y = h"
    using assms(2) by (auto simp: hashObject_def bind_r_Inr_iff)
  have "x = y" by (rule inj_onD [OF assms(3)]) (use x y assms(4,5) in auto)
  with x(1) y(1) show ?thesis using domainPayload_inj by blast
qed

lemma canon_text: "canon (to_cval (JStr s)) = canon (to_cval v) \<Longrightarrow> v = JStr s"
  by (cases v) (simp_all add: eq_commute)

lemma canon_member:
  assumes "trusted_member cr m" and "trusted_member cr m'" and "canon (to_cval (memberObject m)) = canon (to_cval (memberObject m'))"
  shows "m = m'"
proof -
  have f: "canon (to_cval (fld [(''address'', JStr (mb_address m)), (''algorithm'', JStr (mb_algorithm m)),
        (''operatorId'', mb_operatorId m), (''publicKey'', mb_publicKey m)] k)) =
      canon (to_cval (fld [(''address'', JStr (mb_address m')), (''algorithm'', JStr (mb_algorithm m')),
        (''operatorId'', mb_operatorId m'), (''publicKey'', mb_publicKey m')] k))" for k
    by (rule canon_fld [OF assms(3) [unfolded memberObject_def]]) simp_all
  obtain k s where m: "mb_publicKey m = JStr k" "mb_operatorId m = JStr s"
    using assms(1) by (auto simp: trusted_member_def short_string_def operatorNamed_def split: jsval.split_asm)
  have "mb_address m = mb_address m'" using f [of "''address''"] by (simp add: memberObject_fld)
  moreover have "mb_operatorId m' = mb_operatorId m"
    unfolding m by (rule canon_text) (use f [of "''operatorId''"] m in \<open>simp only: memberObject_fld\<close>)
  moreover have "mb_publicKey m' = mb_publicKey m"
    unfolding m by (rule canon_text) (use f [of "''publicKey''"] m in \<open>simp only: memberObject_fld\<close>)
  ultimately show ?thesis using assms(1,2) by (auto simp: trusted_member_def intro: member.equality)
qed

lemma canon_members:
  assumes "list_all (trusted_member cr) ms" and "list_all (trusted_member cr) ms'"
    and "canon (to_cval (JArr (map memberObject ms))) = canon (to_cval (JArr (map memberObject ms')))"
  shows "ms = ms'"
proof -
  have "map (\<lambda>m. canon (to_cval (memberObject m))) ms = map (\<lambda>m. canon (to_cval (memberObject m))) ms'"
    using assms(3) by (simp add: o_def)
  moreover have "inj_on (\<lambda>m. canon (to_cval (memberObject m))) (set ms \<union> set ms')"
  proof (rule inj_onI)
    fix x y assume "x \<in> set ms \<union> set ms'" "y \<in> set ms \<union> set ms'"
    then have "trusted_member cr x" "trusted_member cr y" using assms(1,2) by (auto simp: list_all_iff)
    then show "canon (to_cval (memberObject x)) = canon (to_cval (memberObject y)) \<Longrightarrow> x = y" by (rule canon_member)
  qed
  ultimately show ?thesis by (simp add: inj_on_map_eq_map)
qed

text \<open>Handoffs of one hash lead to the same set at the same height.\<close>

lemma same_handoff:
  assumes "handoffHash cr p = Inr h" and "handoffHash cr q = Inr h" and "inj_on (sha3_hex cr) B"
    and "\<And>x. domainPayload cr ''VALIDATOR_HANDOFF'' (handoffObject p) = Inr x \<Longrightarrow> x \<in> B"
    and "\<And>x. domainPayload cr ''VALIDATOR_HANDOFF'' (handoffObject q) = Inr x \<Longrightarrow> x \<in> B"
    and "trust_set cr order (ho_nextValidators p)" and "trust_set cr order (ho_nextValidators q)"
  shows "ho_nextValidators p = ho_nextValidators q" and "ho_activationHeight p = ho_activationHeight q"
proof -
  have "canon (to_cval (handoffObject p)) = canon (to_cval (handoffObject q))"
    by (rule same_hash_same_object [OF _ _ assms(3-5)]) (use assms(1,2) in \<open>auto simp: handoffHash_def map_err_Inr_iff\<close>)
  note f = canon_fld [OF this [unfolded handoffObject_def]]
  show "ho_nextValidators p = ho_nextValidators q"
    by (rule canon_members [of cr]) (use f [of "''nextValidators''"] assms(6,7) in \<open>simp_all add: trust_set_def fld_def\<close>)
  show "ho_activationHeight p = ho_activationHeight q" using f [of "''activationHeight''"] by (simp add: fld_def)
qed

section \<open>Histories of handoffs\<close>

text \<open>More than a third of a set signed both payloads.\<close>

definition doublySigned :: "crypto \<Rightarrow> member list \<Rightarrow> string \<Rightarrow> jsval \<Rightarrow> jsval \<Rightarrow> bool" where
  "doublySigned cr ms domain payload payload' \<longleftrightarrow>
     (\<exists>A. A \<subseteq> mb_address ` set ms \<and> length ms < 3 * card A \<and>
        (\<forall>a \<in> A. signedBy cr (byAddress ms) payload domain a \<and> signedBy cr (byAddress ms) payload' domain a))"

lemma quorums_doublySigned:
  assumes "distinct (map mb_address ms)" and "quorumSigned cr (byAddress ms) (byAddress ms) p d"
    and "quorumSigned cr (byAddress ms) (byAddress ms) p' d"
  shows "doublySigned cr ms d p p'"
  using quorumSigned_intersect [OF byAddress_keys(2) assms(2,3)] byAddress_size [OF assms(1)]
  by (simp add: doublySigned_def byAddress_keys)

text \<open>The handoffs at position \<open>i\<close> of two histories are the first that differ.\<close>

definition split_at :: "jsval list \<Rightarrow> jsval list \<Rightarrow> nat \<Rightarrow> bool" where
  "split_at hs hs' i \<longleftrightarrow> i < length hs \<and> i < length hs' \<and> map handoffId (take i hs) = map handoffId (take i hs') \<and>
     handoffId (hs ! i) \<noteq> handoffId (hs' ! i)"

lemma split_at_Cons:
  "handoffId v = handoffId v' \<Longrightarrow> split_at hs hs' i \<Longrightarrow> split_at (v # hs) (v' # hs') (Suc i)"
  by (simp add: split_at_def)

lemma advanceTrust_eq:
  "advanceTrust cr order net (S, low, l) v =
     bind_r (verifyValidatorHandoff cr order net low S v) (\<lambda>r. Inr (ho_nextValidators (fst r), ho_activationHeight (fst r) + 1, Some r))"
  by (simp add: advanceTrust_def)

lemma histories:
  assumes "\<And>a b. order a b \<Longrightarrow> \<not> order b a" and "inj_on (sha3_hex cr) (handoffBytes cr order (hs0 @ hs0'))"
  shows "foldM (advanceTrust cr order net) (S, low, l) hs = Inr r \<Longrightarrow> foldM (advanceTrust cr order net) (S, low, l') hs' = Inr r' \<Longrightarrow>
    trust_set cr order S \<Longrightarrow> set hs \<subseteq> set hs0 \<Longrightarrow> set hs' \<subseteq> set hs0' \<Longrightarrow>
    (map handoffId (take (length hs') hs) = map handoffId (take (length hs) hs') \<and> (length hs = length hs' \<longrightarrow> fst r = fst r')) \<or>
    (\<exists>i T low' l''. split_at hs hs' i \<and> foldM (advanceTrust cr order net) (S, low, l) (take i hs) = Inr (T, low', l'') \<and>
       doublySigned cr T ''VALIDATOR_HANDOFF_OLD'' (handoffClaim cr order (hs ! i)) (handoffClaim cr order (hs' ! i)))"
proof (induction hs arbitrary: S low l l' hs')
  case Nil
  then show ?case by auto
next
  case (Cons v hs)
  note * = Cons
  show ?case
  proof (cases hs')
    case Nil
    then show ?thesis by simp
  next
    case (Cons v' ts)
    obtain p h where p: "verifyValidatorHandoff cr order net low S v = Inr (p, h)"
      and rest: "foldM (advanceTrust cr order net) (ho_nextValidators p, ho_activationHeight p + 1, Some (p, h)) hs = Inr r"
      using *(2) by (auto simp: advanceTrust_eq bind_r_Inr_iff)
    obtain q k where q: "verifyValidatorHandoff cr order net low S v' = Inr (q, k)"
      and rest': "foldM (advanceTrust cr order net) (ho_nextValidators q, ho_activationHeight q + 1, Some (q, k)) ts = Inr r'"
      using *(3) Cons by (auto simp: advanceTrust_eq bind_r_Inr_iff)
    note P = verifyValidatorHandoff_Inr [OF p *(4) assms(1)]
    note Q = verifyValidatorHandoff_Inr [OF q *(4) assms(1)]
    show ?thesis
    proof (cases "h = k")
      case False
      have "doublySigned cr S ''VALIDATOR_HANDOFF_OLD'' (handoffObject p) (handoffObject q)"
        by (rule quorums_doublySigned [OF trust_set_distinct [OF *(4)] P(9) Q(9)])
      moreover have "split_at (v # hs) hs' 0" using False P(4) Q(4) Cons by (simp add: split_at_def)
      ultimately show ?thesis using P(2) Q(2) Cons by (intro disjI2 exI [of _ 0]) simp
    next
      case True
      have same: "ho_nextValidators p = ho_nextValidators q" "ho_activationHeight p = ho_activationHeight q"
        by (rule same_handoff [OF P(3) Q(3) [folded True] assms(2) _ _ P(1) Q(1)];
            use P(2) Q(2) *(5,6) Cons in \<open>auto simp: handoffBytes_def\<close>)+
      note IH = *(1) [OF rest rest' [folded same] P(1)]
      have ids: "handoffId v = handoffId v'" using P(4) Q(4) True by simp
      have run: "foldM (advanceTrust cr order net) (S, low, l) (v # xs) =
          foldM (advanceTrust cr order net) (ho_nextValidators p, ho_activationHeight p + 1, Some (p, h)) xs" for xs
        using p by (simp add: advanceTrust_eq)
      from IH *(5,6) Cons consider
        (agree) "map handoffId (take (length ts) hs) = map handoffId (take (length hs) ts) \<and> (length hs = length ts \<longrightarrow> fst r = fst r')"
      | (split) i T low' l'' where "split_at hs ts i"
          "foldM (advanceTrust cr order net) (ho_nextValidators p, ho_activationHeight p + 1, Some (p, h)) (take i hs) = Inr (T, low', l'')"
          "doublySigned cr T ''VALIDATOR_HANDOFF_OLD'' (handoffClaim cr order (hs ! i)) (handoffClaim cr order (ts ! i))"
        by auto
      then show ?thesis
      proof cases
        case agree
        then show ?thesis using ids Cons by simp
      next
        case split
        have "split_at (v # hs) (v' # ts) (Suc i)" by (rule split_at_Cons [OF ids split(1)])
        moreover have "foldM (advanceTrust cr order net) (S, low, l) (take (Suc i) (v # hs)) = Inr (T, low', l'')"
          using run [of "take i hs"] split(2) by simp
        ultimately show ?thesis using split(3) Cons
          by (intro disjI2 exI [of _ "Suc i"] exI [of _ T] exI [of _ low'] exI [of _ l'']) simp
      qed
    qed
  qed
qed

lemma advanceValidatorTrust_Inr:
  assumes "advanceValidatorTrust cr order net trusted hs = Inr (final, T)" and "\<And>a b. order a b \<Longrightarrow> \<not> order b a"
  obtains S low where "normalizeTrustSet cr order (JArr (map memberObject trusted)) = Inr S" and "trust_set cr order S"
    and "foldM (advanceTrust cr order net) (S, 1, None) hs = Inr (T, low, final)" and "length hs \<le> MAX_VALIDATORS"
proof -
  from assms(1) obtain S low where *: "normalizeTrustSet cr order (JArr (map memberObject trusted)) = Inr S"
    "foldM (advanceTrust cr order net) (S, 1, None) hs = Inr (T, low, final)" "length hs \<le> MAX_VALIDATORS"
    by (auto simp: advanceValidatorTrust_def bind_r_Inr_iff split: if_split_asm)
  show thesis by (rule that [OF *(1) _ *(2,3)]) (rule normalizeTrustSet_Inr [OF *(1) assms(2)])
qed

text \<open>
  C5: Trust passes along one history of validator handoffs. Of two histories that are accepted from one
  trusted set, either each agrees with the other on all positions they share (and they lead to the
  same set if they are equally long), or more than a third of the validators trusted at the first
  position where they differ have signed both handoffs; the signatures are in the histories themselves.
  The hash has no collision among the handoffs of the two.
\<close>

theorem handoff_histories_accountable:
  assumes "\<And>a b. order a b \<Longrightarrow> \<not> order b a"
    and "inj_on (sha3_hex cr) (handoffBytes cr order (hs @ hs'))"
    and "advanceValidatorTrust cr order net trusted hs = Inr (final, T)"
    and "advanceValidatorTrust cr order net trusted hs' = Inr (final', T')"
  shows "(map handoffId (take (length hs') hs) = map handoffId (take (length hs) hs') \<and> (length hs = length hs' \<longrightarrow> T = T')) \<or>
    (\<exists>i last S. split_at hs hs' i \<and> advanceValidatorTrust cr order net trusted (take i hs) = Inr (last, S) \<and>
       doublySigned cr S ''VALIDATOR_HANDOFF_OLD'' (handoffClaim cr order (hs ! i)) (handoffClaim cr order (hs' ! i)))"
proof -
  obtain S low where S: "normalizeTrustSet cr order (JArr (map memberObject trusted)) = Inr S" "trust_set cr order S"
      "foldM (advanceTrust cr order net) (S, 1, None) hs = Inr (T, low, final)" "length hs \<le> MAX_VALIDATORS"
    using assms(3,1) by (rule advanceValidatorTrust_Inr)
  obtain low' where S': "foldM (advanceTrust cr order net) (S, 1, None) hs' = Inr (T', low', final')"
    using assms(4,1) by (rule advanceValidatorTrust_Inr) (use S(1) in auto)
  from histories [OF assms(1,2) S(3) S' S(2)] show ?thesis
    using S(1,4) by (auto simp: advanceValidatorTrust_def)
qed

text \<open>Along a history the heights of activation grow, and each set has quorum and overlap with the one before.\<close>

lemma handoff_chain:
  assumes "foldM (advanceTrust cr order net) (S, low, l) hs = Inr (T, low', l')" and "trust_set cr order S"
    and "\<And>a b. order a b \<Longrightarrow> \<not> order b a"
  shows "trust_set cr order T \<and> low \<le> low'"
  using assms(1,2)
proof (induction hs arbitrary: S low l)
  case Nil
  then show ?case by simp
next
  case (Cons v hs)
  obtain p h where p: "verifyValidatorHandoff cr order net low S v = Inr (p, h)"
    and rest: "foldM (advanceTrust cr order net) (ho_nextValidators p, ho_activationHeight p + 1, Some (p, h)) hs = Inr (T, low', l')"
    using Cons.prems(1) by (auto simp: advanceTrust_eq bind_r_Inr_iff)
  from Cons.IH [OF rest] verifyValidatorHandoff_Inr(1,5) [OF p Cons.prems(2) assms(3)] show ?case by simp
qed

section \<open>A scheduled rotation can be handed over\<close>

lemma bondedIdentity_Inr:
  "bondedIdentity cr bonds unbonded v = Inr m \<Longrightarrow>
     trusted_member cr m \<and> (MIN_VALIDATOR_BOND \<le> jget_or 0 bonds (mb_address m) \<or> mb_address m \<in> set unbonded)"
  by (auto simp: bondedIdentity_def bind_r_Inr_iff dest: validatorIdentity_Inr split: if_split_asm)

lemma normalizeValidatorSet_Inr:
  assumes "normalizeValidatorSet cr order v bonds unbonded = Inr ms" and "\<And>a b. order a b \<Longrightarrow> \<not> order b a"
  shows "trust_set cr order ms \<and> (\<forall>m \<in> set ms. MIN_VALIDATOR_BOND \<le> jget_or 0 bonds (mb_address m) \<or> mb_address m \<in> set unbonded)"
proof -
  obtain vs ns where v: "v = JArr vs" "MIN_VALIDATOR_SET_SIZE \<le> length vs" "length vs \<le> MAX_VALIDATORS"
    and ns: "mapM (bondedIdentity cr bonds unbonded) vs = Inr ns"
    and ms: "ms = sortByAddress order ns" "uniqueIdentities ms"
    using assms(1) by (auto simp: normalizeValidatorSet_def Let_def bind_r_Inr_iff split: jsval.split_asm if_split_asm)
  have "list_all (\<lambda>m. trusted_member cr m \<and> (MIN_VALIDATOR_BOND \<le> jget_or 0 bonds (mb_address m) \<or> mb_address m \<in> set unbonded)) ns"
    by (rule mapM_each [OF ns]) (rule bondedIdentity_Inr)
  moreover have "length ns = length vs" by (rule mapM_length [OF ns])
  moreover have "in_order order (map addressed ms)" unfolding ms addressed_sorted by (rule foldr_in_order) (rule assms(2))
  ultimately show ?thesis using v ms by (simp add: trust_set_def list_all_iff)
qed

lemma bondedIdentity_member: "bondedIdentity cr bonds unbonded (memberObject m) = Inr m' \<Longrightarrow> m' = m"
  by (auto simp: bondedIdentity_def bind_r_Inr_iff validatorIdentity_def memberObject_def memberObject_fld
      split: if_split_asm option.split_asm intro!: member.equality)

lemma mapM_inverse:
  assumes "\<And>x y. f (g x) = Inr y \<Longrightarrow> y = x"
  shows "mapM f (map g xs) = Inr ys \<Longrightarrow> ys = xs"
  by (induction xs arbitrary: ys) (auto simp: bind_r_Inr_iff dest: assms)

lemma normalizeValidatorSet_members:
  assumes "normalizeValidatorSet cr order (JArr (map memberObject ms)) bonds unbonded = Inr ns"
  shows "mset ns = mset ms"
proof -
  obtain xs where "mapM (bondedIdentity cr bonds unbonded) (map memberObject ms) = Inr xs" "ns = sortByAddress order xs"
    using assms by (auto simp: normalizeValidatorSet_def Let_def bind_r_Inr_iff split: if_split_asm)
  moreover from this(1) have "xs = ms" 
    by (rule mapM_inverse [where f = "bondedIdentity cr bonds unbonded" and g = memberObject, rotated]) (rule bondedIdentity_member)
  ultimately show ?thesis by simp
qed

lemma scheduleValidatorRotation_Inr:
  assumes "scheduleValidatorRotation cr order current proposed bonds height activation disabled = Inr r"
  obtains oldSet where "normalizeValidatorSet cr order (JArr (map memberObject current)) bonds disabled = Inr oldSet"
    and "normalizeValidatorSet cr order proposed bonds [] = Inr (vr_validators r)"
    and "\<not> tooLittleOverlap oldSet (vr_validators r)" and "height + MIN_ROTATION_DELAY_BLOCKS \<le> vr_activationHeight r"
    and "validatorSetId cr oldSet = Inr (vr_previousSetId r)" and "validatorSetId cr (vr_validators r) = Inr (vr_nextSetId r)"
  using assms by (auto simp: scheduleValidatorRotation_def bind_r_Inr_iff split: option.split_asm if_split_asm)

text \<open>
  C38: The two modules have one rule for validator sets. A rotation a block has scheduled is a handoff
  the client module accepts: from the same sets, for any block, state and height it is activated at,
  the payload is built without an error, with the identifiers of the rotation. Every member of the
  scheduled set is bonded.
\<close>

theorem scheduled_rotation_hands_over:
  assumes "scheduleValidatorRotation cr order current proposed bonds height activation disabled = Inr r"
    and "\<And>a b. order a b \<Longrightarrow> \<not> order b a" and "1 \<le> height"
    and "fld fs ''nextValidators'' = JArr (map memberObject (vr_validators r))"
    and "fld fs ''networkId'' = JStr net" and "net \<noteq> []" and "length net \<le> 128"
    and "safe_int (fld fs ''activationHeight'') = Some (vr_activationHeight r)"
    and "fld fs ''activationBlockHash'' = JStr hash" and "is_hex64 hash"
    and "fld fs ''activationStateRoot'' = JStr root" and "is_hex64 root"
  shows "\<exists>oldSet. normalizeTrustSet cr order (JArr (map memberObject oldSet)) = Inr oldSet \<and> mset oldSet = mset current \<and>
    handoffPayload cr order fs (JArr (map memberObject oldSet)) = Inr \<lparr>ho_activationBlockHash = JStr hash,
      ho_activationHeight = vr_activationHeight r, ho_activationStateRoot = JStr root, ho_networkId = net,
      ho_nextSetId = vr_nextSetId r, ho_nextValidators = vr_validators r, ho_previousSetId = vr_previousSetId r\<rparr> \<and>
    (\<forall>m \<in> set (vr_validators r). MIN_VALIDATOR_BOND \<le> jget_or 0 bonds (mb_address m))"
proof -
  obtain oldSet where old: "normalizeValidatorSet cr order (JArr (map memberObject current)) bonds disabled = Inr oldSet"
    and new: "normalizeValidatorSet cr order proposed bonds [] = Inr (vr_validators r)"
    and rest: "\<not> tooLittleOverlap oldSet (vr_validators r)" "height + MIN_ROTATION_DELAY_BLOCKS \<le> vr_activationHeight r"
      "validatorSetId cr oldSet = Inr (vr_previousSetId r)" "validatorSetId cr (vr_validators r) = Inr (vr_nextSetId r)"
    by (rule scheduleValidatorRotation_Inr [OF assms(1)])
  have again: "normalizeTrustSet cr order (JArr (map memberObject oldSet)) = Inr oldSet"
    "normalizeTrustSet cr order (JArr (map memberObject (vr_validators r))) = Inr (vr_validators r)"
    using normalizeValidatorSet_Inr [OF old assms(2)] normalizeValidatorSet_Inr [OF new assms(2)]
    by (simp_all add: normalizeTrustSet_again)
  moreover have "1 \<le> vr_activationHeight r" using rest(2) assms(3) by (simp add: MIN_ROTATION_DELAY_BLOCKS_def)
  ultimately have "handoffPayload cr order fs (JArr (map memberObject oldSet)) = Inr \<lparr>ho_activationBlockHash = JStr hash,
      ho_activationHeight = vr_activationHeight r, ho_activationStateRoot = JStr root, ho_networkId = net,
      ho_nextSetId = vr_nextSetId r, ho_nextValidators = vr_validators r, ho_previousSetId = vr_previousSetId r\<rparr>"
    using rest assms(4-12) by (cases net) (simp_all add: handoffPayload_def)
  moreover have "mset oldSet = mset current" by (rule normalizeValidatorSet_members [OF old])
  moreover have "\<forall>m \<in> set (vr_validators r). MIN_VALIDATOR_BOND \<le> jget_or 0 bonds (mb_address m)"
    using normalizeValidatorSet_Inr [OF new assms(2)] by simp
  ultimately show ?thesis using again(1) by blast
qed

section \<open>Handoffs by honest quorums are accepted\<close>

text \<open>The wallet signs for a member of the set, and the member's key verifies what it signed.\<close>

definition signsFor :: "crypto \<Rightarrow> member list \<Rightarrow> jsval \<Rightarrow> string \<Rightarrow> wallet \<Rightarrow> bool" where
  "signsFor cr ms payload domain w \<longleftrightarrow> length (snd w payload domain) \<le> 7000 \<and>
     (\<exists>m \<in> set ms. mb_address m = fst w \<and> verifyObject cr payload (JStr (snd w payload domain)) (mb_publicKey m) domain)"

lemma byAddress_get:
  assumes "distinct (map mb_address ms)" and "m \<in> set ms"
  shows "jget (byAddress ms) (mb_address m) = Some m"
proof -
  have "byAddress ms = foldl (\<lambda>m e. jset (fst e) (snd e) m) [] (map addressed ms)"
    by (simp add: byAddress_def foldl_map)
  then have "jget (byAddress ms) (mb_address m) = jget (rev (map addressed ms)) (mb_address m)"
    by (simp only: jget_foldl_jset) (simp add: jget_def split: option.split)
  moreover have "jwf (rev (map addressed ms))" using assms(1) by (simp add: jwf_def jkeys_def rev_map [symmetric] o_def)
  moreover have "(mb_address m, m) \<in> set (rev (map addressed ms))" using assms(2) by auto
  ultimately show ?thesis by (simp only: jget_iff_in)
qed

lemma attest_fld:
  "fld [(''signature'', a), (''validator'', b)] ''signature'' = a" "fld [(''signature'', a), (''validator'', b)] ''validator'' = b"
  by (simp_all add: fld_def)

lemma attested_accepted:
  assumes "attest payload ws domain = Inr vs" and "list_all (signsFor cr ms payload domain) ws" and "distinct (map fst ws)"
    and "distinct (map mb_address ms)" and "length ws \<le> length ms" and "voteQuorum (length ms) \<le> length ws"
  shows "verifyAttestations cr payload vs ms domain None = Inr (map fst ws)"
proof -
  let ?entry = "\<lambda>w. JObj [(''signature'', JStr (snd w payload domain)), (''validator'', JStr (fst w))]"
  have vs: "vs = JArr (map ?entry ws)" using assms(1) by (auto simp: attest_def split: if_split_asm)
  have "foldM (checkAttestation cr payload (byAddress ms) domain) seen (map ?entry ws) = Inr (seen @ map fst ws)"
    if "distinct (seen @ map fst ws)" "list_all (signsFor cr ms payload domain) ws" for seen
    using that
  proof (induction ws arbitrary: seen)
    case (Cons w ws)
    obtain m where m: "m \<in> set ms" "mb_address m = fst w" "length (snd w payload domain) \<le> 7000"
        "verifyObject cr payload (JStr (snd w payload domain)) (mb_publicKey m) domain"
      using Cons.prems(2) by (auto simp: signsFor_def)
    have "checkAttestation cr payload (byAddress ms) domain seen (?entry w) = Inr (seen @ [fst w])"
      using Cons.prems(1) m byAddress_get [OF assms(4) m(1)]
      by (simp add: checkAttestation_def attest_fld vget_def short_string_def)
    with Cons.IH [of "seen @ [fst w]"] Cons.prems show ?case by simp
  qed simp
  from this [of "[]"] assms vs show ?thesis by (simp add: verifyAttestations_def)
qed

lemma attested_fields:
  "fld [(''activationBlockHash'', a), (''activationHeight'', b), (''activationStateRoot'', c), (''format'', d), (''networkId'', e),
     (''nextSetId'', f), (''nextValidators'', g), (''previousSetId'', h), (''handoffHash'', i), (''nextAttestations'', j),
     (''previousAttestations'', k)] key =
   (if key = ''activationBlockHash'' then a else if key = ''activationHeight'' then b else if key = ''activationStateRoot'' then c
    else if key = ''format'' then d else if key = ''networkId'' then e else if key = ''nextSetId'' then f
    else if key = ''nextValidators'' then g else if key = ''previousSetId'' then h else if key = ''handoffHash'' then i
    else if key = ''nextAttestations'' then j else if key = ''previousAttestations'' then k else JUndef)"
  by (simp add: fld_def)

lemma created_handoff_verifies:
  assumes "createValidatorHandoff cr order fs oldWallets newWallets = Inr v"
    and "\<And>a b. order a b \<Longrightarrow> \<not> order b a"
    and "normalizeTrustSet cr order (fld fs ''previousValidators'') = Inr trusted"
    and "handoffPayload cr order fs (fld fs ''previousValidators'') = Inr p"
    and "list_all (signsFor cr trusted (handoffObject p) ''VALIDATOR_HANDOFF_OLD'') oldWallets" and "distinct (map fst oldWallets)"
    and "voteQuorum (length trusted) \<le> length oldWallets" and "length oldWallets \<le> length trusted"
    and "list_all (signsFor cr (ho_nextValidators p) (handoffObject p) ''VALIDATOR_HANDOFF_NEW'') newWallets" and "distinct (map fst newWallets)"
    and "voteQuorum (length (ho_nextValidators p)) \<le> length newWallets" and "length newWallets \<le> length (ho_nextValidators p)"
    and "1 \<le> low" and "low \<le> ho_activationHeight p" and "is_safe_int low"
  shows "\<exists>hash. handoffHash cr p = Inr hash \<and> verifyValidatorHandoff cr order (ho_networkId p) low trusted v = Inr (p, hash)"
proof -
  from assms(1,4) obtain hash new old where h: "handoffHash cr p = Inr hash"
    "attest (handoffObject p) newWallets ''VALIDATOR_HANDOFF_NEW'' = Inr new"
    "attest (handoffObject p) oldWallets ''VALIDATOR_HANDOFF_OLD'' = Inr old" "v = attestedHandoff p hash new old"
    by (auto simp: createValidatorHandoff_def bind_r_Inr_iff)
  have ts: "trust_set cr order trusted" by (rule normalizeTrustSet_Inr [OF assms(3,2)])
  obtain os where v: "v = JObj os" and os: "os = [(''activationBlockHash'', ho_activationBlockHash p),
     (''activationHeight'', JNum (ho_activationHeight p)), (''activationStateRoot'', ho_activationStateRoot p),
     (''format'', JStr HANDOFF_FORMAT), (''networkId'', JStr (ho_networkId p)), (''nextSetId'', JStr (ho_nextSetId p)),
     (''nextValidators'', JArr (map memberObject (ho_nextValidators p))), (''previousSetId'', JStr (ho_previousSetId p)),
     (''handoffHash'', JStr hash), (''nextAttestations'', new), (''previousAttestations'', old)]"
    using h(4) by (simp add: attestedHandoff_def handoffObject_def)
  from assms(4) have "handoffPayload cr order os (JArr (map memberObject trusted)) = Inr p \<and>
      distinct (map mb_address (ho_nextValidators p))"
  proof (rule handoffPayload_Inr)
    fix previous
    assume n: "normalizeTrustSet cr order (fld fs ''previousValidators'') = Inr previous"
      "normalizeTrustSet cr order (fld fs ''nextValidators'') = Inr (ho_nextValidators p)"
      "\<not> tooLittleOverlap previous (ho_nextValidators p)"
      "validatorSetId cr (ho_nextValidators p) = Inr (ho_nextSetId p)" "validatorSetId cr previous = Inr (ho_previousSetId p)"
      "safe_int (fld fs ''activationHeight'') = Some (ho_activationHeight p)" "1 \<le> ho_activationHeight p"
      "fld fs ''activationBlockHash'' = ho_activationBlockHash p" "fld fs ''activationStateRoot'' = ho_activationStateRoot p"
      "fld fs ''networkId'' = JStr (ho_networkId p)"
    have nts: "trust_set cr order (ho_nextValidators p)" by (rule normalizeTrustSet_Inr [OF n(2) assms(2)])
    have "safe_int (JNum (ho_activationHeight p)) = Some (ho_activationHeight p)" using safe_int_bound [OF n(6)] by simp
    then have "handoffPayload cr order os (JArr (map memberObject trusted)) = Inr p"
      using n assms(3,4) normalizeTrustSet_again [OF ts] normalizeTrustSet_again [OF nts]
      by (simp add: handoffPayload_def os attested_fields del: safe_int.simps split: if_split_asm)
    then show ?thesis using trust_set_distinct [OF nts] by blast
  qed
  then have payload: "handoffPayload cr order os (JArr (map memberObject trusted)) = Inr p"
    and nd: "distinct (map mb_address (ho_nextValidators p))" by blast+
  have "verifyHandoffContent cr order (ho_networkId p) low trusted v = Inr \<lparr>hc_current = trusted, hc_payload = p,
      hc_handoffHash = hash, hc_nextAttestations = new, hc_previousAttestations = old\<rparr>"
    using payload h(1) assms(13-15) normalizeTrustSet_again [OF ts]
    by (simp add: verifyHandoffContent_def v os attested_fields)
  moreover have "verifyAttestations cr (handoffObject p) old trusted ''VALIDATOR_HANDOFF_OLD'' None = Inr (map fst oldWallets)"
    by (rule attested_accepted [OF h(3) assms(5,6) trust_set_distinct [OF ts] assms(8,7)])
  moreover have "verifyAttestations cr (handoffObject p) new (ho_nextValidators p) ''VALIDATOR_HANDOFF_NEW'' None = Inr (map fst newWallets)"
    by (rule attested_accepted [OF h(2) assms(9,10) nd assms(12,11)])
  ultimately show ?thesis using h(1) by (simp add: verifyValidatorHandoff_def)
qed

section \<open>A handoff to evaluate\<close>

definition demo_order :: "string \<Rightarrow> string \<Rightarrow> bool" where
  "demo_order a b \<longleftrightarrow> b < a"

lemma demo_order_asym: "demo_order a b \<Longrightarrow> \<not> demo_order b a"
  by (simp add: demo_order_def)

definition demo_handoff_fields :: jsobj where
  "demo_handoff_fields = [(''activationBlockHash'', JStr demo_hex), (''activationHeight'', JNum 100),
     (''activationStateRoot'', JStr demo_hex), (''networkId'', JStr ''nir-test''),
     (''nextValidators'', JArr (map memberObject demo_beacons)), (''previousValidators'', JArr (map memberObject demo_beacons))]"

definition demo_signers :: "wallet list" where
  "demo_signers = map (\<lambda>m. (mb_address m, \<lambda>payload domain. ''sig'')) (take 3 demo_beacons)"

definition demo_handoff :: handoff where
  "demo_handoff = \<lparr>ho_activationBlockHash = JStr demo_hex, ho_activationHeight = 100, ho_activationStateRoot = JStr demo_hex,
     ho_networkId = ''nir-test'', ho_nextSetId = demo_hex, ho_nextValidators = demo_beacons, ho_previousSetId = demo_hex\<rparr>"

lemma demo_trust_set: "trust_set demo_keys demo_order demo_beacons"
  by code_simp

lemma demo_set_hash: "validatorSetId demo_keys demo_beacons = Inr demo_hex"
proof -
  have "json_ok (JArr (map validatorSetEntry (sort_key mb_address demo_beacons))) \<and> is_domain ''FINALITY_VALIDATOR_SET''" by code_simp
  then show ?thesis by (simp add: validatorSetId_def demo_keys_hash)
qed

lemma demo_payload: "handoffPayload demo_keys demo_order demo_handoff_fields (fld demo_handoff_fields ''previousValidators'') = Inr demo_handoff"
proof -
  have f: "fld demo_handoff_fields ''nextValidators'' = JArr (map memberObject demo_beacons)"
    "fld demo_handoff_fields ''previousValidators'' = JArr (map memberObject demo_beacons)"
    "fld demo_handoff_fields ''networkId'' = JStr ''nir-test''" "fld demo_handoff_fields ''activationHeight'' = JNum 100"
    "fld demo_handoff_fields ''activationBlockHash'' = JStr demo_hex" "fld demo_handoff_fields ''activationStateRoot'' = JStr demo_hex"
    by (simp_all add: demo_handoff_fields_def fld_def)
  have c: "\<not> tooLittleOverlap demo_beacons demo_beacons" "is_hex64 demo_hex" "safe_int (JNum 100) = Some 100" by code_simp+
  show ?thesis
    by (simp add: handoffPayload_def f c normalizeTrustSet_again [OF demo_trust_set] demo_set_hash demo_handoff_def del: safe_int.simps)
qed

lemma demo_handoff_ok: "json_ok (handoffObject demo_handoff) \<and> is_domain ''VALIDATOR_HANDOFF'' \<and> is_domain ''VALIDATOR_HANDOFF_OLD'' \<and>
    is_domain ''VALIDATOR_HANDOFF_NEW''"
  by code_simp

lemma demo_handoff_run:
  obtains v where "verifyValidatorHandoff demo_keys demo_order ''nir-test'' 1 demo_beacons v = Inr (demo_handoff, demo_hex)"
proof -
  have hash: "handoffHash demo_keys demo_handoff = Inr demo_hex"
    using demo_handoff_ok by (simp add: handoffHash_def demo_keys_hash)
  have len: "length demo_signers \<le> MAX_VALIDATORS" by code_simp
  then obtain v where v: "createValidatorHandoff demo_keys demo_order demo_handoff_fields demo_signers demo_signers = Inr v"
    by (simp add: createValidatorHandoff_def demo_payload hash attest_def)
  have signs: "list_all (signsFor demo_keys demo_beacons (handoffObject demo_handoff) d) demo_signers"
    if "is_domain d" for d
    using demo_handoff_ok that
    by (auto simp: list_all_iff signsFor_def demo_signers_def demo_beacons_def demo_beacon_def demo_keys_verify)
  have next_set: "ho_nextValidators demo_handoff = demo_beacons" "ho_networkId demo_handoff = ''nir-test''" "ho_activationHeight demo_handoff = 100"
    by (simp_all add: demo_handoff_def)
  have c: "distinct (map fst demo_signers)" "voteQuorum (length demo_beacons) \<le> length demo_signers"
    "length demo_signers \<le> length demo_beacons" "is_safe_int 1" by code_simp+
  have n: "normalizeTrustSet demo_keys demo_order (fld demo_handoff_fields ''previousValidators'') = Inr demo_beacons"
    using normalizeTrustSet_again [OF demo_trust_set] by (simp add: demo_handoff_fields_def fld_def)
  have "\<exists>hash. handoffHash demo_keys demo_handoff = Inr hash \<and>
      verifyValidatorHandoff demo_keys demo_order (ho_networkId demo_handoff) 1 demo_beacons v = Inr (demo_handoff, hash)"
    by (rule created_handoff_verifies [OF v demo_order_asym n demo_payload])
      (use c signs demo_handoff_ok in \<open>simp_all add: next_set\<close>)
  then show thesis using that hash by (simp add: next_set)
qed

theorem handoff_histories_accountable_witness:
  "\<exists>v T. advanceValidatorTrust demo_keys demo_order ''nir-test'' demo_beacons [v] = Inr (Some (demo_handoff, demo_hex), T) \<and>
     (T = demo_beacons \<or> doublySigned demo_keys demo_beacons ''VALIDATOR_HANDOFF_OLD''
        (handoffClaim demo_keys demo_order v) (handoffClaim demo_keys demo_order v))"
proof -
  obtain v where v: "verifyValidatorHandoff demo_keys demo_order ''nir-test'' 1 demo_beacons v = Inr (demo_handoff, demo_hex)"
    by (rule demo_handoff_run)
  have "ho_nextValidators demo_handoff = demo_beacons" by (simp add: demo_handoff_def)
  then have run: "advanceValidatorTrust demo_keys demo_order ''nir-test'' demo_beacons [v] = Inr (Some (demo_handoff, demo_hex), demo_beacons)"
    using v normalizeTrustSet_again [OF demo_trust_set] by (simp add: advanceValidatorTrust_def advanceTrust_eq MAX_VALIDATORS_def)
  have "inj_on (sha3_hex demo_keys) (handoffBytes demo_keys demo_order ([v] @ [v]))"
    by (auto simp: inj_on_def handoffBytes_def)
  from handoff_histories_accountable [OF demo_order_asym this run run] run show ?thesis by auto
qed

definition demo_bonds :: balances where
  "demo_bonds = map (\<lambda>m. (mb_address m, MIN_VALIDATOR_BOND)) demo_beacons"

lemma demo_rotation_scheduled:
  "scheduleValidatorRotation demo_keys demo_order demo_beacons (JArr (map memberObject demo_beacons)) demo_bonds 10 (JNum 100) [] =
     Inr \<lparr>vr_activationHeight = 100, vr_previousSetId = demo_hex, vr_nextSetId = demo_hex, vr_validators = demo_beacons\<rparr>"
proof -
  have "normalizeValidatorSet demo_keys demo_order (JArr (map memberObject demo_beacons)) demo_bonds [] = Inr demo_beacons" by code_simp
  moreover have "\<not> tooLittleOverlap demo_beacons demo_beacons" "is_safe_int 10" "safe_int (JNum 100) = Some 100" by code_simp+
  ultimately show ?thesis
    by (simp add: scheduleValidatorRotation_def demo_set_hash MIN_ROTATION_DELAY_BLOCKS_def del: safe_int.simps)
qed

theorem scheduled_rotation_hands_over_witness:
  "\<exists>oldSet :: member list. handoffPayload demo_keys demo_order demo_handoff_fields (JArr (map memberObject oldSet)) = Inr demo_handoff"
proof -
  have f: "fld demo_handoff_fields ''nextValidators'' = JArr (map memberObject demo_beacons)"
    "fld demo_handoff_fields ''networkId'' = JStr ''nir-test''" "safe_int (fld demo_handoff_fields ''activationHeight'') = Some 100"
    "fld demo_handoff_fields ''activationBlockHash'' = JStr demo_hex" "fld demo_handoff_fields ''activationStateRoot'' = JStr demo_hex"
    by (simp_all add: demo_handoff_fields_def fld_def MAX_SAFE_INTEGER_def)
  have "is_hex64 demo_hex" by code_simp
  with scheduled_rotation_hands_over [OF demo_rotation_scheduled demo_order_asym, of demo_handoff_fields "''nir-test''" demo_hex demo_hex] f
  show ?thesis by (auto simp: demo_handoff_def)
qed

end
