(* ===== verification/Upgrades.thy ===== *)
theory Upgrades
  imports Finality
begin

text \<open>
  The protocol version of each height (\<open>blockchain/protocol-upgrade.mjs\<close>): a block may schedule the
  next version for a later height, and the version changes exactly there. Every full node runs
  \<open>protocolTransition\<close> on every block it applies, and every light client on every header.
\<close>

section \<open>Versions\<close>

definition PROTOCOL_VERSION :: int where
  "PROTOCOL_VERSION = 24"

definition MIN_PROTOCOL_UPGRADE_DELAY_BLOCKS :: int where
  "MIN_PROTOCOL_UPGRADE_DELAY_BLOCKS = 16"

definition AUTHORIZED_PROTOCOL_UPGRADE_VERSION :: int where
  "AUTHORIZED_PROTOCOL_UPGRADE_VERSION = 29"

definition MAX_VERSION :: int where
  "MAX_VERSION = 2147483647"

definition normalizeSupportedProtocolVersions :: "int list \<Rightarrow> chain_error + int list" where
  "normalizeSupportedProtocolVersions versions =
     (if versions = [] \<or> list_ex (\<lambda>v. \<not> is_safe_int v \<or> v < PROTOCOL_VERSION \<or> v > MAX_VERSION) versions \<or> \<not> distinct versions
      then Inl (Refused ''supported protocol versions are invalid'')
      else let ordered = sort versions in
        if list_ex (\<lambda>(i, v). v \<noteq> PROTOCOL_VERSION + int i) (enumerate 0 ordered)
        then Inl (Refused ''supported protocol versions must be contiguous from genesis'')
        else Inr ordered)"

section \<open>Schedules\<close>

text \<open>
  \<open>Object.keys(value).sort().join(",")\<close>. A comma in a key cannot make up for a missing field: every
  field is also read and tested.
\<close>

definition joinComma :: "string list \<Rightarrow> string" where
  "joinComma ks = concat (map (\<lambda>k. k @ '','') (sort ks))"

definition comma_keys :: "jsobj \<Rightarrow> string list \<Rightarrow> bool" where
  "comma_keys obj ks \<longleftrightarrow> joinComma (map fst obj) = joinComma ks"

definition upgradeFields :: "int \<Rightarrow> string list" where
  "upgradeFields version =
     (if version \<ge> AUTHORIZED_PROTOCOL_UPGRADE_VERSION
      then [''activationHeight'', ''authorization'', ''format'', ''version'']
      else [''activationHeight'', ''format'', ''version''])"

definition upgradeFormat :: "int \<Rightarrow> string" where
  "upgradeFormat version =
     (if version \<ge> AUTHORIZED_PROTOCOL_UPGRADE_VERSION then ''nir-protocol-upgrade-v2'' else ''nir-protocol-upgrade-v1'')"

text \<open>The version and the height of a schedule that has the shape both functions test.\<close>

definition upgradeSchedule :: "jsval \<Rightarrow> (int \<times> int) option" where
  "upgradeSchedule v =
     (case v of
        JObj obj \<Rightarrow>
          (case (safe_int (fld obj ''version''), safe_int (fld obj ''activationHeight'')) of
             (Some version, Some activationHeight) \<Rightarrow>
               if comma_keys obj (upgradeFields version) \<and> fld obj ''format'' = JStr (upgradeFormat version) \<and> version \<le> MAX_VERSION
               then Some (version, activationHeight) else None
           | _ \<Rightarrow> None)
      | _ \<Rightarrow> None)"

definition upgradeAuthorization :: "jsval \<Rightarrow> jsval" where
  "upgradeAuthorization v = (case v of JObj obj \<Rightarrow> fld obj ''authorization'' | _ \<Rightarrow> JUndef)"

text \<open>
  What an authorized upgrade is checked against: the anchor pinned at genesis, the parent of the block,
  and the head of the release log, which the check moves on.
\<close>

record authorization_context =
  ac_anchor :: jsval
  ac_baseHeight :: int
  ac_baseTipHash :: jsval
  ac_chainIdentityGenesisHash :: jsval
  ac_head :: jsval
  ac_networkId :: string

text \<open>
  \<open>validateProtocolUpgradeAuthorization(value, context)\<close>, given the authorization, the context, the height
  of the activation and the version in force; it returns the normal authorization and the next head.
\<close>

type_synonym authorizer = "jsval \<Rightarrow> authorization_context \<Rightarrow> int \<Rightarrow> int \<Rightarrow> chain_error + (jsval \<times> jsval)"

definition headOf :: "authorization_context option \<Rightarrow> jsval" where
  "headOf context = (case context of None \<Rightarrow> JNull | Some c \<Rightarrow> ac_head c)"

definition scheduleObject :: "int \<Rightarrow> int \<Rightarrow> jsval option \<Rightarrow> jsval" where
  "scheduleObject version activationHeight authorization =
     JObj ([(''activationHeight'', JNum activationHeight)] @
       (case authorization of None \<Rightarrow> [] | Some a \<Rightarrow> [(''authorization'', a)]) @
       [(''format'', JStr (upgradeFormat version)), (''version'', JNum version)])"

text \<open>The schedule and the next release head.\<close>

definition normalizeProtocolUpgradeWithContext :: "authorizer \<Rightarrow> jsval \<Rightarrow> int \<Rightarrow> int \<Rightarrow> jsval \<Rightarrow> authorization_context option \<Rightarrow>
    chain_error + (jsval \<times> jsval)" where
  "normalizeProtocolUpgradeWithContext authorize v currentHeight currentVersion pendingUpgrade context =
     (if pendingUpgrade \<noteq> JNull then Inl (Refused ''a protocol upgrade is already pending'')
      else case upgradeSchedule v of
        None \<Rightarrow> Inl (Refused ''protocol upgrade schedule is invalid'')
      | Some (version, activationHeight) \<Rightarrow>
          if \<not> is_safe_int currentHeight \<or> currentHeight < 1 \<or> \<not> is_safe_int currentVersion \<or>
             currentVersion < PROTOCOL_VERSION \<or> version \<noteq> currentVersion + 1 \<or>
             activationHeight < currentHeight + MIN_PROTOCOL_UPGRADE_DELAY_BLOCKS
          then Inl (Refused ''protocol upgrade schedule is invalid'')
          else if version < AUTHORIZED_PROTOCOL_UPGRADE_VERSION
          then Inr (scheduleObject version activationHeight None, headOf context)
          else case context of
            None \<Rightarrow> Inl (Refused ''protocol upgrade authorization context is required'')
          | Some c \<Rightarrow>
              bind_r (authorize (upgradeAuthorization v) c activationHeight currentVersion) (\<lambda>(authorization, nextHead).
                Inr (scheduleObject version activationHeight (Some authorization), nextHead)))"

definition normalizeProtocolUpgrade :: "authorizer \<Rightarrow> jsval \<Rightarrow> int \<Rightarrow> int \<Rightarrow> authorization_context option \<Rightarrow> chain_error + jsval" where
  "normalizeProtocolUpgrade authorize v currentHeight currentVersion context =
     bind_r (normalizeProtocolUpgradeWithContext authorize v currentHeight currentVersion JNull context) (\<lambda>r. Inr (fst r))"

definition normalizePendingProtocolUpgrade :: "jsval \<Rightarrow> int \<Rightarrow> int \<Rightarrow> chain_error + jsval" where
  "normalizePendingProtocolUpgrade v currentHeight currentVersion =
     (if v = JNull then Inr JNull
      else case upgradeSchedule v of
        None \<Rightarrow> Inl (Refused ''pending protocol upgrade is invalid'')
      | Some (version, activationHeight) \<Rightarrow>
          if \<not> is_safe_int currentHeight \<or> currentHeight < 0 \<or> \<not> is_safe_int currentVersion \<or>
             currentVersion < PROTOCOL_VERSION \<or> version \<noteq> currentVersion + 1 \<or> activationHeight \<le> currentHeight
          then Inl (Refused ''pending protocol upgrade is invalid'') else Inr v)"

section \<open>Transitions\<close>

record protocol_state =
  ps_pendingUpgrade :: jsval
  ps_protocolVersion :: int
  ps_protocolReleaseHead :: jsval

text \<open>The version in force at a height and what is still pending there.\<close>

definition activateUpgrade :: "jsval \<Rightarrow> int \<Rightarrow> int \<Rightarrow> int \<times> jsval" where
  "activateUpgrade pending currentHeight currentVersion =
     (case upgradeSchedule pending of
        Some (version, activationHeight) \<Rightarrow>
          if activationHeight = currentHeight then (version, JNull) else (currentVersion, pending)
      | None \<Rightarrow> (currentVersion, pending))"

definition protocolTransition :: "authorizer \<Rightarrow> int list \<Rightarrow> jsval \<Rightarrow> int \<Rightarrow> int \<Rightarrow> jsval \<Rightarrow> jsval \<Rightarrow>
    authorization_context option \<Rightarrow> chain_error + protocol_state" where
  "protocolTransition authorize supportedVersions blockVersion currentHeight currentVersion pendingUpgrade proposedUpgrade context =
     bind_r (normalizeSupportedProtocolVersions supportedVersions) (\<lambda>supported.
     if \<not> is_safe_int currentHeight \<or> currentHeight < 1 \<or> \<not> is_safe_int currentVersion \<or> currentVersion < PROTOCOL_VERSION
     then Inl (Refused ''protocol transition state is invalid'')
     else bind_r (normalizePendingProtocolUpgrade pendingUpgrade (currentHeight - 1) currentVersion) (\<lambda>pending.
       let (activeVersion, pendingAfter) = activateUpgrade pending currentHeight currentVersion in
       if activeVersion \<notin> set supported then Inl (Refused ''unsupported protocol version'')
       else if blockVersion \<noteq> JNum activeVersion
       then Inl (Refused ''block protocol version does not match its activation height'')
       else if proposedUpgrade = JNull
       then Inr \<lparr>ps_pendingUpgrade = pendingAfter, ps_protocolVersion = activeVersion, ps_protocolReleaseHead = headOf context\<rparr>
       else bind_r (normalizeProtocolUpgradeWithContext authorize proposedUpgrade currentHeight activeVersion pendingAfter context)
         (\<lambda>(schedule, nextHead). Inr \<lparr>ps_pendingUpgrade = schedule, ps_protocolVersion = activeVersion,
            ps_protocolReleaseHead = (if context = None then JNull else nextHead)\<rparr>)))"

definition protocolVersionAtNextHeight :: "authorizer \<Rightarrow> int list \<Rightarrow> int \<Rightarrow> int \<Rightarrow> jsval \<Rightarrow> chain_error + int" where
  "protocolVersionAtNextHeight authorize supportedVersions currentHeight currentVersion pendingUpgrade =
     (let pending = (case pendingUpgrade of JObj obj \<Rightarrow> obj | _ \<Rightarrow> []);
          blockVersion = (if strict_eq (fld pending ''activationHeight'') (JNum (currentHeight + 1))
            then fld pending ''version'' else JNum currentVersion) in
      bind_r (protocolTransition authorize supportedVersions blockVersion (currentHeight + 1) currentVersion pendingUpgrade JNull None)
        (\<lambda>s. Inr (ps_protocolVersion s)))"

section \<open>What a transition does\<close>

text \<open>The upgrade needed no authorization, or the context's check accepted it.\<close>

definition upgradeAuthorized :: "authorizer \<Rightarrow> authorization_context option \<Rightarrow> jsval \<Rightarrow> int \<Rightarrow> int \<Rightarrow> bool" where
  "upgradeAuthorized authorize context v currentVersion activationHeight \<longleftrightarrow>
     currentVersion + 1 < AUTHORIZED_PROTOCOL_UPGRADE_VERSION \<or>
     (\<exists>c r. context = Some c \<and> authorize (upgradeAuthorization v) c activationHeight currentVersion = Inr r)"

lemma upgradeSchedule_bounds:
  assumes "upgradeSchedule v = Some (version, activationHeight)"
  shows "safe_int (JNum version) = Some version" and "safe_int (JNum activationHeight) = Some activationHeight" and "version \<le> MAX_VERSION"
  using assms safe_int_bound by (auto simp: upgradeSchedule_def split: jsval.split_asm option.split_asm if_split_asm)

lemma upgradeSchedule_null [simp]: "upgradeSchedule JNull = None"
  by (simp add: upgradeSchedule_def)

lemma scheduleObject_fld:
  "fld [(''activationHeight'', a), (''format'', b), (''version'', c)] ''version'' = c"
  "fld [(''activationHeight'', a), (''format'', b), (''version'', c)] ''activationHeight'' = a"
  "fld [(''activationHeight'', a), (''format'', b), (''version'', c)] ''format'' = b"
  "fld [(''activationHeight'', a), (''authorization'', d), (''format'', b), (''version'', c)] ''version'' = c"
  "fld [(''activationHeight'', a), (''authorization'', d), (''format'', b), (''version'', c)] ''activationHeight'' = a"
  "fld [(''activationHeight'', a), (''authorization'', d), (''format'', b), (''version'', c)] ''format'' = b"
  by (simp_all add: fld_def)

lemma upgradeSchedule_object:
  assumes "safe_int (JNum version) = Some version" and "safe_int (JNum h) = Some h" and "version \<le> MAX_VERSION"
    and "(authorization = None) = (version < AUTHORIZED_PROTOCOL_UPGRADE_VERSION)"
  shows "upgradeSchedule (scheduleObject version h authorization) = Some (version, h)"
  using assms
  by (cases authorization)
    (simp_all add: scheduleObject_def upgradeSchedule_def scheduleObject_fld upgradeFields_def comma_keys_def del: safe_int.simps)

lemma normalizeProtocolUpgradeWithContext_Inr:
  assumes "normalizeProtocolUpgradeWithContext authorize v h cv pending context = Inr (schedule, nextHead)"
  obtains a where "pending = JNull" and "upgradeSchedule v = Some (cv + 1, a)" and "h + MIN_PROTOCOL_UPGRADE_DELAY_BLOCKS \<le> a"
    and "upgradeSchedule schedule = Some (cv + 1, a)" and "upgradeAuthorized authorize context v cv a"
proof -
  note d = assms [unfolded normalizeProtocolUpgradeWithContext_def]
  from d have p: "pending = JNull" by (auto split: if_split_asm)
  from d p obtain a where s: "upgradeSchedule v = Some (cv + 1, a)" and a: "h + MIN_PROTOCOL_UPGRADE_DELAY_BLOCKS \<le> a"
    by (auto split: option.split_asm prod.split_asm if_split_asm)
  note b = upgradeSchedule_bounds [OF s]
  show thesis
  proof (cases "cv + 1 < AUTHORIZED_PROTOCOL_UPGRADE_VERSION")
    case True
    then have "schedule = scheduleObject (cv + 1) a None" using d p s by (auto split: if_split_asm)
    then have "upgradeSchedule schedule = Some (cv + 1, a)" using True upgradeSchedule_object [OF b] by simp
    with p s a True show thesis by (intro that) (simp_all add: upgradeAuthorized_def)
  next
    case False
    then obtain c auth where c: "context = Some c" "authorize (upgradeAuthorization v) c a cv = Inr (auth, nextHead)"
        "schedule = scheduleObject (cv + 1) a (Some auth)"
      using d p s by (auto simp: bind_r_Inr_iff split: if_split_asm option.split_asm)
    then have "upgradeSchedule schedule = Some (cv + 1, a)" using False upgradeSchedule_object [OF b] by simp
    with p s a c(1,2) show thesis by (intro that) (auto simp: upgradeAuthorized_def)
  qed
qed

lemma normalizePending_Inr:
  assumes "normalizePendingProtocolUpgrade v h cv = Inr w"
  shows "w = v" and "v = JNull \<or> (\<exists>a. upgradeSchedule v = Some (cv + 1, a) \<and> h < a)"
  using assms by (auto simp: normalizePendingProtocolUpgrade_def split: if_split_asm option.split_asm)

text \<open>One transition, by cases: whether the height is the one of the pending upgrade, and whether one is proposed.\<close>

lemma protocolTransition_Inr:
  assumes "protocolTransition authorize versions bv h cv pending proposed context = Inr s"
  obtains pendingAfter where "pending = JNull \<or> (\<exists>a. upgradeSchedule pending = Some (cv + 1, a) \<and> h \<le> a)"
    and "bv = JNum (ps_protocolVersion s)" and "ps_protocolVersion s \<in> set versions" and "PROTOCOL_VERSION \<le> ps_protocolVersion s"
    and "(ps_protocolVersion s, pendingAfter) = (if upgradeSchedule pending = Some (cv + 1, h) then (cv + 1, JNull) else (cv, pending))"
    and "proposed = JNull \<longrightarrow> ps_pendingUpgrade s = pendingAfter"
    and "proposed \<noteq> JNull \<longrightarrow> pendingAfter = JNull \<and> (\<exists>a. upgradeSchedule proposed = Some (ps_protocolVersion s + 1, a) \<and>
      h + MIN_PROTOCOL_UPGRADE_DELAY_BLOCKS \<le> a \<and> upgradeSchedule (ps_pendingUpgrade s) = Some (ps_protocolVersion s + 1, a) \<and>
      upgradeAuthorized authorize context proposed (ps_protocolVersion s) a)"
    and "1 \<le> h" and "is_safe_int h"
proof -
  from assms obtain supported p where sup: "normalizeSupportedProtocolVersions versions = Inr supported"
    and pre: "is_safe_int h" "1 \<le> h" "PROTOCOL_VERSION \<le> cv"
    and pend: "normalizePendingProtocolUpgrade pending (h - 1) cv = Inr p"
    and rest: "(case activateUpgrade p h cv of (activeVersion, pendingAfter) \<Rightarrow>
       if activeVersion \<notin> set supported then Inl (Refused ''unsupported protocol version'')
       else if bv \<noteq> JNum activeVersion
       then Inl (Refused ''block protocol version does not match its activation height'')
       else if proposed = JNull
       then Inr \<lparr>ps_pendingUpgrade = pendingAfter, ps_protocolVersion = activeVersion, ps_protocolReleaseHead = headOf context\<rparr>
       else bind_r (normalizeProtocolUpgradeWithContext authorize proposed h activeVersion pendingAfter context)
         (\<lambda>(schedule, nextHead). Inr \<lparr>ps_pendingUpgrade = schedule, ps_protocolVersion = activeVersion,
            ps_protocolReleaseHead = (if context = None then JNull else nextHead)\<rparr>)) = Inr s"
    by (auto simp: protocolTransition_def bind_r_Inr_iff split: if_split_asm)
  note P = normalizePending_Inr [OF pend]
  have act: "activateUpgrade p h cv = (if upgradeSchedule pending = Some (cv + 1, h) then (cv + 1, JNull) else (cv, pending))"
    using P by (auto simp: activateUpgrade_def)
  obtain v pa where va: "activateUpgrade p h cv = (v, pa)" by (cases "activateUpgrade p h cv")
  have sub: "set supported = set versions" using sup by (auto simp: normalizeSupportedProtocolVersions_def Let_def split: if_split_asm)
  have v: "v \<in> set versions" "bv = JNum v" "PROTOCOL_VERSION \<le> v"
    using rest va act pre(3) sub by (auto split: if_split_asm)
  show thesis
  proof (cases "proposed = JNull")
    case True
    with rest va v sub have "s = \<lparr>ps_pendingUpgrade = pa, ps_protocolVersion = v, ps_protocolReleaseHead = headOf context\<rparr>" by auto
    then show thesis using P(2) v va act True pre by (intro that [of pa]) auto
  next
    case False
    with rest va v sub obtain schedule nextHead where
      n: "normalizeProtocolUpgradeWithContext authorize proposed h v pa context = Inr (schedule, nextHead)"
      "ps_pendingUpgrade s = schedule" "ps_protocolVersion s = v"
      by (auto simp: bind_r_Inr_iff)
    from n(1) show thesis
      by (rule normalizeProtocolUpgradeWithContext_Inr) (use P(2) v va act False pre n(2,3) in \<open>intro that [of pa]; auto\<close>)
  qed
qed

lemma supported_safe:
  assumes "protocolTransition authorize versions bv h cv pending proposed context = Inr s" and "v \<in> set versions"
  shows "is_safe_int v"
proof -
  obtain supported where "normalizeSupportedProtocolVersions versions = Inr supported"
    using assms(1) by (auto simp: protocolTransition_def bind_r_Inr_iff)
  then show ?thesis using assms(2)
    by (auto simp: normalizeSupportedProtocolVersions_def list_ex_iff split: if_split_asm)
qed

lemma transition_without_proposal:
  assumes "protocolTransition authorize versions bv h cv pending proposed context = Inr s"
  shows "\<exists>t. protocolTransition authorize versions bv h cv pending JNull None = Inr t \<and> ps_protocolVersion t = ps_protocolVersion s"
proof -
  obtain supported p where *: "normalizeSupportedProtocolVersions versions = Inr supported"
    "is_safe_int h" "\<not> h < 1" "is_safe_int cv" "\<not> cv < PROTOCOL_VERSION"
    "normalizePendingProtocolUpgrade pending (h - 1) cv = Inr p"
    using assms by (auto simp: protocolTransition_def bind_r_Inr_iff split: if_split_asm)
  obtain v pa where "activateUpgrade p h cv = (v, pa)" by (cases "activateUpgrade p h cv")
  with * assms show ?thesis by (auto simp: protocolTransition_def bind_r_Inr_iff split: if_split_asm)
qed

section \<open>Runs of blocks\<close>

text \<open>
  A chain as far as its version goes: the height, version and pending upgrade after a block. A block has
  its version, its proposal and the context it is checked in.
\<close>

type_synonym version_state = "int \<times> int \<times> jsval"
type_synonym version_block = "jsval \<times> jsval \<times> authorization_context option"

definition upgradeStep :: "authorizer \<Rightarrow> int list \<Rightarrow> version_state \<Rightarrow> version_block \<Rightarrow> chain_error + version_state" where
  "upgradeStep authorize versions s b =
     (case (s, b) of ((h, cv, pending), (bv, proposed, context)) \<Rightarrow>
        bind_r (protocolTransition authorize versions bv (h + 1) cv pending proposed context) (\<lambda>t.
          Inr (h + 1, ps_protocolVersion t, ps_pendingUpgrade t)))"

abbreviation proposal :: "version_block \<Rightarrow> jsval" where
  "proposal b \<equiv> fst (snd b)"

text \<open>The block at position \<open>j\<close> proposed version \<open>cv + 1\<close> for the block at position \<open>i\<close>, in time and authorized.\<close>

definition scheduledBy :: "authorizer \<Rightarrow> int \<Rightarrow> version_block list \<Rightarrow> nat \<Rightarrow> nat \<Rightarrow> int \<Rightarrow> bool" where
  "scheduledBy authorize h0 bs j i cv \<longleftrightarrow> j < length bs \<and> int j + MIN_PROTOCOL_UPGRADE_DELAY_BLOCKS \<le> int i \<and>
     upgradeSchedule (proposal (bs ! j)) = Some (cv + 1, h0 + 1 + int i) \<and>
     upgradeAuthorized authorize (snd (snd (bs ! j))) (proposal (bs ! j)) cv (h0 + 1 + int i)"

text \<open>Every proposal's height is past, but for the one that is pending.\<close>

definition tracks :: "authorizer \<Rightarrow> int \<Rightarrow> version_block list \<Rightarrow> version_state \<Rightarrow> bool" where
  "tracks authorize h0 bs s \<longleftrightarrow> (case s of (h, cv, pending) \<Rightarrow> h = h0 + int (length bs) \<and>
     (\<forall>j < length bs. proposal (bs ! j) \<noteq> JNull \<longrightarrow> (\<exists>w a. upgradeSchedule (proposal (bs ! j)) = Some (w, a) \<and>
        (a \<le> h \<or> upgradeSchedule pending = Some (w, a)))) \<and>
     (pending = JNull \<or> (\<exists>j i. length bs \<le> i \<and> upgradeSchedule pending = Some (cv + 1, h0 + 1 + int i) \<and> scheduledBy authorize h0 bs j i cv)))"

lemma scheduledBy_mono: "scheduledBy authorize h0 bs j i cv \<Longrightarrow> scheduledBy authorize h0 (bs @ cs) j i cv"
  by (simp add: scheduledBy_def nth_append)

lemma upgradeStep_Inr:
  assumes "upgradeStep authorize versions (h, cv, pending) b = Inr (h', cv', pending')"
  obtains t where "fst b = JNum cv'" and "h' = h + 1" and "cv' = ps_protocolVersion t" and "pending' = ps_pendingUpgrade t"
    and "protocolTransition authorize versions (fst b) (h + 1) cv pending (proposal b) (snd (snd b)) = Inr t"
proof -
  obtain bv proposed ctx where b: "b = (bv, proposed, ctx)" by (cases b)
  obtain t where t: "protocolTransition authorize versions bv (h + 1) cv pending proposed ctx = Inr t"
    "h' = h + 1" "cv' = ps_protocolVersion t" "pending' = ps_pendingUpgrade t"
    using assms by (auto simp: upgradeStep_def b bind_r_Inr_iff)
  from t(1) have "bv = JNum cv'" unfolding t(3) by (rule protocolTransition_Inr)
  then show thesis using that [of t] t b by auto
qed

lemma tracks_step:
  assumes "tracks authorize h0 bs (h, cv, pending)" and "upgradeStep authorize versions (h, cv, pending) b = Inr (h', cv', pending')"
  shows "tracks authorize h0 (bs @ [b]) (h', cv', pending')"
    and "(cv' = cv + 1 \<and> (\<exists>j. scheduledBy authorize h0 bs j (length bs) cv)) \<or>
      (cv' = cv \<and> (\<forall>j < length bs. \<forall>w. upgradeSchedule (proposal (bs ! j)) \<noteq> Some (w, h0 + 1 + int (length bs))))"
proof -
  obtain t where t: "h' = h + 1" "cv' = ps_protocolVersion t" "pending' = ps_pendingUpgrade t"
    and run: "protocolTransition authorize versions (fst b) (h + 1) cv pending (proposal b) (snd (snd b)) = Inr t"
    using assms(2) by (rule upgradeStep_Inr)
  from run obtain pa where p: "pending = JNull \<or> (\<exists>a. upgradeSchedule pending = Some (cv + 1, a) \<and> h + 1 \<le> a)"
    and act: "(cv', pa) = (if upgradeSchedule pending = Some (cv + 1, h + 1) then (cv + 1, JNull) else (cv, pending))"
    and none: "proposal b = JNull \<longrightarrow> pending' = pa"
    and some: "proposal b \<noteq> JNull \<longrightarrow> pa = JNull \<and> (\<exists>a. upgradeSchedule (proposal b) = Some (cv' + 1, a) \<and>
      h + 1 + MIN_PROTOCOL_UPGRADE_DELAY_BLOCKS \<le> a \<and> upgradeSchedule pending' = Some (cv' + 1, a) \<and>
      upgradeAuthorized authorize (snd (snd b)) (proposal b) cv' a)"
    by (rule protocolTransition_Inr) (simp add: t)
  from assms(1) have h: "h = h0 + int (length bs)"
    and past: "\<And>j. j < length bs \<Longrightarrow> proposal (bs ! j) \<noteq> JNull \<Longrightarrow> \<exists>w a. upgradeSchedule (proposal (bs ! j)) = Some (w, a) \<and>
        (a \<le> h \<or> upgradeSchedule pending = Some (w, a))"
    and pend: "pending = JNull \<or> (\<exists>j i. length bs \<le> i \<and> upgradeSchedule pending = Some (cv + 1, h0 + 1 + int i) \<and>
        scheduledBy authorize h0 bs j i cv)"
    by (auto simp: tracks_def)
  show "(cv' = cv + 1 \<and> (\<exists>j. scheduledBy authorize h0 bs j (length bs) cv)) \<or>
      (cv' = cv \<and> (\<forall>j < length bs. \<forall>w. upgradeSchedule (proposal (bs ! j)) \<noteq> Some (w, h0 + 1 + int (length bs))))"
  proof (cases "upgradeSchedule pending = Some (cv + 1, h + 1)")
    case True
    with pend obtain j i where "scheduledBy authorize h0 bs j i cv" "h0 + 1 + int i = h + 1" by auto
    then show ?thesis using act True h by auto
  next
    case False
    have "upgradeSchedule (proposal (bs ! j)) \<noteq> Some (w, h0 + 1 + int (length bs))" if j: "j < length bs" for j w
    proof
      assume s: "upgradeSchedule (proposal (bs ! j)) = Some (w, h0 + 1 + int (length bs))"
      then have "proposal (bs ! j) \<noteq> JNull" by auto
      from past [OF j this] s h have "upgradeSchedule pending = Some (w, h + 1)" by auto
      with pend False show False by auto
    qed
    then show ?thesis using act False by auto
  qed
  show "tracks authorize h0 (bs @ [b]) (h', cv', pending')"
  proof (cases "proposal b = JNull")
    case True
    have "\<exists>w a. upgradeSchedule (proposal (bs ! j)) = Some (w, a) \<and> (a \<le> h' \<or> upgradeSchedule pending' = Some (w, a))"
      if "j < length bs" "proposal (bs ! j) \<noteq> JNull" for j
      using past [OF that] act none True t(1) by (auto split: if_split_asm)
    moreover have "pending' = JNull \<or> (\<exists>j i. length (bs @ [b]) \<le> i \<and> upgradeSchedule pending' = Some (cv' + 1, h0 + 1 + int i) \<and>
        scheduledBy authorize h0 (bs @ [b]) j i cv')"
    proof (cases "upgradeSchedule pending = Some (cv + 1, h + 1) \<or> pending = JNull")
      case True
      then show ?thesis using act none \<open>proposal b = JNull\<close> by (auto split: if_split_asm)
    next
      case False
      with pend obtain j i where i: "length bs \<le> i" "upgradeSchedule pending = Some (cv + 1, h0 + 1 + int i)"
        "scheduledBy authorize h0 bs j i cv" by auto
      have "i \<noteq> length bs" using False i(2) h by auto
      then show ?thesis using False i act none \<open>proposal b = JNull\<close> scheduledBy_mono [OF i(3), of "[b]"] by auto
    qed
    ultimately show ?thesis using h t(1) True by (auto simp: tracks_def nth_append less_Suc_eq)
  next
    case False
    with some obtain a where a: "pa = JNull" "upgradeSchedule (proposal b) = Some (cv' + 1, a)"
      "h + 1 + MIN_PROTOCOL_UPGRADE_DELAY_BLOCKS \<le> a" "upgradeSchedule pending' = Some (cv' + 1, a)"
      "upgradeAuthorized authorize (snd (snd b)) (proposal b) cv' a" by auto
    define i where "i = nat (a - h0 - 1)"
    have i: "a = h0 + 1 + int i" "int (length bs) + MIN_PROTOCOL_UPGRADE_DELAY_BLOCKS \<le> int i" "length (bs @ [b]) \<le> i"
      using a(3) h by (simp_all add: i_def MIN_PROTOCOL_UPGRADE_DELAY_BLOCKS_def)
    have "scheduledBy authorize h0 (bs @ [b]) (length bs) i cv'" using a i by (simp add: scheduledBy_def)
    moreover have "\<exists>w a. upgradeSchedule (proposal (bs ! j)) = Some (w, a) \<and> (a \<le> h' \<or> upgradeSchedule pending' = Some (w, a))"
      if "j < length bs" "proposal (bs ! j) \<noteq> JNull" for j
    proof -
      from past [OF that] obtain w c where c: "upgradeSchedule (proposal (bs ! j)) = Some (w, c)" "c \<le> h \<or> upgradeSchedule pending = Some (w, c)"
        by auto
      moreover have "upgradeSchedule pending = Some (w, c) \<Longrightarrow> c = h + 1" using act a(1) by (auto split: if_split_asm)
      ultimately show ?thesis using t(1) by auto
    qed
    ultimately show ?thesis using h t(1) a i by (auto simp: tracks_def nth_append less_Suc_eq)
  qed
qed

lemma tracks_run:
  "foldM (upgradeStep authorize versions) (h0, v0, JNull) bs = Inr s \<Longrightarrow> tracks authorize h0 bs s"
proof (induction bs arbitrary: s rule: rev_induct)
  case Nil
  then show ?case by (auto simp: tracks_def)
next
  case (snoc b bs)
  then obtain t where "foldM (upgradeStep authorize versions) (h0, v0, JNull) bs = Inr t" "upgradeStep authorize versions t b = Inr s"
    by (auto simp: foldM_append bind_r_Inr_iff)
  then show ?case using snoc.IH tracks_step(1) by (cases s; cases t) blast
qed

text \<open>
  C4: Protocol upgrades happen as scheduled, and only so. When a chain that started without a pending
  upgrade takes one more block, the block carries the version in force: the one before it, unless an
  earlier block, at least sixteen below, scheduled the next version for exactly this height and (from
  version 29 on) its authorization was accepted; then it is that next version. No schedule for this
  height is passed over.
\<close>

theorem upgrades_follow_schedule:
  assumes "foldM (upgradeStep authorize versions) (h0, v0, JNull) (bs @ [b]) = Inr (h', cv', pending')"
  shows "\<exists>cv pending. foldM (upgradeStep authorize versions) (h0, v0, JNull) bs = Inr (h0 + int (length bs), cv, pending) \<and>
    fst b = JNum cv' \<and> cv' \<in> set versions \<and>
    ((cv' = cv + 1 \<and> (\<exists>j. scheduledBy authorize h0 bs j (length bs) cv)) \<or>
     (cv' = cv \<and> (\<forall>j < length bs. \<forall>w. upgradeSchedule (proposal (bs ! j)) \<noteq> Some (w, h0 + 1 + int (length bs)))))"
proof -
  obtain h cv pending where run: "foldM (upgradeStep authorize versions) (h0, v0, JNull) bs = Inr (h, cv, pending)"
    and step: "upgradeStep authorize versions (h, cv, pending) b = Inr (h', cv', pending')"
    using assms by (auto simp: foldM_append bind_r_Inr_iff)
  note tracks = tracks_run [OF run]
  have "h = h0 + int (length bs)" using tracks by (simp add: tracks_def)
  moreover obtain t where t: "fst b = JNum cv'" "cv' = ps_protocolVersion t"
    and "protocolTransition authorize versions (fst b) (h + 1) cv pending (proposal b) (snd (snd b)) = Inr t"
    using step by (rule upgradeStep_Inr)
  moreover from this(3) have "cv' \<in> set versions" unfolding t(2) by (rule protocolTransition_Inr)
  ultimately show ?thesis using run tracks_step(2) [OF tracks step] by auto
qed

text \<open>
  C39: What a transition leaves is a state the next transition accepts: a supported version, and a pending
  upgrade that is absent or has the shape, the next version and a later height. So a node never stops at
  its own state, and a state it restores from a snapshot passes the same check.
\<close>

theorem transition_state_valid:
  assumes "protocolTransition authorize versions bv h cv pending proposed context = Inr s"
  shows "ps_protocolVersion s \<in> set versions \<and> is_safe_int (ps_protocolVersion s) \<and>
    normalizePendingProtocolUpgrade (ps_pendingUpgrade s) h (ps_protocolVersion s) = Inr (ps_pendingUpgrade s)"
  using assms
proof (rule protocolTransition_Inr)
  fix pa
  assume p: "pending = JNull \<or> (\<exists>a. upgradeSchedule pending = Some (cv + 1, a) \<and> h \<le> a)"
    and v: "ps_protocolVersion s \<in> set versions" "PROTOCOL_VERSION \<le> ps_protocolVersion s"
    and act: "(ps_protocolVersion s, pa) = (if upgradeSchedule pending = Some (cv + 1, h) then (cv + 1, JNull) else (cv, pending))"
    and none: "proposed = JNull \<longrightarrow> ps_pendingUpgrade s = pa"
    and some: "proposed \<noteq> JNull \<longrightarrow> pa = JNull \<and> (\<exists>a. upgradeSchedule proposed = Some (ps_protocolVersion s + 1, a) \<and>
      h + MIN_PROTOCOL_UPGRADE_DELAY_BLOCKS \<le> a \<and> upgradeSchedule (ps_pendingUpgrade s) = Some (ps_protocolVersion s + 1, a) \<and>
      upgradeAuthorized authorize context proposed (ps_protocolVersion s) a)"
    and h: "1 \<le> h" "is_safe_int h"
  have "ps_pendingUpgrade s = JNull \<or> (\<exists>a. upgradeSchedule (ps_pendingUpgrade s) = Some (ps_protocolVersion s + 1, a) \<and> h < a)"
  proof (cases "proposed = JNull")
    case True
    then show ?thesis using p act none by (fastforce split: if_split_asm)
  next
    case False
    then show ?thesis using some by (auto simp: MIN_PROTOCOL_UPGRADE_DELAY_BLOCKS_def)
  qed
  moreover have "is_safe_int (ps_protocolVersion s)" by (rule supported_safe [OF assms v(1)])
  ultimately show ?thesis using v h by (auto simp: normalizePendingProtocolUpgrade_def)
qed

text \<open>
  C40: The version a producer computes for its next block is the version every verifier demands of it.
\<close>

theorem producer_version_agrees:
  assumes "protocolTransition authorize versions bv (h + 1) cv pending proposed context = Inr s"
  shows "bv = JNum (ps_protocolVersion s) \<and> protocolVersionAtNextHeight authorize versions h cv pending = Inr (ps_protocolVersion s)"
proof -
  have bv: "bv = JNum (ps_protocolVersion s)" using assms by (rule protocolTransition_Inr)
  let ?obj = "case pending of JObj obj \<Rightarrow> obj | _ \<Rightarrow> []"
  have "(if strict_eq (fld ?obj ''activationHeight'') (JNum (h + 1)) then fld ?obj ''version'' else JNum cv) = bv"
    using assms
  proof (rule protocolTransition_Inr)
    fix pa
    assume p: "pending = JNull \<or> (\<exists>a. upgradeSchedule pending = Some (cv + 1, a) \<and> h + 1 \<le> a)"
      and act: "(ps_protocolVersion s, pa) = (if upgradeSchedule pending = Some (cv + 1, h + 1) then (cv + 1, JNull) else (cv, pending))"
      and h: "1 \<le> h + 1" and v: "PROTOCOL_VERSION \<le> ps_protocolVersion s"
    show ?thesis
    proof (cases "pending = JNull")
      case True
      then show ?thesis using act bv by (simp add: fld_def)
    next
      case False
      with p obtain a where a: "upgradeSchedule pending = Some (cv + 1, a)" "h + 1 \<le> a" by blast
      then obtain obj where obj: "pending = JObj obj" "safe_int (fld obj ''version'') = Some (cv + 1)"
        "safe_int (fld obj ''activationHeight'') = Some a"
        by (auto simp: upgradeSchedule_def split: jsval.split_asm option.split_asm if_split_asm)
      have "cv + 1 \<noteq> 0" using act v by (auto simp: PROTOCOL_VERSION_def split: if_split_asm)
      with obj(2) have ver: "fld obj ''version'' = JNum (cv + 1)"
        by (cases "fld obj ''version''") (auto split: if_split_asm)
      from obj(3) a(2) h have height: "fld obj ''activationHeight'' = JNum a"
        by (cases "fld obj ''activationHeight''") (auto split: if_split_asm)
      show ?thesis using act bv a ver height by (auto simp: obj(1) split: if_split_asm)
    qed
  qed
  then show ?thesis
    using bv transition_without_proposal [OF assms] by (auto simp: protocolVersionAtNextHeight_def Let_def)
qed

definition demo_proposal :: jsval where
  "demo_proposal = scheduleObject 25 17 None"

definition demo_blocks :: "version_block list" where
  "demo_blocks = (JNum 24, demo_proposal, None) # replicate 15 (JNum 24, JNull, None)"

definition demo_authorizer :: authorizer where
  "demo_authorizer v c a cv = Inl Threw"

lemma demo_upgrade_run:
  "foldM (upgradeStep demo_authorizer SUPPORTED_PROTOCOL_VERSIONS) (0, 24, JNull) (demo_blocks @ [(JNum 25, JNull, None)]) = Inr (17, 25, JNull)"
  by code_simp

theorem upgrades_follow_schedule_witness:
  "\<exists>cv pending. foldM (upgradeStep demo_authorizer SUPPORTED_PROTOCOL_VERSIONS) (0, 24, JNull) demo_blocks = Inr (16, cv, pending) \<and>
    25 = cv + 1 \<and> (\<exists>j. scheduledBy demo_authorizer 0 demo_blocks j 16 cv)"
proof -
  have s: "upgradeSchedule (proposal (demo_blocks ! 0)) = Some (25, 17)" and l: "length demo_blocks = 16" by code_simp+
  obtain cv pending where cv: "foldM (upgradeStep demo_authorizer SUPPORTED_PROTOCOL_VERSIONS) (0, 24, JNull) demo_blocks = Inr (16, cv, pending)"
    and c: "(25 = cv + 1 \<and> (\<exists>j. scheduledBy demo_authorizer 0 demo_blocks j 16 cv)) \<or>
      (25 = cv \<and> (\<forall>j < 16. \<forall>w. upgradeSchedule (proposal (demo_blocks ! j)) \<noteq> Some (w, 17)))"
    using upgrades_follow_schedule [OF demo_upgrade_run] l by auto
  from c s have "25 = cv + 1 \<and> (\<exists>j. scheduledBy demo_authorizer 0 demo_blocks j 16 cv)" by (metis zero_less_numeral)
  with cv show ?thesis by blast
qed

lemma demo_upgrade:
  "protocolTransition demo_authorizer SUPPORTED_PROTOCOL_VERSIONS (JNum 25) 17 24 demo_proposal (scheduleObject 26 40 None) None =
     Inr \<lparr>ps_pendingUpgrade = scheduleObject 26 40 None, ps_protocolVersion = 25, ps_protocolReleaseHead = JNull\<rparr>"
  by code_simp

theorem transition_state_valid_witness:
  "normalizePendingProtocolUpgrade (scheduleObject 26 40 None) 17 25 = Inr (scheduleObject 26 40 None)"
  using transition_state_valid [OF demo_upgrade] by simp

theorem producer_version_agrees_witness:
  "protocolVersionAtNextHeight demo_authorizer SUPPORTED_PROTOCOL_VERSIONS 16 24 demo_proposal = Inr 25"
  using producer_version_agrees [of demo_authorizer SUPPORTED_PROTOCOL_VERSIONS "JNum 25" 16 24 demo_proposal] demo_upgrade by simp

end
