(* ===== verification/LightClient.thy ===== *)
theory LightClient
  imports Handoff Upgrades Equivocation
begin

text \<open>
  Light clients (\<open>blockchain/light-client.mjs\<close>): proofs of finality made of headers and certificates,
  and the chain of proofs by which a client that trusts a checkpoint and a validator set follows the
  headers, the protocol versions and the handoffs of validators. The release log that authorizes upgrades
  (\<open>offline-release-governance.mjs\<close>) is the parameter \<open>release_log\<close>.
\<close>

section \<open>Votes\<close>

definition MAX_FINALITY_PROOFS :: nat where
  "MAX_FINALITY_PROOFS = 512"

definition MAX_FINALITY_CHAIN_BYTES :: nat where
  "MAX_FINALITY_CHAIN_BYTES = 32 * 1024 * 1024"

definition finalityProofFormat :: "int \<Rightarrow> string" where
  "finalityProofFormat v =
     (if v \<ge> CHAIN_IDENTITY_CHECKPOINT_PROTOCOL_VERSION then ''nir-finality-proof-v5''
      else if v \<ge> EVALUATION_ASSIGNMENT_ROOT_PROTOCOL_VERSION then ''nir-finality-proof-v4''
      else if v \<ge> RECOVERY_STATE_COMMITMENT_PROTOCOL_VERSION then ''nir-finality-proof-v3''
      else ''nir-finality-proof-v2'')"

text \<open>\<open>v ?? []\<close>, and the round of the first prepare vote, or else the block's.\<close>

definition orEmpty :: "jsval \<Rightarrow> jsval" where
  "orEmpty v = (if v = JUndef \<or> v = JNull then JArr [] else v)"

definition roundOfProof :: "jsobj \<Rightarrow> jsval" where
  "roundOfProof block =
     (let r = (case fld block ''prepareCertificate'' of
          JArr (JObj vote # _) \<Rightarrow> fld vote ''round''
        | _ \<Rightarrow> JUndef) in
      if r = JUndef \<or> r = JNull then fld block ''round'' else r)"

definition createFinalityProof :: "crypto \<Rightarrow> jsobj \<Rightarrow> chain_error + jsval" where
  "createFinalityProof cr block =
     bind_r (blockHeader cr block) (\<lambda>header.
     let v = (case fld block ''protocolVersion'' of JNum v \<Rightarrow> v | _ \<Rightarrow> 0) in
     Inr (JObj [(''certificate'', orEmpty (fld block ''certificate'')), (''format'', JStr (finalityProofFormat v)),
       (''hash'', fld block ''hash''), (''header'', JObj header),
       (''prepareCertificate'', orEmpty (fld block ''prepareCertificate'')), (''round'', roundOfProof block)]))"

definition normalizeValidators :: "(string \<Rightarrow> string \<Rightarrow> bool) \<Rightarrow> member list \<Rightarrow> chain_error + member list" where
  "normalizeValidators order validators =
     (if length validators < 4 \<or> length validators > MAX_VALIDATORS
      then Inl (Refused ''light client validator set is invalid'')
      else let ordered = sortByAddress order validators in
        if \<not> distinct (map mb_address ordered) then Inl (Refused ''light client validator set contains duplicates'')
        else Inr ordered)"

text \<open>One turn of the loop over the prepare votes: the members seen, and the round of their votes.\<close>

definition checkLightPrepare :: "crypto \<Rightarrow> jsval \<Rightarrow> jsval \<Rightarrow> int \<Rightarrow> (string, member) jsmap \<Rightarrow>
    string list \<times> int option \<Rightarrow> jsval \<Rightarrow> chain_error + (string list \<times> int option)" where
  "checkLightPrepare cr hash height proofRound accepted s v =
     (case v of
        JObj vote \<Rightarrow>
          (case (fld vote ''validator'', vget accepted (fld vote ''validator''), safe_int (fld vote ''round'')) of
             (JStr voter, Some m, Some round) \<Rightarrow>
               if voter \<in> set (fst s) \<or> \<not> short_string 7000 (fld vote ''signature'') \<or> round \<noteq> proofRound \<or>
                  (snd s \<noteq> None \<and> snd s \<noteq> Some round) \<or>
                  \<not> verifyObject cr (JObj [(''blockHash'', hash), (''height'', height), (''round'', fld vote ''round'')])
                      (fld vote ''signature'') (mb_publicKey m) ''BLOCK_PREPARE''
               then Inl (Refused ''light client prepare vote is invalid'')
               else Inr (fst s @ [voter], Some round)
           | _ \<Rightarrow> Inl (Refused ''light client prepare vote is invalid''))
      | _ \<Rightarrow> Inl (Refused ''light client prepare vote is invalid''))"

definition checkLightCommit :: "crypto \<Rightarrow> jsval \<Rightarrow> (string, member) jsmap \<Rightarrow> string list \<Rightarrow> jsval \<Rightarrow>
    chain_error + string list" where
  "checkLightCommit cr payload accepted seen v =
     (case v of
        JObj vote \<Rightarrow>
          (case (fld vote ''validator'', vget accepted (fld vote ''validator'')) of
             (JStr voter, Some m) \<Rightarrow>
               if voter \<in> set seen \<or> \<not> short_string 7000 (fld vote ''signature'') \<or>
                  \<not> verifyObject cr payload (fld vote ''signature'') (mb_publicKey m) ''BLOCK_COMMIT''
               then Inl (Refused ''light client finality vote is invalid'')
               else Inr (seen @ [voter])
           | _ \<Rightarrow> Inl (Refused ''light client finality vote is invalid''))
      | _ \<Rightarrow> Inl (Refused ''light client finality vote is invalid''))"

definition requireQuorum :: "member list \<Rightarrow> string list \<Rightarrow> chain_error + unit" where
  "requireQuorum ms seen =
     (if length (filter (\<lambda>a. a \<in> set (map mb_address ms)) seen) < voteQuorum (length ms)
      then Inl (Refused ''light client quorum is not reached'') else Inr ())"

definition requireQuorums :: "member list \<Rightarrow> member list option \<Rightarrow> string list \<Rightarrow> chain_error + unit" where
  "requireQuorums current previous seen =
     bind_r (requireQuorum current seen) (\<lambda>_. case previous of None \<Rightarrow> Inr () | Some p \<Rightarrow> requireQuorum p seen)"

text \<open>The two certificates, once both sets are ordered.\<close>

definition verifyCertificates :: "crypto \<Rightarrow> jsobj \<Rightarrow> member list \<Rightarrow> member list option \<Rightarrow> chain_error + unit" where
  "verifyCertificates cr pf current previous =
     (let accepted = byAddress ((case previous of None \<Rightarrow> [] | Some p \<Rightarrow> p) @ current);
          header = (case fld pf ''header'' of JObj h \<Rightarrow> h | _ \<Rightarrow> []) in
     (case (fld pf ''prepareCertificate'', safe_int (fld pf ''round''), fld pf ''hash'') of
        (JArr prepares, Some round, JStr hash) \<Rightarrow>
          if length prepares > jsize accepted then Inl (Refused ''light client prepare certificate is invalid'')
          else bind_r (foldM (checkLightPrepare cr (JStr hash) (fld header ''height'') round accepted) ([], None) prepares) (\<lambda>(seen, _).
          bind_r (requireQuorums current previous seen) (\<lambda>_.
          bind_r (prepareCertificateHash cr prepares) (\<lambda>prepareHash.
          (case fld pf ''certificate'' of
             JArr commits \<Rightarrow>
               if length commits > jsize accepted then Inl (Refused ''light client finality certificate is invalid'')
               else bind_r (foldM (checkLightCommit cr (commitPayload hash prepareHash) accepted) [] commits) (\<lambda>seen.
                 requireQuorums current previous seen)
           | _ \<Rightarrow> Inl (Refused ''light client finality certificate is invalid'')))))
      | _ \<Rightarrow> Inl (Refused ''light client prepare certificate is invalid'')))"

definition verifyVotes :: "crypto \<Rightarrow> (string \<Rightarrow> string \<Rightarrow> bool) \<Rightarrow> jsobj \<Rightarrow> member list \<Rightarrow> member list option \<Rightarrow>
    chain_error + unit" where
  "verifyVotes cr order pf validators previousValidators =
     bind_r (normalizeValidators order validators) (\<lambda>current.
       case previousValidators of
         None \<Rightarrow> verifyCertificates cr pf current None
       | Some p \<Rightarrow> bind_r (normalizeValidators order p) (\<lambda>previous. verifyCertificates cr pf current (Some previous)))"

section \<open>Headers\<close>

definition lightHeaderFields :: "int \<Rightarrow> string list" where
  "lightHeaderFields v =
     [''accountStateRoot'', ''bodyHash'', ''capabilityMemoryRoot'', ''format'', ''height'', ''networkId'',
      ''peerRegistryHash'', ''previousHash'', ''protocolUpgrade'', ''protocolVersion''] @
     (if v \<ge> RECOVERY_STATE_COMMITMENT_PROTOCOL_VERSION then [''recoveryStateCommitment''] else []) @
     (if v \<ge> EVALUATION_ASSIGNMENT_ROOT_PROTOCOL_VERSION then [''evaluationAssignmentRoot''] else []) @
     (if v \<ge> CHAIN_IDENTITY_CHECKPOINT_PROTOCOL_VERSION then [''chainIdentityGenesisHash'', ''validatorSetId''] else []) @
     [''stateRoot'', ''timestamp'', ''transactionCount'', ''transactionsRoot'']"

definition lightHashFields :: "int \<Rightarrow> string list" where
  "lightHashFields v =
     [''previousHash'', ''stateRoot'', ''accountStateRoot'', ''transactionsRoot'', ''bodyHash'', ''capabilityMemoryRoot'',
      ''peerRegistryHash''] @
     (if v \<ge> RECOVERY_STATE_COMMITMENT_PROTOCOL_VERSION then [''recoveryStateCommitment''] else []) @
     (if v \<ge> EVALUATION_ASSIGNMENT_ROOT_PROTOCOL_VERSION then [''evaluationAssignmentRoot''] else []) @
     (if v \<ge> CHAIN_IDENTITY_CHECKPOINT_PROTOCOL_VERSION then [''chainIdentityGenesisHash'', ''validatorSetId''] else [])"

definition validateFinalityHeader :: "crypto \<Rightarrow> authorizer \<Rightarrow> int list \<Rightarrow> string \<Rightarrow> authorization_context option \<Rightarrow>
    jsval \<Rightarrow> jsval \<Rightarrow> chain_error + jsobj" where
  "validateFinalityHeader cr authorize supportedVersions expectedNetworkId ctx v hash =
     bind_r (normalizeSupportedProtocolVersions supportedVersions) (\<lambda>supported.
     (case v of
        JObj h \<Rightarrow>
          (case fld h ''protocolVersion'' of
             JNum version \<Rightarrow>
               bind_r (finalityHeaderFormat version) (\<lambda>format.
               if fld h ''format'' \<noteq> JStr format \<or> \<not> comma_keys h (lightHeaderFields version)
               then Inl (Refused ''light client finality header is invalid'')
               else bind_r (blockHeaderHash cr h) (\<lambda>headerHash.
               if hash \<noteq> JStr headerHash \<or> \<not> is_hex64 headerHash \<or> fld h ''networkId'' \<noteq> JStr expectedNetworkId \<or>
                  version \<notin> set supported \<or> \<not> atLeast 1 (fld h ''height'') \<or> \<not> atLeast 0 (fld h ''timestamp'') \<or>
                  \<not> atLeast 0 (fld h ''transactionCount'') \<or>
                  \<not> list_all (\<lambda>k. is_hex64 (coerced (fld h k))) (lightHashFields version)
               then Inl (Refused ''light client finality header is invalid'')
               else if fld h ''protocolUpgrade'' = JNull then Inr h
               else (case (normalizeProtocolUpgrade authorize (fld h ''protocolUpgrade'')
                       (case safe_int (fld h ''height'') of Some n \<Rightarrow> n | None \<Rightarrow> 0) version ctx) of
                   Inl _ \<Rightarrow> Inl (Refused ''light client protocol upgrade is invalid'')
                 | Inr _ \<Rightarrow> Inr h)))
           | _ \<Rightarrow> Inl (Refused ''finality header protocol version is unsupported''))
      | _ \<Rightarrow> Inl (Refused ''finality header protocol version is unsupported'')))"

text \<open>The proof and its header.\<close>

definition validateProof :: "crypto \<Rightarrow> authorizer \<Rightarrow> int list \<Rightarrow> string \<Rightarrow> authorization_context option \<Rightarrow> jsval \<Rightarrow>
    chain_error + (jsobj \<times> jsobj)" where
  "validateProof cr authorize supportedVersions expectedNetworkId ctx v =
     (case v of
        JObj pf \<Rightarrow>
          let version = (case fld pf ''header'' of JObj h \<Rightarrow> (case fld h ''protocolVersion'' of JNum n \<Rightarrow> n | _ \<Rightarrow> 0) | _ \<Rightarrow> 0) in
          if fld pf ''format'' \<noteq> JStr (finalityProofFormat version) \<or>
             \<not> comma_keys pf [''certificate'', ''format'', ''hash'', ''header'', ''prepareCertificate'', ''round''] \<or>
             \<not> atLeast 0 (fld pf ''round'')
          then Inl (Refused ''light client finality proof is invalid'')
          else bind_r (validateFinalityHeader cr authorize supportedVersions expectedNetworkId ctx (fld pf ''header'') (fld pf ''hash''))
            (\<lambda>h. Inr (pf, h))
      | _ \<Rightarrow> Inl (Refused ''light client finality proof is invalid''))"

section \<open>Chains of proofs\<close>

text \<open>What the release log offers: its validated anchor, the head it starts with, a head from a checkpoint, authorizations.\<close>

record release_log =
  rl_anchor :: "jsval \<Rightarrow> string \<Rightarrow> chain_error + jsval"
  rl_createHead :: "jsval \<Rightarrow> chain_error + jsval"
  rl_validateHead :: "jsval \<Rightarrow> jsval \<Rightarrow> chain_error + jsval"
  rl_authorize :: authorizer

text \<open>
  What the caller trusts and expects.
\<close>

record light_options =
  lo_checkpoint :: jsobj
  lo_expectedChainIdentityGenesisHash :: "string option"
  lo_expectedNetworkId :: string
  lo_handoffs :: "jsval list"
  lo_releaseAnchor :: jsval
  lo_supportedVersions :: "int list"
  lo_trustedValidators :: "member list"

text \<open>The variables of the loop over the proofs.\<close>

record light_state =
  ls_current :: "member list"
  ls_previousHash :: jsval
  ls_previousHeight :: int
  ls_previousTimestamp :: "int option"
  ls_protocolVersion :: int
  ls_pending :: jsval
  ls_releaseHead :: jsval
  ls_handoffIndex :: nat

text \<open>
  The number as which an activation height is compared: none for an absent one, which is below nothing. A
  string or a list there, which the language would read as text, is taken to be below nothing too.
\<close>

definition compared :: "jsval \<Rightarrow> int option" where
  "compared v = (case v of JNum n \<Rightarrow> Some n | JNull \<Rightarrow> Some 0 | JBool b \<Rightarrow> Some (if b then 1 else 0) | _ \<Rightarrow> None)"

definition activationOf :: "jsval \<Rightarrow> jsval" where
  "activationOf v = (case v of JObj h \<Rightarrow> fld h ''activationHeight'' | _ \<Rightarrow> JUndef)"

definition minimumHeight :: "jsval list \<Rightarrow> nat \<Rightarrow> int" where
  "minimumHeight hs i =
     (if i = 0 then 1 else (case compared (activationOf (hs ! (i - 1))) of Some n \<Rightarrow> n + 1 | None \<Rightarrow> 0))"

text \<open>The loop over the handoffs up to the checkpoint.\<close>

function catchUp :: "crypto \<Rightarrow> (string \<Rightarrow> string \<Rightarrow> bool) \<Rightarrow> string \<Rightarrow> jsval list \<Rightarrow> int \<Rightarrow> nat \<Rightarrow> member list \<Rightarrow>
    chain_error + (member list \<times> nat)" where
  "catchUp cr order net hs height i current =
     (if length hs \<le> i then Inr (current, i)
      else if hs ! i = JNull \<or> hs ! i = JUndef then Inl Threw
      else (case compared (activationOf (hs ! i)) of
        None \<Rightarrow> Inr (current, i)
      | Some a \<Rightarrow>
          if a > height then Inr (current, i)
          else bind_r (verifyValidatorHandoff cr order net (minimumHeight hs i) current (hs ! i)) (\<lambda>r.
            catchUp cr order net hs height (i + 1) (ho_nextValidators (fst r)))))"
  by pat_completeness auto
termination by (relation "measure (\<lambda>(cr, order, net, hs, height, i, current). length hs - i)") auto

declare catchUp.simps [simp del]

text \<open>The set at a header: the old set beside it when a handoff is activated there.\<close>

definition lightHandoff :: "crypto \<Rightarrow> (string \<Rightarrow> string \<Rightarrow> bool) \<Rightarrow> string \<Rightarrow> jsval list \<Rightarrow> nat \<Rightarrow> member list \<Rightarrow> jsval \<Rightarrow> jsobj \<Rightarrow> int \<Rightarrow>
    chain_error + (member list \<times> member list option \<times> nat)" where
  "lightHandoff cr order net hs i current hash header height =
     (if length hs \<le> i then Inr (current, None, i)
      else if activationOf (hs ! i) = JNum height
      then bind_r (verifyValidatorHandoff cr order net (minimumHeight hs i) current (hs ! i)) (\<lambda>(p, _).
        if \<not> strict_eq (ho_activationBlockHash p) hash \<or> \<not> strict_eq (ho_activationStateRoot p) (fld header ''stateRoot'')
        then Inl (Refused ''light client validator handoff does not match its activation header'')
        else Inr (ho_nextValidators p, Some current, i + 1))
      else (case compared (activationOf (hs ! i)) of
        None \<Rightarrow> Inr (current, None, i)
      | Some a \<Rightarrow>
          if a < height then Inl (Refused ''light client validator handoff history is incomplete'')
          else Inr (current, None, i)))"

text \<open>The context of an authorization; with an anchor the identity is always given (\<open>lightStart\<close> requires it).\<close>

definition lightContext :: "light_options \<Rightarrow> jsval \<Rightarrow> light_state \<Rightarrow> authorization_context option" where
  "lightContext opts anchor s =
     (if anchor = JNull then None
      else Some \<lparr>ac_anchor = anchor, ac_baseHeight = ls_previousHeight s, ac_baseTipHash = ls_previousHash s,
        ac_chainIdentityGenesisHash = (case lo_expectedChainIdentityGenesisHash opts of Some g \<Rightarrow> JStr g | None \<Rightarrow> JUndef),
        ac_head = ls_releaseHead s, ac_networkId = lo_expectedNetworkId opts\<rparr>)"

definition checkSetId :: "crypto \<Rightarrow> jsval \<Rightarrow> member list \<Rightarrow> string \<Rightarrow> chain_error + unit" where
  "checkSetId cr v current message =
     bind_r (validatorSetId cr current) (\<lambda>i. if v \<noteq> JStr i then Inl (Refused message) else Inr ())"

definition lightStep :: "crypto \<Rightarrow> (string \<Rightarrow> string \<Rightarrow> bool) \<Rightarrow> release_log \<Rightarrow> light_options \<Rightarrow> jsval \<Rightarrow> light_state \<Rightarrow> jsval \<Rightarrow>
    chain_error + light_state" where
  "lightStep cr order rl opts anchor s v =
     (let ctx = lightContext opts anchor s; versions = lo_supportedVersions opts; net = lo_expectedNetworkId opts in
      bind_r (validateProof cr (rl_authorize rl) versions net ctx v) (\<lambda>(pf, h).
      let anchored = (case fld h ''protocolVersion'' of JNum n \<Rightarrow> n \<ge> CHAIN_IDENTITY_CHECKPOINT_PROTOCOL_VERSION | _ \<Rightarrow> False) in
      if anchored \<and> (case lo_expectedChainIdentityGenesisHash opts of None \<Rightarrow> False | Some g \<Rightarrow> fld h ''chainIdentityGenesisHash'' \<noteq> JStr g)
      then Inl (Refused ''light client proof belongs to another chain identity'')
      else (case (safe_int (fld h ''height''), safe_int (fld h ''timestamp'')) of
        (Some height, Some timestamp) \<Rightarrow>
          if height \<noteq> ls_previousHeight s + 1 \<or> \<not> strict_eq (fld h ''previousHash'') (ls_previousHash s) \<or>
             (case ls_previousTimestamp s of None \<Rightarrow> False | Some t \<Rightarrow> timestamp < t)
          then Inl (Refused ''light client finality chain is discontinuous'')
          else bind_r (protocolTransition (rl_authorize rl) versions (fld h ''protocolVersion'') height (ls_protocolVersion s)
                 (ls_pending s) (fld h ''protocolUpgrade'') ctx) (\<lambda>ps.
          bind_r (lightHandoff cr order net (lo_handoffs opts) (ls_handoffIndex s) (ls_current s) (fld pf ''hash'') h height)
            (\<lambda>(current, oldSet, i).
          bind_r (if anchored then checkSetId cr (fld h ''validatorSetId'') current
                    ''light client finality header validator set does not match handoff history'' else Inr ()) (\<lambda>_.
          bind_r (verifyVotes cr order pf current oldSet) (\<lambda>_.
          Inr \<lparr>ls_current = current, ls_previousHash = fld pf ''hash'', ls_previousHeight = height,
            ls_previousTimestamp = Some timestamp, ls_protocolVersion = ps_protocolVersion ps, ls_pending = ps_pendingUpgrade ps,
            ls_releaseHead = ps_protocolReleaseHead ps, ls_handoffIndex = i\<rparr>))))
      | _ \<Rightarrow> Inl (Refused ''light client finality chain is discontinuous''))))"

text \<open>
  What the client has verified at the end: the roots, counts and commitments are those of the last
  header.
\<close>

record light_tip =
  lt_header :: jsobj
  lt_tipHash :: jsval
  lt_networkId :: string
  lt_pendingProtocolUpgrade :: jsval
  lt_protocolReleaseHead :: jsval
  lt_protocolVersion :: int
  lt_validatorSetId :: string

definition proofHeader :: "jsval \<Rightarrow> jsobj" where
  "proofHeader v = (case v of JObj pf \<Rightarrow> (case fld pf ''header'' of JObj h \<Rightarrow> h | _ \<Rightarrow> []) | _ \<Rightarrow> [])"

definition orNull :: "jsval \<Rightarrow> jsval" where
  "orNull v = (if v = JUndef then JNull else v)"

definition lightReleaseHead :: "release_log \<Rightarrow> jsval \<Rightarrow> jsval \<Rightarrow> chain_error + jsval" where
  "lightReleaseHead rl anchor head =
     (if anchor = JNull
      then if orNull head \<noteq> JNull then Inl (Refused ''protocol upgrade release head requires its pinned release anchor'') else Inr JNull
      else if head = JUndef then rl_createHead rl anchor else rl_validateHead rl head anchor)"

text \<open>The loop's variables before the first proof.\<close>

definition lightStart :: "crypto \<Rightarrow> (string \<Rightarrow> string \<Rightarrow> bool) \<Rightarrow> release_log \<Rightarrow> light_options \<Rightarrow> int \<Rightarrow>
    chain_error + (jsval \<times> light_state)" where
  "lightStart cr order rl opts height0 =
     (let cp = lo_checkpoint opts; expected = lo_expectedChainIdentityGenesisHash opts in
      if height0 = 0 \<and> (case expected of None \<Rightarrow> False | Some g \<Rightarrow> fld cp ''tipHash'' \<noteq> JStr g)
      then Inl (Refused ''light client checkpoint does not match pinned genesis identity'')
      else (case safe_int (if orNull (fld cp ''protocolVersion'') = JNull then JNum PROTOCOL_VERSION else fld cp ''protocolVersion'') of
        None \<Rightarrow> Inl (Refused ''protocol transition state is invalid'')
      | Some version0 \<Rightarrow>
          if expected \<noteq> None \<and> height0 > 0 \<and> version0 < CHAIN_IDENTITY_CHECKPOINT_PROTOCOL_VERSION
          then Inl (Refused ''light client legacy checkpoint is not anchored to pinned genesis identity'')
          else bind_r (normalizeValidators order (lo_trustedValidators opts)) (\<lambda>trusted.
          bind_r (if lo_releaseAnchor opts = JNull then Inr JNull else rl_anchor rl (lo_releaseAnchor opts) (lo_expectedNetworkId opts)) (\<lambda>anchor.
          if anchor \<noteq> JNull \<and> (case expected of None \<Rightarrow> True | Some g \<Rightarrow> \<not> is_hex64 g)
          then Inl (Refused ''authorized protocol upgrades require a pinned chain genesis identity'')
          else bind_r (lightReleaseHead rl anchor (fld cp ''protocolReleaseHead'')) (\<lambda>head.
          bind_r (catchUp cr order (lo_expectedNetworkId opts) (lo_handoffs opts) height0 0 trusted) (\<lambda>(current, i).
          bind_r (if fld cp ''validatorSetId'' = JUndef then Inr ()
                  else checkSetId cr (fld cp ''validatorSetId'') current
                    ''light client checkpoint validator set does not match handoff history'') (\<lambda>_.
          Inr (anchor, \<lparr>ls_current = current, ls_previousHash = fld cp ''tipHash'', ls_previousHeight = height0,
            ls_previousTimestamp = None, ls_protocolVersion = version0, ls_pending = orNull (fld cp ''pendingProtocolUpgrade''),
            ls_releaseHead = head, ls_handoffIndex = i\<rparr>)))))))) "

definition verifyFinalityProofChain :: "crypto \<Rightarrow> (string \<Rightarrow> string \<Rightarrow> bool) \<Rightarrow> release_log \<Rightarrow> light_options \<Rightarrow> jsval list \<Rightarrow>
    chain_error + light_tip" where
  "verifyFinalityProofChain cr order rl opts proofs =
     (let cp = lo_checkpoint opts in
      (case safe_int (fld cp ''height'') of
         None \<Rightarrow> Inl (Refused ''light client proof chain envelope is invalid'')
       | Some height0 \<Rightarrow>
           if height0 < 0 \<or> \<not> is_hex64 (coerced (fld cp ''tipHash'')) \<or> \<not> is_hex64 (coerced (fld cp ''stateRoot'')) \<or>
              proofs = [] \<or> length proofs > MAX_FINALITY_PROOFS
           then Inl (Refused ''light client proof chain envelope is invalid'')
           else bind_r (canonicalJson cr (JArr proofs)) (\<lambda>text.
           if length (utf8 (map unat text)) > MAX_FINALITY_CHAIN_BYTES \<or> length (lo_handoffs opts) > MAX_VALIDATORS
           then Inl (Refused ''light client proof chain envelope is invalid'')
           else bind_r (lightStart cr order rl opts height0) (\<lambda>(anchor, start).
           bind_r (foldM (lightStep cr order rl opts anchor) start proofs) (\<lambda>s.
           bind_r (validatorSetId cr (ls_current s)) (\<lambda>setId.
           Inr \<lparr>lt_header = proofHeader (last proofs), lt_tipHash = ls_previousHash s, lt_networkId = lo_expectedNetworkId opts,
             lt_pendingProtocolUpgrade = ls_pending s, lt_protocolReleaseHead = ls_releaseHead s,
             lt_protocolVersion = ls_protocolVersion s, lt_validatorSetId = setId\<rparr>))))))"

text \<open>The identity of the chain, height, version, state root and set of a single checkpoint.\<close>

record recent_checkpoint =
  rc_chainIdentityGenesisHash :: string
  rc_header :: jsobj
  rc_tipHash :: jsval
  rc_validatorSetId :: string

definition verifyRecentFinalityCheckpoint :: "crypto \<Rightarrow> (string \<Rightarrow> string \<Rightarrow> bool) \<Rightarrow> release_log \<Rightarrow> string \<Rightarrow> string \<Rightarrow> member list \<Rightarrow> jsval \<Rightarrow>
    chain_error + recent_checkpoint" where
  "verifyRecentFinalityCheckpoint cr order rl expectedGenesisHash expectedNetworkId trustedValidators v =
     (if \<not> is_hex64 expectedGenesisHash then Inl (Refused ''recent checkpoint genesis identity is invalid'')
      else bind_r (validateProof cr (rl_authorize rl) SUPPORTED_PROTOCOL_VERSIONS expectedNetworkId None v) (\<lambda>(pf, h).
      if (case fld h ''protocolVersion'' of JNum n \<Rightarrow> n < CHAIN_IDENTITY_CHECKPOINT_PROTOCOL_VERSION | _ \<Rightarrow> True) \<or>
         fld h ''chainIdentityGenesisHash'' \<noteq> JStr expectedGenesisHash
      then Inl (Refused ''recent checkpoint belongs to another chain identity'')
      else bind_r (normalizeValidators order trustedValidators) (\<lambda>validators.
      bind_r (validatorSetId cr validators) (\<lambda>setId.
      if fld h ''validatorSetId'' \<noteq> JStr setId then Inl (Refused ''recent checkpoint validator set is not trusted'')
      else bind_r (verifyVotes cr order pf validators None) (\<lambda>_.
      Inr \<lparr>rc_chainIdentityGenesisHash = expectedGenesisHash, rc_header = h, rc_tipHash = fld pf ''hash'',
        rc_validatorSetId = setId\<rparr>)))))"

section \<open>What accepted votes show\<close>

text \<open>A key of the address verifies some signature; the address is the hash of the key, so no set is needed.\<close>

definition signedAs :: "crypto \<Rightarrow> jsval \<Rightarrow> string \<Rightarrow> string \<Rightarrow> bool" where
  "signedAs cr payload domain a \<longleftrightarrow>
     (\<exists>key sig. addressFromPublicKey cr key = Some a \<and> verifyObject cr payload sig key domain)"

definition quorumAs :: "crypto \<Rightarrow> member list \<Rightarrow> jsval \<Rightarrow> string \<Rightarrow> bool" where
  "quorumAs cr ms payload domain \<longleftrightarrow>
     (\<exists>A. A \<subseteq> mb_address ` set ms \<and> voteQuorum (length ms) \<le> card A \<and> (\<forall>a \<in> A. signedAs cr payload domain a))"

definition holdsKeys :: "crypto \<Rightarrow> member list \<Rightarrow> bool" where
  "holdsKeys cr ms \<longleftrightarrow> (\<forall>m \<in> set ms. addressFromPublicKey cr (mb_publicKey m) = Some (mb_address m))"

lemma checkLightPrepare_Inr:
  assumes "checkLightPrepare cr hash height round accepted s v = Inr s'"
  obtains sig r n a m where "jget accepted a = Some m" and "a \<notin> set (fst s)" and "safe_int r = Some n" and "n = round"
    and "verifyObject cr (JObj [(''blockHash'', hash), (''height'', height), (''round'', r)]) sig (mb_publicKey m) ''BLOCK_PREPARE''"
    and "s' = (fst s @ [a], Some n)"
  using assms by (auto simp: checkLightPrepare_def vget_def split: jsval.split_asm option.split_asm if_split_asm)

lemma checkLightCommit_Inr:
  assumes "checkLightCommit cr payload accepted s v = Inr s'"
  obtains sig a m where "jget accepted a = Some m" and "a \<notin> set s"
    and "verifyObject cr payload sig (mb_publicKey m) ''BLOCK_COMMIT''" and "s' = s @ [a]"
  using assms by (auto simp: checkLightCommit_def vget_def split: jsval.split_asm option.split_asm if_split_asm)

lemma signed_round:
  assumes "verifyObject cr (JObj [(''blockHash'', JStr hash), (''height'', height), (''round'', r)]) sig key ''BLOCK_PREPARE''"
    and "safe_int r = Some n"
  shows "verifyObject cr (preparePayload hash height (JNum n)) sig key ''BLOCK_PREPARE''"
  using prepare_round [of cr hash height r sig key n] assms by (simp add: preparePayload_def)

interpretation light_prepares: vote_count "checkLightPrepare cr (JStr hash) height round accepted" fst
    "\<lambda>_. signedBy cr accepted (preparePayload hash height (JNum round)) ''BLOCK_PREPARE''"
  for cr hash height round accepted
proof unfold_locales
  fix s v s'
  assume "checkLightPrepare cr (JStr hash) height round accepted s v = Inr s'"
  then show "\<exists>a. fst s' = fst s @ [a] \<and> a \<notin> set (fst s) \<and> signedBy cr accepted (preparePayload hash height (JNum round)) ''BLOCK_PREPARE'' a"
    unfolding signedBy_def by (elim checkLightPrepare_Inr) (frule (1) signed_round, fastforce)
qed

interpretation light_commits: vote_count "checkLightCommit cr payload accepted" id
    "\<lambda>_. signedBy cr accepted payload ''BLOCK_COMMIT''"
  for cr payload accepted
  by unfold_locales (auto elim!: checkLightCommit_Inr simp: signedBy_def)

lemma byAddress_Some:
  assumes "jget (byAddress ms) a = Some m"
  shows "m \<in> set ms" and "mb_address m = a"
proof -
  have "byAddress ms = foldl (\<lambda>m e. jset (fst e) (snd e) m) [] (map addressed ms)"
    by (simp add: byAddress_def foldl_map)
  with assms have "jget (rev (map addressed ms)) a = Some m"
    by (simp only: jget_foldl_jset) (simp add: jget_def split: option.split_asm)
  then have "(a, m) \<in> set (rev (map addressed ms))" unfolding jget_def by (rule map_of_SomeD)
  then show "m \<in> set ms" "mb_address m = a" by auto
qed

lemma signedBy_signedAs:
  assumes "signedBy cr (byAddress ms) payload domain a" and "holdsKeys cr ms"
  shows "signedAs cr payload domain a"
  using assms byAddress_Some unfolding signedBy_def signedAs_def holdsKeys_def by metis

lemma requireQuorum_Inr:
  assumes "requireQuorum ms seen = Inr ()" and "distinct seen" and "\<forall>a \<in> set seen. signedAs cr payload domain a"
  shows "quorumAs cr ms payload domain"
proof -
  let ?A = "set (filter (\<lambda>a. a \<in> set (map mb_address ms)) seen)"
  have "card ?A = length (filter (\<lambda>a. a \<in> set (map mb_address ms)) seen)"
    by (rule distinct_card) (use assms(2) in simp)
  then have "voteQuorum (length ms) \<le> card ?A" using assms(1) by (simp add: requireQuorum_def split: if_split_asm)
  then show ?thesis unfolding quorumAs_def using assms(3) by (intro exI [of _ ?A]) auto
qed

lemma requireQuorums_Inr:
  assumes "requireQuorums current previous seen = Inr ()"
  shows "requireQuorum current seen = Inr ()" and "previous = Some p \<Longrightarrow> requireQuorum p seen = Inr ()"
  using assms by (auto simp: requireQuorums_def bind_r_Inr_iff)

lemma normalizeValidators_Inr:
  assumes "normalizeValidators order ms = Inr ns"
  shows "ns = sortByAddress order ms" and "distinct (map mb_address ns)" and "4 \<le> length ms"
  using assms by (auto simp: normalizeValidators_def Let_def split: if_split_asm)

text \<open>What the votes of a proof show of a set: its members' votes for the block and for its prepare certificate.\<close>

definition certifiedBy :: "crypto \<Rightarrow> member list \<Rightarrow> string \<Rightarrow> jsval \<Rightarrow> bool" where
  "certifiedBy cr ms hash height \<longleftrightarrow> distinct (map mb_address ms) \<and>
     (\<exists>p. quorumAs cr ms (commitPayload hash p) ''BLOCK_COMMIT'') \<and>
     (\<exists>n. quorumAs cr ms (preparePayload hash height (JNum n)) ''BLOCK_PREPARE'')"

lemma quorumAs_sorted [simp]: "quorumAs cr (sortByAddress order ms) payload domain = quorumAs cr ms payload domain"
  by (simp add: quorumAs_def)

lemma distinct_sorted [simp]: "distinct (map mb_address (sortByAddress order ms)) = distinct (map mb_address ms)"
  using mset_eq_imp_distinct_iff [of "map mb_address (sortByAddress order ms)" "map mb_address ms"] by simp

lemma verifyCertificates_Inr:
  assumes "verifyCertificates cr pf current previous = Inr ()" and "fld pf ''header'' = JObj h" and "fld pf ''hash'' = JStr hash"
    and "holdsKeys cr current" and "\<And>p. previous = Some p \<Longrightarrow> holdsKeys cr p" and "ms = current \<or> previous = Some ms"
  shows "(\<exists>p. quorumAs cr ms (commitPayload hash p) ''BLOCK_COMMIT'') \<and>
     (\<exists>n. quorumAs cr ms (preparePayload hash (fld h ''height'') (JNum n)) ''BLOCK_PREPARE'')"
proof -
  let ?both = "(case previous of None \<Rightarrow> [] | Some p \<Rightarrow> p) @ current"
  note v = assms(1) [unfolded verifyCertificates_def Let_def assms(2,3)]
  then obtain prepares round where f: "fld pf ''prepareCertificate'' = JArr prepares" "safe_int (fld pf ''round'') = Some round"
    by (auto split: jsval.split_asm option.split_asm)
  with v obtain commits where c: "fld pf ''certificate'' = JArr commits"
    by (cases "fld pf ''certificate''") (auto simp: bind_r_Inr_iff split: if_split_asm)
  from v f c obtain ps r ph cs where
    p: "foldM (checkLightPrepare cr (JStr hash) (fld h ''height'') round (byAddress ?both)) ([], None) prepares = Inr (ps, r)"
       "requireQuorums current previous ps = Inr ()"
    and c: "foldM (checkLightCommit cr (commitPayload hash ph) (byAddress ?both)) [] commits = Inr cs"
       "requireQuorums current previous cs = Inr ()"
    by (auto simp: bind_r_Inr_iff split: if_split_asm)
  have keys: "holdsKeys cr ?both" using assms(4,5) by (auto simp: holdsKeys_def split: option.split)
  have ps: "distinct ps \<and> (\<forall>a \<in> set ps. signedAs cr (preparePayload hash (fld h ''height'') (JNum round)) ''BLOCK_PREPARE'' a)"
    using light_prepares.tally [OF p(1)] signedBy_signedAs [OF _ keys] by auto
  have cs: "distinct cs \<and> (\<forall>a \<in> set cs. signedAs cr (commitPayload hash ph) ''BLOCK_COMMIT'' a)"
    using light_commits.tally [OF c(1)] signedBy_signedAs [OF _ keys] by auto
  have "requireQuorum ms ps = Inr ()" "requireQuorum ms cs = Inr ()"
    using assms(6) requireQuorums_Inr [OF p(2)] requireQuorums_Inr [OF c(2)] by auto
  then show ?thesis using requireQuorum_Inr ps cs by blast
qed

lemma verifyVotes_Inr:
  assumes "verifyVotes cr order pf current previous = Inr ()" and "fld pf ''header'' = JObj h" and "fld pf ''hash'' = JStr hash"
    and "holdsKeys cr current" and "\<And>p. previous = Some p \<Longrightarrow> holdsKeys cr p" and "ms = current \<or> previous = Some ms"
  shows "certifiedBy cr ms hash (fld h ''height'')"
proof -
  let ?s = "sortByAddress order"
  have keys: "holdsKeys cr (?s current)" "previous = Some p \<Longrightarrow> holdsKeys cr (?s p)" for p
    using assms(4,5) by (simp_all add: holdsKeys_def)
  have norm: "normalizeValidators order current = Inr (?s current)"
    "previous = Some p \<Longrightarrow> normalizeValidators order p = Inr (?s p)" for p
    using assms(1) by (auto simp: verifyVotes_def bind_r_Inr_iff dest: normalizeValidators_Inr(1))
  then have "verifyCertificates cr pf (?s current) (map_option ?s previous) = Inr ()"
    using assms(1) by (cases previous) (simp_all add: verifyVotes_def)
  from verifyCertificates_Inr [OF this assms(2,3) keys(1), of "?s ms"] keys(2) assms(6)
  have "(\<exists>p. quorumAs cr (?s ms) (commitPayload hash p) ''BLOCK_COMMIT'') \<and>
     (\<exists>n. quorumAs cr (?s ms) (preparePayload hash (fld h ''height'') (JNum n)) ''BLOCK_PREPARE'')" by auto
  moreover have "distinct (map mb_address ms)"
    using assms(6) normalizeValidators_Inr(2) [OF norm(1)] normalizeValidators_Inr(2) [OF norm(2)] by auto
  ultimately show ?thesis by (simp add: certifiedBy_def)
qed

section \<open>One step of a client\<close>

lemma validateFinalityHeader_Inr:
  assumes "validateFinalityHeader cr authorize versions net ctx v hash = Inr h"
  obtains n headerHash where "v = JObj h" and "fld h ''protocolVersion'' = JNum n" and "blockHeaderHash cr h = Inr headerHash"
    and "hash = JStr headerHash" and "is_hex64 headerHash" and "fld h ''networkId'' = JStr net"
    and "list_all (\<lambda>k. is_hex64 (coerced (fld h k))) (lightHashFields n)"
proof -
  obtain h' where v: "v = JObj h'" using assms by (cases v) (auto simp: validateFinalityHeader_def bind_r_Inr_iff)
  obtain n where n: "fld h' ''protocolVersion'' = JNum n"
    using assms by (cases "fld h' ''protocolVersion''") (auto simp: v validateFinalityHeader_def bind_r_Inr_iff)
  have "h' = h \<and> (\<exists>headerHash. blockHeaderHash cr h = Inr headerHash \<and> hash = JStr headerHash \<and> is_hex64 headerHash \<and>
      fld h ''networkId'' = JStr net \<and> list_all (\<lambda>k. is_hex64 (coerced (fld h k))) (lightHashFields n))"
    using assms
    by (cases "normalizeProtocolUpgrade authorize (fld h' ''protocolUpgrade'') (case safe_int (fld h' ''height'') of Some n \<Rightarrow> n | None \<Rightarrow> 0) n ctx")
      (auto simp: v n validateFinalityHeader_def bind_r_Inr_iff split: if_split_asm)
  with v n show thesis using that by blast
qed

lemma validateProof_Inr:
  assumes "validateProof cr authorize versions net ctx v = Inr (pf, h)"
  shows "v = JObj pf" and "validateFinalityHeader cr authorize versions net ctx (fld pf ''header'') (fld pf ''hash'') = Inr h"
  using assms by (auto simp: validateProof_def bind_r_Inr_iff Let_def split: jsval.split_asm if_split_asm)

lemma verified_next_set:
  assumes "verifyValidatorHandoff cr order net low trusted v = Inr (p, k)"
  shows "\<exists>h. v = JObj h \<and> normalizeTrustSet cr order (fld h ''nextValidators'') = Inr (ho_nextValidators p)"
proof -
  obtain c where "verifyHandoffContent cr order net low trusted v = Inr c" "p = hc_payload c"
    using assms by (auto simp: verifyValidatorHandoff_def Let_def bind_r_Inr_iff)
  then obtain h xs where h: "v = JObj h" "handoffPayload cr order h xs = Inr p"
    by (auto simp: verifyHandoffContent_def bind_r_Inr_iff split: jsval.split_asm if_split_asm)
  from h(2) have "normalizeTrustSet cr order (fld h ''nextValidators'') = Inr (ho_nextValidators p)" by (rule handoffPayload_Inr)
  with h(1) show ?thesis by blast
qed

text \<open>The sets a client may come to trust: its own, and those its handoffs name.\<close>

definition trustedSets :: "crypto \<Rightarrow> (string \<Rightarrow> string \<Rightarrow> bool) \<Rightarrow> light_options \<Rightarrow> member list set" where
  "trustedSets cr order opts = {S. normalizeValidators order (lo_trustedValidators opts) = Inr S \<or>
     (\<exists>h. JObj h \<in> set (lo_handoffs opts) \<and> normalizeTrustSet cr order (fld h ''nextValidators'') = Inr S)}"

lemma trust_set_keys: "trust_set cr order ms \<Longrightarrow> holdsKeys cr ms"
  by (auto simp: trust_set_def holdsKeys_def trusted_member_def list_all_iff)

lemma trustedSets_keys:
  assumes "S \<in> trustedSets cr order opts" and "holdsKeys cr (lo_trustedValidators opts)" and "\<And>a b. order a b \<Longrightarrow> \<not> order b a"
  shows "holdsKeys cr S"
  using assms(1) unfolding trustedSets_def
proof (elim CollectE disjE exE conjE)
  assume "normalizeValidators order (lo_trustedValidators opts) = Inr S"
  then show ?thesis using assms(2) normalizeValidators_Inr(1) by (fastforce simp: holdsKeys_def)
next
  fix h assume "normalizeTrustSet cr order (fld h ''nextValidators'') = Inr S"
  from normalizeTrustSet_Inr [OF this assms(3)] show ?thesis by (rule trust_set_keys)
qed

lemma lightHandoff_Inr:
  assumes "lightHandoff cr order net hs i current hash header height = Inr (current', old, j)"
  shows "(old = None \<and> current' = current) \<or> (old = Some current \<and>
    (\<exists>h. JObj h \<in> set hs \<and> normalizeTrustSet cr order (fld h ''nextValidators'') = Inr current'))"
proof (cases "i < length hs \<and> activationOf (hs ! i) = JNum height")
  case True
  then obtain p k where p: "verifyValidatorHandoff cr order net (minimumHeight hs i) current (hs ! i) = Inr (p, k)"
    and "current' = ho_nextValidators p" "old = Some current"
    using assms by (auto simp: lightHandoff_def bind_r_Inr_iff split: if_split_asm)
  moreover obtain h where "hs ! i = JObj h" "normalizeTrustSet cr order (fld h ''nextValidators'') = Inr (ho_nextValidators p)"
    using verified_next_set [OF p] by blast
  moreover have "hs ! i \<in> set hs" using True by simp
  ultimately show ?thesis by auto
next
  case False
  then show ?thesis using assms
    by (cases "compared (activationOf (hs ! i))") (auto simp: lightHandoff_def split: if_split_asm)
qed

lemma lightStep_Inr:
  assumes "lightStep cr order rl opts anchor s v = Inr t"
  obtains pf h hash n old where "v = JObj pf" and "fld pf ''header'' = JObj h" and "fld pf ''hash'' = JStr hash"
    and "blockHeaderHash cr h = Inr hash" and "fld h ''protocolVersion'' = JNum n"
    and "safe_int (fld h ''height'') = Some (ls_previousHeight s + 1)" and "strict_eq (fld h ''previousHash'') (ls_previousHash s)"
    and "ls_previousHash t = JStr hash" and "ls_previousHeight t = ls_previousHeight s + 1" and "ls_protocolVersion t = n"
    and "protocolTransition (rl_authorize rl) (lo_supportedVersions opts) (JNum n) (ls_previousHeight s + 1) (ls_protocolVersion s) (ls_pending s)
      (fld h ''protocolUpgrade'') (lightContext opts anchor s) =
      Inr \<lparr>ps_pendingUpgrade = ls_pending t, ps_protocolVersion = n, ps_protocolReleaseHead = ls_releaseHead t\<rparr>"
    and "lightHandoff cr order (lo_expectedNetworkId opts) (lo_handoffs opts) (ls_handoffIndex s) (ls_current s) (JStr hash) h
      (ls_previousHeight s + 1) = Inr (ls_current t, old, ls_handoffIndex t)"
    and "n \<ge> CHAIN_IDENTITY_CHECKPOINT_PROTOCOL_VERSION \<longrightarrow> (\<exists>i. validatorSetId cr (ls_current t) = Inr i \<and> fld h ''validatorSetId'' = JStr i)"
    and "verifyVotes cr order pf (ls_current t) old = Inr ()"
proof -
  let ?ctx = "lightContext opts anchor s"
  obtain pf h where p: "validateProof cr (rl_authorize rl) (lo_supportedVersions opts) (lo_expectedNetworkId opts) ?ctx v = Inr (pf, h)"
    using assms by (auto simp: lightStep_def Let_def bind_r_Inr_iff)
  from validateProof_Inr(2) [OF p] obtain n hash where h: "fld pf ''header'' = JObj h" "fld h ''protocolVersion'' = JNum n"
    "blockHeaderHash cr h = Inr hash" "fld pf ''hash'' = JStr hash" by (rule validateFinalityHeader_Inr)
  note d = assms [unfolded lightStep_def Let_def p bind_r_simps prod.case]
  then obtain height timestamp where ht: "safe_int (fld h ''height'') = Some height" "safe_int (fld h ''timestamp'') = Some timestamp"
    by (auto split: if_split_asm option.split_asm)
  from d h ht have c: "height = ls_previousHeight s + 1" "strict_eq (fld h ''previousHash'') (ls_previousHash s)"
    by (auto split: if_split_asm)
  from d h ht c obtain ps where ps: "protocolTransition (rl_authorize rl) (lo_supportedVersions opts) (JNum n) height (ls_protocolVersion s)
      (ls_pending s) (fld h ''protocolUpgrade'') ?ctx = Inr ps"
    and rest: "bind_r (lightHandoff cr order (lo_expectedNetworkId opts) (lo_handoffs opts) (ls_handoffIndex s) (ls_current s) (JStr hash) h height)
            (\<lambda>(current, oldSet, i).
          bind_r (if n \<ge> CHAIN_IDENTITY_CHECKPOINT_PROTOCOL_VERSION then checkSetId cr (fld h ''validatorSetId'') current
                    ''light client finality header validator set does not match handoff history'' else Inr ()) (\<lambda>_.
          bind_r (verifyVotes cr order pf current oldSet) (\<lambda>_.
          Inr \<lparr>ls_current = current, ls_previousHash = JStr hash, ls_previousHeight = height,
            ls_previousTimestamp = Some timestamp, ls_protocolVersion = ps_protocolVersion ps, ls_pending = ps_pendingUpgrade ps,
            ls_releaseHead = ps_protocolReleaseHead ps, ls_handoffIndex = i\<rparr>))) = Inr t"
    by (auto simp: bind_r_Inr_iff split: if_split_asm)
  from ps have n: "n = ps_protocolVersion ps" by (rule protocolTransition_Inr) simp
  from rest obtain old where old: "lightHandoff cr order (lo_expectedNetworkId opts) (lo_handoffs opts) (ls_handoffIndex s) (ls_current s)
      (JStr hash) h height = Inr (ls_current t, old, ls_handoffIndex t)"
    "n \<ge> CHAIN_IDENTITY_CHECKPOINT_PROTOCOL_VERSION \<longrightarrow> (\<exists>i. validatorSetId cr (ls_current t) = Inr i \<and> fld h ''validatorSetId'' = JStr i)"
    "verifyVotes cr order pf (ls_current t) old = Inr ()"
    and t: "ls_previousHash t = JStr hash" "ls_previousHeight t = height" "ls_protocolVersion t = n" "ls_pending t = ps_pendingUpgrade ps"
      "ls_releaseHead t = ps_protocolReleaseHead ps"
    by (auto simp: bind_r_Inr_iff checkSetId_def n split: if_split_asm)
  show thesis
    by (rule that [OF validateProof_Inr(1) [OF p] h(1,4,3,2) _ c(2) t(1) _ t(3) _ _ old(2,3)])
      (use ht c t ps n old(1) in \<open>simp_all\<close>)
qed

section \<open>The set a header names\<close>

lemma hashed_distinct:
  assumes "hashObject cr (JObj h) d = Inr x"
  shows "distinct (map fst h)"
proof -
  obtain b where "consensusValueBytes (nfc cr) (to_cval (JObj h)) = Inr b"
    using assms by (auto simp: hashObject_def domainPayload_def consensusEnvelopeBytes_def bind_r_Inr_iff)
  then have "within (nfc cr) (to_cval (JObj h)) 0" by (simp only: encoding_accepts_iff)
  then have "distinct (map (\<lambda>p. str_units (fst p)) h)" by (simp add: keys_ok_def o_def map_prod_def case_prod_beta)
  then have "distinct (map str_units (map fst h))" by (simp add: o_def)
  then show ?thesis by (rule distinct_map [THEN iffD1, THEN conjunct1])
qed

lemma canon_entry:
  assumes "canon (to_cval (validatorSetEntry m)) = canon (to_cval (validatorSetEntry m'))"
  shows "mb_address m = mb_address m'"
proof -
  let ?e = "\<lambda>m. [(''address'', JStr (mb_address m))] @ (if mb_operatorId m = JUndef then [] else [(''operatorId'', mb_operatorId m)]) @
     [(''publicKey'', mb_publicKey m)]"
  have "canon (to_cval (fld (?e m) ''address'')) = canon (to_cval (fld (?e m') ''address''))"
    by (rule canon_fld [OF assms [unfolded validatorSetEntry_def]]) simp_all
  then show ?thesis by (simp add: fld_def)
qed

definition setBytes :: "crypto \<Rightarrow> member list set \<Rightarrow> bytes set" where
  "setBytes cr Ss = {x. \<exists>S \<in> Ss. domainPayload cr ''FINALITY_VALIDATOR_SET'' (JArr (map validatorSetEntry (sort_key mb_address S))) = Inr x}"

text \<open>Sets of one identity have the same members, by address.\<close>

lemma same_set:
  assumes "validatorSetId cr S = Inr i" and "validatorSetId cr S' = Inr i" and "inj_on (sha3_hex cr) (setBytes cr Ss)"
    and "S \<in> Ss" and "S' \<in> Ss"
  shows "mset (map mb_address S) = mset (map mb_address S')"
proof -
  let ?e = "\<lambda>m. canon (to_cval (validatorSetEntry m))" and ?s = "sort_key mb_address"
  have "canon (to_cval (JArr (map validatorSetEntry (?s S)))) = canon (to_cval (JArr (map validatorSetEntry (?s S'))))"
    by (rule same_hash_same_object [OF _ _ assms(3)])
      (use assms(1,2,4,5) in \<open>auto simp: validatorSetId_def map_err_Inr_iff setBytes_def\<close>)
  then have e: "map ?e (?s S) = map ?e (?s S')" by (simp add: o_def)
  have "map mb_address (?s S) = map mb_address (?s S')"
  proof (rule nth_equalityI)
    show l: "length (map mb_address (?s S)) = length (map mb_address (?s S'))" using map_eq_imp_length_eq [OF e] by simp
    fix k assume k: "k < length (map mb_address (?s S))"
    then have k': "k < length (?s S)" "k < length (?s S')" using l by (simp_all only: length_map)
    have "?e (?s S ! k) = ?e (?s S' ! k)" using arg_cong [OF e, of "\<lambda>xs. xs ! k"] by (simp only: nth_map k')
    then have "mb_address (?s S ! k) = mb_address (?s S' ! k)" by (rule canon_entry)
    then show "map mb_address (?s S) ! k = map mb_address (?s S') ! k" by (simp only: nth_map k')
  qed
  then have "mset (map mb_address (?s S)) = mset (map mb_address (?s S'))" by simp
  then show ?thesis by simp
qed

lemma quorumAs_same:
  assumes "mset (map mb_address S) = mset (map mb_address S')"
  shows "quorumAs cr S payload domain \<longleftrightarrow> quorumAs cr S' payload domain"
  using mset_eq_setD [OF assms] mset_eq_length [OF assms] by (simp add: quorumAs_def)

section \<open>Two clients\<close>

text \<open>More than a third of a set signed commits for both hashes.\<close>

definition committedBoth :: "crypto \<Rightarrow> member list \<Rightarrow> string \<Rightarrow> string \<Rightarrow> bool" where
  "committedBoth cr S hash hash' \<longleftrightarrow>
     (\<exists>A p p'. A \<subseteq> mb_address ` set S \<and> length S < 3 * card A \<and>
        (\<forall>a \<in> A. signedAs cr (commitPayload hash p) ''BLOCK_COMMIT'' a \<and> signedAs cr (commitPayload hash' p') ''BLOCK_COMMIT'' a))"

lemma quorums_committedBoth:
  assumes "distinct (map mb_address S)" and "quorumAs cr S (commitPayload hash p) ''BLOCK_COMMIT''"
    and "quorumAs cr S (commitPayload hash' p') ''BLOCK_COMMIT''"
  shows "committedBoth cr S hash hash'"
proof -
  let ?U = "mb_address ` set S"
  obtain A where A: "A \<subseteq> ?U" "voteQuorum (length S) \<le> card A" "\<forall>a \<in> A. signedAs cr (commitPayload hash p) ''BLOCK_COMMIT'' a"
    using assms(2) unfolding quorumAs_def by auto
  obtain B where B: "B \<subseteq> ?U" "voteQuorum (length S) \<le> card B" "\<forall>a \<in> B. signedAs cr (commitPayload hash' p') ''BLOCK_COMMIT'' a"
    using assms(3) unfolding quorumAs_def by auto
  have size: "card ?U = length S" using distinct_card [OF assms(1)] by simp
  have "card ?U < 3 * card (A \<inter> B)" by (rule votes.intersection) (use A B size in simp_all)
  then show ?thesis unfolding committedBoth_def size using A B
    by (intro exI [of _ "A \<inter> B"] exI [of _ p] exI [of _ p']) auto
qed

text \<open>A client's state trusts a set it was given, and the identity of the set is the one named last.\<close>

definition trusting :: "crypto \<Rightarrow> (string \<Rightarrow> string \<Rightarrow> bool) \<Rightarrow> light_options \<Rightarrow> jsval \<Rightarrow> light_state \<Rightarrow> bool" where
  "trusting cr order opts named s \<longleftrightarrow> ls_current s \<in> trustedSets cr order opts \<and>
     CHAIN_IDENTITY_CHECKPOINT_PROTOCOL_VERSION \<le> ls_protocolVersion s \<and>
     (\<exists>i. validatorSetId cr (ls_current s) = Inr i \<and> named = JStr i)"

lemma lightStep_trusting:
  assumes "lightStep cr order rl opts anchor s v = Inr t" and "trusting cr order opts named s"
    and "holdsKeys cr (lo_trustedValidators opts)" and "\<And>a b. order a b \<Longrightarrow> \<not> order b a"
  obtains pf h hash where "v = JObj pf" and "fld pf ''header'' = JObj h" and "fld pf ''hash'' = JStr hash"
    and "blockHeaderHash cr h = Inr hash" and "ls_previousHash t = JStr hash" and "ls_previousHeight t = ls_previousHeight s + 1"
    and "trusting cr order opts (fld h ''validatorSetId'') t" and "certifiedBy cr (ls_current s) hash (fld h ''height'')"
  using assms(1)
proof (rule lightStep_Inr)
  fix pf h hash n old
  assume p: "v = JObj pf" "fld pf ''header'' = JObj h" "fld pf ''hash'' = JStr hash" "blockHeaderHash cr h = Inr hash"
    and t: "ls_previousHash t = JStr hash" "ls_previousHeight t = ls_previousHeight s + 1" "ls_protocolVersion t = n"
    and trans: "protocolTransition (rl_authorize rl) (lo_supportedVersions opts) (JNum n) (ls_previousHeight s + 1) (ls_protocolVersion s) (ls_pending s)
      (fld h ''protocolUpgrade'') (lightContext opts anchor s) =
      Inr \<lparr>ps_pendingUpgrade = ls_pending t, ps_protocolVersion = n, ps_protocolReleaseHead = ls_releaseHead t\<rparr>"
    and hand: "lightHandoff cr order (lo_expectedNetworkId opts) (lo_handoffs opts) (ls_handoffIndex s) (ls_current s) (JStr hash) h
      (ls_previousHeight s + 1) = Inr (ls_current t, old, ls_handoffIndex t)"
    and set_id: "n \<ge> CHAIN_IDENTITY_CHECKPOINT_PROTOCOL_VERSION \<longrightarrow> (\<exists>i. validatorSetId cr (ls_current t) = Inr i \<and> fld h ''validatorSetId'' = JStr i)"
    and votes: "verifyVotes cr order pf (ls_current t) old = Inr ()"
  note hand = lightHandoff_Inr [OF hand]
  have "ls_protocolVersion s \<le> n" using trans by (rule protocolTransition_Inr) (simp split: if_split_asm)
  moreover have in_sets: "ls_current t \<in> trustedSets cr order opts"
    using hand assms(2) by (auto simp: trusting_def trustedSets_def)
  ultimately have "trusting cr order opts (fld h ''validatorSetId'') t" using set_id assms(2) t(3) by (auto simp: trusting_def)
  moreover have "certifiedBy cr (ls_current s) hash (fld h ''height'')"
    by (rule verifyVotes_Inr [OF votes p(2,3)])
      (use hand trustedSets_keys [OF _ assms(3,4)] in_sets assms(2) in \<open>auto simp: trusting_def\<close>)
  ultimately show thesis using that p t by blast
qed

text \<open>The bytes hashed for the headers of a client's proofs and for the sets it may come to trust.\<close>

definition headerBytes :: "crypto \<Rightarrow> jsval list \<Rightarrow> bytes set" where
  "headerBytes cr proofs = {x. \<exists>v \<in> set proofs. domainPayload cr ''BLOCK'' (JObj (proofHeader v)) = Inr x}"

definition proofHash :: "jsval \<Rightarrow> jsval" where
  "proofHash v = (case v of JObj pf \<Rightarrow> fld pf ''hash'' | _ \<Rightarrow> JUndef)"

text \<open>The proofs at position \<open>i\<close> of two chains are the first whose blocks differ.\<close>

definition fork_at :: "jsval list \<Rightarrow> jsval list \<Rightarrow> nat \<Rightarrow> string \<Rightarrow> string \<Rightarrow> bool" where
  "fork_at ps ps' i hash hash' \<longleftrightarrow> i < length ps \<and> i < length ps' \<and> map proofHash (take i ps) = map proofHash (take i ps') \<and>
     proofHash (ps ! i) = JStr hash \<and> proofHash (ps' ! i) = JStr hash' \<and> hash \<noteq> hash'"

lemma fork_at_Cons: "proofHash v = proofHash v' \<Longrightarrow> fork_at ps ps' i hash hash' \<Longrightarrow> fork_at (v # ps) (v' # ps') (Suc i) hash hash'"
  by (simp add: fork_at_def)

text \<open>The identity named before position \<open>i\<close>: the checkpoint's, or that of the header there.\<close>

definition namedAt :: "jsval \<Rightarrow> jsval list \<Rightarrow> nat \<Rightarrow> jsval" where
  "namedAt named ps i = (case i of 0 \<Rightarrow> named | Suc j \<Rightarrow> fld (proofHeader (ps ! j)) ''validatorSetId'')"

lemma namedAt_Cons: "namedAt (fld (proofHeader v) ''validatorSetId'') ps i = namedAt named (v # ps) (Suc i)"
  by (simp add: namedAt_def split: nat.split)

lemma light_fork:
  assumes "trusting cr order opts named s" and "trusting cr order opts' named s'"
    and "certifiedBy cr (ls_current s) hash height" and "certifiedBy cr (ls_current s') hash' height'"
    and "inj_on (sha3_hex cr) (setBytes cr Ss)" and "trustedSets cr order opts \<union> trustedSets cr order opts' \<subseteq> Ss"
  shows "committedBoth cr (ls_current s) hash hash'"
proof -
  obtain i where i: "validatorSetId cr (ls_current s) = Inr i" "validatorSetId cr (ls_current s') = Inr i"
    using assms(1,2) by (auto simp: trusting_def)
  have same: "mset (map mb_address (ls_current s)) = mset (map mb_address (ls_current s'))"
    by (rule same_set [OF i assms(5)]) (use assms(1,2,6) in \<open>auto simp: trusting_def\<close>)
  from assms(3) obtain p where "distinct (map mb_address (ls_current s))"
    and "quorumAs cr (ls_current s) (commitPayload hash p) ''BLOCK_COMMIT''" by (auto simp: certifiedBy_def)
  moreover from assms(4) obtain p' where "quorumAs cr (ls_current s') (commitPayload hash' p') ''BLOCK_COMMIT''"
    by (auto simp: certifiedBy_def)
  then have "quorumAs cr (ls_current s) (commitPayload hash' p') ''BLOCK_COMMIT''" by (simp only: quorumAs_same [OF same])
  ultimately show ?thesis by (rule quorums_committedBoth)
qed

lemma same_header:
  assumes "blockHeaderHash cr h = Inr hash" and "blockHeaderHash cr h' = Inr hash" and "inj_on (sha3_hex cr) B"
    and "\<And>x. domainPayload cr ''BLOCK'' (JObj h) = Inr x \<Longrightarrow> x \<in> B" and "\<And>x. domainPayload cr ''BLOCK'' (JObj h') = Inr x \<Longrightarrow> x \<in> B"
    and "fld h k = JStr i"
  shows "fld h' k = JStr i"
proof -
  have hashed: "hashObject cr (JObj h) ''BLOCK'' = Inr hash" "hashObject cr (JObj h') ''BLOCK'' = Inr hash"
    using assms(1,2) by (simp_all add: blockHeaderHash_def map_err_Inr_iff)
  have "canon (to_cval (JObj h)) = canon (to_cval (JObj h'))" by (rule same_hash_same_object [OF hashed assms(3-5)])
  from canon_fld [OF this hashed_distinct [OF hashed(1)] hashed_distinct [OF hashed(2)], of k]
  show ?thesis unfolding assms(6) by (rule canon_text)
qed

lemma light_runs:
  assumes keys: "holdsKeys cr (lo_trustedValidators opts)" "holdsKeys cr (lo_trustedValidators opts')"
    and asym: "\<And>a b. order a b \<Longrightarrow> \<not> order b a"
    and sets: "inj_on (sha3_hex cr) (setBytes cr (trustedSets cr order opts \<union> trustedSets cr order opts'))"
    and headers: "inj_on (sha3_hex cr) (headerBytes cr (all @ all'))"
  shows "foldM (lightStep cr order rl opts anchor) s ps = Inr t \<Longrightarrow> foldM (lightStep cr order rl' opts' anchor') s' ps' = Inr t' \<Longrightarrow>
    trusting cr order opts named s \<Longrightarrow> trusting cr order opts' named s' \<Longrightarrow> set ps \<subseteq> set all \<Longrightarrow> set ps' \<subseteq> set all' \<Longrightarrow>
    map proofHash (take (length ps') ps) = map proofHash (take (length ps) ps') \<or>
    (\<exists>i hash hash' S id. fork_at ps ps' i hash hash' \<and> S \<in> trustedSets cr order opts \<and>
       validatorSetId cr S = Inr id \<and> namedAt named ps i = JStr id \<and> committedBoth cr S hash hash')"
proof (induction ps arbitrary: s s' ps' named)
  case Nil
  then show ?case by simp
next
  case (Cons v ps)
  note * = Cons
  show ?case
  proof (cases ps')
    case Nil
    then show ?thesis by simp
  next
    case (Cons v' qs)
    obtain u where u: "lightStep cr order rl opts anchor s v = Inr u" "foldM (lightStep cr order rl opts anchor) u ps = Inr t"
      using *(2) by (auto simp: bind_r_Inr_iff)
    obtain u' where u': "lightStep cr order rl' opts' anchor' s' v' = Inr u'" "foldM (lightStep cr order rl' opts' anchor') u' qs = Inr t'"
      using *(3) Cons by (auto simp: bind_r_Inr_iff)
    obtain pf h hash where p: "v = JObj pf" "fld pf ''header'' = JObj h" "fld pf ''hash'' = JStr hash" "blockHeaderHash cr h = Inr hash"
      and tr: "trusting cr order opts (fld h ''validatorSetId'') u" and cert: "certifiedBy cr (ls_current s) hash (fld h ''height'')"
      using u(1) *(4) keys(1) asym by (rule lightStep_trusting)
    obtain pf' h' hash' where p': "v' = JObj pf'" "fld pf' ''header'' = JObj h'" "fld pf' ''hash'' = JStr hash'"
        "blockHeaderHash cr h' = Inr hash'"
      and tr': "trusting cr order opts' (fld h' ''validatorSetId'') u'" and cert': "certifiedBy cr (ls_current s') hash' (fld h' ''height'')"
      using u'(1) *(5) keys(2) asym by (rule lightStep_trusting)
    have hd: "proofHash v = JStr hash" "proofHash v' = JStr hash'" "proofHeader v = h" "proofHeader v' = h'"
      using p p' by (simp_all add: proofHash_def proofHeader_def)
    show ?thesis
    proof (cases "hash = hash'")
      case False
      have "committedBoth cr (ls_current s) hash hash'" by (rule light_fork [OF *(4,5) cert cert' sets order_refl])
      moreover have "fork_at (v # ps) ps' 0 hash hash'" using False hd Cons by (simp add: fork_at_def)
      moreover obtain id where "validatorSetId cr (ls_current s) = Inr id" "named = JStr id" "ls_current s \<in> trustedSets cr order opts"
        using *(4) by (auto simp: trusting_def)
      ultimately show ?thesis
        by (intro disjI2 exI [of _ 0] exI [of _ hash] exI [of _ hash'] exI [of _ "ls_current s"] exI [of _ id]) (simp add: namedAt_def)
    next
      case True
      obtain i where "fld h ''validatorSetId'' = JStr i" using tr by (auto simp: trusting_def)
      moreover from this have "fld h' ''validatorSetId'' = JStr i"
        by (rule same_header [OF p(4) p'(4) [folded True] headers, rotated 2])
          (use *(6,7) Cons hd in \<open>auto simp: headerBytes_def\<close>)
      ultimately have named: "trusting cr order opts' (fld h ''validatorSetId'') u'" using tr' by simp
      have "map proofHash (take (length qs) ps) = map proofHash (take (length ps) qs) \<or>
        (\<exists>i hash hash' S id. fork_at ps qs i hash hash' \<and> S \<in> trustedSets cr order opts \<and>
         validatorSetId cr S = Inr id \<and> namedAt (fld h ''validatorSetId'') ps i = JStr id \<and> committedBoth cr S hash hash')"
        by (rule *(1) [OF u(2) u'(2) tr named]) (use *(6,7) Cons in auto)
      then show ?thesis
      proof (elim disjE exE conjE)
        assume "map proofHash (take (length qs) ps) = map proofHash (take (length ps) qs)"
        then show ?thesis using hd True Cons by simp
      next
        fix i a b S id
        assume f: "fork_at ps qs i a b" "S \<in> trustedSets cr order opts" "validatorSetId cr S = Inr id"
          "namedAt (fld h ''validatorSetId'') ps i = JStr id" "committedBoth cr S a b"
        have "fork_at (v # ps) ps' (Suc i) a b" unfolding Cons by (rule fork_at_Cons) (use f(1) hd True in simp_all)
        moreover have "namedAt named (v # ps) (Suc i) = JStr id" using f(4) hd(3) namedAt_Cons by metis
        ultimately show ?thesis using f(2,3,5) by blast
      qed
    qed
  qed
qed

lemma catchUp_Inr:
  "catchUp cr order net hs height i current = Inr (current', j) \<Longrightarrow> current' = current \<or>
    (\<exists>h. JObj h \<in> set hs \<and> normalizeTrustSet cr order (fld h ''nextValidators'') = Inr current')"
proof (induction cr order net hs height i current rule: catchUp.induct)
  case (1 cr order net hs height i current)
  show ?case
  proof (cases "length hs \<le> i \<or> hs ! i = JNull \<or> hs ! i = JUndef \<or> compared (activationOf (hs ! i)) = None")
    case True
    then show ?thesis using "1.prems" by (auto simp: catchUp.simps [of _ _ _ _ _ i] split: if_split_asm)
  next
    case False
    then obtain a where a: "compared (activationOf (hs ! i)) = Some a" "\<not> length hs \<le> i" "\<not> (hs ! i = JNull \<or> hs ! i = JUndef)" by auto
    show ?thesis
    proof (cases "a > height")
      case True
      then show ?thesis using "1.prems" a by (simp add: catchUp.simps [of _ _ _ _ _ i])
    next
      case below: False
      obtain p k where p: "verifyValidatorHandoff cr order net (minimumHeight hs i) current (hs ! i) = Inr (p, k)"
        and rest: "catchUp cr order net hs height (i + 1) (ho_nextValidators p) = Inr (current', j)"
        using "1.prems" a below by (auto simp: catchUp.simps [of _ _ _ _ _ i] bind_r_Inr_iff)
      have "current' = ho_nextValidators p \<or> (\<exists>h. JObj h \<in> set hs \<and> normalizeTrustSet cr order (fld h ''nextValidators'') = Inr current')"
        using "1.IH" [OF a(2,3,1) below, of "(p, k)"] rest p by simp
      moreover obtain h where "hs ! i = JObj h" "normalizeTrustSet cr order (fld h ''nextValidators'') = Inr (ho_nextValidators p)"
        using verified_next_set [OF p] by blast
      moreover have "hs ! i \<in> set hs" using a(2) by simp
      ultimately show ?thesis by auto
    qed
  qed
qed

lemma lightStart_trusting:
  assumes "lightStart cr order rl opts height0 = Inr (anchor, s)" and "fld (lo_checkpoint opts) ''validatorSetId'' \<noteq> JUndef"
    and "fld (lo_checkpoint opts) ''protocolVersion'' = JNum v0" and "CHAIN_IDENTITY_CHECKPOINT_PROTOCOL_VERSION \<le> v0"
  shows "trusting cr order opts (fld (lo_checkpoint opts) ''validatorSetId'') s"
proof -
  let ?cp = "lo_checkpoint opts"
  obtain version0 where version0: "safe_int (fld ?cp ''protocolVersion'') = Some version0"
    using assms(1,3) by (auto simp: lightStart_def Let_def orNull_def split: if_split_asm option.split_asm)
  then have "version0 = v0" using assms(3) by (simp split: if_split_asm)
  with version0 have v0: "safe_int (JNum v0) = Some v0" using assms(3) by simp
  obtain trusted current i where t: "normalizeValidators order (lo_trustedValidators opts) = Inr trusted"
    and c: "catchUp cr order (lo_expectedNetworkId opts) (lo_handoffs opts) height0 0 trusted = Inr (current, i)"
    and id: "checkSetId cr (fld ?cp ''validatorSetId'') current ''light client checkpoint validator set does not match handoff history'' = Inr ()"
    and s: "ls_current s = current" "ls_protocolVersion s = v0"
    using assms(1,2) by (auto simp: lightStart_def Let_def orNull_def assms(3) v0 bind_r_Inr_iff simp del: safe_int.simps split: if_split_asm)
  have "current \<in> trustedSets cr order opts" using catchUp_Inr [OF c] t by (auto simp: trustedSets_def)
  moreover have "\<exists>k. validatorSetId cr current = Inr k \<and> fld ?cp ''validatorSetId'' = JStr k"
    using id by (auto simp: checkSetId_def bind_r_Inr_iff split: if_split_asm)
  ultimately show ?thesis using s assms(4) by (simp add: trusting_def)
qed

lemma verifyFinalityProofChain_Inr:
  assumes "verifyFinalityProofChain cr order rl opts ps = Inr t"
  obtains height0 anchor s0 s where "safe_int (fld (lo_checkpoint opts) ''height'') = Some height0"
    and "lightStart cr order rl opts height0 = Inr (anchor, s0)" and "foldM (lightStep cr order rl opts anchor) s0 ps = Inr s"
    and "lt_tipHash t = ls_previousHash s"
  using assms by (auto simp: verifyFinalityProofChain_def Let_def bind_r_Inr_iff split: option.split_asm if_split_asm)

text \<open>
  C6: Two light clients that start from one checkpoint accept the same blocks, position by position, or
  more than a third of the set named by the last block (or checkpoint) they agree on signed commits for
  both of the blocks they differ at. Neither client's proofs, handoffs, trusted set or release log are
  assumed honest: only that the trusted sets hold the keys of their addresses, and that the hash has no
  collision among the headers of the two chains and none among the sets the two may come to trust.
\<close>

theorem light_clients_agree:
  assumes "\<And>a b. order a b \<Longrightarrow> \<not> order b a"
    and "holdsKeys cr (lo_trustedValidators opts)" and "holdsKeys cr (lo_trustedValidators opts')"
    and "inj_on (sha3_hex cr) (setBytes cr (trustedSets cr order opts \<union> trustedSets cr order opts'))"
    and "inj_on (sha3_hex cr) (headerBytes cr (ps @ ps'))"
    and "lo_checkpoint opts' = lo_checkpoint opts" and "fld (lo_checkpoint opts) ''validatorSetId'' \<noteq> JUndef"
    and "fld (lo_checkpoint opts) ''protocolVersion'' = JNum v0" and "CHAIN_IDENTITY_CHECKPOINT_PROTOCOL_VERSION \<le> v0"
    and "verifyFinalityProofChain cr order rl opts ps = Inr tip" and "verifyFinalityProofChain cr order rl' opts' ps' = Inr tip'"
  shows "map proofHash (take (length ps') ps) = map proofHash (take (length ps) ps') \<or>
    (\<exists>i hash hash' S id. fork_at ps ps' i hash hash' \<and> S \<in> trustedSets cr order opts \<and> validatorSetId cr S = Inr id \<and>
       namedAt (fld (lo_checkpoint opts) ''validatorSetId'') ps i = JStr id \<and> committedBoth cr S hash hash')"
proof -
  obtain height0 anchor s0 s where run: "lightStart cr order rl opts height0 = Inr (anchor, s0)"
      "foldM (lightStep cr order rl opts anchor) s0 ps = Inr s"
    using assms(10) by (rule verifyFinalityProofChain_Inr)
  obtain height0' anchor' s0' s' where run': "lightStart cr order rl' opts' height0' = Inr (anchor', s0')"
      "foldM (lightStep cr order rl' opts' anchor') s0' ps' = Inr s'"
    using assms(11) by (rule verifyFinalityProofChain_Inr)
  have trust: "trusting cr order opts (fld (lo_checkpoint opts) ''validatorSetId'') s0"
    by (rule lightStart_trusting [OF run(1) assms(7-9)])
  have trust': "trusting cr order opts' (fld (lo_checkpoint opts) ''validatorSetId'') s0'"
    using lightStart_trusting [OF run'(1)] assms(6-9) by simp
  show ?thesis
    by (rule light_runs [OF assms(2,3) _ assms(4,5) run(2) run'(2) trust trust' subset_refl subset_refl]) (rule assms(1))
qed

section \<open>What the chain finalizes, clients accept\<close>

lemma byAddress_foldl: "byAddress ms = foldl (\<lambda>m e. jset (fst e) (snd e) m) [] (map addressed ms)"
  by (simp add: byAddress_def foldl_map)

lemma jget_same_set:
  assumes "jwf m" and "jwf m'" and "set m = set m'"
  shows "jget m k = jget m' k"
proof -
  have "map_of m = map_of m'" using assms by (simp add: jwf_def jkeys_def map_of_inject_set)
  then show ?thesis by (simp add: jget_def)
qed

lemma jget_rev: "jwf m \<Longrightarrow> jget (rev m) k = jget m k"
  by (rule jget_same_set) (simp_all add: jwf_def jkeys_def rev_map [symmetric])

lemma jget_byAddress: "jget (byAddress ms) k = jget (rev (map addressed ms)) k"
  by (simp add: byAddress_foldl jget_foldl_jset split: option.split)

lemma jwf_addressed: "distinct (map mb_address ms) \<Longrightarrow> jwf (map addressed ms)"
  by (simp add: jwf_def jkeys_def o_def)

lemma jwf_foldl_jset: "jwf m \<Longrightarrow> jwf (foldl (\<lambda>m e. jset (fst e) (snd e) m) m es)"
  by (induction es arbitrary: m) auto

lemma jget_byAddress_sorted:
  assumes "distinct (map mb_address ms)"
  shows "jget (byAddress (sortByAddress order ms)) k = jget (byAddress ms) k"
proof -
  have w: "jwf (map addressed (sortByAddress order ms))" "jwf (map addressed ms)"
    by (rule jwf_addressed; use assms in simp)+
  have "jget (map addressed (sortByAddress order ms)) k = jget (map addressed ms) k" by (rule jget_same_set [OF w]) simp
  then show ?thesis by (simp add: jget_byAddress jget_rev [OF w(1)] jget_rev [OF w(2)])
qed

lemma jsize_same:
  assumes "jwf m" and "jwf m'" and "\<And>k. jget m k = jget m' k"
  shows "jsize m = jsize m'"
proof -
  have "set (jkeys m) = set (jkeys m')" using assms(3) by (auto simp: jhas_iff_keys [symmetric] jhas_def)
  then show ?thesis using jkeys_size [OF assms(1)] jkeys_size [OF assms(2)] by simp
qed

text \<open>The map of the members that may vote, as the chain and as a client build it.\<close>

definition lightAccepted :: "(string \<Rightarrow> string \<Rightarrow> bool) \<Rightarrow> member list \<Rightarrow> member list option \<Rightarrow> (string, member) jsmap" where
  "lightAccepted order current previous =
     byAddress ((case map_option (sortByAddress order) previous of None \<Rightarrow> [] | Some p \<Rightarrow> p) @ sortByAddress order current)"

lemma lightAccepted_same:
  assumes "distinct (map mb_address current)" and "\<And>p. previous = Some p \<Longrightarrow> distinct (map mb_address p)"
  shows "jget (lightAccepted order current previous) k = jget (acceptedValidators (byAddress current) (map_option byAddress previous)) k"
    and "jsize (lightAccepted order current previous) = jsize (acceptedValidators (byAddress current) (map_option byAddress previous))"
proof -
  show get: "jget (lightAccepted order current previous) k = jget (acceptedValidators (byAddress current) (map_option byAddress previous)) k" for k
  proof (cases previous)
    case None
    then show ?thesis by (simp add: lightAccepted_def acceptedValidators_def jget_byAddress_sorted [OF assms(1)])
  next
    case (Some p)
    have "jget (lightAccepted order current previous) k =
        (case jget (byAddress (sortByAddress order current)) k of None \<Rightarrow> jget (byAddress (sortByAddress order p)) k | Some m \<Rightarrow> Some m)"
      by (simp add: lightAccepted_def Some jget_byAddress jget_append split: option.split)
    also have "\<dots> = (case jget (byAddress current) k of None \<Rightarrow> jget (byAddress p) k | Some m \<Rightarrow> Some m)"
      by (simp only: jget_byAddress_sorted [OF assms(1)] jget_byAddress_sorted [OF assms(2) [OF Some]])
    also have "\<dots> = jget (acceptedValidators (byAddress current) (map_option byAddress previous)) k"
      by (simp add: Some acceptedValidators_def jget_foldl_jset jget_append jget_rev byAddress_keys(2) split: option.split)
    finally show ?thesis .
  qed
  show "jsize (lightAccepted order current previous) = jsize (acceptedValidators (byAddress current) (map_option byAddress previous))"
  proof (rule jsize_same [OF _ _ get])
    show "jwf (lightAccepted order current previous)" by (simp add: lightAccepted_def byAddress_keys(2))
    show "jwf (acceptedValidators (byAddress current) (map_option byAddress previous))"
      by (cases previous) (simp_all add: acceptedValidators_def byAddress_keys(2) jwf_foldl_jset del: foldl_append)
  qed
qed

lemma light_of_checkPrepare:
  assumes "checkPrepare cr hash height blockRound accepted s v = Inr (seen, Some r)" and "\<And>k. jget accepted' k = jget accepted k"
  shows "checkLightPrepare cr (JStr hash) height r accepted' s v = Inr (seen, Some r)"
  using assms(1)
  by (cases v) (auto simp: checkPrepare_def checkLightPrepare_def voteOf_def vget_def assms(2) preparePayload_def fld_def [of "[]"]
    split: jsval.split_asm option.split_asm if_split_asm)

lemma checkPrepare_round:
  "foldM (checkPrepare cr hash height blockRound accepted) (seen, Some r) vs = Inr (seen', r') \<Longrightarrow> r' = Some r"
proof (induction vs arbitrary: seen)
  case (Cons v vs)
  obtain s where "checkPrepare cr hash height blockRound accepted (seen, Some r) v = Inr s"
    "foldM (checkPrepare cr hash height blockRound accepted) s vs = Inr (seen', r')" using Cons.prems by (auto simp: bind_r_Inr_iff)
  with Cons.IH show ?case by (elim checkPrepare_Inr) auto
qed simp

lemma light_of_prepares:
  assumes "\<And>k. jget accepted' k = jget accepted k"
  shows "foldM (checkPrepare cr hash height blockRound accepted) (seen, r0) vs = Inr (seen', Some r) \<Longrightarrow>
    foldM (checkLightPrepare cr (JStr hash) height r accepted') (seen, r0) vs = Inr (seen', Some r)"
proof (induction vs arbitrary: seen r0)
  case (Cons v vs)
  obtain s where s: "checkPrepare cr hash height blockRound accepted (seen, r0) v = Inr s"
    "foldM (checkPrepare cr hash height blockRound accepted) s vs = Inr (seen', Some r)" using Cons.prems by (auto simp: bind_r_Inr_iff)
  from s(1) obtain a q where a: "s = (a, Some q)" by (elim checkPrepare_Inr) auto
  with checkPrepare_round s(2) have "q = r" by blast
  with light_of_checkPrepare [OF _ assms] s(1) a have "checkLightPrepare cr (JStr hash) height r accepted' (seen, r0) v = Inr s" by simp
  with Cons.IH s(2) a show ?case by simp
qed simp

lemma light_of_commits:
  assumes "\<And>k. jget accepted' k = jget accepted k"
  shows "foldM (checkCommit cr payload accepted) seen vs = Inr seen' \<Longrightarrow> foldM (checkLightCommit cr payload accepted') seen vs = Inr seen'"
proof (induction vs arbitrary: seen)
  case (Cons v vs)
  obtain s where s: "checkCommit cr payload accepted seen v = Inr s" "foldM (checkCommit cr payload accepted) s vs = Inr seen'"
    using Cons.prems by (auto simp: bind_r_Inr_iff)
  from s(1) have "checkLightCommit cr payload accepted' seen v = Inr s"
    by (cases v) (auto simp: checkCommit_def checkLightCommit_def voteOf_def vget_def assms fld_def [of "[]"]
      split: jsval.split_asm option.split_asm if_split_asm)
  with Cons.IH s(2) show ?case by simp
qed simp

lemma requireQuorum_of:
  assumes "distinct (map mb_address ms)" and "voteQuorum (jsize (byAddress ms)) \<le> inSet (byAddress ms) seen"
  shows "requireQuorum (sortByAddress order ms) seen = Inr ()"
proof -
  have "jhas (byAddress ms) = (\<lambda>a. a \<in> set (map mb_address ms))" by (rule ext) (simp add: jhas_iff_keys byAddress_keys)
  then show ?thesis using assms(2) byAddress_size [OF assms(1)] by (simp add: requireQuorum_def inSet_def)
qed

lemma requireQuorums_of:
  assumes "assertQuorums (byAddress current) (map_option byAddress previous) seen x y = Inr ()"
    and "distinct (map mb_address current)" and "\<And>p. previous = Some p \<Longrightarrow> distinct (map mb_address p)"
  shows "requireQuorums (sortByAddress order current) (map_option (sortByAddress order) previous) seen = Inr ()"
  using assms by (cases previous) (auto simp: assertQuorums_def requireQuorums_def requireQuorum_of split: if_split_asm)

lemma roundOfProof_first:
  assumes "foldM (checkPrepare cr hash height blockRound accepted) ([], None) prepares = Inr (seen, Some r)"
    and "fld block ''prepareCertificate'' = JArr prepares"
  shows "safe_int (roundOfProof block) = Some r"
proof (cases prepares)
  case Nil
  then show ?thesis using assms(1) by simp
next
  case (Cons v vs)
  then obtain s where s: "checkPrepare cr hash height blockRound accepted ([], None) v = Inr s"
    "foldM (checkPrepare cr hash height blockRound accepted) s vs = Inr (seen, Some r)" using assms(1) by (auto simp: bind_r_Inr_iff)
  from s(1) obtain vote a m q where q: "voteOf v = Inr vote" "safe_int (fld vote ''round'') = Some q" "s = (a, Some q)"
    by (elim checkPrepare_Inr) auto
  have "q = r" using checkPrepare_round s(2) q(3) by blast
  moreover from q(1,2) have "v = JObj vote" by (cases v) (auto simp: voteOf_def fld_def)
  moreover from q(2) have "fld vote ''round'' \<noteq> JUndef" "fld vote ''round'' \<noteq> JNull" by auto
  ultimately show ?thesis using q(2) assms(2) Cons by (simp add: roundOfProof_def)
qed

text \<open>
  C7: What the chain finalizes, its light clients accept. The proof built from a block whose certificate
  the chain verified, in a steady state or across a change of validators, carries the block's hash and a
  header with that hash, and passes the client's check of both certificates against the same sets,
  however the client orders them.
\<close>

theorem finalized_block_convinces_clients:
  assumes "verifyCertificate cr block (byAddress current) (map_option byAddress previous) = Inr ()"
    and "createFinalityProof cr block = Inr (JObj pf)"
    and "normalizeValidators order current = Inr current'"
    and "\<And>p. previous = Some p \<Longrightarrow> \<exists>p'. normalizeValidators order p = Inr p'"
  shows "verifyVotes cr order pf current previous = Inr () \<and>
    (\<exists>h hash. fld pf ''header'' = JObj h \<and> fld pf ''hash'' = JStr hash \<and> fld block ''hash'' = JStr hash \<and> blockHeaderHash cr h = Inr hash)"
proof -
  let ?acc = "acceptedValidators (byAddress current) (map_option byAddress previous)"
  let ?light = "lightAccepted order current previous"
  obtain header where h: "blockHeader cr block = Inr header"
    and pf: "fld pf ''hash'' = fld block ''hash''" "fld pf ''header'' = JObj header" "fld pf ''round'' = roundOfProof block"
      "fld pf ''certificate'' = orEmpty (fld block ''certificate'')" "fld pf ''prepareCertificate'' = orEmpty (fld block ''prepareCertificate'')"
    using assms(2) by (auto simp: createFinalityProof_def bind_r_Inr_iff fld_def)
  have height: "fld header ''height'' = fld block ''height''" by (rule blockHeader_Inr [OF h]) simp
  note v = assms(1) [unfolded verifyCertificate_def Let_def]
  obtain hash where hash: "blockHash cr block = Inr hash" "fld block ''hash'' = JStr hash"
    using v by (auto simp: bind_r_Inr_iff split: if_split_asm)
  obtain prepares commits blockRound where c: "fld block ''prepareCertificate'' = JArr prepares" "fld block ''certificate'' = JArr commits"
      "safe_int (fld block ''round'') = Some blockRound"
    using v hash by (auto split: jsval.split_asm option.split_asm)
  obtain seen r ph voters where sizes: "length prepares \<le> jsize ?acc" "length commits \<le> jsize ?acc"
    and p: "foldM (checkPrepare cr hash (fld block ''height'') blockRound ?acc) ([], None) prepares = Inr (seen, r)"
    and pq: "assertQuorums (byAddress current) (map_option byAddress previous) seen ''prepare quorum not reached''
      ''old-set prepare quorum not reached'' = Inr ()"
    and ph: "prepareCertificateHash cr prepares = Inr ph"
    and cm: "foldM (checkCommit cr (commitPayload hash ph) ?acc) [] commits = Inr voters"
    and cq: "assertQuorums (byAddress current) (map_option byAddress previous) voters ''finality quorum not reached''
      ''old-set transition quorum not reached'' = Inr ()"
    using v hash c by (auto simp: bind_r_Inr_iff split: if_split_asm)
  have d: "distinct (map mb_address current)" "\<And>p. previous = Some p \<Longrightarrow> distinct (map mb_address p)"
    using normalizeValidators_Inr [OF assms(3)] assms(4) normalizeValidators_Inr by fastforce+
  note same = lightAccepted_same [OF d, of _ order]
  have "seen \<noteq> []" using pq by (auto simp: assertQuorums_def inSet_def voteQuorum_def split: if_split_asm)
  then obtain n where n: "r = Some n" using p by (cases prepares) (auto simp: bind_r_Inr_iff elim!: checkPrepare_Inr dest: checkPrepare_round)
  have "foldM (checkLightPrepare cr (JStr hash) (fld block ''height'') n ?light) ([], None) prepares = Inr (seen, Some n)"
    by (rule light_of_prepares [OF same(1) p [unfolded n]])
  moreover have "foldM (checkLightCommit cr (commitPayload hash ph) ?light) [] commits = Inr voters"
    by (rule light_of_commits [OF same(1) cm])
  moreover have "safe_int (fld pf ''round'') = Some n" unfolding pf(3) by (rule roundOfProof_first [OF p [unfolded n] c(1)])
  moreover have "requireQuorums (sortByAddress order current) (map_option (sortByAddress order) previous) seen = Inr ()"
    "requireQuorums (sortByAddress order current) (map_option (sortByAddress order) previous) voters = Inr ()"
    using requireQuorums_of [OF pq d] requireQuorums_of [OF cq d] by blast+
  moreover have "jsize ?light = jsize ?acc" by (rule lightAccepted_same(2) [OF d])
  ultimately have "verifyCertificates cr pf (sortByAddress order current) (map_option (sortByAddress order) previous) = Inr ()"
    unfolding verifyCertificates_def lightAccepted_def [symmetric] Let_def
    using ph hash c sizes pf height by (simp add: orEmpty_def)
  moreover have "normalizeValidators order current = Inr (sortByAddress order current)"
    "\<And>p. previous = Some p \<Longrightarrow> normalizeValidators order p = Inr (sortByAddress order p)"
    using assms(3,4) normalizeValidators_Inr(1) by fastforce+
  ultimately have "verifyVotes cr order pf current previous = Inr ()"
    by (cases previous) (simp_all add: verifyVotes_def)
  moreover have "blockHeaderHash cr header = Inr hash" using hash(1) h by (simp add: blockHash_def)
  ultimately show ?thesis using pf hash(2) by simp
qed

section \<open>A client to evaluate\<close>

text \<open>A hash that tells the domains of blocks and of sets apart, and gives the addresses of \<open>demo_beacons\<close>.\<close>

definition light_crypto :: crypto where
  "light_crypto = demo_crypto\<lparr>sha3_hex := (\<lambda>b. replicate 64
     (if b ! 3 = 47 then char_of (last b) else if b ! 16 = 5 then CHR ''f'' else CHR ''d''))\<rparr>"

lemma light_ascii: "keeps_ascii light_crypto"
  by (simp add: keeps_ascii_def light_crypto_def demo_crypto_def)

lemma light_hash:
  assumes "json_ok v" and "is_domain d"
  shows "hashObject light_crypto v d = Inr (replicate 64 (if length d = 5 then CHR ''f'' else CHR ''d''))"
proof -
  obtain x where x: "domainPayload light_crypto d v = Inr x" using domainPayload_ok [OF light_ascii assms] by blast
  have "x ! 3 = 45" using x by (auto simp: domainPayload_def consensusEnvelopeBytes_def envelopePrefix_def bind_r_Inr_iff
      ascii_def unit_of_def split: if_split_asm)
  with domains_payload [OF x] x show ?thesis by (simp add: hashObject_def light_crypto_def)
qed

lemma light_verify:
  assumes "json_ok v" and "is_domain d"
  shows "verifyObject light_crypto v (JStr s) (JStr k) d"
  using domainPayload_ok [OF light_ascii assms] by (auto simp: verifyObject_def light_crypto_def demo_crypto_def)

definition light_header :: jsobj where
  "light_header = (let x = JStr (replicate 64 CHR ''a'') in
     [(''accountStateRoot'', x), (''bodyHash'', x), (''capabilityMemoryRoot'', x), (''chainIdentityGenesisHash'', x),
      (''evaluationAssignmentRoot'', x), (''format'', JStr ''nir-finality-header-v4''), (''height'', JNum 8),
      (''networkId'', JStr ''nir-test''), (''peerRegistryHash'', x), (''previousHash'', x), (''protocolUpgrade'', JNull),
      (''protocolVersion'', JNum 28), (''recoveryStateCommitment'', x), (''stateRoot'', x), (''timestamp'', JNum 5),
      (''transactionCount'', JNum 0), (''transactionsRoot'', x), (''validatorSetId'', JStr demo_hex)])"

definition light_votes :: "string \<Rightarrow> jsval list" where
  "light_votes cs = map (\<lambda>c. JObj [(''round'', JNum 0), (''signature'', JStr ''sig''), (''validator'', JStr (demo_address c))]) cs"

definition light_proof :: "string \<Rightarrow> jsval" where
  "light_proof cs = JObj [(''certificate'', JArr (light_votes cs)), (''format'', JStr ''nir-finality-proof-v5''),
     (''hash'', JStr (replicate 64 CHR ''f'')), (''header'', JObj light_header), (''prepareCertificate'', JArr (light_votes cs)),
     (''round'', JNum 0)]"

definition light_opts :: light_options where
  "light_opts = \<lparr>lo_checkpoint = [(''height'', JNum 7), (''protocolVersion'', JNum 28), (''stateRoot'', JStr (replicate 64 CHR ''a'')),
       (''tipHash'', JStr (replicate 64 CHR ''a'')), (''validatorSetId'', JStr demo_hex)],
     lo_expectedChainIdentityGenesisHash = None, lo_expectedNetworkId = ''nir-test'', lo_handoffs = [], lo_releaseAnchor = JNull,
     lo_supportedVersions = SUPPORTED_PROTOCOL_VERSIONS, lo_trustedValidators = demo_beacons\<rparr>"

lemma light_header_hash: "blockHeaderHash light_crypto light_header = Inr (replicate 64 CHR ''f'')"
proof -
  have "json_ok (JObj light_header) \<and> is_domain ''BLOCK''" by code_simp
  then show ?thesis by (simp add: blockHeaderHash_def light_hash)
qed

lemma light_set_id: "validatorSetId light_crypto demo_beacons = Inr demo_hex"
proof -
  have "json_ok (JArr (map validatorSetEntry (sort_key mb_address demo_beacons))) \<and> is_domain ''FINALITY_VALIDATOR_SET''" by code_simp
  then show ?thesis by (simp add: validatorSetId_def light_hash)
qed

lemma light_normal: "normalizeValidators demo_order demo_beacons = Inr demo_beacons"
  by code_simp

lemma light_checked:
  "validateProof light_crypto (rl_authorize rl) SUPPORTED_PROTOCOL_VERSIONS ''nir-test'' None (light_proof cs) =
     Inr (case light_proof cs of JObj pf \<Rightarrow> pf, light_header)"
proof -
  have c: "finalityProofFormat 28 = ''nir-finality-proof-v5''" "finalityHeaderFormat 28 = Inr ''nir-finality-header-v4''"
    "comma_keys light_header (lightHeaderFields 28)" "list_all (\<lambda>k. is_hex64 (coerced (fld light_header k))) (lightHashFields 28)"
    "28 \<in> set SUPPORTED_PROTOCOL_VERSIONS" "is_hex64 (replicate 64 CHR ''f'')"
    "normalizeSupportedProtocolVersions SUPPORTED_PROTOCOL_VERSIONS = Inr SUPPORTED_PROTOCOL_VERSIONS"
    "atLeast 1 (JNum 8)" "atLeast 0 (JNum 5)" "atLeast 0 (JNum 0)"
    by code_simp+
  have k: "comma_keys [(''certificate'', a), (''format'', b), (''hash'', c), (''header'', d), (''prepareCertificate'', e), (''round'', f)]
    [''certificate'', ''format'', ''hash'', ''header'', ''prepareCertificate'', ''round'']" for a b c d e f
    by (simp add: comma_keys_def)
  have f: "fld light_header ''format'' = JStr ''nir-finality-header-v4''" "fld light_header ''protocolVersion'' = JNum 28"
    "fld light_header ''networkId'' = JStr ''nir-test''" "fld light_header ''height'' = JNum 8" "fld light_header ''timestamp'' = JNum 5"
    "fld light_header ''transactionCount'' = JNum 0" "fld light_header ''protocolUpgrade'' = JNull"
    by code_simp+
  show ?thesis
    using c k by (simp add: validateProof_def light_proof_def fld_def f [unfolded fld_def] validateFinalityHeader_def light_header_hash)
qed

lemma demo_address_eq: "demo_address a = demo_address b \<longleftrightarrow> a = b"
  by (simp add: demo_address_def)

lemma light_key: "addressFromPublicKey light_crypto (JStr [c]) = Some (demo_address c)"
proof -
  have "unit_of CHR ''/'' = 47" by code_simp
  then show ?thesis by (simp add: addressFromPublicKey_def light_crypto_def demo_crypto_def demo_address_def ascii_def unit_of_def)
qed

lemma light_member:
  assumes "c \<in> set ''abce''"
  shows "vget (byAddress demo_beacons) (JStr (demo_address c)) = Some (demo_beacon c)"
  using assms by (simp; elim disjE; hypsubst; code_simp)

lemma light_payloads:
  "json_ok (preparePayload (replicate 64 CHR ''f'') (JNum 8) (JNum 0)) \<and> is_domain ''BLOCK_PREPARE''"
  "json_ok (commitPayload (replicate 64 CHR ''f'') (replicate 64 CHR ''d'')) \<and> is_domain ''BLOCK_COMMIT''"
  by code_simp+

lemma light_prepared:
  "set cs \<subseteq> set ''abce'' \<Longrightarrow> distinct cs \<Longrightarrow> set seen \<inter> demo_address ` set cs = {} \<Longrightarrow> r = None \<or> r = Some 0 \<Longrightarrow> cs \<noteq> [] \<or> r = Some 0 \<Longrightarrow>
    foldM (checkLightPrepare light_crypto (JStr (replicate 64 CHR ''f'')) (JNum 8) 0 (byAddress demo_beacons)) (seen, r) (light_votes cs) =
      Inr (seen @ map demo_address cs, Some 0)"
proof (induction cs arbitrary: seen r)
  case (Cons c cs)
  have v: "verifyObject light_crypto (JObj [(''blockHash'', JStr (replicate 64 CHR ''f'')), (''height'', JNum 8), (''round'', JNum 0)])
      (JStr ''sig'') (JStr [c]) ''BLOCK_PREPARE''"
    using light_verify light_payloads(1) by (simp add: preparePayload_def)
  have "checkLightPrepare light_crypto (JStr (replicate 64 CHR ''f'')) (JNum 8) 0 (byAddress demo_beacons) (seen, r)
      (JObj [(''round'', JNum 0), (''signature'', JStr ''sig''), (''validator'', JStr (demo_address c))]) = Inr (seen @ [demo_address c], Some 0)"
    using light_member [of c] Cons.prems v
    by (auto simp: checkLightPrepare_def fld_def short_string_def demo_beacon_def MAX_SAFE_INTEGER_def)
  moreover have "foldM (checkLightPrepare light_crypto (JStr (replicate 64 CHR ''f'')) (JNum 8) 0 (byAddress demo_beacons))
      (seen @ [demo_address c], Some 0) (light_votes cs) = Inr ((seen @ [demo_address c]) @ map demo_address cs, Some 0)"
    using Cons.prems by (intro Cons.IH) (auto simp: demo_address_eq)
  ultimately show ?case by (simp add: light_votes_def)
qed (simp add: light_votes_def)

lemma light_committed:
  "set cs \<subseteq> set ''abce'' \<Longrightarrow> distinct cs \<Longrightarrow> set seen \<inter> demo_address ` set cs = {} \<Longrightarrow>
    foldM (checkLightCommit light_crypto (commitPayload (replicate 64 CHR ''f'') (replicate 64 CHR ''d'')) (byAddress demo_beacons))
      seen (light_votes cs) = Inr (seen @ map demo_address cs)"
proof (induction cs arbitrary: seen)
  case (Cons c cs)
  have v: "verifyObject light_crypto (commitPayload (replicate 64 CHR ''f'') (replicate 64 CHR ''d'')) (JStr ''sig'') (JStr [c]) ''BLOCK_COMMIT''"
    using light_verify light_payloads(2) by simp
  have "checkLightCommit light_crypto (commitPayload (replicate 64 CHR ''f'') (replicate 64 CHR ''d'')) (byAddress demo_beacons) seen
      (JObj [(''round'', JNum 0), (''signature'', JStr ''sig''), (''validator'', JStr (demo_address c))]) = Inr (seen @ [demo_address c])"
    using light_member [of c] Cons.prems v by (auto simp: checkLightCommit_def fld_def short_string_def demo_beacon_def)
  moreover have "foldM (checkLightCommit light_crypto (commitPayload (replicate 64 CHR ''f'') (replicate 64 CHR ''d'')) (byAddress demo_beacons))
      (seen @ [demo_address c]) (light_votes cs) = Inr ((seen @ [demo_address c]) @ map demo_address cs)"
    using Cons.prems by (intro Cons.IH) (auto simp: demo_address_eq)
  ultimately show ?case by (simp add: light_votes_def)
qed (simp add: light_votes_def)

lemma light_quorum:
  assumes "set cs \<subseteq> set ''abce''" and "length cs = 3"
  shows "requireQuorum demo_beacons (map demo_address cs) = Inr ()"
proof -
  have "map mb_address demo_beacons = map demo_address ''abce''" by code_simp
  then have m: "set (map mb_address demo_beacons) = demo_address ` set ''abce''" by (metis set_map)
  have "filter (\<lambda>a. a \<in> set (map mb_address demo_beacons)) (map demo_address cs) = map demo_address cs"
    unfolding m by (rule filter_True) (use assms(1) in auto)
  moreover have "voteQuorum (length demo_beacons) = 3" by code_simp
  ultimately show ?thesis using assms(2) by (simp add: requireQuorum_def)
qed

lemma light_prepare_hash:
  assumes "cs \<in> {''abc'', ''abe''}"
  shows "prepareCertificateHash light_crypto (light_votes cs) = Inr (replicate 64 CHR ''d'')"
proof -
  have "json_ok (JArr (light_votes cs)) \<and> is_domain ''PREPARE_CERTIFICATE''" using assms by (elim insertE emptyE) (simp; code_simp)+
  then have h: "hashObject light_crypto (JArr (light_votes cs)) ''PREPARE_CERTIFICATE'' = Inr (replicate 64 CHR ''d'')"
    by (simp add: light_hash)
  have s: "sort_key fst (zip (map demo_address cs) (light_votes cs)) = zip (map demo_address cs) (light_votes cs)"
    by (rule sort_key_id_if_sorted) (use assms in \<open>elim insertE emptyE; simp; code_simp\<close>)
  have "mapM (\<lambda>v. bind_r (voteOf v) (\<lambda>vote. case fld vote ''validator'' of JStr a \<Rightarrow> Inr (a, v) | _ \<Rightarrow> Inl Threw)) (light_votes cs) =
      Inr (zip (map demo_address cs) (light_votes cs))"
    by (induction cs) (simp_all add: light_votes_def voteOf_def fld_def)
  then show ?thesis
    using h s by (simp add: prepareCertificateHash_def light_votes_def)
qed

lemma light_voted:
  assumes "cs \<in> {''abc'', ''abe''}" and "light_proof cs = JObj pf"
  shows "verifyVotes light_crypto demo_order pf demo_beacons None = Inr ()"
proof -
  have cs: "set cs \<subseteq> set ''abce''" "distinct cs" "length cs = 3" "cs \<noteq> []" using assms(1) by auto
  have size: "jsize (byAddress demo_beacons) = 4" by code_simp
  have l: "length (light_votes cs) = 3" using cs(3) by (simp add: light_votes_def)
  have "fld light_header ''height'' = JNum 8" by code_simp
  moreover from assms(2) have "pf = (case light_proof cs of JObj pf \<Rightarrow> pf)" by simp
  ultimately show ?thesis
    using light_prepared [OF cs(1,2), of "[]" None] light_committed [OF cs(1,2), of "[]"] light_quorum [OF cs(1,3)] light_prepare_hash [OF assms(1)] cs(4) size l
    by (simp add: verifyVotes_def light_normal verifyCertificates_def light_proof_def fld_def requireQuorums_def MAX_SAFE_INTEGER_def)
qed

definition light_start :: light_state where
  "light_start = \<lparr>ls_current = demo_beacons, ls_previousHash = JStr (replicate 64 CHR ''a''), ls_previousHeight = 7,
     ls_previousTimestamp = None, ls_protocolVersion = 28, ls_pending = JNull, ls_releaseHead = JNull, ls_handoffIndex = 0\<rparr>"

lemma light_started: "lightStart light_crypto demo_order rl light_opts 7 = Inr (JNull, light_start)"
  by (simp add: lightStart_def light_opts_def fld_def orNull_def light_normal lightReleaseHead_def catchUp.simps checkSetId_def
      light_set_id light_start_def MAX_SAFE_INTEGER_def)

lemma light_stepped:
  assumes "cs \<in> {''abc'', ''abe''}"
  shows "\<exists>t. lightStep light_crypto demo_order rl light_opts JNull light_start (light_proof cs) = Inr t \<and> ls_current t = demo_beacons"
proof -
  obtain pf where pf: "light_proof cs = JObj pf" by (simp add: light_proof_def)
  have f: "fld light_header ''protocolVersion'' = JNum 28" "safe_int (fld light_header ''height'') = Some 8"
    "safe_int (fld light_header ''timestamp'') = Some 5" "fld light_header ''previousHash'' = JStr (replicate 64 CHR ''a'')"
    "fld light_header ''protocolUpgrade'' = JNull" "fld light_header ''validatorSetId'' = JStr demo_hex"
    "CHAIN_IDENTITY_CHECKPOINT_PROTOCOL_VERSION \<le> 28"
    by code_simp+
  have t: "protocolTransition (rl_authorize rl) SUPPORTED_PROTOCOL_VERSIONS (JNum 28) 8 28 JNull JNull None =
      Inr \<lparr>ps_pendingUpgrade = JNull, ps_protocolVersion = 28, ps_protocolReleaseHead = JNull\<rparr>" by code_simp
  show ?thesis
    using light_checked [of rl cs] light_voted [OF assms pf] f t pf
    by (simp add: lightStep_def light_opts_def light_start_def lightContext_def lightHandoff_def checkSetId_def light_set_id)
qed

lemma light_accepted:
  assumes "cs \<in> {''abc'', ''abe''}"
  shows "\<exists>tip. verifyFinalityProofChain light_crypto demo_order rl light_opts [light_proof cs] = Inr tip"
proof -
  obtain t where t: "lightStep light_crypto demo_order rl light_opts JNull light_start (light_proof cs) = Inr t"
      "ls_current t = demo_beacons" using light_stepped [OF assms] by blast
  have cp: "safe_int (fld (lo_checkpoint light_opts) ''height'') = Some 7" "is_hex64 (coerced (fld (lo_checkpoint light_opts) ''tipHash''))"
    "is_hex64 (coerced (fld (lo_checkpoint light_opts) ''stateRoot''))" "lo_handoffs light_opts = []" by code_simp+
  have j: "json_ok (JArr [light_proof cs]) \<and> plain_text (JArr [light_proof cs]) \<and> text_size (JArr [light_proof cs]) \<le> MAX_FINALITY_CHAIN_BYTES"
    using assms by (elim insertE emptyE) (simp only:; code_simp)+
  have "canonicalJson light_crypto (JArr [light_proof cs]) = Inr (text_of (canon (to_cval (JArr [light_proof cs]))))"
    by (rule canonicalJson_ok [OF light_ascii]) (use j in simp)
  moreover have "length (utf8 (map unat (text_of (canon (to_cval (JArr [light_proof cs])))))) \<le> MAX_FINALITY_CHAIN_BYTES"
    using small_text_bytes [OF plain_text_small] j le_trans by blast
  ultimately show ?thesis
    using cp t by (simp add: verifyFinalityProofChain_def Let_def MAX_FINALITY_PROOFS_def light_started light_set_id
        del: to_cval.simps canon.simps text_of.simps safe_int.simps)
qed

definition light_log :: release_log where
  "light_log = \<lparr>rl_anchor = (\<lambda>v _. Inr v), rl_createHead = Inr, rl_validateHead = (\<lambda>v _. Inr v), rl_authorize = demo_authorizer\<rparr>"

theorem light_clients_agree_witness:
  "\<exists>tip tip'. verifyFinalityProofChain light_crypto demo_order light_log light_opts [light_proof ''abc''] = Inr tip \<and>
     verifyFinalityProofChain light_crypto demo_order light_log light_opts [light_proof ''abe''] = Inr tip' \<and>
     light_proof ''abc'' \<noteq> light_proof ''abe'' \<and> proofHash (light_proof ''abc'') = proofHash (light_proof ''abe'')"
proof -
  obtain tip tip' where run: "verifyFinalityProofChain light_crypto demo_order light_log light_opts [light_proof ''abc''] = Inr tip"
      "verifyFinalityProofChain light_crypto demo_order light_log light_opts [light_proof ''abe''] = Inr tip'"
    using light_accepted [of "''abc''" light_log] light_accepted [of "''abe''" light_log] by blast
  have keys: "holdsKeys light_crypto (lo_trustedValidators light_opts)"
    by (simp add: holdsKeys_def light_opts_def demo_beacons_def demo_beacon_def light_key)
  have "trustedSets light_crypto demo_order light_opts = {demo_beacons}"
    by (auto simp: trustedSets_def light_opts_def light_normal)
  then have sets: "inj_on (sha3_hex light_crypto) (setBytes light_crypto
      (trustedSets light_crypto demo_order light_opts \<union> trustedSets light_crypto demo_order light_opts))"
    by (intro inj_onI) (auto simp: setBytes_def)
  have headers: "inj_on (sha3_hex light_crypto) (headerBytes light_crypto ([light_proof ''abc''] @ [light_proof ''abe'']))"
    by (intro inj_onI) (auto simp: headerBytes_def light_proof_def proofHeader_def fld_def)
  have cp: "fld (lo_checkpoint light_opts) ''validatorSetId'' \<noteq> JUndef" "fld (lo_checkpoint light_opts) ''protocolVersion'' = JNum 28"
    "CHAIN_IDENTITY_CHECKPOINT_PROTOCOL_VERSION \<le> 28" by code_simp+
  have "\<not> fork_at [light_proof ''abc''] [light_proof ''abe''] i a b" for i a b
    by (cases i) (auto simp: fork_at_def light_proof_def proofHash_def fld_def)
  moreover have "light_proof ''abc'' \<noteq> light_proof ''abe''"
    by (simp add: light_proof_def light_votes_def demo_address_eq)
  ultimately show ?thesis
    using light_clients_agree [OF demo_order_asym keys keys sets headers refl cp run] run by auto
qed

definition light_block :: jsobj where
  "light_block = filter (\<lambda>e. fst e \<notin> {''bodyHash'', ''format''}) light_header @
     [(''certificate'', JArr (light_votes ''abc'')), (''feeRecipient'', JStr ''e''), (''hash'', JStr (replicate 64 CHR ''f'')),
      (''prepareCertificate'', JArr (light_votes ''abc'')), (''round'', JNum 0)]"

lemma light_block_header: "\<exists>h. blockHeader light_crypto light_block = Inr h \<and> json_ok (JObj h)"
proof -
  have "omit HEADER_FIELDS (unsignedBlock light_block) = [(''feeRecipient'', JStr ''e'')]" by code_simp
  moreover have "json_ok (JObj [(''feeRecipient'', JStr ''e'')]) \<and> is_domain ''BLOCK_BODY''" by code_simp
  ultimately have body: "hashObject light_crypto (JObj (omit HEADER_FIELDS (unsignedBlock light_block))) ''BLOCK_BODY'' =
      Inr (replicate 64 CHR ''d'')" by (simp add: light_hash)
  have "case (bind_r (map_err Not_hashable (Inr (replicate 64 CHR ''d''))) (\<lambda>bodyHash. case fld light_block ''protocolVersion'' of
      JNum v \<Rightarrow> bind_r (finalityHeaderFormat v) (\<lambda>format.
        let keep = (\<lambda>k. (k, fld light_block k)) in
          Inr ([(''bodyHash'', JStr bodyHash), keep ''accountStateRoot'', keep ''capabilityMemoryRoot'',
             (''format'', JStr format), keep ''height'', keep ''networkId'', keep ''peerRegistryHash'', keep ''previousHash'',
             (''protocolUpgrade'', if fld light_block ''protocolUpgrade'' = JUndef then JNull else fld light_block ''protocolUpgrade''),
             keep ''protocolVersion''] @
             (if v \<ge> RECOVERY_STATE_COMMITMENT_PROTOCOL_VERSION then [keep ''recoveryStateCommitment''] else []) @
             (if v \<ge> EVALUATION_ASSIGNMENT_ROOT_PROTOCOL_VERSION then [keep ''evaluationAssignmentRoot''] else []) @
             (if v \<ge> CHAIN_IDENTITY_CHECKPOINT_PROTOCOL_VERSION
              then [keep ''chainIdentityGenesisHash'', keep ''validatorSetId''] else []) @
             [keep ''stateRoot'', keep ''timestamp'', keep ''transactionCount'', keep ''transactionsRoot'']))
      | _ \<Rightarrow> Inl (Refused ''finality header protocol version is unsupported''))) of Inr h \<Rightarrow> json_ok (JObj h) | Inl _ \<Rightarrow> False"
    by code_simp
  then have "case blockHeader light_crypto light_block of Inr h \<Rightarrow> json_ok (JObj h) | Inl _ \<Rightarrow> False"
    unfolding blockHeader_def body .
  then show ?thesis by (cases "blockHeader light_crypto light_block") auto
qed

lemma light_block_hash: "blockHash light_crypto light_block = Inr (replicate 64 CHR ''f'')"
proof -
  have "is_domain ''BLOCK''" by code_simp
  with light_block_header show ?thesis by (auto simp: blockHash_def blockHeaderHash_def light_hash)
qed

lemma light_chain_prepared:
  "set cs \<subseteq> set ''abce'' \<Longrightarrow> distinct cs \<Longrightarrow> set seen \<inter> demo_address ` set cs = {} \<Longrightarrow> r = None \<or> r = Some 0 \<Longrightarrow> cs \<noteq> [] \<or> r = Some 0 \<Longrightarrow>
    foldM (checkPrepare light_crypto (replicate 64 CHR ''f'') (JNum 8) 0 (byAddress demo_beacons)) (seen, r) (light_votes cs) =
      Inr (seen @ map demo_address cs, Some 0)"
proof (induction cs arbitrary: seen r)
  case (Cons c cs)
  have v: "verifyObject light_crypto (preparePayload (replicate 64 CHR ''f'') (JNum 8) (JNum 0)) (JStr ''sig'') (JStr [c]) ''BLOCK_PREPARE''"
    using light_verify light_payloads(1) by simp
  have "checkPrepare light_crypto (replicate 64 CHR ''f'') (JNum 8) 0 (byAddress demo_beacons) (seen, r)
      (JObj [(''round'', JNum 0), (''signature'', JStr ''sig''), (''validator'', JStr (demo_address c))]) = Inr (seen @ [demo_address c], Some 0)"
    using light_member [of c] Cons.prems v
    by (auto simp: checkPrepare_def voteOf_def fld_def short_string_def demo_beacon_def MAX_SAFE_INTEGER_def)
  moreover have "foldM (checkPrepare light_crypto (replicate 64 CHR ''f'') (JNum 8) 0 (byAddress demo_beacons))
      (seen @ [demo_address c], Some 0) (light_votes cs) = Inr ((seen @ [demo_address c]) @ map demo_address cs, Some 0)"
    using Cons.prems by (intro Cons.IH) (auto simp: demo_address_eq)
  ultimately show ?case by (simp add: light_votes_def)
qed (simp add: light_votes_def)

lemma light_chain_committed:
  "set cs \<subseteq> set ''abce'' \<Longrightarrow> distinct cs \<Longrightarrow> set seen \<inter> demo_address ` set cs = {} \<Longrightarrow>
    foldM (checkCommit light_crypto (commitPayload (replicate 64 CHR ''f'') (replicate 64 CHR ''d'')) (byAddress demo_beacons))
      seen (light_votes cs) = Inr (seen @ map demo_address cs)"
proof (induction cs arbitrary: seen)
  case (Cons c cs)
  have v: "verifyObject light_crypto (commitPayload (replicate 64 CHR ''f'') (replicate 64 CHR ''d'')) (JStr ''sig'') (JStr [c]) ''BLOCK_COMMIT''"
    using light_verify light_payloads(2) by simp
  have "checkCommit light_crypto (commitPayload (replicate 64 CHR ''f'') (replicate 64 CHR ''d'')) (byAddress demo_beacons) seen
      (JObj [(''round'', JNum 0), (''signature'', JStr ''sig''), (''validator'', JStr (demo_address c))]) = Inr (seen @ [demo_address c])"
    using light_member [of c] Cons.prems v by (auto simp: checkCommit_def voteOf_def fld_def short_string_def demo_beacon_def)
  moreover have "foldM (checkCommit light_crypto (commitPayload (replicate 64 CHR ''f'') (replicate 64 CHR ''d'')) (byAddress demo_beacons))
      (seen @ [demo_address c]) (light_votes cs) = Inr ((seen @ [demo_address c]) @ map demo_address cs)"
    using Cons.prems by (intro Cons.IH) (auto simp: demo_address_eq)
  ultimately show ?case by (simp add: light_votes_def)
qed (simp add: light_votes_def)

lemma light_finalized: "verifyCertificate light_crypto light_block (byAddress demo_beacons) None = Inr ()"
proof -
  have f: "fld light_block ''hash'' = JStr (replicate 64 CHR ''f'')" "fld light_block ''height'' = JNum 8"
    "fld light_block ''prepareCertificate'' = JArr (light_votes ''abc'')" "fld light_block ''certificate'' = JArr (light_votes ''abc'')"
    "safe_int (fld light_block ''round'') = Some 0" by code_simp+
  have q: "jsize (byAddress demo_beacons) = 4" "inSet (byAddress demo_beacons) (map demo_address ''abc'') = 3" "voteQuorum 4 = 3"
    "length (light_votes ''abc'') = 3" by code_simp+
  show ?thesis
    using light_chain_prepared [of "''abc''" "[]" None] light_chain_committed [of "''abc''" "[]"] light_prepare_hash [of "''abc''"] f q
    by (simp add: verifyCertificate_def acceptedValidators_def light_block_hash assertQuorums_def)
qed

theorem finalized_block_convinces_clients_witness:
  "\<exists>pf. createFinalityProof light_crypto light_block = Inr (JObj pf) \<and> verifyVotes light_crypto demo_order pf demo_beacons None = Inr ()"
proof -
  obtain h where "blockHeader light_crypto light_block = Inr h" using light_block_header by blast
  then obtain pf where pf: "createFinalityProof light_crypto light_block = Inr (JObj pf)" by (simp add: createFinalityProof_def)
  with finalized_block_convinces_clients [of light_crypto light_block demo_beacons None pf demo_order, OF _ pf light_normal] light_finalized
  show ?thesis by simp
qed

end
