(* ===== verification/ProofSnapshot.thy ===== *)
theory ProofSnapshot
  imports ProofMining Snapshot
begin

text \<open>
  \<open>parseProofMiningSnapshot\<close> of \<open>blockchain/proof-mining-state.mjs\<close>: the state of the clique tasks
  read back from a consensus snapshot, what the parser guarantees of it, and what it does not.
\<close>

section \<open>Parsing\<close>

text \<open>\<open>amount\<close>: at most 31 digits.\<close>

fun pm_amount :: "jsval \<Rightarrow> proof_error + int" where
  "pm_amount (JStr s) = (if is_decimal s \<and> length s \<le> 31 then Inr (dec_value s) else Inl Proof_snapshot_invalid)"
| "pm_amount _ = Inl Proof_snapshot_invalid"

fun pm_hex :: "jsval \<Rightarrow> proof_error + string" where
  "pm_hex (JStr s) = (if is_hex64 s then Inr s else Inl Proof_snapshot_invalid)"
| "pm_hex _ = Inl Proof_snapshot_invalid"

fun pm_text :: "jsval \<Rightarrow> proof_error + string" where
  "pm_text (JStr s) = (if length s = 0 \<or> length s > 256 then Inl Proof_snapshot_invalid else Inr s)"
| "pm_text _ = Inl Proof_snapshot_invalid"

definition pm_integer :: "jsval \<Rightarrow> proof_error + int" where
  "pm_integer v = (case safe_int v of
       None \<Rightarrow> Inl Proof_integer_invalid
     | Some n \<Rightarrow> if n < 0 then Inl Proof_integer_invalid else Inr n)"

definition pm_or_null :: "(jsval \<Rightarrow> proof_error + 'a) \<Rightarrow> jsval \<Rightarrow> proof_error + 'a option" where
  "pm_or_null parse v = (if v = JNull then Inr None else bind_r (parse v) (\<lambda>x. Inr (Some x)))"

definition pm_object :: "jsval \<Rightarrow> string list \<Rightarrow> proof_error + jsobj" where
  "pm_object v keys = snapshot_object Proof_snapshot_malformed v keys"

definition pm_entries :: "jsval \<Rightarrow> nat \<Rightarrow> proof_error + (jsval \<times> jsval) list" where
  "pm_entries v bound = snapshot_entries Proof_snapshot_malformed v bound"

fun pm_status :: "jsval \<Rightarrow> task_status option" where
  "pm_status (JStr s) =
     (if s = ''open'' then Some Task_open else if s = ''solved'' then Some Task_solved
      else if s = ''expired'' then Some Task_expired else None)"
| "pm_status _ = None"

definition pm_task :: "jsval \<times> jsval \<Rightarrow> proof_error + (int \<times> task)" where
  "pm_task kv =
     bind_r (pm_object (snd kv) [''closesAtMs'', ''issuedAtMs'', ''issuedHeight'', ''level'', ''round'',
               ''seed'', ''solvedAtMs'', ''status'']) (\<lambda>obj.
       case pm_status (fld obj ''status'') of
         None \<Rightarrow> Inl Proof_snapshot_invalid
       | Some status \<Rightarrow>
           if \<not> strict_eq (fld obj ''round'') (fst kv) \<or>
              (status = Task_solved) \<noteq> (fld obj ''solvedAtMs'' \<noteq> JNull)
           then Inl Proof_snapshot_invalid
           else bind_r (pm_integer (fst kv)) (\<lambda>round.
                bind_r (pm_hex (fld obj ''seed'')) (\<lambda>seed.
                bind_r (pm_integer (fld obj ''level'')) (\<lambda>level.
                bind_r (pm_integer (fld obj ''issuedHeight'')) (\<lambda>height.
                bind_r (pm_integer (fld obj ''issuedAtMs'')) (\<lambda>issued.
                bind_r (pm_integer (fld obj ''closesAtMs'')) (\<lambda>closes.
                bind_r (pm_or_null pm_integer (fld obj ''solvedAtMs'')) (\<lambda>solved.
                  Inr (round, \<lparr>tk_round = round, tk_seed = seed, tk_level = level,
                    tk_issuedHeight = height, tk_issuedAtMs = issued, tk_closesAtMs = closes,
                    tk_status = status, tk_solvedAtMs = solved\<rparr>)))))))))"

definition pm_commit :: "(int, task) jsmap \<Rightarrow> jsval \<times> jsval \<Rightarrow> proof_error + (string \<times> answer_commit)" where
  "pm_commit tasks kv =
     bind_r (pm_object (snd kv) [''bond'', ''commitment'', ''height'', ''index'', ''recipient'', ''sender'',
               ''taskRound'', ''timestampMs'']) (\<lambda>obj.
     bind_r (pm_hex (fst kv)) (\<lambda>key.
       case safe_int (fld obj ''taskRound'') of
         None \<Rightarrow> Inl Proof_snapshot_invalid
       | Some round \<Rightarrow>
           if fld obj ''commitment'' \<noteq> JStr key \<or> \<not> jhas tasks round then Inl Proof_snapshot_invalid
           else bind_r (pm_text (fld obj ''sender'')) (\<lambda>sender.
                bind_r (pm_amount (fld obj ''bond'')) (\<lambda>bond.
                bind_r (pm_integer (fld obj ''height'')) (\<lambda>height.
                bind_r (pm_integer (fld obj ''index'')) (\<lambda>index.
                bind_r (pm_integer (fld obj ''timestampMs'')) (\<lambda>at.
                bind_r (pm_or_null pm_text (fld obj ''recipient'')) (\<lambda>recipient.
                  Inr (key, \<lparr>ac_commitment = key, ac_taskRound = round, ac_sender = sender,
                    ac_bond = bond, ac_height = height, ac_index = index, ac_timestampMs = at,
                    ac_recipient = recipient\<rparr>))))))))) "

definition pm_reward :: "jsval \<Rightarrow> proof_error + pending_reward" where
  "pm_reward v =
     bind_r (pm_object v [''fingerprint'', ''recipient'', ''taskRound'']) (\<lambda>obj.
     bind_r (pm_hex (fld obj ''fingerprint'')) (\<lambda>fingerprint.
     bind_r (pm_text (fld obj ''recipient'')) (\<lambda>recipient.
     bind_r (pm_integer (fld obj ''taskRound'')) (\<lambda>round.
       Inr \<lparr>pr_fingerprint = fingerprint, pr_recipient = recipient, pr_taskRound = round\<rparr>))))"

definition pm_escrow :: "jsval \<times> jsval \<Rightarrow> proof_error + (string \<times> escrow)" where
  "pm_escrow kv =
     bind_r (pm_object (snd kv) [''amount'', ''recipient'', ''unlockHeight'']) (\<lambda>obj.
     bind_r (pm_hex (fst kv)) (\<lambda>key.
     bind_r (pm_amount (fld obj ''amount'')) (\<lambda>amount.
     bind_r (pm_text (fld obj ''recipient'')) (\<lambda>recipient.
     bind_r (pm_integer (fld obj ''unlockHeight'')) (\<lambda>height.
       Inr (key, \<lparr>es_amount = amount, es_recipient = recipient, es_unlockHeight = height\<rparr>))))))"

definition parseProofMiningSnapshot :: "jsval \<Rightarrow> difficulty_params \<Rightarrow> proof_params \<Rightarrow>
    proof_error + proof_state" where
  "parseProofMiningSnapshot value difficulty params =
     bind_r (pm_object value [''commits'', ''escrows'', ''level'', ''pendingRewards'', ''tasks'']) (\<lambda>obj.
     bind_r (pm_integer (fld obj ''level'')) (\<lambda>level.
       if level < df_minLevel difficulty \<or> level > df_maxLevel difficulty then Inl Proof_snapshot_invalid
       else bind_r (pm_entries (fld obj ''tasks'') (pm_maxOpenTasks params + df_window difficulty * 4)) (\<lambda>taskEntries.
            bind_r (mapM pm_task taskEntries) (\<lambda>taskList.
            bind_r (pm_entries (fld obj ''commits'') (pm_maxOpenTasks params * pm_maxCommitsPerTask params))
              (\<lambda>commitEntries.
            bind_r (mapM (pm_commit (to_map taskList)) commitEntries) (\<lambda>commitList.
            case fld obj ''pendingRewards'' of
              JArr rewards \<Rightarrow>
                if length rewards > pm_maxPendingRewards params then Inl Proof_snapshot_malformed
                else bind_r (mapM pm_reward rewards) (\<lambda>pending.
                     bind_r (pm_entries (fld obj ''escrows'') (pm_maxPendingRewards params)) (\<lambda>escrowEntries.
                     bind_r (mapM pm_escrow escrowEntries) (\<lambda>escrowList.
                       Inr \<lparr>ps_level = level, ps_tasks = to_map taskList, ps_commits = to_map commitList,
                         ps_pendingRewards = pending, ps_escrows = to_map escrowList\<rparr>)))
            | _ \<Rightarrow> Inl Proof_snapshot_malformed))))))"

section \<open>What the parser guarantees\<close>

lemma to_map_Some:
  "jget (to_map es) k = Some v \<Longrightarrow> mapM f xs = Inr es \<Longrightarrow> \<exists>x. f x = Inr (k, v)"
  using mapM_in to_map_entries jget_Some_in by metis

lemma pm_or_null_None: "pm_or_null f v = Inr r \<Longrightarrow> (r = None) = (v = JNull)"
  by (cases "v = JNull") (auto simp: pm_or_null_def bind_r_Inr_iff)

lemma pm_task_ok:
  assumes "pm_task kv = Inr (r, t)"
  shows "task_ok r t"
proof -
  from assms obtain obj where o: "(case pm_status (fld obj ''status'') of
         None \<Rightarrow> Inl Proof_snapshot_invalid
       | Some status \<Rightarrow>
           if \<not> strict_eq (fld obj ''round'') (fst kv) \<or>
              (status = Task_solved) \<noteq> (fld obj ''solvedAtMs'' \<noteq> JNull)
           then Inl Proof_snapshot_invalid
           else bind_r (pm_integer (fst kv)) (\<lambda>round.
                bind_r (pm_hex (fld obj ''seed'')) (\<lambda>seed.
                bind_r (pm_integer (fld obj ''level'')) (\<lambda>level.
                bind_r (pm_integer (fld obj ''issuedHeight'')) (\<lambda>height.
                bind_r (pm_integer (fld obj ''issuedAtMs'')) (\<lambda>issued.
                bind_r (pm_integer (fld obj ''closesAtMs'')) (\<lambda>closes.
                bind_r (pm_or_null pm_integer (fld obj ''solvedAtMs'')) (\<lambda>solved.
                  Inr (round, \<lparr>tk_round = round, tk_seed = seed, tk_level = level,
                    tk_issuedHeight = height, tk_issuedAtMs = issued, tk_closesAtMs = closes,
                    tk_status = status, tk_solvedAtMs = solved\<rparr>))))))))) = Inr (r, t)"
    unfolding pm_task_def bind_r_Inr_iff by blast
  then obtain status where st: "pm_status (fld obj ''status'') = Some status"
    by (cases "pm_status (fld obj ''status'')") simp_all
  show ?thesis
    using o unfolding st option.case bind_r_Inr_iff if_Inl_Inr_iff sum.inject prod.inject
  proof (elim exE conjE, goal_cases)
    case (1 round seed level height issued closes solved)
    then show ?case by (auto simp: task_ok_def dest: pm_or_null_None)
  qed
qed

lemma pm_hex_Inr: "pm_hex v = Inr k \<Longrightarrow> is_hex64 k"
  by (cases v) (auto split: if_splits)

lemma pm_amount_Inr: "pm_amount v = Inr n \<Longrightarrow> 0 \<le> n"
  by (cases v) (auto simp: dec_value_nonneg split: if_splits)

lemma pm_commit_ok:
  "pm_commit tasks kv = Inr (k, c) \<Longrightarrow>
   ac_commitment c = k \<and> is_hex64 k \<and> jhas tasks (ac_taskRound c) \<and> 0 \<le> ac_bond c"
  unfolding pm_commit_def bind_r_Inr_iff
proof (elim exE conjE, goal_cases)
  case (1 obj key)
  from 1(3) show ?case
  proof (cases "safe_int (fld obj ''taskRound'')")
    case (Some r)
    from 1(3) have "jhas tasks r" and "\<exists>sender bond height index at recipient.
        pm_amount (fld obj ''bond'') = Inr bond \<and>
        (key, \<lparr>ac_commitment = key, ac_taskRound = r, ac_sender = sender,
               ac_bond = bond, ac_height = height, ac_index = index, ac_timestampMs = at,
               ac_recipient = recipient\<rparr>) = (k, c)"
      unfolding Some option.case bind_r_Inr_iff if_Inl_Inr_iff sum.inject by blast+
    with 1(2) show ?thesis by (auto dest: pm_hex_Inr pm_amount_Inr simp del: pm_hex.simps pm_amount.simps)
  qed simp
qed

lemma pm_escrow_ok:
  assumes "pm_escrow kv = Inr (k, e)"
  shows "is_hex64 k \<and> 0 \<le> es_amount e"
proof -
  from assms obtain obj where "pm_hex (fst kv) = Inr k" "pm_amount (fld obj ''amount'') = Inr (es_amount e)"
    unfolding pm_escrow_def bind_r_Inr_iff by fastforce
  then show ?thesis by (simp add: pm_hex_Inr pm_amount_Inr)
qed

lemma parse_proof_elim:
  assumes "parseProofMiningSnapshot v d p = Inr s"
  obtains level tes tl ces cl rs pend ees el where
    "\<not> (level < df_minLevel d \<or> level > df_maxLevel d)"
    "mapM pm_task tes = Inr tl" "mapM (pm_commit (to_map tl)) ces = Inr cl"
    "length rs \<le> pm_maxPendingRewards p" "mapM pm_reward rs = Inr pend"
    "mapM pm_escrow ees = Inr el"
    "s = \<lparr>ps_level = level, ps_tasks = to_map tl, ps_commits = to_map cl,
          ps_pendingRewards = pend, ps_escrows = to_map el\<rparr>"
  using assms
  unfolding parseProofMiningSnapshot_def bind_r_Inr_iff if_Inl_Inr_iff
proof (elim exE conjE, goal_cases)
  case (1 obj level tes tl ces cl)
  show ?case
  proof (cases "fld obj ''pendingRewards''")
    case (JArr rs)
    with 1(9) obtain pend ees el where
      "length rs \<le> pm_maxPendingRewards p" "mapM pm_reward rs = Inr pend" "mapM pm_escrow ees = Inr el"
      "s = \<lparr>ps_level = level, ps_tasks = to_map tl, ps_commits = to_map cl,
          ps_pendingRewards = pend, ps_escrows = to_map el\<rparr>"
      by (auto simp: bind_r_Inr_iff if_Inl_Inr_iff)
    with 1 show ?thesis by blast
  qed (use 1(9) in simp_all)
qed

text \<open>
  a state read from a snapshot has every task under its own round, solved exactly when it has
  a solve time, every commitment under its own hash, for a known task and with a non-negative
  bond, non-negative escrows, a level in range and a bounded queue of rewards.
\<close>

theorem proof_snapshot_checked:
  assumes "parseProofMiningSnapshot v d p = Inr s"
  shows "tasks_ok s \<and> keyed s \<and> level_ok d s \<and> jwf (ps_escrows s) \<and>
    length (ps_pendingRewards s) \<le> pm_maxPendingRewards p \<and>
    (\<forall>k c. jget (ps_commits s) k = Some c \<longrightarrow> jhas (ps_tasks s) (ac_taskRound c) \<and> 0 \<le> ac_bond c) \<and>
    (\<forall>k e. jget (ps_escrows s) k = Some e \<longrightarrow> 0 \<le> es_amount e)"
proof -
  obtain level tes tl ces cl rs pend ees el where
    lv: "\<not> (level < df_minLevel d \<or> level > df_maxLevel d)"
    and t: "mapM pm_task tes = Inr tl" and c: "mapM (pm_commit (to_map tl)) ces = Inr cl"
    and r: "length rs \<le> pm_maxPendingRewards p" "mapM pm_reward rs = Inr pend"
    and e: "mapM pm_escrow ees = Inr el"
    and s: "s = \<lparr>ps_level = level, ps_tasks = to_map tl, ps_commits = to_map cl,
                 ps_pendingRewards = pend, ps_escrows = to_map el\<rparr>"
    by (rule parse_proof_elim [OF assms]) (rule that)
  have tasks: "task_ok k x" if "jget (to_map tl) k = Some x" for k x
    using to_map_Some [OF that t] pm_task_ok by blast
  have commits: "ac_commitment x = k \<and> jhas (to_map tl) (ac_taskRound x) \<and> 0 \<le> ac_bond x"
    if "jget (to_map cl) k = Some x" for k x
    using to_map_Some [OF that c] pm_commit_ok by blast
  have escrows: "0 \<le> es_amount x" if "jget (to_map el) k = Some x" for k x
    using to_map_Some [OF that e] pm_escrow_ok by blast
  have "length pend \<le> pm_maxPendingRewards p" using r mapM_length by metis
  with lv tasks commits escrows show ?thesis
    by (simp add: s tasks_ok_def keyed_def level_ok_def)
qed

section \<open>What it does not\<close>

text \<open>A snapshot with a commitment, of a bond of one unit, for a task that is already solved.\<close>

definition demo_proof_snapshot :: jsval where
  "demo_proof_snapshot = JObj
     [(''commits'', JArr [JArr [JStr demo_hex, JObj [(''bond'', JStr ''1''), (''commitment'', JStr demo_hex),
         (''height'', JNum 6), (''index'', JNum 0), (''recipient'', JNull), (''sender'', JStr ''alice''),
         (''taskRound'', JNum 1), (''timestampMs'', JNum 2000)]]]),
      (''escrows'', JArr []), (''level'', JNum 0), (''pendingRewards'', JArr []),
      (''tasks'', JArr [JArr [JNum 1, JObj [(''closesAtMs'', JNum 3601000), (''issuedAtMs'', JNum 1000),
         (''issuedHeight'', JNum 5), (''level'', JNum 0), (''round'', JNum 1), (''seed'', JStr demo_hex),
         (''solvedAtMs'', JNum 2000), (''status'', JStr ''solved'')]]])]"

definition demo_proof_parsed :: proof_state where
  "demo_proof_parsed = \<lparr>ps_level = 0,
     ps_tasks = [(1, demo_task\<lparr>tk_status := Task_solved, tk_solvedAtMs := Some 2000\<rparr>)],
     ps_commits = [(demo_hex, (demo_commit None)\<lparr>ac_bond := 1\<rparr>)], ps_pendingRewards = [], ps_escrows = []\<rparr>"

lemma demo_proof_parse:
  "parseProofMiningSnapshot demo_proof_snapshot demo_difficulty demo_mining = Inr demo_proof_parsed"
  by code_simp

theorem proof_snapshot_checked_witness: "tasks_ok demo_proof_parsed \<and> keyed demo_proof_parsed"
  using proof_snapshot_checked [OF demo_proof_parse] by blast

text \<open>
  the parser does not reject everything the state machine could not have produced: it accepts
  a snapshot whose commitment is for a solved task and locks less than the commit bond, a state
  that no sequence of operations reaches.
\<close>

theorem proof_snapshot_accepts_unreachable:
  "\<exists>v s. parseProofMiningSnapshot v demo_difficulty demo_mining = Inr s \<and>
     (\<forall>cr net. \<not> proof_reachable cr net demo_difficulty demo_mining s)"
proof (intro exI conjI allI)
  show "parseProofMiningSnapshot demo_proof_snapshot demo_difficulty demo_mining = Inr demo_proof_parsed"
    by (rule demo_proof_parse)
  fix cr net
  have "\<not> commit_ok cr net demo_mining demo_proof_parsed demo_hex ((demo_commit None)\<lparr>ac_bond := 1\<rparr>)"
    by (simp add: commit_ok_def demo_mining_def)
  moreover have "jget (ps_commits demo_proof_parsed) demo_hex = Some ((demo_commit None)\<lparr>ac_bond := 1\<rparr>)"
    by code_simp
  ultimately have "\<not> proof_inv cr net demo_difficulty demo_mining demo_proof_parsed"
    by (auto simp: proof_inv_def commits_ok_def)
  then show "\<not> proof_reachable cr net demo_difficulty demo_mining demo_proof_parsed"
    using reachable_proof_inv by blast
qed

end
