(* ===== verification/Mandates.thy ===== *)
theory Mandates
  imports Transfers "HOL-Library.Product_Lexorder"
begin

text \<open>
  \<open>blockchain/agent-mandate-transition.mjs\<close>: an owner locks an escrow an agent may pay from,
  to fixed payees, within limits and until a height; the owner closes it, and expired mandates
  are pruned by anyone, the rest of the escrow returning to the owner.

  The three maps of a call are the state. Every operation checks everything before it writes, so
  an error leaves the state as it was. Identifiers and policy hashes are strings, as all callers
  pass them, and a stored mandate has exactly its fields, as all writers store it.
\<close>

section \<open>State\<close>

definition MAX_ACTIVE_AGENT_MANDATES_PER_OWNER :: nat where
  "MAX_ACTIVE_AGENT_MANDATES_PER_OWNER = 64"

definition MAX_AGENT_MANDATES_GLOBAL :: nat where
  "MAX_AGENT_MANDATES_GLOBAL = 4096"

definition MAX_AGENT_MANDATE_PRUNE_BATCH :: int where
  "MAX_AGENT_MANDATE_PRUNE_BATCH = 64"

definition MAX_AGENT_MANDATE_PAYEES :: nat where
  "MAX_AGENT_MANDATE_PAYEES = 64"

definition MAX_AGENT_MANDATE_LIFETIME :: int where
  "MAX_AGENT_MANDATE_LIFETIME = 1000000"

record agent_mandate =
  md_agent :: string
  md_allowedPayees :: "string list"
  md_balance :: int
  md_createdHeight :: int
  md_expiresHeight :: int
  md_initialEscrow :: int
  md_maxFee :: int
  md_maxPerTransfer :: int
  md_networkId :: string
  md_owner :: string
  md_policyHash :: string
  md_totalFeeLimit :: int
  md_totalFees :: int
  md_totalLimit :: int
  md_totalSpent :: int

type_synonym mandate_map = "(string, agent_mandate) jsmap"

record mandate_state =
  ms_balances :: balances
  ms_nonces :: nonces
  ms_mandates :: mandate_map

datatype mandate_error =
    Md_invalid string
  | Md_out_of_range string
  | Md_not_canonical string
  | Md_cannot_advance string
  | Md_unexpected_nonce string
  | Md_context_invalid
  | Md_authorization_invalid string
  | Md_payee_capacity
  | Md_payee_duplicates
  | Md_stored_fields_invalid
  | Md_actors_invalid
  | Md_policy_invalid
  | Md_payees_not_canonical
  | Md_state_invalid
  | Md_network_mismatch
  | Md_global_capacity
  | Md_owner_capacity
  | Md_not_independent
  | Md_commitment_invalid
  | Md_exists
  | Md_expiry_invalid
  | Md_limits_invalid
  | Md_fee_below_minimum
  | Md_insufficient_balance
  | Md_self_dealing
  | Md_balance_overflow
  | Md_conservation_failed
  | Md_height_precedes
  | Md_expired
  | Md_payee_not_allowed
  | Md_spending_limit
  | Md_fee_above_maximum
  | Md_fee_budget
  | Md_escrow_insufficient
  | Md_mode_invalid
  | Md_not_expired
  | Md_close_fee
  | Md_prune_limit
  | Md_not_encodable codec_error

section \<open>Parsing\<close>

text \<open>\<open>/^[A-Za-z0-9._:-]{3,128}$/\<close>\<close>

definition is_network_char :: "char \<Rightarrow> bool" where
  "is_network_char c \<longleftrightarrow> is_digit c \<or> is_lower c \<or> (65 \<le> unit_of c \<and> unit_of c \<le> 90) \<or>
     c \<in> set ''._:-''"

definition is_network_id :: "string \<Rightarrow> bool" where
  "is_network_id s \<longleftrightarrow> 3 \<le> length s \<and> length s \<le> 128 \<and> list_all is_network_char s"

fun md_network :: "jsval \<Rightarrow> mandate_error + string" where
  "md_network (JStr s) = (if \<not> is_network_id s then Inl (Md_invalid ''network id'') else Inr s)"
| "md_network _ = Inl (Md_invalid ''network id'')"

fun md_address :: "jsval \<Rightarrow> string \<Rightarrow> mandate_error + string" where
  "md_address (JStr s) field = (if \<not> is_address s then Inl (Md_invalid field) else Inr s)"
| "md_address _ field = Inl (Md_invalid field)"

fun md_atomic :: "jsval \<Rightarrow> string \<Rightarrow> mandate_error + int" where
  "md_atomic (JBig n) field =
     (if n < 0 \<or> n > MAX_ATOMIC_VALUE then Inl (Md_out_of_range field) else Inr n)"
| "md_atomic (JStr s) field =
     (if length s > MAX_DECIMAL_DIGITS \<or> \<not> is_decimal s then Inl (Md_not_canonical field)
      else Inr (dec_value s))"
| "md_atomic _ field = Inl (Md_not_canonical field)"

definition md_integer :: "jsval \<Rightarrow> string \<Rightarrow> mandate_error + int" where
  "md_integer v field =
     (case safe_int v of
        None \<Rightarrow> Inl (Md_invalid field)
      | Some n \<Rightarrow> if n < 0 then Inl (Md_invalid field) else Inr n)"

definition advancingNonce :: "jsval \<Rightarrow> string \<Rightarrow> mandate_error + int" where
  "advancingNonce v field = bind_r (md_integer v field) (\<lambda>n.
     if n \<ge> MAX_SAFE_INTEGER then Inl (Md_cannot_advance field) else Inr n)"

definition nonceMatches :: "nonces \<Rightarrow> string \<Rightarrow> jsval \<Rightarrow> string \<Rightarrow> mandate_error + int" where
  "nonceMatches nonces actor provided role =
     bind_r (advancingNonce provided (role @ '' nonce'')) (\<lambda>n.
       if unexpected nonces actor n then Inl (Md_unexpected_nonce role) else Inr n)"

text \<open>The execution context of a transition, and of pruning, which takes no fee.\<close>

definition md_context :: "jsval \<Rightarrow> mandate_error + (int \<times> string \<times> string)" where
  "md_context v =
     (case plain_object v of
        None \<Rightarrow> Inl Md_context_invalid
      | Some obj \<Rightarrow>
          if \<not> keys_are obj [''currentHeight'', ''feeRecipient'', ''networkId''] then Inl Md_context_invalid
          else bind_r (md_integer (fld obj ''currentHeight'') ''current height'') (\<lambda>h.
               bind_r (md_address (fld obj ''feeRecipient'') ''fee recipient'') (\<lambda>f.
               bind_r (md_network (fld obj ''networkId'')) (\<lambda>n. Inr (h, f, n)))))"

definition pruneContext :: "jsval \<Rightarrow> mandate_error + (int \<times> string)" where
  "pruneContext v =
     (case plain_object v of
        None \<Rightarrow> Inl Md_context_invalid
      | Some obj \<Rightarrow>
          if \<not> keys_are obj [''currentHeight'', ''networkId''] then Inl Md_context_invalid
          else bind_r (md_integer (fld obj ''currentHeight'') ''current height'') (\<lambda>h.
               bind_r (md_network (fld obj ''networkId'')) (\<lambda>n. Inr (h, n))))"

definition authorization :: "jsval \<Rightarrow> string \<Rightarrow> string \<Rightarrow> string \<Rightarrow> mandate_error + unit" where
  "authorization v actor digest role =
     (case plain_object v of
        None \<Rightarrow> Inl (Md_authorization_invalid role)
      | Some obj \<Rightarrow>
          if \<not> keys_are obj [''actor'', ''digest''] \<or> fld obj ''actor'' \<noteq> JStr actor \<or>
             fld obj ''digest'' \<noteq> JStr digest
          then Inl (Md_authorization_invalid role) else Inr ())"

definition md_payees :: "jsval \<Rightarrow> mandate_error + string list" where
  "md_payees v =
     (case v of
        JArr vs \<Rightarrow>
          if vs = [] \<or> length vs > MAX_AGENT_MANDATE_PAYEES then Inl Md_payee_capacity
          else bind_r (mapM (\<lambda>x. md_address x ''allowed payee'') vs) (\<lambda>ps.
            let normalized = sort ps in
            if length (uniq normalized) \<noteq> length normalized then Inl Md_payee_duplicates
            else Inr normalized)
      | _ \<Rightarrow> Inl Md_payee_capacity)"

text \<open>\<open>balance(balances, account)\<close>\<close>

definition md_balance_of :: "balances \<Rightarrow> string \<Rightarrow> mandate_error + int" where
  "md_balance_of balances account = md_atomic (JBig (jget_or 0 balances account)) ''account balance''"

text \<open>The digests an actor authorizes.\<close>

definition big :: "int \<Rightarrow> jsval" where
  "big n = JStr (dec_string n)"

definition md_digest :: "crypto \<Rightarrow> string \<Rightarrow> jsval \<Rightarrow> mandate_error + string" where
  "md_digest cr domain v = map_err Md_not_encodable (hashObject cr v domain)"

section \<open>Stored mandates\<close>

text \<open>\<open>mandate(value, mandateId)\<close>: the checks of a stored mandate, in the order of the code.\<close>

definition mandate_limits_ok :: "agent_mandate \<Rightarrow> bool" where
  "mandate_limits_ok m \<longleftrightarrow>
     \<not> (md_maxFee m < MIN_TRANSFER_FEE \<or> md_maxFee m > md_totalFeeLimit m \<or>
        md_maxPerTransfer m = 0 \<or> md_totalLimit m = 0 \<or> md_maxPerTransfer m > md_totalLimit m \<or>
        md_totalSpent m > md_totalLimit m \<or> md_totalFees m > md_totalFeeLimit m \<or>
        md_totalLimit m + md_totalFeeLimit m > md_initialEscrow m \<or>
        md_balance m + md_totalSpent m + md_totalFees m \<noteq> md_initialEscrow m \<or>
        md_owner m \<in> set (md_allowedPayees m) \<or> md_agent m \<in> set (md_allowedPayees m) \<or>
        md_expiresHeight m \<le> md_createdHeight m \<or>
        md_expiresHeight m - md_createdHeight m > MAX_AGENT_MANDATE_LIFETIME)"

definition mandate :: "agent_mandate option \<Rightarrow> string \<Rightarrow> mandate_error + agent_mandate" where
  "mandate value mandateId =
     (case value of
        None \<Rightarrow> Inl Md_stored_fields_invalid
      | Some m \<Rightarrow>
          if \<not> is_hex64 mandateId then Inl (Md_invalid ''agent mandate identifier'')
          else bind_r (md_address (JStr (md_owner m)) ''mandate owner'') (\<lambda>owner.
          bind_r (md_address (JStr (md_agent m)) ''mandate agent'') (\<lambda>agent.
          bind_r (md_network (JStr (md_networkId m))) (\<lambda>network.
          if owner = agent then Inl Md_actors_invalid
          else if \<not> is_hex64 (md_policyHash m) then Inl Md_policy_invalid
          else bind_r (md_payees (JArr (map JStr (md_allowedPayees m)))) (\<lambda>allowed.
          if allowed \<noteq> md_allowedPayees m then Inl Md_payees_not_canonical
          else bind_r (md_atomic (JBig (md_balance m)) ''mandate balance'') (\<lambda>_.
          bind_r (md_atomic (JBig (md_initialEscrow m)) ''mandate initial escrow'') (\<lambda>_.
          bind_r (md_atomic (JBig (md_maxFee m)) ''mandate maximum fee'') (\<lambda>_.
          bind_r (md_atomic (JBig (md_maxPerTransfer m)) ''mandate maximum per transfer'') (\<lambda>_.
          bind_r (md_atomic (JBig (md_totalLimit m)) ''mandate total limit'') (\<lambda>_.
          bind_r (md_atomic (JBig (md_totalFeeLimit m)) ''mandate total fee limit'') (\<lambda>_.
          bind_r (md_atomic (JBig (md_totalFees m)) ''mandate total fees'') (\<lambda>_.
          bind_r (md_atomic (JBig (md_totalSpent m)) ''mandate total spent'') (\<lambda>_.
          bind_r (md_integer (JNum (md_createdHeight m)) ''mandate creation height'') (\<lambda>_.
          bind_r (md_integer (JNum (md_expiresHeight m)) ''mandate expiry height'') (\<lambda>_.
          if \<not> mandate_limits_ok m then Inl Md_state_invalid else Inr m)))))))))))))))"

text \<open>\<open>validateMandateRegistry\<close>: every entry and the number of entries of every owner.\<close>

definition registerOwner :: "string \<Rightarrow> (string, nat) jsmap \<Rightarrow> agent_mandate \<Rightarrow>
    mandate_error + (string, nat) jsmap" where
  "registerOwner network perOwner entry =
     (if md_networkId entry \<noteq> network then Inl Md_network_mismatch
      else let count = jget_or 0 perOwner (md_owner entry) + 1 in
        if count > MAX_ACTIVE_AGENT_MANDATES_PER_OWNER then Inl Md_owner_capacity
        else Inr (jset (md_owner entry) count perOwner))"

definition validateMandateRegistry :: "mandate_map \<Rightarrow> string \<Rightarrow> mandate_error + agent_mandate list" where
  "validateMandateRegistry mandates network =
     (if jsize mandates > MAX_AGENT_MANDATES_GLOBAL then Inl Md_global_capacity
      else bind_r (mapM (\<lambda>(id, m). mandate (Some m) id) mandates) (\<lambda>entries.
           bind_r (foldM (registerOwner network) [] entries) (\<lambda>_. Inr entries)))"

section \<open>Settling with an escrow\<close>

text \<open>
  The loops over the accounts and \<open>conserve\<close>, with the escrow held before and after. The
  accounts are settled as by the transfers; the transfer of a mandate leaves out the test for a
  negative balance, which its non-negative deltas can not fail.
\<close>

fun ledger_error :: "transfer_error \<Rightarrow> mandate_error" where
  "ledger_error (Out_of_range f) = Md_out_of_range ''account balance''"
| "ledger_error e = Md_balance_overflow"

definition settleEscrow :: "string list \<Rightarrow> balances \<Rightarrow> int \<Rightarrow> int \<Rightarrow> balances \<Rightarrow> mandate_error + balances" where
  "settleEscrow accounts deltas held held' balances =
     bind_r (map_err ledger_error (totalFor balances accounts)) (\<lambda>before.
     bind_r (map_err ledger_error (nextBalances Balance_out_of_range balances deltas accounts [])) (\<lambda>next.
       if before + held \<noteq> sum_list (jvalues next) + held' then Inl Md_conservation_failed
       else Inr (writeAll next balances)))"

section \<open>Operations\<close>

text \<open>The parameter object of each operation, less the three maps.\<close>

record create_args =
  ca_agent :: jsval
  ca_allowedPayees :: jsval
  ca_escrow :: jsval
  ca_expiresHeight :: jsval
  ca_fee :: jsval
  ca_executionContext :: jsval
  ca_mandateId :: string
  ca_maxFee :: jsval
  ca_maxPerTransfer :: jsval
  ca_networkId :: jsval
  ca_nonce :: jsval
  ca_owner :: jsval
  ca_policyHash :: string
  ca_authorization :: jsval
  ca_totalFeeLimit :: jsval
  ca_totalLimit :: jsval

record spend_args =
  sa_amount :: jsval
  sa_fee :: jsval
  sa_executionContext :: jsval
  sa_mandateId :: string
  sa_nonce :: jsval
  sa_payee :: jsval
  sa_authorization :: jsval

record close_args =
  la_fee :: jsval
  la_executionContext :: jsval
  la_mandateId :: string
  la_mode :: jsval
  la_nonce :: jsval
  la_authorization :: jsval

record prune_args =
  pa_executionContext :: jsval
  pa_limit :: jsval

definition createDigestObject :: "agent_mandate \<Rightarrow> int \<Rightarrow> string \<Rightarrow> jsval \<Rightarrow> jsval" where
  "createDigestObject m fee mandateId nonceValue = JObj
     [(''agent'', JStr (md_agent m)), (''allowedPayees'', JArr (map JStr (md_allowedPayees m))),
      (''escrow'', big (md_balance m)), (''expiresHeight'', JNum (md_expiresHeight m)), (''fee'', big fee),
      (''mandateId'', JStr mandateId), (''maxFee'', big (md_maxFee m)),
      (''maxPerTransfer'', big (md_maxPerTransfer m)), (''networkId'', JStr (md_networkId m)),
      (''nonce'', nonceValue), (''owner'', JStr (md_owner m)), (''policyHash'', JStr (md_policyHash m)),
      (''totalFeeLimit'', big (md_totalFeeLimit m)), (''totalLimit'', big (md_totalLimit m))]"

definition createDeltas :: "string \<Rightarrow> string \<Rightarrow> int \<Rightarrow> int \<Rightarrow> balances" where
  "createDeltas owner feeRecipient escrow fee =
     addDelta feeRecipient fee (addDelta owner (- escrow - fee) [])"

definition createAgentMandateState :: "crypto \<Rightarrow> mandate_state \<Rightarrow> create_args \<Rightarrow>
    mandate_error + (agent_mandate \<times> mandate_state)" where
  "createAgentMandateState cr s a =
     bind_r (md_address (ca_owner a) ''owner'') (\<lambda>owner.
     bind_r (md_address (ca_agent a) ''agent'') (\<lambda>agent.
     bind_r (md_context (ca_executionContext a)) (\<lambda>(currentHeight, feeRecipient, authoritative).
     bind_r (md_network (ca_networkId a)) (\<lambda>network.
     if network \<noteq> authoritative then Inl Md_network_mismatch
     else if owner = agent then Inl Md_not_independent
     else if \<not> is_hex64 (ca_mandateId a) \<or> \<not> is_hex64 (ca_policyHash a) then Inl Md_commitment_invalid
     else if jhas (ms_mandates s) (ca_mandateId a) then Inl Md_exists
     else bind_r (validateMandateRegistry (ms_mandates s) authoritative) (\<lambda>stored.
     if length stored \<ge> MAX_AGENT_MANDATES_GLOBAL then Inl Md_global_capacity
     else if length (filter (\<lambda>m. md_owner m = owner) stored) \<ge> MAX_ACTIVE_AGENT_MANDATES_PER_OWNER
     then Inl Md_owner_capacity
     else bind_r (nonceMatches (ms_nonces s) owner (ca_nonce a) ''owner'') (\<lambda>ownerNonce.
     bind_r (md_integer (ca_expiresHeight a) ''expiry height'') (\<lambda>expiresHeight.
     if expiresHeight \<le> currentHeight \<or> expiresHeight - currentHeight > MAX_AGENT_MANDATE_LIFETIME
     then Inl Md_expiry_invalid
     else bind_r (md_atomic (ca_escrow a) ''escrow'') (\<lambda>escrow.
     bind_r (md_atomic (ca_maxPerTransfer a) ''maximum per transfer'') (\<lambda>maxPerTransfer.
     bind_r (md_atomic (ca_maxFee a) ''maximum fee'') (\<lambda>maxFee.
     bind_r (md_atomic (ca_totalLimit a) ''total limit'') (\<lambda>totalLimit.
     bind_r (md_atomic (ca_totalFeeLimit a) ''total fee limit'') (\<lambda>totalFeeLimit.
     bind_r (md_atomic (ca_fee a) ''fee'') (\<lambda>fee.
     if escrow = 0 \<or> maxFee < MIN_TRANSFER_FEE \<or> maxFee > totalFeeLimit \<or> maxPerTransfer = 0 \<or>
        totalLimit = 0 \<or> maxPerTransfer > totalLimit \<or> totalLimit + totalFeeLimit > escrow
     then Inl Md_limits_invalid
     else if fee < MIN_TRANSFER_FEE then Inl Md_fee_below_minimum
     else bind_r (md_balance_of (ms_balances s) owner) (\<lambda>ownerBalance.
     if ownerBalance < escrow + fee then Inl Md_insufficient_balance
     else bind_r (md_payees (ca_allowedPayees a)) (\<lambda>allowed.
     if owner \<in> set allowed \<or> agent \<in> set allowed then Inl Md_self_dealing
     else
       let m = \<lparr>md_agent = agent, md_allowedPayees = allowed, md_balance = escrow,
                 md_createdHeight = currentHeight, md_expiresHeight = expiresHeight,
                 md_initialEscrow = escrow, md_maxFee = maxFee, md_maxPerTransfer = maxPerTransfer,
                 md_networkId = network, md_owner = owner, md_policyHash = ca_policyHash a,
                 md_totalFeeLimit = totalFeeLimit, md_totalFees = 0, md_totalLimit = totalLimit,
                 md_totalSpent = 0\<rparr> in
       bind_r (md_digest cr ''AGENT_MANDATE_CREATE'' (createDigestObject m fee (ca_mandateId a) (ca_nonce a)))
         (\<lambda>digest.
       bind_r (authorization (ca_authorization a) owner digest ''owner'') (\<lambda>_.
       bind_r (settleEscrow (uniq [owner, feeRecipient]) (createDeltas owner feeRecipient escrow fee)
                 0 escrow (ms_balances s)) (\<lambda>balances'.
         Inr (m, s\<lparr>ms_balances := balances', ms_nonces := jset owner (ownerNonce + 1) (ms_nonces s),
                  ms_mandates := jset (ca_mandateId a) m (ms_mandates s)\<rparr>)))))))))))))))))))"

definition transferDigestObject :: "int \<Rightarrow> int \<Rightarrow> string \<Rightarrow> string \<Rightarrow> jsval \<Rightarrow> string \<Rightarrow> jsval" where
  "transferDigestObject amount fee mandateId network nonceValue payee = JObj
     [(''amount'', big amount), (''fee'', big fee), (''mandateId'', JStr mandateId),
      (''networkId'', JStr network), (''nonce'', nonceValue), (''payee'', JStr payee)]"

definition spendDeltas :: "string \<Rightarrow> string \<Rightarrow> int \<Rightarrow> int \<Rightarrow> balances" where
  "spendDeltas payee feeRecipient amount fee = addDelta feeRecipient fee (addDelta payee amount [])"

definition applyAgentMandateTransferState :: "crypto \<Rightarrow> mandate_state \<Rightarrow> spend_args \<Rightarrow>
    mandate_error + (agent_mandate \<times> mandate_state)" where
  "applyAgentMandateTransferState cr s a =
     bind_r (mandate (jget (ms_mandates s) (sa_mandateId a)) (sa_mandateId a)) (\<lambda>current.
     bind_r (md_address (JStr (md_agent current)) ''mandate agent'') (\<lambda>agent.
     bind_r (md_address (sa_payee a) ''payee'') (\<lambda>payee.
     bind_r (md_context (sa_executionContext a)) (\<lambda>(currentHeight, feeRecipient, authoritative).
     bind_r (validateMandateRegistry (ms_mandates s) authoritative) (\<lambda>_.
     bind_r (nonceMatches (ms_nonces s) agent (sa_nonce a) ''agent'') (\<lambda>agentNonce.
     bind_r (md_network (JStr (md_networkId current))) (\<lambda>network.
     if network \<noteq> authoritative then Inl Md_network_mismatch
     else if currentHeight < md_createdHeight current then Inl Md_height_precedes
     else if currentHeight \<ge> md_expiresHeight current then Inl Md_expired
     else if payee \<notin> set (md_allowedPayees current) then Inl Md_payee_not_allowed
     else bind_r (md_atomic (sa_amount a) ''amount'') (\<lambda>amount.
     bind_r (md_atomic (sa_fee a) ''fee'') (\<lambda>fee.
     bind_r (md_digest cr ''AGENT_MANDATE_TRANSFER''
               (transferDigestObject amount fee (sa_mandateId a) network (sa_nonce a) payee)) (\<lambda>digest.
     bind_r (authorization (sa_authorization a) agent digest ''agent'') (\<lambda>_.
     if amount = 0 \<or> amount > md_maxPerTransfer current \<or>
        md_totalSpent current + amount > md_totalLimit current then Inl Md_spending_limit
     else if fee < MIN_TRANSFER_FEE then Inl Md_fee_below_minimum
     else if fee > md_maxFee current then Inl Md_fee_above_maximum
     else if md_totalFees current + fee > md_totalFeeLimit current then Inl Md_fee_budget
     else if md_balance current < amount + fee then Inl Md_escrow_insufficient
     else
       let nextEscrow = md_balance current - amount - fee in
       bind_r (settleEscrow (uniq [payee, feeRecipient]) (spendDeltas payee feeRecipient amount fee)
                 (md_balance current) nextEscrow (ms_balances s)) (\<lambda>balances'.
       let m = current\<lparr>md_balance := nextEscrow, md_totalSpent := md_totalSpent current + amount,
                 md_totalFees := md_totalFees current + fee\<rparr> in
         Inr (m, s\<lparr>ms_balances := balances', ms_nonces := jset agent (agentNonce + 1) (ms_nonces s),
                  ms_mandates := jset (sa_mandateId a) m (ms_mandates s)\<rparr>)))))))))))))"

record close_receipt =
  lr_fee :: int
  lr_mode :: string
  lr_ownerBalanceDelta :: int
  lr_releasedEscrow :: int

definition closeDigestObject :: "int \<Rightarrow> string \<Rightarrow> string \<Rightarrow> string \<Rightarrow> jsval \<Rightarrow> jsval" where
  "closeDigestObject fee mandateId mode network nonceValue = JObj
     [(''fee'', big fee), (''mandateId'', JStr mandateId), (''mode'', JStr mode),
      (''networkId'', JStr network), (''nonce'', nonceValue)]"

definition closeDeltas :: "string \<Rightarrow> string \<Rightarrow> int \<Rightarrow> int \<Rightarrow> balances" where
  "closeDeltas owner feeRecipient escrow fee = addDelta feeRecipient fee (addDelta owner (escrow - fee) [])"

definition closeAgentMandateState :: "crypto \<Rightarrow> mandate_state \<Rightarrow> close_args \<Rightarrow>
    mandate_error + (close_receipt \<times> mandate_state)" where
  "closeAgentMandateState cr s a =
     bind_r (mandate (jget (ms_mandates s) (la_mandateId a)) (la_mandateId a)) (\<lambda>current.
     bind_r (md_address (JStr (md_owner current)) ''mandate owner'') (\<lambda>owner.
     bind_r (md_context (la_executionContext a)) (\<lambda>(currentHeight, feeRecipient, authoritative).
     bind_r (validateMandateRegistry (ms_mandates s) authoritative) (\<lambda>_.
     if md_networkId current \<noteq> authoritative then Inl Md_network_mismatch
     else if currentHeight < md_createdHeight current then Inl Md_height_precedes
     else bind_r (nonceMatches (ms_nonces s) owner (la_nonce a) ''owner'') (\<lambda>ownerNonce.
     case la_mode a of
       JStr mode \<Rightarrow>
         if mode \<noteq> ''revoke'' \<and> mode \<noteq> ''expiry'' then Inl Md_mode_invalid
         else if mode = ''expiry'' \<and> currentHeight < md_expiresHeight current then Inl Md_not_expired
         else bind_r (md_atomic (la_fee a) ''fee'') (\<lambda>fee.
         bind_r (md_digest cr ''AGENT_MANDATE_CLOSE''
                   (closeDigestObject fee (la_mandateId a) mode (md_networkId current) (la_nonce a))) (\<lambda>digest.
         bind_r (authorization (la_authorization a) owner digest ''owner'') (\<lambda>_.
         if fee < MIN_TRANSFER_FEE then Inl Md_fee_below_minimum
         else bind_r (md_balance_of (ms_balances s) owner) (\<lambda>ownerBalance.
         if ownerBalance + md_balance current < fee then Inl Md_close_fee
         else bind_r (settleEscrow (uniq [owner, feeRecipient])
                (closeDeltas owner feeRecipient (md_balance current) fee) (md_balance current) 0
                (ms_balances s)) (\<lambda>balances'.
           Inr (\<lparr>lr_fee = fee, lr_mode = mode,
                 lr_ownerBalanceDelta = jget_or 0 balances' owner - ownerBalance,
                 lr_releasedEscrow = md_balance current\<rparr>,
                s\<lparr>ms_balances := balances', ms_nonces := jset owner (ownerNonce + 1) (ms_nonces s),
                  ms_mandates := jdel (la_mandateId a) (ms_mandates s)\<rparr>))))))
     | _ \<Rightarrow> Inl Md_mode_invalid)))))"

text \<open>
  Pruning: the expired mandates by expiry height and identifier, at most \<open>limit\<close> of them; the
  refunds are added up per owner first, then added to the balances.
\<close>

definition pruneCandidates :: "int \<Rightarrow> int \<Rightarrow> mandate_map \<Rightarrow> (string \<times> agent_mandate) list" where
  "pruneCandidates currentHeight limit mandates =
     take (nat limit) (sort_key (\<lambda>(id, m). (md_expiresHeight m, id))
       (filter (\<lambda>(id, m). md_expiresHeight m \<le> currentHeight) mandates))"

definition pruneRefunds :: "(string \<times> agent_mandate) list \<Rightarrow> balances" where
  "pruneRefunds candidates =
     foldl (\<lambda>refunds (id, m). addDelta (md_owner m) (md_balance m) refunds) [] candidates"

definition pruneOne :: "balances \<Rightarrow> balances \<Rightarrow> string \<times> int \<Rightarrow> mandate_error + balances" where
  "pruneOne balances next p =
     bind_r (md_balance_of balances (fst p)) (\<lambda>b.
       if b + snd p > MAX_ATOMIC_VALUE then Inl Md_balance_overflow else Inr (jset (fst p) (b + snd p) next))"

definition pruneExpiredAgentMandatesState :: "mandate_state \<Rightarrow> prune_args \<Rightarrow>
    mandate_error + (string list \<times> mandate_state)" where
  "pruneExpiredAgentMandatesState s a =
     bind_r (pruneContext (pa_executionContext a)) (\<lambda>(currentHeight, authoritative).
     bind_r (validateMandateRegistry (ms_mandates s) authoritative) (\<lambda>_.
     bind_r (md_integer (pa_limit a) ''prune limit'') (\<lambda>limit.
     if limit < 1 \<or> limit > MAX_AGENT_MANDATE_PRUNE_BATCH then Inl Md_prune_limit
     else
       bind_r (mapM (\<lambda>(id, m). mandate (Some m) id) (ms_mandates s)) (\<lambda>_.
       let candidates = pruneCandidates currentHeight limit (ms_mandates s) in
       bind_r (foldM (pruneOne (ms_balances s)) [] (pruneRefunds candidates)) (\<lambda>next.
         Inr (map fst candidates,
              s\<lparr>ms_balances := writeAll next (ms_balances s),
                ms_mandates := foldl (\<lambda>ms (id, m). jdel id ms) (ms_mandates s) candidates\<rparr>))))))"

text \<open>A call of the module.\<close>

datatype mandate_op =
    Md_create create_args
  | Md_spend spend_args
  | Md_close close_args
  | Md_prune prune_args

primrec mandate_step :: "crypto \<Rightarrow> mandate_state \<Rightarrow> mandate_op \<Rightarrow> mandate_error + mandate_state" where
  "mandate_step cr s (Md_create a) = bind_r (createAgentMandateState cr s a) (\<lambda>r. Inr (snd r))"
| "mandate_step cr s (Md_spend a) = bind_r (applyAgentMandateTransferState cr s a) (\<lambda>r. Inr (snd r))"
| "mandate_step cr s (Md_close a) = bind_r (closeAgentMandateState cr s a) (\<lambda>r. Inr (snd r))"
| "mandate_step cr s (Md_prune a) = bind_r (pruneExpiredAgentMandatesState s a) (\<lambda>r. Inr (snd r))"

section \<open>What a successful call tells\<close>

lemma md_address_Inr_iff [inversion]: "md_address v f = Inr a \<longleftrightarrow> v = JStr a \<and> is_address a"
  by (cases v) auto

lemma md_network_Inr_iff [inversion]: "md_network v = Inr a \<longleftrightarrow> v = JStr a \<and> is_network_id a"
  by (cases v) auto

lemma md_atomic_big [inversion]:
  "md_atomic (JBig n) f = Inr r \<longleftrightarrow> r = n \<and> 0 \<le> n \<and> n \<le> MAX_ATOMIC_VALUE"
  by auto

lemma md_atomic_range: "md_atomic v f = Inr n \<Longrightarrow> 0 \<le> n \<and> n \<le> MAX_ATOMIC_VALUE"
proof (cases v)
  case (JStr s)
  moreover assume "md_atomic v f = Inr n"
  ultimately have "atomic v F_amount = Inr n" by (simp split: if_splits)
  then show ?thesis by (rule atomic_range)
qed (auto split: if_splits)

lemma md_integer_Inr_iff [inversion]: "md_integer v f = Inr n \<longleftrightarrow> safe_int v = Some n \<and> 0 \<le> n"
  by (auto simp: md_integer_def split: option.splits)

lemma nonceMatches_Inr_iff [inversion]:
  "nonceMatches ns a v r = Inr n \<longleftrightarrow>
     safe_int v = Some n \<and> n = jget_or 0 ns a \<and> 0 \<le> n \<and> n < MAX_SAFE_INTEGER"
  by (auto simp: nonceMatches_def advancingNonce_def bind_r_Inr_iff md_integer_Inr_iff
      if_Inl_Inr_iff not_unexpected_iff)

lemma md_payees_Inr:
  assumes "md_payees v = Inr ps"
  shows "md_payees (JArr (map JStr ps)) = Inr ps"
proof -
  from assms obtain vs where v: "v = JArr vs" by (cases v) (auto simp: md_payees_def)
  with assms obtain qs where n: "vs \<noteq> []" "length vs \<le> MAX_AGENT_MANDATE_PAYEES"
    and qs: "mapM (\<lambda>x. md_address x ''allowed payee'') vs = Inr qs" and ps: "ps = sort qs"
    and d: "length (uniq (sort qs)) = length (sort qs)"
    by (auto simp: md_payees_def bind_r_Inr_iff Let_def split: if_splits)
  have adr: "\<forall>q \<in> set qs. is_address q"
    using qs by (induction vs arbitrary: qs) (auto simp: bind_r_Inr_iff md_address_Inr_iff)
  have m: "mapM (\<lambda>x. md_address x ''allowed payee'') (map JStr xs) = Inr xs"
    if "\<forall>q \<in> set xs. is_address q" for xs using that by (induction xs) auto
  have "length ps = length vs" using mapM_length [OF qs] by (simp add: ps)
  with n have "map JStr ps \<noteq> []" "length (map JStr ps) \<le> MAX_AGENT_MANDATE_PAYEES" by auto
  moreover have "mapM (\<lambda>x. md_address x ''allowed payee'') (map JStr ps) = Inr ps"
    using m [of ps] adr by (simp add: ps)
  moreover have "sort ps = ps" by (simp add: ps sort_key_id_if_sorted)
  moreover have "length (uniq ps) = length ps" using d by (simp add: ps)
  ultimately show ?thesis unfolding md_payees_def by simp
qed

definition mandate_fields_ok :: "agent_mandate \<Rightarrow> string \<Rightarrow> bool" where
  "mandate_fields_ok m i \<longleftrightarrow> is_hex64 i \<and> is_address (md_owner m) \<and> is_address (md_agent m) \<and>
     is_network_id (md_networkId m) \<and> md_owner m \<noteq> md_agent m \<and> is_hex64 (md_policyHash m) \<and>
     md_payees (JArr (map JStr (md_allowedPayees m))) = Inr (md_allowedPayees m) \<and>
     (\<forall>n \<in> {md_balance m, md_initialEscrow m, md_maxFee m, md_maxPerTransfer m, md_totalLimit m,
             md_totalFeeLimit m, md_totalFees m, md_totalSpent m}. 0 \<le> n \<and> n \<le> MAX_ATOMIC_VALUE) \<and>
     (\<forall>h \<in> {md_createdHeight m, md_expiresHeight m}. 0 \<le> h \<and> is_safe_int h)"

lemma safe_int_num [inversion]: "safe_int (JNum n) = Some k \<longleftrightarrow> k = n \<and> is_safe_int n"
  by (auto simp: is_safe_int_def)

lemma mandate_Inr_iff [inversion]:
  "mandate (Some m) i = Inr m' \<longleftrightarrow> m' = m \<and> mandate_fields_ok m i \<and> mandate_limits_ok m"
  unfolding mandate_def option.case
  by (simp only: bind_r_Inr_iff if_Inl_Inr_iff md_address_Inr_iff md_network_Inr_iff md_atomic_big
      md_integer_Inr_iff safe_int_num sum.inject jsval.inject mandate_fields_ok_def ball_simps)
    (auto simp: not_less)

lemma mandate_None [simp]: "mandate None i \<noteq> Inr m"
  by (simp add: mandate_def)

lemma mandate_Inr: "mandate v i = Inr m \<Longrightarrow> v = Some m \<and> mandate_fields_ok m i \<and> mandate_limits_ok m"
  by (cases v) (auto simp: mandate_Inr_iff)

lemma settleEscrow_Inr:
  assumes "settleEscrow accounts d h h' b = Inr b'" and "distinct accounts"
  shows "b' = fold (\<lambda>k m. jset k (jget_or 0 b k + jget_or 0 d k) m) accounts b"
    and "(\<Sum>a \<leftarrow> accounts. jget_or 0 d a) = h - h'"
    and "a \<in> set accounts \<Longrightarrow>
      0 \<le> jget_or 0 b a + jget_or 0 d a \<and> jget_or 0 b a + jget_or 0 d a \<le> MAX_ATOMIC_VALUE"
proof -
  from assms obtain before nxt where before: "totalFor b accounts = Inr before"
    and nx: "nextBalances Balance_out_of_range b d accounts [] = Inr nxt"
    and same: "before + h = sum_list (jvalues nxt) + h'" and b': "b' = writeAll nxt b"
    by (auto simp: settleEscrow_def inversion)
  from nextBalances_Inr [OF nx assms(2)]
  have form: "nxt = map (\<lambda>a. (a, jget_or 0 b a + jget_or 0 d a)) accounts"
    and range: "\<forall>a \<in> set accounts. 0 \<le> jget_or 0 b a + jget_or 0 d a \<and>
       jget_or 0 b a + jget_or 0 d a \<le> MAX_ATOMIC_VALUE" by simp_all
  show "b' = fold (\<lambda>k m. jset k (jget_or 0 b k + jget_or 0 d k) m) accounts b"
    using b' form by (simp add: writeAll_map)
  have "sum_list (jvalues nxt) = (\<Sum>a \<leftarrow> accounts. jget_or 0 b a) + (\<Sum>a \<leftarrow> accounts. jget_or 0 d a)"
    by (simp add: form jvalues_def o_def sum_list_addf)
  with same totalFor_Inr [OF before] show "(\<Sum>a \<leftarrow> accounts. jget_or 0 d a) = h - h'" by simp
  show "a \<in> set accounts \<Longrightarrow>
      0 \<le> jget_or 0 b a + jget_or 0 d a \<and> jget_or 0 b a + jget_or 0 d a \<le> MAX_ATOMIC_VALUE"
    using range by blast
qed

lemma settleEscrow_effect:
  assumes "settleEscrow accounts d h h' b = Inr b'" and "distinct accounts"
  shows "jtotal b' + h' = jtotal b + h"
    and "jget_or 0 b' a = jget_or 0 b a + (if a \<in> set accounts then jget_or 0 d a else 0)"
    and "in_range b \<Longrightarrow> in_range b'"
proof -
  have "jtotal b' = jtotal b + (\<Sum>a \<leftarrow> accounts. jget_or 0 d a)"
    unfolding settleEscrow_Inr(1) [OF assms]
    by (rule amounts.total_fold_deltas) (simp_all add: assms(2))
  then show "jtotal b' + h' = jtotal b + h" by (simp add: settleEscrow_Inr(2) [OF assms])
  have get: "jget_or 0 b' a = jget_or 0 b a + (if a \<in> set accounts then jget_or 0 d a else 0)" for a
    unfolding settleEscrow_Inr(1) [OF assms] using assms(2) by (simp add: amounts.get_fold_put)
  then show "jget_or 0 b' a = jget_or 0 b a + (if a \<in> set accounts then jget_or 0 d a else 0)" .
  show "in_range b \<Longrightarrow> in_range b'"
    unfolding in_range_def using settleEscrow_Inr(3) [OF assms] by (auto simp: get)
qed


section \<open>The invariant\<close>

text \<open>How many mandates an owner has.\<close>

definition owned :: "string \<Rightarrow> mandate_map \<Rightarrow> int" where
  "owned owner ms = jsum (\<lambda>m. if md_owner m = owner then 1 else 0) ms"

definition mandates_inv :: "mandate_state \<Rightarrow> bool" where
  "mandates_inv s \<longleftrightarrow> jwf (ms_mandates s) \<and> in_range (ms_balances s) \<and>
     (\<forall>i m. jget (ms_mandates s) i = Some m \<longrightarrow> mandate_fields_ok m i \<and> mandate_limits_ok m) \<and>
     jsize (ms_mandates s) \<le> MAX_AGENT_MANDATES_GLOBAL \<and>
     (\<forall>owner. owned owner (ms_mandates s) \<le> int MAX_ACTIVE_AGENT_MANDATES_PER_OWNER)"

text \<open>All NIR of the component: the balances and the escrows of the mandates.\<close>

definition mandate_worth :: "mandate_state \<Rightarrow> int" where
  "mandate_worth s = jtotal (ms_balances s) + jsum md_balance (ms_mandates s)"

lemma mandates_inv_jset:
  assumes "mandates_inv s" and "mandate_fields_ok m i" and "mandate_limits_ok m" and "in_range b"
    and "case jget (ms_mandates s) i of
           None \<Rightarrow> jsize (ms_mandates s) < MAX_AGENT_MANDATES_GLOBAL \<and>
             owned (md_owner m) (ms_mandates s) < int MAX_ACTIVE_AGENT_MANDATES_PER_OWNER
         | Some m0 \<Rightarrow> md_owner m = md_owner m0"
  shows "mandates_inv (s\<lparr>ms_balances := b, ms_nonces := ns, ms_mandates := jset i m (ms_mandates s)\<rparr>)"
  using assms
  by (auto simp: mandates_inv_def owned_def jsum_jset jsize_jset jhas_def split: option.splits if_splits)

lemma owned_jdel: "jwf ms \<Longrightarrow> owned owner (jdel i ms) \<le> owned owner ms"
  by (auto simp: owned_def jsum_jdel split: option.splits)

lemma mandates_inv_jdel:
  assumes "mandates_inv s" and "in_range b"
  shows "mandates_inv (s\<lparr>ms_balances := b, ms_nonces := ns, ms_mandates := jdel i (ms_mandates s)\<rparr>)"
proof -
  have "owned owner (jdel i (ms_mandates s)) \<le> int MAX_ACTIVE_AGENT_MANDATES_PER_OWNER" for owner
    using assms(1) owned_jdel [of "ms_mandates s" owner i] by (auto simp: mandates_inv_def intro: order_trans)
  with assms show ?thesis by (auto simp: mandates_inv_def jsize_jdel)
qed

lemma registry_entries:
  assumes "mapM (\<lambda>(i, m). mandate (Some m) i) ms = Inr es"
  shows "es = map snd ms"
  using assms by (induction ms arbitrary: es) (auto simp: bind_r_Inr_iff mandate_Inr_iff)

lemma validate_Inr: "validateMandateRegistry ms n = Inr es \<Longrightarrow> es = map snd ms"
  by (auto simp: validateMandateRegistry_def if_Inl_Inr_iff bind_r_Inr_iff registry_entries)

lemma owned_filter: "owned owner ms = int (length (filter (\<lambda>m. md_owner m = owner) (map snd ms)))"
  by (induction ms) (auto simp: owned_def jsum_def)

lemma md_context_Inr:
  "md_context v = Inr (h, f, n) \<Longrightarrow> 0 \<le> h \<and> is_safe_int h \<and> is_address f \<and> is_network_id n"
  by (auto simp: md_context_def bind_r_Inr_iff if_Inl_Inr_iff md_integer_Inr_iff md_address_Inr_iff
      md_network_Inr_iff is_safe_int_def split: option.splits dest: safe_int_bound)

subsection \<open>Creating\<close>

lemma createDeltas_get:
  "jget_or 0 (createDeltas owner f escrow fee) a =
     (if a = owner then - escrow - fee else 0) + (if a = f then fee else 0)"
  by (simp add: createDeltas_def delta_laws)

lemma create_Inr:
  assumes "createAgentMandateState cr s a = Inr (m, s')"
  shows "\<exists>feeRecipient fee b.
    mandate_fields_ok m (ca_mandateId a) \<and> mandate_limits_ok m \<and>
    jget (ms_mandates s) (ca_mandateId a) = None \<and>
    jsize (ms_mandates s) < MAX_AGENT_MANDATES_GLOBAL \<and>
    owned (md_owner m) (ms_mandates s) < int MAX_ACTIVE_AGENT_MANDATES_PER_OWNER \<and>
    MIN_TRANSFER_FEE \<le> fee \<and>
    settleEscrow (uniq [md_owner m, feeRecipient]) (createDeltas (md_owner m) feeRecipient (md_balance m) fee)
      0 (md_balance m) (ms_balances s) = Inr b \<and>
    s' = s\<lparr>ms_balances := b, ms_nonces := jset (md_owner m) (jget_or 0 (ms_nonces s) (md_owner m) + 1) (ms_nonces s),
           ms_mandates := jset (ca_mandateId a) m (ms_mandates s)\<rparr>"
  using assms unfolding createAgentMandateState_def Let_def
proof (simp only: bind_r_Inr_iff if_Inl_Inr_iff split_paired_Ex prod.case md_address_Inr_iff
    md_network_Inr_iff nonceMatches_Inr_iff md_integer_Inr_iff sum.inject prod.inject, elim exE conjE, goal_cases)
  case (1 owner agent h f n network stored on eh escrow mpt mf tl tfl fee ob allowed digest u b)
  have stored: "stored = map snd (ms_mandates s)" using 1 by (simp add: validate_Inr)
  have h: "0 \<le> h" "is_safe_int h" using md_context_Inr 1 by blast+
  have eh: "0 \<le> eh" "is_safe_int eh" using 1 safe_int_bound [of "ca_expiresHeight a" eh]
    by (simp_all add: is_safe_int_def)
  have amounts: "0 \<le> escrow" "escrow \<le> MAX_ATOMIC_VALUE" "0 \<le> mpt" "mpt \<le> MAX_ATOMIC_VALUE"
    "0 \<le> mf" "mf \<le> MAX_ATOMIC_VALUE" "0 \<le> tl" "tl \<le> MAX_ATOMIC_VALUE" "0 \<le> tfl"
    "tfl \<le> MAX_ATOMIC_VALUE" using 1 md_atomic_range by meson+
  have payees: "md_payees (JArr (map JStr allowed)) = Inr allowed" using 1 by (intro md_payees_Inr)
  have m: "m = \<lparr>md_agent = agent, md_allowedPayees = allowed, md_balance = escrow, md_createdHeight = h,
    md_expiresHeight = eh, md_initialEscrow = escrow, md_maxFee = mf, md_maxPerTransfer = mpt,
    md_networkId = network, md_owner = owner, md_policyHash = ca_policyHash a, md_totalFeeLimit = tfl,
    md_totalFees = 0, md_totalLimit = tl, md_totalSpent = 0\<rparr>" using 1 by simp
  have "mandate_fields_ok m (ca_mandateId a)"
    using 1(3,5,8,10,11) h eh amounts payees by (simp add: mandate_fields_ok_def m MAX_ATOMIC_VALUE_def)
  moreover have "mandate_limits_ok m" using 1(20,29,34) amounts by (simp add: mandate_limits_ok_def m)
  moreover have "jget (ms_mandates s) (ca_mandateId a) = None" using 1(12) by (simp add: jhas_def)
  moreover have "jsize (ms_mandates s) < MAX_AGENT_MANDATES_GLOBAL" using 1(14) by (simp add: stored jsize_def)
  moreover have "owned owner (ms_mandates s) < int MAX_ACTIVE_AGENT_MANDATES_PER_OWNER"
    using 1(15) by (simp add: owned_filter stored)
  moreover have "MIN_TRANSFER_FEE \<le> fee" using 1(30) by simp
  moreover have "settleEscrow (uniq [owner, f]) (createDeltas owner f escrow fee) 0 escrow (ms_balances s) = Inr b"
    using 1 by simp
  moreover have "s' = s\<lparr>ms_balances := b, ms_nonces := jset owner (jget_or 0 (ms_nonces s) owner + 1) (ms_nonces s),
      ms_mandates := jset (ca_mandateId a) m (ms_mandates s)\<rparr>" using 1(17,38,39) m by simp
  moreover have "md_owner m = owner" "md_balance m = escrow" by (simp_all add: m)
  ultimately show ?case by metis
qed


subsection \<open>Spending\<close>

lemma spendDeltas_get:
  "jget_or 0 (spendDeltas payee f amount fee) a =
     (if a = payee then amount else 0) + (if a = f then fee else 0)"
  by (simp add: spendDeltas_def delta_laws)

lemma authorization_Inr:
  "authorization v actor digest role = Inr u \<Longrightarrow>
   \<exists>obj. v = JObj obj \<and> fld obj ''actor'' = JStr actor \<and> fld obj ''digest'' = JStr digest"
  by (cases v) (auto simp: authorization_def split: if_splits)

definition spent :: "agent_mandate \<Rightarrow> int \<Rightarrow> int \<Rightarrow> agent_mandate" where
  "spent m amount fee = m\<lparr>md_balance := md_balance m - amount - fee, md_totalSpent := md_totalSpent m + amount,
     md_totalFees := md_totalFees m + fee\<rparr>"

text \<open>The limits a payment of \<open>amount\<close> and \<open>fee\<close> to \<open>payee\<close> at a height keeps.\<close>

definition within_limits :: "agent_mandate \<Rightarrow> int \<Rightarrow> string \<Rightarrow> int \<Rightarrow> int \<Rightarrow> bool" where
  "within_limits m height payee amount fee \<longleftrightarrow>
     md_createdHeight m \<le> height \<and> height < md_expiresHeight m \<and> payee \<in> set (md_allowedPayees m) \<and>
     0 < amount \<and> amount \<le> md_maxPerTransfer m \<and> md_totalSpent m + amount \<le> md_totalLimit m \<and>
     MIN_TRANSFER_FEE \<le> fee \<and> fee \<le> md_maxFee m \<and> md_totalFees m + fee \<le> md_totalFeeLimit m \<and>
     amount + fee \<le> md_balance m"

lemma spend_Inr:
  assumes "applyAgentMandateTransferState cr s a = Inr (m, s')"
  shows "\<exists>c h f payee amount fee digest b.
    jget (ms_mandates s) (sa_mandateId a) = Some c \<and>
    mandate_fields_ok c (sa_mandateId a) \<and> mandate_limits_ok c \<and>
    sa_payee a = JStr payee \<and> md_context (sa_executionContext a) = Inr (h, f, md_networkId c) \<and>
    within_limits c h payee amount fee \<and>
    safe_int (sa_nonce a) = Some (jget_or 0 (ms_nonces s) (md_agent c)) \<and>
    md_digest cr ''AGENT_MANDATE_TRANSFER''
      (transferDigestObject amount fee (sa_mandateId a) (md_networkId c) (sa_nonce a) payee) = Inr digest \<and>
    authorization (sa_authorization a) (md_agent c) digest ''agent'' = Inr () \<and>
    settleEscrow (uniq [payee, f]) (spendDeltas payee f amount fee) (md_balance c)
      (md_balance c - amount - fee) (ms_balances s) = Inr b \<and>
    m = spent c amount fee \<and>
    s' = s\<lparr>ms_balances := b, ms_nonces := jset (md_agent c) (jget_or 0 (ms_nonces s) (md_agent c) + 1) (ms_nonces s),
           ms_mandates := jset (sa_mandateId a) m (ms_mandates s)\<rparr>"
  using assms unfolding applyAgentMandateTransferState_def Let_def
proof (simp only: bind_r_Inr_iff if_Inl_Inr_iff split_paired_Ex prod.case md_address_Inr_iff
    md_network_Inr_iff nonceMatches_Inr_iff md_integer_Inr_iff sum.inject prod.inject, elim exE conjE, goal_cases)
  case (1 c agent payee h f n stored on network amount fee digest u b)
  have c: "jget (ms_mandates s) (sa_mandateId a) = Some c \<and> mandate_fields_ok c (sa_mandateId a) \<and>
    mandate_limits_ok c" using 1 by (intro mandate_Inr)
  have names: "agent = md_agent c" "network = md_networkId c" "n = md_networkId c" "on = jget_or 0 (ms_nonces s) agent"
    using 1 by simp_all
  have "0 \<le> amount" using 1 md_atomic_range by meson
  then have lim: "within_limits c h payee amount fee"
    using 1 by (simp add: within_limits_def not_less not_le)
  have m: "m = spent c amount fee" using 1 by (simp add: spent_def)
  have s': "s' = s\<lparr>ms_balances := b,
      ms_nonces := jset (md_agent c) (jget_or 0 (ms_nonces s) (md_agent c) + 1) (ms_nonces s),
      ms_mandates := jset (sa_mandateId a) m (ms_mandates s)\<rparr>" using 1 names by simp
  have "u = ()" by simp
  with 1 c names lim m s' show ?case by auto
qed


lemma spent_ok:
  assumes "mandate_fields_ok c i" and "mandate_limits_ok c" and "within_limits c h payee amount fee"
  shows "mandate_fields_ok (spent c amount fee) i \<and> mandate_limits_ok (spent c amount fee) \<and>
    md_owner (spent c amount fee) = md_owner c"
proof -
  have "0 \<le> MIN_TRANSFER_FEE" by (simp add: MIN_TRANSFER_FEE_def)
  with assms show ?thesis
    by (auto simp: mandate_fields_ok_def mandate_limits_ok_def within_limits_def spent_def)
qed

subsection \<open>Closing\<close>

lemma closeDeltas_get:
  "jget_or 0 (closeDeltas owner f escrow fee) a =
     (if a = owner then escrow - fee else 0) + (if a = f then fee else 0)"
  by (simp add: closeDeltas_def delta_laws)

lemma close_Inr:
  assumes "closeAgentMandateState cr s a = Inr (r, s')"
  shows "\<exists>c h f mode fee digest b.
    jget (ms_mandates s) (la_mandateId a) = Some c \<and>
    md_context (la_executionContext a) = Inr (h, f, md_networkId c) \<and> la_mode a = JStr mode \<and>
    (mode = ''revoke'' \<or> mode = ''expiry'' \<and> md_expiresHeight c \<le> h) \<and> MIN_TRANSFER_FEE \<le> fee \<and>
    md_digest cr ''AGENT_MANDATE_CLOSE''
      (closeDigestObject fee (la_mandateId a) mode (md_networkId c) (la_nonce a)) = Inr digest \<and>
    authorization (la_authorization a) (md_owner c) digest ''owner'' = Inr () \<and>
    settleEscrow (uniq [md_owner c, f]) (closeDeltas (md_owner c) f (md_balance c) fee) (md_balance c) 0
      (ms_balances s) = Inr b \<and> lr_releasedEscrow r = md_balance c \<and>
    s' = s\<lparr>ms_balances := b, ms_nonces := jset (md_owner c) (jget_or 0 (ms_nonces s) (md_owner c) + 1) (ms_nonces s),
           ms_mandates := jdel (la_mandateId a) (ms_mandates s)\<rparr>"
  using assms unfolding closeAgentMandateState_def Let_def
proof (simp only: bind_r_Inr_iff if_Inl_Inr_iff split_paired_Ex prod.case md_address_Inr_iff
    nonceMatches_Inr_iff sum.inject prod.inject, elim exE conjE, goal_cases)
  case (1 c owner h f n stored on)
  have c: "jget (ms_mandates s) (la_mandateId a) = Some c"
    using 1 mandate_Inr by blast
  have names: "owner = md_owner c" "n = md_networkId c" "on = jget_or 0 (ms_nonces s) owner"
    using 1 by simp_all
  have ctx: "md_context (la_executionContext a) = Inr (h, f, md_networkId c)" using 1 names by simp
  obtain mode where mode: "la_mode a = JStr mode" using 1 by (cases "la_mode a") simp_all
  from 1(9) obtain fee digest u b where
    m1: "\<not> (mode \<noteq> ''revoke'' \<and> mode \<noteq> ''expiry'')" "\<not> (mode = ''expiry'' \<and> h < md_expiresHeight c)"
    and m2: "\<not> fee < MIN_TRANSFER_FEE"
    and m3: "md_digest cr ''AGENT_MANDATE_CLOSE''
      (closeDigestObject fee (la_mandateId a) mode (md_networkId c) (la_nonce a)) = Inr digest"
    and m4: "authorization (la_authorization a) owner digest ''owner'' = Inr u"
    and m5: "settleEscrow (uniq [owner, f]) (closeDeltas owner f (md_balance c) fee) (md_balance c) 0
      (ms_balances s) = Inr b" and m6: "lr_releasedEscrow r = md_balance c"
    and m7: "s' = s\<lparr>ms_balances := b, ms_nonces := jset owner (on + 1) (ms_nonces s),
           ms_mandates := jdel (la_mandateId a) (ms_mandates s)\<rparr>"
    unfolding mode jsval.case bind_r_Inr_iff if_Inl_Inr_iff sum.inject prod.inject
    by (elim exE conjE) (rule that, assumption+, auto)
  have "mode = ''revoke'' \<or> mode = ''expiry'' \<and> md_expiresHeight c \<le> h"
    using m1 by (cases "mode = ''revoke''") auto
  moreover have "MIN_TRANSFER_FEE \<le> fee" using m2 by simp
  moreover have "authorization (la_authorization a) (md_owner c) digest ''owner'' = Inr ()"
    using m4 by (simp add: names(1))
  moreover note c ctx mode m3 m5 [unfolded names(1)] m6 m7 [unfolded names(3), unfolded names(1)]
  ultimately show ?case by blast
qed

subsection \<open>Pruning\<close>

lemma pruneRefunds_acc:
  "jtotal (foldl (\<lambda>r (i, m). addDelta (md_owner m) (md_balance m) r) acc cs) =
     jtotal acc + (\<Sum>p \<leftarrow> cs. md_balance (snd p))"
  "jwf acc \<Longrightarrow> jwf (foldl (\<lambda>r (i, m). addDelta (md_owner m) (md_balance m) r) acc cs)"
  "jget_or 0 (foldl (\<lambda>r (i, m). addDelta (md_owner m) (md_balance m) r) acc cs) a =
     jget_or 0 acc a + (\<Sum>p \<leftarrow> cs. if md_owner (snd p) = a then md_balance (snd p) else 0)"
  by (induction cs arbitrary: acc) (simp_all add: case_prod_unfold delta_laws)

lemma pruneRefunds_laws:
  "jtotal (pruneRefunds cs) = (\<Sum>p \<leftarrow> cs. md_balance (snd p))"
  "jwf (pruneRefunds cs)"
  "jget_or 0 (pruneRefunds cs) a = (\<Sum>p \<leftarrow> cs. if md_owner (snd p) = a then md_balance (snd p) else 0)"
  by (simp_all add: pruneRefunds_def pruneRefunds_acc)

lemma pruneOne_Inr:
  "pruneOne b nx p = Inr nx' \<Longrightarrow>
     jget_or 0 b (fst p) + snd p \<le> MAX_ATOMIC_VALUE \<and> nx' = jset (fst p) (jget_or 0 b (fst p) + snd p) nx"
  by (auto simp: pruneOne_def bind_r_Inr_iff md_balance_of_def if_Inl_Inr_iff)

lemma pruneOne_run:
  assumes "foldM (pruneOne b) nx rs = Inr nx'" and "jwf rs" and "\<forall>a \<in> fst ` set rs. \<not> jhas nx a"
  shows "nx' = nx @ map (\<lambda>p. (fst p, jget_or 0 b (fst p) + snd p)) rs \<and>
    (\<forall>p \<in> set rs. jget_or 0 b (fst p) + snd p \<le> MAX_ATOMIC_VALUE)"
  using assms
proof (induction rs arbitrary: nx)
  case (Cons p rs)
  let ?u = "jget_or 0 b (fst p) + snd p"
  from Cons.prems(1) have rec: "foldM (pruneOne b) (jset (fst p) ?u nx) rs = Inr nx'" and u: "?u \<le> MAX_ATOMIC_VALUE"
    by (auto simp: bind_r_Inr_iff dest!: pruneOne_Inr)
  from Cons.prems have "jwf rs" "fst p \<notin> fst ` set rs" and fresh: "jset (fst p) ?u nx = nx @ [(fst p, ?u)]"
    by (auto simp: jwf_def jset_fresh)
  then have "\<forall>a \<in> fst ` set rs. a \<noteq> fst p" by metis
  with Cons.prems(3) have "\<forall>a \<in> fst ` set rs. \<not> jhas (jset (fst p) ?u nx) a" by simp
  with Cons.IH [OF rec \<open>jwf rs\<close>] fresh u show ?case by simp
qed simp

lemma jget_or_entry: "jwf m \<Longrightarrow> p \<in> set m \<Longrightarrow> jget_or 0 m (fst p) = snd p"
  using jget_iff_in [of m "fst p" "snd p"] by (simp add: jget_or_def)

lemma writeAll_refunds:
  assumes "jwf rs"
  shows "writeAll (map (\<lambda>p. (fst p, jget_or 0 b (fst p) + snd p)) rs) b =
    fold (\<lambda>k m. jset k (jget_or 0 b k + jget_or 0 rs k) m) (map fst rs) b"
proof -
  have "map (\<lambda>p. (fst p, jget_or 0 b (fst p) + snd p)) rs =
      map (\<lambda>a. (a, jget_or 0 b a + jget_or 0 rs a)) (map fst rs)"
    using assms by (auto simp: jget_or_entry)
  then show ?thesis by (simp only: writeAll_map)
qed

lemma jdel_fold_acc:
  assumes "jwf ms" and "set cs \<subseteq> set ms" and "distinct (map fst cs)"
  shows "jwf (foldl (\<lambda>ms (i, m). jdel i ms) ms cs) \<and>
    jsum f (foldl (\<lambda>ms (i, m). jdel i ms) ms cs) = jsum f ms - (\<Sum>p \<leftarrow> cs. f (snd p)) \<and>
    jget (foldl (\<lambda>ms (i, m). jdel i ms) ms cs) k = (if k \<in> fst ` set cs then None else jget ms k) \<and>
    jsize (foldl (\<lambda>ms (i, m). jdel i ms) ms cs) \<le> jsize ms"
  using assms
proof (induction cs arbitrary: ms)
  case (Cons c cs)
  have c: "jget ms (fst c) = Some (snd c)" using Cons.prems by (simp add: jget_iff_in)
  have sub: "set cs \<subseteq> set (jdel (fst c) ms)"
  proof
    fix p assume p: "p \<in> set cs"
    then have "fst p \<in> fst ` set cs" by simp
    moreover have "fst c \<notin> fst ` set cs" using Cons.prems(3) by simp
    ultimately have "fst p \<noteq> fst c" by metis
    moreover have "jget ms (fst p) = Some (snd p)" using p Cons.prems by (auto simp: jget_iff_in)
    ultimately have "jget (jdel (fst c) ms) (fst p) = Some (snd p)" by simp
    then show "p \<in> set (jdel (fst c) ms)" by (metis jget_Some_in prod.collapse)
  qed
  have "jsize (jdel (fst c) ms) \<le> jsize ms" using Cons.prems(1) by (simp add: jsize_jdel)
  with Cons.IH [OF jwf_jdel [OF Cons.prems(1)] sub] Cons.prems c show ?case
    by (auto simp: jsum_jdel case_prod_unfold)
qed simp

lemma pruneCandidates_laws:
  assumes "jwf ms"
  shows "set (pruneCandidates h l ms) \<subseteq> {p \<in> set ms. md_expiresHeight (snd p) \<le> h}"
    and "distinct (map fst (pruneCandidates h l ms))"
proof -
  show "set (pruneCandidates h l ms) \<subseteq> {p \<in> set ms. md_expiresHeight (snd p) \<le> h}"
    using set_take_subset [of "nat l"] by (fastforce simp: pruneCandidates_def)
  have "distinct (map fst (sort_key (\<lambda>(i, m). (md_expiresHeight m, i)) (filter (\<lambda>(i, m). md_expiresHeight m \<le> h) ms)))"
  proof -
    let ?f = "filter (\<lambda>(i, m). md_expiresHeight m \<le> h) ms"
    have "jwf ?f" using assms by (rule jwf_filter)
    then have "inj_on fst (set ?f)" "distinct ?f" by (auto simp: jwf_def distinct_map)
    then show ?thesis by (simp add: distinct_map)
  qed
  then show "distinct (map fst (pruneCandidates h l ms))"
    by (simp add: pruneCandidates_def take_map [symmetric])
qed


lemma prune_Inr:
  assumes "pruneExpiredAgentMandatesState s a = Inr (ids, s')" and "mandates_inv s"
  shows "\<exists>h n limit cs b.
    pruneContext (pa_executionContext a) = Inr (h, n) \<and> safe_int (pa_limit a) = Some limit \<and>
    1 \<le> limit \<and> limit \<le> MAX_AGENT_MANDATE_PRUNE_BATCH \<and>
    cs = pruneCandidates h limit (ms_mandates s) \<and> ids = map fst cs \<and>
    b = fold (\<lambda>k m. jset k (jget_or 0 (ms_balances s) k + jget_or 0 (pruneRefunds cs) k) m)
          (map fst (pruneRefunds cs)) (ms_balances s) \<and>
    (\<forall>p \<in> set (pruneRefunds cs). jget_or 0 (ms_balances s) (fst p) + snd p \<le> MAX_ATOMIC_VALUE) \<and>
    s' = s\<lparr>ms_balances := b, ms_mandates := foldl (\<lambda>ms (i, m). jdel i ms) (ms_mandates s) cs\<rparr>"
  using assms(1) unfolding pruneExpiredAgentMandatesState_def Let_def
proof (simp only: bind_r_Inr_iff if_Inl_Inr_iff split_paired_Ex prod.case md_integer_Inr_iff
    sum.inject prod.inject, elim exE conjE, goal_cases)
  case (1 h n u limit v nx)
  let ?cs = "pruneCandidates h limit (ms_mandates s)"
  have "foldM (pruneOne (ms_balances s)) [] (pruneRefunds ?cs) = Inr nx" using 1 by simp
  from pruneOne_run [OF this pruneRefunds_laws(2)]
  have nx: "nx = map (\<lambda>p. (fst p, jget_or 0 (ms_balances s) (fst p) + snd p)) (pruneRefunds ?cs)"
    and cap: "\<forall>p \<in> set (pruneRefunds ?cs). jget_or 0 (ms_balances s) (fst p) + snd p \<le> MAX_ATOMIC_VALUE"
    by simp_all
  have "s' = s\<lparr>ms_balances := fold (\<lambda>k m. jset k (jget_or 0 (ms_balances s) k + jget_or 0 (pruneRefunds ?cs) k) m)
          (map fst (pruneRefunds ?cs)) (ms_balances s),
      ms_mandates := foldl (\<lambda>ms (i, m). jdel i ms) (ms_mandates s) ?cs\<rparr>"
    using 1 by (simp add: nx writeAll_refunds pruneRefunds_laws(2))
  moreover have "1 \<le> limit" "limit \<le> MAX_AGENT_MANDATE_PRUNE_BATCH" "ids = map fst ?cs" using 1 by auto
  ultimately show ?case using 1(2,4) cap by blast
qed

subsection \<open>Every operation keeps the invariant and the value\<close>

lemma mandate_step_create:
  assumes "mandates_inv s" and "createAgentMandateState cr s a = Inr (m, s')"
  shows "mandates_inv s' \<and> mandate_worth s' = mandate_worth s"
proof -
  from create_Inr [OF assms(2)] obtain f fee b where m: "mandate_fields_ok m (ca_mandateId a)" "mandate_limits_ok m"
    "jget (ms_mandates s) (ca_mandateId a) = None" "jsize (ms_mandates s) < MAX_AGENT_MANDATES_GLOBAL"
    "owned (md_owner m) (ms_mandates s) < int MAX_ACTIVE_AGENT_MANDATES_PER_OWNER"
    and st: "settleEscrow (uniq [md_owner m, f]) (createDeltas (md_owner m) f (md_balance m) fee)
      0 (md_balance m) (ms_balances s) = Inr b"
    and s': "s' = s\<lparr>ms_balances := b,
           ms_nonces := jset (md_owner m) (jget_or 0 (ms_nonces s) (md_owner m) + 1) (ms_nonces s),
           ms_mandates := jset (ca_mandateId a) m (ms_mandates s)\<rparr>" by blast
  have "in_range b" using settleEscrow_effect(3) [OF st] assms(1) by (simp add: mandates_inv_def)
  then have "mandates_inv s'" unfolding s' using m assms(1) by (intro mandates_inv_jset) simp_all
  moreover have "mandate_worth s' = mandate_worth s"
    using settleEscrow_effect(1) [OF st] m(3) by (simp add: mandate_worth_def s' jsum_jset)
  ultimately show ?thesis ..
qed

lemma mandate_step_spend:
  assumes "mandates_inv s" and "applyAgentMandateTransferState cr s a = Inr (m, s')"
  shows "mandates_inv s' \<and> mandate_worth s' = mandate_worth s"
proof -
  from spend_Inr [OF assms(2)] obtain c h f payee amount fee b
    where c: "jget (ms_mandates s) (sa_mandateId a) = Some c" "mandate_fields_ok c (sa_mandateId a)"
      "mandate_limits_ok c" and lim: "within_limits c h payee amount fee"
    and st: "settleEscrow (uniq [payee, f]) (spendDeltas payee f amount fee) (md_balance c)
      (md_balance c - amount - fee) (ms_balances s) = Inr b" and m: "m = spent c amount fee"
    and s': "s' = s\<lparr>ms_balances := b,
      ms_nonces := jset (md_agent c) (jget_or 0 (ms_nonces s) (md_agent c) + 1) (ms_nonces s),
      ms_mandates := jset (sa_mandateId a) m (ms_mandates s)\<rparr>" by blast
  have "in_range b" using settleEscrow_effect(3) [OF st] assms(1) by (simp add: mandates_inv_def)
  then have "mandates_inv s'" unfolding s' m using assms(1) c(1) spent_ok [OF c(2,3) lim]
    by (intro mandates_inv_jset) simp_all
  moreover have "mandate_worth s' = mandate_worth s"
    using settleEscrow_effect(1) [OF st] c(1) by (simp add: mandate_worth_def s' m jsum_jset spent_def)
  ultimately show ?thesis ..
qed

lemma mandate_step_close:
  assumes "mandates_inv s" and "closeAgentMandateState cr s a = Inr (r, s')"
  shows "mandates_inv s' \<and> mandate_worth s' = mandate_worth s"
proof -
  from close_Inr [OF assms(2)] obtain c f fee b
    where c: "jget (ms_mandates s) (la_mandateId a) = Some c"
    and st: "settleEscrow (uniq [md_owner c, f]) (closeDeltas (md_owner c) f (md_balance c) fee) (md_balance c) 0
      (ms_balances s) = Inr b"
    and s': "s' = s\<lparr>ms_balances := b,
      ms_nonces := jset (md_owner c) (jget_or 0 (ms_nonces s) (md_owner c) + 1) (ms_nonces s),
      ms_mandates := jdel (la_mandateId a) (ms_mandates s)\<rparr>" by blast
  have "in_range b" using settleEscrow_effect(3) [OF st] assms(1) by (simp add: mandates_inv_def)
  then have "mandates_inv s'" unfolding s' using assms(1) by (intro mandates_inv_jdel)
  moreover have "jwf (ms_mandates s)" using assms(1) by (simp add: mandates_inv_def)
  then have "mandate_worth s' = mandate_worth s"
    using settleEscrow_effect(1) [OF st] c by (simp add: mandate_worth_def s' jsum_jdel)
  ultimately show ?thesis ..
qed

lemma mandate_step_prune:
  assumes "mandates_inv s" and "pruneExpiredAgentMandatesState s a = Inr (ids, s')"
  shows "mandates_inv s' \<and> mandate_worth s' = mandate_worth s"
proof -
  from prune_Inr [OF assms(2,1)] obtain h limit cs b where cs: "cs = pruneCandidates h limit (ms_mandates s)"
    and b: "b = fold (\<lambda>k m. jset k (jget_or 0 (ms_balances s) k + jget_or 0 (pruneRefunds cs) k) m)
          (map fst (pruneRefunds cs)) (ms_balances s)"
    and cap: "\<forall>p \<in> set (pruneRefunds cs). jget_or 0 (ms_balances s) (fst p) + snd p \<le> MAX_ATOMIC_VALUE"
    and s': "s' = s\<lparr>ms_balances := b, ms_mandates := foldl (\<lambda>ms (i, m). jdel i ms) (ms_mandates s) cs\<rparr>" by blast
  have wf: "jwf (ms_mandates s)" and valid: "\<forall>i m. jget (ms_mandates s) i = Some m \<longrightarrow> mandate_fields_ok m i"
    and range: "in_range (ms_balances s)" using assms(1) by (auto simp: mandates_inv_def)
  have sub: "set cs \<subseteq> set (ms_mandates s)" "distinct (map fst cs)"
    using pruneCandidates_laws [OF wf, of h limit] by (auto simp: cs)
  note del = jdel_fold_acc [OF wf sub]
  let ?ms = "foldl (\<lambda>ms (i, m). jdel i ms) (ms_mandates s) cs"
  have dist: "distinct (map fst (pruneRefunds cs))" using pruneRefunds_laws(2) [of cs] by (simp add: jwf_def)
  have get: "jget_or 0 b a = jget_or 0 (ms_balances s) a +
      (if a \<in> set (map fst (pruneRefunds cs)) then jget_or 0 (pruneRefunds cs) a else 0)" for a
    unfolding b using dist by (simp add: amounts.get_fold_put)
  have nonneg: "0 \<le> jget_or 0 (pruneRefunds cs) a" for a
    using sub(1) valid wf unfolding pruneRefunds_laws(3)
    by (intro sum_list_nonneg) (auto simp: mandate_fields_ok_def jget_iff_in split: if_splits)
  have "in_range b"
    unfolding in_range_def
  proof
    fix a
    show "0 \<le> jget_or 0 b a \<and> jget_or 0 b a \<le> MAX_ATOMIC_VALUE"
    proof (cases "a \<in> set (map fst (pruneRefunds cs))")
      case True
      then obtain p where p: "p \<in> set (pruneRefunds cs)" "a = fst p" by auto
      then have "jget_or 0 (pruneRefunds cs) a = snd p" using jget_or_entry [OF pruneRefunds_laws(2)] by simp
      with p cap nonneg [of a] range True show ?thesis by (simp add: get in_range_def)
    next
      case False
      with range show ?thesis by (simp add: get in_range_def)
    qed
  qed
  moreover have "owned owner ?ms \<le> owned owner (ms_mandates s)" for owner
    unfolding owned_def using del by (auto intro!: sum_list_nonneg)
  ultimately have "mandates_inv s'" using assms(1) del
    by (simp add: mandates_inv_def s') (meson order_trans)
  moreover have "jtotal b = jtotal (ms_balances s) + (\<Sum>a \<leftarrow> map fst (pruneRefunds cs). jget_or 0 (pruneRefunds cs) a)"
    unfolding b by (rule amounts.total_fold_deltas [OF dist]) simp
  then have "jtotal b = jtotal (ms_balances s) + jtotal (pruneRefunds cs)"
    using sum_jget_or_cover [OF pruneRefunds_laws(2) _ dist] by (simp add: jkeys_def)
  then have "mandate_worth s' = mandate_worth s"
    using del [of md_balance] by (simp add: mandate_worth_def s' pruneRefunds_laws(1))
  ultimately show ?thesis ..
qed


lemma mandate_step_keeps:
  assumes "mandates_inv s" and "mandate_step cr s op = Inr s'"
  shows "mandates_inv s' \<and> mandate_worth s' = mandate_worth s"
proof (cases op)
  case (Md_create a)
  with assms(2) obtain x where "createAgentMandateState cr s a = Inr (x, s')" by (auto simp: bind_r_Inr_iff)
  with assms(1) show ?thesis by (rule mandate_step_create)
next
  case (Md_spend a)
  with assms(2) obtain x where "applyAgentMandateTransferState cr s a = Inr (x, s')" by (auto simp: bind_r_Inr_iff)
  with assms(1) show ?thesis by (rule mandate_step_spend)
next
  case (Md_close a)
  with assms(2) obtain x where "closeAgentMandateState cr s a = Inr (x, s')" by (auto simp: bind_r_Inr_iff)
  with assms(1) show ?thesis by (rule mandate_step_close)
next
  case (Md_prune a)
  with assms(2) obtain x where "pruneExpiredAgentMandatesState s a = Inr (x, s')" by (auto simp: bind_r_Inr_iff)
  with assms(1) show ?thesis by (rule mandate_step_prune)
qed

interpretation mandates: conserving_machine "mandate_step cr" mandates_inv mandate_worth
  by unfold_locales (auto dest: mandate_step_keeps)

lemma mandate_accounts:
  "mandate_fields_ok m i \<Longrightarrow> mandate_limits_ok m \<Longrightarrow>
   md_balance m + md_totalSpent m + md_totalFees m = md_initialEscrow m \<and>
   md_totalSpent m \<le> md_totalLimit m \<and> md_totalFees m \<le> md_totalFeeLimit m \<and> 0 \<le> md_balance m"
  by (simp add: mandate_fields_ok_def mandate_limits_ok_def)

section \<open>Properties\<close>

text \<open>
  C21: whatever calls of the module succeed, in whatever order: no NIR is made or lost between the
  balances and the escrows, balances stay in range, every stored mandate stays within its limits
  (spent and remaining escrow add up to the initial escrow, spending below the two totals), and no
  more than 4096 mandates, and 64 of one owner, exist.
\<close>

theorem mandate_runs_conserve:
  assumes "mandates_inv s" and "foldM (mandate_step cr) s ops = Inr s'"
  shows "mandate_worth s' = mandate_worth s \<and> in_range (ms_balances s') \<and>
    jsize (ms_mandates s') \<le> MAX_AGENT_MANDATES_GLOBAL \<and>
    (\<forall>owner. owned owner (ms_mandates s') \<le> int MAX_ACTIVE_AGENT_MANDATES_PER_OWNER) \<and>
    (\<forall>i m. jget (ms_mandates s') i = Some m \<longrightarrow>
       md_balance m + md_totalSpent m + md_totalFees m = md_initialEscrow m \<and>
       md_totalSpent m \<le> md_totalLimit m \<and> md_totalFees m \<le> md_totalFeeLimit m \<and> 0 \<le> md_balance m)"
proof -
  have "mandates_inv s'" by (rule mandates.run_inv [OF assms])
  moreover have "mandate_worth s' = mandate_worth s" by (rule mandates.run_worth [OF assms])
  ultimately show ?thesis unfolding mandates_inv_def using mandate_accounts by blast
qed

text \<open>
  C35: an accepted payment of an agent is of a stored, unexpired mandate, authorized by its agent
  for exactly this amount, fee, payee and nonce, to an allowed payee and within every limit; it
  pays the payee and the fee recipient out of the escrow alone: no account loses anything, and no
  other mandate changes.
\<close>

theorem mandate_payment_within_limits:
  assumes "applyAgentMandateTransferState cr s a = Inr (m, s')"
  shows "\<exists>c h f payee amount fee digest.
    jget (ms_mandates s) (sa_mandateId a) = Some c \<and> sa_payee a = JStr payee \<and>
    md_context (sa_executionContext a) = Inr (h, f, md_networkId c) \<and>
    within_limits c h payee amount fee \<and>
    hashObject cr (transferDigestObject amount fee (sa_mandateId a) (md_networkId c) (sa_nonce a) payee)
      ''AGENT_MANDATE_TRANSFER'' = Inr digest \<and>
    authorization (sa_authorization a) (md_agent c) digest ''agent'' = Inr () \<and>
    safe_int (sa_nonce a) = Some (jget_or 0 (ms_nonces s) (md_agent c)) \<and>
    (\<forall>x. jget_or 0 (ms_balances s') x =
       jget_or 0 (ms_balances s) x + (if x = payee then amount else 0) + (if x = f then fee else 0)) \<and>
    (\<forall>i. jget (ms_mandates s') i =
       (if i = sa_mandateId a then Some (spent c amount fee) else jget (ms_mandates s) i)) \<and>
    (\<forall>x. jget_or 0 (ms_nonces s') x = jget_or 0 (ms_nonces s) x + (if x = md_agent c then 1 else 0))"
proof -
  from spend_Inr [OF assms] obtain c h f payee amount fee digest b
    where c: "jget (ms_mandates s) (sa_mandateId a) = Some c" "sa_payee a = JStr payee"
      "md_context (sa_executionContext a) = Inr (h, f, md_networkId c)" "within_limits c h payee amount fee"
      "safe_int (sa_nonce a) = Some (jget_or 0 (ms_nonces s) (md_agent c))"
    and digest: "md_digest cr ''AGENT_MANDATE_TRANSFER''
      (transferDigestObject amount fee (sa_mandateId a) (md_networkId c) (sa_nonce a) payee) = Inr digest"
      "authorization (sa_authorization a) (md_agent c) digest ''agent'' = Inr ()"
    and st: "settleEscrow (uniq [payee, f]) (spendDeltas payee f amount fee) (md_balance c)
      (md_balance c - amount - fee) (ms_balances s) = Inr b" and m: "m = spent c amount fee"
    and s': "s' = s\<lparr>ms_balances := b,
      ms_nonces := jset (md_agent c) (jget_or 0 (ms_nonces s) (md_agent c) + 1) (ms_nonces s),
      ms_mandates := jset (sa_mandateId a) m (ms_mandates s)\<rparr>" by blast
  have "jget_or 0 b x = jget_or 0 (ms_balances s) x + (if x = payee then amount else 0) + (if x = f then fee else 0)" for x
    using settleEscrow_effect(2) [OF st, of x] by (simp add: spendDeltas_get)
  with c digest show ?thesis
    by (intro exI [of _ c] exI [of _ h] exI [of _ f] exI [of _ payee] exI [of _ amount] exI [of _ fee]
        exI [of _ digest]) (simp add: s' m md_digest_def map_err_Inr_iff)
qed

text \<open>
  pruning removes expired mandates only, at most the batch, the ones that expired first
  (by identifier at one height), and pays every owner exactly what its removed mandates held.
\<close>

theorem mandate_prune_refunds:
  assumes "mandates_inv s" and "pruneExpiredAgentMandatesState s a = Inr (ids, s')"
  shows "\<exists>h n limit removed.
    pruneContext (pa_executionContext a) = Inr (h, n) \<and> safe_int (pa_limit a) = Some limit \<and>
    ids = map fst removed \<and> int (length removed) \<le> limit \<and> limit \<le> MAX_AGENT_MANDATE_PRUNE_BATCH \<and>
    set removed \<subseteq> {(i, m). jget (ms_mandates s) i = Some m \<and> md_expiresHeight m \<le> h} \<and>
    sorted (map (\<lambda>(i, m). (md_expiresHeight m, i)) removed) \<and>
    (\<forall>i m. jget (ms_mandates s) i = Some m \<and> md_expiresHeight m \<le> h \<and> i \<notin> set ids \<longrightarrow>
       (\<forall>r \<in> set removed. (md_expiresHeight (snd r), fst r) \<le> (md_expiresHeight m, i))) \<and>
    (\<forall>i. jget (ms_mandates s') i = (if i \<in> set ids then None else jget (ms_mandates s) i)) \<and>
    (\<forall>x. jget_or 0 (ms_balances s') x = jget_or 0 (ms_balances s) x +
       (\<Sum>r \<leftarrow> removed. if md_owner (snd r) = x then md_balance (snd r) else 0))"
proof -
  from prune_Inr [OF assms(2,1)] obtain h n limit cs b
    where c: "pruneContext (pa_executionContext a) = Inr (h, n)" "safe_int (pa_limit a) = Some limit" "1 \<le> limit"
      "limit \<le> MAX_AGENT_MANDATE_PRUNE_BATCH" "ids = map fst cs" and cs: "cs = pruneCandidates h limit (ms_mandates s)"
    and b: "b = fold (\<lambda>k m. jset k (jget_or 0 (ms_balances s) k + jget_or 0 (pruneRefunds cs) k) m)
          (map fst (pruneRefunds cs)) (ms_balances s)"
    and s': "s' = s\<lparr>ms_balances := b, ms_mandates := foldl (\<lambda>ms (i, m). jdel i ms) (ms_mandates s) cs\<rparr>" by blast
  have wf: "jwf (ms_mandates s)" using assms(1) by (simp add: mandates_inv_def)
  note sub = pruneCandidates_laws [OF wf, of h limit, folded cs]
  have sub': "set cs \<subseteq> set (ms_mandates s)" using sub(1) by blast
  let ?key = "\<lambda>(i, m). (md_expiresHeight m, i)"
  let ?l = "sort_key ?key (filter (\<lambda>(i, m). md_expiresHeight m \<le> h) (ms_mandates s))"
  have take: "cs = take (nat limit) ?l" by (simp add: cs pruneCandidates_def)
  have sorted: "sorted (map ?key (cs @ drop (nat limit) ?l))" unfolding take by simp
  then have "sorted (map ?key cs)" by (simp add: sorted_append)
  moreover have "(md_expiresHeight (snd r), fst r) \<le> (md_expiresHeight m, i)"
    if "jget (ms_mandates s) i = Some m" "md_expiresHeight m \<le> h" "i \<notin> set ids" "r \<in> set cs" for i m r
  proof -
    from that have "(i, m) \<in> set ?l" using wf by (auto simp: jget_iff_in)
    moreover have "(i, m) \<notin> set cs" using that(3) c(5) by (metis fst_conv image_eqI list.set_map)
    ultimately have "(i, m) \<in> set (drop (nat limit) ?l)"
      unfolding take by (metis (no_types, lifting) Un_iff append_take_drop_id set_append)
    with sorted that(4) show ?thesis by (force simp: sorted_append case_prod_unfold)
  qed
  moreover have "int (length cs) \<le> limit" using c(3) by (simp add: take)
  moreover have "set cs \<subseteq> {(i, m). jget (ms_mandates s) i = Some m \<and> md_expiresHeight m \<le> h}"
    using sub(1) wf by (auto simp: jget_iff_in)
  moreover have "jget (ms_mandates s') i = (if i \<in> set ids then None else jget (ms_mandates s) i)" for i
    using jdel_fold_acc [OF wf sub' sub(2), of _ i] by (simp add: s' c(5))
  moreover have "jget_or 0 (ms_balances s') x = jget_or 0 (ms_balances s) x +
       (\<Sum>r \<leftarrow> cs. if md_owner (snd r) = x then md_balance (snd r) else 0)" for x
  proof -
    have dist: "distinct (map fst (pruneRefunds cs))" using pruneRefunds_laws(2) [of cs] by (simp add: jwf_def)
    have "x \<notin> set (map fst (pruneRefunds cs)) \<Longrightarrow> jget_or 0 (pruneRefunds cs) x = 0"
      by (rule jget_or_None) (simp add: jhas_iff_keys jkeys_def)
    then show ?thesis
      unfolding s' b pruneRefunds_laws(3) [symmetric] using dist
      by (simp add: amounts.get_fold_put del: set_map)
  qed
  ultimately show ?thesis using c by blast
qed


section \<open>Witnesses\<close>

text \<open>
  A ledger with one mandate of \<open>nir1aaa...\<close> for the agent \<open>nir1bbb...\<close>, who may pay \<open>nir1ccc...\<close>
  until height 50; hashes are constant (\<open>demo_hash\<close>).
\<close>

abbreviation demo_id :: string where
  "demo_id \<equiv> replicate 64 CHR ''1''"

abbreviation demo_digest :: string where
  "demo_digest \<equiv> replicate 64 CHR ''d''"

definition demo_mandate :: agent_mandate where
  "demo_mandate = \<lparr>md_agent = demo_address CHR ''b'', md_allowedPayees = [demo_address CHR ''c''],
     md_balance = 90000, md_createdHeight = 1, md_expiresHeight = 50, md_initialEscrow = 100000,
     md_maxFee = 2000, md_maxPerTransfer = 8000, md_networkId = ''nir-devnet'',
     md_owner = demo_address CHR ''a'', md_policyHash = demo_digest, md_totalFeeLimit = 10000,
     md_totalFees = 2000, md_totalLimit = 80000, md_totalSpent = 8000\<rparr>"

definition demo_ms :: mandate_state where
  "demo_ms = \<lparr>ms_balances = demo_balances, ms_nonces = [], ms_mandates = [(demo_id, demo_mandate)]\<rparr>"

definition demo_context :: "int \<Rightarrow> jsval" where
  "demo_context h = JObj [(''currentHeight'', JNum h), (''feeRecipient'', JStr (demo_address CHR ''e'')),
     (''networkId'', JStr ''nir-devnet'')]"

definition demo_spend :: spend_args where
  "demo_spend = \<lparr>sa_amount = JStr ''5000'', sa_fee = JStr ''1000'', sa_executionContext = demo_context 49,
     sa_mandateId = demo_id, sa_nonce = JNum 0, sa_payee = JStr (demo_address CHR ''c''),
     sa_authorization = JObj [(''actor'', JStr (demo_address CHR ''b'')), (''digest'', JStr demo_digest)]\<rparr>"

definition demo_prune :: prune_args where
  "demo_prune = \<lparr>pa_executionContext = JObj [(''currentHeight'', JNum 50), (''networkId'', JStr ''nir-devnet'')],
     pa_limit = JNum 64\<rparr>"

lemma demo_mandate_ok: "mandate (Some demo_mandate) demo_id = Inr demo_mandate"
  by code_simp

lemma demo_ms_inv: "mandates_inv demo_ms"
proof -
  have "in_range demo_balances"
    by (simp add: in_range_def demo_balances_def jget_or_def jget_def MAX_ATOMIC_VALUE_def MAX_DECIMAL_DIGITS_def)
  moreover have "mandate_fields_ok demo_mandate demo_id \<and> mandate_limits_ok demo_mandate"
    using demo_mandate_ok by (simp only: mandate_Inr_iff)
  ultimately show ?thesis
    by (simp add: mandates_inv_def demo_ms_def jwf_def jget_def jsize_def owned_def jsum_def
        MAX_AGENT_MANDATES_GLOBAL_def MAX_ACTIVE_AGENT_MANDATES_PER_OWNER_def)
qed

lemma demo_spend_digest:
  "md_digest demo_crypto ''AGENT_MANDATE_TRANSFER''
     (transferDigestObject 5000 1000 demo_id ''nir-devnet'' (JNum 0) (demo_address CHR ''c'')) = Inr demo_digest"
proof -
  have "json_ok (transferDigestObject 5000 1000 demo_id ''nir-devnet'' (JNum 0) (demo_address CHR ''c''))"
    by code_simp
  moreover have "is_domain ''AGENT_MANDATE_TRANSFER''" by code_simp
  ultimately show ?thesis by (simp add: md_digest_def demo_hash)
qed

lemma demo_spend_run:
  "\<exists>s'. applyAgentMandateTransferState demo_crypto demo_ms demo_spend = Inr (spent demo_mandate 5000 1000, s')"
proof -
  have get: "jget (ms_mandates demo_ms) demo_id = Some demo_mandate"
    by (simp add: demo_ms_def jget_def)
  have ids: "sa_mandateId demo_spend = demo_id" by (simp add: demo_spend_def)
  have parts: "md_address (JStr (md_agent demo_mandate)) ''mandate agent'' = Inr (demo_address CHR ''b'')"
    "md_address (sa_payee demo_spend) ''payee'' = Inr (demo_address CHR ''c'')"
    "md_context (sa_executionContext demo_spend) = Inr (49, demo_address CHR ''e'', ''nir-devnet'')"
    "nonceMatches (ms_nonces demo_ms) (demo_address CHR ''b'') (JNum 0) ''agent'' = Inr 0"
    "md_network (JStr (md_networkId demo_mandate)) = Inr ''nir-devnet''"
    "md_atomic (sa_amount demo_spend) ''amount'' = Inr 5000" "md_atomic (sa_fee demo_spend) ''fee'' = Inr 1000"
    "authorization (sa_authorization demo_spend) (demo_address CHR ''b'') demo_digest ''agent'' = Inr ()"
    by code_simp+
  have reg: "\<exists>x. validateMandateRegistry (ms_mandates demo_ms) ''nir-devnet'' = Inr x"
  proof -
    have "(case validateMandateRegistry (ms_mandates demo_ms) ''nir-devnet'' of Inr _ \<Rightarrow> True | _ \<Rightarrow> False)" by code_simp
    then show ?thesis by (auto split: sum.splits)
  qed
  have st: "\<exists>b. settleEscrow (uniq [demo_address CHR ''c'', demo_address CHR ''e''])
      (spendDeltas (demo_address CHR ''c'') (demo_address CHR ''e'') 5000 1000) (md_balance demo_mandate)
      (md_balance demo_mandate - 5000 - 1000) (ms_balances demo_ms) = Inr b"
  proof -
    have "(case settleEscrow (uniq [demo_address CHR ''c'', demo_address CHR ''e''])
      (spendDeltas (demo_address CHR ''c'') (demo_address CHR ''e'') 5000 1000) (md_balance demo_mandate)
      (md_balance demo_mandate - 5000 - 1000) (ms_balances demo_ms) of Inr _ \<Rightarrow> True | _ \<Rightarrow> False)" by code_simp
    then show ?thesis by (auto split: sum.splits)
  qed
  have guards: "md_createdHeight demo_mandate = 1" "md_expiresHeight demo_mandate = 50"
    "md_allowedPayees demo_mandate = [demo_address CHR ''c'']" "md_maxPerTransfer demo_mandate = 8000"
    "md_totalSpent demo_mandate = 8000" "md_totalLimit demo_mandate = 80000" "md_maxFee demo_mandate = 2000"
    "md_totalFees demo_mandate = 2000" "md_totalFeeLimit demo_mandate = 10000" "md_balance demo_mandate = 90000"
    "sa_nonce demo_spend = JNum 0"
    by (simp_all add: demo_mandate_def demo_spend_def)
  from reg st show ?thesis
    unfolding applyAgentMandateTransferState_def
    by (auto simp: ids get demo_mandate_ok parts guards demo_spend_digest MIN_TRANSFER_FEE_def spent_def Let_def
        simp del: replicate.simps md_address.simps md_network.simps md_atomic.simps)
qed

theorem mandate_payment_within_limits_witness:
  "\<exists>s'. applyAgentMandateTransferState demo_crypto demo_ms demo_spend = Inr (spent demo_mandate 5000 1000, s') \<and>
     (\<exists>c h payee amount fee. jget (ms_mandates demo_ms) demo_id = Some c \<and> within_limits c h payee amount fee)"
proof -
  from demo_spend_run obtain s' where
    run: "applyAgentMandateTransferState demo_crypto demo_ms demo_spend = Inr (spent demo_mandate 5000 1000, s')" ..
  have "sa_mandateId demo_spend = demo_id" by (simp add: demo_spend_def)
  with mandate_payment_within_limits [OF run] run show ?thesis by metis
qed

lemma demo_prune_run:
  "\<exists>s'. pruneExpiredAgentMandatesState demo_ms demo_prune = Inr ([demo_id], s')"
proof -
  have "(case pruneExpiredAgentMandatesState demo_ms demo_prune of
      Inr (ids, s') \<Rightarrow> ids = [demo_id] | _ \<Rightarrow> False)" by code_simp
  then show ?thesis by (auto split: sum.splits)
qed

theorem mandate_prune_refunds_witness:
  "\<exists>s'. pruneExpiredAgentMandatesState demo_ms demo_prune = Inr ([demo_id], s') \<and> jget (ms_mandates s') demo_id = None"
proof -
  from demo_prune_run obtain s' where run: "pruneExpiredAgentMandatesState demo_ms demo_prune = Inr ([demo_id], s')" ..
  with mandate_prune_refunds [OF demo_ms_inv run] show ?thesis by auto
qed

theorem mandate_runs_conserve_witness:
  "\<exists>s'. foldM (mandate_step demo_crypto) demo_ms [Md_spend demo_spend] = Inr s' \<and>
     mandate_worth s' = mandate_worth demo_ms"
proof -
  from demo_spend_run obtain s' where
    "applyAgentMandateTransferState demo_crypto demo_ms demo_spend = Inr (spent demo_mandate 5000 1000, s')" ..
  then have run: "foldM (mandate_step demo_crypto) demo_ms [Md_spend demo_spend] = Inr s'" by simp
  with mandate_runs_conserve [OF demo_ms_inv run] show ?thesis by blast
qed

end
