(* ===== verification/Rewards.thy ===== *)
theory Rewards
  imports Ledger
begin

text \<open>
  How much progress is worth and how an epoch's budget is shared: \<open>computeProgressScore\<close>,
  \<open>allocateProgressRewards\<close> and \<open>assertProgressRewardCollateral\<close> of \<open>blockchain/chain.mjs\<close>.
\<close>

datatype reward_error =
    Rw_commitments_invalid
  | Rw_artifact_same
  | Rw_metric string
  | Rw_clearance_invalid
  | Rw_energy_invalid
  | Rw_no_progress
  | Rw_too_many
  | Rw_fingerprint_invalid
  | Rw_duplicate
  | Rw_amount amount_error
  | Rw_score_zero
  | Rw_recipient_invalid
  | Rw_schedule schedule_error
  | Rw_no_budget
  | Rw_collateral
  | Rw_amount_zero

section \<open>Scores\<close>

text \<open>\<open>/^sha256:[0-9a-f]{64}$/\<close>\<close>

definition is_content_hash :: "string \<Rightarrow> bool" where
  "is_content_hash s \<longleftrightarrow> take 7 s = ''sha256:'' \<and> is_hex64 (drop 7 s)"

definition assertMetric :: "jsval \<Rightarrow> string \<Rightarrow> int \<Rightarrow> int \<Rightarrow> reward_error + int" where
  "assertMetric v field minimum maximum =
     (case safe_int v of
        None \<Rightarrow> Inl (Rw_metric field)
      | Some n \<Rightarrow> if n < minimum \<or> n > maximum then Inl (Rw_metric field) else Inr n)"

text \<open>\<open>quality\<close> after the four factors, in basis points, each rounding down.\<close>

definition discount :: "int \<Rightarrow> int list \<Rightarrow> int" where
  "discount quality factors = foldl (\<lambda>q f. (q * f) div 10000) quality factors"

definition efficiency :: "int \<Rightarrow> int \<Rightarrow> int" where
  "efficiency baselineEnergyWh candidateEnergyWh =
     (let raw = (baselineEnergyWh * 10000) div candidateEnergyWh in
      if raw < 5000 then 5000 else if raw > 20000 then 20000 else raw)"

definition computeProgressScore :: "jsval \<Rightarrow> reward_error + int" where
  "computeProgressScore evaluation =
     (case evaluation of
        JObj e \<Rightarrow>
          if \<not> list_all (\<lambda>k. is_content_hash (coerced (fld e k)))
                 [''artifactHash'', ''baselineContentHash'', ''baselineHash'', ''contentHash''] \<or>
             \<not> list_all (\<lambda>k. is_hex64 (coerced (fld e k)))
                 [''candidateId'', ''executionBundleHash'', ''suiteCommitment'']
          then Inl Rw_commitments_invalid
          else if strict_eq (fld e ''artifactHash'') (fld e ''baselineHash'') then Inl Rw_artifact_same
          else bind_r (assertMetric (fld e ''gainPpm'') ''gain'' 1 1000000) (\<lambda>gain.
               bind_r (assertMetric (fld e ''generalityBps'') ''generality'' 0 10000) (\<lambda>generality.
               bind_r (assertMetric (fld e ''reproducibilityBps'') ''reproducibility'' 6667 10000) (\<lambda>reproducibility.
               bind_r (assertMetric (fld e ''safetyBps'') ''safety'' 8000 10000) (\<lambda>safety.
               if fld e ''criticalSafetyPass'' \<noteq> JBool True \<or> \<not> is_hex64 (coerced (fld e ''safetyPolicyHash''))
               then Inl Rw_clearance_invalid
               else bind_r (assertMetric (fld e ''noveltyBps'') ''novelty'' 0 10000) (\<lambda>novelty.
               case (safe_int (fld e ''candidateEnergyWh''), safe_int (fld e ''baselineEnergyWh'')) of
                 (Some candidate, Some baseline) \<Rightarrow>
                   if candidate \<le> 0 \<or> baseline \<le> 0 \<or> fld e ''energyAttested'' \<noteq> JBool True
                   then Inl Rw_energy_invalid
                   else let quality = discount gain [generality, reproducibility, safety, novelty];
                            score = (quality * efficiency baseline candidate) div 10000
                        in if score \<le> 0 then Inl Rw_no_progress else Inr score
               | _ \<Rightarrow> Inl Rw_energy_invalid)))))
      | _ \<Rightarrow> Inl Rw_commitments_invalid)"

section \<open>Sharing the budget\<close>

text \<open>
  A claim, less what it only carries along; \<open>pc_score\<close> is \<open>String(claim.score)\<close>. A reward is the
  claim, its score parsed, with its amount.
\<close>

record progress_claim =
  pc_fingerprint :: jsval
  pc_score :: string
  pc_recipient :: jsval

record progress_reward =
  rw_fingerprint :: string
  rw_score :: int
  rw_recipient :: string
  rw_amount :: int

definition normalizeClaim :: "progress_reward list \<Rightarrow> progress_claim \<Rightarrow> reward_error + progress_reward list" where
  "normalizeClaim seen claim =
     (case pc_fingerprint claim of
        JStr fingerprint \<Rightarrow>
          if \<not> is_hex64 fingerprint then Inl Rw_fingerprint_invalid
          else if fingerprint \<in> set (map rw_fingerprint seen) then Inl Rw_duplicate
          else bind_r (map_err Rw_amount (parseAtomic (JStr (pc_score claim)))) (\<lambda>score.
            if score = 0 then Inl Rw_score_zero
            else (case pc_recipient claim of
              JStr recipient \<Rightarrow>
                if \<not> is_address recipient then Inl Rw_recipient_invalid
                else Inr (seen @ [\<lparr>rw_fingerprint = fingerprint, rw_score = score, rw_recipient = recipient,
                                  rw_amount = 0\<rparr>])
            | _ \<Rightarrow> Inl Rw_recipient_invalid))
      | _ \<Rightarrow> Inl Rw_fingerprint_invalid)"

text \<open>\<open>for (let index = 0; remainder > 0n; index += 1, remainder -= 1n)\<close>\<close>

fun handOut :: "nat \<Rightarrow> nat \<Rightarrow> nat list \<Rightarrow> int list \<Rightarrow> int list" where
  "handOut 0 index rank allocations = allocations"
| "handOut (Suc remainder) index rank allocations =
     (let i = rank ! (index mod length rank) in
      handOut remainder (index + 1) rank (allocations[i := allocations ! i + 1]))"

definition rewardShares :: "int \<Rightarrow> progress_reward list \<Rightarrow> int list" where
  "rewardShares budget claims =
     (let totalScore = sum_list (map rw_score claims) in
      map (\<lambda>c. (budget * rw_score c) div totalScore) claims)"

definition rewardRank :: "progress_reward list \<Rightarrow> nat list" where
  "rewardRank claims =
     sort_key (\<lambda>i. (- rw_score (claims ! i), rw_fingerprint (claims ! i))) [0..<length claims]"

definition rewardAmounts :: "int \<Rightarrow> progress_reward list \<Rightarrow> int list" where
  "rewardAmounts budget claims =
     (let allocations = rewardShares budget claims in
      handOut (nat (budget - sum_list allocations)) 0 (rewardRank claims) allocations)"

definition allocateProgressRewards :: "int \<Rightarrow> progress_claim list \<Rightarrow> int \<Rightarrow> int \<Rightarrow>
    reward_error + progress_reward list" where
  "allocateProgressRewards epoch claims remaining initialReward =
     (if claims = [] then Inr []
      else if length claims > MAX_PROGRESS_REWARDS_PER_BLOCK then Inl Rw_too_many
      else bind_r (foldM normalizeClaim [] claims) (\<lambda>normalized.
           bind_r (map_err Rw_schedule (scheduledEpochBudget epoch initialReward)) (\<lambda>scheduled.
             let budget = (if scheduled < remaining then scheduled else remaining) in
             if budget = 0 then Inl Rw_no_budget
             else Inr (sort_key rw_fingerprint
               (map2 (\<lambda>c a. c\<lparr>rw_amount := a\<rparr>) normalized (rewardAmounts budget normalized))))))"

section \<open>Collateral\<close>

text \<open>A reward as the check reads it: the candidate it is for and its amount.\<close>

definition assertCollateral :: "(string, candidate_bond) jsmap \<Rightarrow> string \<times> jsval \<Rightarrow> reward_error + unit" where
  "assertCollateral bonds reward =
     bind_r (map_err Rw_amount (parseAtomic (snd reward))) (\<lambda>amount.
       case jget bonds (fst reward) of
         None \<Rightarrow> Inl Rw_collateral
       | Some b \<Rightarrow> if cb_purpose b \<noteq> ''progress'' \<or> \<not> cb_admissionBound b \<or> amount > cb_bond b
                    then Inl Rw_collateral else Inr ())"

definition assertProgressRewardCollateral :: "(string \<times> jsval) list \<Rightarrow> (string, candidate_bond) jsmap \<Rightarrow>
    reward_error + unit" where
  "assertProgressRewardCollateral rewards bonds = foldM (\<lambda>_. assertCollateral bonds) () rewards"

section \<open>Displaying amounts\<close>

definition padStart8 :: "string \<Rightarrow> string" where
  "padStart8 s = replicate (8 - length s) CHR ''0'' @ s"

text \<open>\<open>formatNir\<close>; a bigint divides towards zero.\<close>

definition formatNir :: "int \<Rightarrow> string" where
  "formatNir n =
     (if n < 0
      then dec_string (- ((- n) div ATOMIC_UNITS)) @ ''.'' @ padStart8 (dec_string (- ((- n) mod ATOMIC_UNITS)))
      else dec_string (n div ATOMIC_UNITS) @ ''.'' @ padStart8 (dec_string (n mod ATOMIC_UNITS))) @ '' NIR''"

definition padStart6 :: "string \<Rightarrow> string" where
  "padStart6 s = replicate (6 - length s) CHR ''0'' @ s"

definition formatFeePercent :: "string \<Rightarrow> string \<Rightarrow> reward_error + string" where
  "formatFeePercent amount fee =
     bind_r (map_err Rw_amount (parseAtomic (JStr amount))) (\<lambda>atomicAmount.
     bind_r (map_err Rw_amount (parseAtomic (JStr fee))) (\<lambda>atomicFee.
       if atomicAmount = 0 then Inl Rw_amount_zero
       else let scaled = (atomicFee * 100000000 + atomicAmount - 1) div atomicAmount in
         Inr (dec_string (scaled div 1000000) @ ''.'' @ padStart6 (dec_string (scaled mod 1000000)) @ ''%'')))"

record fee_quote =
  fq_amount :: string
  fq_percent :: string
  fq_requiresExplicitConfirmation :: bool

definition quoteTransferFee :: "string \<Rightarrow> string \<Rightarrow> reward_error + fee_quote" where
  "quoteTransferFee amount fee =
     bind_r (map_err Rw_amount (parseAtomic (JStr amount))) (\<lambda>atomicAmount.
     bind_r (map_err Rw_amount (parseAtomic (JStr fee))) (\<lambda>atomicFee.
       if atomicAmount = 0 then Inl Rw_amount_zero
       else bind_r (formatFeePercent (dec_string atomicAmount) (dec_string atomicFee)) (\<lambda>percent.
         Inr \<lparr>fq_amount = dec_string atomicFee, fq_percent = percent,
              fq_requiresExplicitConfirmation = (atomicFee * 10000 > atomicAmount * 10)\<rparr>)))"


section \<open>How the budget is shared\<close>

lemma length_handOut [simp]: "length (handOut r i rank al) = length al"
  by (induction r arbitrary: i al) (simp_all add: Let_def)

lemma handOut_nth:
  assumes "distinct rank" and "i + r \<le> length rank" and "set rank \<subseteq> {..<length al}" and "j < length al"
  shows "handOut r i rank al ! j = al ! j + (if j \<in> set (take r (drop i rank)) then 1 else 0)"
  using assms
proof (induction r arbitrary: i al)
  case (Suc r)
  have i: "i < length rank" "i mod length rank = i" using Suc.prems by simp_all
  then have d: "drop i rank = rank ! i # drop (Suc i) rank" by (simp add: Cons_nth_drop_Suc)
  then have "distinct (rank ! i # drop (Suc i) rank)" using Suc.prems(1) distinct_drop by metis
  then have "rank ! i \<notin> set (take r (drop (Suc i) rank))" by (auto dest: in_set_takeD)
  moreover have "rank ! i < length al" using Suc.prems(3) i nth_mem by blast
  moreover have "handOut r (Suc i) rank (al[rank ! i := al ! (rank ! i) + 1]) ! j =
      al[rank ! i := al ! (rank ! i) + 1] ! j + (if j \<in> set (take r (drop (Suc i) rank)) then 1 else 0)"
    using Suc by simp
  ultimately show ?case by (auto simp: Let_def i d nth_list_update)
qed simp

lemma sum_handOut:
  assumes "rank \<noteq> []" and "set rank \<subseteq> {..<length al}"
  shows "sum_list (handOut r i rank al) = sum_list al + int r"
  using assms(2)
proof (induction r arbitrary: i al)
  case (Suc r)
  have "rank ! (i mod length rank) \<in> set rank" using assms(1) by simp
  then have lt: "rank ! (i mod length rank) < length al" using Suc.prems by auto
  have "sum_list (al[k := al ! k + 1]) = sum_list al + 1" if "k < length al" for k
    using that by (induction al arbitrary: k) (auto simp: nth_Cons split: nat.splits)
  with Suc lt show ?case by (simp add: Let_def)
qed simp

lemma rewardRank_laws:
  "set (rewardRank cs) = {..<length cs}" "distinct (rewardRank cs)" "length (rewardRank cs) = length cs"
  by (auto simp: rewardRank_def)

text \<open>The shares round down, so less than one unit per claim is left over.\<close>

lemma total_positive: "cs \<noteq> [] \<Longrightarrow> \<forall>c \<in> set cs. 0 < rw_score c \<Longrightarrow> 0 < sum_list (map rw_score cs)"
proof (induction cs)
  case (Cons c cs)
  then show ?case by (cases cs) auto
qed simp

lemma shares_remainder:
  assumes "cs \<noteq> []" and "\<forall>c \<in> set cs. 0 < rw_score c"
  shows "0 \<le> budget - sum_list (rewardShares budget cs) \<and>
    budget - sum_list (rewardShares budget cs) < int (length cs)"
proof -
  let ?t = "sum_list (map rw_score cs)"
  let ?rest = "\<Sum>c \<leftarrow> cs. (budget * rw_score c) mod ?t"
  have t: "0 < ?t" by (rule total_positive [OF assms])
  have "(\<Sum>c \<leftarrow> cs. budget * rw_score c) =
      (\<Sum>c \<leftarrow> cs. ?t * ((budget * rw_score c) div ?t) + (budget * rw_score c) mod ?t)"
    by (simp only: mult_div_mod_eq)
  also have "\<dots> = ?t * (\<Sum>c \<leftarrow> cs. (budget * rw_score c) div ?t) + ?rest"
    by (simp only: sum_list_addf sum_list_const_mult)
  finally have "budget * ?t = ?t * sum_list (rewardShares budget cs) + ?rest"
    by (simp only: rewardShares_def Let_def sum_list_const_mult)
  then have eq: "?t * (budget - sum_list (rewardShares budget cs)) = ?rest" by (simp add: algebra_simps)
  have "0 \<le> ?rest" using t by (intro sum_list_nonneg) auto
  moreover have "?rest < int (length cs) * ?t"
  proof -
    have "(\<Sum>c \<leftarrow> xs. (budget * rw_score c) mod ?t) \<le> int (length xs) * (?t - 1)" for xs
    proof (induction xs)
      case (Cons x xs)
      have "(budget * rw_score x) mod ?t \<le> ?t - 1" using pos_mod_bound [OF t] by simp
      with Cons show ?case by (simp add: algebra_simps)
    qed simp
    from this [of cs] show ?thesis using t assms(1) by (simp add: algebra_simps) (smt (verit) length_greater_0_conv of_nat_0_less_iff)
  qed
  ultimately have "0 \<le> ?t * (budget - sum_list (rewardShares budget cs))"
    and "?t * (budget - sum_list (rewardShares budget cs)) < ?t * int (length cs)"
    by (simp_all add: eq mult.commute)
  with t show ?thesis by (simp add: zero_le_mult_iff)
qed

lemma rewardAmounts_nth:
  assumes "cs \<noteq> []" and "\<forall>c \<in> set cs. 0 < rw_score c" and "j < length cs"
  shows "rewardAmounts budget cs ! j = rewardShares budget cs ! j +
    (if j \<in> set (take (nat (budget - sum_list (rewardShares budget cs))) (rewardRank cs)) then 1 else 0)"
proof -
  have "length (rewardShares budget cs) = length cs" by (simp add: rewardShares_def Let_def)
  moreover have "nat (budget - sum_list (rewardShares budget cs)) \<le> length cs"
    using shares_remainder [OF assms(1,2), of budget] by linarith
  ultimately show ?thesis
    unfolding rewardAmounts_def Let_def using assms(3)
    by (subst handOut_nth) (simp_all add: rewardRank_laws)
qed

lemma sum_rewardAmounts:
  assumes "cs \<noteq> []" and "\<forall>c \<in> set cs. 0 < rw_score c"
  shows "sum_list (rewardAmounts budget cs) = budget"
proof -
  have "length (rewardShares budget cs) = length cs" by (simp add: rewardShares_def Let_def)
  moreover have "rewardRank cs \<noteq> []" using assms(1) rewardRank_laws(3) [of cs] by auto
  ultimately show ?thesis
    unfolding rewardAmounts_def Let_def using shares_remainder [OF assms, of budget]
    by (subst sum_handOut) (simp_all add: rewardRank_laws)
qed

lemma length_rewardAmounts [simp]: "length (rewardAmounts budget cs) = length cs"
  by (simp add: rewardAmounts_def rewardShares_def Let_def)

text \<open>A prefix of the ranking is closed under higher scores.\<close>

lemma rank_prefix:
  assumes "i < length cs" and "j \<in> set (take n (rewardRank cs))" and "rw_score (cs ! j) < rw_score (cs ! i)"
  shows "i \<in> set (take n (rewardRank cs))"
proof (rule ccontr)
  let ?key = "\<lambda>i. (- rw_score (cs ! i), rw_fingerprint (cs ! i))"
  assume "i \<notin> set (take n (rewardRank cs))"
  moreover have "i \<in> set (rewardRank cs)" using assms(1) by (simp add: rewardRank_laws)
  ultimately have "i \<in> set (drop n (rewardRank cs))" by (metis Un_iff append_take_drop_id set_append)
  moreover have "sorted (map ?key (take n (rewardRank cs)) @ map ?key (drop n (rewardRank cs)))"
    by (simp only: map_append [symmetric] append_take_drop_id) (simp add: rewardRank_def)
  then have "\<forall>x \<in> set (take n (rewardRank cs)). \<forall>y \<in> set (drop n (rewardRank cs)). ?key x \<le> ?key y"
    by (simp only: sorted_append set_map ball_simps) blast
  ultimately have "?key j \<le> ?key i" using assms(2) by blast
  with assms(3) show False by auto
qed

lemma rewardAmounts_mono:
  assumes "\<forall>c \<in> set cs. 0 < rw_score c" and "i < length cs" and "j < length cs" and "0 \<le> budget"
    and "rw_score (cs ! j) < rw_score (cs ! i)"
  shows "rewardAmounts budget cs ! j \<le> rewardAmounts budget cs ! i"
proof -
  have ne: "cs \<noteq> []" using assms(2) by auto
  have t: "0 < sum_list (map rw_score cs)" by (rule total_positive [OF ne assms(1)])
  have "rewardShares budget cs ! j \<le> rewardShares budget cs ! i"
    using assms t by (auto simp: rewardShares_def Let_def intro!: zdiv_mono1 mult_left_mono)
  then show ?thesis
    using rank_prefix [OF assms(2) _ assms(5)]
    by (auto simp: rewardAmounts_nth [OF ne assms(1,2)] rewardAmounts_nth [OF ne assms(1,3)])
qed


lemma normalizeClaim_Inr:
  assumes "normalizeClaim seen c = Inr out"
  shows "\<exists>r. out = seen @ [r] \<and> rw_fingerprint r \<notin> set (map rw_fingerprint seen) \<and>
    pc_fingerprint c = JStr (rw_fingerprint r) \<and> pc_recipient c = JStr (rw_recipient r) \<and> 0 < rw_score r"
proof -
  from assms obtain f where f: "pc_fingerprint c = JStr f" by (cases "pc_fingerprint c") (auto simp: normalizeClaim_def)
  with assms obtain score where sc: "parseAtomic (JStr (pc_score c)) = Inr score" "score \<noteq> 0"
    and fresh: "f \<notin> set (map rw_fingerprint seen)"
    and rest: "(case pc_recipient c of
              JStr recipient \<Rightarrow>
                if \<not> is_address recipient then Inl Rw_recipient_invalid
                else Inr (seen @ [\<lparr>rw_fingerprint = f, rw_score = score, rw_recipient = recipient,
                                  rw_amount = 0\<rparr>])
            | _ \<Rightarrow> Inl Rw_recipient_invalid) = Inr out"
    by (auto simp: normalizeClaim_def bind_r_Inr_iff map_err_Inr_iff if_Inl_Inr_iff simp del: parseAtomic.simps)
  from rest obtain r where r: "pc_recipient c = JStr r" by (cases "pc_recipient c") simp_all
  moreover have "0 < score" using sc parseAtomic_nonneg [OF sc(1)] by simp
  ultimately show ?thesis using f fresh rest by (auto split: if_splits)
qed

lemma normalizeClaims_Inr:
  assumes "foldM normalizeClaim seen claims = Inr out" and "distinct (map rw_fingerprint seen)"
    and "\<forall>r \<in> set seen. 0 < rw_score r"
  shows "distinct (map rw_fingerprint out) \<and> (\<forall>r \<in> set out. 0 < rw_score r) \<and>
    map (\<lambda>c. (pc_fingerprint c, pc_recipient c)) claims =
      map (\<lambda>r. (JStr (rw_fingerprint r), JStr (rw_recipient r))) (drop (length seen) out) \<and>
    take (length seen) out = seen"
  using assms
proof (induction claims arbitrary: seen)
  case (Cons c cs)
  from Cons.prems(1) obtain mid where mid: "normalizeClaim seen c = Inr mid" and rest: "foldM normalizeClaim mid cs = Inr out"
    by (auto simp: bind_r_Inr_iff)
  from normalizeClaim_Inr [OF mid] obtain r where r: "mid = seen @ [r]" "rw_fingerprint r \<notin> set (map rw_fingerprint seen)"
    "pc_fingerprint c = JStr (rw_fingerprint r)" "pc_recipient c = JStr (rw_recipient r)" "0 < rw_score r" by blast
  with Cons.prems have "distinct (map rw_fingerprint mid)" "\<forall>r \<in> set mid. 0 < rw_score r" by auto
  note IH = Cons.IH [OF rest this]
  then have "take (Suc (length seen)) out = seen @ [r]" by (simp add: r(1))
  then have eq: "out = seen @ r # drop (Suc (length seen)) out"
    by (metis append_take_drop_id append.assoc append_Cons append_Nil)
  have "take (length seen) out = seen" using arg_cong [OF eq, of "take (length seen)"] by simp
  moreover have "drop (length seen) out = r # drop (Suc (length seen)) out"
    using arg_cong [OF eq, of "drop (length seen)"] by simp
  moreover note IH r
  ultimately show ?case by simp
qed simp

text \<open>What the rewards are, when there are any.\<close>

lemma allocate_Inr:
  assumes "allocateProgressRewards epoch claims remaining initialReward = Inr rewards" and "claims \<noteq> []"
  shows "\<exists>cs scheduled budget. foldM normalizeClaim [] claims = Inr cs \<and>
    scheduledEpochBudget epoch initialReward = Inr scheduled \<and> budget = min scheduled remaining \<and> budget \<noteq> 0 \<and>
    rewards = sort_key rw_fingerprint (map2 (\<lambda>c a. c\<lparr>rw_amount := a\<rparr>) cs (rewardAmounts budget cs))"
proof -
  from assms obtain cs scheduled where "foldM normalizeClaim [] claims = Inr cs"
    and "scheduledEpochBudget epoch initialReward = Inr scheduled"
    and fin: "(let budget = (if scheduled < remaining then scheduled else remaining) in
             if budget = 0 then Inl Rw_no_budget
             else Inr (sort_key rw_fingerprint
               (map2 (\<lambda>c a. c\<lparr>rw_amount := a\<rparr>) cs (rewardAmounts budget cs)))) = Inr rewards"
    unfolding allocateProgressRewards_def
    by (simp only: assms(2) if_False if_Inl_Inr_iff bind_r_Inr_iff map_err_Inr_iff) blast
  moreover have "(if scheduled < remaining then scheduled else remaining) = min scheduled remaining" by simp
  then have "min scheduled remaining \<noteq> 0 \<and> rewards = sort_key rw_fingerprint
      (map2 (\<lambda>c a. c\<lparr>rw_amount := a\<rparr>) cs (rewardAmounts (min scheduled remaining) cs))"
    using fin by (simp only: Let_def if_Inl_Inr_iff sum.inject) simp
  ultimately show ?thesis by blast
qed

section \<open>Properties\<close>

text \<open>
  the rewards of an epoch share its budget exactly: the amounts add up to the lesser of the
  scheduled budget and what remains of the pool, every claim is rewarded once, to its recipient,
  in order of the fingerprints; an amount is its exact share, rounded down or up, and a claim with
  a higher score never gets less.
\<close>

theorem progress_rewards_split:
  assumes "allocateProgressRewards epoch claims remaining initialReward = Inr rewards"
    and "claims \<noteq> []" and "0 \<le> remaining"
  shows "\<exists>scheduled budget. scheduledEpochBudget epoch initialReward = Inr scheduled \<and>
    budget = min scheduled remaining \<and> 0 < budget \<and> sum_list (map rw_amount rewards) = budget \<and>
    mset (map (\<lambda>r. (JStr (rw_fingerprint r), JStr (rw_recipient r))) rewards) =
      mset (map (\<lambda>c. (pc_fingerprint c, pc_recipient c)) claims) \<and>
    sorted (map rw_fingerprint rewards) \<and> distinct (map rw_fingerprint rewards) \<and>
    (\<forall>r \<in> set rewards. let share = (budget * rw_score r) div sum_list (map rw_score rewards) in
       rw_amount r = share \<or> rw_amount r = share + 1) \<and>
    (\<forall>r \<in> set rewards. \<forall>r' \<in> set rewards. rw_score r' < rw_score r \<longrightarrow> rw_amount r' \<le> rw_amount r)"
proof -
  from allocate_Inr [OF assms(1,2)] obtain cs scheduled budget where
    cs: "foldM normalizeClaim [] claims = Inr cs" and sch: "scheduledEpochBudget epoch initialReward = Inr scheduled"
    and b: "budget = min scheduled remaining" "budget \<noteq> 0"
    and rw: "rewards = sort_key rw_fingerprint (map2 (\<lambda>c a. c\<lparr>rw_amount := a\<rparr>) cs (rewardAmounts budget cs))" by blast
  let ?paid = "map2 (\<lambda>c a. c\<lparr>rw_amount := a\<rparr>) cs (rewardAmounts budget cs)"
  from normalizeClaims_Inr [OF cs]
  have dist: "distinct (map rw_fingerprint cs)" and pos: "\<forall>c \<in> set cs. 0 < rw_score c"
    and same: "map (\<lambda>c. (pc_fingerprint c, pc_recipient c)) claims =
      map (\<lambda>r. (JStr (rw_fingerprint r), JStr (rw_recipient r))) cs" by simp_all
  have ne: "cs \<noteq> []" using same assms(2) by auto
  have "0 < budget" using b assms(3) scheduledEpochBudget_bounds [OF sch] by auto
  have nth: "?paid ! i = (cs ! i)\<lparr>rw_amount := rewardAmounts budget cs ! i\<rparr>" if "i < length cs" for i
    using that by simp
  have fields: "map rw_fingerprint ?paid = map rw_fingerprint cs" "map rw_score ?paid = map rw_score cs"
    "map rw_amount ?paid = rewardAmounts budget cs"
    "map (\<lambda>r. (JStr (rw_fingerprint r), JStr (rw_recipient r))) ?paid =
     map (\<lambda>r. (JStr (rw_fingerprint r), JStr (rw_recipient r))) cs"
    by (rule nth_equalityI; simp)+
  have perm: "mset (map f rewards) = mset (map f ?paid)" for f :: "progress_reward \<Rightarrow> 'x"
    using arg_cong [OF mset_sort, of "image_mset f" rw_fingerprint ?paid] by (simp only: rw mset_map)
  have total: "sum_list (map f rewards) = sum_list (map f ?paid)" for f :: "progress_reward \<Rightarrow> int"
    using perm [of f] by (metis sum_mset_sum_list)
  have in_paid: "\<exists>i < length cs. r = ?paid ! i" if "r \<in> set rewards" for r
  proof -
    from that have "r \<in> set ?paid" by (simp only: rw set_sort)
    then show ?thesis by (metis (no_types, lifting) in_set_conv_nth length_map length_rewardAmounts length_zip min.idem)
  qed
  have "sum_list (map rw_amount rewards) = budget"
    using sum_rewardAmounts [OF ne pos] by (simp only: total fields)
  moreover have "mset (map (\<lambda>r. (JStr (rw_fingerprint r), JStr (rw_recipient r))) rewards) =
      mset (map (\<lambda>c. (pc_fingerprint c, pc_recipient c)) claims)"
    by (simp only: perm fields same)
  moreover have "sorted (map rw_fingerprint rewards)" by (simp add: rw)
  moreover have "distinct (map rw_fingerprint rewards)"
    using dist perm [of rw_fingerprint] fields(1) by (metis mset_eq_imp_distinct_iff)
  moreover have "let share = (budget * rw_score r) div sum_list (map rw_score rewards) in
       rw_amount r = share \<or> rw_amount r = share + 1" if "r \<in> set rewards" for r
  proof -
    from in_paid [OF that] obtain i where i: "i < length cs" "r = ?paid ! i" by blast
    then have "rw_score r = rw_score (cs ! i)" "rw_amount r = rewardAmounts budget cs ! i" by (simp_all only: nth [OF i(1)]) simp_all
    then show ?thesis
      using i(1) rewardAmounts_nth [OF ne pos i(1), of budget] total [of rw_score] fields(2)
      by (simp add: rewardShares_def Let_def)
  qed
  moreover have "rw_amount r' \<le> rw_amount r" if "r \<in> set rewards" "r' \<in> set rewards" "rw_score r' < rw_score r" for r r'
  proof -
    from in_paid [OF that(1)] in_paid [OF that(2)] obtain i j where
      i: "i < length cs" "r = ?paid ! i" and j: "j < length cs" "r' = ?paid ! j" by blast
    with that(3) have "rw_score (cs ! j) < rw_score (cs ! i)" by (simp only: nth) simp
    then show ?thesis using i j rewardAmounts_mono [OF pos i(1) j(1), of budget] \<open>0 < budget\<close>
      by (simp only: nth) simp
  qed
  ultimately show ?thesis using sch b(1) \<open>0 < budget\<close> by blast
qed

text \<open>
  C36: a claim can not be paid, only refused, once nothing remains of the pool: the allocation of a
  non-empty list of claims is then an error, whatever the epoch.
\<close>

theorem no_rewards_without_budget:
  "allocateProgressRewards epoch (claim # claims) 0 initialReward \<noteq> Inr rewards"
proof
  assume "allocateProgressRewards epoch (claim # claims) 0 initialReward = Inr rewards"
  from allocate_Inr [OF this] obtain scheduled where "scheduledEpochBudget epoch initialReward = Inr scheduled"
    "min scheduled 0 \<noteq> 0" by auto
  with scheduledEpochBudget_bounds show False by fastforce
qed


lemma discount_bounds: "0 \<le> q \<Longrightarrow> \<forall>f \<in> set fs. 0 \<le> f \<and> f \<le> 10000 \<Longrightarrow> 0 \<le> discount q fs \<and> discount q fs \<le> q"
proof (induction fs arbitrary: q)
  case (Cons f fs)
  have "0 \<le> (q * f) div 10000" using Cons.prems by (simp add: pos_imp_zdiv_nonneg_iff)
  moreover have "(q * f) div 10000 \<le> (q * 10000) div 10000"
    using Cons.prems by (intro zdiv_mono1 mult_left_mono) auto
  ultimately show ?case using Cons.IH [of "(q * f) div 10000"] Cons.prems by (simp add: discount_def)
qed (simp add: discount_def)

lemma assertMetric_Inr: "assertMetric v f lo hi = Inr n \<Longrightarrow> lo \<le> n \<and> n \<le> hi \<and> safe_int v = Some n"
  by (auto simp: assertMetric_def split: option.splits if_splits)

lemma efficiency_bounds: "5000 \<le> efficiency b c \<and> efficiency b c \<le> 20000"
  by (simp add: efficiency_def Let_def)

text \<open>
  an accepted evaluation scores at least 1 and at most twice its gain in parts per million,
  two million in all; its artifact is not its baseline, its energy is attested and its safety
  clearance is there.
\<close>

theorem progress_score_bounded:
  assumes "computeProgressScore evaluation = Inr score"
  shows "\<exists>e gain. evaluation = JObj e \<and> safe_int (fld e ''gainPpm'') = Some gain \<and>
    1 \<le> score \<and> score \<le> 2 * gain \<and> gain \<le> 1000000 \<and>
    \<not> strict_eq (fld e ''artifactHash'') (fld e ''baselineHash'') \<and>
    fld e ''criticalSafetyPass'' = JBool True \<and> fld e ''energyAttested'' = JBool True"
proof -
  from assms obtain e where e: "evaluation = JObj e" by (cases evaluation) (simp_all add: computeProgressScore_def)
  note assms [unfolded e computeProgressScore_def jsval.case, unfolded if_Inl_Inr_iff bind_r_Inr_iff]
  then obtain gain gen rep saf nov where
    m: "assertMetric (fld e ''gainPpm'') ''gain'' 1 1000000 = Inr gain"
    "assertMetric (fld e ''generalityBps'') ''generality'' 0 10000 = Inr gen"
    "assertMetric (fld e ''reproducibilityBps'') ''reproducibility'' 6667 10000 = Inr rep"
    "assertMetric (fld e ''safetyBps'') ''safety'' 8000 10000 = Inr saf"
    "assertMetric (fld e ''noveltyBps'') ''novelty'' 0 10000 = Inr nov"
    and clear: "\<not> strict_eq (fld e ''artifactHash'') (fld e ''baselineHash'')" "fld e ''criticalSafetyPass'' = JBool True"
    and last: "(case (safe_int (fld e ''candidateEnergyWh''), safe_int (fld e ''baselineEnergyWh'')) of
                 (Some candidate, Some baseline) \<Rightarrow>
                   if candidate \<le> 0 \<or> baseline \<le> 0 \<or> fld e ''energyAttested'' \<noteq> JBool True
                   then Inl Rw_energy_invalid
                   else let quality = discount gain [gen, rep, saf, nov];
                            score = (quality * efficiency baseline candidate) div 10000
                        in if score \<le> 0 then Inl Rw_no_progress else Inr score
               | _ \<Rightarrow> Inl Rw_energy_invalid) = Inr score" by blast
  let ?q = "discount gain [gen, rep, saf, nov]"
  from last obtain c b where en: "fld e ''energyAttested'' = JBool True" "score = (?q * efficiency b c) div 10000" "0 < score"
    by (auto simp: Let_def split: option.splits if_splits)
  note metrics = assertMetric_Inr [OF m(1)] assertMetric_Inr [OF m(2)] assertMetric_Inr [OF m(3)]
    assertMetric_Inr [OF m(4)] assertMetric_Inr [OF m(5)]
  have q: "0 \<le> ?q \<and> ?q \<le> gain" using metrics by (intro discount_bounds) auto
  have "(?q * efficiency b c) div 10000 \<le> (?q * 20000) div 10000"
    using q efficiency_bounds by (intro zdiv_mono1 mult_left_mono) auto
  with q have "score \<le> 2 * gain" by (simp add: en(2))
  with e metrics clear en show ?thesis by auto
qed

section \<open>Witnesses\<close>

definition demo_claim :: "char \<Rightarrow> string \<Rightarrow> progress_claim" where
  "demo_claim c score = \<lparr>pc_fingerprint = JStr (replicate 64 c), pc_score = score,
     pc_recipient = JStr (''nir1'' @ replicate 64 c)\<rparr>"

definition demo_evaluation :: jsval where
  "demo_evaluation = (let h = replicate 64 CHR ''a'' in JObj
     [(''artifactHash'', JStr (''sha256:'' @ h)), (''baselineContentHash'', JStr (''sha256:'' @ h)),
      (''baselineHash'', JStr (''sha256:'' @ replicate 64 CHR ''b'')), (''contentHash'', JStr (''sha256:'' @ h)),
      (''candidateId'', JStr h), (''executionBundleHash'', JStr h), (''suiteCommitment'', JStr h),
      (''gainPpm'', JNum 40000), (''generalityBps'', JNum 9000), (''reproducibilityBps'', JNum 10000),
      (''safetyBps'', JNum 9500), (''criticalSafetyPass'', JBool True), (''safetyPolicyHash'', JStr h),
      (''noveltyBps'', JNum 5000), (''candidateEnergyWh'', JNum 30), (''baselineEnergyWh'', JNum 40),
      (''energyAttested'', JBool True)])"

theorem progress_score_bounded_witness:
  "computeProgressScore demo_evaluation = Inr 22799 \<and> 22799 \<le> 2 * (1000000 :: int)"
proof -
  have run: "computeProgressScore demo_evaluation = Inr 22799" by code_simp
  from progress_score_bounded [OF run] have "(22799 :: int) \<le> 2 * 1000000" by auto
  with run show ?thesis by simp
qed

theorem progress_rewards_split_witness:
  "\<exists>rewards. allocateProgressRewards 0 [demo_claim CHR ''b'' ''1'', demo_claim CHR ''a'' ''2''] 100 INITIAL_EPOCH_REWARD =
     Inr rewards \<and> sum_list (map rw_amount rewards) = 100 \<and> map rw_amount rewards = [67, 33]"
proof -
  let ?run = "allocateProgressRewards 0 [demo_claim CHR ''b'' ''1'', demo_claim CHR ''a'' ''2''] 100 INITIAL_EPOCH_REWARD"
  have "(case ?run of Inr r \<Rightarrow> map rw_amount r = [67, 33] | _ \<Rightarrow> False)" by code_simp
  then obtain rewards where run: "?run = Inr rewards" and am: "map rw_amount rewards = [67, 33]"
    by (auto split: sum.splits)
  have "scheduledEpochBudget 0 INITIAL_EPOCH_REWARD = Inr INITIAL_EPOCH_REWARD" by code_simp
  moreover have "min INITIAL_EPOCH_REWARD 100 = 100" by code_simp
  ultimately have "sum_list (map rw_amount rewards) = 100" using progress_rewards_split [OF run] by simp
  then show ?thesis using run am by (intro exI conjI)
qed

end
