(* ===== verification/TransactionTree.thy ===== *)
theory TransactionTree
  imports Merkle
begin

text \<open>
  \<open>blockchain/transaction-tree.mjs\<close>: the Merkle tree a block header commits its transactions with,
  the proofs that a transaction is in a block, and their verification. The main results: the root the
  code computes level by level is that of a tree padded with empty leaves, a proof the code creates is
  one it accepts, and a proof it accepts is for the transaction at that place in the block.
\<close>

section \<open>The tree\<close>

datatype tree_error =
    Tree_encoding codec_error
  | Tree_transaction_id_invalid
  | Tree_input_invalid
  | Tree_indexes_invalid
  | Tree_proof_invalid
  | Tree_depth_invalid
  | Tree_root_mismatch

definition TRANSACTION_TREE :: merkle_domains where
  "TRANSACTION_TREE = \<lparr>mk_node = ''TRANSACTION_TREE_NODE'', mk_empty = ''TRANSACTION_TREE_EMPTY_LEAF'',
     mk_leaf = ''TRANSACTION_TREE_LEAF''\<rparr>"

definition TRANSACTION_PROOF_FORMAT :: string where
  "TRANSACTION_PROOF_FORMAT = ''nir-transaction-inclusion-v1''"

definition MAX_TRANSACTION_PROOF_BYTES :: nat where
  "MAX_TRANSACTION_PROOF_BYTES = 32 * 1024"

definition committedTransactionId :: "crypto \<Rightarrow> jsval \<Rightarrow> tree_error + string" where
  "committedTransactionId cr transaction = map_err Tree_encoding (hashObject cr transaction ''TRANSACTION_ID'')"

definition leafObject :: "jsval \<Rightarrow> jsval \<Rightarrow> jsval" where
  "leafObject index transactionId = JObj [(''index'', index), (''transactionId'', transactionId)]"

definition idLeaf :: "crypto \<Rightarrow> jsval \<Rightarrow> jsval \<Rightarrow> tree_error + string" where
  "idLeaf cr transactionId index =
     (if \<not> is_hex64 (coerced transactionId) then Inl Tree_transaction_id_invalid
      else map_err Tree_encoding (hashObject cr (leafObject index transactionId) ''TRANSACTION_TREE_LEAF''))"

definition leaf :: "crypto \<Rightarrow> jsval \<Rightarrow> jsval \<Rightarrow> tree_error + string" where
  "leaf cr transaction index = bind_r (committedTransactionId cr transaction) (\<lambda>i. idLeaf cr (JStr i) index)"

text \<open>\<open>xs.map(f)\<close>, where \<open>f\<close> also gets the position.\<close>

fun mapIndexed :: "(jsval \<Rightarrow> jsval \<Rightarrow> 'e + 'a) \<Rightarrow> nat \<Rightarrow> jsval list \<Rightarrow> 'e + 'a list" where
  "mapIndexed f i [] = Inr []"
| "mapIndexed f i (x # xs) = bind_r (f x (JNum (int i))) (\<lambda>y. bind_r (mapIndexed f (Suc i) xs) (\<lambda>ys. Inr (y # ys)))"

text \<open>One round of the loop: the level above \<open>current\<close>, which is at height \<open>level\<close>.\<close>

fun pairUp :: "crypto \<Rightarrow> nat \<Rightarrow> string list \<Rightarrow> codec_error + string list" where
  "pairUp cr level [] = Inr []"
| "pairUp cr level [x] =
     bind_r (emptyHash cr TRANSACTION_TREE level) (\<lambda>e. bind_r (nodeHash cr TRANSACTION_TREE (JStr x) (JStr e)) (\<lambda>h. Inr [h]))"
| "pairUp cr level (x # y # current) =
     bind_r (nodeHash cr TRANSACTION_TREE (JStr x) (JStr y)) (\<lambda>h. bind_r (pairUp cr level current) (\<lambda>hs. Inr (h # hs)))"

lemma pairUp_length: "pairUp cr level xs = Inr ys \<Longrightarrow> length ys = (length xs + 1) div 2"
  by (induction cr level xs arbitrary: ys rule: pairUp.induct) (auto simp: bind_r_Inr_iff)

function levelsFrom :: "crypto \<Rightarrow> nat \<Rightarrow> string list \<Rightarrow> codec_error + string list list" where
  "levelsFrom cr level current =
     (if length current \<le> 1 then Inr [current]
      else bind_r (pairUp cr level current) (\<lambda>next.
           bind_r (levelsFrom cr (level + 1) next) (\<lambda>levels. Inr (current # levels))))"
  by pat_completeness auto
termination by (relation "measure (\<lambda>(cr, level, current). length current)") (auto dest: pairUp_length)

declare levelsFrom.simps [simp del]

definition levelsForLeaves :: "crypto \<Rightarrow> string list \<Rightarrow> codec_error + string list list" where
  "levelsForLeaves cr leaves = levelsFrom cr 0 leaves"

definition levelsFor :: "crypto \<Rightarrow> jsval \<Rightarrow> tree_error + string list list" where
  "levelsFor cr transactions =
     (case transactions of
        JArr txs \<Rightarrow> bind_r (mapIndexed (leaf cr) 0 txs) (\<lambda>leaves. map_err Tree_encoding (levelsForLeaves cr leaves))
      | _ \<Rightarrow> Inl Tree_input_invalid)"

definition topOf :: "crypto \<Rightarrow> string list list \<Rightarrow> tree_error + string" where
  "topOf cr levels = (if hd levels = [] then map_err Tree_encoding (emptyHash cr TRANSACTION_TREE 0) else Inr (hd (last levels)))"

definition transactionRoot :: "crypto \<Rightarrow> jsval \<Rightarrow> tree_error + string" where
  "transactionRoot cr transactions = bind_r (levelsFor cr transactions) (topOf cr)"

definition transactionRootFromIds :: "crypto \<Rightarrow> jsval \<Rightarrow> tree_error + string" where
  "transactionRootFromIds cr transactionIds =
     (case transactionIds of
        JArr ids \<Rightarrow> bind_r (mapIndexed (idLeaf cr) 0 ids) (\<lambda>leaves. bind_r (map_err Tree_encoding (levelsForLeaves cr leaves)) (topOf cr))
      | _ \<Rightarrow> Inl Tree_input_invalid)"

section \<open>Proofs\<close>

text \<open>
  \<open>levels[level][position ^ 1] ?? emptyHash(level)\<close>. The exclusive or is that of 32-bit integers, so
  above \<open>2 ^ 31\<close> transactions it is negative and no sibling is found.
\<close>

definition siblingIndex :: "nat \<Rightarrow> int" where
  "siblingIndex position = sint (Bit_Operations.xor (of_nat position) 1 :: 32 word)"

definition sibling :: "crypto \<Rightarrow> nat \<Rightarrow> string list \<Rightarrow> nat \<Rightarrow> codec_error + string" where
  "sibling cr level hashes position =
     (let i = siblingIndex position in
      if 0 \<le> i \<and> i < int (length hashes) then Inr (hashes ! nat i) else emptyHash cr TRANSACTION_TREE level)"

fun siblingsFrom :: "crypto \<Rightarrow> nat \<Rightarrow> string list list \<Rightarrow> nat \<Rightarrow> codec_error + string list" where
  "siblingsFrom cr level (hashes # next # levels) position =
     bind_r (sibling cr level hashes position) (\<lambda>s.
     bind_r (siblingsFrom cr (level + 1) (next # levels) (position div 2)) (\<lambda>ss. Inr (s # ss)))"
| "siblingsFrom cr level _ position = Inr []"

definition proofObject :: "jsval \<Rightarrow> jsval \<Rightarrow> string list \<Rightarrow> jsval" where
  "proofObject txCount index siblings =
     JObj [(''count'', txCount), (''format'', JStr TRANSACTION_PROOF_FORMAT), (''index'', index),
       (''siblings'', JArr (map JStr siblings))]"

text \<open>\<open>transactions\<close> is an array: it is one for every caller.\<close>

definition createTransactionProofs :: "crypto \<Rightarrow> jsval list \<Rightarrow> jsval \<Rightarrow> tree_error + jsval list" where
  "createTransactionProofs cr transactions indexes =
     (case indexes of
        JArr ixs \<Rightarrow>
          if \<not> list_all (\<lambda>v. case safe_int v of None \<Rightarrow> False | Some i \<Rightarrow> 0 \<le> i \<and> i < int (length transactions)) ixs
          then Inl Tree_indexes_invalid
          else bind_r (levelsFor cr (JArr transactions)) (\<lambda>levels.
            mapM (\<lambda>index. bind_r (map_err Tree_encoding (siblingsFrom cr 0 levels (nat (the (safe_int index))))) (\<lambda>siblings.
              Inr (proofObject (JNum (int (length transactions))) index siblings))) ixs)
      | _ \<Rightarrow> Inl Tree_indexes_invalid)"

definition createTransactionProof :: "crypto \<Rightarrow> jsval list \<Rightarrow> jsval \<Rightarrow> tree_error + jsval" where
  "createTransactionProof cr transactions index =
     bind_r (createTransactionProofs cr transactions (JArr [index])) (\<lambda>proofs. Inr (hd proofs))"

text \<open>
  The shape the first check demands, with the count, the index and the siblings. \<open>Math.ceil(Math.log2(n))\<close>
  is \<open>ceil_log2 n\<close>, which the language leaves to the implementation.
\<close>

definition proofFields :: "crypto \<Rightarrow> jsval \<Rightarrow> jsval \<Rightarrow> tree_error + (int \<times> jsval \<times> nat \<times> jsval list)" where
  "proofFields cr proof expectedRoot =
     (case proof of
        JObj p \<Rightarrow>
          (case (safe_int (fld p ''count''), safe_int (fld p ''index''), fld p ''siblings'') of
             (Some txCount, Some index, JArr siblings) \<Rightarrow>
               if fld p ''format'' \<noteq> JStr TRANSACTION_PROOF_FORMAT \<or> txCount < 1 \<or> index < 0 \<or> index \<ge> txCount \<or>
                  \<not> list_all (\<lambda>hash. is_hex64 (coerced hash)) siblings \<or> \<not> is_hex64 (coerced expectedRoot)
               then Inl Tree_proof_invalid
               else bind_r (map_err Tree_encoding (strictCanonicalJson (nfc cr) (to_cval proof))) (\<lambda>text.
                 if length (utf8 (map unat text)) > MAX_TRANSACTION_PROOF_BYTES then Inl Tree_proof_invalid
                 else Inr (txCount, fld p ''index'', nat index, siblings))
           | _ \<Rightarrow> Inl Tree_proof_invalid)
      | _ \<Rightarrow> Inl Tree_proof_invalid)"

definition verifyTransactionProof :: "crypto \<Rightarrow> (int \<Rightarrow> nat) \<Rightarrow> jsval \<Rightarrow> jsval \<Rightarrow> jsval \<Rightarrow> tree_error + string" where
  "verifyTransactionProof cr ceil_log2 transaction proof expectedRoot =
     bind_r (proofFields cr proof expectedRoot) (\<lambda>(txCount, index, position, siblings).
     if length siblings \<noteq> ceil_log2 txCount then Inl Tree_depth_invalid
     else bind_r (leaf cr transaction index) (\<lambda>l.
          bind_r (map_err Tree_encoding (climb cr TRANSACTION_TREE l position siblings)) (\<lambda>current.
          if expectedRoot \<noteq> JStr current then Inl Tree_root_mismatch else committedTransactionId cr transaction)))"

section \<open>The root is that of a padded tree\<close>

text \<open>\<open>d\<close> is the least height at which a tree has \<open>n\<close> leaves: \<open>ceil(log2 n)\<close>.\<close>

definition is_depth :: "nat \<Rightarrow> nat \<Rightarrow> bool" where
  "is_depth n d \<longleftrightarrow> n \<le> 2 ^ d \<and> (\<forall>k < d. 2 ^ k < n)"

abbreviation levelAbove :: "crypto \<Rightarrow> nat \<Rightarrow> string list \<Rightarrow> string list" where
  "levelAbove cr level \<equiv> pairs (nodeOf cr TRANSACTION_TREE) (emptyOf cr TRANSACTION_TREE level)"

abbreviation treeOf :: "crypto \<Rightarrow> nat \<Rightarrow> nat \<Rightarrow> string list \<Rightarrow> string" where
  "treeOf cr d level xs \<equiv> rootOf cr TRANSACTION_TREE d level (leavesOf xs)"

lemma transaction_domains: "tree_domains TRANSACTION_TREE" "is_domain ''TRANSACTION_ID''"
  "is_domain ''TRANSACTION_TREE_NODE''" "is_domain ''TRANSACTION_TREE_EMPTY_LEAF''" "is_domain ''TRANSACTION_TREE_LEAF''"
  by code_simp+

lemma transaction_tree_simps [simp]: "mk_node TRANSACTION_TREE = ''TRANSACTION_TREE_NODE''"
  "mk_empty TRANSACTION_TREE = ''TRANSACTION_TREE_EMPTY_LEAF''" "mk_leaf TRANSACTION_TREE = ''TRANSACTION_TREE_LEAF''"
  by (simp_all add: TRANSACTION_TREE_def)

lemma proof_keys: "ascii_string ''index''" "ascii_string ''transactionId''"
  "ascii_string ''count''" "ascii_string ''format''" "ascii_string ''siblings''" "ascii_string TRANSACTION_PROOF_FORMAT"
  by code_simp+

lemmas tree_node = node_total [OF _ transaction_domains(1)]
lemmas tree_empty = empty_total [OF _ transaction_domains(1)]

lemma pairUp_total:
  assumes "sound_hash cr"
  shows "list_all is_hex64 xs \<Longrightarrow> pairUp cr level xs = Inr (levelAbove cr level xs)"
  by (induction xs rule: induct_list012) (use tree_node [OF assms] tree_empty [OF assms] in simp_all)

lemma depth_one: "n \<le> 1 \<Longrightarrow> is_depth n d \<Longrightarrow> d = 0"
  by (cases d) (auto simp: is_depth_def)

lemma depth_half:
  assumes "is_depth n d" and "1 < n"
  obtains e where "d = Suc e" and "is_depth ((n + 1) div 2) e"
proof (cases d)
  case (Suc e)
  have "2 ^ k < (n + 1) div 2" if "k < e" for k
  proof -
    have "2 ^ Suc k < n" using assms(1) that unfolding is_depth_def Suc by blast
    then show ?thesis by simp
  qed
  with assms Suc have "is_depth ((n + 1) div 2) e" by (auto simp: is_depth_def)
  with Suc that show thesis by blast
qed (use assms in \<open>simp add: is_depth_def\<close>)

text \<open>The sibling of a position is the other one of its pair.\<close>

lemma siblingIndex_pair:
  assumes "position < 2 ^ 31"
  shows "siblingIndex position = (if even position then int position + 1 else int position - 1)"
proof -
  have sint: "sint (of_nat n :: 32 word) = int n" if "n < 2 ^ 31" for n
    using that by (simp add: sint_uint unsigned_of_nat take_bit_nat_eq_self signed_take_bit_int_eq_self)
  have w: "even (of_nat position :: 32 word) \<longleftrightarrow> even position" by (simp add: even_word_iff unat_of_nat even_of_nat_iff)
  show ?thesis
  proof (cases "even position")
    case True
    then have "position \<noteq> 2147483647" by auto
    with True assms have "position + 1 < 2 ^ 31" by simp
    then show ?thesis using True w sint [of "position + 1"] by (simp add: siblingIndex_def xor_one_eq add.commute)
  next
    case False
    then have "position \<ge> 1" by (cases position) auto
    then have "(of_nat position :: 32 word) - 1 = of_nat (position - 1)" "int (position - 1) = int position - 1"
      by (simp_all add: of_nat_diff)
    moreover have "sint (of_nat (position - 1) :: 32 word) = int (position - 1)" using assms by (intro sint) simp
    ultimately show ?thesis using False w by (simp add: siblingIndex_def xor_one_eq)
  qed
qed

lemma sibling_total:
  assumes "sound_hash cr" and "list_all is_hex64 xs" and "i < length xs" and "length xs \<le> 2 ^ 31"
  obtains s where "sibling cr level xs i = Inr s" and "is_hex64 s"
    and "levelAbove cr level xs ! (i div 2) = (if even i then nodeOf cr TRANSACTION_TREE (xs ! i) s else nodeOf cr TRANSACTION_TREE s (xs ! i))"
proof -
  have pair: "levelAbove cr level xs ! (i div 2) = (if even i
      then nodeOf cr TRANSACTION_TREE (xs ! i) (if i + 1 < length xs then xs ! (i + 1) else emptyOf cr TRANSACTION_TREE level)
      else nodeOf cr TRANSACTION_TREE (xs ! (i - 1)) (xs ! i))"
    using assms(3)
  proof (induction xs arbitrary: i rule: induct_list012)
    case (3 x y zs)
    consider "i = 0" | "i = 1" | j where "i = j + 2" by (metis One_nat_def Suc_eq_plus1 add_2_eq_Suc' not0_implies_Suc)
    then show ?case
    proof cases
      case 3
      with "3.IH"(1) [of j] "3.prems" show ?thesis by (cases j) auto
    qed simp_all
  qed simp_all
  let ?s = "if even i then if i + 1 < length xs then xs ! (i + 1) else emptyOf cr TRANSACTION_TREE level else xs ! (i - 1)"
  have "sibling cr level xs i = Inr ?s"
    using assms siblingIndex_pair [of i] tree_empty [of cr level]
    by (auto simp: sibling_def Let_def nat_add_distrib nat_diff_distrib elim!: oddE)
  moreover have "is_hex64 ?s" using assms tree_empty [of cr level] by (auto simp: list_all_length)
  ultimately show thesis using pair by (intro that [of ?s]) simp_all
qed

text \<open>The levels, and every path up through them, end in the root of the padded tree.\<close>

lemma levels_padded:
  assumes "sound_hash cr"
  shows "list_all is_hex64 xs \<Longrightarrow> is_depth (length xs) d \<Longrightarrow> \<exists>levels.
     levelsFrom cr level xs = Inr levels \<and> levels \<noteq> [] \<and> hd levels = xs \<and>
     (xs \<noteq> [] \<longrightarrow> last levels = [treeOf cr d level xs]) \<and>
     (\<forall>i < length xs. length xs \<le> 2 ^ 31 \<longrightarrow> (\<exists>ss. siblingsFrom cr level levels i = Inr ss \<and> length ss = d \<and> list_all is_hex64 ss \<and>
        climb cr TRANSACTION_TREE (xs ! i) i (map JStr ss) = Inr (treeOf cr d level xs)))"
proof (induction d arbitrary: level xs)
  case 0
  then have "length xs \<le> 1" by (simp add: is_depth_def)
  then show ?case by (cases xs) (auto simp: levelsFrom.simps leavesOf_def)
next
  case (Suc d)
  then have n: "1 < length xs" using depth_one [of "length xs" "Suc d"] by linarith
  let ?ys = "levelAbove cr level xs"
  have ys: "pairUp cr level xs = Inr ?ys" "list_all is_hex64 ?ys" using pairUp_total [OF assms Suc.prems(1)] pairs_hex [OF assms transaction_domains(1) Suc.prems(1)] by auto
  have "is_depth (length ?ys) d" using depth_half [OF Suc.prems(2) n] by (auto simp: length_pairs)
  then obtain levels where l: "levelsFrom cr (Suc level) ?ys = Inr levels" "levels \<noteq> []" "hd levels = ?ys"
      "?ys \<noteq> [] \<Longrightarrow> last levels = [treeOf cr d (Suc level) ?ys]"
      "\<And>i. i < length ?ys \<Longrightarrow> length ?ys \<le> 2 ^ 31 \<Longrightarrow> \<exists>ss. siblingsFrom cr (Suc level) levels i = Inr ss \<and> length ss = d \<and> list_all is_hex64 ss \<and>
        climb cr TRANSACTION_TREE (?ys ! i) i (map JStr ss) = Inr (treeOf cr d (Suc level) ?ys)"
    using Suc.IH [OF ys(2), of "Suc level"] by blast
  note root = hashes.root_pairs [of cr TRANSACTION_TREE d level xs]
  have "?ys \<noteq> []" using n by (metis One_nat_def add_2_eq_Suc' length_pairs list.size(3) div_less less_nat_zero_code
      add_gr_0 div_eq_0_iff less_Suc_eq_0_disj not_less_eq numeral_2_eq_2 Suc_eq_plus1 less_Suc_eq)
  have path: "\<exists>ss. siblingsFrom cr level (xs # levels) i = Inr ss \<and> length ss = Suc d \<and> list_all is_hex64 ss \<and>
      climb cr TRANSACTION_TREE (xs ! i) i (map JStr ss) = Inr (treeOf cr (Suc d) level xs)" if i: "i < length xs" "length xs \<le> 2 ^ 31" for i
  proof -
    obtain s where s: "sibling cr level xs i = Inr s" "is_hex64 s"
        "?ys ! (i div 2) = (if even i then nodeOf cr TRANSACTION_TREE (xs ! i) s else nodeOf cr TRANSACTION_TREE s (xs ! i))"
      by (rule sibling_total [OF assms Suc.prems(1) i])
    have "i div 2 < length ?ys" "length ?ys \<le> 2 ^ 31" using i by (simp_all add: length_pairs)
    from l(5) [OF this] obtain ss where ss: "siblingsFrom cr (Suc level) levels (i div 2) = Inr ss" "length ss = d"
        "list_all is_hex64 ss" "climb cr TRANSACTION_TREE (?ys ! (i div 2)) (i div 2) (map JStr ss) = Inr (treeOf cr d (Suc level) ?ys)"
      by blast
    have "is_hex64 (xs ! i)" using Suc.prems(1) i by (simp add: list_all_length)
    then have "(if i mod 2 = 0 then nodeHash cr TRANSACTION_TREE (JStr (xs ! i)) (JStr s) else nodeHash cr TRANSACTION_TREE (JStr s) (JStr (xs ! i))) =
        Inr (?ys ! (i div 2))"
      using tree_node(1) [OF assms] s(2,3) by (simp add: even_iff_mod_2_eq_zero)
    then have "climb cr TRANSACTION_TREE (xs ! i) i (map JStr (s # ss)) = Inr (treeOf cr (Suc d) level xs)"
      using ss(4) by (simp add: root del: treeRoot.simps)
    moreover have "siblingsFrom cr level (xs # levels) i = Inr (s # ss)"
      using s(1) ss(1) l(2) by (cases levels) simp_all
    ultimately show ?thesis using s(2) ss(2,3) by (intro exI [of _ "s # ss"]) (simp del: climb.simps)
  qed
  have "levelsFrom cr level xs = Inr (xs # levels)" using n ys(1) l(1) by (subst levelsFrom.simps) simp
  then show ?case using l(2,4) path \<open>?ys \<noteq> []\<close> root by (intro exI [of _ "xs # levels"]) simp
qed

lemma mapIndexed_Inr:
  "mapIndexed f i xs = Inr ys \<Longrightarrow> length ys = length xs \<and> (\<forall>j < length xs. f (xs ! j) (JNum (int (i + j))) = Inr (ys ! j))"
proof (induction xs arbitrary: i ys)
  case (Cons x xs)
  then obtain y zs where y: "ys = y # zs" "f x (JNum (int i)) = Inr y" "mapIndexed f (Suc i) xs = Inr zs"
    by (auto simp: bind_r_Inr_iff)
  with Cons.IH [OF y(3)] show ?case by (auto simp: nth_Cons add.commute add.left_commute split: nat.split)
qed simp

lemma leaf_hex: "sound_hash cr \<Longrightarrow> leaf cr tx index = Inr h \<Longrightarrow> is_hex64 h"
  by (auto simp: sound_hash_def leaf_def idLeaf_def bind_r_Inr_iff if_Inl_Inr_iff map_err_Inr_iff hashObject_def)

lemma leaves_hex: "sound_hash cr \<Longrightarrow> mapIndexed (leaf cr) 0 txs = Inr leaves \<Longrightarrow> list_all is_hex64 leaves"
  using mapIndexed_Inr [of "leaf cr" 0 txs leaves] leaf_hex by (auto simp: list_all_length)

lemma root_padded:
  assumes "sound_hash cr" and "is_depth (length txs) d"
  shows "transactionRoot cr (JArr txs) = bind_r (mapIndexed (leaf cr) 0 txs) (\<lambda>leaves.
    map_err Tree_encoding (merkleRoot cr TRANSACTION_TREE d (leavesOf leaves)))"
proof (cases "mapIndexed (leaf cr) 0 txs")
  case (Inr leaves)
  note hex = leaves_hex [OF assms(1) Inr]
  have len: "length leaves = length txs" using mapIndexed_Inr [OF Inr] by simp
  with levels_padded [OF assms(1) hex, of d 0] assms(2) obtain levels where
    "levelsFrom cr 0 leaves = Inr levels" "hd levels = leaves" "leaves \<noteq> [] \<Longrightarrow> last levels = [treeOf cr d 0 leaves]" by auto
  moreover have "d = 0" if "leaves = []" using depth_one [OF _ assms(2)] len that by simp
  ultimately show ?thesis using merkleRoot_total [OF assms(1) transaction_domains(1), of "leavesOf leaves" d] hex
    by (cases "leaves = []") (auto simp: transactionRoot_def levelsFor_def levelsForLeaves_def topOf_def hex_leavesOf leavesOf_def Inr)
qed (simp add: transactionRoot_def levelsFor_def)

text \<open>
  C29: The root the code computes round by round, completing odd levels, is the root of the perfect
  binary tree of height ceil(log2 n) whose missing leaves are the empty leaf.
\<close>

theorem transaction_root_is_padded_tree:
  assumes "sound_hash cr" and "is_depth (length txs) d"
  shows "transactionRoot cr (JArr txs) = bind_r (mapIndexed (leaf cr) 0 txs) (\<lambda>leaves.
    map_err Tree_encoding (merkleRoot cr TRANSACTION_TREE d (leavesOf leaves)))"
  by (rule root_padded [OF assms])

section \<open>A created proof verifies\<close>

text \<open>\<open>Math.ceil(Math.log2(n))\<close> where the result is exact: up to \<open>2 ^ 31\<close>.\<close>

definition exact_log2 :: "(int \<Rightarrow> nat) \<Rightarrow> bool" where
  "exact_log2 ceil_log2 \<longleftrightarrow> (\<forall>n. 1 \<le> n \<and> n \<le> 2 ^ 31 \<longrightarrow> is_depth n (ceil_log2 (int n)))"

lemma dec_digits_bound: "n < 10 ^ Suc k \<Longrightarrow> length (dec_digits n) \<le> Suc k"
proof (induction k arbitrary: n)
  case 0
  then show ?case by (simp add: dec_digits.simps)
next
  case (Suc k)
  then have "length (dec_digits (n div 10)) \<le> Suc k" by (intro Suc.IH) simp
  then show ?case by (subst dec_digits.simps) simp
qed

lemma count_text: "n \<le> 2 ^ 31 \<Longrightarrow> length (dec_string (int n)) \<le> 10"
  using dec_digits_bound [of n 9] by (simp add: dec_string_def)

lemma proof_small:
  assumes "keeps_ascii cr" and "list_all is_hex64 ss" and "length ss \<le> 31" and "n \<le> 2 ^ 31" and "i \<le> 2 ^ 31"
  obtains t where "strictCanonicalJson (nfc cr) (to_cval (proofObject (JNum (int n)) (JNum (int i)) ss)) = Inr t"
    and "length (utf8 (map unat t)) \<le> MAX_TRANSACTION_PROOF_BYTES"
proof -
  let ?p = "proofObject (JNum (int n)) (JNum (int i)) ss"
  have len: "map length ss = replicate (length ss) 64"
    using assms(2) by (intro nth_equalityI) (auto simp: list_all_length is_hex64_def)
  have sizes: "sum_list (map (\<lambda>x. 5 + length x) ss) = 69 * length ss" "sum_list (map (\<lambda>x. Suc (2 + length x)) ss) = 67 * length ss"
    using len by (simp_all add: sum_list_addf sum_list_triv sum_list_Suc sum_list_replicate)
  have "list_all ascii_string ss" using assms(2) hex_ascii by (auto simp: list_all_iff)
  with assms sizes have "json_ok ?p"
    by (auto simp: json_ok_def proofObject_def proof_keys proof_keys(6) [unfolded TRANSACTION_PROOF_FORMAT_def] MAX_DEPTH_def MAX_CONTAINER_ENTRIES_def MAX_ENCODED_BYTES_def
        is_safe_int_def MAX_SAFE_INTEGER_def TRANSACTION_PROOF_FORMAT_def o_def list_all_iff)
  then have t: "strictCanonicalJson (nfc cr) (to_cval ?p) = Inr (text_of (canon (to_cval ?p)))"
    by (rule strictCanonicalJson_ok [OF assms(1)])
  have "printable TRANSACTION_PROOF_FORMAT" "printable ''count''" "printable ''format''" "printable ''index''" "printable ''siblings''"
    by code_simp+
  then have "plain_text ?p" using assms(2) hex_printable by (auto simp: proofObject_def list_all_iff)
  then have "length (utf8 (map unat (text_of (canon (to_cval ?p))))) \<le> text_size ?p"
    by (intro small_text_bytes plain_text_small)
  also have "\<dots> \<le> MAX_TRANSACTION_PROOF_BYTES"
    using count_text [OF assms(4)] count_text [OF assms(5)] sizes(2) assms(3)
    by (simp add: proofObject_def MAX_TRANSACTION_PROOF_BYTES_def TRANSACTION_PROOF_FORMAT_def o_def)
  finally show thesis using that [OF t] by simp
qed

text \<open>
  C28: The proof the code creates for a transaction of the block is accepted against the block's root,
  and answers that transaction's identifier: createTransactionProofs and verifyTransactionProof
  agree for every count up to 2 ^ 31, the odd levels and the single transaction included.
\<close>

theorem created_proof_verifies:
  assumes "sound_hash cr" and "exact_log2 ceil_log2" and "length txs \<le> 2 ^ 31"
    and "createTransactionProofs cr txs (JArr (map JNum ixs)) = Inr proofs" and "j < length ixs"
  shows "\<exists>root i. transactionRoot cr (JArr txs) = Inr root \<and> committedTransactionId cr (txs ! nat (ixs ! j)) = Inr i \<and>
    verifyTransactionProof cr ceil_log2 (txs ! nat (ixs ! j)) (proofs ! j) (JStr root) = Inr i"
proof -
  obtain levels where ok: "list_all (\<lambda>v. case safe_int v of None \<Rightarrow> False | Some i \<Rightarrow> 0 \<le> i \<and> i < int (length txs)) (map JNum ixs)"
      and levels: "levelsFor cr (JArr txs) = Inr levels"
      and proofs: "mapM (\<lambda>index. bind_r (map_err Tree_encoding (siblingsFrom cr 0 levels (nat (the (safe_int index))))) (\<lambda>siblings.
        Inr (proofObject (JNum (int (length txs))) index siblings))) (map JNum ixs) = Inr proofs"
    using assms(4) by (auto simp: createTransactionProofs_def bind_r_Inr_iff if_Inl_Inr_iff)
  define i where "i = nat (ixs ! j)"
  have "case safe_int (JNum (ixs ! j)) of None \<Rightarrow> False | Some i \<Rightarrow> 0 \<le> i \<and> i < int (length txs)"
    using ok assms(5) by (simp add: list_all_length del: safe_int.simps)
  then have ix: "ixs ! j = int i" "i < length txs" "safe_int (JNum (int i)) = Some (int i)"
    by (auto simp: i_def split: if_splits)
  obtain leaves where leaves: "mapIndexed (leaf cr) 0 txs = Inr leaves" "levelsFrom cr 0 leaves = Inr levels"
    using levels by (auto simp: levelsFor_def levelsForLeaves_def bind_r_Inr_iff map_err_Inr_iff)
  note hex = leaves_hex [OF assms(1) leaves(1)] and each = mapIndexed_Inr [OF leaves(1)]
  let ?n = "length txs" let ?d = "ceil_log2 (int ?n)"
  have d: "is_depth (length leaves) ?d" using assms(2,3) ix(2) each by (auto simp: exact_log2_def)
  obtain levels' where "levelsFrom cr 0 leaves = Inr levels'" and padded: "hd levels' = leaves"
      "leaves \<noteq> [] \<longrightarrow> last levels' = [treeOf cr ?d 0 leaves]"
      "\<forall>i < length leaves. length leaves \<le> 2 ^ 31 \<longrightarrow> (\<exists>ss. siblingsFrom cr 0 levels' i = Inr ss \<and> length ss = ?d \<and>
        list_all is_hex64 ss \<and> climb cr TRANSACTION_TREE (leaves ! i) i (map JStr ss) = Inr (treeOf cr ?d 0 leaves))"
    using levels_padded [OF assms(1) hex d, of 0] by blast
  with leaves(2) have "levels' = levels" by simp
  have len: "i < length leaves" "length leaves \<le> 2 ^ 31" using each ix(2) assms(3) by simp_all
  from padded(3) [unfolded \<open>levels' = levels\<close>, rule_format, OF len] obtain ss where ss: "siblingsFrom cr 0 levels i = Inr ss"
      "length ss = ?d" "list_all is_hex64 ss" "climb cr TRANSACTION_TREE (leaves ! i) i (map JStr ss) = Inr (treeOf cr ?d 0 leaves)"
    by blast
  have "leaves \<noteq> []" using len(1) by auto
  then have root: "transactionRoot cr (JArr txs) = Inr (treeOf cr ?d 0 leaves)"
    using padded(1,2) levels \<open>levels' = levels\<close> by (simp add: transactionRoot_def topOf_def)
  have proof_j: "proofs ! j = proofObject (JNum (int ?n)) (JNum (int i)) ss"
    using mapM_nth [OF proofs, of j] assms(5) ix ss(1) by (simp del: safe_int.simps)
  have leaf: "leaf cr (txs ! i) (JNum (int i)) = Inr (leaves ! i)" using each ix(2) by simp
  then obtain tid where tid: "committedTransactionId cr (txs ! i) = Inr tid" by (auto simp: leaf_def bind_r_Inr_iff)
  have "?d \<le> 31" using d assms(3) each unfolding is_depth_def by (metis leD le_trans linorder_not_le)
  then obtain t where t: "strictCanonicalJson (nfc cr) (to_cval (proofs ! j)) = Inr t"
      "length (utf8 (map unat t)) \<le> MAX_TRANSACTION_PROOF_BYTES"
    using proof_small [of cr ss ?n i] assms(1,3) ss(2,3) ix(2) unfolding proof_j sound_hash_def by auto
  have "is_safe_int (int ?n)" using assms(3) by (simp add: is_safe_int_def MAX_SAFE_INTEGER_def)
  moreover have "is_hex64 (treeOf cr ?d 0 leaves)" using root_hex [OF assms(1) transaction_domains(1)] hex by (simp add: hex_leavesOf)
  ultimately have "proofFields cr (proofs ! j) (JStr (treeOf cr ?d 0 leaves)) =
      Inr (int ?n, JNum (int i), i, map JStr ss)"
    using t ix(2,3) ss(3) unfolding proof_j
    by (auto simp: proofFields_def proofObject_def fld_def safe_int_JNum list_all_iff simp del: safe_int.simps)
  then have "verifyTransactionProof cr ceil_log2 (txs ! i) (proofs ! j) (JStr (treeOf cr ?d 0 leaves)) = Inr tid"
    using ss(2,4) leaf tid by (simp add: verifyTransactionProof_def)
  with root tid show ?thesis unfolding i_def [symmetric] by blast
qed

section \<open>An accepted proof is for the transaction in the block\<close>

text \<open>The byte strings that are hashed for a leaf, for a block's tree and for a proof.\<close>

definition leafInputs :: "crypto \<Rightarrow> jsval \<Rightarrow> jsval \<Rightarrow> bytes set" where
  "leafInputs cr tx index = hashInput cr tx ''TRANSACTION_ID'' \<union>
     {b. \<exists>i. committedTransactionId cr tx = Inr i \<and> b \<in> hashInput cr (leafObject index (JStr i)) ''TRANSACTION_TREE_LEAF''}"

definition blockInputs :: "crypto \<Rightarrow> jsval list \<Rightarrow> nat \<Rightarrow> bytes set" where
  "blockInputs cr txs d =
     (\<Union>i < length txs. leafInputs cr (txs ! i) (JNum (int i))) \<union>
     {b. \<exists>leaves. mapIndexed (leaf cr) 0 txs = Inr leaves \<and> b \<in> treeInputs cr TRANSACTION_TREE d (leavesOf leaves)}"

definition proofInputs :: "crypto \<Rightarrow> jsval \<Rightarrow> jsobj \<Rightarrow> bytes set" where
  "proofInputs cr tx p = leafInputs cr tx (fld p ''index'') \<union>
     {b. \<exists>l k siblings. leaf cr tx (fld p ''index'') = Inr l \<and> safe_int (fld p ''index'') = Some k \<and>
        fld p ''siblings'' = JArr siblings \<and> b \<in> pathInputs cr TRANSACTION_TREE l (nat k) siblings}"

text \<open>
  C11: A proof that verifies against the root of a block is for a transaction of the block, at the place
  it claims: with no collision among the bytes hashed for the block and for the proof, the index is
  that of a transaction of the block, which is the transaction presented (in the codec's canonical form)
  and has the identifier returned. Nothing is asked of the count of the proof, nor of how Math.log2
  rounds.
\<close>

theorem accepted_proof_is_of_the_block:
  assumes "sound_hash cr" and "is_depth (length txs) d" and "transactionRoot cr (JArr txs) = Inr root"
    and "verifyTransactionProof cr ceil_log2 tx (JObj p) (JStr root) = Inr i"
    and "inj_on (sha3_hex cr) (blockInputs cr txs d \<union> proofInputs cr tx p)"
  shows "\<exists>k < length txs. fld p ''index'' = JNum (int k) \<and> canon (to_cval tx) = canon (to_cval (txs ! k)) \<and>
    committedTransactionId cr (txs ! k) = Inr i"
proof -
  let ?B = "blockInputs cr txs d \<union> proofInputs cr tx p"
  obtain leaves where leaves: "mapIndexed (leaf cr) 0 txs = Inr leaves"
    using assms(3) by (auto simp: transactionRoot_def levelsFor_def bind_r_Inr_iff)
  with assms(3) have root: "merkleRoot cr TRANSACTION_TREE d (leavesOf leaves) = Inr root"
    by (simp add: root_padded [OF assms(1,2)] map_err_Inr_iff)
  note each = mapIndexed_Inr [OF leaves]
  obtain total index position siblings where f: "proofFields cr (JObj p) (JStr root) = Inr (total, index, position, siblings)"
    and v: "(if length siblings \<noteq> ceil_log2 total then Inl Tree_depth_invalid
       else bind_r (leaf cr tx index) (\<lambda>l. bind_r (map_err Tree_encoding (climb cr TRANSACTION_TREE l position siblings)) (\<lambda>current.
         if JStr root \<noteq> JStr current then Inl Tree_root_mismatch else committedTransactionId cr tx))) = Inr i"
    using assms(4) by (auto simp: verifyTransactionProof_def bind_r_Inr_iff)
  from v obtain l where l: "leaf cr tx index = Inr l" "climb cr TRANSACTION_TREE l position siblings = Inr root" "committedTransactionId cr tx = Inr i"
    by (auto simp: bind_r_Inr_iff map_err_Inr_iff split: if_splits)
  from f obtain k where k: "safe_int (fld p ''index'') = Some k" "fld p ''siblings'' = JArr siblings" "index = fld p ''index''"
      "position = nat k" "0 \<le> k"
    by (auto simp: proofFields_def bind_r_Inr_iff split: option.splits jsval.splits if_splits)
  have leaf: "hashObject cr (leafObject index (JStr i)) ''TRANSACTION_TREE_LEAF'' = Inr l"
    using l by (auto simp: leaf_def idLeaf_def bind_r_Inr_iff if_Inl_Inr_iff map_err_Inr_iff)
  have B: "leafInputs cr tx index \<subseteq> ?B" "pathInputs cr TRANSACTION_TREE l position siblings \<subseteq> ?B" "treeInputs cr TRANSACTION_TREE d (leavesOf leaves) \<subseteq> ?B"
      "\<And>k. k < length txs \<Longrightarrow> leafInputs cr (txs ! k) (JNum (int k)) \<subseteq> ?B"
    using k l(1) leaves by (auto simp: proofInputs_def blockInputs_def)
  have own: "hashInput cr (leafObject index (JStr i)) ''TRANSACTION_TREE_LEAF'' \<subseteq> ?B" "hashInput cr tx ''TRANSACTION_ID'' \<subseteq> ?B"
    using B(1) l(3) by (auto simp: leafInputs_def)
  have at: "\<exists>j. committedTransactionId cr (txs ! k) = Inr j \<and>
      hashObject cr (leafObject (JNum (int k)) (JStr j)) ''TRANSACTION_TREE_LEAF'' = Inr (leaves ! k) \<and>
      hashInput cr (leafObject (JNum (int k)) (JStr j)) ''TRANSACTION_TREE_LEAF'' \<subseteq> ?B \<and>
      hashInput cr (txs ! k) ''TRANSACTION_ID'' \<subseteq> ?B" if "k < length txs" for k
  proof -
    have "leaf cr (txs ! k) (JNum (int k)) = Inr (leaves ! k)" using each that by simp
    then obtain j where "committedTransactionId cr (txs ! k) = Inr j" "idLeaf cr (JStr j) (JNum (int k)) = Inr (leaves ! k)"
      by (auto simp: leaf_def bind_r_Inr_iff)
    with B(4) [OF that] show ?thesis
      by (intro exI [of _ j]) (auto simp: leafInputs_def idLeaf_def if_Inl_Inr_iff map_err_Inr_iff)
  qed
  have "hashed_leaves cr TRANSACTION_TREE ?B (leavesOf leaves)"
    unfolding hashed_leaves_def leavesOf_def using at each by (metis option.distinct(1) option.inject transaction_tree_simps(3))
  moreover have "leaf_or_empty cr TRANSACTION_TREE ?B (Some l) l"
    using leaf own(1) by (auto simp: leaf_or_empty_def)
  ultimately have "leavesOf leaves (position mod 2 ^ d) = Some l"
    using path_to_leaf [OF transaction_domains(1) assms(5) _ root l(2) B(3,2)] by blast
  with each obtain m where m: "m < length txs" "leaves ! m = l" by (auto simp: leavesOf_def split: if_splits)
  obtain j where j: "committedTransactionId cr (txs ! m) = Inr j"
      "hashObject cr (leafObject (JNum (int m)) (JStr j)) ''TRANSACTION_TREE_LEAF'' = Inr l"
      "hashInput cr (leafObject (JNum (int m)) (JStr j)) ''TRANSACTION_TREE_LEAF'' \<subseteq> ?B"
      "hashInput cr (txs ! m) ''TRANSACTION_ID'' \<subseteq> ?B"
    using at [OF m(1)] m(2) by blast
  have "canon (to_cval (leafObject index (JStr i))) = canon (to_cval (leafObject (JNum (int m)) (JStr j)))"
    using same_hash [OF leaf j(2) assms(5) own(1) j(3)] by simp
  note e = canon_fld [OF this [unfolded leafObject_def]]
  have "i = j" using e [of "''transactionId''"] by (simp add: fld_def)
  have "canon (to_cval index) = CInt (int m)" using e [of "''index''"] by (simp add: fld_def [of "_ # _"])
  moreover have "safe_int index = Some k" using k(1,3) by simp
  ultimately have "index = JNum (int m)" by (cases index) auto
  moreover have "canon (to_cval tx) = canon (to_cval (txs ! m))"
    using same_hash [of cr tx "''TRANSACTION_ID''" i "txs ! m" "''TRANSACTION_ID''" ?B] l(3) j(1,4) own(2) assms(5) \<open>i = j\<close>
    by (simp add: committedTransactionId_def map_err_Inr_iff)
  ultimately show ?thesis using m(1) j(1) k(3) \<open>i = j\<close> by auto
qed

section \<open>Blocks to evaluate\<close>

lemma demo_sound: "sound_hash demo_crypto"
proof -
  have "is_hex64 (replicate 64 CHR ''d'')" by code_simp
  then show ?thesis using demo_keeps_ascii by (simp add: sound_hash_def demo_crypto_def)
qed

abbreviation demo_root :: string where
  "demo_root \<equiv> replicate 64 CHR ''d''"

definition demo_transaction :: "int \<Rightarrow> jsval" where
  "demo_transaction n = JObj [(''nonce'', JNum n)]"

lemma demo_transaction_ok: "is_safe_int n \<Longrightarrow> json_ok (demo_transaction n)"
  by (simp add: demo_transaction_def json_ok_def ascii_string_def unit_of_def MAX_STRING_BYTES_def MAX_DEPTH_def
      MAX_CONTAINER_ENTRIES_def MAX_ENCODED_BYTES_def)

lemma demo_hex: "is_hex64 (replicate 64 CHR ''d'')" "is_hex64 (replicate 64 CHR ''1'')" "is_hex64 (replicate 64 CHR ''3'')"
  "is_hex64 (replicate 64 CHR ''0'')" "is_hex64 (replicate 64 CHR ''4'')"
  by code_simp+

lemma leaf_json: "is_hex64 t \<Longrightarrow> is_safe_int n \<Longrightarrow> json_ok (leafObject (JNum n) (JStr t))"
  by (simp add: json_ok_def leafObject_def proof_keys hex_ascii MAX_DEPTH_def MAX_CONTAINER_ENTRIES_def
      MAX_ENCODED_BYTES_def hex_length)

lemma demo_leaf:
  assumes "is_safe_int n" and "is_safe_int i"
  shows "leaf demo_crypto (demo_transaction n) (JNum i) = Inr demo_root"
  using demo_hash [OF demo_transaction_ok [OF assms(1)] transaction_domains(2)]
    demo_hash [OF leaf_json [OF demo_hex(1) assms(2)] transaction_domains(5)]
  by (simp add: leaf_def committedTransactionId_def idLeaf_def demo_hex)

lemma demo_node: "nodeHash demo_crypto TRANSACTION_TREE (JStr demo_root) (JStr demo_root) = Inr demo_root"
  using demo_hash [OF node_json [OF demo_hex(1,1)] transaction_domains(3)] by (simp add: nodeHash_def)

lemma demo_empty: "emptyHash demo_crypto TRANSACTION_TREE level = Inr demo_root"
proof (induction level)
  case 0
  have "json_ok JNull" by code_simp
  from demo_hash [OF this transaction_domains(4)] show ?case by simp
next
  case (Suc level)
  then show ?case by (simp add: demo_node)
qed

lemma demo_safe: "is_safe_int 0" "is_safe_int 1" "is_safe_int 2" "is_safe_int 3"
  by code_simp+

definition demo_block :: "jsval list" where
  "demo_block = [demo_transaction 1, demo_transaction 2, demo_transaction 3]"

lemma demo_leaves: "mapIndexed (leaf demo_crypto) 0 demo_block = Inr [demo_root, demo_root, demo_root]"
  by (simp add: demo_block_def demo_leaf demo_safe)

lemma depth_three: "is_depth 3 2"
  by (simp add: is_depth_def less_Suc_eq numeral_2_eq_2)

theorem transaction_root_is_padded_tree_witness:
  "transactionRoot demo_crypto (JArr demo_block) = Inr demo_root"
proof -
  have "is_depth (length demo_block) 2" using depth_three by (simp add: demo_block_def eval_nat_numeral)
  from transaction_root_is_padded_tree [OF demo_sound this]
  show ?thesis by (simp add: demo_leaves leavesOf_def numeral_2_eq_2 demo_node demo_empty del: emptyHash.simps)
qed

text \<open>An exact \<open>Math.ceil(Math.log2(n))\<close>.\<close>

fun treeDepth :: "nat \<Rightarrow> nat" where
  "treeDepth n = (if n \<le> 1 then 0 else Suc (treeDepth ((n + 1) div 2)))"

declare treeDepth.simps [simp del]

lemma treeDepth_is_depth: "is_depth n (treeDepth n)"
proof (induction n rule: treeDepth.induct)
  case (1 n)
  show ?case
  proof (cases "n \<le> 1")
    case True
    then show ?thesis by (simp add: is_depth_def treeDepth.simps)
  next
    case False
    let ?e = "treeDepth ((n + 1) div 2)"
    have e: "is_depth ((n + 1) div 2) ?e" by (rule "1.IH" [OF False])
    have "2 ^ k < n" if "k < Suc ?e" for k
    proof (cases k)
      case (Suc j)
      then have "2 ^ j < (n + 1) div 2" using e that by (simp add: is_depth_def)
      with Suc show ?thesis by simp
    qed (use False in simp)
    moreover have "n \<le> 2 ^ Suc ?e" using e by (auto simp: is_depth_def)
    ultimately show ?thesis using False by (subst treeDepth.simps) (simp add: is_depth_def)
  qed
qed

theorem created_proof_verifies_witness:
  "\<exists>root i. transactionRoot demo_crypto (JArr demo_block) = Inr root \<and>
     committedTransactionId demo_crypto (demo_transaction 3) = Inr i \<and>
     verifyTransactionProof demo_crypto (\<lambda>n. treeDepth (nat n)) (demo_transaction 3)
       (proofObject (JNum 3) (JNum 2) [demo_root, demo_root]) (JStr root) = Inr i"
proof -
  have "exact_log2 (\<lambda>n. treeDepth (nat n))" by (simp add: exact_log2_def treeDepth_is_depth)
  moreover have "levelsFor demo_crypto (JArr demo_block) =
      Inr [[demo_root, demo_root, demo_root], [demo_root, demo_root], [demo_root]]"
    by (simp add: levelsFor_def levelsForLeaves_def demo_leaves levelsFrom.simps demo_node demo_empty del: emptyHash.simps)
  then have "createTransactionProofs demo_crypto demo_block (JArr (map JNum [2])) =
      Inr [proofObject (JNum 3) (JNum 2) [demo_root, demo_root]]"
    by (simp add: createTransactionProofs_def sibling_def siblingIndex_pair demo_empty demo_block_def MAX_SAFE_INTEGER_def
        Let_def del: emptyHash.simps)
  ultimately show ?thesis
    using created_proof_verifies [OF demo_sound, of "\<lambda>n. treeDepth (nat n)" demo_block "[2]" _ 0]
    by (simp add: demo_block_def)
qed

text \<open>
  A hash without collisions on a block of two transactions: it tells their identifiers and the node by
  their lengths, and the second leaf by its bytes.
\<close>

definition pair_block :: "jsval list" where
  "pair_block = [demo_transaction 1, JObj [(''nonce'', JNum 1), (''fee'', JStr ''1'')]]"

abbreviation hex_of :: "char \<Rightarrow> string" where
  "hex_of c \<equiv> replicate 64 c"

definition pair_crypto :: crypto where
  "pair_crypto = demo_crypto\<lparr>sha3_hex := (\<lambda>b. hex_of (
     if length b = 55 then CHR ''0'' else if length b = 69 then CHR ''1''
     else if b = payload ''TRANSACTION_TREE_LEAF'' (leafObject (JNum 1) (JStr (hex_of CHR ''1''))) then CHR ''3''
     else if length b = 149 then CHR ''4'' else CHR ''d''))\<rparr>"

definition pair_proof :: jsobj where
  "pair_proof = [(''count'', JNum 2), (''format'', JStr TRANSACTION_PROOF_FORMAT), (''index'', JNum 1),
     (''siblings'', JArr [JStr (hex_of CHR ''4'')])]"

lemma pair_sound: "sound_hash pair_crypto"
  using demo_keeps_ascii demo_hex by (simp add: sound_hash_def keeps_ascii_def pair_crypto_def demo_crypto_def)

lemma pair_sha: "sha3_hex pair_crypto b = hex_of (
     if length b = 55 then CHR ''0'' else if length b = 69 then CHR ''1''
     else if b = payload ''TRANSACTION_TREE_LEAF'' (leafObject (JNum 1) (JStr (hex_of CHR ''1''))) then CHR ''3''
     else if length b = 149 then CHR ''4'' else CHR ''d'')"
  by (simp add: pair_crypto_def)

lemma pair_hash:
  assumes "json_ok v" and "is_domain d"
  shows "hashInput pair_crypto v d = {payload d v}" and "hashObject pair_crypto v d = Inr (sha3_hex pair_crypto (payload d v))"
  using domainPayload_payload [of pair_crypto v d] pair_sound assms
  by (simp_all add: hashInput_def hashObject_def sound_hash_def)

lemma second_json: "json_ok (JObj [(''nonce'', JNum 1), (''fee'', JStr ''1'')])"
  by code_simp

lemmas pair_first = demo_transaction_ok [OF demo_safe(2)]
lemmas pair_leaf_json = leaf_json [OF demo_hex(4) demo_safe(1)] leaf_json [OF demo_hex(2) demo_safe(2)]
lemmas pair_node_json = node_json [OF demo_hex(5) demo_hex(3)]

lemma pair_lengths:
  "length (payload ''TRANSACTION_ID'' (demo_transaction 1)) = 55"
  "length (payload ''TRANSACTION_ID'' (JObj [(''nonce'', JNum 1), (''fee'', JStr ''1'')])) = 69"
  "length (payload ''TRANSACTION_TREE_LEAF'' (leafObject (JNum 0) (JStr (hex_of CHR ''0'')))) = 149"
  "length (payload ''TRANSACTION_TREE_LEAF'' (leafObject (JNum 1) (JStr (hex_of CHR ''1'')))) = 149"
  "length (payload ''TRANSACTION_TREE_NODE'' (nodeObject (JStr (hex_of CHR ''4'')) (JStr (hex_of CHR ''3'')))) = 200"
  unfolding payload_length [OF pair_first] payload_length [OF second_json] payload_length [OF pair_leaf_json(1)]
    payload_length [OF pair_leaf_json(2)] payload_length [OF pair_node_json]
  by (simp_all add: demo_transaction_def leafObject_def nodeObject_def)

lemma pair_leaves_differ:
  "payload ''TRANSACTION_TREE_LEAF'' (leafObject (JNum 0) (JStr (hex_of CHR ''0''))) \<noteq>
   payload ''TRANSACTION_TREE_LEAF'' (leafObject (JNum 1) (JStr (hex_of CHR ''1'')))"
proof
  assume eq: "payload ''TRANSACTION_TREE_LEAF'' (leafObject (JNum 0) (JStr (hex_of CHR ''0''))) =
    payload ''TRANSACTION_TREE_LEAF'' (leafObject (JNum 1) (JStr (hex_of CHR ''1'')))"
  note p = domainPayload_payload [OF demo_keeps_ascii pair_leaf_json(1) transaction_domains(5)]
    domainPayload_payload [OF demo_keeps_ascii pair_leaf_json(2) transaction_domains(5)]
  have "canon (to_cval (leafObject (JNum 0) (JStr (hex_of CHR ''0'')))) = canon (to_cval (leafObject (JNum 1) (JStr (hex_of CHR ''1''))))"
    using domainPayload_inj [OF p(1) [unfolded eq] p(2)] ..
  from canon_fld [OF this [unfolded leafObject_def], of "''index''"] show False by (simp add: fld_def)
qed

lemma pair_hashes:
  "hashObject pair_crypto (demo_transaction 1) ''TRANSACTION_ID'' = Inr (hex_of CHR ''0'')"
  "hashObject pair_crypto (JObj [(''nonce'', JNum 1), (''fee'', JStr ''1'')]) ''TRANSACTION_ID'' = Inr (hex_of CHR ''1'')"
  "hashObject pair_crypto (leafObject (JNum 0) (JStr (hex_of CHR ''0''))) ''TRANSACTION_TREE_LEAF'' = Inr (hex_of CHR ''4'')"
  "hashObject pair_crypto (leafObject (JNum 1) (JStr (hex_of CHR ''1''))) ''TRANSACTION_TREE_LEAF'' = Inr (hex_of CHR ''3'')"
  "hashObject pair_crypto (nodeObject (JStr (hex_of CHR ''4'')) (JStr (hex_of CHR ''3''))) ''TRANSACTION_TREE_NODE'' = Inr (hex_of CHR ''d'')"
  unfolding pair_hash(2) [OF pair_first transaction_domains(2)] pair_hash(2) [OF second_json transaction_domains(2)]
    pair_hash(2) [OF pair_leaf_json(1) transaction_domains(5)] pair_hash(2) [OF pair_leaf_json(2) transaction_domains(5)]
    pair_hash(2) [OF pair_node_json transaction_domains(3)] pair_sha
  using pair_lengths pair_leaves_differ by auto

lemma pair_tree:
  "mapIndexed (leaf pair_crypto) 0 pair_block = Inr [hex_of CHR ''4'', hex_of CHR ''3'']"
  "leaf pair_crypto (pair_block ! 1) (JNum 1) = Inr (hex_of CHR ''3'')"
  "transactionRoot pair_crypto (JArr pair_block) = Inr (hex_of CHR ''d'')"
proof -
  show l: "mapIndexed (leaf pair_crypto) 0 pair_block = Inr [hex_of CHR ''4'', hex_of CHR ''3'']"
    "leaf pair_crypto (pair_block ! 1) (JNum 1) = Inr (hex_of CHR ''3'')"
    by (simp_all add: pair_block_def leaf_def committedTransactionId_def idLeaf_def pair_hashes demo_hex)
  show "transactionRoot pair_crypto (JArr pair_block) = Inr (hex_of CHR ''d'')"
    by (simp add: transactionRoot_def levelsFor_def levelsForLeaves_def topOf_def l(1) levelsFrom.simps nodeHash_def pair_hashes)
qed

lemma pair_inputs:
  "blockInputs pair_crypto pair_block 1 \<union> proofInputs pair_crypto (pair_block ! 1) pair_proof \<subseteq>
   {payload ''TRANSACTION_ID'' (demo_transaction 1), payload ''TRANSACTION_ID'' (JObj [(''nonce'', JNum 1), (''fee'', JStr ''1'')]),
    payload ''TRANSACTION_TREE_LEAF'' (leafObject (JNum 0) (JStr (hex_of CHR ''0''))),
    payload ''TRANSACTION_TREE_LEAF'' (leafObject (JNum 1) (JStr (hex_of CHR ''1''))),
    payload ''TRANSACTION_TREE_NODE'' (nodeObject (JStr (hex_of CHR ''4'')) (JStr (hex_of CHR ''3'')))}"
proof -
  note in_sets = pair_hash(1) [OF pair_first transaction_domains(2)] pair_hash(1) [OF second_json transaction_domains(2)]
    pair_hash(1) [OF pair_leaf_json(1) transaction_domains(5)] pair_hash(1) [OF pair_leaf_json(2) transaction_domains(5)]
    pair_hash(1) [OF pair_node_json transaction_domains(3)]
  have block: "(\<Union>i < length pair_block. leafInputs pair_crypto (pair_block ! i) (JNum (int i))) =
      {payload ''TRANSACTION_ID'' (demo_transaction 1), payload ''TRANSACTION_ID'' (JObj [(''nonce'', JNum 1), (''fee'', JStr ''1'')]),
       payload ''TRANSACTION_TREE_LEAF'' (leafObject (JNum 0) (JStr (hex_of CHR ''0''))),
       payload ''TRANSACTION_TREE_LEAF'' (leafObject (JNum 1) (JStr (hex_of CHR ''1'')))}"
    by (auto simp: pair_block_def leafInputs_def committedTransactionId_def pair_hashes in_sets lessThan_Suc)
  have tree: "treeInputs pair_crypto TRANSACTION_TREE 1 (leavesOf [hex_of CHR ''4'', hex_of CHR ''3'']) =
      {payload ''TRANSACTION_TREE_NODE'' (nodeObject (JStr (hex_of CHR ''4'')) (JStr (hex_of CHR ''3'')))}"
    by (simp add: in_sets leavesOf_def)
  have own: "leafInputs pair_crypto (pair_block ! 1) (JNum 1) =
      {payload ''TRANSACTION_ID'' (JObj [(''nonce'', JNum 1), (''fee'', JStr ''1'')]),
       payload ''TRANSACTION_TREE_LEAF'' (leafObject (JNum 1) (JStr (hex_of CHR ''1'')))}"
    by (simp add: pair_block_def leafInputs_def committedTransactionId_def pair_hashes in_sets insert_commute)
  have path: "pathInputs pair_crypto TRANSACTION_TREE (hex_of CHR ''3'') 1 [JStr (hex_of CHR ''4'')] =
      {payload ''TRANSACTION_TREE_NODE'' (nodeObject (JStr (hex_of CHR ''4'')) (JStr (hex_of CHR ''3'')))}"
    by (simp add: pathInputs_def climbNode_def in_sets)
  have fields: "fld pair_proof ''index'' = JNum 1" "fld pair_proof ''siblings'' = JArr [JStr (hex_of CHR ''4'')]"
    by (simp_all add: pair_proof_def fld_def)
  have tree': "{b. \<exists>leaves. mapIndexed (leaf pair_crypto) 0 pair_block = Inr leaves \<and> b \<in> treeInputs pair_crypto TRANSACTION_TREE 1 (leavesOf leaves)} =
      {payload ''TRANSACTION_TREE_NODE'' (nodeObject (JStr (hex_of CHR ''4'')) (JStr (hex_of CHR ''3'')))}"
    using tree by (simp add: pair_tree(1) del: treeInputs.simps One_nat_def)
  have path': "{b. \<exists>l k siblings. leaf pair_crypto (pair_block ! 1) (JNum 1) = Inr l \<and> safe_int (JNum 1) = Some k \<and>
        JArr [JStr (hex_of CHR ''4'')] = JArr siblings \<and> b \<in> pathInputs pair_crypto TRANSACTION_TREE l (nat k) siblings} =
      {payload ''TRANSACTION_TREE_NODE'' (nodeObject (JStr (hex_of CHR ''4'')) (JStr (hex_of CHR ''3'')))}"
    using path unfolding pair_tree(2) by (simp add: MAX_SAFE_INTEGER_def)
  show ?thesis
    unfolding blockInputs_def proofInputs_def block fields own tree' path' by simp
qed

lemma pair_injective:
  "inj_on (sha3_hex pair_crypto) (blockInputs pair_crypto pair_block 1 \<union> proofInputs pair_crypto (pair_block ! 1) pair_proof)"
  by (rule inj_on_subset [OF _ pair_inputs])
    (use pair_lengths pair_leaves_differ in \<open>simp add: inj_on_def pair_sha\<close>)

theorem accepted_proof_is_of_the_block_witness:
  "\<exists>k < 2. fld pair_proof ''index'' = JNum (int k) \<and> canon (to_cval (pair_block ! 1)) = canon (to_cval (pair_block ! k)) \<and>
    committedTransactionId pair_crypto (pair_block ! k) = Inr (hex_of CHR ''1'')"
proof -
  have two: "length pair_block = 2" by (simp add: pair_block_def)
  have proof_obj: "JObj pair_proof = proofObject (JNum (int 2)) (JNum (int 1)) [hex_of CHR ''4'']"
    by (simp add: pair_proof_def proofObject_def)
  obtain t where "strictCanonicalJson (nfc pair_crypto) (to_cval (JObj pair_proof)) = Inr t"
      "length (utf8 (map unat t)) \<le> MAX_TRANSACTION_PROOF_BYTES"
    using proof_small [of pair_crypto "[hex_of CHR ''4'']" 2 1] pair_sound demo_hex unfolding proof_obj sound_hash_def by auto
  then have "proofFields pair_crypto (JObj pair_proof) (JStr (hex_of CHR ''d'')) =
      Inr (2, JNum 1, 1, [JStr (hex_of CHR ''4'')])"
    by (simp add: proofFields_def pair_proof_def fld_def demo_hex MAX_SAFE_INTEGER_def del: to_cval.simps)
  then have accepted: "verifyTransactionProof pair_crypto (\<lambda>n. treeDepth (nat n)) (pair_block ! 1) (JObj pair_proof) (JStr (hex_of CHR ''d'')) =
      Inr (hex_of CHR ''1'')"
    using pair_tree(2) by (simp add: verifyTransactionProof_def treeDepth.simps nodeHash_def pair_hashes
        committedTransactionId_def pair_block_def)
  have "is_depth (length pair_block) 1" by (simp add: is_depth_def two)
  from accepted_proof_is_of_the_block [OF pair_sound this pair_tree(3) accepted pair_injective]
  show ?thesis unfolding two .
qed

end
