(* ===== verification/Spec2Isabelle.thy ===== *)
theory Spec2Isabelle
  imports AccountTree Dispatch LightClient ProofSnapshot Mandates Rewards Snapshot TransactionTree
begin

text \<open>
  \<^bold>\<open>The NIR chain: a model of its consensus code.\<close>

  NIR is a proof-of-progress chain: validators order transactions and finalize blocks by
  certificates of two thirds, miners earn issuance by answering clique tasks or by measured
  progress, and every hash and signature is taken over one canonical encoding. The code is
  JavaScript, under \<open>src/blockchain\<close>. A block is applied by \<open>NirChain.#applyBlock\<close> of \<open>chain.mjs\<close>:
  it copies the maps of the chain, calls a handler for each transaction, settles what matures, and
  replaces the maps when nothing threw. The components around it (transfers, names, proof mining,
  mandates, codec, trees) are modules of pure functions over maps.

  \<^bold>\<open>How the code is translated.\<close> A value read from JSON is a \<open>jsval\<close>; a field that is missing reads
  as \<open>JUndef\<close>. A \<open>Map\<close> is a list of entries in insertion order with distinct keys (\<open>jsmap\<close>), a
  \<open>Set\<close> such a list of units. A function that may throw returns a sum, \<open>Inl\<close> of the module's own
  error type or \<open>Inr\<close> of the value and the changed state; \<open>bind_r\<close> is the sequence of two statements
  and \<open>foldM\<close> a loop. Numbers are integers with the checks of \<open>Number.isSafeInteger\<close> where the code
  has them; bigints are integers; strings of the codec are lists of 16-bit words, so surrogates and
  UTF-8 lengths are those of the code; 32-bit operators are on 32-bit words. SHA3-256, ML-DSA-65,
  \<open>Buffer.from\<close> and Unicode normalization are the fields of the record \<open>crypto\<close>; nothing is assumed of
  them in a definition. A theorem that needs it names the hypothesis: \<open>inj_on (sha3_hex cr) B\<close> for
  the finite set of byte strings the two sides hash, \<open>keeps_ascii\<close> for a normalization that leaves
  ASCII alone, \<open>sound_hash\<close> for hashes of 64 hexadecimal digits.

  \<^bold>\<open>Theories and the code they model.\<close>

  \<^item> \<open>Prelude\<close>, \<open>Js_Map\<close>, \<open>Snapshot\<close>: results, JavaScript values, maps, safe integers, regular
    expressions and the parsing of snapshot lists; the locales \<open>guarded_machine\<close>,
    \<open>conserving_machine\<close> and \<open>value_store\<close> with what a run of guarded steps and a settlement of
    deltas keep.
  \<^item> \<open>Constants\<close>: \<open>constants.mjs\<close> and the schedules of \<open>chain.mjs\<close>: vesting, halving, epochs.
  \<^item> \<open>Codec\<close>, \<open>ConsensusJson\<close>, \<open>Crypto\<close>: \<open>consensus-codec.mjs\<close>, \<open>consensus-json.mjs\<close> and \<open>crypto.mjs\<close>:
    the byte encoding and its domains, the canonical text and its strict parser, hashes and
    signatures over them. The lemmas characterize what is accepted, and show both forms injective
    up to the order of keys.
  \<^item> \<open>Transfers\<close>, \<open>Names\<close>, \<open>Mandates\<close>, \<open>CliqueSearch\<close>, \<open>ProofMining\<close>, \<open>ProofSnapshot\<close>: the modules
    \<open>transfer-state-transition.mjs\<close>, \<open>name-registry.mjs\<close>, \<open>agent-mandate-transition.mjs\<close>,
    \<open>clique-search.mjs\<close>, \<open>proof-difficulty.mjs\<close> and \<open>proof-mining-state.mjs\<close>. Each has its state, its
    operations, the exact effect of each operation, and an invariant all of them keep.
  \<^item> \<open>Merkle\<close>, \<open>TransactionTree\<close>, \<open>AccountHistory\<close>, \<open>AccountTree\<close>: the three hash trees of a header,
    \<open>transaction-tree.mjs\<close>, \<open>account-history.mjs\<close> and \<open>account-tree.mjs\<close>. \<open>Merkle\<close> holds the tree they
    are instances of, given by a partial function from positions to leaves; the code's loops (levels,
    frontier, maps of prefixes) are shown to compute its root, and an accepted path to start at
    the leaf of its position. \<open>Single_Leaf\<close> is a tree with a hash without collisions, for witnesses.
  \<^item> \<open>Ledger\<close>: the maps of \<open>#applyBlock\<close> as one record of sub-records, the schemas of transactions,
    the checks every handler repeats, what a ledger is worth, and the relation \<open>keeps\<close> between the
    ledgers before and after a handler.
  \<^item> \<open>Accounts\<close>, \<open>Assets\<close>, \<open>Validators\<close>, \<open>Beacons\<close>, \<open>Handlers\<close>, \<open>Equivocation\<close>: the handlers of
    \<open>chain.mjs\<close>, with \<open>operators.mjs\<close>, \<open>beacon-rotation.mjs\<close> and \<open>validator-equivocation.mjs\<close>. Each
    handler \<open>keeps\<close> the ledger.
  \<^item> \<open>Dispatch\<close>: the loop of \<open>#applyBlock\<close> over the transactions of a block, which composes the
    handlers and the account histories: value is conserved, no transaction is applied twice, and
    every history grows by the identifiers of its account's transactions.
  \<^item> \<open>Rewards\<close>: scores of progress and the split of an epoch's budget.
  \<^item> \<open>Quorums\<close>, \<open>Finality\<close>: headers, hashes and certificates of blocks, and why two certificates
    share an honest voter. \<open>Quorums\<close> has the locales \<open>quorum_system\<close> and \<open>vote_count\<close> the checks of
    prepare, commit and timeout votes, rotations and credentials are interpreted in.
  \<^item> \<open>Handoff\<close>: \<open>validator-rotation.mjs\<close> and \<open>validator-handoff.mjs\<close>, the set a block schedules and the
    handoff by which clients follow it. Histories of handoffs accepted from one set agree, unless a
    third of a set signed two.
  \<^item> \<open>Upgrades\<close>: \<open>protocol-upgrade.mjs\<close>, the version in force at each height. Over runs of blocks the
    version changes exactly as scheduled. The function that authorizes an upgrade is an argument.
  \<^item> \<open>LightClient\<close>: \<open>light-client.mjs\<close>, the client that follows headers, upgrades and handoffs from a
    checkpoint. Two clients accept the same blocks, unless a third of one set signed both sides of a
    fork; and what \<open>Finality\<close> finalizes, a client accepts.

  \<^bold>\<open>Bounds.\<close> Recursion is structural or has a termination proof, so no fuel is used, with one
  exception written as an error: the doubling loop of \<open>clique-search.mjs\<close> diverges on a level that is
  no number of its range, and \<open>Clique_search_diverges\<close> stands for that; \<open>clique_parameters_least\<close> shows
  that valid levels never reach it. The parser of \<open>ConsensusJson\<close> tests that its loops consume input,
  which \<open>parse_reads\<close> shows always true. Witnesses run the model on concrete blocks with stand-in
  hashes: a constant, a function of the length, or a numbering of the byte strings that are hashed.

  \<^bold>\<open>Not modelled.\<close> The six handlers for progress commitments, validator admission, readiness,
  admission omission, recovery plans and recovery, for which \<open>Dispatch\<close> answers \<open>Not_modelled\<close>; the parts
  of \<open>#applyBlock\<close> before and after the transactions (settlements, rotations, evaluation committees);
  candidate evaluation, which runs sandboxed programs; networking, services, storage, wallets, user
  interfaces and release tooling, whose logic is input and output. \<open>Math.log2\<close>, which the language
  leaves to the implementation, and the order of \<open>localeCompare\<close>, which is that of the host's
  locale, are parameters. So are the release log that authorizes upgrades and, in \<open>LightClient\<close>, its
  anchor and heads; the recovery transition and the evaluation assignments of light clients are not modelled.
\<close>

end
